(* ===== verification/Prelude.thy ===== *)
theory Prelude
  imports Main "HOL-Library.Word" "HOL-Library.Monad_Syntax"
begin

unbundle bit_operations_syntax

text \<open>
  Shared vocabulary of the development.

  \<^item> \<open>byte\<close> is \<open>uint8_t\<close>; fixed width integers are words of HOL-Library.Word, so that
    additions and subtractions wrap around as they do in the code.
  \<^item> A C array is a list. Reading or writing outside it is undefined behaviour in C++; in the
    model the computation has no result: every operation that touches an array through a
    computed offset returns an \<open>option\<close>, and \<open>None\<close> is exactly "the code accesses memory
    outside the array". The monad of \<open>option\<close> (do blocks) threads that outcome.
  \<^item> \<open>GETBITS\<close> and \<open>TESTBITS\<close> are the two macros of \<open>rmf_oobsiparser.h\<close>; \<open>be16\<close>, \<open>be32\<close>
    and \<open>be12\<close> are the shift-and-or expressions by which the parsers assemble big endian fields.
  \<^item> \<open>holds_at buf p xs\<close> says that the bytes \<open>xs\<close> stand in \<open>buf\<close> from offset \<open>p\<close> on: the
    precondition under which the parsers are proved to decode an encoded table.
\<close>

named_theorems si_defs \<open>small definitions the component proofs unfold\<close>
named_theorems enc_simps \<open>encoders and their inverses\<close>

type_synonym byte = "8 word"
type_synonym rmf_Error = nat

section \<open>Result codes\<close>

abbreviation (input) RMF_SUCCESS :: rmf_Error where "RMF_SUCCESS \<equiv> 0"
abbreviation (input) NO_PARSING_ERROR :: rmf_Error where "NO_PARSING_ERROR \<equiv> 0"
abbreviation (input) RMF_OSAL_EINVAL :: rmf_Error where "RMF_OSAL_EINVAL \<equiv> 0x101"
abbreviation (input) RMF_SF_ERROR_INVALID_SECTION_HANDLE :: rmf_Error where
  "RMF_SF_ERROR_INVALID_SECTION_HANDLE \<equiv> 0x2002"
abbreviation (input) RMF_SF_ERROR_SECTION_NOT_AVAILABLE :: rmf_Error where
  "RMF_SF_ERROR_SECTION_NOT_AVAILABLE \<equiv> 0x2003"
abbreviation (input) RMF_SI_NOT_FOUND :: rmf_Error where "RMF_SI_NOT_FOUND \<equiv> 0x4001"
abbreviation (input) RMF_SI_OUT_OF_MEM :: rmf_Error where "RMF_SI_OUT_OF_MEM \<equiv> 0x4002"
abbreviation (input) RMF_SI_INVALID_PARAMETER :: rmf_Error where "RMF_SI_INVALID_PARAMETER \<equiv> 0x4003"
abbreviation (input) RMF_SI_NOT_AVAILABLE :: rmf_Error where "RMF_SI_NOT_AVAILABLE \<equiv> 0x4005"
abbreviation (input) RMF_SI_NOT_AVAILABLE_YET :: rmf_Error where "RMF_SI_NOT_AVAILABLE_YET \<equiv> 0x4006"
abbreviation (input) RMF_SI_PARSE_ERROR :: rmf_Error where "RMF_SI_PARSE_ERROR \<equiv> 0x400B"

section \<open>Arrays with checked access\<close>

definition rd :: "'a list \<Rightarrow> nat \<Rightarrow> 'a option" where
  "rd buf i = (if i < length buf then Some (buf ! i) else None)"

definition wr :: "'a list \<Rightarrow> nat \<Rightarrow> 'a \<Rightarrow> 'a list option" where
  "wr buf i v = (if i < length buf then Some (buf[i := v]) else None)"

text \<open>\<open>memcpy (dst, src + off, n)\<close>.\<close>

definition memcpy :: "'a list \<Rightarrow> 'a list \<Rightarrow> nat \<Rightarrow> nat \<Rightarrow> 'a list option" where
  "memcpy dst src off n =
     (if n \<le> length dst \<and> off + n \<le> length src
      then Some (take n (drop off src) @ drop n dst) else None)"

lemma rd_Some: "rd buf i = Some v \<longleftrightarrow> i < length buf \<and> buf ! i = v"
  by (auto simp: rd_def)

lemma rd_None: "rd buf i = None \<longleftrightarrow> length buf \<le> i"
  by (auto simp: rd_def)

lemma rd_in: "i < length buf \<Longrightarrow> rd buf i = Some (buf ! i)"
  by (simp add: rd_def)

lemma rd_SomeD: "rd buf i = Some v \<Longrightarrow> i < length buf"
  by (simp add: rd_Some)

lemma length_wr: "wr buf i v = Some buf' \<Longrightarrow> length buf' = length buf"
  by (auto simp: wr_def split: if_splits)

lemma memcpy_length: "memcpy dst src off n = Some dst' \<Longrightarrow> length dst' = length dst"
  by (auto simp: memcpy_def split: if_splits)

lemma memcpy_nth:
  assumes "memcpy dst src off n = Some dst'" and "i < length dst"
  shows "dst' ! i = (if i < n then src ! (off + i) else dst ! i)"
proof -
  from assms have "n \<le> length dst" "off + n \<le> length src"
      and d: "dst' = take n (drop off src) @ drop n dst"
    by (auto simp: memcpy_def split: if_splits)
  then show ?thesis using assms(2) by (simp add: nth_append)
qed

fun holds_at :: "'a list \<Rightarrow> nat \<Rightarrow> 'a list \<Rightarrow> bool" where
  "holds_at buf p [] = True"
| "holds_at buf p (x # xs) = (rd buf p = Some x \<and> holds_at buf (Suc p) xs)"

lemma holds_at_append [simp]:
  "holds_at buf p (xs @ ys) \<longleftrightarrow> holds_at buf p xs \<and> holds_at buf (p + length xs) ys"
  by (induction xs arbitrary: p) auto

text \<open>A struct of n octets in front of the rest, at the offsets by which the code reads it.\<close>

lemma holds_at_2:
  "holds_at buf p (a # b # xs) \<longleftrightarrow>
     rd buf p = Some a \<and> rd buf (p + 1) = Some b \<and> holds_at buf (p + 2) xs"
  by (simp add: eval_nat_numeral)

lemma holds_at_3:
  "holds_at buf p (a # b # c # xs) \<longleftrightarrow>
     rd buf p = Some a \<and> rd buf (p + 1) = Some b \<and> rd buf (p + 2) = Some c \<and>
     holds_at buf (p + 3) xs"
  by (simp add: eval_nat_numeral)

lemma holds_at_4:
  "holds_at buf p (a # b # c # d # xs) \<longleftrightarrow>
     rd buf p = Some a \<and> rd buf (p + 1) = Some b \<and> rd buf (p + 2) = Some c \<and>
     rd buf (p + 3) = Some d \<and> holds_at buf (p + 4) xs"
  by (simp add: eval_nat_numeral)

lemma holds_at_5:
  "holds_at buf p (a # b # c # d # e # xs) \<longleftrightarrow>
     rd buf p = Some a \<and> rd buf (p + 1) = Some b \<and> rd buf (p + 2) = Some c \<and>
     rd buf (p + 3) = Some d \<and> rd buf (p + 4) = Some e \<and> holds_at buf (p + 5) xs"
  by (simp add: eval_nat_numeral)

lemma holds_at_6:
  "holds_at buf p (a # b # c # d # e # f # xs) \<longleftrightarrow>
     rd buf p = Some a \<and> rd buf (p + 1) = Some b \<and> rd buf (p + 2) = Some c \<and>
     rd buf (p + 3) = Some d \<and> rd buf (p + 4) = Some e \<and> rd buf (p + 5) = Some f \<and>
     holds_at buf (p + 6) xs"
  by (simp add: eval_nat_numeral)

lemma holds_at_7:
  "holds_at buf p (a # b # c # d # e # f # g # xs) \<longleftrightarrow>
     rd buf p = Some a \<and> rd buf (p + 1) = Some b \<and> rd buf (p + 2) = Some c \<and>
     rd buf (p + 3) = Some d \<and> rd buf (p + 4) = Some e \<and> rd buf (p + 5) = Some f \<and>
     rd buf (p + 6) = Some g \<and> holds_at buf (p + 7) xs"
  by (simp add: eval_nat_numeral)

lemma holds_at_8:
  "holds_at buf p (a # b # c # d # e # f # g # h # xs) \<longleftrightarrow>
     rd buf p = Some a \<and> rd buf (p + 1) = Some b \<and> rd buf (p + 2) = Some c \<and>
     rd buf (p + 3) = Some d \<and> rd buf (p + 4) = Some e \<and> rd buf (p + 5) = Some f \<and>
     rd buf (p + 6) = Some g \<and> rd buf (p + 7) = Some h \<and> holds_at buf (p + 8) xs"
  by (simp add: eval_nat_numeral)

lemma holds_at_9:
  "holds_at buf p (a # b # c # d # e # f # g # h # i # xs) \<longleftrightarrow>
     rd buf p = Some a \<and> rd buf (p + 1) = Some b \<and> rd buf (p + 2) = Some c \<and>
     rd buf (p + 3) = Some d \<and> rd buf (p + 4) = Some e \<and> rd buf (p + 5) = Some f \<and>
     rd buf (p + 6) = Some g \<and> rd buf (p + 7) = Some h \<and> rd buf (p + 8) = Some i \<and>
     holds_at buf (p + 9) xs"
  by (simp add: eval_nat_numeral)

lemma holds_at_rd: "holds_at buf p xs \<Longrightarrow> i < length xs \<Longrightarrow> rd buf (p + i) = Some (xs ! i)"
proof (induction xs arbitrary: p i)
  case (Cons x xs)
  show ?case
  proof (cases i)
    case (Suc j)
    with Cons.prems Cons.IH[of "Suc p" j] show ?thesis by simp
  qed (use Cons.prems in simp)
qed simp

lemma holds_at_length: "holds_at buf p xs \<Longrightarrow> xs \<noteq> [] \<Longrightarrow> p + length xs \<le> length buf"
proof (induction xs arbitrary: p)
  case (Cons x xs)
  show ?case
  proof (cases "xs = []")
    case True
    with Cons.prems show ?thesis by (simp add: rd_Some)
  next
    case False
    with Cons.prems Cons.IH[of "Suc p"] show ?thesis by simp
  qed
qed simp

lemma holds_at_shift: "holds_at (zs @ ws) (length zs + p) xs = holds_at ws p xs"
  by (induction xs arbitrary: p) (simp_all add: rd_def nth_append flip: add_Suc_right)

lemma holds_at_self [simp]: "holds_at (xs @ ys) 0 xs"
proof (induction xs)
  case (Cons x xs)
  then show ?case using holds_at_shift[of "[x]" "xs @ ys" 0 xs] by (simp add: rd_def)
qed simp

section \<open>Bit fields\<close>

definition TESTBITS :: "byte \<Rightarrow> nat \<Rightarrow> nat \<Rightarrow> 32 word" where
  "TESTBITS src msbit lsbit =
     push_bit (lsbit - 1) (push_bit (msbit - lsbit + 1) 1 - 1) AND ucast src"

definition GETBITS :: "byte \<Rightarrow> nat \<Rightarrow> nat \<Rightarrow> 32 word" where
  "GETBITS src msbit lsbit =
     drop_bit (lsbit - 1)
       (push_bit (lsbit - 1) (push_bit (msbit - lsbit + 1) 1 - 1) AND ucast src)"

definition be16 :: "byte \<Rightarrow> byte \<Rightarrow> 16 word" where
  "be16 hi lo = push_bit 8 (ucast hi) OR ucast lo"

definition be32 :: "byte \<Rightarrow> byte \<Rightarrow> byte \<Rightarrow> byte \<Rightarrow> 32 word" where
  "be32 a b c d =
     push_bit 24 (ucast a) OR push_bit 16 (ucast b) OR push_bit 8 (ucast c) OR ucast d"

text \<open>The 12 bit length and channel number fields: \<open>(GETBITS(a, 4, 1) << 8) | b\<close>.\<close>

definition be12 :: "byte \<Rightarrow> byte \<Rightarrow> 32 word" where
  "be12 hi lo = push_bit 8 (GETBITS hi 4 1) OR ucast lo"

lemma byte_bit: "bit (b :: byte) n \<Longrightarrow> n < 8"
  using bit_imp_le_length[of b n] by simp

lemma unat_byte [simp]: "unat (b :: byte) < 256"
  using unsigned_less[of b] by simp

lemma unat_byte_le [simp]: "unat (b :: byte) \<le> 255"
  using unat_byte[of b] by linarith

lemma unat_of_nat_byte [simp]: "n < 256 \<Longrightarrow> unat (word_of_nat n :: byte) = n"
  by (simp add: unat_of_nat)

lemma of_nat_byte_eq:
  "n < 256 \<Longrightarrow> (word_of_nat n :: byte) = 0 \<longleftrightarrow> n = 0"
  "n < 256 \<Longrightarrow> (word_of_nat n :: byte) = 1 \<longleftrightarrow> n = 1"
  by (simp_all add: word_unat_eq_iff del: of_nat_eq_0_iff)

lemma unat_ucast_byte [simp]:
  "unat (ucast (b :: byte) :: 16 word) = unat b" "unat (ucast b :: 32 word) = unat b"
  using unat_byte[of b]
  by (simp_all add: unsigned_ucast_eq take_bit_nat_eq_self del: unat_byte)

lemma exp_minus_1_mask: "push_bit n 1 - 1 = (mask n :: 32 word)"
  by (simp add: mask_eq_exp_minus_1 push_bit_eq_mult)

lemma bit_TESTBITS:
  assumes "1 \<le> l" "l \<le> m" "m \<le> 32"
  shows "bit (TESTBITS b m l) n \<longleftrightarrow> l - 1 \<le> n \<and> n < m \<and> bit b n"
  unfolding TESTBITS_def exp_minus_1_mask using assms by (auto simp: bit_simps dest: byte_bit)

lemma GETBITS_eq:
  assumes "1 \<le> l" "l \<le> m" "m \<le> 32"
  shows "GETBITS b m l = take_bit (m - l + 1) (drop_bit (l - 1) (ucast b))"
  unfolding GETBITS_def exp_minus_1_mask
  by (rule bit_word_eqI) (use assms in \<open>auto simp: bit_simps dest: byte_bit\<close>)

lemma unat_GETBITS:
  assumes "1 \<le> l" "l \<le> m" "m \<le> 32"
  shows "unat (GETBITS b m l) = unat b div 2 ^ (l - 1) mod 2 ^ (m - l + 1)"
proof -
  show ?thesis
    by (simp only: GETBITS_eq[OF assms] unsigned_take_bit_eq unsigned_drop_bit_eq unat_ucast_byte)
      (simp add: take_bit_eq_mod drop_bit_eq_div mod_less less_trans[OF unat_byte])
qed

lemma TESTBITS_eq_push:
  assumes "1 \<le> l" "l \<le> m" "m \<le> 32"
  shows "TESTBITS b m l = push_bit (l - 1) (GETBITS b m l)"
  by (rule bit_word_eqI)
    (use assms in \<open>auto simp: GETBITS_eq bit_TESTBITS bit_simps dest: byte_bit\<close>)

lemma TESTBITS_eq_0:
  assumes "1 \<le> l" "l \<le> m" "m \<le> 32"
  shows "TESTBITS b m l = 0 \<longleftrightarrow> unat b div 2 ^ (l - 1) mod 2 ^ (m - l + 1) = 0"
proof -
  have "GETBITS b m l = drop_bit (l - 1) (TESTBITS b m l)"
    by (simp add: GETBITS_def TESTBITS_def)
  with TESTBITS_eq_push[OF assms, of b] have "TESTBITS b m l = 0 \<longleftrightarrow> GETBITS b m l = 0"
    by auto
  also have "\<dots> \<longleftrightarrow> unat (GETBITS b m l) = 0" by (simp add: unat_eq_0)
  finally show ?thesis by (simp add: unat_GETBITS[OF assms])
qed

lemma unat_be16: "unat (be16 hi lo) = 256 * unat hi + unat lo"
proof -
  have "be16 hi lo = push_bit 8 (ucast hi) + ucast lo"
    unfolding be16_def by (rule disjunctive_add[symmetric]) (auto simp: bit_simps dest: byte_bit)
  then have "unat (be16 hi lo) = (256 * unat hi + unat lo) mod 65536"
    by (simp add: push_bit_eq_mult unat_word_ariths mult.commute mod_add_left_eq)
  then show ?thesis using unat_byte[of hi] unat_byte[of lo] by simp
qed

lemma be16_of_nat: "n < 65536 \<Longrightarrow> be16 (word_of_nat (n div 256)) (word_of_nat (n mod 256)) = word_of_nat n"
  by (rule word_unat_eq_iff[THEN iffD2]) (simp add: unat_be16 unat_of_nat)

lemma unat_be12: "unat (be12 hi lo) = 256 * (unat hi mod 16) + unat lo"
proof -
  have g: "unat (GETBITS hi 4 1) = unat hi mod 16" by (subst unat_GETBITS) simp_all
  have "be12 hi lo = push_bit 8 (GETBITS hi 4 1) + ucast lo"
    unfolding be12_def by (rule disjunctive_add[symmetric]) (auto simp: bit_simps dest: byte_bit)
  then have "unat (be12 hi lo) = (256 * (unat hi mod 16) + unat lo) mod 2 ^ 32"
    by (simp add: g[simplified] push_bit_eq_mult unat_word_ariths mult.commute mod_add_left_eq)
  moreover have "unat hi mod 16 \<le> 15" by simp
  ultimately show ?thesis using unat_byte[of lo] by simp
qed

lemma unat_be12_less: "unat (be12 hi lo) < 4096"
  using unat_be12[of hi lo] unat_byte[of lo] mod_less_divisor[of 16 "unat hi"] by linarith

lemma unat_be32:
  "unat (be32 a b c d) = 2 ^ 24 * unat a + 2 ^ 16 * unat b + 2 ^ 8 * unat c + unat d"
proof -
  have 1: "be32 a b c d
      = push_bit 24 (ucast a) OR (push_bit 16 (ucast b) OR (push_bit 8 (ucast c) OR ucast d))"
    by (simp add: be32_def or.assoc)
  have 2: "\<dots> = push_bit 24 (ucast a) + (push_bit 16 (ucast b) OR (push_bit 8 (ucast c) OR ucast d))"
    by (rule disjunctive_add[symmetric]) (auto simp: bit_simps dest: byte_bit)
  have 3: "push_bit 16 (ucast b) OR (push_bit 8 (ucast c) OR ucast d)
      = push_bit 16 (ucast b) + (push_bit 8 (ucast c) OR ucast d :: 32 word)"
    by (rule disjunctive_add[symmetric]) (auto simp: bit_simps dest: byte_bit)
  have 4: "push_bit 8 (ucast c) OR ucast d = push_bit 8 (ucast c) + (ucast d :: 32 word)"
    by (rule disjunctive_add[symmetric]) (auto simp: bit_simps dest: byte_bit)
  have "unat (be32 a b c d)
      = (2 ^ 24 * unat a + 2 ^ 16 * unat b + 2 ^ 8 * unat c + unat d) mod 2 ^ 32"
    unfolding 1 unfolding 2 unfolding 3 unfolding 4
    by (simp add: push_bit_eq_mult unat_word_ariths mult.commute mod_simps add.assoc)
  then show ?thesis using unat_byte[of a] unat_byte[of b] unat_byte[of c] unat_byte[of d] by simp
qed

section \<open>Total correctness\<close>

text \<open>
  \<open>wp Q r\<close>: the computation \<open>r\<close> is defined and its result satisfies \<open>Q\<close>. The equations push it through a do
  block; an operation is used through \<open>wp_weaken\<close> with the fact that describes it.
\<close>

definition wp :: "('a \<Rightarrow> bool) \<Rightarrow> 'a option \<Rightarrow> bool" where
  "wp Q r \<longleftrightarrow> (\<exists>x. r = Some x \<and> Q x)"

lemma wp_simps [simp]:
  "wp Q (Some x) \<longleftrightarrow> Q x"
  "\<not> wp Q None"
  "wp Q (Option.bind r f) \<longleftrightarrow> wp (\<lambda>x. wp Q (f x)) r"
  by (auto simp: wp_def bind_eq_Some_conv)

lemma wp_weaken: "wp P r \<Longrightarrow> (\<And>x. P x \<Longrightarrow> Q x) \<Longrightarrow> wp Q r"
  by (auto simp: wp_def)

lemma wpE: "wp Q r \<Longrightarrow> (\<And>x. r = Some x \<Longrightarrow> Q x \<Longrightarrow> thesis) \<Longrightarrow> thesis"
  by (auto simp: wp_def)

lemma wp_rd: "i < length buf \<Longrightarrow> wp Q (rd buf i) \<longleftrightarrow> Q (buf ! i)"
  by (simp add: rd_def)

lemma wp_wr: "i < length buf \<Longrightarrow> wp Q (wr buf i v) \<longleftrightarrow> Q (buf[i := v])"
  by (simp add: wr_def)

end
