(* ===== verification/SymbolTable.thy ===== *)
theory SymbolTable
  imports Prelude
begin

text \<open>
  The linked list table of \<open>rmf_symboltable.cpp\<close> that the section filter keeps its requests and
  its outstanding sections in. The list is the chain of nodes from \<open>head\<close>. \<open>Insert\<close> pushes a node
  without looking for its key, so a key may stand in the table several times: what the class
  implements is a stack of values per key, and that is the contract (locale \<open>symbol_map\<close>) its
  clients rely on. \<open>rmf_osal_memAllocP\<close> may fail; its outcome is the argument \<open>alloc_ok\<close>.
\<close>

type_synonym ('k, 'd) rmf_SymbolMapTable = "('k \<times> 'd) list"

definition Insert :: "bool \<Rightarrow> 'k \<Rightarrow> 'd \<Rightarrow> ('k, 'd) rmf_SymbolMapTable \<Rightarrow> ('k, 'd) rmf_SymbolMapTable" where
  "Insert alloc_ok key data head = (if alloc_ok then (key, data) # head else head)"

fun Lookup :: "'k \<Rightarrow> ('k, 'd) rmf_SymbolMapTable \<Rightarrow> 'd option" where
  "Lookup key [] = None"
| "Lookup key ((k, d) # nodes) = (if k = key then Some d else Lookup key nodes)"

text \<open>The loop of \<open>Remove\<close> over \<open>prevNode\<close> and \<open>currentNode\<close>: unlink the first node with the key.\<close>

fun Remove_walk :: "'k \<Rightarrow> ('k, 'd) rmf_SymbolMapTable \<Rightarrow> 'd option \<times> ('k, 'd) rmf_SymbolMapTable" where
  "Remove_walk key [] = (None, [])"
| "Remove_walk key ((k, d) # nodes) =
     (if k = key then (Some d, nodes)
      else (let (data, rest) = Remove_walk key nodes in (data, (k, d) # rest)))"

definition Remove :: "'k \<Rightarrow> ('k, 'd) rmf_SymbolMapTable \<Rightarrow> 'd option \<times> ('k, 'd) rmf_SymbolMapTable" where
  "Remove key head =
     (case head of
        [] \<Rightarrow> (None, [])
      | (k, d) # nodes \<Rightarrow>
          if k = key then (Some d, nodes)
          else (let (data, rest) = Remove_walk key nodes in (data, (k, d) # rest)))"

text \<open>Iteration (\<open>IterInit\<close>, then \<open>IterNext\<close> until NULL) visits the nodes in chain order.\<close>

definition IterInit :: "('k, 'd) rmf_SymbolMapTable \<Rightarrow> ('k, 'd) rmf_SymbolMapTable" where
  "IterInit head = head"

fun IterNext :: "('k, 'd) rmf_SymbolMapTable \<Rightarrow> ('k \<times> 'd) option \<times> ('k, 'd) rmf_SymbolMapTable" where
  "IterNext [] = (None, [])"
| "IterNext (n # nodes) = (Some n, nodes)"

section \<open>The contract\<close>

locale symbol_map =
  fixes ins :: "'k \<Rightarrow> 'd \<Rightarrow> 't \<Rightarrow> 't"
    and lookup :: "'k \<Rightarrow> 't \<Rightarrow> 'd option"
    and remove :: "'k \<Rightarrow> 't \<Rightarrow> 'd option \<times> 't"
    and values_of :: "'t \<Rightarrow> 'k \<Rightarrow> 'd list"
  assumes values_ins: "values_of (ins k d t) = (values_of t)(k := d # values_of t k)"
    and lookup_top: "lookup k t = (case values_of t k of [] \<Rightarrow> None | d # _ \<Rightarrow> Some d)"
    and remove_fst: "fst (remove k t) = lookup k t"
    and remove_snd: "values_of (snd (remove k t)) = (values_of t)(k := tl (values_of t k))"
begin

lemma lookup_ins: "lookup k' (ins k d t) = (if k' = k then Some d else lookup k' t)"
  by (simp add: lookup_top values_ins)

lemma lookup_remove_other: "k' \<noteq> k \<Longrightarrow> lookup k' (snd (remove k t)) = lookup k' t"
  by (simp add: lookup_top remove_snd)

lemma remove_ins_values: "values_of (snd (remove k (ins k d t))) = values_of t"
  by (simp add: remove_snd values_ins)

lemma remove_ins_fst: "fst (remove k (ins k d t)) = Some d"
  by (simp add: remove_fst lookup_ins)

lemma lookup_after_release: "lookup k' (snd (remove k (ins k d t))) = lookup k' t"
  by (simp add: lookup_top remove_ins_values)

end

definition node_values :: "('k, 'd) rmf_SymbolMapTable \<Rightarrow> 'k \<Rightarrow> 'd list" where
  "node_values nodes k = map snd (filter (\<lambda>n. fst n = k) nodes)"

lemma Remove_eq_walk: "Remove key head = Remove_walk key head"
  by (cases head) (auto simp: Remove_def)

lemma Lookup_node_values:
  "Lookup k t = (case node_values t k of [] \<Rightarrow> None | d # _ \<Rightarrow> Some d)"
  by (induction k t rule: Lookup.induct) (auto simp: node_values_def)

lemma fst_Remove_walk: "fst (Remove_walk k t) = Lookup k t"
  by (induction k t rule: Lookup.induct) (auto simp: split_beta)

lemma snd_Remove_walk: "node_values (snd (Remove_walk k t)) = (node_values t)(k := tl (node_values t k))"
  by (induction k t rule: Lookup.induct) (auto simp: node_values_def split_beta fun_eq_iff)

lemma node_values_Insert:
  "node_values (Insert True k d t) = (node_values t)(k := d # node_values t k)"
  by (auto simp: Insert_def node_values_def)

interpretation symtab: symbol_map "Insert True" Lookup Remove node_values
  by unfold_locales
    (simp_all add: node_values_Insert Remove_eq_walk fst_Remove_walk snd_Remove_walk
       flip: Lookup_node_values)

text \<open>
  C28. The table is a stack of values per key: \<open>Lookup\<close> returns the value inserted last, \<open>Remove\<close>
  returns what \<open>Lookup\<close> returned and uncovers the value inserted before it, and neither touches
  the values of any other key.
\<close>

theorem symbol_table_is_keyed_stack:
  "Lookup k' (Insert True k d t) = (if k' = k then Some d else Lookup k' t) \<and>
   fst (Remove k t) = Lookup k t \<and>
   node_values (snd (Remove k t)) = (node_values t)(k := tl (node_values t k)) \<and>
   Lookup k' (snd (Remove k (Insert True k d t))) = Lookup k' t"
  by (simp add: symtab.lookup_ins symtab.remove_fst symtab.remove_snd symtab.lookup_after_release)

end
