(* ===== verification/SectionQueue.thy ===== *)
theory SectionQueue
  imports Prelude
begin

text \<open>
  The ring buffer of \<open>qamsource/simgr/inband/src/rmf_sectionfilter_util.cpp\<close> in which a filter
  request collects its sections. A pointer to a queue is an option (None is NULL); \<open>None\<close> as the result
  of a call is an access outside \<open>elements\<close> or through NULL. The mutex serialises the calls. The
  contract of the buffer is the locale \<open>bounded_fifo\<close>: a list of at most \<open>MAX_QUEUE_SIZE\<close> nodes,
  first in first out.
\<close>

abbreviation (input) MAX_QUEUE_SIZE :: nat where "MAX_QUEUE_SIZE \<equiv> 32"

record 'a RMFQueue =
  elements :: "'a list"
  q_head :: nat
  q_tail :: nat
  q_count :: nat

definition rmf_queue_push_tail :: "'a RMFQueue option \<Rightarrow> 'a \<Rightarrow> bool \<Rightarrow> (int \<times> 'a RMFQueue option) option" where
  "rmf_queue_push_tail queue node OverFlowEraseFlag =
     (case queue of
        None \<Rightarrow> Some (-1, None)
      | Some q \<Rightarrow>
          if q_count q = MAX_QUEUE_SIZE then
            if OverFlowEraseFlag then
              do { let t = q_head q;
                   retNode \<leftarrow> rd (elements q) (q_head q);
                   es \<leftarrow> wr (elements q) t node;
                   Some (0, Some (q\<lparr>elements := es, q_tail := t, q_head := q_head q + 1\<rparr>)) }
            else Some (-1, Some q)
          else
            do { es \<leftarrow> wr (elements q) (q_tail q) node;
                 let t = q_tail q + 1;
                 Some (0, Some (q\<lparr>elements := es, q_tail := if t = MAX_QUEUE_SIZE then 0 else t,
                                  q_count := q_count q + 1\<rparr>)) })"

definition rmf_queue_pop_head :: "'a RMFQueue option \<Rightarrow> ('a option \<times> 'a RMFQueue option) option" where
  "rmf_queue_pop_head queue =
     (case queue of
        None \<Rightarrow> Some (None, None)
      | Some q \<Rightarrow>
          if q_count q > 0 then
            do { element \<leftarrow> rd (elements q) (q_head q);
                 let h = q_head q + 1;
                 Some (Some element, Some (q\<lparr>q_head := if h = MAX_QUEUE_SIZE then 0 else h,
                                             q_count := q_count q - 1\<rparr>)) }
          else Some (None, Some q))"

text \<open>The new queue; \<open>slots\<close> is the uninitialised content of the allocated array.\<close>

definition rmf_queue_new :: "bool \<Rightarrow> bool \<Rightarrow> 'a list \<Rightarrow> 'a RMFQueue option" where
  "rmf_queue_new alloc_ok mutex_ok slots =
     (if alloc_ok \<and> mutex_ok
      then Some \<lparr>elements = slots, q_head = 0, q_tail = 0, q_count = 0\<rparr> else None)"

definition rmf_queue_clear :: "'a RMFQueue option \<Rightarrow> 'a RMFQueue option option" where
  "rmf_queue_clear queue =
     (case queue of None \<Rightarrow> None | Some q \<Rightarrow> Some (Some (q\<lparr>q_head := 0, q_tail := 0, q_count := 0\<rparr>)))"

text \<open>Freeing dereferences the queue for its mutex.\<close>

definition rmf_queue_free :: "'a RMFQueue option \<Rightarrow> unit option" where
  "rmf_queue_free queue = (case queue of None \<Rightarrow> None | Some q \<Rightarrow> Some ())"

section \<open>The contract\<close>

text \<open>Runs of calls: pushing a list of nodes, popping up to \<open>n\<close> nodes.\<close>

fun push_all :: "('q \<Rightarrow> 'a \<Rightarrow> (int \<times> 'q) option) \<Rightarrow> 'q \<Rightarrow> 'a list \<Rightarrow> 'q option" where
  "push_all push q [] = Some q"
| "push_all push q (x # xs) = do { (r, q') \<leftarrow> push q x; push_all push q' xs }"

fun drain :: "('q \<Rightarrow> ('a option \<times> 'q) option) \<Rightarrow> nat \<Rightarrow> 'q \<Rightarrow> ('a list \<times> 'q) option" where
  "drain pop 0 q = Some ([], q)"
| "drain pop (Suc n) q =
     do { (x, q') \<leftarrow> pop q;
          case x of None \<Rightarrow> Some ([], q')
                  | Some y \<Rightarrow> do { (ys, q'') \<leftarrow> drain pop n q'; Some (y # ys, q'') } }"

locale bounded_fifo =
  fixes push :: "'q \<Rightarrow> 'a \<Rightarrow> (int \<times> 'q) option"
    and pop :: "'q \<Rightarrow> ('a option \<times> 'q) option"
    and contents :: "'q \<Rightarrow> 'a list"
    and wf :: "'q \<Rightarrow> bool"
    and capacity :: nat
  assumes push_room: "wf q \<Longrightarrow> length (contents q) < capacity \<Longrightarrow>
      \<exists>q'. push q x = Some (0, q') \<and> wf q' \<and> contents q' = contents q @ [x]"
    and push_full: "wf q \<Longrightarrow> length (contents q) = capacity \<Longrightarrow> push q x = Some (-1, q)"
    and pop_some: "wf q \<Longrightarrow> contents q = x # xs \<Longrightarrow>
      \<exists>q'. pop q = Some (Some x, q') \<and> wf q' \<and> contents q' = xs"
    and pop_none: "wf q \<Longrightarrow> contents q = [] \<Longrightarrow> pop q = Some (None, q)"
    and bounded: "wf q \<Longrightarrow> length (contents q) \<le> capacity"
begin

text \<open>What does not fit is dropped, the rest stands in order of arrival.\<close>

lemma push_all_contents:
  assumes "wf q"
  shows "\<exists>q'. push_all push q xs = Some q' \<and> wf q' \<and>
    contents q' = contents q @ take (capacity - length (contents q)) xs"
  using assms
proof (induction xs arbitrary: q)
  case (Cons x xs)
  show ?case
  proof (cases "length (contents q) < capacity")
    case True
    then obtain q1 where q1: "push q x = Some (0, q1)" "wf q1" "contents q1 = contents q @ [x]"
      using push_room[OF Cons.prems] by blast
    have "take (capacity - length (contents q)) (x # xs) = x # take (capacity - length (contents q1)) xs"
      using True q1(3) by (simp add: take_Cons' )
    with Cons.IH[OF q1(2)] q1 show ?thesis by (auto simp add: True)
  next
    case False
    with bounded[OF Cons.prems] have "length (contents q) = capacity" by simp
    with push_full[OF Cons.prems] Cons.IH[OF Cons.prems] show ?thesis by auto
  qed
qed simp

lemma drain_contents:
  assumes "wf q"
  shows "\<exists>q'. drain pop n q = Some (take n (contents q), q') \<and> wf q' \<and> contents q' = drop n (contents q)"
  using assms
proof (induction n arbitrary: q)
  case (Suc n)
  show ?case
  proof (cases "contents q")
    case Nil
    with pop_none[OF Suc.prems] Suc.prems show ?thesis by auto
  next
    case (Cons x xs)
    then obtain q1 where "pop q = Some (Some x, q1)" "wf q1" "contents q1 = xs"
      using pop_some[OF Suc.prems] by blast
    with Suc.IH[of q1] Cons show ?thesis by auto
  qed
qed simp

end

section \<open>The ring buffer is a bounded queue\<close>

definition queue_wf :: "'a RMFQueue option \<Rightarrow> bool" where
  "queue_wf queue = (case queue of None \<Rightarrow> False | Some q \<Rightarrow>
     length (elements q) = MAX_QUEUE_SIZE \<and> q_head q < MAX_QUEUE_SIZE \<and> q_count q \<le> MAX_QUEUE_SIZE \<and>
     q_tail q = (q_head q + q_count q) mod MAX_QUEUE_SIZE)"

definition queue_list :: "'a RMFQueue option \<Rightarrow> 'a list" where
  "queue_list queue = (case queue of None \<Rightarrow> [] | Some q \<Rightarrow>
     map (\<lambda>i. elements q ! ((q_head q + i) mod MAX_QUEUE_SIZE)) [0..<q_count q])"

lemma ring_slots_distinct:
  fixes h :: nat
  assumes "i < n" "n < 32" "h < 32"
  shows "(h + i) mod 32 \<noteq> (h + n) mod 32"
proof
  assume "(h + i) mod 32 = (h + n) mod 32"
  then have "(h + n) mod 32 = (h + i) mod 32" by simp
  then have "32 dvd (h + n) - (h + i)" using assms(1) by (subst (asm) mod_eq_dvd_iff_nat) auto
  with assms show False by (auto dest: dvd_imp_le)
qed

lemma queue_push_room:
  assumes wf: "queue_wf q" and room: "length (queue_list q) < MAX_QUEUE_SIZE"
  shows "\<exists>q'. rmf_queue_push_tail q x False = Some (0, q') \<and> queue_wf q' \<and> queue_list q' = queue_list q @ [x]"
proof -
  obtain r where q: "q = Some r" using wf by (auto simp: queue_wf_def split: option.splits)
  let ?n = "q_count r" and ?h = "q_head r" and ?t = "q_tail r"
  have r: "length (elements r) = 32" "?h < 32" "?n < 32" "?t = (?h + ?n) mod 32"
    using wf room by (auto simp: queue_wf_def queue_list_def q)
  let ?t' = "if ?t + 1 = 32 then 0 else ?t + 1"
  let ?r = "r\<lparr>elements := (elements r)[?t := x], q_tail := ?t', q_count := ?n + 1\<rparr>"
  have "rmf_queue_push_tail q x False = Some (0, Some ?r)"
    using r by (simp add: rmf_queue_push_tail_def q wr_def Let_def)
  moreover have "?t' = (?h + (?n + 1)) mod 32"
    unfolding r(4) by (simp add: mod_Suc)
  with r have "queue_wf (Some ?r)" by (simp add: queue_wf_def)
  moreover have "queue_list (Some ?r) = queue_list q @ [x]"
  proof -
    have "elements ?r ! ((?h + i) mod 32) = elements r ! ((?h + i) mod 32)" if "i < ?n" for i
      using ring_slots_distinct[OF that r(3,2)] r(4) by simp
    moreover have "elements ?r ! ((?h + ?n) mod 32) = x" using r by simp
    ultimately show ?thesis by (simp add: queue_list_def q)
  qed
  ultimately show ?thesis by blast
qed

lemma queue_pop_some:
  assumes wf: "queue_wf q" and ne: "queue_list q = x # xs"
  shows "\<exists>q'. rmf_queue_pop_head q = Some (Some x, q') \<and> queue_wf q' \<and> queue_list q' = xs"
proof -
  obtain r where q: "q = Some r" using wf by (auto simp: queue_wf_def split: option.splits)
  let ?n = "q_count r" and ?h = "q_head r"
  have r: "length (elements r) = 32" "?h < 32" "?n \<le> 32" "q_tail r = (?h + ?n) mod 32"
    using wf by (auto simp: queue_wf_def q)
  have n: "?n = Suc (?n - 1)" using ne by (cases ?n) (auto simp: queue_list_def q)
  let ?h' = "if ?h + 1 = 32 then 0 else ?h + 1"
  let ?r = "r\<lparr>q_head := ?h', q_count := ?n - 1\<rparr>"
  have h': "(?h' + i) mod 32 = (?h + Suc i) mod 32" for i using r(2) by auto
  have "map (\<lambda>i. elements r ! ((?h + i) mod 32)) [0..<Suc (?n - 1)] =
      elements r ! ?h # map (\<lambda>i. elements r ! ((?h' + i) mod 32)) [0..<?n - 1]"
    unfolding h' using r(2) by (simp add: map_upt_Suc del: upt_Suc)
  then have list: "queue_list q = elements r ! ?h # queue_list (Some ?r)"
    unfolding n[symmetric] by (simp add: queue_list_def q)
  then have x: "x = elements r ! ?h" "queue_list (Some ?r) = xs" using ne by simp_all
  have "rmf_queue_pop_head q = Some (Some x, Some ?r)"
    using r n by (simp add: rmf_queue_pop_head_def q rd_in x(1) Let_def)
  moreover have "queue_wf (Some ?r)" using r n h'[of "?n - 1"] by (simp add: queue_wf_def) 
  ultimately show ?thesis using x(2) by blast
qed

interpretation rmf_queue: bounded_fifo "\<lambda>q x. rmf_queue_push_tail q x False" rmf_queue_pop_head
  queue_list queue_wf MAX_QUEUE_SIZE
proof
  show "rmf_queue_push_tail q x False = Some (-1, q)"
    if "queue_wf q" "length (queue_list q) = MAX_QUEUE_SIZE" for q and x :: 'a
    using that by (auto simp: queue_wf_def queue_list_def rmf_queue_push_tail_def split: option.splits)
  show "rmf_queue_pop_head q = Some (None, q)" if "queue_wf q" "queue_list q = []" for q :: "'a RMFQueue option"
    using that by (auto simp: queue_wf_def queue_list_def rmf_queue_pop_head_def split: option.splits)
  show "length (queue_list q) \<le> MAX_QUEUE_SIZE" if "queue_wf q" for q :: "'a RMFQueue option"
    using that by (auto simp: queue_wf_def queue_list_def split: option.splits)
qed (rule queue_push_room queue_pop_some; assumption)+

text \<open>
  C34. The ring buffer refines a bounded first in first out queue: after any run of pushes the queue holds
  the nodes it held before and then the pushed ones in their order, up to 32 in all (what comes
  later is dropped), and popping \<open>n\<close> times delivers the first \<open>n\<close> of them and keeps the rest.
\<close>

theorem rmf_queue_is_fifo:
  assumes "queue_wf q"
  shows "\<exists>q' q''. push_all (\<lambda>q x. rmf_queue_push_tail q x False) q xs = Some q' \<and>
    drain rmf_queue_pop_head n q' =
      Some (take n (queue_list q @ take (MAX_QUEUE_SIZE - length (queue_list q)) xs), q'') \<and>
    queue_wf q'' \<and>
    queue_list q'' = drop n (queue_list q @ take (MAX_QUEUE_SIZE - length (queue_list q)) xs)"
proof -
  obtain q' where q': "push_all (\<lambda>q x. rmf_queue_push_tail q x False) q xs = Some q'" "queue_wf q'"
      "queue_list q' = queue_list q @ take (MAX_QUEUE_SIZE - length (queue_list q)) xs"
    using rmf_queue.push_all_contents[OF assms, of xs] by blast
  with rmf_queue.drain_contents[OF q'(2), of n] show ?thesis by auto
qed

theorem rmf_queue_is_fifo_witness:
  "queue_wf (rmf_queue_new True True (replicate 32 (0 :: nat))) \<and>
   (\<exists>q' q''. push_all (\<lambda>q x. rmf_queue_push_tail q x False) (rmf_queue_new True True (replicate 32 0)) [1, 2, 3] = Some q' \<and>
     drain rmf_queue_pop_head 2 q' = Some ([1, 2 :: nat], q'') \<and> queue_wf q'' \<and> queue_list q'' = [3])"
proof -
  have "queue_wf (rmf_queue_new True True (replicate 32 (0 :: nat)))"
    "queue_list (rmf_queue_new True True (replicate 32 (0 :: nat))) = []"
    by (simp_all add: queue_wf_def queue_list_def rmf_queue_new_def)
  with rmf_queue_is_fifo[of "rmf_queue_new True True (replicate 32 (0 :: nat))" "[1, 2, 3]" 2] show ?thesis by simp
qed

text \<open>
  With \<open>OverFlowEraseFlag\<close> the buffer breaks: \<open>head\<close> is advanced without wrapping, so overwriting
  the oldest node of a full queue whose head is the last slot leaves a head outside the array, and
  the next pop reads there.
\<close>

theorem rmf_queue_overwrite_overruns:
  assumes "queue_wf (Some q)" "q_count q = MAX_QUEUE_SIZE" "q_head q = 31"
  shows "\<exists>q'. rmf_queue_push_tail (Some q) x True = Some (0, q') \<and> rmf_queue_pop_head q' = None"
  using assms by (simp add: queue_wf_def rmf_queue_push_tail_def rmf_queue_pop_head_def rd_def wr_def)

theorem rmf_queue_overwrite_overruns_witness:
  "\<exists>q'. rmf_queue_push_tail (Some \<lparr>elements = replicate 32 (0 :: nat), q_head = 31, q_tail = 31, q_count = 32\<rparr>) 7 True
     = Some (0, q') \<and> rmf_queue_pop_head q' = None"
  by (rule rmf_queue_overwrite_overruns) (simp_all add: queue_wf_def)

end
