(* ===== verification/SectionFilter.thy ===== *)
theory SectionFilter
  imports SymbolTable SectionQueue
begin

text \<open>
  The section filter of \<open>qamsource/simgr/inband/src/rmf_sectionfilter.cpp\<close>: filter requests, the
  sections they deliver, and \<open>ReadSection\<close>, the only way by which the table parsers reach section
  bytes. The two mutexes serialise the accesses to the two tables; each operation below is one
  critical section after another, and the model runs them in program order. The driver calls
  \<open>Read\<close> and \<open>Release\<close> are virtual and implemented by the SoC; their outcome is an argument.
\<close>

record rmf_Section_Data =
  sectionID :: "32 word"
  sectionData :: "byte list"
  sectionLength :: "16 word"

datatype rmf_SectionFilterReqState =
    RMF_SF_REQSTATE_INVALID
  | RMF_SF_REQSTATE_READY
  | RMF_SF_REQSTATE_MATCHED
  | RMF_SF_REQSTATE_CANCELLED

datatype sf_event =
    RMF_SF_EVENT_UNKNOWN
  | RMF_SF_EVENT_SECTION_FOUND
  | RMF_SF_EVENT_LAST_SECTION_FOUND
  | RMF_SF_EVENT_FILTER_CANCELLED
  | RMF_SF_EVENT_FILTER_PREEMPTED

record rmf_sf_SectionRequest =
  req_state :: rmf_SectionFilterReqState
  requestorQueue :: "32 word"
  req_priority :: "8 word"
  matchesRemaining :: "32 word"
  m_SectionsDataQueue :: "rmf_Section_Data RMFQueue option"
  uiIsSectionUnderProcessing :: bool

record rmf_SectionFilter =
  m_sectionRequests :: "(32 word, rmf_sf_SectionRequest) rmf_SymbolMapTable"
  m_sectionRequestsToRemove :: "(32 word, rmf_sf_SectionRequest) rmf_SymbolMapTable"
  m_outstandingSections :: "(32 word, rmf_Section_Data) rmf_SymbolMapTable"

section \<open>Sections\<close>

abbreviation (input) RMF_SF_OPTION_RELEASE_WHEN_COMPLETE :: "32 word" where
  "RMF_SF_OPTION_RELEASE_WHEN_COMPLETE \<equiv> 2"

abbreviation (input) RMF_SF_OPTION_IF_NOT_CANCELLED :: "32 word" where
  "RMF_SF_OPTION_IF_NOT_CANCELLED \<equiv> 1"

text \<open>\<open>static uint32_t val\<close> of \<open>getNextSectionID\<close> is the argument; the new value is the id.\<close>

definition getNextSectionID :: "32 word \<Rightarrow> 32 word" where
  "getNextSectionID val = (let val = val + 1 in if 65535 \<le> val then 1 else val)"

definition GetSectionSize :: "rmf_SectionFilter \<Rightarrow> 32 word \<Rightarrow> rmf_Error \<times> 32 word option" where
  "GetSectionSize sf sectionHandle =
     (if sectionHandle = 0 then (RMF_SF_ERROR_INVALID_SECTION_HANDLE, None)
      else (case Lookup sectionHandle (m_outstandingSections sf) of
              None \<Rightarrow> (RMF_OSAL_EINVAL, None)
            | Some d \<Rightarrow> (RMF_SUCCESS, Some (ucast (sectionLength d)))))"

definition ReleaseSection :: "rmf_SectionFilter \<Rightarrow> 32 word \<Rightarrow> rmf_Error \<times> rmf_SectionFilter" where
  "ReleaseSection sf sectionHandle =
     (let (d, rest) = Remove sectionHandle (m_outstandingSections sf);
          sf' = sf\<lparr>m_outstandingSections := rest\<rparr>
      in (if d = None then RMF_SF_ERROR_INVALID_SECTION_HANDLE else RMF_SUCCESS, sf'))"

text \<open>
  The result of \<open>ReadSection\<close> is the return code, the caller's array \<open>buffer\<close> after the call and
  what is stored through \<open>bytesRead\<close> (None: nothing). The callers pass their local arrays, so
  \<open>buffer\<close> is never NULL. A copy that does not fit \<open>buffer\<close> overruns the caller's stack frame.
\<close>

definition ReadSection ::
  "rmf_SectionFilter \<Rightarrow> 32 word \<Rightarrow> 32 word \<Rightarrow> 32 word \<Rightarrow> 32 word \<Rightarrow> byte list \<Rightarrow>
   (rmf_Error \<times> byte list \<times> 32 word option \<times> rmf_SectionFilter) option" where
  "ReadSection sf sectionHandle offset byteCount flags buffer =
     (case Lookup sectionHandle (m_outstandingSections sf) of
        None \<Rightarrow> Some (RMF_SF_ERROR_INVALID_SECTION_HANDLE, buffer, None, sf)
      | Some d \<Rightarrow>
          let sectionLen = ucast (sectionLength d) :: 32 word in
          if offset > sectionLen \<or> byteCount = 0 then Some (RMF_OSAL_EINVAL, buffer, None, sf)
          else if offset \<ge> sectionLen then Some (RMF_OSAL_EINVAL, buffer, None, sf)
          else
            let bytesToCopy = (if byteCount < sectionLen - offset then byteCount
                               else sectionLen - offset)
            in do {
              buffer' \<leftarrow> memcpy buffer (sectionData d) (unat offset) (unat bytesToCopy);
              Some (RMF_SUCCESS, buffer', Some bytesToCopy,
                    if flags AND RMF_SF_OPTION_RELEASE_WHEN_COMPLETE \<noteq> 0
                    then snd (ReleaseSection sf sectionHandle) else sf)
            })"

text \<open>\<open>GetSectionHandle\<close>; \<open>rd_result\<close> is what the driver's \<open>Read\<close> hands over (None: it failed).\<close>

definition GetSectionHandle ::
  "bool \<Rightarrow> rmf_Section_Data option \<Rightarrow> rmf_SectionFilter \<Rightarrow> 32 word \<Rightarrow> 32 word \<Rightarrow>
   rmf_Error \<times> 32 word option \<times> rmf_SectionFilter" where
  "GetSectionHandle alloc_ok rd_result sf uniqueId flags =
     (case Lookup uniqueId (m_sectionRequests sf) of
        None \<Rightarrow> (RMF_OSAL_EINVAL, None, sf)
      | Some r \<Rightarrow>
          if req_state r = RMF_SF_REQSTATE_CANCELLED \<and> flags = RMF_SF_OPTION_IF_NOT_CANCELLED
          then (RMF_SF_ERROR_SECTION_NOT_AVAILABLE, None, sf)
          else (case rd_result of
                  None \<Rightarrow> (RMF_SF_ERROR_SECTION_NOT_AVAILABLE, None, sf)
                | Some d \<Rightarrow>
                    (RMF_SUCCESS, Some (sectionID d),
                     sf\<lparr>m_outstandingSections :=
                          Insert alloc_ok (sectionID d) d (m_outstandingSections sf)\<rparr>)))"

section \<open>Reading section bytes\<close>

text \<open>A filter is well formed when every outstanding section owns as many bytes as it announces.\<close>

definition sf_wf :: "rmf_SectionFilter \<Rightarrow> bool" where
  "sf_wf sf \<longleftrightarrow>
     (\<forall>(k, d) \<in> set (m_outstandingSections sf). length (sectionData d) = unat (sectionLength d))"

definition section_bytes :: "rmf_SectionFilter \<Rightarrow> 32 word \<Rightarrow> byte list option" where
  "section_bytes sf h = map_option sectionData (Lookup h (m_outstandingSections sf))"

lemma Lookup_in_set: "Lookup k t = Some d \<Longrightarrow> (k, d) \<in> set t"
  by (induction k t rule: Lookup.induct) (auto split: if_splits)

lemma unat_ucast_16_32 [simp]: "unat (ucast (w :: 16 word) :: 32 word) = unat w"
proof -
  have "unat w < 2 ^ LENGTH(16)" by (rule unsigned_less)
  then have "unat w < 2 ^ 32" by simp
  then show ?thesis by (simp add: unsigned_ucast_eq take_bit_nat_eq_self)
qed

text \<open>
  The contract the parsers rely on: a read inside the section that fits the array returns the
  section's bytes and leaves the rest of the array as it was.
\<close>

locale section_source =
  fixes content :: "'s \<Rightarrow> 32 word \<Rightarrow> byte list option"
    and read :: "'s \<Rightarrow> 32 word \<Rightarrow> 32 word \<Rightarrow> 32 word \<Rightarrow> byte list \<Rightarrow>
                 (rmf_Error \<times> byte list \<times> 32 word option \<times> 's) option"
    and wf :: "'s \<Rightarrow> bool"
  assumes read_ok:
    "wf s \<Longrightarrow> content s h = Some bs \<Longrightarrow> unat off < length bs \<Longrightarrow> cnt \<noteq> 0 \<Longrightarrow>
     min (unat cnt) (length bs - unat off) \<le> length buf \<Longrightarrow>
     read s h off cnt buf =
       Some (RMF_SUCCESS,
             take (unat cnt) (drop (unat off) bs) @ drop (min (unat cnt) (length bs - unat off)) buf,
             Some (word_of_nat (min (unat cnt) (length bs - unat off))), s)"
    and read_overrun:
    "wf s \<Longrightarrow> content s h = Some bs \<Longrightarrow> unat off < length bs \<Longrightarrow> cnt \<noteq> 0 \<Longrightarrow>
     length buf < min (unat cnt) (length bs - unat off) \<Longrightarrow> read s h off cnt buf = None"
    and read_past:
    "wf s \<Longrightarrow> content s h = Some bs \<Longrightarrow> length bs \<le> unat off \<Longrightarrow>
     read s h off cnt buf = Some (RMF_OSAL_EINVAL, buf, None, s)"
    and read_missing:
    "content s h = None \<Longrightarrow>
     read s h off cnt buf = Some (RMF_SF_ERROR_INVALID_SECTION_HANDLE, buf, None, s)"
begin

lemma read_exact:
  assumes "wf s" "content s h = Some bs" "unat off + unat cnt \<le> length bs" "cnt \<noteq> 0"
    and "unat cnt \<le> length buf"
  shows "read s h off cnt buf =
    Some (RMF_SUCCESS, take (unat cnt) (drop (unat off) bs) @ drop (unat cnt) buf, Some cnt, s)"
proof -
  have pos: "0 < unat cnt" using assms(4) by (simp add: unat_gt_0)
  with assms(3) have lt: "unat off < length bs" by linarith
  have m: "min (unat cnt) (length bs - unat off) = unat cnt" using assms(3) by linarith
  show ?thesis
    using read_ok[OF assms(1,2) lt assms(4), of buf] assms(5) unfolding m by simp
qed

lemma read_holds_at:
  assumes "wf s" "content s h = Some bs" "unat off + unat cnt \<le> length bs" "cnt \<noteq> 0"
    and "unat cnt \<le> length buf"
    and "take (unat cnt) (drop (unat off) bs) = xs"
  obtains buf' where "read s h off cnt buf = Some (RMF_SUCCESS, buf', Some cnt, s)"
    and "holds_at buf' 0 xs" and "length buf' = length buf"
proof
  show "read s h off cnt buf = Some (RMF_SUCCESS, xs @ drop (unat cnt) buf, Some cnt, s)"
    using read_exact[OF assms(1-5)] assms(6) by simp
  show "holds_at (xs @ drop (unat cnt) buf) 0 xs" by simp
  show "length (xs @ drop (unat cnt) buf) = length buf"
    using assms(3,5) assms(6)[symmetric] by simp
qed

end

lemma ReadSection_cases:
  assumes "sf_wf sf" "section_bytes sf h = Some bs"
  shows "ReadSection sf h off cnt 0 buf =
    (if length bs \<le> unat off \<or> cnt = 0 then Some (RMF_OSAL_EINVAL, buf, None, sf)
     else (let n = min (unat cnt) (length bs - unat off) in
           if n \<le> length buf
           then Some (RMF_SUCCESS, take n (drop (unat off) bs) @ drop n buf, Some (word_of_nat n), sf)
           else None))"
proof -
  from assms(2) obtain d where d: "Lookup h (m_outstandingSections sf) = Some d"
    and bs: "bs = sectionData d" by (auto simp: section_bytes_def)
  from assms(1) Lookup_in_set[OF d] have len: "unat (sectionLength d) = length bs"
    by (auto simp: sf_wf_def bs)
  let ?L = "ucast (sectionLength d) :: 32 word"
  have L: "unat ?L = length bs" by (simp add: len)
  have ge: "off \<ge> ?L \<longleftrightarrow> length bs \<le> unat off" by (simp add: word_le_nat_alt len)
  have gt: "off > ?L \<Longrightarrow> length bs \<le> unat off" by (simp add: word_less_nat_alt len)
  have sub: "unat (?L - off) = length bs - unat off" if "\<not> length bs \<le> unat off"
    using that by (subst unat_sub) (simp_all add: word_le_nat_alt len)
  let ?c = "if cnt < ?L - off then cnt else ?L - off"
  have c: "unat ?c = min (unat cnt) (length bs - unat off)"
    "?c = word_of_nat (min (unat cnt) (length bs - unat off))" if "\<not> length bs \<le> unat off"
  proof -
    show "unat ?c = min (unat cnt) (length bs - unat off)"
      by (simp add: word_less_nat_alt sub[OF that])
    then have "word_of_nat (min (unat cnt) (length bs - unat off)) = (word_of_nat (unat ?c) :: 32 word)"
      by (rule arg_cong[OF sym])
    then show "?c = word_of_nat (min (unat cnt) (length bs - unat off))"
      by (simp only: of_nat_unat ucast_id)
  qed
  show ?thesis
  proof (cases "length bs \<le> unat off \<or> cnt = 0")
    case True
    then show ?thesis using ge gt by (auto simp: ReadSection_def d Let_def)
  next
    case False
    then have no: "\<not> off > ?L" "\<not> off \<ge> ?L" "cnt \<noteq> 0" using ge gt by auto
    from False have nb: "\<not> length bs \<le> unat off" by simp
    have in_src: "unat off + min (unat cnt) (length bs - unat off) \<le> length bs"
      using False by linarith
    have "ReadSection sf h off cnt 0 buf =
       (do { buffer' \<leftarrow> memcpy buf bs (unat off) (unat ?c);
             Some (RMF_SUCCESS, buffer', Some ?c, sf) })"
      using no unfolding ReadSection_def d Let_def bs by simp
    also have "\<dots> = (let n = min (unat cnt) (length bs - unat off) in
           if n \<le> length buf
           then Some (RMF_SUCCESS, take n (drop (unat off) bs) @ drop n buf, Some (word_of_nat n), sf)
           else None)"
      unfolding c(1)[OF nb] unfolding c(2)[OF nb] memcpy_def Let_def using in_src by simp
    finally show ?thesis using False by simp
  qed
qed

interpretation sfsrc: section_source section_bytes
  "\<lambda>sf h off cnt buf. ReadSection sf h off cnt 0 buf" sf_wf
proof (unfold_locales, goal_cases)
  case (1 s h bs off cnt buf)
  have "take (min (unat cnt) (length bs - unat off)) (drop (unat off) bs)
      = take (unat cnt) (drop (unat off) bs)"
    by (simp add: min_def)
  with 1 show ?case by (simp add: ReadSection_cases Let_def)
next
  case (2 s h bs off cnt buf)
  then show ?case by (simp add: ReadSection_cases Let_def not_le)
next
  case (3 s h bs off cnt buf)
  then show ?case by (simp add: ReadSection_cases)
next
  case (4 s h off cnt buf)
  then show ?case by (simp add: ReadSection_def section_bytes_def)
qed

text \<open>
  \<open>ReadSection\<close> of a live section has exactly three outcomes: \<open>RMF_OSAL_EINVAL\<close> with the
  caller's array untouched when the offset is at or past the end of the section or no byte is
  asked for; success with the section's bytes in front and the tail of the array kept when the
  bytes to copy fit; and an access outside the caller's array in the only remaining case, because
  the array's size is not a parameter of the call.
\<close>

theorem ReadSection_behaviour:
  assumes "sf_wf sf" "section_bytes sf h = Some bs"
  shows "ReadSection sf h off cnt 0 buf =
    (if length bs \<le> unat off \<or> cnt = 0 then Some (RMF_OSAL_EINVAL, buf, None, sf)
     else (let n = min (unat cnt) (length bs - unat off) in
           if n \<le> length buf
           then Some (RMF_SUCCESS, take n (drop (unat off) bs) @ drop n buf, Some (word_of_nat n), sf)
           else None))"
  using assms by (rule ReadSection_cases)

theorem ReadSection_behaviour_witness:
  "ReadSection \<lparr>m_sectionRequests = [], m_sectionRequestsToRemove = [],
     m_outstandingSections = [(7, \<lparr>sectionID = 7, sectionData = [0xC2, 0, 1], sectionLength = 3\<rparr>)]\<rparr>
     7 1 5 0 [9, 9, 9, 9] =
   Some (RMF_SUCCESS, [0, 1, 9, 9], Some 2, \<lparr>m_sectionRequests = [], m_sectionRequestsToRemove = [],
     m_outstandingSections = [(7, \<lparr>sectionID = 7, sectionData = [0xC2, 0, 1], sectionLength = 3\<rparr>)]\<rparr>)"
  by (subst ReadSection_behaviour[where bs = "[0xC2, 0, 1]"])
    (simp_all add: sf_wf_def section_bytes_def Let_def)

end
