(* ===== verification/SectionRequests.thy ===== *)
theory SectionRequests
  imports SectionFilter
begin

text \<open>
  The request side of \<open>qamsource/simgr/inband/src/rmf_sectionfilter.cpp\<close>: setting, cancelling and
  releasing filters, and the callback by which the driver delivers sections. The driver calls
  \<open>Create\<close>, \<open>Start\<close> and \<open>Release\<close> are virtual and implemented by the SoC; their results, and those of
  the operating system layer, are the fields of \<open>sf_env\<close> and arguments. Events posted to client queues
  are returned as a list. \<open>None\<close> is a dereference of a NULL queue; a loop of \<open>SetFilter\<close> that does not
  end is \<open>None\<close> too and kept apart by its own theorem. Requests live in the symbol table under their
  filter id; writing through \<open>pFilter_Request\<close> is an update of the node the look-up found.
\<close>

datatype RMF_SECTFLT_RESULT =
    RMF_SECTFLT_Success
  | RMF_SECTFLT_Error
  | RMF_SECTFLT_NotReady
  | RMF_SECTFLT_NotStarted
  | RMF_SECTFLT_OutMem
  | RMF_SECTFLT_NoFilterRes
  | RMF_SECTFLT_InvalidParams

abbreviation (input) RMF_SF_ERROR_FILTER_NOT_AVAILABLE :: rmf_Error where
  "RMF_SF_ERROR_FILTER_NOT_AVAILABLE \<equiv> 0x2001"

record sf_env =
  ev_create :: rmf_Error
  ev_add :: rmf_Error
  node_alloc :: bool

type_synonym sf_posted = "32 word \<times> sf_event \<times> byte \<times> 32 word"

definition dispatchEvent :: "sf_env \<Rightarrow> 32 word \<Rightarrow> sf_event \<Rightarrow> byte \<Rightarrow> 32 word \<Rightarrow> rmf_Error \<times> sf_posted list" where
  "dispatchEvent env queueHandle filterEvent priority filterID =
     (if ev_create env \<noteq> RMF_SUCCESS then (ev_create env, [])
      else if ev_add env \<noteq> RMF_SUCCESS then (ev_add env, [])
      else (RMF_SUCCESS, [(queueHandle, filterEvent, priority, filterID)]))"

text \<open>A write through the pointer a look-up of \<open>key\<close> returned.\<close>

fun upd_node :: "'k \<Rightarrow> ('d \<Rightarrow> 'd) \<Rightarrow> ('k, 'd) rmf_SymbolMapTable \<Rightarrow> ('k, 'd) rmf_SymbolMapTable" where
  "upd_node key f [] = []"
| "upd_node key f ((k, d) # nodes) = (if k = key then (k, f d) # nodes else (k, d) # upd_node key f nodes)"

abbreviation upd_request :: "32 word \<Rightarrow> (rmf_sf_SectionRequest \<Rightarrow> rmf_sf_SectionRequest) \<Rightarrow> rmf_SectionFilter \<Rightarrow> rmf_SectionFilter" where
  "upd_request filterID f sf \<equiv> sf\<lparr>m_sectionRequests := upd_node filterID f (m_sectionRequests sf)\<rparr>"

section \<open>Cancelling and releasing\<close>

definition cancelFilter ::
  "sf_env \<Rightarrow> 32 word \<Rightarrow> sf_event \<Rightarrow> rmf_SectionFilter \<Rightarrow> rmf_Error \<times> sf_posted list \<times> rmf_SectionFilter" where
  "cancelFilter env filterID filterEvent sf =
     (case Lookup filterID (m_sectionRequests sf) of
        None \<Rightarrow> (RMF_OSAL_EINVAL, [], sf)
      | Some r \<Rightarrow>
          if req_state r = RMF_SF_REQSTATE_CANCELLED then (RMF_OSAL_EINVAL, [], sf)
          else (RMF_SUCCESS,
                if filterEvent \<noteq> RMF_SF_EVENT_UNKNOWN
                then snd (dispatchEvent env (requestorQueue r) filterEvent (req_priority r) filterID) else [],
                upd_request filterID (\<lambda>r. r\<lparr>req_state := RMF_SF_REQSTATE_CANCELLED\<rparr>) sf))"

definition CancelFilter ::
  "sf_env \<Rightarrow> 32 word \<Rightarrow> rmf_SectionFilter \<Rightarrow> rmf_Error \<times> sf_posted list \<times> rmf_SectionFilter" where
  "CancelFilter env uniqueId sf = cancelFilter env uniqueId RMF_SF_EVENT_FILTER_CANCELLED sf"

text \<open>\<open>while (NULL != (pSectionData = rmf_queue_pop_head(...)))\<close>.\<close>

function free_sections :: "rmf_Section_Data RMFQueue option \<Rightarrow> rmf_Section_Data RMFQueue option option" where
  "free_sections queue =
     do { (pSectionData, queue') \<leftarrow> rmf_queue_pop_head queue;
          case pSectionData of None \<Rightarrow> Some queue' | Some d \<Rightarrow> free_sections queue' }"
  by pat_completeness auto
termination
  by (relation "measure (\<lambda>q. case q of None \<Rightarrow> 0 | Some r \<Rightarrow> q_count r)")
    (auto simp: rmf_queue_pop_head_def Let_def split: option.splits if_splits bind_splits)

declare free_sections.simps [simp del]

definition ReleaseFilterRequest :: "rmf_sf_SectionRequest \<Rightarrow> rmf_Error option" where
  "ReleaseFilterRequest r =
     do { queue \<leftarrow> free_sections (m_SectionsDataQueue r);
          queue \<leftarrow> rmf_queue_clear queue;
          rmf_queue_free queue;
          Some RMF_SUCCESS }"

definition IsDeferredDeleteQueueEmpty :: "rmf_SectionFilter \<Rightarrow> bool" where
  "IsDeferredDeleteQueueEmpty sf \<longleftrightarrow>
     list_all (\<lambda>(k, r). \<not> uiIsSectionUnderProcessing r) (m_sectionRequestsToRemove sf)"

fun deferred_walk ::
  "(32 word, rmf_sf_SectionRequest) rmf_SymbolMapTable \<Rightarrow> (32 word, rmf_sf_SectionRequest) rmf_SymbolMapTable \<Rightarrow>
   (32 word, rmf_sf_SectionRequest) rmf_SymbolMapTable option" where
  "deferred_walk [] t = Some t"
| "deferred_walk ((key, pRequest) # iter) t =
     (if \<not> uiIsSectionUnderProcessing pRequest
      then do { ReleaseFilterRequest pRequest; deferred_walk iter (snd (Remove key t)) }
      else deferred_walk iter t)"

definition ReleaseFromDeferredDeleteQueue :: "rmf_SectionFilter \<Rightarrow> (rmf_Error \<times> rmf_SectionFilter) option" where
  "ReleaseFromDeferredDeleteQueue sf =
     do { t \<leftarrow> deferred_walk (IterInit (m_sectionRequestsToRemove sf)) (m_sectionRequestsToRemove sf);
          Some (RMF_SUCCESS, sf\<lparr>m_sectionRequestsToRemove := t\<rparr>) }"

definition ReleaseFilter ::
  "sf_env \<Rightarrow> 32 word \<Rightarrow> rmf_SectionFilter \<Rightarrow> (rmf_Error \<times> sf_posted list \<times> rmf_SectionFilter) option" where
  "ReleaseFilter env uniqueId sf =
     (case Lookup uniqueId (m_sectionRequests sf) of
        None \<Rightarrow> Some (RMF_OSAL_EINVAL, [], sf)
      | Some r \<Rightarrow>
          do { let (posted, sf) =
                 (if req_state r \<noteq> RMF_SF_REQSTATE_CANCELLED
                  then snd (cancelFilter env uniqueId RMF_SF_EVENT_FILTER_CANCELLED sf) else ([], sf));
               let (removed, rest) = Remove uniqueId (m_sectionRequests sf);
               let sf = sf\<lparr>m_sectionRequests := rest\<rparr>;
               sf \<leftarrow>
                 (case removed of
                    None \<Rightarrow> Some sf
                  | Some r \<Rightarrow>
                      if \<not> uiIsSectionUnderProcessing r then do { ReleaseFilterRequest r; Some sf }
                      else Some (if Lookup uniqueId (m_sectionRequestsToRemove sf) = None
                                 then sf\<lparr>m_sectionRequestsToRemove :=
                                           Insert (node_alloc env) uniqueId r (m_sectionRequestsToRemove sf)\<rparr>
                                 else sf));
               (_, sf) \<leftarrow> ReleaseFromDeferredDeleteQueue sf;
               Some (RMF_SUCCESS, posted, sf) })"

section \<open>Sections from the driver\<close>

text \<open>
  The callback, run without interruption: the flag \<open>uiIsSectionUnderProcessing\<close> is set at its start and
  cleared at each of its ends. \<open>shouldCancelFilter\<close> stays FALSE (its assignment is commented out).
\<close>

definition section_avail_cb ::
  "sf_env \<Rightarrow> 32 word \<Rightarrow> rmf_Section_Data option \<Rightarrow> rmf_SectionFilter \<Rightarrow> (sf_posted list \<times> rmf_SectionFilter) option" where
  "section_avail_cb env filterID pSectionData sf =
     (case pSectionData of
        None \<Rightarrow> Some ([], sf)
      | Some d \<Rightarrow>
        (case Lookup filterID (m_sectionRequests sf) of
           None \<Rightarrow> Some ([], sf)
         | Some r \<Rightarrow>
           if req_state r = RMF_SF_REQSTATE_CANCELLED \<or> req_state r = RMF_SF_REQSTATE_MATCHED
           then Some ([], upd_request filterID (\<lambda>r. r\<lparr>uiIsSectionUnderProcessing := False\<rparr>) sf)
           else
             let (filterEvent, r) =
               (if matchesRemaining r > 0 then
                  let r = r\<lparr>matchesRemaining := matchesRemaining r - 1\<rparr>
                  in if matchesRemaining r = 0
                     then (RMF_SF_EVENT_LAST_SECTION_FOUND, r\<lparr>req_state := RMF_SF_REQSTATE_MATCHED\<rparr>)
                     else (RMF_SF_EVENT_SECTION_FOUND, r)
                else (RMF_SF_EVENT_SECTION_FOUND, r));
               undo = (\<lambda>r. if matchesRemaining r > 0 then r\<lparr>matchesRemaining := matchesRemaining r + 1\<rparr> else r)
             in do {
               (pushed, queue) \<leftarrow> rmf_queue_push_tail (m_SectionsDataQueue r) d False;
               let r = r\<lparr>m_SectionsDataQueue := queue\<rparr>;
               if pushed = -1 then
                 Some ([], upd_request filterID (\<lambda>_. (undo r)\<lparr>uiIsSectionUnderProcessing := False\<rparr>) sf)
               else do {
                 let (error, posted) =
                   dispatchEvent env (requestorQueue r) filterEvent (req_priority r) filterID;
                 r \<leftarrow>
                   (if error \<noteq> RMF_SUCCESS then
                      do { (_, queue) \<leftarrow> rmf_queue_pop_head (m_SectionsDataQueue r);
                           Some ((undo r)\<lparr>m_SectionsDataQueue := queue\<rparr>) }
                    else Some r);
                 Some (posted, upd_request filterID (\<lambda>_. r\<lparr>uiIsSectionUnderProcessing := False\<rparr>) sf) } }))"

section \<open>Setting a filter\<close>

fun lowest_priority_walk ::
  "32 word \<Rightarrow> 32 word \<Rightarrow> (32 word, rmf_sf_SectionRequest) rmf_SymbolMapTable \<Rightarrow> 32 word" where
  "lowest_priority_walk filterPriority filterID [] = filterID"
| "lowest_priority_walk filterPriority filterID ((key, pRequest) # iter) =
     (if ucast (req_priority pRequest) > filterPriority
      then lowest_priority_walk (ucast (req_priority pRequest)) key iter
      else lowest_priority_walk filterPriority filterID iter)"

definition getLowestPriorityFilter :: "32 word \<Rightarrow> rmf_SectionFilter \<Rightarrow> 32 word" where
  "getLowestPriorityFilter filterPriority sf =
     lowest_priority_walk filterPriority (-1) (IterInit (m_sectionRequests sf))"

text \<open>
  \<open>do ... while (returnCode == RMF_SECTFLT_NoFilterRes)\<close>: \<open>create n\<close> is the outcome of the n-th call of
  the driver. The result is the last outcome, or \<open>None\<close> inside when no filter can be pre-empted.
\<close>

partial_function (option) create_loop ::
  "(nat \<Rightarrow> RMF_SECTFLT_RESULT \<times> 32 word) \<Rightarrow> sf_env \<Rightarrow> 32 word \<Rightarrow> nat \<Rightarrow> sf_posted list \<Rightarrow> rmf_SectionFilter \<Rightarrow>
   ((RMF_SECTFLT_RESULT \<times> 32 word) option \<times> sf_posted list \<times> rmf_SectionFilter) option" where
  "create_loop create env filterPriority n posted sf =
     (case create n of (returnCode, filterID) \<Rightarrow>
        if returnCode = RMF_SECTFLT_NoFilterRes then
          let filterID = getLowestPriorityFilter filterPriority sf
          in if filterID \<noteq> -1
             then case cancelFilter env filterID RMF_SF_EVENT_FILTER_PREEMPTED sf of
                    (_, posted', sf) \<Rightarrow> create_loop create env filterPriority (Suc n) (posted @ posted') sf
             else Some (None, posted, sf)
        else Some (Some (returnCode, filterID), posted, sf))"

record rmf_FilterComponent =
  fc_length :: "32 word"
  fc_mask :: "byte list option"
  fc_vals :: "byte list option"

record rmf_FilterSpec =
  fs_pos :: rmf_FilterComponent
  fs_neg :: rmf_FilterComponent

definition component_ok :: "rmf_FilterComponent \<Rightarrow> bool" where
  "component_ok fc \<longleftrightarrow> \<not> (fc_length fc > 0) \<or> (fc_vals fc \<noteq> None \<and> fc_mask fc \<noteq> None)"

text \<open>
  \<open>request_alloc\<close> is the result of allocating the request, \<open>queue\<close> that of \<open>rmf_queue_new\<close>, which the
  code does not check; \<open>start\<close> is the result of \<open>Start\<close> on the created filter. The allocator returns
  zeroed memory, so \<open>uiIsSectionUnderProcessing\<close> is 0. The id is stored through \<open>uniqueId\<close> on success.
\<close>

definition SetFilter ::
  "(nat \<Rightarrow> RMF_SECTFLT_RESULT \<times> 32 word) \<Rightarrow> (32 word \<Rightarrow> RMF_SECTFLT_RESULT) \<Rightarrow> rmf_Error \<Rightarrow>
   rmf_Section_Data RMFQueue option \<Rightarrow> sf_env \<Rightarrow>
   rmf_FilterSpec option \<Rightarrow> 32 word \<Rightarrow> byte \<Rightarrow> 32 word \<Rightarrow> rmf_SectionFilter \<Rightarrow>
   (rmf_Error \<times> 32 word option \<times> sf_posted list \<times> rmf_SectionFilter) option" where
  "SetFilter create start request_alloc queue env filterSpec queueHandle filterPriority timesToMatch sf =
     (case filterSpec of
        None \<Rightarrow> Some (RMF_OSAL_EINVAL, None, [], sf)
      | Some spec \<Rightarrow>
          if filterPriority = 0 then Some (RMF_OSAL_EINVAL, None, [], sf)
          else if \<not> component_ok (fs_pos spec) then Some (RMF_OSAL_EINVAL, None, [], sf)
          else if \<not> component_ok (fs_neg spec) then Some (RMF_OSAL_EINVAL, None, [], sf)
          else if request_alloc \<noteq> RMF_SUCCESS then Some (request_alloc, None, [], sf)
          else do {
            (created, posted, sf) \<leftarrow> create_loop create env (ucast filterPriority) 0 [] sf;
            case created of
              None \<Rightarrow> do { rmf_queue_free queue; Some (RMF_SF_ERROR_FILTER_NOT_AVAILABLE, None, posted, sf) }
            | Some (returnCode, filterID) \<Rightarrow>
                if returnCode \<noteq> RMF_SECTFLT_Success
                then do { rmf_queue_free queue; Some (RMF_SF_ERROR_FILTER_NOT_AVAILABLE, None, posted, sf) }
                else do {
                  let r = \<lparr>req_state = RMF_SF_REQSTATE_READY, requestorQueue = queueHandle,
                           req_priority = filterPriority, matchesRemaining = timesToMatch,
                           m_SectionsDataQueue = queue, uiIsSectionUnderProcessing = False\<rparr>;
                  let sf = sf\<lparr>m_sectionRequests := Insert (node_alloc env) filterID r (m_sectionRequests sf)\<rparr>;
                  if start filterID \<noteq> RMF_SECTFLT_Success
                  then do { (_, posted', sf) \<leftarrow> ReleaseFilter env filterID sf;
                            Some (RMF_SF_ERROR_FILTER_NOT_AVAILABLE, None, posted @ posted', sf) }
                  else Some (RMF_SUCCESS, Some filterID, posted, sf) } })"

text \<open>What the driver and the allocator answer during one call of \<open>SetFilter\<close>, and the time of the call.\<close>

record filter_env =
  create_result :: "nat \<Rightarrow> RMF_SECTFLT_RESULT \<times> 32 word"
  start_result :: "32 word \<Rightarrow> RMF_SECTFLT_RESULT"
  request_alloc :: rmf_Error
  new_queue :: "rmf_Section_Data RMFQueue option"
  set_env :: sf_env
  set_time :: int

section \<open>Requests in the table\<close>

lemma Lookup_upd_node [simp]:
  "Lookup k (upd_node key f t) = (if k = key then map_option f (Lookup k t) else Lookup k t)"
  by (induction t) auto

lemma upd_node_twice [simp]: "upd_node key f (upd_node key g t) = upd_node key (f \<circ> g) t"
  by (induction t) auto

lemma map_fst_upd_node [simp]: "map fst (upd_node key f t) = map fst t"
  by (induction t) auto

lemma Lookup_None_iff: "Lookup k t = None \<longleftrightarrow> k \<notin> fst ` set t"
  by (induction k t rule: Lookup.induct) auto

lemma upd_node_other: "Lookup key t = None \<Longrightarrow> upd_node key f t = t"
  by (induction t) (auto split: if_splits)

lemma set_upd_node: "(k, d) \<in> set (upd_node key f t) \<Longrightarrow> (k, d) \<in> set t \<or> k = key \<and> (\<exists>d'. d = f d' \<and> Lookup key t = Some d')"
  by (induction t) (auto split: if_splits)

text \<open>A run of deliveries to one filter.\<close>

fun deliver_all ::
  "sf_env \<Rightarrow> 32 word \<Rightarrow> rmf_Section_Data list \<Rightarrow> rmf_SectionFilter \<Rightarrow> (sf_posted list \<times> rmf_SectionFilter) option" where
  "deliver_all env filterID [] sf = Some ([], sf)"
| "deliver_all env filterID (d # ds) sf =
     do { (posted, sf) \<leftarrow> section_avail_cb env filterID (Some d) sf;
          (posted', sf) \<leftarrow> deliver_all env filterID ds sf;
          Some (posted @ posted', sf) }"

definition env_ok :: "sf_env \<Rightarrow> bool" where
  "env_ok env \<longleftrightarrow> ev_create env = RMF_SUCCESS \<and> ev_add env = RMF_SUCCESS \<and> node_alloc env"

lemma dispatchEvent_ok: "env_ok env \<Longrightarrow> dispatchEvent env q e p i = (RMF_SUCCESS, [(q, e, p, i)])"
  by (simp add: dispatchEvent_def env_ok_def)

text \<open>One delivery to a request that still waits and has room.\<close>

lemma section_avail_cb_ready:
  assumes env: "env_ok env" and r: "Lookup i (m_sectionRequests sf) = Some r"
    and st: "req_state r = RMF_SF_REQSTATE_READY" "matchesRemaining r = word_of_nat (Suc n)" "Suc n < 2 ^ 32"
    and q: "queue_wf (m_SectionsDataQueue r)" "length (queue_list (m_SectionsDataQueue r)) < MAX_QUEUE_SIZE"
  obtains r' where "section_avail_cb env i (Some d) sf =
      Some ([(requestorQueue r, if n = 0 then RMF_SF_EVENT_LAST_SECTION_FOUND else RMF_SF_EVENT_SECTION_FOUND,
              req_priority r, i)], upd_request i (\<lambda>_. r') sf)"
    and "req_state r' = (if n = 0 then RMF_SF_REQSTATE_MATCHED else RMF_SF_REQSTATE_READY)"
    and "matchesRemaining r' = word_of_nat n" "queue_wf (m_SectionsDataQueue r')"
    and "queue_list (m_SectionsDataQueue r') = queue_list (m_SectionsDataQueue r) @ [d]"
    and "requestorQueue r' = requestorQueue r" "req_priority r' = req_priority r"
    and "\<not> uiIsSectionUnderProcessing r'"
proof -
  have "unat (matchesRemaining r) = Suc n" unfolding st(2) using st(3) by (simp only: unat_of_nat) simp
  then have pos: "matchesRemaining r > 0" "matchesRemaining r - 1 = word_of_nat n"
    by (simp_all add: word_less_nat_alt st(2))
  have zero: "(word_of_nat n :: 32 word) = 0 \<longleftrightarrow> n = 0"
    using st(3) by (simp add: word_unat_eq_iff unat_of_nat)
  obtain q' where q': "rmf_queue_push_tail (m_SectionsDataQueue r) d False = Some (0, q')" "queue_wf q'"
      "queue_list q' = queue_list (m_SectionsDataQueue r) @ [d]"
    using rmf_queue.push_room[OF q] by blast
  let ?s = "r\<lparr>matchesRemaining := word_of_nat n\<rparr>"
  let ?r = "(if n = 0 then ?s\<lparr>req_state := RMF_SF_REQSTATE_MATCHED\<rparr> else ?s)\<lparr>m_SectionsDataQueue := q',
      uiIsSectionUnderProcessing := False\<rparr>"
  show thesis
  proof (rule that[of ?r])
    show "section_avail_cb env i (Some d) sf =
      Some ([(requestorQueue r, if n = 0 then RMF_SF_EVENT_LAST_SECTION_FOUND else RMF_SF_EVENT_SECTION_FOUND,
              req_priority r, i)], upd_request i (\<lambda>_. ?r) sf)"
      using r st(1) pos zero q'(1) by (cases "n = 0") (simp_all add: section_avail_cb_def dispatchEvent_ok[OF env] Let_def)
  qed (use q' st(1) in simp_all)
qed

text \<open>A request that is matched or cancelled takes nothing more.\<close>

lemma section_avail_cb_idle:
  assumes "Lookup i (m_sectionRequests sf) = Some r" "\<not> uiIsSectionUnderProcessing r"
    and "req_state r = RMF_SF_REQSTATE_MATCHED \<or> req_state r = RMF_SF_REQSTATE_CANCELLED"
  shows "section_avail_cb env i (Some d) sf = Some ([], sf)"
proof -
  have "upd_node i (\<lambda>r. r\<lparr>uiIsSectionUnderProcessing := False\<rparr>) t = t" if "Lookup i t = Some r" for t
    using that assms(2) by (induction t) (auto split: if_splits)
  with assms show ?thesis by (auto simp: section_avail_cb_def)
qed

lemma deliver_all_idle:
  assumes "Lookup i (m_sectionRequests sf) = Some r" "\<not> uiIsSectionUnderProcessing r"
    and "req_state r = RMF_SF_REQSTATE_MATCHED \<or> req_state r = RMF_SF_REQSTATE_CANCELLED"
  shows "deliver_all env i ds sf = Some ([], sf)"
  using section_avail_cb_idle[OF assms] by (induction ds) auto

definition match_events :: "32 word \<Rightarrow> byte \<Rightarrow> 32 word \<Rightarrow> nat \<Rightarrow> nat \<Rightarrow> sf_posted list" where
  "match_events queue prio i n k =
     replicate (min k (n - 1)) (queue, RMF_SF_EVENT_SECTION_FOUND, prio, i)
     @ (if n \<le> k then [(queue, RMF_SF_EVENT_LAST_SECTION_FOUND, prio, i)] else [])"

lemma deliver_all_events:
  assumes "env_ok env" "Lookup i (m_sectionRequests sf) = Some r"
    and "req_state r = RMF_SF_REQSTATE_READY" "matchesRemaining r = word_of_nat n" "0 < n" "n < 2 ^ 32"
    and "queue_wf (m_SectionsDataQueue r)" "length (queue_list (m_SectionsDataQueue r)) + n \<le> MAX_QUEUE_SIZE"
  shows "\<exists>sf' r'. deliver_all env i ds sf =
      Some (match_events (requestorQueue r) (req_priority r) i n (length ds), sf') \<and>
    Lookup i (m_sectionRequests sf') = Some r' \<and>
    req_state r' = (if n \<le> length ds then RMF_SF_REQSTATE_MATCHED else RMF_SF_REQSTATE_READY) \<and>
    queue_wf (m_SectionsDataQueue r') \<and>
    queue_list (m_SectionsDataQueue r') = queue_list (m_SectionsDataQueue r) @ take n ds"
  using assms(2-)
proof (induction ds arbitrary: sf r n)
  case (Cons d ds)
  obtain m where m: "n = Suc m" using Cons.prems(4) by (cases n) auto
  obtain r1 where cb: "section_avail_cb env i (Some d) sf =
      Some ([(requestorQueue r, if m = 0 then RMF_SF_EVENT_LAST_SECTION_FOUND else RMF_SF_EVENT_SECTION_FOUND,
              req_priority r, i)], upd_request i (\<lambda>_. r1) sf)"
    and r1: "req_state r1 = (if m = 0 then RMF_SF_REQSTATE_MATCHED else RMF_SF_REQSTATE_READY)"
      "matchesRemaining r1 = word_of_nat m" "queue_wf (m_SectionsDataQueue r1)"
      "queue_list (m_SectionsDataQueue r1) = queue_list (m_SectionsDataQueue r) @ [d]"
      "requestorQueue r1 = requestorQueue r" "req_priority r1 = req_priority r" "\<not> uiIsSectionUnderProcessing r1"
    by (rule section_avail_cb_ready[OF assms(1) Cons.prems(1,2), of m d]) (use Cons.prems m in auto)
  let ?sf = "upd_request i (\<lambda>_. r1) sf"
  have look: "Lookup i (m_sectionRequests ?sf) = Some r1" using Cons.prems(1) by simp
  show ?case
  proof (cases "m = 0")
    case True
    with deliver_all_idle[OF look r1(7), of env ds] r1 look cb m show ?thesis
      by (auto simp: match_events_def)
  next
    case False
    have "length (queue_list (m_SectionsDataQueue r1)) + m \<le> MAX_QUEUE_SIZE" using Cons.prems(7) r1(4) m by simp
    with Cons.IH[OF look _ r1(2) _ _ r1(3)] False r1 Cons.prems(5) m obtain sf' r' where
      "deliver_all env i ds ?sf = Some (match_events (requestorQueue r) (req_priority r) i m (length ds), sf')"
      "Lookup i (m_sectionRequests sf') = Some r'"
      "req_state r' = (if m \<le> length ds then RMF_SF_REQSTATE_MATCHED else RMF_SF_REQSTATE_READY)"
      "queue_wf (m_SectionsDataQueue r')"
      "queue_list (m_SectionsDataQueue r') = queue_list (m_SectionsDataQueue r1) @ take m ds" by auto
    moreover have "match_events q p i n (length (d # ds)) = (q, RMF_SF_EVENT_SECTION_FOUND, p, i) # match_events q p i m (length ds)" for q p
      using False m by (cases m) (simp_all add: match_events_def)
    ultimately show ?thesis using cb False r1(4) m by auto
  qed
next
  case Nil
  then show ?case by (auto simp: match_events_def)
qed

section \<open>Properties of delivery\<close>

text \<open>
  C32. A filter set for \<open>n\<close> matches delivers exactly \<open>n\<close> sections: whatever the driver sends after that is
  dropped, the client receives one event per section, the last one and only that one says that it
  is the last, and the queue of the request holds the sections in the order of arrival.
\<close>

theorem filter_delivers_matches:
  assumes "env_ok env" "Lookup i (m_sectionRequests sf) = Some r"
    and "req_state r = RMF_SF_REQSTATE_READY" "matchesRemaining r = word_of_nat n" "0 < n"
    and "queue_wf (m_SectionsDataQueue r)" "queue_list (m_SectionsDataQueue r) = []" "n \<le> MAX_QUEUE_SIZE"
  shows "\<exists>sf' r'. deliver_all env i ds sf =
      Some (match_events (requestorQueue r) (req_priority r) i n (length ds), sf') \<and>
    Lookup i (m_sectionRequests sf') = Some r' \<and>
    req_state r' = (if n \<le> length ds then RMF_SF_REQSTATE_MATCHED else RMF_SF_REQSTATE_READY) \<and>
    queue_list (m_SectionsDataQueue r') = take n ds"
  using deliver_all_events[OF assms(1-5) _ assms(6), of ds] assms(7,8) by auto

definition sf_env_example :: sf_env where
  "sf_env_example = \<lparr>ev_create = RMF_SUCCESS, ev_add = RMF_SUCCESS, node_alloc = True\<rparr>"

definition request_example :: "nat \<Rightarrow> nat \<Rightarrow> rmf_sf_SectionRequest" where
  "request_example matches filled =
     \<lparr>req_state = RMF_SF_REQSTATE_READY, requestorQueue = 9, req_priority = 5, matchesRemaining = word_of_nat matches,
      m_SectionsDataQueue = Some \<lparr>elements = replicate 32 \<lparr>sectionID = 0, sectionData = [], sectionLength = 0\<rparr>,
        q_head = 0, q_tail = filled mod 32, q_count = filled\<rparr>,
      uiIsSectionUnderProcessing = False\<rparr>"

definition sf_example :: "nat \<Rightarrow> nat \<Rightarrow> rmf_SectionFilter" where
  "sf_example matches filled = \<lparr>m_sectionRequests = [(1, request_example matches filled)],
     m_sectionRequestsToRemove = [], m_outstandingSections = []\<rparr>"

lemma request_example_wf: "filled \<le> 32 \<Longrightarrow> queue_wf (m_SectionsDataQueue (request_example matches filled))"
  by (simp add: request_example_def queue_wf_def)

theorem filter_delivers_matches_witness:
  "\<exists>sf' r'. deliver_all sf_env_example 1
      (replicate 3 \<lparr>sectionID = 4, sectionData = [1], sectionLength = 1\<rparr>) (sf_example 2 0) =
    Some ([(9, RMF_SF_EVENT_SECTION_FOUND, 5, 1), (9, RMF_SF_EVENT_LAST_SECTION_FOUND, 5, 1)], sf') \<and>
    Lookup 1 (m_sectionRequests sf') = Some r' \<and> req_state r' = RMF_SF_REQSTATE_MATCHED \<and>
    queue_list (m_SectionsDataQueue r') = replicate 2 \<lparr>sectionID = 4, sectionData = [1], sectionLength = 1\<rparr>"
  using filter_delivers_matches[of sf_env_example 1 "sf_example 2 0" "request_example 2 0" 2
      "replicate 3 \<lparr>sectionID = 4, sectionData = [1], sectionLength = 1\<rparr>"] request_example_wf[of 0 2]
  by (simp add: env_ok_def sf_env_example_def sf_example_def request_example_def queue_list_def match_events_def
      numeral_2_eq_2 numeral_3_eq_3)

text \<open>
  The last match can be lost: when the queue of a request is full at its last match, the request
  becomes MATCHED although the section is dropped and no event is posted, and from then on the
  filter stays silent; the client never learns that the filter is exhausted.
\<close>

theorem last_match_lost:
  assumes r: "Lookup i (m_sectionRequests sf) = Some r" "req_state r = RMF_SF_REQSTATE_READY" "matchesRemaining r = 1"
    and q: "queue_wf (m_SectionsDataQueue r)" "length (queue_list (m_SectionsDataQueue r)) = MAX_QUEUE_SIZE"
  shows "\<exists>sf' r'. deliver_all env i (d # ds) sf = Some ([], sf') \<and>
    Lookup i (m_sectionRequests sf') = Some r' \<and> req_state r' = RMF_SF_REQSTATE_MATCHED \<and>
    queue_list (m_SectionsDataQueue r') = queue_list (m_SectionsDataQueue r)"
proof -
  let ?r = "r\<lparr>matchesRemaining := 0, req_state := RMF_SF_REQSTATE_MATCHED, uiIsSectionUnderProcessing := False\<rparr>"
  let ?sf = "upd_request i (\<lambda>_. ?r) sf"
  have q': "m_SectionsDataQueue (r\<lparr>matchesRemaining := 0, req_state := RMF_SF_REQSTATE_MATCHED\<rparr>) = m_SectionsDataQueue r"
    by simp
  have "section_avail_cb env i (Some d) sf = Some ([], ?sf)"
    using r rmf_queue.push_full[OF q, of d] by (simp add: section_avail_cb_def Let_def)
  moreover have look: "Lookup i (m_sectionRequests ?sf) = Some ?r" using r(1) by simp
  ultimately show ?thesis using deliver_all_idle[OF look, of env ds] by simp
qed

theorem last_match_lost_witness:
  "\<exists>sf' r'. deliver_all sf_env_example 1
      (replicate 3 \<lparr>sectionID = 4, sectionData = [1], sectionLength = 1\<rparr>) (sf_example 1 32) = Some ([], sf') \<and>
    Lookup 1 (m_sectionRequests sf') = Some r' \<and> req_state r' = RMF_SF_REQSTATE_MATCHED \<and>
    queue_list (m_SectionsDataQueue r') = queue_list (m_SectionsDataQueue (request_example 1 32))"
proof -
  have "length (queue_list (m_SectionsDataQueue (request_example 1 32))) = 32"
    by (simp add: request_example_def queue_list_def)
  with last_match_lost[of 1 "sf_example 1 32" "request_example 1 32" sf_env_example
      "\<lparr>sectionID = 4, sectionData = [1], sectionLength = 1\<rparr>"
      "replicate 2 \<lparr>sectionID = 4, sectionData = [1], sectionLength = 1\<rparr>"] request_example_wf[of 32 1]
  show ?thesis by (simp add: sf_example_def request_example_def numeral_3_eq_3 numeral_2_eq_2)
qed

section \<open>Pre-emption\<close>

lemma lowest_priority_walk:
  "lowest_priority_walk p i t = i \<and> (\<forall>(k, r) \<in> set t. ucast (req_priority r) \<le> p) \<or>
   (\<exists>r. (lowest_priority_walk p i t, r) \<in> set t \<and> ucast (req_priority r) > p \<and>
      (\<forall>(k, r') \<in> set t. req_priority r' \<le> req_priority r))"
proof (induction t arbitrary: p i)
  case (Cons n t)
  obtain k r where n: "n = (k, r)" by (cases n)
  have mono: "(ucast (a :: byte) :: 32 word) \<le> ucast b \<longleftrightarrow> a \<le> b" for a b by (simp add: word_le_nat_alt)
  show ?case
  proof (cases "ucast (req_priority r) > p")
    case True
    let ?w = "lowest_priority_walk (ucast (req_priority r)) k t"
    consider "?w = k" "\<forall>(k, r') \<in> set t. ucast (req_priority r') \<le> (ucast (req_priority r) :: 32 word)"
      | r0 where "(?w, r0) \<in> set t" "(ucast (req_priority r) :: 32 word) < ucast (req_priority r0)"
          "\<forall>(k, r') \<in> set t. req_priority r' \<le> req_priority r0"
      using Cons.IH[of "ucast (req_priority r)" k] by blast
    then show ?thesis
    proof cases
      case 1
      with True show ?thesis by (auto simp: n mono intro!: exI[of _ r])
    next
      case 2
      from 2(2) have "req_priority r \<le> req_priority r0" using mono less_imp_le by blast
      with 2 True less_trans[OF True 2(2)] show ?thesis by (auto simp: n intro!: exI[of _ r0])
    qed
  next
    case False
    then have le: "ucast (req_priority r) \<le> p" by simp
    have "req_priority r \<le> req_priority r'" if "ucast (req_priority r') > p" for r'
      using order_trans[OF le less_imp_le[OF that]] by (simp only: mono)
    with le False Cons.IH[of p i] show ?thesis by (auto simp: n)
  qed
qed simp

text \<open>
  The filter chosen for pre-emption is one of the least important requests (the greatest priority
  number), and less important than the caller; without such a request the result is -1.
\<close>

theorem getLowestPriorityFilter_lowest:
  assumes "\<forall>(k, r) \<in> set (m_sectionRequests sf). k \<noteq> -1"
  shows "if getLowestPriorityFilter p sf = -1
    then \<forall>(k, r) \<in> set (m_sectionRequests sf). ucast (req_priority r) \<le> p
    else \<exists>r. (getLowestPriorityFilter p sf, r) \<in> set (m_sectionRequests sf) \<and> ucast (req_priority r) > p \<and>
      (\<forall>(k, r') \<in> set (m_sectionRequests sf). req_priority r' \<le> req_priority r)"
  using lowest_priority_walk[of p "-1" "m_sectionRequests sf"] assms
  by (auto simp: getLowestPriorityFilter_def IterInit_def)

theorem getLowestPriorityFilter_lowest_witness:
  "getLowestPriorityFilter 3 (sf_example 1 0) = 1 \<and>
   (\<exists>r. (1, r) \<in> set (m_sectionRequests (sf_example 1 0)) \<and> ucast (req_priority r) > (3 :: 32 word) \<and>
      (\<forall>(k, r') \<in> set (m_sectionRequests (sf_example 1 0)). req_priority r' \<le> req_priority r))"
proof -
  have "getLowestPriorityFilter 3 (sf_example 1 0) = 1"
    by (simp add: getLowestPriorityFilter_def IterInit_def sf_example_def request_example_def)
  with getLowestPriorityFilter_lowest[of "sf_example 1 0" 3] show ?thesis by (simp add: sf_example_def)
qed

lemma lowest_priority_walk_upd:
  assumes "\<And>r. req_priority (f r) = req_priority r"
  shows "lowest_priority_walk p i (upd_node key f t) = lowest_priority_walk p i t"
  by (induction p i t rule: lowest_priority_walk.induct) (simp_all add: assms)

lemma cancelFilter_lowest:
  "getLowestPriorityFilter p (snd (snd (cancelFilter env i e sf))) = getLowestPriorityFilter p sf"
  by (simp add: cancelFilter_def getLowestPriorityFilter_def IterInit_def lowest_priority_walk_upd split: option.split)

lemma create_loop_returns:
  assumes "fst (create (n + k)) \<noteq> RMF_SECTFLT_NoFilterRes"
  shows "\<exists>res. create_loop create env p n posted sf = Some res"
  using assms
proof (induction k arbitrary: n posted sf)
  case 0
  then show ?case by (subst create_loop.simps) (auto split: prod.splits)
next
  case (Suc k)
  then have "fst (create (Suc n + k)) \<noteq> RMF_SECTFLT_NoFilterRes" by simp
  note IH = Suc.IH[OF this]
  show ?case by (subst create_loop.simps) (auto simp: Let_def IH simp del: split_paired_Ex split: prod.splits)
qed

lemma create_loop_stuck:
  assumes "create_loop create env p n posted sf = Some res"
  shows "(\<forall>n. fst (create n) = RMF_SECTFLT_NoFilterRes) \<longrightarrow> getLowestPriorityFilter p sf = -1"
proof (rule create_loop.raw_induct[where P = "\<lambda>create env p n posted sf res.
    (\<forall>n. fst (create n) = RMF_SECTFLT_NoFilterRes) \<longrightarrow> getLowestPriorityFilter p sf = -1", OF _ assms], intro impI)
  fix loop env p n posted sf res
  fix create :: "nat \<Rightarrow> RMF_SECTFLT_RESULT \<times> 32 word"
  assume IH: "\<And>create env p n posted sf res. loop create env p n posted sf = Some res \<Longrightarrow>
      (\<forall>n. fst (create n) = RMF_SECTFLT_NoFilterRes) \<longrightarrow> getLowestPriorityFilter p sf = -1"
    and body: "(case create n of (returnCode, filterID) \<Rightarrow>
        if returnCode = RMF_SECTFLT_NoFilterRes then
          let filterID = getLowestPriorityFilter p sf
          in if filterID \<noteq> -1
             then case cancelFilter env filterID RMF_SF_EVENT_FILTER_PREEMPTED sf of
                    (_, posted', sf) \<Rightarrow> loop create env p (Suc n) (posted @ posted') sf
             else Some (None, posted, sf)
        else Some (Some (returnCode, filterID), posted, sf)) = Some res"
    and none: "\<forall>n. fst (create n) = RMF_SECTFLT_NoFilterRes"
  show "getLowestPriorityFilter p sf = -1"
  proof (rule ccontr)
    let ?i = "getLowestPriorityFilter p sf"
    assume i: "?i \<noteq> -1"
    obtain a posted' sf' where c: "cancelFilter env ?i RMF_SF_EVENT_FILTER_PREEMPTED sf = (a, posted', sf')"
      by (cases "cancelFilter env ?i RMF_SF_EVENT_FILTER_PREEMPTED sf") auto
    obtain i' where "create n = (RMF_SECTFLT_NoFilterRes, i')"
      using none by (metis prod.collapse)
    with body i c have "loop create env p (Suc n) (posted @ posted') sf' = Some res"
      by (simp add: Let_def)
    from IH[OF this] none cancelFilter_lowest[of p env ?i RMF_SF_EVENT_FILTER_PREEMPTED sf] c i
    show False by simp
  qed
qed

text \<open>
  C39. Pre-emption can spin for ever: pre-empting does not take the filter out of the table, so while the
  driver has no free filter and some request is less important than the new one, \<open>SetFilter\<close> chooses
  the same, already cancelled request again and again and does not return.
\<close>

theorem SetFilter_preemption_spins:
  assumes "\<forall>n. fst (create n) = RMF_SECTFLT_NoFilterRes"
    and "getLowestPriorityFilter (ucast prio) sf \<noteq> -1"
    and "component_ok (fs_pos spec)" "component_ok (fs_neg spec)" "prio \<noteq> 0"
  shows "create_loop create env (ucast prio) 0 [] sf = None \<and>
    SetFilter create start RMF_SUCCESS queue env (Some spec) queueHandle prio timesToMatch sf = None"
proof -
  have "create_loop create env (ucast prio) 0 [] sf = None"
    using create_loop_stuck[of create env "ucast prio" 0 "[]" sf] assms(1,2)
    by (cases "create_loop create env (ucast prio) 0 [] sf") auto
  with assms show ?thesis by (simp add: SetFilter_def)
qed

definition spec_example :: rmf_FilterSpec where
  "spec_example = \<lparr>fs_pos = \<lparr>fc_length = 1, fc_mask = Some [0xFF], fc_vals = Some [0xC2]\<rparr>,
     fs_neg = \<lparr>fc_length = 0, fc_mask = None, fc_vals = None\<rparr>\<rparr>"

theorem SetFilter_preemption_spins_witness:
  "create_loop (\<lambda>_. (RMF_SECTFLT_NoFilterRes, 0)) sf_env_example (ucast (3 :: byte)) 0 [] (sf_example 1 0) = None \<and>
   SetFilter (\<lambda>_. (RMF_SECTFLT_NoFilterRes, 0)) (\<lambda>_. RMF_SECTFLT_Success) RMF_SUCCESS None sf_env_example
     (Some spec_example) 9 3 1 (sf_example 1 0) = None"
  by (rule SetFilter_preemption_spins)
    (simp_all add: getLowestPriorityFilter_def IterInit_def sf_example_def request_example_def spec_example_def
      component_ok_def)

section \<open>Well-formed requests\<close>

definition requests_wf :: "rmf_SectionFilter \<Rightarrow> bool" where
  "requests_wf sf \<longleftrightarrow>
     distinct (map fst (m_sectionRequests sf)) \<and> distinct (map fst (m_sectionRequestsToRemove sf)) \<and>
     (\<forall>k r. (k, r) \<in> set (m_sectionRequests sf) \<union> set (m_sectionRequestsToRemove sf) \<longrightarrow>
            queue_wf (m_SectionsDataQueue r))"

lemma free_sections_wf: "queue_wf q \<Longrightarrow> \<exists>q'. free_sections q = Some q' \<and> queue_wf q' \<and> queue_list q' = []"
proof (induction "queue_list q" arbitrary: q)
  case Nil
  then show ?case using rmf_queue.pop_none[of q] by (subst free_sections.simps) auto
next
  case (Cons x xs)
  then obtain q1 where "rmf_queue_pop_head q = Some (Some x, q1)" "queue_wf q1" "queue_list q1 = xs"
    using rmf_queue.pop_some[of q x xs] by metis
  with Cons.hyps(1)[of q1] show ?case by (subst free_sections.simps) auto
qed

lemma ReleaseFilterRequest_wf: "queue_wf (m_SectionsDataQueue r) \<Longrightarrow> ReleaseFilterRequest r = Some RMF_SUCCESS"
  using free_sections_wf[of "m_SectionsDataQueue r"]
  by (auto simp: ReleaseFilterRequest_def rmf_queue_clear_def rmf_queue_free_def queue_wf_def split: option.splits)

lemma Remove_walk_set: "set (snd (Remove_walk k t)) \<subseteq> set t"
  by (induction k t rule: Remove_walk.induct) (auto split: prod.splits)

lemma Remove_is_walk: "Remove k t = Remove_walk k t"
  by (cases t) (auto simp: Remove_def)

lemma Remove_set: "set (snd (Remove k t)) \<subseteq> set t"
  by (simp add: Remove_is_walk Remove_walk_set)

lemma Remove_walk_distinct: "distinct (map fst t) \<Longrightarrow> distinct (map fst (snd (Remove_walk k t)))"
proof (induction k t rule: Remove_walk.induct)
  case (2 k k' d ns)
  with Remove_walk_set[of k ns] show ?case by (auto split: prod.splits)
qed simp

lemma Remove_distinct: "distinct (map fst t) \<Longrightarrow> distinct (map fst (snd (Remove k t)))"
  by (simp add: Remove_is_walk Remove_walk_distinct)

lemma Remove_fst_set: "fst (Remove k t) = Some r \<Longrightarrow> (k, r) \<in> set t"
  by (metis Lookup_in_set symtab.remove_fst)

lemma deferred_walk_wf:
  assumes "\<forall>(k, r) \<in> set iter. queue_wf (m_SectionsDataQueue r)"
  shows "\<exists>t'. deferred_walk iter t = Some t' \<and> set t' \<subseteq> set t \<and> (distinct (map fst t) \<longrightarrow> distinct (map fst t'))"
  using assms
proof (induction iter t rule: deferred_walk.induct)
  case (2 key r iter t)
  then have r: "ReleaseFilterRequest r = Some RMF_SUCCESS" by (simp add: ReleaseFilterRequest_wf)
  show ?case
  proof (cases "uiIsSectionUnderProcessing r")
    case False
    with 2 r obtain t' where "deferred_walk iter (snd (Remove key t)) = Some t'" "set t' \<subseteq> set (snd (Remove key t))"
        "distinct (map fst (snd (Remove key t))) \<longrightarrow> distinct (map fst t')" by auto
    with False r Remove_set[of key t] Remove_distinct[of t key] show ?thesis by auto
  qed (use 2 in auto)
qed simp

lemma ReleaseFromDeferredDeleteQueue_wf:
  assumes "requests_wf sf"
  shows "\<exists>t. ReleaseFromDeferredDeleteQueue sf = Some (RMF_SUCCESS, sf\<lparr>m_sectionRequestsToRemove := t\<rparr>) \<and>
    requests_wf (sf\<lparr>m_sectionRequestsToRemove := t\<rparr>)"
proof -
  have "\<forall>(k, r) \<in> set (m_sectionRequestsToRemove sf). queue_wf (m_SectionsDataQueue r)"
    using assms by (auto simp: requests_wf_def)
  from deferred_walk_wf[OF this, of "m_sectionRequestsToRemove sf"] assms show ?thesis
    by (fastforce simp: ReleaseFromDeferredDeleteQueue_def IterInit_def requests_wf_def)
qed

lemma requests_wf_upd:
  assumes "requests_wf sf"
    and "\<And>r. Lookup i (m_sectionRequests sf) = Some r \<Longrightarrow> queue_wf (m_SectionsDataQueue (f r))"
  shows "requests_wf (upd_request i f sf)"
proof -
  have "queue_wf (m_SectionsDataQueue r)" if "(k, r) \<in> set (upd_node i f (m_sectionRequests sf))" for k r
    using set_upd_node[OF that] assms by (auto simp: requests_wf_def)
  with assms(1) show ?thesis by (auto simp: requests_wf_def)
qed

lemma requests_wf_lookup: "requests_wf sf \<Longrightarrow> Lookup i (m_sectionRequests sf) = Some r \<Longrightarrow> queue_wf (m_SectionsDataQueue r)"
  by (auto simp: requests_wf_def dest: Lookup_in_set)

lemma cancelFilter_wf:
  assumes "requests_wf sf" "cancelFilter env i e sf = (err, posted, sf')"
  shows "requests_wf sf'" "map fst (m_sectionRequests sf') = map fst (m_sectionRequests sf)"
proof -
  have "requests_wf (upd_request i (\<lambda>r. r\<lparr>req_state := RMF_SF_REQSTATE_CANCELLED\<rparr>) sf)"
    by (rule requests_wf_upd[OF assms(1)]) (simp add: requests_wf_lookup[OF assms(1)])
  with assms show "requests_wf sf'" by (auto simp: cancelFilter_def split: option.splits if_splits)
  from assms(2) show "map fst (m_sectionRequests sf') = map fst (m_sectionRequests sf)"
    by (auto simp: cancelFilter_def split: option.splits if_splits)
qed

lemma requests_wf_remove:
  assumes "requests_wf sf"
  shows "requests_wf (sf\<lparr>m_sectionRequests := snd (Remove i (m_sectionRequests sf))\<rparr>)"
  using assms Remove_set[of i "m_sectionRequests sf"] Remove_distinct[of "m_sectionRequests sf" i]
  by (fastforce simp: requests_wf_def)

lemma requests_wf_defer:
  assumes "requests_wf sf" "queue_wf (m_SectionsDataQueue r)" "Lookup i (m_sectionRequestsToRemove sf) = None"
  shows "requests_wf (sf\<lparr>m_sectionRequestsToRemove := Insert a i r (m_sectionRequestsToRemove sf)\<rparr>)"
proof -
  have "i \<notin> fst ` set (m_sectionRequestsToRemove sf)" using assms(3) by (simp add: Lookup_None_iff)
  with assms(1,2) show ?thesis by (auto simp: requests_wf_def Insert_def)
qed

lemma ReleaseFilter_wf:
  assumes wf: "requests_wf sf"
  obtains err posted sf' where "ReleaseFilter env i sf = Some (err, posted, sf')" "requests_wf sf'"
proof (cases "Lookup i (m_sectionRequests sf)")
  case None
  with wf show thesis by (intro that) (simp_all add: ReleaseFilter_def)
next
  case (Some r)
  obtain posted sf1 where c: "(if req_state r \<noteq> RMF_SF_REQSTATE_CANCELLED
      then snd (cancelFilter env i RMF_SF_EVENT_FILTER_CANCELLED sf) else ([], sf)) = (posted, sf1)"
    by (cases "if req_state r \<noteq> RMF_SF_REQSTATE_CANCELLED
      then snd (cancelFilter env i RMF_SF_EVENT_FILTER_CANCELLED sf) else ([], sf)") auto
  then have wf1: "requests_wf sf1"
    using wf cancelFilter_wf(1)[OF wf] by (metis prod.collapse snd_conv)
  obtain removed rest where rm: "Remove i (m_sectionRequests sf1) = (removed, rest)" by (cases "Remove i (m_sectionRequests sf1)")
  let ?sf2 = "sf1\<lparr>m_sectionRequests := rest\<rparr>"
  have wf2: "requests_wf ?sf2" using requests_wf_remove[OF wf1, of i] rm by simp
  have q: "queue_wf (m_SectionsDataQueue r')" if "removed = Some r'" for r'
    using Remove_fst_set[of i "m_sectionRequests sf1" r'] rm that wf1 by (auto simp: requests_wf_def)
  have "\<exists>sf3. (case removed of None \<Rightarrow> Some ?sf2
      | Some r \<Rightarrow> if \<not> uiIsSectionUnderProcessing r then do { ReleaseFilterRequest r; Some ?sf2 }
                  else Some (if Lookup i (m_sectionRequestsToRemove ?sf2) = None
                             then ?sf2\<lparr>m_sectionRequestsToRemove := Insert (node_alloc env) i r (m_sectionRequestsToRemove ?sf2)\<rparr>
                             else ?sf2)) = Some sf3 \<and> requests_wf sf3"
  proof (cases removed)
    case (Some r')
    from q[OF Some] have "ReleaseFilterRequest r' = Some RMF_SUCCESS" by (rule ReleaseFilterRequest_wf)
    with Some wf2 requests_wf_defer[OF wf2 q[OF Some], of i "node_alloc env"] show ?thesis by auto
  qed (use wf2 in simp)
  then obtain sf3 where sf3: "(case removed of None \<Rightarrow> Some ?sf2
      | Some r \<Rightarrow> if \<not> uiIsSectionUnderProcessing r then do { ReleaseFilterRequest r; Some ?sf2 }
                  else Some (if Lookup i (m_sectionRequestsToRemove ?sf2) = None
                             then ?sf2\<lparr>m_sectionRequestsToRemove := Insert (node_alloc env) i r (m_sectionRequestsToRemove ?sf2)\<rparr>
                             else ?sf2)) = Some sf3" "requests_wf sf3" by blast
  obtain t where "ReleaseFromDeferredDeleteQueue sf3 = Some (RMF_SUCCESS, sf3\<lparr>m_sectionRequestsToRemove := t\<rparr>)"
      "requests_wf (sf3\<lparr>m_sectionRequestsToRemove := t\<rparr>)"
    using ReleaseFromDeferredDeleteQueue_wf[OF sf3(2)] by blast
  with Some c rm sf3(1) show thesis
    by (intro that[of RMF_SUCCESS posted "sf3\<lparr>m_sectionRequestsToRemove := t\<rparr>"]) (simp_all add: ReleaseFilter_def)
qed

lemma queue_push_wf:
  assumes "queue_wf q"
  obtains c q' where "rmf_queue_push_tail q d False = Some (c, q')" "queue_wf q'"
  using assms rmf_queue.push_room[OF assms, of d] rmf_queue.push_full[OF assms, of d] rmf_queue.bounded[OF assms]
  by (cases "length (queue_list q) < MAX_QUEUE_SIZE") (auto simp: not_less)

lemma queue_pop_wf:
  assumes "queue_wf q"
  obtains x q' where "rmf_queue_pop_head q = Some (x, q')" "queue_wf q'"
  using assms rmf_queue.pop_none[OF assms] rmf_queue.pop_some[OF assms] by (cases "queue_list q") auto

lemma section_avail_cb_wf:
  assumes wf: "requests_wf sf"
  obtains posted sf' where "section_avail_cb env i d sf = Some (posted, sf')" "requests_wf sf'"
proof (cases d)
  case None
  with wf show thesis by (intro that) (simp_all add: section_avail_cb_def)
next
  case (Some d')
  show thesis
  proof (cases "Lookup i (m_sectionRequests sf)")
    case None
    with Some wf show thesis by (intro that) (simp_all add: section_avail_cb_def)
  next
    case (Some r)
    have q: "queue_wf (m_SectionsDataQueue r)" by (rule requests_wf_lookup[OF wf Some])
    obtain c q1 where p: "rmf_queue_push_tail (m_SectionsDataQueue r) d' False = Some (c, q1)" "queue_wf q1"
      using queue_push_wf[OF q] by blast
    obtain x q2 where pop: "rmf_queue_pop_head q1 = Some (x, q2)" "queue_wf q2" using queue_pop_wf[OF p(2)] by blast
    have upd: "requests_wf (upd_request i (\<lambda>_. r') sf)" if "queue_wf (m_SectionsDataQueue r')" for r'
      by (rule requests_wf_upd[OF wf]) (rule that)
    have idle: "requests_wf (upd_request i (\<lambda>r. r\<lparr>uiIsSectionUnderProcessing := False\<rparr>) sf)"
      by (rule requests_wf_upd[OF wf]) (simp add: requests_wf_lookup[OF wf])
    have "\<exists>posted sf'. section_avail_cb env i d sf = Some (posted, sf') \<and> requests_wf sf'"
      using Some \<open>d = Some d'\<close> p pop idle q
      by (auto simp: section_avail_cb_def Let_def upd split: prod.splits)
    with that show thesis by blast
  qed
qed

lemma create_loop_wf:
  assumes "create_loop create env p n posted sf = Some (created, posted', sf')"
  shows "requests_wf sf \<longrightarrow> requests_wf sf' \<and> map fst (m_sectionRequests sf') = map fst (m_sectionRequests sf) \<and>
    (\<forall>c. created = Some c \<longrightarrow> (\<exists>n. create n = c))"
proof (rule create_loop.raw_induct[where P = "\<lambda>create env p n posted sf (created, posted', sf').
    requests_wf sf \<longrightarrow> requests_wf sf' \<and> map fst (m_sectionRequests sf') = map fst (m_sectionRequests sf) \<and>
    (\<forall>c. created = Some c \<longrightarrow> (\<exists>n. create n = c))", OF _ assms, simplified prod.case])
  fix loop env p n posted sf res
  fix create :: "nat \<Rightarrow> RMF_SECTFLT_RESULT \<times> 32 word"
  assume IH: "\<And>create env p n posted sf res. loop create env p n posted sf = Some res \<Longrightarrow>
      (case res of (created, posted', sf') \<Rightarrow> requests_wf sf \<longrightarrow> requests_wf sf' \<and>
        map fst (m_sectionRequests sf') = map fst (m_sectionRequests sf) \<and>
        (\<forall>c. created = Some c \<longrightarrow> (\<exists>n. create n = c)))"
    and body: "(case create n of (returnCode, filterID) \<Rightarrow>
        if returnCode = RMF_SECTFLT_NoFilterRes then
          let filterID = getLowestPriorityFilter p sf
          in if filterID \<noteq> -1
             then case cancelFilter env filterID RMF_SF_EVENT_FILTER_PREEMPTED sf of
                    (_, posted', sf) \<Rightarrow> loop create env p (Suc n) (posted @ posted') sf
             else Some (None, posted, sf)
        else Some (Some (returnCode, filterID), posted, sf)) = Some res"
  obtain created posted' sf' where res: "res = (created, posted', sf')" by (cases res) auto
  let ?i = "getLowestPriorityFilter p sf"
  obtain a pc sc where c: "cancelFilter env ?i RMF_SF_EVENT_FILTER_PREEMPTED sf = (a, pc, sc)"
    by (cases "cancelFilter env ?i RMF_SF_EVENT_FILTER_PREEMPTED sf") auto
  show "case res of (created, posted', sf') \<Rightarrow> requests_wf sf \<longrightarrow> requests_wf sf' \<and>
      map fst (m_sectionRequests sf') = map fst (m_sectionRequests sf) \<and>
      (\<forall>c. created = Some c \<longrightarrow> (\<exists>n. create n = c))"
  proof (cases "fst (create n) = RMF_SECTFLT_NoFilterRes \<and> ?i \<noteq> -1")
    case True
    with body c have "loop create env p (Suc n) (posted @ pc) sc = Some res" by (cases "create n") (simp add: Let_def)
    from IH[OF this] cancelFilter_wf[OF _ c] show ?thesis by (auto simp: res)
  next
    case False
    with body show ?thesis by (cases "create n") (auto simp: Let_def res split: if_splits)
  qed
qed

lemma requests_wf_insert:
  assumes "requests_wf sf" "queue_wf (m_SectionsDataQueue r)" "i \<notin> fst ` set (m_sectionRequests sf)"
  shows "requests_wf (sf\<lparr>m_sectionRequests := Insert a i r (m_sectionRequests sf)\<rparr>)"
  using assms by (auto simp: requests_wf_def Insert_def)

lemma SetFilter_wf:
  assumes wf: "requests_wf sf" and q: "queue_wf queue"
    and fresh: "\<And>n i. create n = (RMF_SECTFLT_Success, i) \<Longrightarrow> i \<notin> fst ` set (m_sectionRequests sf)"
    and answer: "create_loop create env (ucast prio) 0 [] sf \<noteq> None"
  obtains err uid posted sf' where
    "SetFilter create start alloc queue env spec qh prio timesToMatch sf = Some (err, uid, posted, sf')" "requests_wf sf'"
proof (cases "(\<exists>s. spec = Some s \<and> component_ok (fs_pos s) \<and> component_ok (fs_neg s)) \<and> prio \<noteq> 0 \<and> alloc = RMF_SUCCESS")
  case False
  then have "\<exists>err. SetFilter create start alloc queue env spec qh prio timesToMatch sf = Some (err, None, [], sf)"
    by (cases spec) (auto simp: SetFilter_def)
  with wf that show thesis by blast
next
  case True
  then obtain s where s: "spec = Some s" "component_ok (fs_pos s)" "component_ok (fs_neg s)" by auto
  obtain created posted sf1 where l: "create_loop create env (ucast prio) 0 [] sf = Some (created, posted, sf1)"
    using answer by auto
  with create_loop_wf[OF l] wf have l': "requests_wf sf1" "map fst (m_sectionRequests sf1) = map fst (m_sectionRequests sf)"
      "\<And>c. created = Some c \<Longrightarrow> \<exists>n. create n = c" by auto
  have free: "rmf_queue_free queue = Some ()" using q by (auto simp: queue_wf_def rmf_queue_free_def split: option.splits)
  show thesis
  proof (cases "\<exists>i. created = Some (RMF_SECTFLT_Success, i)")
    case False
    with True s l l'(1) free show thesis
      by (cases created) (auto simp: SetFilter_def split: prod.splits intro: that)
  next
    case suc: True
    then obtain i where i: "created = Some (RMF_SECTFLT_Success, i)" by auto
    with l'(3) fresh have "i \<notin> fst ` set (m_sectionRequests sf)" by blast
    then have i': "i \<notin> fst ` set (m_sectionRequests sf1)" using l'(2) by (metis set_map)
    define r where "r = \<lparr>req_state = RMF_SF_REQSTATE_READY, requestorQueue = qh, req_priority = prio,
      matchesRemaining = timesToMatch, m_SectionsDataQueue = queue, uiIsSectionUnderProcessing = False\<rparr>"
    define sf2 where "sf2 = sf1\<lparr>m_sectionRequests := Insert (node_alloc env) i r (m_sectionRequests sf1)\<rparr>"
    have wf2: "requests_wf sf2"
      unfolding sf2_def by (rule requests_wf_insert[OF l'(1) _ i']) (simp add: r_def q)
    obtain err posted' sf3 where rel: "ReleaseFilter env i sf2 = Some (err, posted', sf3)" "requests_wf sf3"
      by (rule ReleaseFilter_wf[OF wf2])
    show thesis
    proof (cases "start i = RMF_SECTFLT_Success")
      case ok: True
      have "SetFilter create start alloc queue env spec qh prio timesToMatch sf = Some (RMF_SUCCESS, Some i, posted, sf2)"
        using True s l i ok by (simp add: SetFilter_def sf2_def r_def)
      then show thesis using wf2 by (rule that)
    next
      case bad: False
      have "SetFilter create start alloc queue env spec qh prio timesToMatch sf =
          Some (RMF_SF_ERROR_FILTER_NOT_AVAILABLE, None, posted @ posted', sf3)"
        using True s l i bad rel(1) by (simp add: SetFilter_def sf2_def r_def)
      then show thesis using rel(2) by (rule that)
    qed
  qed
qed

section \<open>Runs of the filter\<close>

text \<open>
  The operations in any order, by any mixture of clients and driver. The driver never hands out the id
  of a live filter. The queue of a new request is what \<open>rmf_queue_new\<close> gives, NULL when memory or the mutex is
  short, which \<open>SetFilter\<close> does not check; its array of nodes has its declared size.
\<close>

inductive sf_step :: "rmf_SectionFilter \<Rightarrow> sf_posted list \<Rightarrow> rmf_SectionFilter \<Rightarrow> bool" where
  set_filter: "SetFilter create start alloc (rmf_queue_new memory mutex slots) env spec qh prio timesToMatch sf =
       Some (err, uid, posted, sf') \<Longrightarrow> length slots = MAX_QUEUE_SIZE \<Longrightarrow>
     (\<And>n i. create n = (RMF_SECTFLT_Success, i) \<Longrightarrow> i \<notin> fst ` set (m_sectionRequests sf)) \<Longrightarrow>
     sf_step sf posted sf'"
| cancel: "CancelFilter env i sf = (err, posted, sf') \<Longrightarrow> sf_step sf posted sf'"
| release: "ReleaseFilter env i sf = Some (err, posted, sf') \<Longrightarrow> sf_step sf posted sf'"
| deliver: "section_avail_cb env i d sf = Some (posted, sf') \<Longrightarrow> sf_step sf posted sf'"
| get_section: "GetSectionHandle memory d sf i flags = (err, h, sf') \<Longrightarrow> sf_step sf [] sf'"
| release_section: "ReleaseSection sf h = (err, sf') \<Longrightarrow> sf_step sf [] sf'"

inductive sf_reachable :: "rmf_SectionFilter \<Rightarrow> bool" where
  start: "sf_reachable \<lparr>m_sectionRequests = [], m_sectionRequestsToRemove = [], m_outstandingSections = []\<rparr>"
| step: "sf_reachable sf \<Longrightarrow> sf_step sf posted sf' \<Longrightarrow> sf_reachable sf'"

text \<open>Between two operations no request is under processing, so nothing is deferred; a queue is NULL or a ring buffer.\<close>

definition request_ok :: "rmf_sf_SectionRequest \<Rightarrow> bool" where
  "request_ok r \<longleftrightarrow> \<not> uiIsSectionUnderProcessing r \<and> (m_SectionsDataQueue r = None \<or> queue_wf (m_SectionsDataQueue r))"

definition filter_ok :: "rmf_SectionFilter \<Rightarrow> bool" where
  "filter_ok sf \<longleftrightarrow> distinct (map fst (m_sectionRequests sf)) \<and> m_sectionRequestsToRemove sf = [] \<and>
     (\<forall>(k, r) \<in> set (m_sectionRequests sf). request_ok r)"

lemma filter_ok_lookup: "filter_ok sf \<Longrightarrow> Lookup i (m_sectionRequests sf) = Some r \<Longrightarrow> request_ok r"
  by (auto simp: filter_ok_def dest: Lookup_in_set)

lemma filter_ok_upd:
  assumes "filter_ok sf" "\<And>r. Lookup i (m_sectionRequests sf) = Some r \<Longrightarrow> request_ok (f r)"
  shows "filter_ok (upd_request i f sf)"
proof -
  have "request_ok r" if "(k, r) \<in> set (upd_node i f (m_sectionRequests sf))" for k r
    using set_upd_node[OF that] assms by (auto simp: filter_ok_def)
  with assms(1) show ?thesis by (auto simp: filter_ok_def)
qed

lemma cancelFilter_ok: "filter_ok sf \<Longrightarrow> filter_ok (snd (snd (cancelFilter env i e sf)))"
  by (auto simp: cancelFilter_def request_ok_def dest!: filter_ok_lookup intro!: filter_ok_upd split: option.split)

lemma cancelFilter_lookup:
  assumes "Lookup i (m_sectionRequests sf) = Some r"
  obtains r' where "Lookup i (m_sectionRequests (snd (snd (cancelFilter env i e sf)))) = Some r'"
    "m_SectionsDataQueue r' = m_SectionsDataQueue r"
  using assms by (cases "req_state r = RMF_SF_REQSTATE_CANCELLED") (auto simp: cancelFilter_def intro: that)

lemma filter_ok_remove: "filter_ok sf \<Longrightarrow> filter_ok (sf\<lparr>m_sectionRequests := snd (Remove i (m_sectionRequests sf))\<rparr>)"
  using Remove_set[of i "m_sectionRequests sf"] Remove_distinct[of "m_sectionRequests sf" i] by (fastforce simp: filter_ok_def)

lemma ReleaseFilterRequest_null: "m_SectionsDataQueue r = None \<Longrightarrow> ReleaseFilterRequest r = None"
  by (subst ReleaseFilterRequest_def, subst free_sections.simps) (simp add: rmf_queue_pop_head_def rmf_queue_clear_def)

text \<open>Releasing is undefined exactly when the request has no queue.\<close>

lemma ReleaseFilter_ok:
  assumes ok: "filter_ok sf"
  shows "ReleaseFilter env i sf = None \<longleftrightarrow> (\<exists>r. Lookup i (m_sectionRequests sf) = Some r \<and> m_SectionsDataQueue r = None)"
    and "ReleaseFilter env i sf = Some (err, posted, sf') \<Longrightarrow> filter_ok sf'"
proof -
  have "(ReleaseFilter env i sf = None \<longleftrightarrow> (\<exists>r. Lookup i (m_sectionRequests sf) = Some r \<and> m_SectionsDataQueue r = None)) \<and>
      (\<forall>err posted sf'. ReleaseFilter env i sf = Some (err, posted, sf') \<longrightarrow> filter_ok sf')"
  proof (cases "Lookup i (m_sectionRequests sf)")
    case None
    with ok show ?thesis by (simp add: ReleaseFilter_def)
  next
    case (Some r)
    obtain posted sf1 r1 where c: "(if req_state r \<noteq> RMF_SF_REQSTATE_CANCELLED
        then snd (cancelFilter env i RMF_SF_EVENT_FILTER_CANCELLED sf) else ([], sf)) = (posted, sf1)"
      and 1: "filter_ok sf1" "Lookup i (m_sectionRequests sf1) = Some r1" "m_SectionsDataQueue r1 = m_SectionsDataQueue r"
    proof (cases "req_state r = RMF_SF_REQSTATE_CANCELLED")
      case True
      with ok Some that[of "[]" sf r] show thesis by simp
    next
      case False
      obtain r' where "Lookup i (m_sectionRequests (snd (snd (cancelFilter env i RMF_SF_EVENT_FILTER_CANCELLED sf)))) = Some r'"
          "m_SectionsDataQueue r' = m_SectionsDataQueue r"
        by (rule cancelFilter_lookup[OF Some])
      then show thesis
        by (intro that[of "fst (snd (cancelFilter env i RMF_SF_EVENT_FILTER_CANCELLED sf))"
          "snd (snd (cancelFilter env i RMF_SF_EVENT_FILTER_CANCELLED sf))" r']) (simp_all add: False cancelFilter_ok[OF ok])
    qed
    obtain rest where rm: "Remove i (m_sectionRequests sf1) = (Some r1, rest)"
      using 1(2) symtab.remove_fst[of i "m_sectionRequests sf1"] by (metis prod.collapse)
    let ?sf2 = "sf1\<lparr>m_sectionRequests := rest\<rparr>"
    have r1: "request_ok r1" by (rule filter_ok_lookup[OF 1(1,2)])
    have e: "m_sectionRequestsToRemove sf1 = []" using 1(1) by (simp add: filter_ok_def)
    have "ReleaseFilter env i sf = do { _ \<leftarrow> ReleaseFilterRequest r1; Some (RMF_SUCCESS, posted, ?sf2) }"
      unfolding ReleaseFilter_def Some option.case c Let_def prod.case rm using r1 e
      by (cases "ReleaseFilterRequest r1") (simp_all add: request_ok_def ReleaseFromDeferredDeleteQueue_def IterInit_def)
    then show ?thesis
      using Some 1(3) r1 ReleaseFilterRequest_null[of r1] ReleaseFilterRequest_wf[of r1] filter_ok_remove[OF 1(1), of i] rm
      by (cases "m_SectionsDataQueue r1 = None") (auto simp: request_ok_def)
  qed
  then show "ReleaseFilter env i sf = None \<longleftrightarrow> (\<exists>r. Lookup i (m_sectionRequests sf) = Some r \<and> m_SectionsDataQueue r = None)"
    and "ReleaseFilter env i sf = Some (err, posted, sf') \<Longrightarrow> filter_ok sf'" by blast+
qed

text \<open>A section for a request without a queue is dropped.\<close>

lemma section_avail_cb_ok:
  assumes ok: "filter_ok sf"
  obtains posted sf' where "section_avail_cb env i d sf = Some (posted, sf')" "filter_ok sf'"
proof (cases "d = None \<or> Lookup i (m_sectionRequests sf) = None")
  case True
  with ok show thesis by (cases d) (auto simp: section_avail_cb_def intro: that)
next
  case False
  then obtain d' r where d: "d = Some d'" "Lookup i (m_sectionRequests sf) = Some r" by auto
  have r: "request_ok r" by (rule filter_ok_lookup[OF ok d(2)])
  have "\<exists>c q1 x q2. rmf_queue_push_tail (m_SectionsDataQueue r) d' False = Some (c, q1) \<and> (q1 = None \<or> queue_wf q1) \<and>
      rmf_queue_pop_head q1 = Some (x, q2) \<and> (q2 = None \<or> queue_wf q2)"
  proof (cases "m_SectionsDataQueue r = None")
    case False
    with r have q: "queue_wf (m_SectionsDataQueue r)" by (simp add: request_ok_def)
    obtain c q1 where p: "rmf_queue_push_tail (m_SectionsDataQueue r) d' False = Some (c, q1)" "queue_wf q1"
      by (rule queue_push_wf[OF q])
    obtain x q2 where "rmf_queue_pop_head q1 = Some (x, q2)" "queue_wf q2" by (rule queue_pop_wf[OF p(2)])
    with p show ?thesis by blast
  qed (simp add: rmf_queue_push_tail_def rmf_queue_pop_head_def)
  then obtain c q1 x q2 where q: "rmf_queue_push_tail (m_SectionsDataQueue r) d' False = Some (c, q1)" "q1 = None \<or> queue_wf q1"
      "rmf_queue_pop_head q1 = Some (x, q2)" "q2 = None \<or> queue_wf q2" by blast
  have upd: "filter_ok (upd_request i (\<lambda>_. r') sf)" if "request_ok r'" for r' by (rule filter_ok_upd[OF ok]) (rule that)
  have "filter_ok (upd_request i (\<lambda>r. r\<lparr>uiIsSectionUnderProcessing := False\<rparr>) sf)"
    by (rule filter_ok_upd[OF ok]) (auto simp: request_ok_def dest: filter_ok_lookup[OF ok])
  then have "\<exists>posted sf'. section_avail_cb env i d sf = Some (posted, sf') \<and> filter_ok sf'"
    using d q by (auto simp: section_avail_cb_def Let_def request_ok_def intro!: upd split: prod.splits)
  with that show thesis by blast
qed

lemma create_loop_ok:
  assumes "create_loop create env p n posted sf = Some res"
  shows "filter_ok sf \<longrightarrow> filter_ok (snd (snd res)) \<and> map fst (m_sectionRequests (snd (snd res))) = map fst (m_sectionRequests sf) \<and>
    (\<forall>c. fst res = Some c \<longrightarrow> (\<exists>n. create n = c))"
proof (rule create_loop.raw_induct[where P = "\<lambda>create env p n posted sf res.
    filter_ok sf \<longrightarrow> filter_ok (snd (snd res)) \<and> map fst (m_sectionRequests (snd (snd res))) = map fst (m_sectionRequests sf) \<and>
    (\<forall>c. fst res = Some c \<longrightarrow> (\<exists>n. create n = c))", OF _ assms])
  fix loop env p n posted sf res
  fix create :: "nat \<Rightarrow> RMF_SECTFLT_RESULT \<times> 32 word"
  assume IH: "\<And>create env p n posted sf res. loop create env p n posted sf = Some res \<Longrightarrow>
      filter_ok sf \<longrightarrow> filter_ok (snd (snd res)) \<and> map fst (m_sectionRequests (snd (snd res))) = map fst (m_sectionRequests sf) \<and>
      (\<forall>c. fst res = Some c \<longrightarrow> (\<exists>n. create n = c))"
    and body: "(case create n of (returnCode, filterID) \<Rightarrow>
        if returnCode = RMF_SECTFLT_NoFilterRes then
          let filterID = getLowestPriorityFilter p sf
          in if filterID \<noteq> -1
             then case cancelFilter env filterID RMF_SF_EVENT_FILTER_PREEMPTED sf of
                    (_, posted', sf) \<Rightarrow> loop create env p (Suc n) (posted @ posted') sf
             else Some (None, posted, sf)
        else Some (Some (returnCode, filterID), posted, sf)) = Some res"
  have ids: "map fst (m_sectionRequests (snd (snd (cancelFilter env i e sf)))) = map fst (m_sectionRequests sf)" for i e
    by (auto simp: cancelFilter_def split: option.split)
  show "filter_ok sf \<longrightarrow> filter_ok (snd (snd res)) \<and> map fst (m_sectionRequests (snd (snd res))) = map fst (m_sectionRequests sf) \<and>
      (\<forall>c. fst res = Some c \<longrightarrow> (\<exists>n. create n = c))"
    using body IH cancelFilter_ok[of sf] ids by (auto simp: Let_def split_def split: if_splits)
qed

lemma SetFilter_ok:
  assumes ok: "filter_ok sf" and q: "queue = None \<or> queue_wf queue"
    and fresh: "\<And>n i. create n = (RMF_SECTFLT_Success, i) \<Longrightarrow> i \<notin> fst ` set (m_sectionRequests sf)"
    and set: "SetFilter create start alloc queue env spec qh prio timesToMatch sf = Some (err, uid, posted, sf')"
  shows "filter_ok sf'"
proof (cases "create_loop create env (ucast prio) 0 [] sf")
  case None
  with set ok show ?thesis by (auto simp: SetFilter_def split: option.splits if_splits)
next
  case (Some res)
  obtain created posted1 sf1 where res: "res = (created, posted1, sf1)" by (cases res) auto
  from create_loop_ok[OF Some] ok have l: "filter_ok sf1" "fst ` set (m_sectionRequests sf1) = fst ` set (m_sectionRequests sf)"
      "\<And>c. created = Some c \<Longrightarrow> \<exists>n. create n = c" by (auto simp: res simp flip: set_map)
  let ?ins = "\<lambda>i r. sf1\<lparr>m_sectionRequests := Insert (node_alloc env) i r (m_sectionRequests sf1)\<rparr>"
  let ?r = "\<lparr>req_state = RMF_SF_REQSTATE_READY, requestorQueue = qh, req_priority = prio,
    matchesRemaining = timesToMatch, m_SectionsDataQueue = queue, uiIsSectionUnderProcessing = False\<rparr>"
  have r: "request_ok ?r" using q by (simp add: request_ok_def)
  have shape: "sf' = sf \<or> sf' = sf1 \<or> (\<exists>i. created = Some (RMF_SECTFLT_Success, i) \<and>
      (sf' = ?ins i ?r \<or> (\<exists>e p. ReleaseFilter env i (?ins i ?r) = Some (e, p, sf'))))"
    using set Some by (auto simp: SetFilter_def res Let_def split: option.splits if_splits prod.splits bind_splits)
  have "filter_ok (?ins i r)" if "created = Some (RMF_SECTFLT_Success, i)" "request_ok r" for i r
    using l(1,2) l(3)[OF that(1)] fresh that(2) by (fastforce simp: filter_ok_def Insert_def)
  with shape ok l(1) r ReleaseFilter_ok(2) show ?thesis by blast
qed

lemma sf_step_ok: "sf_step sf posted sf' \<Longrightarrow> filter_ok sf \<Longrightarrow> filter_ok sf'"
proof (induction rule: sf_step.induct)
  case (set_filter create start alloc memory mutex slots env spec qh prio timesToMatch sf err uid posted sf')
  then show ?case by (intro SetFilter_ok[OF _ _ set_filter(3,1)]) (auto simp: rmf_queue_new_def queue_wf_def)
next
  case (cancel env i sf err posted sf')
  with cancelFilter_ok[of sf env i RMF_SF_EVENT_FILTER_CANCELLED] show ?case by (simp add: CancelFilter_def)
next
  case (deliver env i d sf posted sf')
  then show ?case using section_avail_cb_ok[of sf env i d] by (metis option.inject prod.inject)
next
  case (release env i sf err posted sf')
  then show ?case by (intro ReleaseFilter_ok(2)[OF _ release(1)])
next
  case (get_section memory d sf i flags err h sf')
  then have "m_sectionRequests sf' = m_sectionRequests sf \<and> m_sectionRequestsToRemove sf' = m_sectionRequestsToRemove sf"
    by (auto simp: GetSectionHandle_def split: option.splits if_splits)
  with get_section show ?case by (simp add: filter_ok_def)
next
  case (release_section sf h err sf')
  then have "m_sectionRequests sf' = m_sectionRequests sf \<and> m_sectionRequestsToRemove sf' = m_sectionRequestsToRemove sf"
    by (auto simp: ReleaseSection_def split: option.splits if_splits prod.splits)
  with release_section show ?case by (simp add: filter_ok_def)
qed

lemma sf_reachable_ok: "sf_reachable sf \<Longrightarrow> filter_ok sf"
  by (induction rule: sf_reachable.induct) (simp add: filter_ok_def, rule sf_step_ok)


definition empty_queue_example :: "rmf_Section_Data RMFQueue option" where
  "empty_queue_example = rmf_queue_new True True (replicate 32 \<lparr>sectionID = 0, sectionData = [], sectionLength = 0\<rparr>)"

text \<open>A filter for two sections, set while memory was short.\<close>

definition null_example :: rmf_SectionFilter where
  "null_example = \<lparr>m_sectionRequests = [(1, (request_example 2 0)\<lparr>m_SectionsDataQueue := None\<rparr>)],
     m_sectionRequestsToRemove = [], m_outstandingSections = []\<rparr>"

lemma null_example_reachable: "sf_reachable null_example"
proof -
  let ?sf = "\<lparr>m_sectionRequests = [], m_sectionRequestsToRemove = [], m_outstandingSections = []\<rparr>"
  let ?create = "\<lambda>_. (RMF_SECTFLT_Success, 1)"
  let ?slots = "replicate 32 \<lparr>sectionID = 0, sectionData = [], sectionLength = 0\<rparr> :: rmf_Section_Data list"
  have "create_loop ?create sf_env_example 5 0 [] ?sf = Some (Some (RMF_SECTFLT_Success, 1), [], ?sf)"
    by (subst create_loop.simps) simp
  then have "SetFilter ?create (\<lambda>_. RMF_SECTFLT_Success) RMF_SUCCESS (rmf_queue_new False True ?slots) sf_env_example
      (Some spec_example) 9 5 2 ?sf = Some (RMF_SUCCESS, Some 1, [], null_example)"
    by (simp add: SetFilter_def spec_example_def component_ok_def null_example_def request_example_def Insert_def
        sf_env_example_def rmf_queue_new_def)
  then have "sf_step ?sf [] null_example" by (rule set_filter) simp_all
  with sf_reachable.start show ?thesis by (rule sf_reachable.step)
qed




end
