(* ===== verification/SectionRace.thy ===== *)
theory SectionRace
  imports SectionRequests
begin

text \<open>
  The life time of a filter request in \<open>rmf_sectionfilter.cpp\<close> under interleaving. The driver runs
  \<open>section_avail_cb\<close> on its thread while the client that owns the filter object runs \<open>SetFilter\<close>, \<open>CancelFilter\<close>,
  \<open>GetSectionHandle\<close> and \<open>ReleaseFilter\<close> on one other; each step below is what one of them does between two points where
  the other can run, in particular one critical section of \<open>m_sectionRequestMutex\<close>. Requests are addresses; a set of
  addresses is allocated, and \<open>fault\<close> records that a freed request has been touched. Addresses are not reused.
  That one thread makes all client calls is what the comments of \<open>ReleaseFilter\<close> rely on; \<open>cancelFilter\<close> and
  \<open>GetSectionHandle\<close> use the request after the mutex has been released. The driver hands out no id that the table holds.
\<close>

datatype cb_pc = CbIdle | CbWorking nat

text \<open>Where the client is: in \<open>SetFilter\<close> with its new request, using a request it looked up, or in \<open>ReleaseFilter\<close>.\<close>

datatype client_pc =
    RelIdle
  | SetCreate nat
  | SetPreempt nat "32 word"
  | SetCancel nat nat
  | SetFail nat
  | SetStart "32 word" nat
  | UseFound nat
  | RelCalled "32 word"
  | RelFound "32 word" nat
  | RelCancelled "32 word"
  | RelRemoved "32 word" nat
  | RelFree "32 word" nat
  | RelDefer "32 word" nat
  | RelSweep

record race =
  table :: "32 word \<rightharpoonup> nat"
  deferred :: "32 word \<rightharpoonup> nat"
  allocated :: "nat set"
  processing :: "nat \<Rightarrow> bool"
  fresh_address :: nat
  cb :: cb_pc
  rel :: client_pc
  fault :: bool

definition touch :: "nat \<Rightarrow> race \<Rightarrow> race" where
  "touch a s = s\<lparr>fault := fault s \<or> a \<notin> allocated s\<rparr>"

definition free_request :: "nat \<Rightarrow> race \<Rightarrow> race" where
  "free_request a s = (touch a s)\<lparr>allocated := allocated s - {a}\<rparr>"

definition race_init :: race where
  "race_init = \<lparr>table = Map.empty, deferred = Map.empty, allocated = {}, processing = (\<lambda>_. False),
     fresh_address = 0, cb = CbIdle, rel = RelIdle, fault = False\<rparr>"

text \<open>The callback: the look-up and the flag, any work on the request, the end that clears the flag.\<close>

inductive cb_step :: "race \<Rightarrow> race \<Rightarrow> bool" where
  cb_find: "cb s = CbIdle \<Longrightarrow> table s i = Some a \<Longrightarrow>
     cb_step s ((touch a s)\<lparr>processing := (processing s)(a := True), cb := CbWorking a\<rparr>)"
| cb_use: "cb s = CbWorking a \<Longrightarrow> cb_step s (touch a s)"
| cb_end: "cb s = CbWorking a \<Longrightarrow>
     cb_step s ((touch a s)\<lparr>processing := (processing s)(a := False), cb := CbIdle\<rparr>)"

text \<open>
  \<open>SetFilter\<close>: the request is allocated and filled in; while the driver is out of filters, \<open>getLowestPriorityFilter\<close>
  reads every request of the table under the mutex and \<open>cancelFilter\<close> looks the one it chose up again, and uses it after
  releasing the mutex; a failure frees the new request; otherwise it is inserted, and started. After a start that
  succeeds its start time is written, with the request in the table; after one that fails, it is released.
\<close>

inductive set_step :: "race \<Rightarrow> race \<Rightarrow> bool" where
  set_alloc: "rel s = RelIdle \<Longrightarrow> a = fresh_address s \<Longrightarrow>
     set_step s (s\<lparr>allocated := insert a (allocated s), processing := (processing s)(a := False),
                   fresh_address := Suc a, rel := SetCreate a\<rparr>)"
| set_fields: "rel s = SetCreate a \<Longrightarrow> set_step s (touch a s)"
| set_lowest: "rel s = SetCreate a \<Longrightarrow> i \<in> dom (table s) \<Longrightarrow>
     set_step s (s\<lparr>fault := fault s \<or> \<not> ran (table s) \<subseteq> allocated s, rel := SetPreempt a i\<rparr>)"
| set_none: "rel s = SetCreate a \<Longrightarrow>
     set_step s (s\<lparr>fault := fault s \<or> \<not> ran (table s) \<subseteq> allocated s, rel := SetFail a\<rparr>)"
| set_lookup: "rel s = SetPreempt a i \<Longrightarrow>
     set_step s (s\<lparr>rel := (case table s i of Some r \<Rightarrow> SetCancel a r | None \<Rightarrow> SetCreate a)\<rparr>)"
| set_cancel: "rel s = SetCancel a r \<Longrightarrow> set_step s (touch r s)"
| set_cancelled: "rel s = SetCancel a r \<Longrightarrow> set_step s (s\<lparr>rel := SetCreate a\<rparr>)"
| set_error: "rel s = SetCreate a \<Longrightarrow> set_step s (s\<lparr>rel := SetFail a\<rparr>)"
| set_free: "rel s = SetFail a \<Longrightarrow> set_step s ((free_request a s)\<lparr>rel := RelIdle\<rparr>)"
| set_insert: "rel s = SetCreate a \<Longrightarrow> table s i = None \<Longrightarrow>
     set_step s ((touch a s)\<lparr>table := (table s)(i \<mapsto> a), rel := SetStart i a\<rparr>)"
| set_time: "rel s = SetStart i a \<Longrightarrow> set_step s ((touch a s)\<lparr>rel := RelIdle\<rparr>)"
| set_not_started: "rel s = SetStart i a \<Longrightarrow> set_step s (s\<lparr>rel := RelCalled i\<rparr>)"

text \<open>\<open>CancelFilter\<close> and \<open>GetSectionHandle\<close>: the look-up under the mutex, then any use of what it found.\<close>

inductive use_step :: "race \<Rightarrow> race \<Rightarrow> bool" where
  use_find: "rel s = RelIdle \<Longrightarrow> table s i = Some a \<Longrightarrow> use_step s (s\<lparr>rel := UseFound a\<rparr>)"
| use_request: "rel s = UseFound a \<Longrightarrow> use_step s (touch a s)"
| use_done: "rel s = UseFound a \<Longrightarrow> use_step s (s\<lparr>rel := RelIdle\<rparr>)"

text \<open>
  \<open>ReleaseFilter\<close> looks the request up, cancels it, unlinks it, reads the flag, frees it or puts it on the list of
  deferred deletions, and sweeps that list.
\<close>

inductive rel_step :: "race \<Rightarrow> race \<Rightarrow> bool" where
  rel_call: "rel s = RelIdle \<Longrightarrow> rel_step s (s\<lparr>rel := RelCalled i\<rparr>)"
| rel_find: "rel s = RelCalled i \<Longrightarrow>
     rel_step s (s\<lparr>rel := (case table s i of Some a \<Rightarrow> RelFound i a | None \<Rightarrow> RelIdle)\<rparr>)"
| rel_use: "rel s = RelFound i a \<Longrightarrow> rel_step s (touch a s)"
| rel_cancel: "rel s = RelFound i a \<Longrightarrow> rel_step s ((touch a s)\<lparr>rel := RelCancelled i\<rparr>)"
| rel_gone: "rel s = RelCancelled i \<Longrightarrow> table s i = None \<Longrightarrow> rel_step s (s\<lparr>rel := RelSweep\<rparr>)"
| rel_remove: "rel s = RelCancelled i \<Longrightarrow> table s i = Some a \<Longrightarrow>
     rel_step s (s\<lparr>table := (table s)(i := None), rel := RelRemoved i a\<rparr>)"
| rel_check: "rel s = RelRemoved i a \<Longrightarrow>
     rel_step s ((touch a s)\<lparr>rel := if processing s a then RelDefer i a else RelFree i a\<rparr>)"
| rel_free: "rel s = RelFree i a \<Longrightarrow> rel_step s ((free_request a s)\<lparr>rel := RelSweep\<rparr>)"
| rel_defer: "rel s = RelDefer i a \<Longrightarrow>
     rel_step s (s\<lparr>deferred := if deferred s i = None then (deferred s)(i \<mapsto> a) else deferred s, rel := RelSweep\<rparr>)"
| rel_sweep: "rel s = RelSweep \<Longrightarrow> deferred s i = Some a \<Longrightarrow> \<not> processing s a \<Longrightarrow>
     rel_step s ((free_request a s)\<lparr>deferred := (deferred s)(i := None)\<rparr>)"
| rel_done: "rel s = RelSweep \<Longrightarrow> rel_step s (s\<lparr>rel := RelIdle\<rparr>)"

inductive race_reachable :: "race \<Rightarrow> bool" where
  init: "race_reachable race_init"
| callback: "race_reachable s \<Longrightarrow> cb_step s t \<Longrightarrow> race_reachable t"
| client: "race_reachable s \<Longrightarrow> set_step s t \<or> use_step s t \<or> rel_step s t \<Longrightarrow> race_reachable t"

section \<open>The invariant\<close>

text \<open>
  Who may hold a request: the table, the deferred list, and the client exclude each other; a request the client
  has not inserted yet, or is about to free, is not seen by the callback.
\<close>

definition held :: "race \<Rightarrow> nat set" where
  "held s = (case rel s of RelRemoved i a \<Rightarrow> {a} | RelFree i a \<Rightarrow> {a} | RelDefer i a \<Rightarrow> {a}
     | SetCreate a \<Rightarrow> {a} | SetPreempt a i \<Rightarrow> {a} | SetCancel a r \<Rightarrow> {a} | SetFail a \<Rightarrow> {a} | _ \<Rightarrow> {})"

definition unshared :: "race \<Rightarrow> nat set" where
  "unshared s = (case rel s of RelFree i a \<Rightarrow> {a}
     | SetCreate a \<Rightarrow> {a} | SetPreempt a i \<Rightarrow> {a} | SetCancel a r \<Rightarrow> {a} | SetFail a \<Rightarrow> {a} | _ \<Rightarrow> {})"

text \<open>What the client found in the table, or put there, is still there.\<close>

definition found_ok :: "race \<Rightarrow> bool" where
  "found_ok s = (case rel s of RelFound i a \<Rightarrow> table s i = Some a | SetStart i a \<Rightarrow> table s i = Some a
     | SetCancel a r \<Rightarrow> r \<in> ran (table s) | UseFound a \<Rightarrow> a \<in> ran (table s) | _ \<Rightarrow> True)"

definition owners_ok :: "race \<Rightarrow> bool" where
  "owners_ok s \<longleftrightarrow> ran (table s) \<union> ran (deferred s) \<union> held s \<subseteq> allocated s \<and>
     (\<forall>a \<in> allocated s. a < fresh_address s) \<and>
     ran (table s) \<inter> ran (deferred s) = {} \<and> ran (table s) \<inter> held s = {} \<and> ran (deferred s) \<inter> held s = {} \<and>
     inj_on (table s) (dom (table s)) \<and> inj_on (deferred s) (dom (deferred s))"

definition threads_ok :: "race \<Rightarrow> bool" where
  "threads_ok s \<longleftrightarrow>
     (\<forall>a. cb s = CbWorking a \<longrightarrow> a \<in> allocated s \<and> processing s a \<and> a \<notin> unshared s) \<and> found_ok s"

definition race_inv :: "race \<Rightarrow> bool" where
  "race_inv s \<longleftrightarrow> owners_ok s \<and> threads_ok s \<and> \<not> fault s"

lemmas race_defs = race_inv_def owners_ok_def threads_ok_def found_ok_def held_def unshared_def touch_def free_request_def

lemma race_inv_init: "race_inv race_init"
  by (simp add: race_defs race_init_def)

lemma ran_table_allocated: "owners_ok s \<Longrightarrow> table s i = Some a \<Longrightarrow> a \<in> allocated s"
  by (auto simp: owners_ok_def intro: ranI)

lemma unshared_held: "unshared s \<subseteq> held s"
  by (simp add: unshared_def held_def split: client_pc.split)

lemma cb_step_inv: "cb_step s t \<Longrightarrow> race_inv s \<Longrightarrow> race_inv t"
proof (induction rule: cb_step.induct)
  case (cb_find s i a)
  then have "a \<in> allocated s" "a \<notin> held s" by (auto simp: race_inv_def owners_ok_def intro: ranI)
  with cb_find unshared_held[of s] show ?case by (auto simp: race_defs split: client_pc.splits)
qed (auto simp: race_defs split: client_pc.splits)

lemma ran_fun_upd_None: "inj_on m (dom m) \<Longrightarrow> m i = Some a \<Longrightarrow> ran (m(i := None)) = ran m - {a}"
proof (intro set_eqI iffI)
  assume m: "inj_on m (dom m)" "m i = Some a"
  fix b
  show "b \<in> ran m - {a}" if b: "b \<in> ran (m(i := None))"
  proof -
    obtain k where k: "k \<noteq> i" "m k = Some b" using b by (auto simp: ran_def split: if_splits)
    with m have "b \<noteq> a" by (metis domI inj_onD)
    with k show ?thesis by (auto intro: ranI)
  qed
  show "b \<in> ran (m(i := None))" if b: "b \<in> ran m - {a}"
  proof -
    obtain k where "m k = Some b" "b \<noteq> a" using b by (auto simp: ran_def)
    with m(2) have "(m(i := None)) k = Some b" by auto
    then show ?thesis by (rule ranI)
  qed
qed

lemma inj_on_fun_upd_None: "inj_on m (dom m) \<Longrightarrow> inj_on (m(i := None)) (dom (m(i := None)))"
  by (auto simp: inj_on_def dom_def)

lemma inj_on_fun_upd_Some: "inj_on m (dom m) \<Longrightarrow> a \<notin> ran m \<Longrightarrow> inj_on (m(i \<mapsto> a)) (dom (m(i \<mapsto> a)))"
  by (auto simp: inj_on_def dom_def ran_def split: if_splits)

lemma ran_fun_upd_Some: "m i = None \<Longrightarrow> ran (m(i \<mapsto> a)) = insert a (ran m)"
  by (rule ran_map_upd)

text \<open>A step that changes only where the client is, and what it touches, keeps the invariant under small conditions.\<close>

lemma race_inv_move:
  assumes "race_inv s" "held (s\<lparr>rel := p\<rparr>) \<subseteq> held s" "unshared (s\<lparr>rel := p\<rparr>) \<subseteq> unshared s" "found_ok (s\<lparr>rel := p\<rparr>)"
  shows "race_inv (s\<lparr>rel := p\<rparr>)"
proof -
  from assms have "owners_ok (s\<lparr>rel := p\<rparr>)" by (simp add: race_inv_def owners_ok_def) blast
  moreover from assms have "threads_ok (s\<lparr>rel := p\<rparr>)" by (auto simp: race_inv_def threads_ok_def)
  ultimately show ?thesis using assms(1) by (simp add: race_inv_def)
qed

lemma race_inv_touch: "race_inv s \<Longrightarrow> a \<in> allocated s \<Longrightarrow> touch a s = s"
  by (simp add: race_inv_def touch_def)

lemma race_inv_table: "race_inv s \<Longrightarrow> table s i = Some a \<Longrightarrow> a \<in> allocated s"
  by (auto simp: race_inv_def ran_table_allocated)

lemma set_step_inv: "set_step s t \<Longrightarrow> race_inv s \<Longrightarrow> race_inv t"
proof (induction rule: set_step.induct)
  case (set_alloc s a)
  then have "a \<notin> allocated s" by (auto simp: race_defs)
  with set_alloc show ?case by (auto simp: race_defs less_Suc_eq)
next
  case (set_fields s a)
  then have "a \<in> allocated s" by (simp add: race_defs)
  with set_fields show ?case by (simp add: race_inv_touch)
next
  case (set_lowest s a i)
  then have "s\<lparr>fault := fault s \<or> \<not> ran (table s) \<subseteq> allocated s, rel := SetPreempt a i\<rparr> = s\<lparr>rel := SetPreempt a i\<rparr>"
    by (simp add: race_inv_def owners_ok_def)
  with set_lowest show ?case by (simp only:) (rule race_inv_move, simp_all add: held_def unshared_def found_ok_def)
next
  case (set_none s a)
  then have "s\<lparr>fault := fault s \<or> \<not> ran (table s) \<subseteq> allocated s, rel := SetFail a\<rparr> = s\<lparr>rel := SetFail a\<rparr>"
    by (simp add: race_inv_def owners_ok_def)
  with set_none show ?case by (simp only:) (rule race_inv_move, simp_all add: held_def unshared_def found_ok_def)
next
  case (set_lookup s a i)
  then show ?case
    by (intro race_inv_move) (auto simp: held_def unshared_def found_ok_def split: option.split intro: ranI)
next
  case (set_cancel s a r)
  then have "r \<in> allocated s" by (auto simp: race_defs)
  with set_cancel show ?case by (simp add: race_inv_touch)
next
  case (set_insert s a i)
  then have a: "a \<in> allocated s" "a \<notin> ran (table s)" by (auto simp: race_defs)
  with set_insert inj_on_fun_upd_Some[of "table s" a i] show ?case by (auto simp: race_defs ran_fun_upd_Some)
next
  case (set_time s i a)
  then have "a \<in> allocated s" by (intro race_inv_table[of s i]) (simp_all add: race_defs)
  with set_time show ?case
    by (simp add: race_inv_touch) (rule race_inv_move, simp_all add: held_def unshared_def found_ok_def)
next
  case (set_free s a)
  then show ?case by (auto simp: race_defs)
qed (rule race_inv_move, simp_all add: held_def unshared_def found_ok_def)+

lemma use_step_inv: "use_step s t \<Longrightarrow> race_inv s \<Longrightarrow> race_inv t"
proof (induction rule: use_step.induct)
  case (use_request s a)
  then have "a \<in> allocated s" by (auto simp: race_defs)
  with use_request show ?case by (simp add: race_inv_touch)
qed (rule race_inv_move, auto simp: held_def unshared_def found_ok_def intro: ranI)+

lemma rel_step_inv: "rel_step s t \<Longrightarrow> race_inv s \<Longrightarrow> race_inv t"
proof (induction rule: rel_step.induct)
  case (rel_find s i)
  then show ?case by (intro race_inv_move) (auto simp: held_def unshared_def found_ok_def split: option.split)
next
  case (rel_use s i a)
  then have "a \<in> allocated s" by (intro race_inv_table[of s i]) (simp_all add: race_defs)
  with rel_use show ?case by (simp add: race_inv_touch)
next
  case (rel_cancel s i a)
  then have "a \<in> allocated s" by (intro race_inv_table[of s i]) (simp_all add: race_defs)
  with rel_cancel show ?case
    by (simp add: race_inv_touch) (rule race_inv_move, simp_all add: held_def unshared_def found_ok_def)
next
  case (rel_remove s i a)
  then have "ran ((table s)(i := None)) = ran (table s) - {a}" "a \<in> ran (table s)"
    by (auto simp: race_inv_def owners_ok_def ran_fun_upd_None intro: ranI)
  with rel_remove inj_on_fun_upd_None[of "table s" i] show ?case by (auto simp: race_defs)
next
  case (rel_defer s i a)
  then have "a \<notin> ran (deferred s)" "a \<in> allocated s" by (auto simp: race_inv_def owners_ok_def held_def)
  with rel_defer inj_on_fun_upd_Some[of "deferred s" a i] show ?case by (auto simp: race_defs ran_fun_upd_Some)
next
  case (rel_sweep s i a)
  then have "ran ((deferred s)(i := None)) = ran (deferred s) - {a}" "a \<in> ran (deferred s)"
    by (auto simp: race_inv_def owners_ok_def ran_fun_upd_None intro: ranI)
  with rel_sweep inj_on_fun_upd_None[of "deferred s" i] show ?case by (auto simp: race_defs)
qed (auto simp: race_defs)

lemma race_reachable_inv: "race_reachable s \<Longrightarrow> race_inv s"
proof (induction rule: race_reachable.induct)
  case init
  show ?case by (rule race_inv_init)
qed (blast intro: cb_step_inv set_step_inv use_step_inv rel_step_inv)+

text \<open>
  C30. No use after free: in no interleaving of the driver's callback with one client thread that sets filters
  (pre-empting others when the driver has none left, and writing the start time after the insertion), cancels them,
  takes their sections and releases them is a request touched after it has been freed; the flag
  \<open>uiIsSectionUnderProcessing\<close> and the deferred list protect it, although the flag is read outside the mutex.
\<close>

theorem no_use_after_free:
  assumes "race_reachable s"
  shows "\<not> fault s"
  using race_reachable_inv[OF assms] by (simp add: race_inv_def)

text \<open>
  A run in which the callback works on a request while the client sets a second filter, pre-empting the first,
  and then releases the first, which is deferred.
\<close>

definition race_example :: race where
  "race_example = \<lparr>table = [2 \<mapsto> 1], deferred = [1 \<mapsto> 0], allocated = {1, 0}, processing = (\<lambda>_. False)(0 := True),
     fresh_address = 2, cb = CbWorking 0, rel = RelSweep, fault = False\<rparr>"

lemma race_example_reachable: "race_reachable race_example"
proof -
  let ?s = "\<lambda>t p. race_init\<lparr>table := t, allocated := {0}, fresh_address := 1, rel := p\<rparr>"
  let ?u = "\<lambda>p. race_init\<lparr>table := [1 \<mapsto> 0], allocated := {1, 0}, fresh_address := 2,
    processing := (\<lambda>_. False)(0 := True), cb := CbWorking 0, rel := p\<rparr>"
  let ?w = "\<lambda>p. (?u p)\<lparr>table := [1 \<mapsto> 0, 2 \<mapsto> 1]\<rparr>" and ?x = "\<lambda>p. (?u p)\<lparr>table := [2 \<mapsto> 1]\<rparr>"
  note client_set = client[OF _ disjI1] and client_rel = client[OF _ disjI2[OF disjI2]]
  have "set_step race_init (?s Map.empty (SetCreate 0))" using set_alloc[of race_init 0] by (simp add: race_init_def fun_upd_def)
  then have 1: "race_reachable (?s Map.empty (SetCreate 0))" by (rule client_set[OF init])
  have "set_step (?s Map.empty (SetCreate 0)) (?s [1 \<mapsto> 0] (SetStart 1 0))"
    using set_insert[of "?s Map.empty (SetCreate 0)" 0 1] by (simp add: race_init_def touch_def)
  with 1 have 2: "race_reachable (?s [1 \<mapsto> 0] (SetStart 1 0))" by (rule client_set)
  have "cb_step (?s [1 \<mapsto> 0] (SetStart 1 0)) (?s [1 \<mapsto> 0] (SetStart 1 0)\<lparr>processing := (\<lambda>_. False)(0 := True), cb := CbWorking 0\<rparr>)"
    using cb_find[of "?s [1 \<mapsto> 0] (SetStart 1 0)" 1 0] by (simp add: race_init_def touch_def)
  with 2 have 3: "race_reachable (?s [1 \<mapsto> 0] (SetStart 1 0)\<lparr>processing := (\<lambda>_. False)(0 := True), cb := CbWorking 0\<rparr>)"
    by (rule callback)
  let ?s4 = "?s [1 \<mapsto> 0] RelIdle\<lparr>processing := (\<lambda>_. False)(0 := True), cb := CbWorking 0\<rparr>"
  have "set_step (?s [1 \<mapsto> 0] (SetStart 1 0)\<lparr>processing := (\<lambda>_. False)(0 := True), cb := CbWorking 0\<rparr>) ?s4"
    using set_time[of "?s [1 \<mapsto> 0] (SetStart 1 0)\<lparr>processing := (\<lambda>_. False)(0 := True), cb := CbWorking 0\<rparr>" 1 0]
    by (simp add: race_init_def touch_def)
  with 3 have 4: "race_reachable ?s4" by (rule client_set)
  have "((\<lambda>_. False)(0 := True, Suc 0 := False) :: nat \<Rightarrow> bool) = (\<lambda>_. False)(0 := True)" by (simp add: fun_eq_iff)
  then have "set_step ?s4 (?u (SetCreate 1))" using set_alloc[of ?s4 1] by (simp add: race_init_def numeral_2_eq_2)
  with 4 have 5: "race_reachable (?u (SetCreate 1))" by (rule client_set)
  have "set_step (?u (SetCreate 1)) (?u (SetPreempt 1 1))" using set_lowest[of "?u (SetCreate 1)" 1 1] by (simp add: race_init_def)
  with 5 have 6: "race_reachable (?u (SetPreempt 1 1))" by (rule client_set)
  have "set_step (?u (SetPreempt 1 1)) (?u (SetCancel 1 0))" using set_lookup[of "?u (SetPreempt 1 1)" 1 1] by (simp add: race_init_def)
  with 6 have 7: "race_reachable (?u (SetCancel 1 0))" by (rule client_set)
  have "set_step (?u (SetCancel 1 0)) (?u (SetCreate 1))" using set_cancelled[of "?u (SetCancel 1 0)" 1 0] by (simp add: race_init_def)
  with 7 have 8: "race_reachable (?u (SetCreate 1))" by (rule client_set)
  have "set_step (?u (SetCreate 1)) (?w (SetStart 2 1))"
    using set_insert[of "?u (SetCreate 1)" 1 2] by (simp add: race_init_def touch_def)
  with 8 have 9: "race_reachable (?w (SetStart 2 1))" by (rule client_set)
  have "set_step (?w (SetStart 2 1)) (?w RelIdle)" using set_time[of "?w (SetStart 2 1)" 2 1] by (simp add: race_init_def touch_def)
  with 9 have 10: "race_reachable (?w RelIdle)" by (rule client_set)
  have "rel_step (?w RelIdle) (?w (RelCalled 1))" using rel_call[of "?w RelIdle" 1] by (simp add: race_init_def)
  with 10 have 11: "race_reachable (?w (RelCalled 1))" by (rule client_rel)
  have "rel_step (?w (RelCalled 1)) (?w (RelFound 1 0))" using rel_find[of "?w (RelCalled 1)" 1] by (simp add: race_init_def)
  with 11 have 12: "race_reachable (?w (RelFound 1 0))" by (rule client_rel)
  have "rel_step (?w (RelFound 1 0)) (?w (RelCancelled 1))"
    using rel_cancel[of "?w (RelFound 1 0)" 1 0] by (simp add: race_init_def touch_def)
  with 12 have 13: "race_reachable (?w (RelCancelled 1))" by (rule client_rel)
  have "([1 \<mapsto> 0, 2 \<mapsto> 1] :: 32 word \<rightharpoonup> nat)(1 := None) = [2 \<mapsto> 1]" by (simp add: fun_eq_iff)
  then have "rel_step (?w (RelCancelled 1)) (?x (RelRemoved 1 0))"
    using rel_remove[of "?w (RelCancelled 1)" 1 0] by (simp add: race_init_def)
  with 13 have 14: "race_reachable (?x (RelRemoved 1 0))" by (rule client_rel)
  have "rel_step (?x (RelRemoved 1 0)) (?x (RelDefer 1 0))"
    using rel_check[of "?x (RelRemoved 1 0)" 1 0] by (simp add: race_init_def touch_def)
  with 14 have 15: "race_reachable (?x (RelDefer 1 0))" by (rule client_rel)
  have "rel_step (?x (RelDefer 1 0)) race_example"
    using rel_defer[of "?x (RelDefer 1 0)" 1 0] by (simp add: race_init_def race_example_def)
  with 15 show ?thesis by (rule client_rel)
qed

theorem no_use_after_free_witness:
  "cb race_example = CbWorking 0 \<and> table race_example = [2 \<mapsto> 1] \<and> deferred race_example = [1 \<mapsto> 0] \<and> \<not> fault race_example"
  using no_use_after_free[OF race_example_reachable] by (simp add: race_example_def)

end
