(* ===== verification/SiCache.thy ===== *)
theory SiCache
  imports Prelude
begin

text \<open>
  The out-of-band SI cache (\<open>qamsource/simgr/oob/src/rmf_oobsicache.cpp\<close>): the service entries the
  SVCT fills, the source names the NTT fills, the frequency and modulation arrays the NIT fills and
  the ids the channel map carries.

  A service handle is the address of an entry. The chain from \<open>g_si_entry\<close> is the list of
  (address, entry) pairs in link order, 0 is \<open>RMF_SI_INVALID_HANDLE\<close>; following an address that is
  not in the chain has no result. \<open>rmf_osal_memAllocP\<close> is \<open>calloc\<close>: \<open>alloc_ok n\<close> says whether the
  n-th allocation succeeds, a success yields a fresh address and zeroed memory. \<open>now\<close> is what
  \<open>rmf_osal_timeGetMillis\<close> reads. \<open>gz_calls\<close> lists the calls of the callback \<open>rmf_siGZCBfunc\<close>.
  \<open>LockForWrite\<close>/\<open>ReleaseWriteLock\<close> bracket the updates of one record and change nothing else.
\<close>

type_synonym rmf_SiServiceHandle = nat
type_synonym rmf_ModulationMode = "32 word"
type_synonym cstring = "byte list"

abbreviation (input) RMF_SI_INVALID_HANDLE :: rmf_SiServiceHandle where "RMF_SI_INVALID_HANDLE \<equiv> 0"
abbreviation (input) RMF_SI_DEFAULT_CHANNEL_NUMBER :: "32 word" where
  "RMF_SI_DEFAULT_CHANNEL_NUMBER \<equiv> 0xFFFFFFFF"
abbreviation (input) SOURCEID_UNKNOWN :: "32 word" where "SOURCEID_UNKNOWN \<equiv> 0xFFFFFFFF"
abbreviation (input) VIRTUAL_CHANNEL_UNKNOWN :: "16 word" where "VIRTUAL_CHANNEL_UNKNOWN \<equiv> 0xFFFF"
abbreviation (input) MAX_FREQUENCIES :: nat where "MAX_FREQUENCIES \<equiv> 255"
abbreviation (input) SIENTRY_UNSPECIFIED :: "32 word" where "SIENTRY_UNSPECIFIED \<equiv> 0"
abbreviation (input) SIENTRY_PRESENT_IN_DCM :: "32 word" where "SIENTRY_PRESENT_IN_DCM \<equiv> 1"
abbreviation (input) SIENTRY_DEFINED :: "32 word" where "SIENTRY_DEFINED \<equiv> 2"
abbreviation (input) SIENTRY_MAPPED :: "32 word" where "SIENTRY_MAPPED \<equiv> 4"
abbreviation (input) SIENTRY_DEFINED_UNMAPPED :: "32 word" where "SIENTRY_DEFINED_UNMAPPED \<equiv> 3"
abbreviation (input) SIENTRY_DEFINED_MAPPED :: "32 word" where "SIENTRY_DEFINED_MAPPED \<equiv> 7"
abbreviation (input) CHANNEL_TYPE_HIDDEN :: "8 word" where "CHANNEL_TYPE_HIDDEN \<equiv> 1"
abbreviation (input) VIDEO_STANDARD_UNKNOWN :: "16 word" where "VIDEO_STANDARD_UNKNOWN \<equiv> 5"
abbreviation (input) RMF_SI_SERVICE_TYPE_UNKNOWN :: nat where "RMF_SI_SERVICE_TYPE_UNKNOWN \<equiv> 0"

datatype rmf_SiGlobalState =
    SI_ACQUIRING | SI_NOT_AVAILABLE_YET | SI_NIT_SVCT_ACQUIRED | SI_FULLY_ACQUIRED
  | SI_DISABLED | SI_STT_ACQUIRED

datatype rmf_SiGZGlobalState =
    RMF_OOBSI_GLI_SI_FULLY_ACQUIRED
  | RMF_OOBSI_GLI_CHANNELMAP_ID_CHANGED
  | RMF_OOBSI_GLI_DAC_ID_CHANGED
  | RMF_OOBSI_GLI_VCT_ID_CHANGED
  | RMF_OOBSI_GLI_STT_ACQUIRED

text \<open>\<open>program\<close> is the program number of the shared \<open>rmf_SiProgramInfo\<close>, None for a null pointer.\<close>

record rmf_SiTableEntry =
  ref_count :: "32 word"
  activation_time :: "32 word"
  ptime_service :: int
  program :: "32 word option"
  virtual_channel_number :: "16 word"
  isAppType :: bool
  source_id :: "32 word"
  app_id :: "32 word"
  entry_state :: "32 word"
  channel_type :: "8 word"
  video_standard :: "16 word"
  service_type :: nat
  freq_index :: byte
  mode_index :: byte
  major_channel_number :: "32 word"
  minor_channel_number :: "32 word"
  program_number :: "16 word"
  transport_type :: "8 word"
  scrambled :: bool

text \<open>A node of a name list is a language and a string, None for a null string pointer.\<close>

record rmf_siSourceNameEntry =
  appType :: bool
  sn_id :: "32 word"
  sn_mapped :: bool
  source_names :: "(cstring \<times> cstring option) list"
  source_long_names :: "(cstring \<times> cstring option) list"

record rmf_OobSiCache =
  g_si_entry :: "(rmf_SiServiceHandle \<times> rmf_SiTableEntry) list"
  g_si_sourcename_entry :: "(nat \<times> rmf_siSourceNameEntry) list"
  g_frequency :: "32 word list"
  g_mode :: "rmf_ModulationMode list"
  g_minFrequency :: "32 word"
  g_maxFrequency :: "32 word"
  DACId :: "16 word"
  ChannelMapId :: "16 word"
  VCTId :: "16 word"
  g_si_state :: rmf_SiGlobalState
  g_SITPConditionSet :: bool
  g_siSTTReceived :: bool
  g_sitp_si_versioning_by_crc32 :: "32 word"
  crctab :: "32 word list"
  rmf_siGZCBfunc :: bool
  gz_calls :: "(rmf_SiGZGlobalState \<times> 16 word \<times> 16 word) list"
  alloc_ok :: "nat \<Rightarrow> bool"
  alloc_cnt :: nat
  now :: int

definition memAllocP :: "rmf_OobSiCache \<Rightarrow> nat option \<times> rmf_OobSiCache" where
  "memAllocP c =
     (if alloc_ok c (alloc_cnt c) then Some (Suc (alloc_cnt c)) else None,
      c\<lparr>alloc_cnt := Suc (alloc_cnt c)\<rparr>)"

text \<open>
  The constructor. Its loop clears \<open>g_frequency\<close> and \<open>g_mode\<close> from index 1 on; \<open>f0\<close> and \<open>m0\<close> are
  what the new object has at index 0. The mutexes and the rating region are not part of the model.
\<close>

definition rmf_OobSiCache_new ::
  "32 word \<Rightarrow> rmf_ModulationMode \<Rightarrow> (nat \<Rightarrow> bool) \<Rightarrow> int \<Rightarrow> rmf_OobSiCache" where
  "rmf_OobSiCache_new f0 m0 ok t =
     \<lparr>g_si_entry = [], g_si_sourcename_entry = [],
      g_frequency = f0 # replicate 255 0, g_mode = m0 # replicate 255 0,
      g_minFrequency = 0, g_maxFrequency = 0,
      DACId = VIRTUAL_CHANNEL_UNKNOWN, ChannelMapId = VIRTUAL_CHANNEL_UNKNOWN,
      VCTId = VIRTUAL_CHANNEL_UNKNOWN, g_si_state = SI_ACQUIRING, g_SITPConditionSet = False,
      g_siSTTReceived = False, g_sitp_si_versioning_by_crc32 = 0, crctab = replicate 256 0,
      rmf_siGZCBfunc = False, gz_calls = [], alloc_ok = ok, alloc_cnt = 0, now = t\<rparr>"

text \<open>\<open>if (rmf_siGZCBfunc) rmf_siGZCBfunc (ev, a, b)\<close>.\<close>

definition gz_call :: "rmf_SiGZGlobalState \<Rightarrow> 16 word \<Rightarrow> 16 word \<Rightarrow> rmf_OobSiCache \<Rightarrow> rmf_OobSiCache" where
  "gz_call ev a b c = (if rmf_siGZCBfunc c then c\<lparr>gz_calls := gz_calls c @ [(ev, a, b)]\<rparr> else c)"

section \<open>Frequencies and modulation modes\<close>

text \<open>
  The loop \<open>for (i = offset, j = 0; j < length; i++, j++) dst[i] = src[j]\<close> over \<open>uint8_t\<close>
  counters; \<open>n\<close> is \<open>length - j\<close>, so the loop ends after \<open>length\<close> rounds.
\<close>

fun copy_loop :: "nat \<Rightarrow> byte \<Rightarrow> byte \<Rightarrow> 'a list \<Rightarrow> 'a list \<Rightarrow> 'a list option" where
  "copy_loop 0 i j src dst = Some dst"
| "copy_loop (Suc n) i j src dst =
     do { v \<leftarrow> rd src (unat j); dst' \<leftarrow> wr dst (unat i) v; copy_loop n (i + 1) (j + 1) src dst' }"

definition SetCarrierFrequencies ::
  "32 word list \<Rightarrow> byte \<Rightarrow> byte \<Rightarrow> rmf_OobSiCache \<Rightarrow> (rmf_Error \<times> rmf_OobSiCache) option" where
  "SetCarrierFrequencies frequency offset len c =
     (if unat offset + unat len > MAX_FREQUENCIES + 1 \<or> len = 0
      then Some (RMF_SI_INVALID_PARAMETER, c)
      else do {
        f \<leftarrow> copy_loop (unat len) offset 0 frequency (g_frequency c);
        Some (RMF_SUCCESS, c\<lparr>g_frequency := f\<rparr>) })"

definition SetModulationModes ::
  "rmf_ModulationMode list \<Rightarrow> byte \<Rightarrow> byte \<Rightarrow> rmf_OobSiCache \<Rightarrow> (rmf_Error \<times> rmf_OobSiCache) option" where
  "SetModulationModes mode offset len c =
     (if unat offset + unat len > MAX_FREQUENCIES + 1 \<or> len = 0
      then Some (RMF_SI_INVALID_PARAMETER, c)
      else do {
        m \<leftarrow> copy_loop (unat len) offset 0 mode (g_mode c);
        Some (RMF_SUCCESS, c\<lparr>g_mode := m\<rparr>) })"

definition GetFrequencyFromCDSRef :: "rmf_OobSiCache \<Rightarrow> byte \<Rightarrow> 32 word option" where
  "GetFrequencyFromCDSRef c cds_ref = (if cds_ref = 0 then None else rd (g_frequency c) (unat cds_ref))"

definition GetModulationFromMMSRef :: "rmf_OobSiCache \<Rightarrow> byte \<Rightarrow> rmf_ModulationMode option" where
  "GetModulationFromMMSRef c mms_ref = (if mms_ref = 0 then None else rd (g_mode c) (unat mms_ref))"

text \<open>The loop of \<open>get_frequency_range\<close> over \<open>freqArr[i]\<close>, \<open>i < count\<close>, up to the first zero.\<close>

fun freq_range_loop :: "32 word list \<Rightarrow> 32 word \<Rightarrow> 32 word \<Rightarrow> 32 word \<times> 32 word" where
  "freq_range_loop [] minVal maxVal = (minVal, maxVal)"
| "freq_range_loop (f # fs) minVal maxVal =
     (if f = 0 then (minVal, maxVal)
      else if maxVal < f then freq_range_loop fs minVal f
      else if minVal > f then freq_range_loop fs f maxVal
      else freq_range_loop fs minVal maxVal)"

definition get_frequency_range :: "32 word list \<Rightarrow> nat \<Rightarrow> 32 word \<times> 32 word" where
  "get_frequency_range freqArr count =
     (case take count freqArr of
        [] \<Rightarrow> (0, 0)
      | f # fs \<Rightarrow> if f = 0 then (0, 0) else freq_range_loop fs f f)"

definition SortCDSFreqList :: "rmf_OobSiCache \<Rightarrow> rmf_OobSiCache" where
  "SortCDSFreqList c =
     (let (mn, mx) = get_frequency_range (g_frequency c) 255
      in c\<lparr>g_minFrequency := mn, g_maxFrequency := mx\<rparr>)"

section \<open>Service entries\<close>

definition get_entry :: "rmf_OobSiCache \<Rightarrow> rmf_SiServiceHandle \<Rightarrow> rmf_SiTableEntry option" where
  "get_entry c h = map_of (g_si_entry c) h"

definition handles :: "rmf_OobSiCache \<Rightarrow> rmf_SiServiceHandle set" where
  "handles c = fst ` set (g_si_entry c)"

definition put_entry :: "rmf_SiServiceHandle \<Rightarrow> (rmf_SiTableEntry \<Rightarrow> rmf_SiTableEntry) \<Rightarrow> rmf_OobSiCache \<Rightarrow> rmf_OobSiCache" where
  "put_entry h f c =
     c\<lparr>g_si_entry := map (\<lambda>(a, e). (a, if a = h then f e else e)) (g_si_entry c)\<rparr>"

text \<open>An assignment through the pointer \<open>(rmf_SiTableEntry *) h\<close>.\<close>

definition upd_entry :: "rmf_SiServiceHandle \<Rightarrow> (rmf_SiTableEntry \<Rightarrow> rmf_SiTableEntry) \<Rightarrow> rmf_OobSiCache \<Rightarrow> rmf_OobSiCache option" where
  "upd_entry h f c = (if h \<in> fst ` set (g_si_entry c) then Some (put_entry h f c) else None)"

definition init_si_entry :: "int \<Rightarrow> rmf_SiTableEntry" where
  "init_si_entry t =
     \<lparr>ref_count = 1, activation_time = 0, ptime_service = t, program = None,
      virtual_channel_number = VIRTUAL_CHANNEL_UNKNOWN, isAppType = False,
      source_id = SOURCEID_UNKNOWN, app_id = 0, entry_state = SIENTRY_UNSPECIFIED,
      channel_type = CHANNEL_TYPE_HIDDEN, video_standard = VIDEO_STANDARD_UNKNOWN,
      service_type = RMF_SI_SERVICE_TYPE_UNKNOWN, freq_index = 0, mode_index = 0,
      major_channel_number = RMF_SI_DEFAULT_CHANNEL_NUMBER,
      minor_channel_number = RMF_SI_DEFAULT_CHANNEL_NUMBER,
      program_number = 0, transport_type = 0, scrambled = False\<rparr>"

fun find_channel :: "16 word \<Rightarrow> (rmf_SiServiceHandle \<times> rmf_SiTableEntry) list \<Rightarrow> rmf_SiServiceHandle option" where
  "find_channel n [] = None"
| "find_channel n ((a, e) # rest) =
     (if virtual_channel_number e = n then Some a else find_channel n rest)"

text \<open>\<open>h\<close> is the value of \<open>*service_handle\<close> before the call: it stays for a channel above 4095.\<close>

definition GetServiceEntryFromChannelNumber ::
  "16 word \<Rightarrow> rmf_SiServiceHandle \<Rightarrow> rmf_OobSiCache \<Rightarrow> rmf_SiServiceHandle \<times> rmf_OobSiCache" where
  "GetServiceEntryFromChannelNumber channel_number h c =
     (if channel_number > 4095 then (h, c)
      else (case find_channel channel_number (g_si_entry c) of
              Some a \<Rightarrow> (a, c)
            | None \<Rightarrow>
                (case memAllocP c of
                   (None, c') \<Rightarrow> (RMF_SI_INVALID_HANDLE, c')
                 | (Some a, c') \<Rightarrow>
                     (a, c'\<lparr>g_si_entry := g_si_entry c' @
                            [(a, (init_si_entry (now c'))\<lparr>virtual_channel_number := channel_number\<rparr>)]\<rparr>))))"

definition InsertServiceEntryForChannelNumber ::
  "16 word \<Rightarrow> rmf_SiServiceHandle \<Rightarrow> rmf_OobSiCache \<Rightarrow> rmf_SiServiceHandle \<times> rmf_OobSiCache" where
  "InsertServiceEntryForChannelNumber channel_number h c =
     (if channel_number > 4095 then (h, c)
      else (case memAllocP c of
              (None, c') \<Rightarrow> (RMF_SI_INVALID_HANDLE, c')
            | (Some a, c') \<Rightarrow>
                (a, c'\<lparr>g_si_entry := g_si_entry c' @
                       [(a, (init_si_entry (now c'))\<lparr>virtual_channel_number := channel_number\<rparr>)]\<rparr>)))"

definition IsVCMComplete :: "rmf_OobSiCache \<Rightarrow> bool" where
  "IsVCMComplete c \<longleftrightarrow> list_all (\<lambda>(a, e). entry_state e \<noteq> SIENTRY_DEFINED_UNMAPPED) (g_si_entry c)"

definition state_defined :: "32 word \<Rightarrow> 32 word" where
  "state_defined st = (st OR SIENTRY_PRESENT_IN_DCM) OR SIENTRY_DEFINED"

definition state_undefined :: "32 word \<Rightarrow> 32 word" where
  "state_undefined st = (st OR SIENTRY_PRESENT_IN_DCM) AND NOT SIENTRY_DEFINED"

definition SetServiceEntryStateDefined :: "rmf_SiServiceHandle \<Rightarrow> rmf_OobSiCache \<Rightarrow> rmf_OobSiCache option" where
  "SetServiceEntryStateDefined h c =
     (if h = RMF_SI_INVALID_HANDLE then Some c
      else upd_entry h (\<lambda>e. e\<lparr>entry_state := state_defined (entry_state e)\<rparr>) c)"

definition SetServiceEntryStateUnDefined :: "rmf_SiServiceHandle \<Rightarrow> rmf_OobSiCache \<Rightarrow> rmf_OobSiCache option" where
  "SetServiceEntryStateUnDefined h c =
     (if h = RMF_SI_INVALID_HANDLE then Some c
      else upd_entry h (\<lambda>e. e\<lparr>entry_state := state_undefined (entry_state e)\<rparr>) c)"

definition SetServiceEntryStateMapped :: "rmf_SiServiceHandle \<Rightarrow> rmf_OobSiCache \<Rightarrow> rmf_OobSiCache option" where
  "SetServiceEntryStateMapped h c =
     (if h = RMF_SI_INVALID_HANDLE then Some c
      else upd_entry h (\<lambda>e. e\<lparr>entry_state := entry_state e OR SIENTRY_MAPPED\<rparr>) c)"

definition GetServiceEntryState :: "rmf_SiServiceHandle \<Rightarrow> 32 word \<Rightarrow> rmf_OobSiCache \<Rightarrow> 32 word option" where
  "GetServiceEntryState h st c =
     (if h = RMF_SI_INVALID_HANDLE then Some st else map_option entry_state (get_entry c h))"

definition SetServiceEntryState :: "rmf_SiServiceHandle \<Rightarrow> 32 word \<Rightarrow> rmf_OobSiCache \<Rightarrow> rmf_OobSiCache option" where
  "SetServiceEntryState h st c =
     (if h = RMF_SI_INVALID_HANDLE then Some c else upd_entry h (\<lambda>e. e\<lparr>entry_state := st\<rparr>) c)"

definition SetServiceEntriesStateDefined :: "16 word \<Rightarrow> rmf_OobSiCache \<Rightarrow> rmf_OobSiCache" where
  "SetServiceEntriesStateDefined channel_number c =
     c\<lparr>g_si_entry := map (\<lambda>(a, e). (a, if virtual_channel_number e = channel_number
                                        then e\<lparr>entry_state := state_defined (entry_state e)\<rparr> else e))
                       (g_si_entry c)\<rparr>"

definition SetServiceEntriesStateUnDefined :: "16 word \<Rightarrow> rmf_OobSiCache \<Rightarrow> rmf_OobSiCache" where
  "SetServiceEntriesStateUnDefined channel_number c =
     c\<lparr>g_si_entry := map (\<lambda>(a, e). (a, if virtual_channel_number e = channel_number
                                        then e\<lparr>entry_state := state_undefined (entry_state e)\<rparr> else e))
                       (g_si_entry c)\<rparr>"

definition SetAllSIEntriesUndefinedUnmapped :: "rmf_OobSiCache \<Rightarrow> rmf_OobSiCache" where
  "SetAllSIEntriesUndefinedUnmapped c =
     c\<lparr>g_si_entry := map (\<lambda>(a, e). (a, e\<lparr>entry_state := SIENTRY_UNSPECIFIED\<rparr>)) (g_si_entry c)\<rparr>"

subsection \<open>Field getters and setters\<close>

definition GetSourceIdForServiceHandle ::
  "rmf_SiServiceHandle \<Rightarrow> 32 word \<Rightarrow> rmf_OobSiCache \<Rightarrow> (rmf_Error \<times> 32 word) option" where
  "GetSourceIdForServiceHandle h old c =
     (if h = RMF_SI_INVALID_HANDLE then Some (RMF_SI_INVALID_PARAMETER, old)
      else map_option (\<lambda>e. (RMF_SUCCESS, source_id e)) (get_entry c h))"

definition GetAppIdForServiceHandle ::
  "rmf_SiServiceHandle \<Rightarrow> 32 word \<Rightarrow> rmf_OobSiCache \<Rightarrow> (rmf_Error \<times> 32 word) option" where
  "GetAppIdForServiceHandle h old c =
     (if h = RMF_SI_INVALID_HANDLE then Some (RMF_SI_INVALID_PARAMETER, old)
      else map_option (\<lambda>e. (RMF_SUCCESS, app_id e)) (get_entry c h))"

definition GetProgramNumberForServiceHandle ::
  "rmf_SiServiceHandle \<Rightarrow> 32 word \<Rightarrow> rmf_OobSiCache \<Rightarrow> (rmf_Error \<times> 32 word) option" where
  "GetProgramNumberForServiceHandle h old c =
     (if h = RMF_SI_INVALID_HANDLE then Some (RMF_SI_INVALID_PARAMETER, old)
      else map_option (\<lambda>e. case program e of Some n \<Rightarrow> (RMF_SUCCESS, n) | None \<Rightarrow> (RMF_SI_NOT_FOUND, 0))
             (get_entry c h))"

definition SetAppType :: "rmf_SiServiceHandle \<Rightarrow> bool \<Rightarrow> rmf_OobSiCache \<Rightarrow> rmf_OobSiCache option" where
  "SetAppType h b c =
     (if h = RMF_SI_INVALID_HANDLE then Some c
      else upd_entry h (\<lambda>e. e\<lparr>isAppType := b, source_id := if b then SOURCEID_UNKNOWN else source_id e\<rparr>) c)"

definition SetSourceId :: "rmf_SiServiceHandle \<Rightarrow> 32 word \<Rightarrow> rmf_OobSiCache \<Rightarrow> rmf_OobSiCache option" where
  "SetSourceId h v c =
     (if h = RMF_SI_INVALID_HANDLE then Some c else upd_entry h (\<lambda>e. e\<lparr>source_id := v\<rparr>) c)"

text \<open>\<open>SetAppId\<close> does not test its handle.\<close>

definition SetAppId :: "rmf_SiServiceHandle \<Rightarrow> 32 word \<Rightarrow> rmf_OobSiCache \<Rightarrow> rmf_OobSiCache option" where
  "SetAppId h v c = upd_entry h (\<lambda>e. e\<lparr>app_id := v\<rparr>) c"

definition SetProgramNumber :: "rmf_SiServiceHandle \<Rightarrow> 32 word \<Rightarrow> rmf_OobSiCache \<Rightarrow> rmf_OobSiCache option" where
  "SetProgramNumber h v c =
     (if h = RMF_SI_INVALID_HANDLE \<or> v > 0xFFFF then Some c
      else upd_entry h (\<lambda>e. e\<lparr>program_number := ucast v\<rparr>) c)"

definition SetActivationTime :: "rmf_SiServiceHandle \<Rightarrow> 32 word \<Rightarrow> rmf_OobSiCache \<Rightarrow> rmf_OobSiCache option" where
  "SetActivationTime h v c =
     (if h = RMF_SI_INVALID_HANDLE then Some c else upd_entry h (\<lambda>e. e\<lparr>activation_time := v\<rparr>) c)"

definition SetVirtualChannelNumber ::
  "rmf_SiServiceHandle \<Rightarrow> 32 word \<Rightarrow> rmf_OobSiCache \<Rightarrow> (rmf_Error \<times> rmf_OobSiCache) option" where
  "SetVirtualChannelNumber h v c =
     (if h = RMF_SI_INVALID_HANDLE \<or> v > 4095 then Some (RMF_SI_INVALID_PARAMETER, c)
      else map_option (Pair RMF_SUCCESS) (upd_entry h (\<lambda>e. e\<lparr>virtual_channel_number := ucast v\<rparr>) c))"

definition SetChannelNumber ::
  "rmf_SiServiceHandle \<Rightarrow> 32 word \<Rightarrow> 32 word \<Rightarrow> rmf_OobSiCache \<Rightarrow> (rmf_Error \<times> rmf_OobSiCache) option" where
  "SetChannelNumber h major minor c =
     (if h = RMF_SI_INVALID_HANDLE then Some (RMF_SI_INVALID_PARAMETER, c)
      else if minor = RMF_SI_DEFAULT_CHANNEL_NUMBER then
        if major > 4095 then Some (RMF_SI_INVALID_PARAMETER, c)
        else map_option (Pair RMF_SUCCESS)
               (upd_entry h (\<lambda>e. e\<lparr>major_channel_number := major,
                                   minor_channel_number := RMF_SI_DEFAULT_CHANNEL_NUMBER\<rparr>) c)
      else if major > 99 \<or> major < 1 then Some (RMF_SI_INVALID_PARAMETER, c)
      else if minor > 999 then Some (RMF_SI_INVALID_PARAMETER, c)
      else map_option (Pair RMF_SUCCESS)
             (upd_entry h (\<lambda>e. e\<lparr>major_channel_number := major, minor_channel_number := minor\<rparr>) c))"

definition SetCDSRef :: "rmf_SiServiceHandle \<Rightarrow> byte \<Rightarrow> rmf_OobSiCache \<Rightarrow> rmf_OobSiCache option" where
  "SetCDSRef h v c =
     (if h = RMF_SI_INVALID_HANDLE then Some c else upd_entry h (\<lambda>e. e\<lparr>freq_index := v\<rparr>) c)"

definition SetMMSRef :: "rmf_SiServiceHandle \<Rightarrow> byte \<Rightarrow> rmf_OobSiCache \<Rightarrow> rmf_OobSiCache option" where
  "SetMMSRef h v c =
     (if h = RMF_SI_INVALID_HANDLE then Some c else upd_entry h (\<lambda>e. e\<lparr>mode_index := v\<rparr>) c)"

definition SetChannelType :: "rmf_SiServiceHandle \<Rightarrow> byte \<Rightarrow> rmf_OobSiCache \<Rightarrow> rmf_OobSiCache option" where
  "SetChannelType h v c =
     (if h = RMF_SI_INVALID_HANDLE then Some c else upd_entry h (\<lambda>e. e\<lparr>channel_type := v\<rparr>) c)"

definition SetVideoStandard :: "rmf_SiServiceHandle \<Rightarrow> 16 word \<Rightarrow> rmf_OobSiCache \<Rightarrow> rmf_OobSiCache option" where
  "SetVideoStandard h v c =
     (if h = RMF_SI_INVALID_HANDLE then Some c else upd_entry h (\<lambda>e. e\<lparr>video_standard := v\<rparr>) c)"

definition SetServiceType :: "rmf_SiServiceHandle \<Rightarrow> nat \<Rightarrow> rmf_OobSiCache \<Rightarrow> rmf_OobSiCache option" where
  "SetServiceType h v c =
     (if h = RMF_SI_INVALID_HANDLE then Some c else upd_entry h (\<lambda>e. e\<lparr>service_type := v\<rparr>) c)"

definition SetTransportType :: "rmf_SiServiceHandle \<Rightarrow> byte \<Rightarrow> rmf_OobSiCache \<Rightarrow> rmf_OobSiCache option" where
  "SetTransportType h v c =
     (if h = RMF_SI_INVALID_HANDLE then Some c else upd_entry h (\<lambda>e. e\<lparr>transport_type := v\<rparr>) c)"

definition SetScrambled :: "rmf_SiServiceHandle \<Rightarrow> bool \<Rightarrow> rmf_OobSiCache \<Rightarrow> rmf_OobSiCache option" where
  "SetScrambled h v c =
     (if h = RMF_SI_INVALID_HANDLE then Some c else upd_entry h (\<lambda>e. e\<lparr>scrambled := v\<rparr>) c)"

definition SetChannelMapId :: "16 word \<Rightarrow> rmf_OobSiCache \<Rightarrow> rmf_OobSiCache" where
  "SetChannelMapId v c = c\<lparr>ChannelMapId := v\<rparr>"

definition SetDACId :: "16 word \<Rightarrow> rmf_OobSiCache \<Rightarrow> rmf_OobSiCache" where
  "SetDACId v c = c\<lparr>DACId := v\<rparr>"

definition SetVCTId :: "16 word \<Rightarrow> rmf_OobSiCache \<Rightarrow> rmf_OobSiCache" where
  "SetVCTId v c = c\<lparr>VCTId := v\<rparr>"

definition IsSIFullyAcquired :: "rmf_OobSiCache \<Rightarrow> bool" where
  "IsSIFullyAcquired c = g_SITPConditionSet c"

definition SetGlobalState :: "rmf_SiGlobalState \<Rightarrow> rmf_OobSiCache \<Rightarrow> rmf_OobSiCache" where
  "SetGlobalState st c =
     (if st = SI_STT_ACQUIRED \<and> \<not> g_siSTTReceived c
      then gz_call RMF_OOBSI_GLI_STT_ACQUIRED 0 0 (c\<lparr>g_siSTTReceived := True\<rparr>)
      else (let c = (if st = SI_FULLY_ACQUIRED
                     then gz_call RMF_OOBSI_GLI_SI_FULLY_ACQUIRED (ChannelMapId c) (VCTId c)
                            (gz_call RMF_OOBSI_GLI_DAC_ID_CHANGED (DACId c) 0
                              (c\<lparr>g_SITPConditionSet := True\<rparr>))
                     else if st = SI_ACQUIRING then c\<lparr>g_SITPConditionSet := False\<rparr> else c)
            in c\<lparr>g_si_state := st\<rparr>))"

section \<open>Source names\<close>

fun find_source_name :: "32 word \<Rightarrow> bool \<Rightarrow> (nat \<times> rmf_siSourceNameEntry) list \<Rightarrow> nat option" where
  "find_source_name i app [] = None"
| "find_source_name i app ((a, e) # rest) =
     (if sn_id e = i \<and> appType e = app then Some a else find_source_name i app rest)"

text \<open>
  The third component is \<open>*source_name_entry\<close> after the call, None for NULL; the caller
  initialises it to NULL, and the parameter check leaves it so.
\<close>

definition GetSourceNameEntry ::
  "32 word \<Rightarrow> bool \<Rightarrow> bool \<Rightarrow> rmf_OobSiCache \<Rightarrow> rmf_Error \<times> nat option \<times> rmf_OobSiCache" where
  "GetSourceNameEntry i isAppId create c =
     (if i = 0 \<or> i > 65535 then (RMF_SI_INVALID_PARAMETER, None, c)
      else (case find_source_name i isAppId (g_si_sourcename_entry c) of
              Some a \<Rightarrow> (RMF_SUCCESS, Some a, c)
            | None \<Rightarrow>
                if create then
                  (case memAllocP c of
                     (None, c') \<Rightarrow> (RMF_SI_OUT_OF_MEM, None, c')
                   | (Some a, c') \<Rightarrow>
                       (RMF_SUCCESS, Some a,
                        c'\<lparr>g_si_sourcename_entry :=
                             (a, \<lparr>appType = isAppId, sn_id = i, sn_mapped = False,
                                  source_names = [], source_long_names = []\<rparr>)
                             # g_si_sourcename_entry c'\<rparr>))
                else (RMF_SUCCESS, None, c)))"

definition get_name_entry :: "rmf_OobSiCache \<Rightarrow> nat \<Rightarrow> rmf_siSourceNameEntry option" where
  "get_name_entry c a = map_of (g_si_sourcename_entry c) a"

definition upd_name_entry ::
  "nat \<Rightarrow> (rmf_siSourceNameEntry \<Rightarrow> rmf_siSourceNameEntry) \<Rightarrow> rmf_OobSiCache \<Rightarrow> rmf_OobSiCache option" where
  "upd_name_entry a f c =
     (if a \<in> fst ` set (g_si_sourcename_entry c)
      then Some (c\<lparr>g_si_sourcename_entry :=
                     map (\<lambda>(k, e). (k, if k = a then f e else e)) (g_si_sourcename_entry c)\<rparr>)
      else None)"

definition IsSourceNameLanguagePresent :: "nat \<Rightarrow> cstring \<Rightarrow> rmf_OobSiCache \<Rightarrow> bool option" where
  "IsSourceNameLanguagePresent a language c =
     map_option (\<lambda>e. list_ex (\<lambda>(l, s). l = language) (source_names e)) (get_name_entry c a)"

text \<open>
  The search of \<open>SetSourceName\<close> through a name list: replace the string of the k-th node, the pair
  is already there, there is no such node, or \<open>strcmp\<close> meets a null string.
\<close>

datatype name_hit = Replace nat | Present | Absent | Null_string

fun name_search :: "bool \<Rightarrow> cstring \<Rightarrow> cstring \<Rightarrow> (cstring \<times> cstring option) list \<Rightarrow> nat \<Rightarrow> name_hit" where
  "name_search ovr lang nm [] k = Absent"
| "name_search ovr lang nm ((l, s) # rest) k =
     (if l = lang then
        if ovr then Replace k
        else (case s of
                None \<Rightarrow> Null_string
              | Some s' \<Rightarrow> if s' = nm then Present else name_search ovr lang nm rest (Suc k))
      else name_search ovr lang nm rest (Suc k))"

text \<open>
  \<open>entry->string\<close> is freed before its replacement is allocated; \<open>rmf_osal_memAllocP\<close> stores what
  \<open>calloc\<close> returns, so a failed allocation leaves a null string and returns \<open>RMF_SI_OUT_OF_MEM\<close>.
\<close>

definition SetSourceName ::
  "nat \<Rightarrow> cstring \<Rightarrow> cstring \<Rightarrow> bool \<Rightarrow> rmf_OobSiCache \<Rightarrow> (rmf_Error \<times> rmf_OobSiCache) option" where
  "SetSourceName a sourceName language override_existing c =
     (case get_name_entry c a of
        None \<Rightarrow> None
      | Some e \<Rightarrow>
          (case name_search override_existing language sourceName (source_names e) 0 of
             Null_string \<Rightarrow> None
           | Present \<Rightarrow> Some (RMF_SUCCESS, c)
           | Replace k \<Rightarrow>
               (let (m, c') = memAllocP c in
                map_option (Pair (if m = None then RMF_SI_OUT_OF_MEM else RMF_SUCCESS))
                  (upd_name_entry a (\<lambda>e. e\<lparr>source_names := (source_names e)
                     [k := (language, if m = None then None else Some sourceName)]\<rparr>) c'))
           | Absent \<Rightarrow>
               (case memAllocP c of
                  (None, c') \<Rightarrow> Some (RMF_SI_OUT_OF_MEM, c')
                | (Some _, c') \<Rightarrow>
                    (case memAllocP c' of
                       (None, c'') \<Rightarrow> Some (RMF_SI_OUT_OF_MEM, c'')
                     | (Some _, c'') \<Rightarrow>
                         map_option (Pair RMF_SUCCESS)
                           (upd_name_entry a (\<lambda>e. e\<lparr>source_names :=
                              (language, Some sourceName) # source_names e\<rparr>) c'')))))"

definition SetSourceLongName ::
  "nat \<Rightarrow> cstring \<Rightarrow> cstring \<Rightarrow> rmf_OobSiCache \<Rightarrow> (rmf_Error \<times> rmf_OobSiCache) option" where
  "SetSourceLongName a sourceLongName language c =
     (case get_name_entry c a of
        None \<Rightarrow> None
      | Some e \<Rightarrow>
          (case name_search True language sourceLongName (source_long_names e) 0 of
             Null_string \<Rightarrow> None
           | Present \<Rightarrow> Some (RMF_SUCCESS, c)
           | Replace k \<Rightarrow>
               (let (m, c') = memAllocP c in
                map_option (Pair (if m = None then RMF_SI_OUT_OF_MEM else RMF_SUCCESS))
                  (upd_name_entry a (\<lambda>e. e\<lparr>source_long_names := (source_long_names e)
                     [k := (language, if m = None then None else Some sourceLongName)]\<rparr>) c'))
           | Absent \<Rightarrow>
               (case memAllocP c of
                  (None, c') \<Rightarrow> Some (RMF_SI_OUT_OF_MEM, c')
                | (Some _, c') \<Rightarrow>
                    (case memAllocP c' of
                       (None, c'') \<Rightarrow> Some (RMF_SI_OUT_OF_MEM, c'')
                     | (Some _, c'') \<Rightarrow>
                         map_option (Pair RMF_SUCCESS)
                           (upd_name_entry a (\<lambda>e. e\<lparr>source_long_names :=
                              (language, Some sourceLongName) # source_long_names e\<rparr>) c'')))))"

section \<open>Laws of the entry store\<close>

lemma handles_put_entry [simp]: "handles (put_entry h f c) = handles c"
  by (force simp: handles_def put_entry_def)

lemma get_entry_put_entry [simp]:
  "get_entry (put_entry h f c) k = (if k = h then map_option f (get_entry c k) else get_entry c k)"
proof -
  have "map_of (map (\<lambda>(a, e). (a, if a = h then f e else e)) es) k =
      (if k = h then map_option f (map_of es k) else map_of es k)"
    for es :: "(rmf_SiServiceHandle \<times> rmf_SiTableEntry) list"
    by (induction es) auto
  then show ?thesis by (simp add: get_entry_def put_entry_def)
qed

lemma put_entry_put_entry [simp]: "put_entry h g (put_entry h f c) = put_entry h (g \<circ> f) c"
  by (simp add: put_entry_def split_beta)

lemma put_entry_frame [simp]:
  "g_si_sourcename_entry (put_entry h f c) = g_si_sourcename_entry c"
  "g_frequency (put_entry h f c) = g_frequency c" "g_mode (put_entry h f c) = g_mode c"
  "DACId (put_entry h f c) = DACId c" "ChannelMapId (put_entry h f c) = ChannelMapId c"
  "VCTId (put_entry h f c) = VCTId c" "alloc_cnt (put_entry h f c) = alloc_cnt c"
  "map fst (g_si_entry (put_entry h f c)) = map fst (g_si_entry c)"
  by (simp_all add: put_entry_def comp_def split_beta)

lemma upd_entry_valid: "h \<in> handles c \<Longrightarrow> upd_entry h f c = Some (put_entry h f c)"
  by (simp add: upd_entry_def handles_def)

lemma upd_entry_None: "upd_entry h f c = None \<longleftrightarrow> h \<notin> handles c"
  by (simp add: upd_entry_def handles_def)

lemma get_entry_handles: "h \<in> handles c \<longleftrightarrow> (\<exists>e. get_entry c h = Some e)"
  by (metis dom_map_of_conv_image_fst domD domI get_entry_def handles_def)

definition cache_wf :: "rmf_OobSiCache \<Rightarrow> bool" where
  "cache_wf c \<longleftrightarrow>
     distinct (map fst (g_si_entry c)) \<and>
     (\<forall>h \<in> fst ` set (g_si_entry c). 0 < h \<and> h \<le> alloc_cnt c) \<and>
     length (g_frequency c) = 256 \<and> length (g_mode c) = 256"

lemma cache_wf_put_entry [simp]: "cache_wf (put_entry h f c) = cache_wf c"
proof -
  have "fst ` set (g_si_entry (put_entry h f c)) = fst ` set (g_si_entry c)"
    using handles_put_entry[of h f c] by (simp add: handles_def)
  then show ?thesis by (simp add: cache_wf_def)
qed

lemma cache_wf_handle_pos: "cache_wf c \<Longrightarrow> h \<in> handles c \<Longrightarrow> h \<noteq> 0"
  by (auto simp: cache_wf_def handles_def)

text \<open>
  The contract the field setters share: an invalid handle is ignored, a handle of the chain has
  one function applied to its entry, anything else is a wild pointer.
\<close>

locale entry_setter =
  fixes setter :: "rmf_SiServiceHandle \<Rightarrow> 'v \<Rightarrow> rmf_OobSiCache \<Rightarrow> rmf_OobSiCache option"
    and field_upd :: "'v \<Rightarrow> rmf_SiTableEntry \<Rightarrow> rmf_SiTableEntry"
  assumes setter_eq: "setter h v c = (if h = 0 then Some c else upd_entry h (field_upd v) c)"
begin

lemma setter_put: "cache_wf c \<Longrightarrow> h \<in> handles c \<Longrightarrow> setter h v c = Some (put_entry h (field_upd v) c)"
  using cache_wf_handle_pos[of c h] by (simp add: setter_eq upd_entry_valid)

lemma setter_ignored: "setter 0 v c = Some c"
  by (simp add: setter_eq)

lemma setter_get:
  assumes "cache_wf c" "get_entry c h = Some e" "setter h v c = Some c'"
  shows "get_entry c' h = Some (field_upd v e)" and "k \<noteq> h \<Longrightarrow> get_entry c' k = get_entry c k"
proof -
  from assms(2) have "h \<in> handles c" by (auto simp: get_entry_handles)
  with assms(1,3) have "c' = put_entry h (field_upd v) c" by (simp add: setter_put)
  with assms(2) show "get_entry c' h = Some (field_upd v e)"
    and "k \<noteq> h \<Longrightarrow> get_entry c' k = get_entry c k" by simp_all
qed

end

interpretation set_app_type: entry_setter SetAppType
  "\<lambda>b e. e\<lparr>isAppType := b, source_id := if b then SOURCEID_UNKNOWN else source_id e\<rparr>"
  by unfold_locales (simp add: SetAppType_def)

interpretation set_source_id: entry_setter SetSourceId "\<lambda>v e. e\<lparr>source_id := v\<rparr>"
  by unfold_locales (simp add: SetSourceId_def)

interpretation set_activation_time: entry_setter SetActivationTime "\<lambda>v e. e\<lparr>activation_time := v\<rparr>"
  by unfold_locales (simp add: SetActivationTime_def)

interpretation set_cds_ref: entry_setter SetCDSRef "\<lambda>v e. e\<lparr>freq_index := v\<rparr>"
  by unfold_locales (simp add: SetCDSRef_def)

interpretation set_mms_ref: entry_setter SetMMSRef "\<lambda>v e. e\<lparr>mode_index := v\<rparr>"
  by unfold_locales (simp add: SetMMSRef_def)

interpretation set_channel_type: entry_setter SetChannelType "\<lambda>v e. e\<lparr>channel_type := v\<rparr>"
  by unfold_locales (simp add: SetChannelType_def)

interpretation set_video_standard: entry_setter SetVideoStandard "\<lambda>v e. e\<lparr>video_standard := v\<rparr>"
  by unfold_locales (simp add: SetVideoStandard_def)

interpretation set_service_type: entry_setter SetServiceType "\<lambda>v e. e\<lparr>service_type := v\<rparr>"
  by unfold_locales (simp add: SetServiceType_def)

interpretation set_transport_type: entry_setter SetTransportType "\<lambda>v e. e\<lparr>transport_type := v\<rparr>"
  by unfold_locales (simp add: SetTransportType_def)

interpretation set_scrambled: entry_setter SetScrambled "\<lambda>v e. e\<lparr>scrambled := v\<rparr>"
  by unfold_locales (simp add: SetScrambled_def)

interpretation set_entry_state: entry_setter SetServiceEntryState "\<lambda>v e. e\<lparr>entry_state := v\<rparr>"
  by unfold_locales (simp add: SetServiceEntryState_def)

interpretation set_mapped: entry_setter "\<lambda>h (_ :: unit). SetServiceEntryStateMapped h"
  "\<lambda>_ e. e\<lparr>entry_state := entry_state e OR SIENTRY_MAPPED\<rparr>"
  by unfold_locales (simp add: SetServiceEntryStateMapped_def)

interpretation set_defined: entry_setter "\<lambda>h (_ :: unit). SetServiceEntryStateDefined h"
  "\<lambda>_ e. e\<lparr>entry_state := state_defined (entry_state e)\<rparr>"
  by unfold_locales (simp add: SetServiceEntryStateDefined_def)

interpretation set_undefined: entry_setter "\<lambda>h (_ :: unit). SetServiceEntryStateUnDefined h"
  "\<lambda>_ e. e\<lparr>entry_state := state_undefined (entry_state e)\<rparr>"
  by unfold_locales (simp add: SetServiceEntryStateUnDefined_def)

lemmas setter_puts =
  set_app_type.setter_put set_source_id.setter_put set_activation_time.setter_put
  set_cds_ref.setter_put set_mms_ref.setter_put set_channel_type.setter_put
  set_video_standard.setter_put set_service_type.setter_put set_transport_type.setter_put
  set_scrambled.setter_put set_entry_state.setter_put set_mapped.setter_put
  set_defined.setter_put set_undefined.setter_put

lemma SetAppId_put: "h \<in> handles c \<Longrightarrow> SetAppId h v c = Some (put_entry h (\<lambda>e. e\<lparr>app_id := v\<rparr>) c)"
  by (simp add: SetAppId_def upd_entry_valid)

lemma SetProgramNumber_put:
  "cache_wf c \<Longrightarrow> h \<in> handles c \<Longrightarrow>
   SetProgramNumber h (ucast (n :: 16 word)) c = Some (put_entry h (\<lambda>e. e\<lparr>program_number := n\<rparr>) c)"
proof -
  assume wf: "cache_wf c" and h: "h \<in> handles c"
  have "unat (ucast n :: 32 word) \<le> 0xFFFF"
  proof -
    have "unat n < 2 ^ LENGTH(16)" by (rule unsigned_less)
    then show ?thesis by (simp add: unsigned_ucast_eq take_bit_nat_eq_self)
  qed
  then have "\<not> (ucast n :: 32 word) > 0xFFFF" by (simp add: word_less_nat_alt)
  moreover have "(ucast (ucast n :: 32 word) :: 16 word) = n" by (rule ucast_up_ucast_id) (simp add: is_up)
  ultimately show ?thesis
    using wf h cache_wf_handle_pos[OF wf h] by (simp add: SetProgramNumber_def upd_entry_valid)
qed

lemma SetChannelNumber_put:
  assumes "cache_wf c" "h \<in> handles c" "major \<le> 4095"
  shows "SetChannelNumber h major RMF_SI_DEFAULT_CHANNEL_NUMBER c =
    Some (RMF_SUCCESS, put_entry h (\<lambda>e. e\<lparr>major_channel_number := major,
            minor_channel_number := RMF_SI_DEFAULT_CHANNEL_NUMBER\<rparr>) c)"
  using assms cache_wf_handle_pos[OF assms(1,2)] by (simp add: SetChannelNumber_def upd_entry_valid not_less)

text \<open>An assignment that does not change the entry does not change the cache.\<close>

lemma put_entry_id:
  assumes "cache_wf c" "get_entry c h = Some e" "f e = e"
  shows "put_entry h f c = c"
proof -
  have "map (\<lambda>(a, e'). (a, if a = h then f e' else e')) (g_si_entry c) = g_si_entry c"
  proof (rule map_idI)
    fix x assume x: "x \<in> set (g_si_entry c)"
    obtain a e' where [simp]: "x = (a, e')" by (cases x)
    have "e' = e" if "a = h"
      using assms(1,2) x that map_of_is_SomeI[of "g_si_entry c" h e']
      by (simp add: cache_wf_def get_entry_def)
    with assms(3) show "(case x of (a, e') \<Rightarrow> (a, if a = h then f e' else e')) = x" by auto
  qed
  then show ?thesis by (simp add: put_entry_def)
qed

lemma gz_call_frame [simp]:
  "g_si_entry (gz_call ev a b c) = g_si_entry c" "alloc_cnt (gz_call ev a b c) = alloc_cnt c"
  "alloc_ok (gz_call ev a b c) = alloc_ok c" "now (gz_call ev a b c) = now c"
  "g_frequency (gz_call ev a b c) = g_frequency c" "g_mode (gz_call ev a b c) = g_mode c"
  "g_si_sourcename_entry (gz_call ev a b c) = g_si_sourcename_entry c"
  by (simp_all add: gz_call_def)

lemma cache_wf_cong:
  "g_si_entry c' = g_si_entry c \<Longrightarrow> alloc_cnt c' = alloc_cnt c \<Longrightarrow> g_frequency c' = g_frequency c \<Longrightarrow>
   g_mode c' = g_mode c \<Longrightarrow> cache_wf c' = cache_wf c"
  by (simp add: cache_wf_def)

lemma put_entry_alloc [simp]: "alloc_ok (put_entry h f c) = alloc_ok c" "now (put_entry h f c) = now c"
  by (simp_all add: put_entry_def)

section \<open>Finding and creating entries\<close>

lemma find_channel_Some:
  "find_channel n es = Some a \<Longrightarrow> \<exists>e. (a, e) \<in> set es \<and> virtual_channel_number e = n"
  by (induction n es rule: find_channel.induct) (auto split: if_splits)

lemma find_channel_None:
  "find_channel n es = None \<longleftrightarrow> (\<forall>(a, e) \<in> set es. virtual_channel_number e \<noteq> n)"
  by (induction n es rule: find_channel.induct) auto

lemma find_channel_append:
  "find_channel n (xs @ ys) =
     (case find_channel n xs of None \<Rightarrow> find_channel n ys | Some a \<Rightarrow> Some a)"
  by (induction n xs rule: find_channel.induct) auto

text \<open>What a successful look-up by channel number promises, whether it found or made the entry.\<close>

lemma GetServiceEntry_spec:
  assumes wf: "cache_wf c" and n: "n \<le> 4095"
    and res: "GetServiceEntryFromChannelNumber n h c = (a, c')" and ok: "a \<noteq> RMF_SI_INVALID_HANDLE"
  shows "cache_wf c' \<and> a \<in> handles c' \<and>
    (\<exists>e. get_entry c' a = Some e \<and> virtual_channel_number e = n) \<and>
    (\<forall>k \<in> handles c. get_entry c' k = get_entry c k) \<and> handles c \<subseteq> handles c'"
proof -
  from n have nn: "\<not> n > 4095" by simp
  show ?thesis
  proof (cases "find_channel n (g_si_entry c)")
    case (Some b)
    with res nn have [simp]: "c' = c" "a = b" by (auto simp: GetServiceEntryFromChannelNumber_def)
    from find_channel_Some[OF Some] obtain e where e: "(b, e) \<in> set (g_si_entry c)"
      "virtual_channel_number e = n" by blast
    moreover from e(1) wf have "get_entry c b = Some e" by (simp add: get_entry_def cache_wf_def)
    ultimately show ?thesis
      using wf by (auto simp: get_entry_handles)
  next
    case None
    with res nn ok have ok': "alloc_ok c (alloc_cnt c)" and a: "a = Suc (alloc_cnt c)"
      and c': "c' = c\<lparr>alloc_cnt := a, g_si_entry := g_si_entry c @
          [(a, (init_si_entry (now c))\<lparr>virtual_channel_number := n\<rparr>)]\<rparr>"
      by (auto simp: GetServiceEntryFromChannelNumber_def memAllocP_def split: if_splits)
    from wf have fresh: "a \<notin> fst ` set (g_si_entry c)"
      and le: "\<forall>h \<in> fst ` set (g_si_entry c). 0 < h \<and> h \<le> alloc_cnt c"
      unfolding cache_wf_def a by auto
    from fresh have "map_of (g_si_entry c) a = None" by (simp add: map_of_eq_None_iff)
    with wf fresh le show ?thesis
      unfolding c' cache_wf_def handles_def get_entry_def
      by (auto simp: map_add_def a split: option.splits)
  qed
qed

section \<open>Frequencies and modes: what the arrays hold\<close>

lemma copy_loop_eq:
  assumes "unat i + n \<le> length dst" "unat j + n \<le> length src" "length dst \<le> 256" "unat j + n < 256"
  shows "copy_loop n i j src dst =
    Some (take (unat i) dst @ take n (drop (unat j) src) @ drop (unat i + n) dst)"
  using assms
proof (induction n i j src dst rule: copy_loop.induct)
  case (1 i j src dst)
  then show ?case by simp
next
  case (2 n i j src dst)
  let ?dst = "dst[unat i := src ! unat j]"
  from "2.prems" have r: "rd src (unat j) = Some (src ! unat j)"
    and w: "wr dst (unat i) (src ! unat j) = Some ?dst" by (simp_all add: rd_def wr_def)
  have uj: "unat (j + 1) = Suc (unat j)"
    using "2.prems" by (simp add: unat_word_ariths)
  show ?case
  proof (cases "n = 0")
    case True
    with "2.prems" show ?thesis
      by (simp add: r w upd_conv_take_nth_drop take_Suc hd_drop_conv_nth)
  next
    case False
    with "2.prems" have ui: "unat (i + 1) = Suc (unat i)" by (simp add: unat_word_ariths)
    have "copy_loop n (i + 1) (j + 1) src ?dst =
        Some (take (Suc (unat i)) ?dst @ take n (drop (Suc (unat j)) src) @ drop (Suc (unat i) + n) ?dst)"
      using "2.IH"[of "src ! unat j" ?dst] "2.prems" by (simp add: r w ui uj)
    moreover have "take (Suc (unat i)) ?dst = take (unat i) dst @ [src ! unat j]"
      using "2.prems" by (simp add: take_Suc_conv_app_nth)
    moreover have "take (Suc n) (drop (unat j) src) = src ! unat j # take n (drop (Suc (unat j)) src)"
      using "2.prems" by (simp add: take_Suc_Cons flip: Cons_nth_drop_Suc)
    moreover have "drop (Suc (unat i) + n) ?dst = drop (unat i + Suc n) dst" by simp
    ultimately show ?thesis by (simp add: r w)
  qed
qed

lemma rmf_OobSiCache_new_wf: "cache_wf (rmf_OobSiCache_new f0 m0 ok t)"
  by (simp add: cache_wf_def rmf_OobSiCache_new_def)

lemma SetCarrierFrequencies_ok:
  assumes "cache_wf c" "0 < unat len" "unat off + unat len \<le> 256" "unat len \<le> length fs"
  shows "SetCarrierFrequencies fs off len c = Some (RMF_SUCCESS, c\<lparr>g_frequency :=
    take (unat off) (g_frequency c) @ take (unat len) fs @ drop (unat off + unat len) (g_frequency c)\<rparr>)"
proof -
  from assms have "copy_loop (unat len) off 0 fs (g_frequency c) =
      Some (take (unat off) (g_frequency c) @ take (unat len) fs @ drop (unat off + unat len) (g_frequency c))"
    by (subst copy_loop_eq) (auto simp: cache_wf_def)
  with assms show ?thesis by (auto simp: SetCarrierFrequencies_def)
qed

lemma SetModulationModes_ok:
  assumes "cache_wf c" "0 < unat len" "unat off + unat len \<le> 256" "unat len \<le> length ms"
  shows "SetModulationModes ms off len c = Some (RMF_SUCCESS, c\<lparr>g_mode :=
    take (unat off) (g_mode c) @ take (unat len) ms @ drop (unat off + unat len) (g_mode c)\<rparr>)"
proof -
  from assms have "copy_loop (unat len) off 0 ms (g_mode c) =
      Some (take (unat off) (g_mode c) @ take (unat len) ms @ drop (unat off + unat len) (g_mode c))"
    by (subst copy_loop_eq) (auto simp: cache_wf_def)
  with assms show ?thesis by (auto simp: SetModulationModes_def)
qed

lemma nth_splice:
  assumes "off + n \<le> length xs" "n \<le> length ys" "i < length xs"
  shows "(take off xs @ take n ys @ drop (off + n) xs) ! i =
    (if off \<le> i \<and> i < off + n then ys ! (i - off) else xs ! i)"
  using assms by (auto simp: nth_append min_def)

lemma unat_pos_iff: "0 < unat (w :: 'a::len word) \<longleftrightarrow> w \<noteq> 0"
  by (simp add: unat_gt_0)

lemma get_carrier_after_set:
  assumes wf: "cache_wf c" and len: "len \<noteq> 0" "unat off + unat len \<le> 256" "unat len \<le> length fs"
  shows "\<exists>c'. SetCarrierFrequencies fs off len c = Some (RMF_SUCCESS, c') \<and> cache_wf c' \<and>
    (\<forall>r. r \<noteq> 0 \<longrightarrow> GetFrequencyFromCDSRef c' r =
       (if unat off \<le> unat r \<and> unat r < unat off + unat len
        then Some (fs ! (unat r - unat off)) else GetFrequencyFromCDSRef c r))"
proof -
  let ?f = "take (unat off) (g_frequency c) @ take (unat len) fs @ drop (unat off + unat len) (g_frequency c)"
  from wf have L: "length (g_frequency c) = 256" by (simp add: cache_wf_def)
  then have L': "length ?f = 256" using len by simp
  have "GetFrequencyFromCDSRef (c\<lparr>g_frequency := ?f\<rparr>) r =
       (if unat off \<le> unat r \<and> unat r < unat off + unat len
        then Some (fs ! (unat r - unat off)) else GetFrequencyFromCDSRef c r)" if "r \<noteq> 0" for r
    using that len L L' nth_splice[of "unat off" "unat len" "g_frequency c" fs "unat r"]
    by (simp add: GetFrequencyFromCDSRef_def rd_def)
  moreover have "cache_wf (c\<lparr>g_frequency := ?f\<rparr>)" using wf L' by (simp add: cache_wf_def)
  ultimately show ?thesis
    using SetCarrierFrequencies_ok[OF wf _ len(2,3)] len(1) by (auto simp: unat_pos_iff)
qed

subsection \<open>The frequency range\<close>

lemma freq_range_loop_eq:
  "mn \<le> mx \<Longrightarrow> freq_range_loop fs mn mx =
     (fold min (takeWhile (\<lambda>f. f \<noteq> 0) fs) mn, fold max (takeWhile (\<lambda>f. f \<noteq> 0) fs) mx)"
  by (induction fs mn mx rule: freq_range_loop.induct) (auto simp: min_def max_def)

lemma get_frequency_range_eq:
  "get_frequency_range arr n =
     (let fs = takeWhile (\<lambda>f. f \<noteq> 0) (take n arr)
      in if fs = [] then (0, 0) else (Min (set fs), Max (set fs)))"
proof (cases "take n arr")
  case (Cons f fs)
  have "Min (set (f # gs)) = fold min gs f" "Max (set (f # gs)) = fold max gs f" for gs
    by (rule Min.set_eq_fold Max.set_eq_fold)+
  with Cons show ?thesis
    by (simp add: get_frequency_range_def freq_range_loop_eq Let_def del: list.set)
qed (auto simp: get_frequency_range_def)

section \<open>Properties\<close>

text \<open>
  C20. Carrier frequencies round trip through the cache: storing a run of frequencies at offset
  \<open>off\<close> succeeds and afterwards every CDS reference inside the run reads its frequency back and
  every other reference reads what it read before.
\<close>

theorem carrier_frequency_roundtrip:
  assumes "cache_wf c" "len \<noteq> 0" "unat off + unat len \<le> 256" "unat len \<le> length fs"
  shows "\<exists>c'. SetCarrierFrequencies fs off len c = Some (RMF_SUCCESS, c') \<and> cache_wf c' \<and>
    (\<forall>r. r \<noteq> 0 \<longrightarrow> GetFrequencyFromCDSRef c' r =
       (if unat off \<le> unat r \<and> unat r < unat off + unat len
        then Some (fs ! (unat r - unat off)) else GetFrequencyFromCDSRef c r))"
  using assms by (rule get_carrier_after_set)

theorem carrier_frequency_roundtrip_witness:
  "\<exists>c'. SetCarrierFrequencies [57000000, 63000000] 3 2 (rmf_OobSiCache_new 0 0 (\<lambda>_. True) 0)
          = Some (RMF_SUCCESS, c') \<and> GetFrequencyFromCDSRef c' 4 = Some 63000000"
proof -
  have "unat (4 :: byte) - unat (3 :: byte) = 1" by simp
  then show ?thesis
    using carrier_frequency_roundtrip[of "rmf_OobSiCache_new 0 0 (\<lambda>_. True) 0" 2 3 "[57000000, 63000000]"]
    by (force simp: rmf_OobSiCache_new_wf)
qed

text \<open>
  C21. A channel number of the channel map range always leads to an entry of that channel: the
  look-up that does not run out of memory returns a live handle whose entry carries the number,
  keeps every entry that was there, and keeps the cache well formed.
\<close>

theorem service_entry_lookup_or_create:
  assumes "cache_wf c" "n \<le> 4095"
    and "GetServiceEntryFromChannelNumber n h c = (a, c')" "a \<noteq> RMF_SI_INVALID_HANDLE"
  shows "cache_wf c' \<and> a \<in> handles c' \<and>
    (\<exists>e. get_entry c' a = Some e \<and> virtual_channel_number e = n) \<and>
    (\<forall>k \<in> handles c. get_entry c' k = get_entry c k) \<and> handles c \<subseteq> handles c'"
  using assms by (rule GetServiceEntry_spec)

theorem service_entry_lookup_or_create_witness:
  "\<exists>a c' e. GetServiceEntryFromChannelNumber 12 0 (rmf_OobSiCache_new 0 0 (\<lambda>_. True) 0) = (a, c') \<and>
     get_entry c' a = Some e \<and> virtual_channel_number e = 12"
proof -
  let ?c = "rmf_OobSiCache_new 0 0 (\<lambda>_. True) 0"
  obtain a c' where r: "GetServiceEntryFromChannelNumber 12 0 ?c = (a, c')" by (rule prod.exhaust)
  then have "a \<noteq> 0"
    by (auto simp: GetServiceEntryFromChannelNumber_def memAllocP_def rmf_OobSiCache_new_def)
  with service_entry_lookup_or_create[OF rmf_OobSiCache_new_wf _ r] r show ?thesis by auto
qed

text \<open>
  \<open>get_frequency_range\<close> yields the least and the greatest frequency of the array up to its
  first zero, and zeros when there is none.
\<close>

theorem get_frequency_range_min_max:
  "get_frequency_range arr n =
     (let fs = takeWhile (\<lambda>f. f \<noteq> 0) (take n arr)
      in if fs = [] then (0, 0) else (Min (set fs), Max (set fs)))"
  by (rule get_frequency_range_eq)

text \<open>
  \<open>SortCDSFreqList\<close> starts at \<open>g_frequency[0]\<close>, which no CDS reference names: while that slot
  is zero the range it stores is empty, whatever frequencies are stored from index 1 on.
\<close>

theorem SortCDSFreqList_empty_range:
  assumes "rd (g_frequency c) 0 = Some 0"
  shows "g_minFrequency (SortCDSFreqList c) = 0 \<and> g_maxFrequency (SortCDSFreqList c) = 0"
proof -
  from assms obtain fs where "g_frequency c = 0 # fs"
    by (cases "g_frequency c") (auto simp: rd_def split: if_splits)
  then show ?thesis
    by (simp add: SortCDSFreqList_def get_frequency_range_eq Let_def split_beta)
qed

theorem SortCDSFreqList_empty_range_witness:
  "g_maxFrequency (SortCDSFreqList ((rmf_OobSiCache_new 0 0 (\<lambda>_. True) 0)
     \<lparr>g_frequency := 0 # replicate 255 57000000\<rparr>)) = 0"
  using SortCDSFreqList_empty_range[of "(rmf_OobSiCache_new 0 0 (\<lambda>_. True) 0)
     \<lparr>g_frequency := 0 # replicate 255 57000000\<rparr>"] by (simp add: rd_def)

end
