(* ===== verification/Crc.thy ===== *)
theory Crc
  imports SiCache
begin

text \<open>
  The CRC by which the SI manager recognises a repeated section
  (\<open>init_mpeg2_crc\<close> and \<open>calc_mpeg2_crc\<close> of \<open>rmf_oobsicache.cpp\<close>). The code consumes a byte per
  round through a table of 256 words. The reference is long division of the message, one bit per
  round, by the MPEG-2 polynomial; the main lemma is that eight rounds of it are one look-up.
\<close>

definition CRC_QUOTIENT :: "32 word" where "CRC_QUOTIENT = 0x04C11DB7"

text \<open>The body of the inner loop of \<open>init_mpeg2_crc\<close>, and its eight rounds.\<close>

definition crc_shift :: "32 word \<Rightarrow> 32 word" where
  "crc_shift crc =
     (if crc AND 0x80000000 \<noteq> 0 then push_bit 1 crc XOR CRC_QUOTIENT else push_bit 1 crc)"

definition crc_entry :: "nat \<Rightarrow> 32 word" where
  "crc_entry i = (crc_shift ^^ 8) (push_bit 24 (word_of_nat i))"

definition init_mpeg2_crc :: "rmf_OobSiCache \<Rightarrow> rmf_OobSiCache" where
  "init_mpeg2_crc c = c\<lparr>crctab := map crc_entry [0..<256]\<rparr>"

fun crc_loop :: "32 word list \<Rightarrow> nat \<Rightarrow> byte list \<Rightarrow> nat \<Rightarrow> 32 word \<Rightarrow> 32 word option" where
  "crc_loop tab 0 data p result = Some result"
| "crc_loop tab (Suc n) data p result =
     do { d \<leftarrow> rd data p;
          t \<leftarrow> rd tab (unat (drop_bit 24 result));
          crc_loop tab n data (p + 1) ((push_bit 8 result OR ucast d) XOR t) }"

definition calc_mpeg2_crc :: "rmf_OobSiCache \<Rightarrow> byte list \<Rightarrow> nat \<Rightarrow> nat \<Rightarrow> 32 word option" where
  "calc_mpeg2_crc c data p len =
     (if len < 4 then Some 0
      else do {
        b0 \<leftarrow> rd data p; b1 \<leftarrow> rd data (p + 1); b2 \<leftarrow> rd data (p + 2); b3 \<leftarrow> rd data (p + 3);
        result \<leftarrow> crc_loop (crctab c) (len - 4) data (p + 4) (NOT (be32 b0 b1 b2 b3));
        Some (NOT result) })"

definition isVersioningByCRC32 :: "rmf_OobSiCache \<Rightarrow> bool" where
  "isVersioningByCRC32 c \<longleftrightarrow> g_sitp_si_versioning_by_crc32 c \<noteq> 0"

section \<open>Long division, bit by bit\<close>

definition crc_bit :: "bool \<Rightarrow> 32 word \<Rightarrow> 32 word" where
  "crc_bit b r = (push_bit 1 r OR of_bool b) XOR (if bit r 31 then CRC_QUOTIENT else 0)"

definition bits_of :: "byte \<Rightarrow> bool list" where
  "bits_of d = map (bit d) [7, 6, 5, 4, 3, 2, 1, 0]"

definition crc_divide :: "byte list \<Rightarrow> 32 word \<Rightarrow> 32 word" where
  "crc_divide ds r = fold crc_bit (concat (map bits_of ds)) r"

lemma and_top_bit: "(r :: 32 word) AND 0x80000000 \<noteq> 0 \<longleftrightarrow> bit r 31"
  using and_exp_eq_0_iff_not_bit[of r 31] by simp

lemma crc_shift_bit: "crc_shift r = crc_bit False r"
  by (simp add: crc_shift_def crc_bit_def and_top_bit)

lemma crc_bit_xor: "crc_bit (b \<noteq> c) (r XOR s) = crc_bit b r XOR crc_bit c s"
  by (rule bit_word_eqI) (auto simp: crc_bit_def bit_simps simp del: push_bit_Suc)

lemma fold_crc_bit_xor:
  "length bs = length cs \<Longrightarrow>
   fold crc_bit (map2 (\<noteq>) bs cs) (r XOR s) = fold crc_bit bs r XOR fold crc_bit cs s"
  by (induction bs cs arbitrary: r s rule: list_induct2) (simp_all add: crc_bit_xor del: not_iff)

lemma fold_crc_bit_zeros: "fold crc_bit (replicate n False) r = (crc_shift ^^ n) r"
  by (induction n arbitrary: r) (simp_all add: crc_shift_bit funpow_swap1)

text \<open>While the top bits are clear the register only shifts the message in.\<close>

lemma bit_fold_crc_bit:
  assumes "\<And>k. 32 - length bs \<le> k \<Longrightarrow> \<not> bit x k" "length bs \<le> 32" "n < 32"
  shows "bit (fold crc_bit bs x) n = (if n < length bs then rev bs ! n else bit x (n - length bs))"
  using assms
proof (induction bs arbitrary: x)
  case (Cons b bs)
  let ?y = "crc_bit b x"
  have "\<not> bit x 31" using Cons.prems(1)[of 31] by simp
  then have y: "bit ?y k = (if k = 0 then b else k < 32 \<and> bit x (k - 1))" for k
    by (auto simp: crc_bit_def bit_simps simp del: push_bit_Suc)
  have "\<not> bit ?y k" if "32 - length bs \<le> k" for k
    using that Cons.prems(1)[of "k - 1"] Cons.prems(2) by (auto simp: y)
  with Cons.IH[of ?y] Cons.prems(2,3)
  have "bit (fold crc_bit bs ?y) n = (if n < length bs then rev bs ! n else bit ?y (n - length bs))"
    by simp
  with Cons.prems(3) show ?case
    by (auto simp: y nth_append not_less)
qed simp

lemma rev_bits_of: "n < 8 \<Longrightarrow> rev (bits_of d) ! n = bit d n"
  by (auto simp: bits_of_def less_Suc_eq eval_nat_numeral)

lemma fold_crc_bit_low:
  assumes "\<And>k. 24 \<le> k \<Longrightarrow> \<not> bit x k"
  shows "fold crc_bit (bits_of d) x = push_bit 8 x OR ucast d"
proof (rule bit_word_eqI)
  fix n assume "n < LENGTH(32)"
  moreover have "length (bits_of d) = 8" by (simp add: bits_of_def)
  ultimately have "bit (fold crc_bit (bits_of d) x) n =
      (if n < 8 then rev (bits_of d) ! n else bit x (n - 8))"
    using bit_fold_crc_bit[of "bits_of d" x n] assms by simp
  then show "bit (fold crc_bit (bits_of d) x) n = bit (push_bit 8 x OR ucast d) n"
    using \<open>n < LENGTH(32)\<close> by (auto simp: rev_bits_of bit_simps dest: byte_bit)
qed

lemma crc_divide_first:
  "crc_divide [NOT b0, NOT b1, NOT b2, NOT b3] 0 = NOT (be32 b0 b1 b2 b3)"
proof -
  let ?x1 = "ucast (NOT b0) :: 32 word"
  let ?x2 = "push_bit 8 ?x1 OR ucast (NOT b1)"
  let ?x3 = "push_bit 8 ?x2 OR ucast (NOT b2)"
  have 1: "fold crc_bit (bits_of (NOT b0)) 0 = ?x1"
    by (subst fold_crc_bit_low) simp_all
  have 2: "fold crc_bit (bits_of (NOT b1)) ?x1 = ?x2"
    by (rule fold_crc_bit_low) (auto simp: bit_simps)
  have 3: "fold crc_bit (bits_of (NOT b2)) ?x2 = ?x3"
    by (rule fold_crc_bit_low) (auto simp: bit_simps)
  have 4: "fold crc_bit (bits_of (NOT b3)) ?x3 = push_bit 8 ?x3 OR ucast (NOT b3)"
    by (rule fold_crc_bit_low) (auto simp: bit_simps)
  have "push_bit 8 ?x3 OR ucast (NOT b3) = NOT (be32 b0 b1 b2 b3)"
  proof (rule bit_word_eqI)
    fix n assume n: "n < LENGTH(32)"
    consider "n < 8" | "8 \<le> n" "n < 16" | "16 \<le> n" "n < 24" | "24 \<le> n" by linarith
    then show "bit (push_bit 8 ?x3 OR ucast (NOT b3)) n = bit (NOT (be32 b0 b1 b2 b3)) n"
      using n by cases (simp_all add: be32_def bit_simps not_less, (auto dest: byte_bit)?)
  qed
  then have "fold crc_bit (bits_of (NOT b3)) ?x3 = NOT (be32 b0 b1 b2 b3)" unfolding 4 .
  then show ?thesis
    by (simp only: crc_divide_def list.map concat.simps fold_append fold_simps o_apply append_Nil2 1 2 3)
qed

text \<open>One table round is eight rounds of long division.\<close>

lemma table_round:
  "fold crc_bit (bits_of d) r = (push_bit 8 r OR ucast d) XOR crc_entry (unat (drop_bit 24 r))"
proof -
  let ?hi = "push_bit 24 (drop_bit 24 r)" and ?lo = "take_bit 24 r"
  have r: "r = ?lo XOR ?hi" by (rule bit_word_eqI) (auto simp: bit_simps)
  have z: "map2 (\<noteq>) (bits_of d) (replicate 8 False) = bits_of d"
    by (simp add: bits_of_def eval_nat_numeral)
  have "fold crc_bit (bits_of d) r = fold crc_bit (bits_of d) ?lo XOR (crc_shift ^^ 8) ?hi"
    using fold_crc_bit_xor[of "bits_of d" "replicate 8 False" ?lo ?hi]
    unfolding z fold_crc_bit_zeros r[symmetric] by (simp add: bits_of_def)
  also have "(crc_shift ^^ 8) ?hi = crc_entry (unat (drop_bit 24 r))"
    by (simp add: crc_entry_def)
  also have "fold crc_bit (bits_of d) ?lo = push_bit 8 r OR ucast d"
    by (subst fold_crc_bit_low) (auto intro!: bit_word_eqI simp: bit_simps)
  finally show ?thesis .
qed

lemma crc_divide_append: "crc_divide (xs @ ys) r = crc_divide ys (crc_divide xs r)"
  by (simp add: crc_divide_def)

lemma unat_drop_bit_24: "unat (drop_bit 24 (r :: 32 word)) < 256"
proof -
  have "unat r < 2 ^ LENGTH(32)" by (rule unsigned_less)
  then have "drop_bit 24 (unat r) < 256" by (simp add: drop_bit_eq_div)
  then show ?thesis using \<open>unat r < _\<close>
    by (simp add: unsigned_drop_bit_eq take_bit_nat_eq_self[of "unat r" 32])
qed

lemma rd_crctab: "crctab c = map crc_entry [0..<256] \<Longrightarrow>
    rd (crctab c) (unat (drop_bit 24 (r :: 32 word))) = Some (crc_entry (unat (drop_bit 24 r)))"
  using unat_drop_bit_24[of r] by (simp add: rd_def)

lemma crc_loop_divides:
  assumes "crctab c = map crc_entry [0..<256]" "p + n \<le> length data"
  shows "crc_loop (crctab c) n data p r = Some (crc_divide (take n (drop p data)) r)"
  using assms(2)
proof (induction n arbitrary: p r)
  case (Suc n)
  from Suc.prems have "p < length data" by simp
  then have "take (Suc n) (drop p data) = data ! p # take n (drop (Suc p) data)"
    by (simp add: take_Suc_Cons flip: Cons_nth_drop_Suc)
  with Suc \<open>p < length data\<close> show ?case
    by (simp add: rd_in rd_crctab[OF assms(1)] crc_divide_def flip: table_round)
qed (simp add: crc_divide_def)

lemma calc_mpeg2_crc_divides:
  assumes tab: "crctab c = map crc_entry [0..<256]" and "4 \<le> len" "p + len \<le> length data"
  shows "calc_mpeg2_crc c data p len =
    Some (NOT (crc_divide (map NOT (take 4 (drop p data)) @ take (len - 4) (drop (p + 4) data)) 0))"
proof -
  obtain b0 b1 b2 b3 where b: "take 4 (drop p data) = [b0, b1, b2, b3]"
    and r: "rd data p = Some b0" "rd data (p + 1) = Some b1" "rd data (p + 2) = Some b2"
      "rd data (p + 3) = Some b3"
  proof
    show "take 4 (drop p data) = [data ! p, data ! (p + 1), data ! (p + 2), data ! (p + 3)]"
      by (rule nth_equalityI) (use assms(2,3) in \<open>auto simp: less_Suc_eq eval_nat_numeral\<close>)
  qed (use assms(2,3) in \<open>auto simp: rd_def\<close>)
  have c4: "crc_divide (NOT b0 # NOT b1 # NOT b2 # NOT b3 # ds) 0 =
      crc_divide ds (NOT (be32 b0 b1 b2 b3))" for ds
    using crc_divide_append[of "[NOT b0, NOT b1, NOT b2, NOT b3]" ds 0] by (simp add: crc_divide_first)
  have "crc_loop (crctab c) (len - 4) data (p + 4) (NOT (be32 b0 b1 b2 b3)) =
      Some (crc_divide (take (len - 4) (drop (p + 4) data)) (NOT (be32 b0 b1 b2 b3)))"
    by (rule crc_loop_divides[OF tab]) (use assms(2,3) in auto)
  with assms(2) show ?thesis
    by (simp add: calc_mpeg2_crc_def r[simplified] b c4)
qed

section \<open>Different messages\<close>

text \<open>The division loses no information: each round is injective in the register, since the polynomial is odd.\<close>

lemma crc_bit_zero: "crc_bit False r = 0 \<Longrightarrow> r = 0"
proof -
  assume "crc_bit False r = 0"
  then have z: "bit (crc_bit False r) n = False" for n by simp
  have b: "bit (crc_bit False r) n =
      ((n < 32 \<and> 0 < n \<and> bit r (n - 1)) \<noteq> (bit r 31 \<and> bit CRC_QUOTIENT n))" for n
    by (auto simp: crc_bit_def bit_simps simp del: push_bit_Suc)
  have "bit CRC_QUOTIENT 0" by (simp add: CRC_QUOTIENT_def)
  with z[of 0] b[of 0] have top: "\<not> bit r 31" by simp
  show "r = 0"
  proof (rule bit_word_eqI)
    fix n assume "n < LENGTH(32)"
    with z[of "Suc n"] b[of "Suc n"] top show "bit r n = bit 0 n"
      by (cases "n = 31") auto
  qed
qed

lemma xor_zero_eq: "r XOR s = (0 :: 32 word) \<Longrightarrow> r = s"
  by (simp add: bit_eq_iff bit_simps)

lemma fold_crc_bit_inj: "fold crc_bit bs r = fold crc_bit bs s \<Longrightarrow> r = s"
proof (induction bs arbitrary: r s)
  case (Cons b bs)
  then have "crc_bit b r = crc_bit b s" by simp
  then have "crc_bit (b \<noteq> b) (r XOR s) = 0" by (simp only: crc_bit_xor xor_self_eq)
  then show ?case using crc_bit_zero[of "r XOR s"] xor_zero_eq by simp
qed simp

lemma bits_of_zero: "fold crc_bit (bits_of d) 0 = 0 \<Longrightarrow> d = 0"
proof -
  assume "fold crc_bit (bits_of d) 0 = 0"
  then have z: "ucast d = (0 :: 32 word)" by (simp add: fold_crc_bit_low)
  show ?thesis
  proof (rule bit_word_eqI)
    fix n assume "n < LENGTH(8)"
    then have "bit (ucast d :: 32 word) n = bit d n" by (simp add: bit_simps)
    with z show "bit d n = bit 0 n" by simp
  qed
qed

text \<open>
  C17. After \<open>init_mpeg2_crc\<close>, the table driven \<open>calc_mpeg2_crc\<close> of at least four bytes is the
  complement of the remainder of the bitwise long division of the message by the MPEG-2
  polynomial, the first 32 bits of the message inverted; it reads exactly the \<open>len\<close> bytes given.
\<close>

theorem calc_mpeg2_crc_is_division:
  assumes "4 \<le> len" "p + len \<le> length data"
  shows "calc_mpeg2_crc (init_mpeg2_crc c) data p len =
    Some (NOT (crc_divide (map NOT (take 4 (drop p data)) @ take (len - 4) (drop (p + 4) data)) 0))"
  using assms by (intro calc_mpeg2_crc_divides) (simp_all add: init_mpeg2_crc_def)

theorem calc_mpeg2_crc_is_division_witness:
  "calc_mpeg2_crc (init_mpeg2_crc (rmf_OobSiCache_new 0 0 (\<lambda>_. True) 0)) [0, 176, 13, 18, 52] 0 5 =
   Some (NOT (crc_divide (map NOT [0, 176, 13, 18] @ [52]) 0))"
proof -
  have "take 4 (drop 0 [0, 176, 13, 18, 52 :: byte]) = [0, 176, 13, 18]"
    "take (5 - 4) (drop (0 + 4) [0, 176, 13, 18, 52 :: byte]) = [52]" by simp_all
  then show ?thesis
    using calc_mpeg2_crc_is_division[of 5 0 "[0, 176, 13, 18, 52]" "rmf_OobSiCache_new 0 0 (\<lambda>_. True) 0"]
    by (simp only:) simp
qed

end
