(* ===== verification/ParserCommon.thy ===== *)
theory ParserCommon
  imports SectionFilter SiCache
begin

text \<open>
  What the table parsers of \<open>qamsource/simgr/oob/src/rmf_oobsiparser.cpp\<close> share: the parser object,
  the out parameters of \<open>parseAndUpdate...\<close>, the loops over descriptors and records, and the tail of
  a section (revision detection descriptor, descriptors, CRC).

  A pointer into the local array \<open>input_buffer\<close> is an offset. \<open>section_length\<close> is a 32 bit word in
  every parser; where the code declares it \<open>int32_t\<close> its comparisons go through \<open>sint\<close>.
\<close>

record rmf_OobSiParser =
  m_pSectionFilter :: rmf_SectionFilter
  m_pSiCache :: rmf_OobSiCache
  prev_vct_id :: "16 word"

record table_out =
  out_version :: byte
  out_section_number :: byte
  out_last_section_number :: byte
  out_crc :: "32 word"

abbreviation (input) MAX_OOB_SMALL_TABLE_SECTION_LENGTH :: nat where
  "MAX_OOB_SMALL_TABLE_SECTION_LENGTH \<equiv> 1021"
abbreviation (input) MAX_IB_SECTION_LENGTH :: nat where "MAX_IB_SECTION_LENGTH \<equiv> 1021"
abbreviation (input) LENGTH_CRC_32 :: "32 word" where "LENGTH_CRC_32 \<equiv> 4"
abbreviation (input) NETWORK_INFORMATION_TABLE_ID :: byte where "NETWORK_INFORMATION_TABLE_ID \<equiv> 0xC2"
abbreviation (input) NETWORK_TEXT_TABLE_ID :: byte where "NETWORK_TEXT_TABLE_ID \<equiv> 0xC3"
abbreviation (input) SF_VIRTUAL_CHANNEL_TABLE_ID :: byte where "SF_VIRTUAL_CHANNEL_TABLE_ID \<equiv> 0xC4"
abbreviation (input) SYSTEM_TIME_TABLE_ID :: byte where "SYSTEM_TIME_TABLE_ID \<equiv> 0xC5"

text \<open>
  \<open>while (descriptor_count > 0)\<close> of a record: each descriptor advances the pointer and reduces
  the section length by two plus its length octet; the Boolean says that the length went negative.
\<close>

fun skip_descriptors :: "nat \<Rightarrow> byte list \<Rightarrow> nat \<Rightarrow> 32 word \<Rightarrow> (bool \<times> nat \<times> 32 word) option" where
  "skip_descriptors 0 buf p sl = Some (False, p, sl)"
| "skip_descriptors (Suc descriptor_count) buf p sl =
     do { descriptor_length \<leftarrow> rd buf (p + 1);
          let p' = p + (2 + unat descriptor_length);
          let sl' = sl - (2 + ucast descriptor_length);
          if sint sl' < 0 then Some (True, p', sl')
          else skip_descriptors descriptor_count buf p' sl' }"

text \<open>The \<open>for\<close> loops over records that stop at the first error.\<close>

fun record_loop :: "('s \<Rightarrow> (rmf_Error \<times> 's) option) \<Rightarrow> nat \<Rightarrow> 's \<Rightarrow> (rmf_Error \<times> 's) option" where
  "record_loop step 0 s = Some (NO_PARSING_ERROR, s)"
| "record_loop step (Suc n) s =
     do { (err, s') \<leftarrow> step s;
          if err = NO_PARSING_ERROR then record_loop step n s' else Some (err, s') }"

text \<open>The revision detection descriptor, when the next descriptor is one.\<close>

definition parse_rdd :: "byte list \<Rightarrow> nat \<Rightarrow> 32 word \<Rightarrow> table_out \<Rightarrow> (nat \<times> 32 word \<times> table_out) option" where
  "parse_rdd buf p sl out =
     do { descriptor_tag \<leftarrow> rd buf p;
          if descriptor_tag = 0x93 then
            do { table_version_number \<leftarrow> rd buf (p + 2);
                 section_number \<leftarrow> rd buf (p + 3);
                 last_section_number \<leftarrow> rd buf (p + 4);
                 Some (p + 5, sl - 5,
                       out\<lparr>out_version := table_version_number AND 0x1F,
                           out_section_number := section_number,
                           out_last_section_number := last_section_number\<rparr>) }
          else Some (p, sl, out) }"

definition read_be32 :: "byte list \<Rightarrow> nat \<Rightarrow> 32 word option" where
  "read_be32 buf p =
     do { a \<leftarrow> rd buf p; b \<leftarrow> rd buf (p + 1); c \<leftarrow> rd buf (p + 2); d \<leftarrow> rd buf (p + 3);
          Some (be32 a b c d) }"

lemma unat_two_plus_byte [simp]: "unat (2 + ucast (b :: byte) :: 32 word) = 2 + unat b"
  using unat_byte[of b] by (simp add: unat_word_ariths del: unat_byte)

lemma unat_sub_le: "unat (n :: 32 word) \<le> unat sl \<Longrightarrow> unat (sl - n) = unat sl - unat n"
  by (simp add: unat_sub word_le_nat_alt)

lemma unat_sub_of_nat: "n \<le> unat (sl :: 32 word) \<Longrightarrow> unat (sl - word_of_nat n) = unat sl - n"
proof -
  assume n: "n \<le> unat sl"
  have "unat sl < 2 ^ LENGTH(32)" by (rule unsigned_less)
  with n have "unat (word_of_nat n :: 32 word) = n" by (simp add: unat_of_nat)
  with n show ?thesis by (subst unat_sub_le) simp_all
qed

lemma ucast_of_nat_8_32: "n < 256 \<Longrightarrow> ucast (word_of_nat n :: byte) = (word_of_nat n :: 32 word)"
  by (intro word_unat_eq_iff[THEN iffD2]) (simp add: unat_of_nat)

lemma sint_unat: "sint (w :: 32 word) = (if unat w < 2 ^ 31 then int (unat w) else int (unat w) - 2 ^ 32)"
proof -
  have "unat w < 2 ^ LENGTH(32)" by (rule unsigned_less)
  then obtain n where n: "unat w = n" "n < 2 ^ 32" by simp
  then have u: "uint w = int n" by (simp add: uint_nat)
  have "sint w = (int n + 2 ^ 31) mod 2 ^ 32 - 2 ^ 31"
    unfolding u[symmetric] by (simp add: sint_uint signed_take_bit_eq_take_bit_shift take_bit_eq_mod)
  moreover have "(int n + 2 ^ 31) mod 2 ^ 32 = int n + 2 ^ 31" if "n < 2 ^ 31"
    using that by simp
  moreover have "(int n + 2 ^ 31) mod 2 ^ 32 = int n - 2 ^ 31" if "\<not> n < 2 ^ 31"
    using that n(2) by (simp flip: minus_mod_self2[of "int n + 2147483648"])
  ultimately show ?thesis unfolding n(1) by simp
qed

lemma sint_nonneg: "unat (w :: 32 word) < 2 ^ 31 \<Longrightarrow> sint w = int (unat w)"
  by (simp add: sint_unat)

lemma sint_cmp:
  assumes "unat (w :: 32 word) < 2 ^ 31"
  shows "4 < sint w \<longleftrightarrow> 4 < unat w" "sint w \<le> 0 \<longleftrightarrow> unat w = 0" "\<not> sint w < 0"
    "sint w < 4 \<longleftrightarrow> unat w < 4"
  using sint_nonneg[OF assms] by linarith+

lemma sint_pos_unat: "0 \<le> sint (w :: 32 word) \<Longrightarrow> unat w < 2 ^ 31"
proof (rule ccontr)
  assume "0 \<le> sint w" "\<not> unat w < 2 ^ 31"
  then have "2 ^ 32 \<le> int (unat w)" by (simp only: sint_unat if_False)
  moreover have "unat w < 2 ^ LENGTH(32)" by (rule unsigned_less)
  ultimately show False by (simp only: flip: of_nat_less_iff[where 'a = int]) simp
qed

lemma sint_sub_decreases:
  assumes "4 < sint (sl :: 32 word)" "0 < sint (sl - (2 + ucast (b :: byte)))"
  shows "unat (sl - (2 + ucast b)) < unat sl"
proof (rule ccontr)
  let ?t = "2 + ucast b :: 32 word"
  assume not: "\<not> unat (sl - ?t) < unat sl"
  from assms have sl: "unat sl < 2 ^ 31" "unat (sl - ?t) < 2 ^ 31"
    using sint_pos_unat[of sl] sint_pos_unat[of "sl - ?t"] by simp_all
  have "unat sl = (unat (sl - ?t) + unat ?t) mod 2 ^ 32"
    using unat_word_ariths(1)[of "sl - ?t" ?t] by simp
  with sl not unat_byte[of b] show False by (simp del: unat_byte)
qed

text \<open>The descriptors before the CRC of a NIT section, \<open>section_length\<close> unsigned.\<close>

function nit_descriptors :: "byte list \<Rightarrow> nat \<Rightarrow> 32 word \<Rightarrow> (bool \<times> nat \<times> 32 word) option" where
  "nit_descriptors buf p sl =
     do { descriptor_length \<leftarrow> rd buf (p + 1);
          let tempSize = 2 + ucast descriptor_length;
          if sl < tempSize then Some (True, p + unat tempSize, sl)
          else if sl - tempSize > LENGTH_CRC_32
          then nit_descriptors buf (p + unat tempSize) (sl - tempSize)
          else Some (False, p + unat tempSize, sl - tempSize) }"
  by pat_completeness auto
termination
  by (relation "measure (\<lambda>(buf, p, sl). unat sl)")
    (auto simp: not_less word_le_nat_alt unat_sub_le)

text \<open>The same loop of the SVCT and the NTT, \<open>section_length\<close> signed.\<close>

function tail_descriptors :: "byte list \<Rightarrow> nat \<Rightarrow> 32 word \<Rightarrow> (bool \<times> nat \<times> 32 word) option" where
  "tail_descriptors buf p sl =
     (if sint sl > 4 then
        do { descriptor_length \<leftarrow> rd buf (p + 1);
             let p' = p + (2 + unat descriptor_length);
             let sl' = sl - (2 + ucast descriptor_length);
             if sint sl' \<le> 0 then Some (sint sl' < 0, p', sl')
             else tail_descriptors buf p' sl' }
      else Some (False, p, sl))"
  by pat_completeness auto
termination
  by (relation "measure (\<lambda>(buf, p, sl). unat sl)") (auto simp: not_le intro: sint_sub_decreases)

text \<open>
  The end of an SVCT or NTT section behind its records, the same lines in both parsers: the RDD,
  the descriptors, the CRC; \<open>err\<close> is \<open>svct_error\<close> or \<open>ntt_error\<close>.
\<close>

definition table_tail ::
  "byte list \<Rightarrow> nat \<Rightarrow> 32 word \<Rightarrow> rmf_Error \<Rightarrow> table_out \<Rightarrow> (rmf_Error \<times> table_out) option" where
  "table_tail buf p sl err out =
     do { (p, sl, out) \<leftarrow>
            (if err = NO_PARSING_ERROR \<and> sint sl > 4 then parse_rdd buf p sl out
             else Some (p, sl, out));
          (bad, p, sl) \<leftarrow> tail_descriptors buf p sl;
          let err = (if bad then 90 else err);
          if sl = LENGTH_CRC_32
          then do { crc \<leftarrow> read_be32 buf p; Some (err, out\<lparr>out_crc := crc\<rparr>) }
          else Some (err, out) }"

declare nit_descriptors.simps [simp del] tail_descriptors.simps [simp del]

section \<open>Encoded descriptors\<close>

type_synonym descriptor = "byte \<times> byte list"

definition enc_descriptor :: "descriptor \<Rightarrow> byte list" where
  "enc_descriptor d = fst d # word_of_nat (length (snd d)) # snd d"

definition enc_descriptors :: "descriptor list \<Rightarrow> byte list" where
  "enc_descriptors ds = concat (map enc_descriptor ds)"

definition descriptor_ok :: "descriptor \<Rightarrow> bool" where
  "descriptor_ok d \<longleftrightarrow> length (snd d) < 256"

lemma enc_descriptors_simps [simp]:
  "enc_descriptors [] = []" "enc_descriptors (d # ds) = enc_descriptor d @ enc_descriptors ds"
  by (simp_all add: enc_descriptors_def)

lemma length_enc_descriptor [simp]: "length (enc_descriptor d) = 2 + length (snd d)"
  by (simp add: enc_descriptor_def)

text \<open>The length octet of an encoded descriptor, read at the offset the loops use.\<close>

lemma rd_descriptor_length:
  "holds_at buf p (enc_descriptor d) \<Longrightarrow> rd buf (p + 1) = Some (word_of_nat (length (snd d)))"
  using holds_at_rd[of buf p "enc_descriptor d" 1] by (simp add: enc_descriptor_def)

lemma descriptor_size:
  "descriptor_ok d \<Longrightarrow> 2 + unat (word_of_nat (length (snd d)) :: byte) = length (enc_descriptor d)"
  by (simp add: descriptor_ok_def)

lemma descriptor_sub:
  fixes sl :: "32 word"
  assumes "descriptor_ok d" "length (enc_descriptor d) \<le> unat sl"
  shows "unat (sl - (2 + ucast (word_of_nat (length (snd d)) :: byte))) = unat sl - length (enc_descriptor d)"
    and "sl - (2 + ucast (word_of_nat (length (snd d)) :: byte)) = sl - word_of_nat (length (enc_descriptor d))"
proof -
  from assms show "unat (sl - (2 + ucast (word_of_nat (length (snd d)) :: byte)))
      = unat sl - length (enc_descriptor d)"
    by (subst unat_sub_le) (simp_all add: descriptor_ok_def)
  have "(2 + ucast (word_of_nat (length (snd d)) :: byte)) = (word_of_nat (length (enc_descriptor d)) :: 32 word)"
  proof (rule word_unat_eq_iff[THEN iffD2])
    have "unat (word_of_nat (2 + length (snd d)) :: 32 word) = 2 + length (snd d)"
      using assms(1) by (simp only: unat_of_nat) (simp add: descriptor_ok_def)
    then show "unat (2 + ucast (word_of_nat (length (snd d)) :: byte) :: 32 word)
        = unat (word_of_nat (length (enc_descriptor d)) :: 32 word)"
      using assms(1) by (simp only: length_enc_descriptor) (simp add: descriptor_ok_def)
  qed
  then show "sl - (2 + ucast (word_of_nat (length (snd d)) :: byte)) = sl - word_of_nat (length (enc_descriptor d))"
    by simp
qed

lemma skip_descriptors_enc:
  assumes "holds_at buf p (enc_descriptors ds)" "list_all descriptor_ok ds"
    "length (enc_descriptors ds) \<le> unat sl" "unat sl < 2 ^ 31"
  shows "skip_descriptors (length ds) buf p sl =
    Some (False, p + length (enc_descriptors ds), sl - word_of_nat (length (enc_descriptors ds)))"
  using assms
proof (induction ds arbitrary: p sl)
  case (Cons d ds)
  let ?sl = "sl - (2 + ucast (word_of_nat (length (snd d)) :: byte))"
  have d: "descriptor_ok d" "length (enc_descriptor d) \<le> unat sl" using Cons.prems by simp_all
  note sub = descriptor_sub[OF d]
  have pos: "\<not> sint ?sl < 0" using Cons.prems(4) by (simp add: sint_nonneg sub(1))
  have "skip_descriptors (length ds) buf (p + length (enc_descriptor d)) ?sl =
      Some (False, p + length (enc_descriptor d) + length (enc_descriptors ds),
            ?sl - word_of_nat (length (enc_descriptors ds)))"
    by (rule Cons.IH) (use Cons.prems sub(1) in simp_all)
  moreover have "?sl - word_of_nat (length (enc_descriptors ds)) =
      sl - word_of_nat (length (enc_descriptors (d # ds)))"
    unfolding sub(2) by (simp add: algebra_simps)
  ultimately show ?case
    using rd_descriptor_length[of buf p d] Cons.prems(1) pos descriptor_size[OF d(1)]
    by (simp add: Let_def add.assoc)
qed simp

lemma nit_descriptors_enc:
  assumes "holds_at buf p (enc_descriptors ds)" "list_all descriptor_ok ds" "ds \<noteq> []"
    "unat sl = length (enc_descriptors ds) + 4"
  shows "nit_descriptors buf p sl = Some (False, p + length (enc_descriptors ds), 4)"
  using assms
proof (induction ds arbitrary: p sl)
  case (Cons d ds)
  let ?t = "2 + ucast (word_of_nat (length (snd d)) :: byte) :: 32 word"
  have d: "descriptor_ok d" "length (enc_descriptor d) \<le> unat sl" using Cons.prems by simp_all
  note sub = descriptor_sub[OF d]
  have t: "unat ?t = length (enc_descriptor d)" using d(1) by (simp add: descriptor_ok_def)
  have "\<not> sl < ?t" using d(2) t by (simp add: word_less_nat_alt)
  moreover have rest: "unat (sl - ?t) = length (enc_descriptors ds) + 4" using Cons.prems(4) sub(1) by simp
  moreover have "rd buf (p + 1) = Some (word_of_nat (length (snd d)))"
    using rd_descriptor_length[of buf p d] Cons.prems(1) by simp
  ultimately have step: "nit_descriptors buf p sl =
      (if sl - ?t > 4 then nit_descriptors buf (p + length (enc_descriptor d)) (sl - ?t)
       else Some (False, p + length (enc_descriptor d), sl - ?t))"
    by (subst nit_descriptors.simps) (simp only: Option.bind.bind_lunit Let_def t if_False)
  show ?case
  proof (cases "ds = []")
    case True
    with rest have "sl - ?t = 4" by (intro word_unat_eq_iff[THEN iffD2]) simp
    with True show ?thesis unfolding step by (simp only:) simp
  next
    case False
    then have "length (enc_descriptors ds) > 0" by (cases ds) simp_all
    with rest have "sl - ?t > 4" by (simp add: word_less_nat_alt)
    with Cons.IH[of "p + length (enc_descriptor d)" "sl - ?t"] Cons.prems False rest show ?thesis
      unfolding step by simp
  qed
qed simp

lemma tail_descriptors_enc:
  assumes "holds_at buf p (enc_descriptors ds)" "list_all descriptor_ok ds"
    "unat sl = length (enc_descriptors ds) + 4" "unat sl < 2 ^ 31"
  shows "tail_descriptors buf p sl = Some (False, p + length (enc_descriptors ds), 4)"
  using assms
proof (induction ds arbitrary: p sl)
  case Nil
  then have "sl = 4" by (intro word_unat_eq_iff[THEN iffD2]) simp
  then show ?case by (subst tail_descriptors.simps) simp
next
  case (Cons d ds)
  let ?t = "2 + ucast (word_of_nat (length (snd d)) :: byte) :: 32 word"
  have d: "descriptor_ok d" "length (enc_descriptor d) \<le> unat sl" using Cons.prems by simp_all
  note sub = descriptor_sub[OF d]
  have rest: "unat (sl - ?t) = length (enc_descriptors ds) + 4" using Cons.prems(3) sub(1) by simp
  have big: "sint sl > 4" "\<not> sint (sl - ?t) \<le> 0"
    using Cons.prems(3,4) rest by (simp_all add: sint_nonneg)
  have "rd buf (p + 1) = Some (word_of_nat (length (snd d)))"
    using rd_descriptor_length[of buf p d] Cons.prems(1) by simp
  then have "tail_descriptors buf p sl = tail_descriptors buf (p + length (enc_descriptor d)) (sl - ?t)"
    using big descriptor_size[OF d(1)] by (subst tail_descriptors.simps) (simp add: Let_def)
  with Cons.IH[of "p + length (enc_descriptor d)" "sl - ?t"] Cons.prems rest show ?case
    by (simp add: add.assoc)
qed

section \<open>Encoded section tails\<close>

record section_tail =
  tail_rdd :: "(byte \<times> byte \<times> byte) option"
  tail_descs :: "descriptor list"
  tail_crc :: "32 word"

definition be32_bytes :: "32 word \<Rightarrow> byte list" where
  "be32_bytes w = [ucast (drop_bit 24 w), ucast (drop_bit 16 w), ucast (drop_bit 8 w), ucast w]"

definition enc_rdd :: "(byte \<times> byte \<times> byte) option \<Rightarrow> byte list" where
  "enc_rdd r = (case r of None \<Rightarrow> [] | Some (v, s, l) \<Rightarrow> [0x93, 3, v, s, l])"

definition enc_tail :: "section_tail \<Rightarrow> byte list" where
  "enc_tail t = enc_rdd (tail_rdd t) @ enc_descriptors (tail_descs t) @ be32_bytes (tail_crc t)"

text \<open>Without an RDD the first descriptor must not look like one.\<close>

definition tail_ok :: "section_tail \<Rightarrow> bool" where
  "tail_ok t \<longleftrightarrow> list_all descriptor_ok (tail_descs t) \<and>
     (tail_rdd t = None \<and> tail_descs t \<noteq> [] \<longrightarrow> fst (hd (tail_descs t)) \<noteq> 0x93)"

definition tail_out :: "section_tail \<Rightarrow> table_out \<Rightarrow> table_out" where
  "tail_out t out =
     (case tail_rdd t of
        None \<Rightarrow> out
      | Some (v, s, l) \<Rightarrow> out\<lparr>out_version := v AND 0x1F, out_section_number := s,
                              out_last_section_number := l\<rparr>)\<lparr>out_crc := tail_crc t\<rparr>"

lemma length_be32_bytes [simp]: "length (be32_bytes w) = 4"
  by (simp add: be32_bytes_def)

lemma be32_be32_bytes:
  "be32 (ucast (drop_bit 24 w)) (ucast (drop_bit 16 w)) (ucast (drop_bit 8 w)) (ucast w) = w"
proof (rule bit_word_eqI)
  fix n assume n: "n < LENGTH(32)"
  consider "n < 8" | "8 \<le> n" "n < 16" | "16 \<le> n" "n < 24" | "24 \<le> n" by linarith
  then show "bit (be32 (ucast (drop_bit 24 w)) (ucast (drop_bit 16 w)) (ucast (drop_bit 8 w)) (ucast w)) n = bit w n"
    using n by cases (auto simp: be32_def bit_simps)
qed

lemma read_be32_crc: "holds_at buf p (be32_bytes w) \<Longrightarrow> read_be32 buf p = Some w"
  by (simp add: be32_bytes_def holds_at_4 read_be32_def be32_be32_bytes del: holds_at.simps)

lemma parse_rdd_enc:
  "holds_at buf p (enc_rdd (Some (v, s, l))) \<Longrightarrow> parse_rdd buf p sl out =
     Some (p + 5, sl - 5, out\<lparr>out_version := v AND 0x1F, out_section_number := s, out_last_section_number := l\<rparr>)"
  by (simp add: enc_rdd_def holds_at_5 parse_rdd_def del: holds_at.simps)

lemma parse_rdd_other:
  "rd buf p = Some t \<Longrightarrow> t \<noteq> 0x93 \<Longrightarrow> parse_rdd buf p sl out = Some (p, sl, out)"
  by (simp add: parse_rdd_def)

text \<open>What the RDD step leaves, whether the tail has an RDD or not.\<close>

lemma rdd_step:
  assumes t: "tail_ok t" "holds_at buf p (enc_tail t)" "unat sl = length (enc_tail t)"
  obtains q sl' where "(if unat sl > 4 then parse_rdd buf p sl out else Some (p, sl, out)) =
      Some (q, sl', (tail_out t out)\<lparr>out_crc := out_crc out\<rparr>)"
    and "q = p + length (enc_rdd (tail_rdd t))"
    and "unat sl' = length (enc_descriptors (tail_descs t)) + 4"
proof (cases "tail_rdd t")
  case None
  show thesis
  proof (rule that[of p sl])
    show "unat sl = length (enc_descriptors (tail_descs t)) + 4"
      using t None by (simp add: enc_tail_def enc_rdd_def)
    have "parse_rdd buf p sl out = Some (p, sl, out)" if "unat sl > 4"
    proof -
      from that t(3) None have "tail_descs t \<noteq> []" by (auto simp: enc_tail_def enc_rdd_def)
      then obtain d ds where ds: "tail_descs t = d # ds" by (cases "tail_descs t") auto
      with t None have "rd buf p = Some (fst d)" "fst d \<noteq> 0x93"
        by (simp_all add: enc_tail_def enc_rdd_def enc_descriptor_def tail_ok_def)
      then show ?thesis by (rule parse_rdd_other)
    qed
    then show "(if unat sl > 4 then parse_rdd buf p sl out else Some (p, sl, out)) =
      Some (p, sl, (tail_out t out)\<lparr>out_crc := out_crc out\<rparr>)"
      by (simp add: tail_out_def None)
  qed (simp add: None enc_rdd_def)
next
  case (Some r)
  obtain v s l where r: "r = (v, s, l)" by (cases r) auto
  from t(2) have "holds_at buf p (enc_rdd (Some (v, s, l)))" by (simp add: enc_tail_def Some r)
  note parse = parse_rdd_enc[OF this]
  have len: "unat sl = 5 + (length (enc_descriptors (tail_descs t)) + 4)"
    using t(3) by (simp add: enc_tail_def Some r enc_rdd_def)
  show thesis
  proof (rule that[of "p + 5" "sl - 5"])
    show "(if unat sl > 4 then parse_rdd buf p sl out else Some (p, sl, out)) =
      Some (p + 5, sl - 5, (tail_out t out)\<lparr>out_crc := out_crc out\<rparr>)"
      using len by (simp add: parse tail_out_def Some r)
    show "unat (sl - 5) = length (enc_descriptors (tail_descs t)) + 4"
      using len by (subst unat_sub_le) simp_all
  qed (simp add: Some r enc_rdd_def)
qed

lemma table_tail_enc:
  assumes t: "tail_ok t" "holds_at buf p (enc_tail t)" "unat sl = length (enc_tail t)" "unat sl < 2 ^ 31"
  shows "table_tail buf p sl NO_PARSING_ERROR out = Some (NO_PARSING_ERROR, tail_out t out)"
proof -
  obtain q sl' where r: "(if unat sl > 4 then parse_rdd buf p sl out else Some (p, sl, out)) =
      Some (q, sl', (tail_out t out)\<lparr>out_crc := out_crc out\<rparr>)"
    and q: "q = p + length (enc_rdd (tail_rdd t))"
    and sl': "unat sl' = length (enc_descriptors (tail_descs t)) + 4"
    by (rule rdd_step[OF t(1-3), of out])
  from t(3) sl' have "unat sl' \<le> unat sl" by (simp add: enc_tail_def)
  with t(4) have "unat sl' < 2 ^ 31" by simp
  with t q sl' have d: "tail_descriptors buf q sl' = Some (False, q + length (enc_descriptors (tail_descs t)), 4)"
    by (intro tail_descriptors_enc) (simp_all add: enc_tail_def tail_ok_def)
  have c: "read_be32 buf (q + length (enc_descriptors (tail_descs t))) = Some (tail_crc t)"
    using t(2) q by (intro read_be32_crc) (simp add: enc_tail_def add.assoc)
  have "sint sl > 4 \<longleftrightarrow> unat sl > 4" using t(4) by (simp add: sint_cmp)
  with r d c show ?thesis
    by (simp add: table_tail_def) (simp add: tail_out_def split: option.splits prod.splits)
qed

section \<open>Encoded records\<close>

text \<open>
  The contract of one round of a record loop: on a state that is ready for the record and a buffer
  that holds its encoding at the current position the round succeeds, its effect is \<open>post\<close>, and
  the position and the remaining length move by the size of the encoding.
\<close>

fun all_along :: "('r \<Rightarrow> 's \<Rightarrow> bool) \<Rightarrow> ('r \<Rightarrow> 's \<Rightarrow> 's) \<Rightarrow> 'r list \<Rightarrow> 's \<Rightarrow> bool" where
  "all_along ready post [] s = True"
| "all_along ready post (r # rs) s = (ready r s \<and> all_along ready post rs (post r s))"

locale record_parser =
  fixes step :: "byte list \<Rightarrow> 's \<Rightarrow> (rmf_Error \<times> 's) option"
    and enc :: "'r \<Rightarrow> byte list"
    and ready :: "'r \<Rightarrow> 's \<Rightarrow> bool"
    and post :: "'r \<Rightarrow> 's \<Rightarrow> 's"
    and pos :: "'s \<Rightarrow> nat"
    and len :: "'s \<Rightarrow> 32 word"
  assumes step_enc: "ready r s \<Longrightarrow> holds_at buf (pos s) (enc r) \<Longrightarrow> step buf s = Some (NO_PARSING_ERROR, post r s)"
    and pos_post: "ready r s \<Longrightarrow> pos (post r s) = pos s + length (enc r)"
    and len_post: "ready r s \<Longrightarrow> len (post r s) = len s - word_of_nat (length (enc r))"
begin

lemma loop_enc:
  assumes "all_along ready post rs s" "holds_at buf (pos s) (concat (map enc rs))"
  shows "record_loop (step buf) (length rs) s = Some (NO_PARSING_ERROR, fold post rs s)"
  using assms
proof (induction rs arbitrary: s)
  case (Cons r rs)
  then have "step buf s = Some (NO_PARSING_ERROR, post r s)" by (simp add: step_enc[of r])
  with Cons show ?case by (simp add: pos_post)
qed simp

lemma loop_pos:
  assumes "all_along ready post rs s"
  shows "pos (fold post rs s) = pos s + length (concat (map enc rs))"
    and "len (fold post rs s) = len s - word_of_nat (length (concat (map enc rs)))"
  using assms by (induction rs arbitrary: s) (simp_all add: pos_post len_post diff_diff_add)

end

text \<open>The two octets that carry the section length under their four reserved bits.\<close>

definition enc_length :: "nat \<Rightarrow> byte list" where
  "enc_length n = [word_of_nat (0x30 + n div 256), word_of_nat (n mod 256)]"

lemma be12_enc_length: "n < 4096 \<Longrightarrow> be12 (word_of_nat (0x30 + n div 256)) (word_of_nat (n mod 256)) = word_of_nat n"
proof -
  assume n: "n < 4096"
  have "(0x30 + k) mod 16 = k" if "k < 16" for k :: nat
    using that mod_mult_self4[of 16 3 k] by simp
  with n have "(0x30 + n div 256) mod 16 = n div 256" by simp
  moreover have "0x30 + n div 256 < 256" using n by simp
  ultimately have "unat (be12 (word_of_nat (0x30 + n div 256)) (word_of_nat (n mod 256))) = n"
    by (simp only: unat_be12 unat_of_nat_byte) simp
  then show ?thesis by (metis of_nat_unat ucast_id)
qed

section \<open>A parser with one section to read\<close>

definition single_section_parser :: "byte list \<Rightarrow> rmf_OobSiParser" where
  "single_section_parser bs =
     \<lparr>m_pSectionFilter = \<lparr>m_sectionRequests = [], m_sectionRequestsToRemove = [],
        m_outstandingSections =
          [(1, \<lparr>sectionID = 1, sectionData = bs, sectionLength = word_of_nat (length bs)\<rparr>)]\<rparr>,
      m_pSiCache = rmf_OobSiCache_new 0 0 (\<lambda>_. True) 0, prev_vct_id = 0\<rparr>"

lemma single_section_parser_ok:
  assumes "length bs < 65536"
  shows "sf_wf (m_pSectionFilter (single_section_parser bs))"
    "section_bytes (m_pSectionFilter (single_section_parser bs)) 1 = Some bs"
    "cache_wf (m_pSiCache (single_section_parser bs))"
  using assms
  by (simp_all add: single_section_parser_def sf_wf_def section_bytes_def rmf_OobSiCache_new_wf unat_of_nat)

end
