(* ===== verification/NitParser.thy ===== *)
theory NitParser
  imports ParserCommon
begin

text \<open>
  The network information table: \<open>parseAndUpdateNIT\<close> and its record loops \<open>parseCDSRecords\<close>
  (carrier definitions, decompressed into carrier frequencies) and \<open>parseMMSRecords\<close> (modulation
  modes). The local arrays are uninitialised in the code; their initial content is an argument
  (record \<open>nit_locals\<close>). The theorems take an encoded table and show that the cache holds the
  decoded values afterwards.
\<close>

abbreviation (input) FREQUENCY_UNITS_10KHz :: "32 word" where "FREQUENCY_UNITS_10KHz \<equiv> 10000"
abbreviation (input) FREQUENCY_UNITS_125KHz :: "32 word" where "FREQUENCY_UNITS_125KHz \<equiv> 125000"
abbreviation (input) MAX_CARRIER_FREQUENCY_INDEX :: nat where "MAX_CARRIER_FREQUENCY_INDEX \<equiv> 255"
abbreviation (input) MODULATION_FORMAT_QAM_1024 :: "32 word" where "MODULATION_FORMAT_QAM_1024 \<equiv> 24"
abbreviation (input) CARRIER_DEFINITION_SUBTABLE :: "16 word" where "CARRIER_DEFINITION_SUBTABLE \<equiv> 1"
abbreviation (input) MODULATION_MODE_SUBTABLE :: "16 word" where "MODULATION_MODE_SUBTABLE \<equiv> 2"

section \<open>Carrier definition records\<close>

record cds_state =
  c_array :: "32 word list"
  c_ptr :: nat
  c_count :: "16 word"
  c_pos :: nat
  c_len :: "32 word"

text \<open>\<open>(uint16_t) (TESTBITS (hi, m, 1) << 8) | lo\<close>.\<close>

definition field16 :: "nat \<Rightarrow> byte \<Rightarrow> byte \<Rightarrow> 16 word" where
  "field16 m hi lo = ucast (push_bit 8 (TESTBITS hi m 1)) OR ucast lo"

text \<open>\<open>for (j = 0; j < number_of_carrier_frequencies; ++j, ++ptr_frequency_array)\<close>.\<close>

fun fill_frequencies ::
  "nat \<Rightarrow> 32 word \<Rightarrow> 32 word \<Rightarrow> 32 word \<Rightarrow> 32 word list \<Rightarrow> nat \<Rightarrow> (32 word list \<times> nat) option" where
  "fill_frequencies 0 j base delta arr ptr = Some (arr, ptr)"
| "fill_frequencies (Suc n) j base delta arr ptr =
     do { arr' \<leftarrow> wr arr ptr (base + j * delta);
          fill_frequencies n (j + 1) base delta arr' (ptr + 1) }"

definition cds_record :: "16 word \<Rightarrow> byte list \<Rightarrow> cds_state \<Rightarrow> (rmf_Error \<times> cds_state) option" where
  "cds_record first_index buf st =
     do { let p = c_pos st;
          number_of_carriers \<leftarrow> rd buf p;
          if number_of_carriers = 0 then Some (14, st)
          else if unat (c_count st) + unat number_of_carriers + unat first_index - 1
                    > MAX_CARRIER_FREQUENCY_INDEX then Some (15, st)
          else do {
            octet2 \<leftarrow> rd buf (p + 1);
            let spacing_units = (if TESTBITS octet2 8 8 \<noteq> 0 then FREQUENCY_UNITS_125KHz
                                 else FREQUENCY_UNITS_10KHz);
            octet3 \<leftarrow> rd buf (p + 2);
            let carrier_frequency_spacing = field16 6 octet2 octet3;
            if number_of_carriers \<noteq> 1 \<and> carrier_frequency_spacing = 0 then Some (17, st)
            else do {
              octet4 \<leftarrow> rd buf (p + 3);
              let first_frequency_units = (if TESTBITS octet4 8 8 \<noteq> 0 then FREQUENCY_UNITS_125KHz
                                           else FREQUENCY_UNITS_10KHz);
              octet5 \<leftarrow> rd buf (p + 4);
              let first_frequency = field16 7 octet4 octet5;
              let base_frequency = ucast first_frequency * first_frequency_units;
              let delta_frequency = ucast carrier_frequency_spacing * spacing_units;
              (arr, ptr) \<leftarrow> fill_frequencies (unat number_of_carriers) 0 base_frequency
                             delta_frequency (c_array st) (c_ptr st);
              descriptor_count \<leftarrow> rd buf (p + 5);
              (neg, p', sl') \<leftarrow> skip_descriptors (unat descriptor_count) buf (p + 6) (c_len st - 5 - 1);
              Some (if neg then 18 else NO_PARSING_ERROR,
                    \<lparr>c_array = arr, c_ptr = ptr, c_count = c_count st + ucast number_of_carriers,
                     c_pos = p', c_len = sl'\<rparr>) } } }"

definition parseCDSRecords ::
  "32 word list \<Rightarrow> 16 word \<Rightarrow> 16 word \<Rightarrow> byte list \<Rightarrow> nat \<Rightarrow> 32 word \<Rightarrow> rmf_OobSiCache \<Rightarrow>
   (rmf_Error \<times> nat \<times> 32 word \<times> rmf_OobSiCache) option" where
  "parseCDSRecords array_of_frequencies number_of_records first_index buf p sl c =
     do { (nit_error, st) \<leftarrow> record_loop (cds_record first_index buf) (unat number_of_records)
            \<lparr>c_array = array_of_frequencies, c_ptr = 0, c_count = 0, c_pos = p, c_len = sl\<rparr>;
          if nit_error = NO_PARSING_ERROR then
            do { (err, c') \<leftarrow> SetCarrierFrequencies (c_array st) (ucast first_index)
                               (ucast (c_count st)) c;
                 Some (err, c_pos st, c_len st, c') }
          else Some (nit_error, c_pos st, c_len st, c) }"

section \<open>Modulation mode records\<close>

record mms_state =
  m_array :: "rmf_ModulationMode list"
  m_ptr :: nat
  m_pos :: nat
  m_len :: "32 word"

definition inner_coding_mode_ok :: "16 word \<Rightarrow> bool" where
  "inner_coding_mode_ok m \<longleftrightarrow> m \<le> 1 \<or> m = 3 \<or> m = 5 \<or> (m \<ge> 7 \<and> m \<le> 9) \<or> m = 11 \<or> m = 15"

definition mms_record :: "byte list \<Rightarrow> mms_state \<Rightarrow> (rmf_Error \<times> mms_state) option" where
  "mms_record buf st =
     do { let p = m_pos st;
          octet1 \<leftarrow> rd buf p;
          if \<not> inner_coding_mode_ok (ucast (GETBITS octet1 4 1)) then Some (31, st)
          else do {
            octet2 \<leftarrow> rd buf (p + 1);
            let modulation_format = GETBITS octet2 5 1;
            if modulation_format > MODULATION_FORMAT_QAM_1024 then Some (33, st)
            else do {
              octet3 \<leftarrow> rd buf (p + 2); octet4 \<leftarrow> rd buf (p + 3);
              octet5 \<leftarrow> rd buf (p + 4); octet6 \<leftarrow> rd buf (p + 5);
              arr \<leftarrow> wr (m_array st) (m_ptr st) modulation_format;
              descriptor_count \<leftarrow> rd buf (p + 6);
              (neg, p', sl') \<leftarrow> skip_descriptors (unat descriptor_count) buf (p + 7) (m_len st - 6 - 1);
              Some (if neg then 35 else NO_PARSING_ERROR,
                    \<lparr>m_array = arr, m_ptr = m_ptr st + 1, m_pos = p', m_len = sl'\<rparr>) } } }"

definition parseMMSRecords ::
  "rmf_ModulationMode list \<Rightarrow> 16 word \<Rightarrow> 16 word \<Rightarrow> byte list \<Rightarrow> nat \<Rightarrow> 32 word \<Rightarrow> rmf_OobSiCache \<Rightarrow>
   (rmf_Error \<times> nat \<times> 32 word \<times> rmf_OobSiCache) option" where
  "parseMMSRecords array_of_modulation_format number_of_records first_index buf p sl c =
     do { (nit_error, st) \<leftarrow> record_loop (mms_record buf) (unat number_of_records)
            \<lparr>m_array = array_of_modulation_format, m_ptr = 0, m_pos = p, m_len = sl\<rparr>;
          if nit_error = NO_PARSING_ERROR then
            do { (err, c') \<leftarrow> SetModulationModes (m_array st) (ucast first_index)
                               (ucast number_of_records) c;
                 Some (err, m_pos st, m_len st, c') }
          else Some (nit_error, m_pos st, m_len st, c) }"

section \<open>The table\<close>

record nit_locals =
  input_buffer :: "byte list"
  array_of_frequencies :: "32 word list"
  array_of_modulation_format :: "rmf_ModulationMode list"

record nit_header =
  nh_error :: rmf_Error
  nh_section_length :: "32 word"
  nh_first_index :: "16 word"
  nh_number_of_records :: "16 word"
  nh_table_subtype :: "16 word"

text \<open>The checks of the seven header octets; a later error overwrites an earlier one.\<close>

definition parse_nit_header :: "byte list \<Rightarrow> nit_header option" where
  "parse_nit_header buf =
     do { table_id \<leftarrow> rd buf 0; octet2 \<leftarrow> rd buf 1; octet3 \<leftarrow> rd buf 2; protocol_version \<leftarrow> rd buf 3;
          first_index \<leftarrow> rd buf 4; number_of_records \<leftarrow> rd buf 5; octet7 \<leftarrow> rd buf 6;
          let e = (if table_id \<noteq> NETWORK_INFORMATION_TABLE_ID then 2 else NO_PARSING_ERROR);
          let e = (if protocol_version \<noteq> 0 then 6 else e);
          let e = (if first_index = 0 then 7 else e);
          let e = (if TESTBITS octet7 8 5 \<noteq> 0 then 9 else e);
          let table_subtype = (ucast (GETBITS octet7 4 1) :: 16 word);
          let e = (if table_subtype < CARRIER_DEFINITION_SUBTABLE \<or>
                      table_subtype > MODULATION_MODE_SUBTABLE then 10 else e);
          Some \<lparr>nh_error = e, nh_section_length = be12 octet2 octet3 - (7 - 3),
                nh_first_index = ucast first_index, nh_number_of_records = ucast number_of_records,
                nh_table_subtype = table_subtype\<rparr> }"

text \<open>From the records to the end of the section: the RDD, the descriptors, the CRC.\<close>

definition nit_tail ::
  "byte list \<Rightarrow> nat \<Rightarrow> 32 word \<Rightarrow> rmf_Error \<Rightarrow> table_out \<Rightarrow> (rmf_Error \<times> table_out) option" where
  "nit_tail buf p sl nit_error out =
     do { (p, sl, out) \<leftarrow>
            (if nit_error = NO_PARSING_ERROR \<and> sl > LENGTH_CRC_32 then parse_rdd buf p sl out
             else Some (p, sl, out));
          (nit_error, p, sl) \<leftarrow>
            (if sl > LENGTH_CRC_32
             then do { (bad, p, sl) \<leftarrow> nit_descriptors buf p sl;
                       Some (if bad then 90 else nit_error, p, sl) }
             else Some (nit_error, p, sl));
          if sl = LENGTH_CRC_32
          then do { crc \<leftarrow> read_be32 buf p; Some (nit_error, out\<lparr>out_crc := crc\<rparr>) }
          else Some (nit_error, out) }"

definition parseAndUpdateNIT ::
  "nit_locals \<Rightarrow> 32 word \<Rightarrow> table_out \<Rightarrow> rmf_OobSiParser \<Rightarrow>
   (rmf_Error \<times> table_out \<times> rmf_OobSiParser) option" where
  "parseAndUpdateNIT loc section_handle out P =
     do { (retCode, buf, n, sf) \<leftarrow>
            ReadSection (m_pSectionFilter P) section_handle 0 7 0 (input_buffer loc);
          let P = P\<lparr>m_pSectionFilter := sf\<rparr>;
          if retCode \<noteq> RMF_SUCCESS \<or> n \<noteq> Some 7 then Some (1, out, P)
          else do {
            h \<leftarrow> parse_nit_header buf;
            let sl = nh_section_length h;
            (retCode, buf, n, sf) \<leftarrow> ReadSection (m_pSectionFilter P) section_handle 7 sl 0 buf;
            let P = P\<lparr>m_pSectionFilter := sf\<rparr>;
            if retCode \<noteq> RMF_SUCCESS \<or> n \<noteq> Some sl then Some (11, out, P)
            else do {
              (nit_error, p, sl, c) \<leftarrow>
                (if nh_error h = NO_PARSING_ERROR then
                   if nh_table_subtype h = CARRIER_DEFINITION_SUBTABLE
                   then parseCDSRecords (array_of_frequencies loc) (nh_number_of_records h)
                          (nh_first_index h) buf 0 sl (m_pSiCache P)
                   else parseMMSRecords (array_of_modulation_format loc) (nh_number_of_records h)
                          (nh_first_index h) buf 0 sl (m_pSiCache P)
                 else Some (nh_error h, 0, sl, m_pSiCache P));
              (nit_error, out) \<leftarrow> nit_tail buf p sl nit_error out;
              Some (nit_error, out, P\<lparr>m_pSiCache := c\<rparr>) } } }"

section \<open>Encoded carrier definitions\<close>

text \<open>A carrier definition record as the standard lays it out, and the frequencies it stands for.\<close>

record cds_entry =
  carriers :: nat
  spacing_125kHz :: bool
  spacing :: nat
  first_125kHz :: bool
  first_carrier :: nat
  cds_descriptors :: "descriptor list"

definition unit_byte :: "bool \<Rightarrow> nat \<Rightarrow> byte" where
  "unit_byte u n = word_of_nat (128 * of_bool u + n div 256)"

definition enc_cds :: "cds_entry \<Rightarrow> byte list" where
  "enc_cds r = [word_of_nat (carriers r), unit_byte (spacing_125kHz r) (spacing r),
     word_of_nat (spacing r mod 256), unit_byte (first_125kHz r) (first_carrier r),
     word_of_nat (first_carrier r mod 256), word_of_nat (length (cds_descriptors r))]
     @ enc_descriptors (cds_descriptors r)"

definition cds_ok :: "cds_entry \<Rightarrow> bool" where
  "cds_ok r \<longleftrightarrow> 1 \<le> carriers r \<and> carriers r < 256 \<and> spacing r < 2 ^ 14 \<and>
     (carriers r = 1 \<or> 0 < spacing r) \<and> first_carrier r < 2 ^ 15 \<and>
     length (cds_descriptors r) < 256 \<and> list_all descriptor_ok (cds_descriptors r)"

definition units_hz :: "bool \<Rightarrow> nat" where "units_hz u = (if u then 125000 else 10000)"

definition cds_frequency :: "cds_entry \<Rightarrow> nat \<Rightarrow> nat" where
  "cds_frequency r j = first_carrier r * units_hz (first_125kHz r) + j * (spacing r * units_hz (spacing_125kHz r))"

definition cds_frequencies :: "cds_entry \<Rightarrow> 32 word list" where
  "cds_frequencies r = map (\<lambda>j. word_of_nat (cds_frequency r j)) [0..<carriers r]"

lemma unat_field16:
  assumes "1 \<le> m" "m \<le> 8"
  shows "unat (field16 m hi lo) = 256 * (unat hi mod 2 ^ m) + unat lo"
proof -
  have t: "unat (TESTBITS hi m 1) = unat hi mod 2 ^ m"
    using assms TESTBITS_eq_push[of 1 m hi] unat_GETBITS[of 1 m hi] by simp
  have hi: "unat hi mod 2 ^ m < 256" by (rule le_less_trans[OF mod_less_eq_dividend unat_byte])
  have "field16 m hi lo = ucast (push_bit 8 (TESTBITS hi m 1)) + ucast lo"
    unfolding field16_def by (rule disjunctive_add[symmetric]) (auto simp: bit_simps dest: byte_bit)
  moreover have "unat (push_bit 8 (TESTBITS hi m 1)) = 256 * (unat hi mod 2 ^ m)"
    using t hi by (simp add: push_bit_eq_mult unat_word_ariths)
  ultimately have "unat (field16 m hi lo) = (256 * (unat hi mod 2 ^ m) + unat lo) mod 65536"
    by (simp add: unat_word_ariths unsigned_ucast_eq take_bit_eq_mod mod_add_left_eq)
  then show ?thesis using hi unat_byte[of lo] by (simp del: unat_byte)
qed

lemma unit_byte:
  assumes "n < 2 ^ 15"
  shows "unat (unit_byte u n) = 128 * of_bool u + n div 256" "TESTBITS (unit_byte u n) 8 8 \<noteq> 0 \<longleftrightarrow> u"
proof -
  show 1: "unat (unit_byte u n) = 128 * of_bool u + n div 256"
    unfolding unit_byte_def by (rule unat_of_nat_byte) (use assms in \<open>cases u; simp\<close>)
  show "TESTBITS (unit_byte u n) 8 8 \<noteq> 0 \<longleftrightarrow> u"
    by (subst TESTBITS_eq_0) (use assms in \<open>simp_all add: 1\<close>)
qed

lemma field16_unit_byte:
  "n < 2 ^ 14 \<Longrightarrow> field16 6 (unit_byte u n) (word_of_nat (n mod 256)) = word_of_nat n"
  "n < 2 ^ 15 \<Longrightarrow> field16 7 (unit_byte u n) (word_of_nat (n mod 256)) = word_of_nat n"
proof -
  assume n: "n < 2 ^ 14"
  then have "n div 256 < 64" by simp
  then have "256 * ((128 * of_bool u + n div 256) mod 64) + n mod 256 = n"
    by (cases u) (simp_all add: mod_add_eq[of 128 64 "n div 256", symmetric])
  with n show "field16 6 (unit_byte u n) (word_of_nat (n mod 256)) = word_of_nat n"
    by (intro word_unat_eq_iff[THEN iffD2]) (simp add: unat_field16 unit_byte unat_of_nat)
next
  assume n: "n < 2 ^ 15"
  then have "n div 256 < 128" by simp
  then have "256 * ((128 * of_bool u + n div 256) mod 128) + n mod 256 = n" by (cases u) simp_all
  with n show "field16 7 (unit_byte u n) (word_of_nat (n mod 256)) = word_of_nat n"
    by (intro word_unat_eq_iff[THEN iffD2]) (simp add: unat_field16 unit_byte unat_of_nat)
qed

lemma fill_frequencies_eq:
  assumes "ptr + n \<le> length arr"
  shows "fill_frequencies n j base delta arr ptr =
    Some (take ptr arr @ map (\<lambda>i. base + (j + word_of_nat i) * delta) [0..<n] @ drop (ptr + n) arr, ptr + n)"
  using assms
proof (induction n arbitrary: j arr ptr)
  case (Suc n)
  let ?arr = "arr[ptr := base + j * delta]"
  have "fill_frequencies n (j + 1) base delta ?arr (ptr + 1) =
      Some (take (ptr + 1) ?arr @ map (\<lambda>i. base + (j + 1 + word_of_nat i) * delta) [0..<n]
            @ drop (ptr + 1 + n) ?arr, ptr + 1 + n)"
    by (rule Suc.IH) (use Suc.prems in simp)
  moreover have "take (ptr + 1) ?arr = take ptr arr @ [base + j * delta]"
    using Suc.prems by (simp add: take_Suc_conv_app_nth)
  moreover have "map (\<lambda>i. base + (j + word_of_nat i) * delta) [0..<Suc n] =
      (base + j * delta) # map (\<lambda>i. base + (j + 1 + word_of_nat i) * delta) [0..<n]"
    by (rule nth_equalityI) (auto simp: nth_Cons' nth_append add.assoc simp del: upt_Suc split: nat.splits)
  ultimately show ?case using Suc.prems by (simp add: wr_def)
qed simp

definition cds_ready :: "nat \<Rightarrow> cds_entry \<Rightarrow> cds_state \<Rightarrow> bool" where
  "cds_ready first_index r s \<longleftrightarrow> cds_ok r \<and> 1 \<le> first_index \<and> length (c_array s) = 255 \<and>
     c_ptr s = unat (c_count s) \<and> c_ptr s + carriers r + first_index \<le> 256 \<and>
     length (enc_cds r) \<le> unat (c_len s) \<and> unat (c_len s) < 2 ^ 31"

definition cds_post :: "cds_entry \<Rightarrow> cds_state \<Rightarrow> cds_state" where
  "cds_post r s =
     \<lparr>c_array = take (c_ptr s) (c_array s) @ cds_frequencies r @ drop (c_ptr s + carriers r) (c_array s),
      c_ptr = c_ptr s + carriers r, c_count = c_count s + word_of_nat (carriers r),
      c_pos = c_pos s + length (enc_cds r), c_len = c_len s - word_of_nat (length (enc_cds r))\<rparr>"

lemma ucast_of_nat_16_32: "n < 65536 \<Longrightarrow> ucast (word_of_nat n :: 16 word) = (word_of_nat n :: 32 word)"
  by (intro word_unat_eq_iff[THEN iffD2]) (simp add: unat_of_nat)

lemma of_nat_16_eq_0: "n < 65536 \<Longrightarrow> (word_of_nat n :: 16 word) = 0 \<longleftrightarrow> n = 0"
  by (simp add: word_unat_eq_iff unat_of_nat)

lemma ucast_of_nat_8_16: "n < 256 \<Longrightarrow> ucast (word_of_nat n :: byte) = (word_of_nat n :: 16 word)"
  by (intro word_unat_eq_iff[THEN iffD2]) (simp add: unat_of_nat)

lemma units_hz_word:
  "(if u then 125000 else 10000 :: 32 word) = word_of_nat (units_hz u)"
  by (simp add: units_hz_def)

lemma unat_len_sub:
  "6 \<le> unat sl \<Longrightarrow> unat (sl - 6 :: 32 word) = unat sl - 6"
  "7 \<le> unat sl \<Longrightarrow> unat (sl - 7 :: 32 word) = unat sl - 7"
  using unat_sub_le[of 6 sl] unat_sub_le[of 7 sl] by simp_all

lemma cds_record_enc:
  assumes ready: "cds_ready (unat fi) r s" and buf: "holds_at buf (c_pos s) (enc_cds r)"
  shows "cds_record fi buf s = Some (NO_PARSING_ERROR, cds_post r s)"
proof -
  from ready have ok: "cds_ok r" by (simp add: cds_ready_def)
  let ?L = "length (enc_descriptors (cds_descriptors r))"
  have len: "length (enc_cds r) = 6 + ?L" by (simp add: enc_cds_def)
  with ready have lb: "6 + ?L \<le> unat (c_len s)" "unat (c_len s) < 2 ^ 31"
    by (simp_all add: cds_ready_def)
  from buf have b: "rd buf (c_pos s) = Some (word_of_nat (carriers r))"
    "rd buf (c_pos s + 1) = Some (unit_byte (spacing_125kHz r) (spacing r))"
    "rd buf (c_pos s + 2) = Some (word_of_nat (spacing r mod 256))"
    "rd buf (c_pos s + 3) = Some (unit_byte (first_125kHz r) (first_carrier r))"
    "rd buf (c_pos s + 4) = Some (word_of_nat (first_carrier r mod 256))"
    "rd buf (c_pos s + 5) = Some (word_of_nat (length (cds_descriptors r)))"
    and d: "holds_at buf (c_pos s + 6) (enc_descriptors (cds_descriptors r))"
    unfolding enc_cds_def append_Cons append_Nil holds_at_6 by blast+
  have n: "unat (word_of_nat (carriers r) :: byte) = carriers r"
    "unat (word_of_nat (length (cds_descriptors r)) :: byte) = length (cds_descriptors r)"
    using ok by (simp_all add: cds_ok_def)
  have sp: "spacing r < 2 ^ 15" using ok by (simp add: cds_ok_def)
  have skip: "skip_descriptors (length (cds_descriptors r)) buf (c_pos s + 6) (c_len s - 5 - 1) =
      Some (False, c_pos s + 6 + ?L, c_len s - 5 - 1 - word_of_nat ?L)"
    by (rule skip_descriptors_enc) (use ok d lb in \<open>simp_all add: cds_ok_def unat_len_sub\<close>)
  have fill: "fill_frequencies (carriers r) 0 (word_of_nat (first_carrier r) * word_of_nat (units_hz (first_125kHz r)))
      (word_of_nat (spacing r) * word_of_nat (units_hz (spacing_125kHz r))) (c_array s) (c_ptr s) =
      Some (take (c_ptr s) (c_array s) @ cds_frequencies r @ drop (c_ptr s + carriers r) (c_array s), c_ptr s + carriers r)"
    by (subst fill_frequencies_eq)
      (use ready in \<open>simp_all add: cds_ready_def cds_frequencies_def cds_frequency_def\<close>)
  show ?thesis
    unfolding cds_record_def
    using b[simplified] n skip[simplified] fill ready ok sp
    by (auto simp: Let_def unit_byte field16_unit_byte units_hz_word ucast_of_nat_16_32 of_nat_byte_eq of_nat_16_eq_0
      cds_ready_def cds_ok_def cds_post_def len ucast_of_nat_8_16)
qed

interpretation cds: record_parser "cds_record fi" enc_cds "cds_ready (unat fi)" cds_post c_pos c_len
  for fi
  by unfold_locales (simp_all add: cds_record_enc, simp_all add: cds_post_def)

text \<open>The array after the loop: the frequencies of all records in order, in front of the old tail.\<close>

definition cds_start :: "32 word list \<Rightarrow> nat \<Rightarrow> 32 word \<Rightarrow> cds_state" where
  "cds_start arr p sl = \<lparr>c_array = arr, c_ptr = 0, c_count = 0, c_pos = p, c_len = sl\<rparr>"

lemma length_cds_frequencies [simp]: "length (cds_frequencies r) = carriers r"
  by (simp add: cds_frequencies_def)

lemma cds_along:
  assumes "list_all cds_ok rs" "1 \<le> fi" "length (c_array s) = 255" "c_ptr s = unat (c_count s)"
    "c_ptr s + sum_list (map carriers rs) + fi \<le> 256"
    "length (concat (map enc_cds rs)) \<le> unat (c_len s)" "unat (c_len s) < 2 ^ 31"
  shows "all_along (cds_ready fi) cds_post rs s \<and>
    c_array (fold cds_post rs s) = take (c_ptr s) (c_array s) @ concat (map cds_frequencies rs)
      @ drop (c_ptr s + sum_list (map carriers rs)) (c_array s) \<and>
    unat (c_count (fold cds_post rs s)) = c_ptr s + sum_list (map carriers rs)"
  using assms
proof (induction rs arbitrary: s)
  case (Cons r rs)
  let ?s = "cds_post r s"
  have ready: "cds_ready fi r s" using Cons.prems by (simp add: cds_ready_def)
  have cnt: "unat (c_count ?s) = c_ptr s + carriers r"
  proof -
    have "unat (word_of_nat (carriers r) :: 16 word) = carriers r"
      using Cons.prems(5) by (simp add: unat_of_nat)
    with Cons.prems(4,5) show ?thesis by (simp add: cds_post_def unat_word_ariths)
  qed
  have len: "unat (c_len ?s) = unat (c_len s) - length (enc_cds r)"
  proof -
    have "unat (word_of_nat (length (enc_cds r)) :: 32 word) = length (enc_cds r)"
      using Cons.prems(6,7) by (simp add: unat_of_nat)
    with Cons.prems(6) show ?thesis by (simp add: cds_post_def unat_sub_le)
  qed
  have "length (c_array ?s) = 255" "c_ptr ?s = c_ptr s + carriers r"
    using Cons.prems(2,3,5) by (simp_all add: cds_post_def min_absorb2)
  with Cons.IH[of ?s] Cons.prems cnt len ready show ?case
    by (simp add: add.assoc) (simp add: cds_post_def add.commute add.left_commute)
qed simp

lemma cds_sum_pos: "rs \<noteq> [] \<Longrightarrow> list_all cds_ok rs \<Longrightarrow> 1 \<le> sum_list (map carriers rs)"
  by (cases rs) (auto simp: cds_ok_def)

lemma parseCDSRecords_enc:
  assumes wf: "cache_wf c" and rs: "rs \<noteq> []" "length rs < 256" "list_all cds_ok rs"
    and fi: "1 \<le> first" "sum_list (map carriers rs) + first \<le> 256"
    and arr: "length arr = 255"
    and buf: "holds_at buf p (concat (map enc_cds rs))"
    and sl: "length (concat (map enc_cds rs)) \<le> unat sl" "unat sl < 2 ^ 31"
  shows "parseCDSRecords arr (word_of_nat (length rs)) (word_of_nat first) buf p sl c =
    Some (RMF_SUCCESS, p + length (concat (map enc_cds rs)), sl - word_of_nat (length (concat (map enc_cds rs))),
      c\<lparr>g_frequency := take first (g_frequency c) @ concat (map cds_frequencies rs)
          @ drop (first + sum_list (map carriers rs)) (g_frequency c)\<rparr>)"
proof -
  let ?fi = "word_of_nat first :: 16 word" and ?s = "cds_start arr p sl"
  let ?t = "fold cds_post rs ?s" and ?n = "sum_list (map carriers rs)"
  from rs(1,3) have n1: "1 \<le> ?n" by (rule cds_sum_pos)
  from fi n1 have f: "first \<le> 255" by simp
  then have ufi: "unat ?fi = first" by (simp add: unat_of_nat)
  have along: "all_along (cds_ready first) cds_post rs ?s"
    and array: "c_array ?t = concat (map cds_frequencies rs) @ drop ?n arr"
    and count: "unat (c_count ?t) = ?n"
    using cds_along[of rs first ?s] rs fi arr sl by (simp_all add: cds_start_def)
  have loop: "record_loop (cds_record ?fi buf) (length rs) ?s = Some (NO_PARSING_ERROR, ?t)"
    by (rule cds.loop_enc) (use along buf in \<open>simp_all add: ufi cds_start_def\<close>)
  have pos: "c_pos ?t = p + length (concat (map enc_cds rs))"
    "c_len ?t = sl - word_of_nat (length (concat (map enc_cds rs)))"
    using cds.loop_pos[of ?fi rs ?s] along by (simp_all add: ufi cds_start_def)
  have L: "length (concat (map cds_frequencies rs)) = ?n"
    by (simp add: length_concat comp_def)
  have u: "unat (ucast ?fi :: byte) = first" "unat (ucast (c_count ?t) :: byte) = ?n"
    using f fi n1 ufi count by (simp_all add: unsigned_ucast_eq take_bit_eq_mod)
  have "SetCarrierFrequencies (c_array ?t) (ucast ?fi) (ucast (c_count ?t)) c = Some (RMF_SUCCESS,
      c\<lparr>g_frequency := take first (g_frequency c) @ concat (map cds_frequencies rs)
          @ drop (first + ?n) (g_frequency c)\<rparr>)"
    using SetCarrierFrequencies_ok[OF wf, of "ucast (c_count ?t)" "ucast ?fi" "c_array ?t"] u fi n1 arr
    by (simp add: array L)
  moreover have "unat (word_of_nat (length rs) :: 16 word) = length rs"
    using rs(2) by (simp add: unat_of_nat)
  ultimately show ?thesis
    using loop pos by (simp add: parseCDSRecords_def cds_start_def)
qed

lemma nit_tail_enc:
  assumes t: "tail_ok t" "holds_at buf p (enc_tail t)" "unat sl = length (enc_tail t)"
  shows "nit_tail buf p sl NO_PARSING_ERROR out = Some (NO_PARSING_ERROR, tail_out t out)"
proof -
  obtain q sl' where r: "(if unat sl > 4 then parse_rdd buf p sl out else Some (p, sl, out)) =
      Some (q, sl', (tail_out t out)\<lparr>out_crc := out_crc out\<rparr>)"
    and q: "q = p + length (enc_rdd (tail_rdd t))"
    and sl': "unat sl' = length (enc_descriptors (tail_descs t)) + 4"
    by (rule rdd_step[OF t, of out])
  have gt: "sl > 4 \<longleftrightarrow> unat sl > 4" "sl' > 4 \<longleftrightarrow> tail_descs t \<noteq> []"
    using sl' by (cases "tail_descs t"; simp add: word_less_nat_alt)+
  have "sl' = 4" if "tail_descs t = []"
    using that sl' by (intro word_unat_eq_iff[THEN iffD2]) simp
  moreover have "nit_descriptors buf q sl' = Some (False, q + length (enc_descriptors (tail_descs t)), 4)"
    if "tail_descs t \<noteq> []"
    using that t q sl' by (intro nit_descriptors_enc) (simp_all add: enc_tail_def tail_ok_def)
  ultimately have d: "(if sl' > 4 then do { (bad, p, sl) \<leftarrow> nit_descriptors buf q sl';
          Some (if bad then 90 else NO_PARSING_ERROR, p, sl) } else Some (NO_PARSING_ERROR, q, sl')) =
      Some (NO_PARSING_ERROR, q + length (enc_descriptors (tail_descs t)), 4)"
    by (simp add: gt)
  have c: "read_be32 buf (q + length (enc_descriptors (tail_descs t))) = Some (tail_crc t)"
    using t(2) q by (intro read_be32_crc) (simp add: enc_tail_def add.assoc)
  show ?thesis
    unfolding nit_tail_def using r d c
    by (simp add: gt(1)) (simp add: tail_out_def split: option.splits prod.splits)
qed

section \<open>Encoded modulation modes\<close>

record mms_entry =
  transmission_system :: nat
  inner_coding :: nat
  split_bitstream :: bool
  modulation :: nat
  symbol_rate :: nat
  mms_descriptors :: "descriptor list"

definition enc_mms :: "mms_entry \<Rightarrow> byte list" where
  "enc_mms r = [word_of_nat (16 * transmission_system r + inner_coding r),
     word_of_nat (128 * of_bool (split_bitstream r) + modulation r),
     word_of_nat (symbol_rate r div 2 ^ 24), word_of_nat (symbol_rate r div 2 ^ 16 mod 256),
     word_of_nat (symbol_rate r div 256 mod 256), word_of_nat (symbol_rate r mod 256),
     word_of_nat (length (mms_descriptors r))] @ enc_descriptors (mms_descriptors r)"

definition mms_ok :: "mms_entry \<Rightarrow> bool" where
  "mms_ok r \<longleftrightarrow> transmission_system r < 16 \<and> inner_coding r \<in> {0, 1, 3, 5, 7, 8, 9, 11, 15} \<and>
     modulation r \<le> 24 \<and> symbol_rate r < 2 ^ 28 \<and>
     length (mms_descriptors r) < 256 \<and> list_all descriptor_ok (mms_descriptors r)"

definition mms_ready :: "mms_entry \<Rightarrow> mms_state \<Rightarrow> bool" where
  "mms_ready r s \<longleftrightarrow> mms_ok r \<and> m_ptr s < length (m_array s) \<and>
     length (enc_mms r) \<le> unat (m_len s) \<and> unat (m_len s) < 2 ^ 31"

definition mms_post :: "mms_entry \<Rightarrow> mms_state \<Rightarrow> mms_state" where
  "mms_post r s =
     \<lparr>m_array = (m_array s)[m_ptr s := word_of_nat (modulation r)], m_ptr = m_ptr s + 1,
      m_pos = m_pos s + length (enc_mms r), m_len = m_len s - word_of_nat (length (enc_mms r))\<rparr>"

lemma mms_octets:
  assumes "mms_ok r"
  shows "inner_coding_mode_ok (ucast (GETBITS (word_of_nat (16 * transmission_system r + inner_coding r)) 4 1))"
    and "GETBITS (word_of_nat (128 * of_bool (split_bitstream r) + modulation r)) 5 1 = word_of_nat (modulation r)"
    and "\<not> (word_of_nat (modulation r) :: 32 word) > 24"
proof -
  have i: "inner_coding r < 16" and lt: "16 * transmission_system r + inner_coding r < 256"
    using assms by (auto simp: mms_ok_def)
  have "unat (GETBITS (word_of_nat (16 * transmission_system r + inner_coding r)) 4 1) = inner_coding r"
    using i unat_of_nat_byte[OF lt] by (simp only: unat_GETBITS) simp
  then have "GETBITS (word_of_nat (16 * transmission_system r + inner_coding r)) 4 1 = word_of_nat (inner_coding r)"
    by (metis of_nat_unat ucast_id)
  moreover have "inner_coding_mode_ok (ucast (word_of_nat (inner_coding r) :: 32 word))"
    using assms by (auto simp: mms_ok_def inner_coding_mode_ok_def)
  ultimately show "inner_coding_mode_ok (ucast (GETBITS (word_of_nat (16 * transmission_system r + inner_coding r)) 4 1))"
    by simp
  have m: "128 * of_bool (split_bitstream r) + modulation r < 256" "modulation r < 32"
    using assms by (auto simp: mms_ok_def)
  have "(128 * of_bool (split_bitstream r) + modulation r) mod 32 = modulation r"
    using m(2) by (cases "split_bitstream r") (simp_all add: mod_add_eq[of 128 32 "modulation r", symmetric])
  then have "unat (GETBITS (word_of_nat (128 * of_bool (split_bitstream r) + modulation r)) 5 1) = modulation r"
    using unat_of_nat_byte[OF m(1)] by (simp only: unat_GETBITS) simp
  then show "GETBITS (word_of_nat (128 * of_bool (split_bitstream r) + modulation r)) 5 1 = word_of_nat (modulation r)"
    by (metis of_nat_unat ucast_id)
  show "\<not> (word_of_nat (modulation r) :: 32 word) > 24"
    using assms by (simp add: mms_ok_def word_less_nat_alt unat_of_nat)
qed

lemma mms_record_enc:
  assumes ready: "mms_ready r s" and buf: "holds_at buf (m_pos s) (enc_mms r)"
  shows "mms_record buf s = Some (NO_PARSING_ERROR, mms_post r s)"
proof -
  from ready have ok: "mms_ok r" by (simp add: mms_ready_def)
  let ?L = "length (enc_descriptors (mms_descriptors r))"
  have len: "length (enc_mms r) = 7 + ?L" by (simp add: enc_mms_def)
  with ready have lb: "7 + ?L \<le> unat (m_len s)" "unat (m_len s) < 2 ^ 31"
    by (simp_all add: mms_ready_def)
  note b = buf[unfolded enc_mms_def append_Cons append_Nil holds_at_7]
  have n: "unat (word_of_nat (length (mms_descriptors r)) :: byte) = length (mms_descriptors r)"
    using ok by (simp add: mms_ok_def)
  have "skip_descriptors (length (mms_descriptors r)) buf (m_pos s + 7) (m_len s - 6 - 1) =
      Some (False, m_pos s + 7 + ?L, m_len s - 6 - 1 - word_of_nat ?L)"
    by (rule skip_descriptors_enc) (use ok b lb in \<open>simp_all add: mms_ok_def unat_len_sub\<close>)
  moreover have "wr (m_array s) (m_ptr s) (word_of_nat (modulation r)) =
      Some ((m_array s)[m_ptr s := word_of_nat (modulation r)])"
    using ready by (simp add: wr_def mms_ready_def)
  ultimately show ?thesis
    unfolding mms_record_def using b[simplified] n mms_octets[OF ok, simplified]
    by (simp add: Let_def mms_post_def len)
qed

interpretation mms: record_parser mms_record enc_mms mms_ready mms_post m_pos m_len
  by unfold_locales (simp_all add: mms_record_enc, simp_all add: mms_post_def)

lemma mms_along:
  assumes "list_all mms_ok rs" "m_ptr s + length rs \<le> length (m_array s)"
    "length (concat (map enc_mms rs)) \<le> unat (m_len s)" "unat (m_len s) < 2 ^ 31"
  shows "all_along mms_ready mms_post rs s \<and>
    m_array (fold mms_post rs s) = take (m_ptr s) (m_array s) @ map (\<lambda>r. word_of_nat (modulation r)) rs
      @ drop (m_ptr s + length rs) (m_array s)"
  using assms
proof (induction rs arbitrary: s)
  case (Cons r rs)
  let ?s = "mms_post r s"
  have ready: "mms_ready r s" using Cons.prems by (simp add: mms_ready_def)
  have len: "unat (m_len ?s) = unat (m_len s) - length (enc_mms r)"
  proof -
    have "unat (word_of_nat (length (enc_mms r)) :: 32 word) = length (enc_mms r)"
      using Cons.prems(3,4) by (simp add: unat_of_nat)
    with Cons.prems(3) show ?thesis by (simp add: mms_post_def unat_sub_le)
  qed
  have "m_ptr ?s = Suc (m_ptr s)" "length (m_array ?s) = length (m_array s)"
    "take (Suc (m_ptr s)) (m_array ?s) = take (m_ptr s) (m_array s) @ [word_of_nat (modulation r)]"
    "drop (Suc (m_ptr s + length rs)) (m_array ?s) = drop (Suc (m_ptr s + length rs)) (m_array s)"
    using Cons.prems(2) by (simp_all add: mms_post_def take_Suc_conv_app_nth)
  with Cons.IH[of ?s] Cons.prems len ready show ?case by simp
qed simp

lemma parseMMSRecords_enc:
  assumes wf: "cache_wf c" and rs: "rs \<noteq> []" "list_all mms_ok rs"
    and fi: "1 \<le> first" "length rs + first \<le> 256"
    and arr: "length arr = 255"
    and buf: "holds_at buf p (concat (map enc_mms rs))"
    and sl: "length (concat (map enc_mms rs)) \<le> unat sl" "unat sl < 2 ^ 31"
  shows "parseMMSRecords arr (word_of_nat (length rs)) (word_of_nat first) buf p sl c =
    Some (RMF_SUCCESS, p + length (concat (map enc_mms rs)), sl - word_of_nat (length (concat (map enc_mms rs))),
      c\<lparr>g_mode := take first (g_mode c) @ map (\<lambda>r. word_of_nat (modulation r)) rs
          @ drop (first + length rs) (g_mode c)\<rparr>)"
proof -
  let ?s = "\<lparr>m_array = arr, m_ptr = 0, m_pos = p, m_len = sl\<rparr>"
  let ?t = "fold mms_post rs ?s" and ?n = "length rs"
  from rs(1) have n1: "1 \<le> ?n" by (cases rs) auto
  have along: "all_along mms_ready mms_post rs ?s"
    and array: "m_array ?t = map (\<lambda>r. word_of_nat (modulation r)) rs @ drop ?n arr"
    using mms_along[of rs ?s] rs fi arr sl by simp_all
  have loop: "record_loop (mms_record buf) ?n ?s = Some (NO_PARSING_ERROR, ?t)"
    by (rule mms.loop_enc) (use along buf in simp_all)
  have pos: "m_pos ?t = p + length (concat (map enc_mms rs))"
    "m_len ?t = sl - word_of_nat (length (concat (map enc_mms rs)))"
    using mms.loop_pos[of rs ?s] along by simp_all
  have u: "unat (ucast (word_of_nat first :: 16 word) :: byte) = first"
    "unat (ucast (word_of_nat ?n :: 16 word) :: byte) = ?n" "unat (word_of_nat ?n :: 16 word) = ?n"
    using fi n1 by (simp_all add: unsigned_ucast_eq take_bit_eq_mod unat_of_nat)
  have "SetModulationModes (m_array ?t) (ucast (word_of_nat first :: 16 word)) (ucast (word_of_nat ?n :: 16 word)) c =
    Some (RMF_SUCCESS, c\<lparr>g_mode := take first (g_mode c) @ map (\<lambda>r. word_of_nat (modulation r)) rs
          @ drop (first + length rs) (g_mode c)\<rparr>)"
    using SetModulationModes_ok[OF wf, of "ucast (word_of_nat ?n :: 16 word)" "ucast (word_of_nat first :: 16 word)" "m_array ?t"]
      u fi n1 arr rs(1) by (simp add: array)
  then show ?thesis
    using loop pos u by (simp add: parseMMSRecords_def)
qed

section \<open>The encoded table\<close>

datatype nit_body = CDS "cds_entry list" | MMS "mms_entry list"

record nit_table =
  nit_first :: nat
  nit_body :: nit_body
  nit_rest :: section_tail

definition enc_nit_body :: "nit_body \<Rightarrow> byte list" where
  "enc_nit_body b = (case b of CDS rs \<Rightarrow> concat (map enc_cds rs) | MMS rs \<Rightarrow> concat (map enc_mms rs))"

definition nit_record_count :: "nit_body \<Rightarrow> nat" where
  "nit_record_count b = (case b of CDS rs \<Rightarrow> length rs | MMS rs \<Rightarrow> length rs)"

definition nit_subtype :: "nit_body \<Rightarrow> byte" where
  "nit_subtype b = (case b of CDS rs \<Rightarrow> 1 | MMS rs \<Rightarrow> 2)"

definition enc_nit :: "nit_table \<Rightarrow> byte list" where
  "enc_nit t =
     (let rest = enc_nit_body (nit_body t) @ enc_tail (nit_rest t)
      in [0xC2] @ enc_length (4 + length rest)
         @ [0, word_of_nat (nit_first t), word_of_nat (nit_record_count (nit_body t)), nit_subtype (nit_body t)]
         @ rest)"

definition nit_body_ok :: "nat \<Rightarrow> nit_body \<Rightarrow> bool" where
  "nit_body_ok first b =
     (case b of
        CDS rs \<Rightarrow> rs \<noteq> [] \<and> length rs < 256 \<and> list_all cds_ok rs \<and> sum_list (map carriers rs) + first \<le> 256
      | MMS rs \<Rightarrow> rs \<noteq> [] \<and> list_all mms_ok rs \<and> length rs + first \<le> 256)"

definition nit_ok :: "nit_table \<Rightarrow> bool" where
  "nit_ok t \<longleftrightarrow> 1 \<le> nit_first t \<and> nit_body_ok (nit_first t) (nit_body t) \<and> tail_ok (nit_rest t) \<and>
     length (enc_nit_body (nit_body t)) + length (enc_tail (nit_rest t)) \<le> 1017"

text \<open>What the table means for the cache.\<close>

definition nit_update :: "nit_table \<Rightarrow> rmf_OobSiCache \<Rightarrow> rmf_OobSiCache" where
  "nit_update t c =
     (case nit_body t of
        CDS rs \<Rightarrow> c\<lparr>g_frequency := take (nit_first t) (g_frequency c) @ concat (map cds_frequencies rs)
                     @ drop (nit_first t + sum_list (map carriers rs)) (g_frequency c)\<rparr>
      | MMS rs \<Rightarrow> c\<lparr>g_mode := take (nit_first t) (g_mode c) @ map (\<lambda>r. word_of_nat (modulation r)) rs
                     @ drop (nit_first t + length rs) (g_mode c)\<rparr>)"

definition nit_locals_ok :: "nit_locals \<Rightarrow> bool" where
  "nit_locals_ok loc \<longleftrightarrow> length (input_buffer loc) = 1021 \<and> length (array_of_frequencies loc) = 255 \<and>
     length (array_of_modulation_format loc) = 255"

lemma parse_nit_header_enc:
  assumes "nit_ok t" "holds_at buf 0 (take 7 (enc_nit t))"
  shows "parse_nit_header buf = Some \<lparr>nh_error = NO_PARSING_ERROR,
    nh_section_length = word_of_nat (length (enc_nit_body (nit_body t)) + length (enc_tail (nit_rest t))),
    nh_first_index = word_of_nat (nit_first t), nh_number_of_records = word_of_nat (nit_record_count (nit_body t)),
    nh_table_subtype = ucast (nit_subtype (nit_body t))\<rparr>"
proof -
  let ?n = "4 + (length (enc_nit_body (nit_body t)) + length (enc_tail (nit_rest t)))"
  have 7: "take 7 (enc_nit t) = [0xC2, word_of_nat (0x30 + ?n div 256), word_of_nat (?n mod 256), 0,
      word_of_nat (nit_first t), word_of_nat (nit_record_count (nit_body t)), nit_subtype (nit_body t)]"
    by (simp add: enc_nit_def enc_length_def Let_def)
  note b = assms(2)[unfolded 7 holds_at_7 add_0]
  have cnt: "nit_record_count (nit_body t) < 256"
    using assms(1) by (cases "nit_body t") (simp_all add: nit_ok_def nit_body_ok_def nit_record_count_def)
  have n: "?n < 4096" using assms(1) by (simp add: nit_ok_def)
  have first: "1 \<le> nit_first t \<and> nit_first t < 256"
  proof (cases "nit_body t")
    case (CDS rs)
    with assms(1) cds_sum_pos[of rs] show ?thesis by (simp add: nit_ok_def nit_body_ok_def)
  next
    case (MMS rs)
    with assms(1) show ?thesis by (cases rs) (simp_all add: nit_ok_def nit_body_ok_def)
  qed
  have sub: "TESTBITS (nit_subtype b) 8 5 = 0" "(ucast (GETBITS (nit_subtype b) 4 1) :: 16 word) = ucast (nit_subtype b)" for b
    by (simp_all add: nit_subtype_def TESTBITS_def GETBITS_def split: nit_body.splits)
  have f: "(word_of_nat (nit_first t) :: byte) \<noteq> 0" using first by (simp add: of_nat_byte_eq)
  have l: "be12 (word_of_nat (0x30 + ?n div 256)) (word_of_nat (?n mod 256)) - (7 - 3) =
      word_of_nat (length (enc_nit_body (nit_body t)) + length (enc_tail (nit_rest t)))"
    unfolding be12_enc_length[OF n] by simp
  have "ucast (nit_subtype (nit_body t)) \<in> {1, 2 :: 16 word}"
    by (simp add: nit_subtype_def split: nit_body.splits)
  then show ?thesis
    unfolding parse_nit_header_def using b sub[simplified] f l[simplified] first cnt
    by (auto simp: Let_def ucast_of_nat_8_16)
qed

lemma parse_nit_records_enc:
  assumes t: "nit_ok t" and wf: "cache_wf c" and loc: "nit_locals_ok loc"
    and buf: "holds_at buf 0 (enc_nit_body (nit_body t))"
    and sl: "length (enc_nit_body (nit_body t)) \<le> unat sl" "unat sl < 2 ^ 31"
  shows "(if (ucast (nit_subtype (nit_body t)) :: 16 word) = CARRIER_DEFINITION_SUBTABLE
     then parseCDSRecords (array_of_frequencies loc) (word_of_nat (nit_record_count (nit_body t)))
            (word_of_nat (nit_first t)) buf 0 sl c
     else parseMMSRecords (array_of_modulation_format loc) (word_of_nat (nit_record_count (nit_body t)))
            (word_of_nat (nit_first t)) buf 0 sl c) =
    Some (RMF_SUCCESS, length (enc_nit_body (nit_body t)),
      sl - word_of_nat (length (enc_nit_body (nit_body t))), nit_update t c)"
proof (cases "nit_body t")
  case (CDS rs)
  with assms parseCDSRecords_enc[of c rs "nit_first t" "array_of_frequencies loc" buf 0 sl] show ?thesis
    by (simp add: nit_subtype_def nit_record_count_def enc_nit_body_def nit_ok_def nit_body_ok_def
        nit_locals_ok_def nit_update_def)
next
  case (MMS rs)
  with assms parseMMSRecords_enc[of c rs "nit_first t" "array_of_modulation_format loc" buf 0 sl] show ?thesis
    by (simp add: nit_subtype_def nit_record_count_def enc_nit_body_def nit_ok_def nit_body_ok_def
        nit_locals_ok_def nit_update_def)
qed

lemma parseAndUpdateNIT_enc:
  assumes t: "nit_ok t" and wf: "cache_wf (m_pSiCache P)" "sf_wf (m_pSectionFilter P)"
    and bytes: "section_bytes (m_pSectionFilter P) h = Some (enc_nit t)"
    and loc: "nit_locals_ok loc"
  shows "parseAndUpdateNIT loc h out P =
    Some (RMF_SUCCESS, tail_out (nit_rest t) out, P\<lparr>m_pSiCache := nit_update t (m_pSiCache P)\<rparr>)"
proof -
  let ?B = "enc_nit_body (nit_body t)" and ?T = "enc_tail (nit_rest t)"
  let ?sf = "m_pSectionFilter P"
  define n where "n = length ?B + length ?T"
  have len: "length (enc_nit t) = 7 + n" "drop 7 (enc_nit t) = ?B @ ?T"
    by (simp_all add: n_def enc_nit_def enc_length_def Let_def)
  have n: "n \<le> 1017" "length ?B + 4 \<le> n" "length ?B + length ?T = n"
    using t by (simp_all add: nit_ok_def enc_tail_def n_def)
  have un: "unat (word_of_nat n :: 32 word) = n" using n by (simp only: unat_of_nat) simp
  then have n0: "(word_of_nat n :: 32 word) \<noteq> 0" using n(2) by (metis add_is_0 le_zero_eq unat_0 zero_neq_numeral)
  obtain buf where r1: "ReadSection ?sf h 0 7 0 (input_buffer loc) = Some (RMF_SUCCESS, buf, Some 7, ?sf)"
    and b1: "holds_at buf 0 (take 7 (enc_nit t))" "length buf = 1021"
    by (rule sfsrc.read_holds_at[OF wf(2) bytes, of 0 7 "input_buffer loc"])
      (use loc len in \<open>auto simp: nit_locals_ok_def\<close>)
  obtain buf' where r2: "ReadSection ?sf h 7 (word_of_nat n) 0 buf = Some (RMF_SUCCESS, buf', Some (word_of_nat n), ?sf)"
    and b2: "holds_at buf' 0 (?B @ ?T)"
    by (rule sfsrc.read_holds_at[OF wf(2) bytes, of 7 "word_of_nat n" buf])
      (use n b1 len un n0 in auto)
  have sub: "unat (word_of_nat n - word_of_nat (length ?B) :: 32 word) = length ?T"
    using n by (subst unat_sub_le) (simp_all add: un unat_of_nat)
  have recs: "(if (ucast (nit_subtype (nit_body t)) :: 16 word) = CARRIER_DEFINITION_SUBTABLE
     then parseCDSRecords (array_of_frequencies loc) (word_of_nat (nit_record_count (nit_body t)))
            (word_of_nat (nit_first t)) buf' 0 (word_of_nat n) (m_pSiCache P)
     else parseMMSRecords (array_of_modulation_format loc) (word_of_nat (nit_record_count (nit_body t)))
            (word_of_nat (nit_first t)) buf' 0 (word_of_nat n) (m_pSiCache P)) =
    Some (RMF_SUCCESS, length ?B, word_of_nat n - word_of_nat (length ?B), nit_update t (m_pSiCache P))"
    by (rule parse_nit_records_enc) (use t wf loc b2 n un in simp_all)
  have tail: "nit_tail buf' (length ?B) (word_of_nat n - word_of_nat (length ?B)) NO_PARSING_ERROR out =
      Some (NO_PARSING_ERROR, tail_out (nit_rest t) out)"
    by (rule nit_tail_enc) (use t b2 sub in \<open>simp_all add: nit_ok_def\<close>)
  show ?thesis
    unfolding parseAndUpdateNIT_def Let_def
    using r1 r2 parse_nit_header_enc[OF t b1(1), folded n_def] recs tail by (auto split: if_splits)
qed

text \<open>
  C1. The NIT round trip: a section that encodes a carrier definition or modulation mode subtable
  is parsed without an error, its version, section numbers and CRC reach the out parameters, and the
  cache holds exactly the decoded frequencies or modes, from the first index on, everything else in
  it unchanged.
\<close>

theorem parseAndUpdateNIT_roundtrip:
  assumes t: "nit_ok t" and wf: "cache_wf (m_pSiCache P)" "sf_wf (m_pSectionFilter P)"
    and bytes: "section_bytes (m_pSectionFilter P) h = Some (enc_nit t)"
    and loc: "nit_locals_ok loc"
  shows "parseAndUpdateNIT loc h out P =
    Some (RMF_SUCCESS, tail_out (nit_rest t) out, P\<lparr>m_pSiCache := nit_update t (m_pSiCache P)\<rparr>)"
  by (rule parseAndUpdateNIT_enc) (fact assms)+

definition nit_example :: nit_table where
  "nit_example =
     \<lparr>nit_first = 1,
      nit_body = CDS [\<lparr>carriers = 3, spacing_125kHz = True, spacing = 48, first_125kHz = True,
                       first_carrier = 456, cds_descriptors = [(0x80, [1, 2])]\<rparr>],
      nit_rest = \<lparr>tail_rdd = Some (5, 0, 0), tail_descs = [], tail_crc = 0xDEADBEEF\<rparr>\<rparr>"

definition nit_stack :: nit_locals where
  "nit_stack = \<lparr>input_buffer = replicate 1021 0, array_of_frequencies = replicate 255 0,
                array_of_modulation_format = replicate 255 0\<rparr>"

lemma nit_example_ok: "nit_ok nit_example" "nit_locals_ok nit_stack" "length (enc_nit nit_example) < 65536"
  by (simp_all add: nit_example_def nit_ok_def nit_body_ok_def cds_ok_def descriptor_ok_def tail_ok_def
      nit_stack_def nit_locals_ok_def enc_nit_def Let_def enc_length_def enc_nit_body_def enc_cds_def
      enc_descriptor_def enc_tail_def enc_rdd_def be32_bytes_def)

theorem parseAndUpdateNIT_roundtrip_witness:
  "parseAndUpdateNIT nit_stack 1 \<lparr>out_version = 32, out_section_number = 9, out_last_section_number = 9, out_crc = 0\<rparr>
     (single_section_parser (enc_nit nit_example)) =
   Some (RMF_SUCCESS,
     \<lparr>out_version = 5, out_section_number = 0, out_last_section_number = 0, out_crc = 0xDEADBEEF\<rparr>,
     (single_section_parser (enc_nit nit_example))\<lparr>m_pSiCache := (rmf_OobSiCache_new 0 0 (\<lambda>_. True) 0)
       \<lparr>g_frequency := 0 # 57000000 # 63000000 # 69000000 # replicate 252 0\<rparr>\<rparr>)"
proof -
  have "nit_update nit_example (m_pSiCache (single_section_parser (enc_nit nit_example))) =
      (rmf_OobSiCache_new 0 0 (\<lambda>_. True) 0)\<lparr>g_frequency := 0 # 57000000 # 63000000 # 69000000 # replicate 252 0\<rparr>"
    by (simp add: nit_update_def nit_example_def single_section_parser_def rmf_OobSiCache_new_def
        cds_frequencies_def cds_frequency_def units_hz_def upt_rec)
  moreover have "tail_out (nit_rest nit_example)
      \<lparr>out_version = 32, out_section_number = 9, out_last_section_number = 9, out_crc = 0\<rparr> =
      \<lparr>out_version = 5, out_section_number = 0, out_last_section_number = 0, out_crc = 0xDEADBEEF\<rparr>"
    by (simp add: tail_out_def nit_example_def)
  ultimately show ?thesis
    using parseAndUpdateNIT_roundtrip[of nit_example "single_section_parser (enc_nit nit_example)" 1 nit_stack]
      nit_example_ok single_section_parser_ok by simp
qed

section \<open>Bounds\<close>

text \<open>
  The stack array of the NIT parser is not protected: the code logs a section length above
  1021 and goes on, so a section that announces \<open>n + 4\<close> bytes with \<open>n > 1021\<close> and is that long is
  copied past the end of \<open>input_buffer\<close>, whatever the rest of its header says.
\<close>

theorem parseAndUpdateNIT_oversized_overrun:
  assumes wf: "sf_wf (m_pSectionFilter P)" and loc: "nit_locals_ok loc"
    and bytes: "section_bytes (m_pSectionFilter P) h = Some ([b0, hi, lo, b3, b4, b5, b6] @ rest)"
    and len: "unat (be12 hi lo) = n + 4" "1021 < n" "n \<le> length rest"
  shows "parseAndUpdateNIT loc h out P = None"
proof -
  let ?sf = "m_pSectionFilter P"
  obtain buf where r1: "ReadSection ?sf h 0 7 0 (input_buffer loc) = Some (RMF_SUCCESS, buf, Some 7, ?sf)"
    and b1: "holds_at buf 0 [b0, hi, lo, b3, b4, b5, b6]" "length buf = 1021"
    by (rule sfsrc.read_holds_at[OF wf bytes, of 0 7 "input_buffer loc"])
      (use loc in \<open>auto simp: nit_locals_ok_def\<close>)
  obtain hd where hd: "parse_nit_header buf = Some hd" "nh_section_length hd = be12 hi lo - 4"
    using b1(1)[unfolded holds_at_7 add_0] by (auto simp: parse_nit_header_def Let_def)
  have n: "unat (be12 hi lo - 4) = n" using len(1) by (subst unat_sub_le) simp_all
  have "ReadSection ?sf h 7 (be12 hi lo - 4) 0 buf = None"
    by (rule sfsrc.read_overrun[OF wf bytes])
      (use n len(2,3) b1(2) in \<open>auto simp del: unat_eq_0\<close>)
  with r1 hd show ?thesis by (simp add: parseAndUpdateNIT_def Let_def)
qed

theorem parseAndUpdateNIT_oversized_overrun_witness:
  "parseAndUpdateNIT nit_stack 1 \<lparr>out_version = 0, out_section_number = 0, out_last_section_number = 0, out_crc = 0\<rparr>
     (single_section_parser ([0xC2, 0x34, 2, 0, 1, 1, 1] @ replicate 1022 0)) = None"
proof (rule parseAndUpdateNIT_oversized_overrun)
  show "section_bytes (m_pSectionFilter (single_section_parser ([0xC2, 0x34, 2, 0, 1, 1, 1] @ replicate 1022 0))) 1
      = Some ([0xC2, 0x34, 2, 0, 1, 1, 1] @ replicate 1022 0)"
    by (rule single_section_parser_ok) simp
  show "sf_wf (m_pSectionFilter (single_section_parser ([0xC2, 0x34, 2, 0, 1, 1, 1] @ replicate 1022 0)))"
    by (rule single_section_parser_ok) simp
  show "unat (be12 0x34 2) = 1022 + 4" by (simp add: unat_be12)
qed (simp_all add: nit_example_ok)

end
