(* ===== verification/SvctParser.thy ===== *)
theory SvctParser
  imports ParserCommon
begin

text \<open>
  The short-form virtual channel table: \<open>parseAndUpdateSVCT\<close>, the virtual channel map
  (\<open>parseVCMStructure\<close>) and the defined channels map (\<open>parseDCMStructure\<close>).

  The locals of \<open>parseVCMStructure\<close> that are declared outside its loop and survive from one channel
  record to the next are fields of \<open>vcm_state\<close>; \<open>path_select\<close> is only logged. Every record starts
  with \<open>svct_error\<close> at zero; what the code keeps of the errors is \<open>saved_svct_error\<close>.
\<close>

abbreviation (input) DAC_SOURCEID :: "16 word" where "DAC_SOURCEID \<equiv> 0xACDD"
abbreviation (input) CHMAP_SOURCEID :: "16 word" where "CHMAP_SOURCEID \<equiv> 0xACDC"
abbreviation (input) MAC_VIDEO_STANDARD :: "16 word" where "MAC_VIDEO_STANDARD \<equiv> 4"
abbreviation (input) INVERSE_CHANNEL_MAP :: "16 word" where "INVERSE_CHANNEL_MAP \<equiv> 2"

section \<open>The virtual channel map\<close>

record vcm_state =
  v_pos :: nat
  v_len :: "32 word"
  v_program_number :: "16 word"
  v_mms_reference :: byte
  v_video_standard :: "16 word"
  v_scrambled :: bool
  v_saved_error :: rmf_Error
  v_cache :: rmf_OobSiCache

text \<open>The fields of one channel record as the locals hold them when the record has been read.\<close>

record vcm_channel =
  ch_number :: "16 word"
  ch_application :: bool
  ch_non_mpeg :: bool
  ch_type :: "16 word"
  ch_source_id :: "16 word"
  ch_cds :: byte
  ch_program :: "16 word"
  ch_mms :: byte
  ch_scrambled :: bool
  ch_video_standard :: "16 word"

text \<open>
  The channel record of six octets and the MPEG-2 or non-MPEG-2 structure of three behind it; the
  error is \<open>svct_error\<close> (30, 32, 33 or 35), a later one overwriting an earlier one.
\<close>

definition vcm_channel_fields ::
  "byte list \<Rightarrow> vcm_state \<Rightarrow> (rmf_Error \<times> vcm_channel) option" where
  "vcm_channel_fields buf st =
     do { let p = v_pos st;
          octet1 \<leftarrow> rd buf p; octet2 \<leftarrow> rd buf (p + 1); octet3 \<leftarrow> rd buf (p + 2);
          octet4 \<leftarrow> rd buf (p + 3); octet5 \<leftarrow> rd buf (p + 4); cds_reference \<leftarrow> rd buf (p + 5);
          let application = (TESTBITS octet3 8 8 \<noteq> 0);
          let non_mpeg = (TESTBITS octet3 5 5 \<noteq> 0);
          let source_id = be16 octet4 octet5;
          let e = (if application \<and> source_id = 0 then 30 else NO_PARSING_ERROR);
          let e = (if \<not> non_mpeg \<and> cds_reference = 0 then 32 else e);
          let ch = \<lparr>ch_number = ucast (be12 octet1 octet2), ch_application = application,
                    ch_non_mpeg = non_mpeg, ch_type = ucast (GETBITS octet3 4 1),
                    ch_source_id = source_id, ch_cds = cds_reference,
                    ch_program = (if non_mpeg then 0 else v_program_number st),
                    ch_mms = (if non_mpeg then 0 else v_mms_reference st),
                    ch_scrambled = v_scrambled st, ch_video_standard = v_video_standard st\<rparr>;
          if \<not> non_mpeg then
            do { program1 \<leftarrow> rd buf (p + 6); program2 \<leftarrow> rd buf (p + 7); mms \<leftarrow> rd buf (p + 8);
                 Some (if mms = 0 then 33 else e, ch\<lparr>ch_program := be16 program1 program2, ch_mms := mms\<rparr>) }
          else
            do { video \<leftarrow> rd buf (p + 6);
                 let video_standard = (ucast (GETBITS video 4 1) :: 16 word);
                 zeroes2 \<leftarrow> rd buf (p + 7);
                 _ \<leftarrow> (if zeroes2 = 0 then rd buf (p + 8) else Some zeroes2);
                 Some (if video_standard > MAC_VIDEO_STANDARD then 35 else e,
                       ch\<lparr>ch_scrambled := (TESTBITS video 8 8 \<noteq> 0 \<or> v_scrambled st),
                          ch_video_standard := video_standard\<rparr>) } }"

text \<open>
  The update of the service entry of one channel, between \<open>LockForWrite\<close> and \<open>ReleaseWriteLock\<close>.
  First the channel map and DAC ids that two reserved source ids carry.
\<close>

definition vcm_reserved_ids :: "vcm_channel \<Rightarrow> rmf_OobSiCache \<Rightarrow> rmf_OobSiCache" where
  "vcm_reserved_ids ch c =
     (if ch_number ch \<noteq> 0 then
        if ch_source_id ch = CHMAP_SOURCEID then
          if ch_number ch \<noteq> ChannelMapId c
          then gz_call RMF_OOBSI_GLI_CHANNELMAP_ID_CHANGED (ch_number ch)
                 (if IsSIFullyAcquired c then 1 else 0) (SetChannelMapId (ch_number ch) c)
          else c
        else if ch_source_id ch = DAC_SOURCEID then
          if ch_number ch \<noteq> DACId c
          then gz_call RMF_OOBSI_GLI_DAC_ID_CHANGED (ch_number ch) 0 (SetDACId (ch_number ch) c)
          else c
        else c
      else c)"

text \<open>An entry that is mapped already: its state is written back when it held another service.\<close>

definition vcm_remap :: "vcm_channel \<Rightarrow> rmf_SiServiceHandle \<Rightarrow> rmf_OobSiCache \<Rightarrow> rmf_OobSiCache option" where
  "vcm_remap ch h c =
     do { si_state \<leftarrow> GetServiceEntryState h 0 c;
          if si_state AND SIENTRY_MAPPED = SIENTRY_MAPPED then
            do { (_, tmpSourceId) \<leftarrow> GetSourceIdForServiceHandle h 0 c;
                 (_, tmp_app_id) \<leftarrow> GetAppIdForServiceHandle h 0 c;
                 (_, tmp_prog_num) \<leftarrow> GetProgramNumberForServiceHandle h 0 c;
                 if (ch_application ch \<and> tmp_app_id \<noteq> ucast (ch_source_id ch)) \<or>
                    (\<not> ch_application ch \<and> ch_number ch = 0 \<and>
                     (tmpSourceId \<noteq> ucast (ch_source_id ch) \<or> tmp_prog_num \<noteq> ucast (ch_program ch)))
                 then SetServiceEntryState h si_state c else Some c }
          else Some c }"

definition vcm_store :: "32 word \<Rightarrow> vcm_channel \<Rightarrow> rmf_OobSiCache \<Rightarrow> rmf_OobSiCache option" where
  "vcm_store act_time ch c =
     (case GetServiceEntryFromChannelNumber (ch_number ch) RMF_SI_INVALID_HANDLE c of (h, c) \<Rightarrow>
        if h = RMF_SI_INVALID_HANDLE then Some c
        else do {
          c \<leftarrow> vcm_remap ch h c;
          c \<leftarrow> (if \<not> ch_application ch
                then map_option (vcm_reserved_ids ch) (SetSourceId h (ucast (ch_source_id ch)) c)
                else SetAppId h (ucast (ch_source_id ch)) c);
          c \<leftarrow> SetAppType h (ch_application ch) c;
          c \<leftarrow> SetActivationTime h act_time c;
          (_, c) \<leftarrow> SetChannelNumber h (ucast (ch_number ch)) RMF_SI_DEFAULT_CHANNEL_NUMBER c;
          c \<leftarrow> SetCDSRef h (ch_cds ch) c;
          c \<leftarrow> SetMMSRef h (ch_mms ch) c;
          c \<leftarrow> SetChannelType h (ucast (ch_type ch)) c;
          c \<leftarrow> SetProgramNumber h (ucast (ch_program ch)) c;
          c \<leftarrow> SetTransportType h (if ch_non_mpeg ch then 1 else 0) c;
          c \<leftarrow> SetScrambled h (ch_scrambled ch) c;
          c \<leftarrow> (if ch_non_mpeg ch then SetVideoStandard h (ch_video_standard ch) c
                else SetServiceType h RMF_SI_SERVICE_TYPE_UNKNOWN c);
          SetServiceEntryStateMapped h c })"

text \<open>
  One round of the record loop. The first component is nonzero when the round ends the loop by
  \<open>break\<close> (37, 38: the section length is used up; 40: a descriptor runs past it).
\<close>

definition vcm_record ::
  "bool \<Rightarrow> 32 word \<Rightarrow> byte list \<Rightarrow> vcm_state \<Rightarrow> (rmf_Error \<times> vcm_state) option" where
  "vcm_record descriptors_included act_time buf st =
     do { (svct_error, ch) \<leftarrow> vcm_channel_fields buf st;
          let p = v_pos st + 9;
          let sl = v_len st - 6 - 3;
          let st = st\<lparr>v_pos := p, v_len := sl, v_program_number := ch_program ch,
                      v_mms_reference := ch_mms ch, v_video_standard := ch_video_standard ch,
                      v_scrambled := ch_scrambled ch\<rparr>;
          if sint sl < 0 then Some (37, st)
          else if sint sl = 0 \<and> descriptors_included then Some (38, st)
          else do {
            (svct_error, p, sl) \<leftarrow>
              (if descriptors_included then
                 do { descriptor_count \<leftarrow> rd buf p;
                      (neg, p, sl) \<leftarrow> skip_descriptors (unat descriptor_count) buf (p + 1) (sl - 1);
                      Some (if neg then 40 else svct_error, p, sl) }
               else Some (svct_error, p, sl));
            let st = st\<lparr>v_pos := p, v_len := sl\<rparr>;
            if svct_error = NO_PARSING_ERROR then
              do { c \<leftarrow> vcm_store act_time ch (v_cache st);
                   Some (NO_PARSING_ERROR, st\<lparr>v_cache := c\<rparr>) }
            else Some (if svct_error = 40 then 40 else NO_PARSING_ERROR,
                       st\<lparr>v_saved_error := svct_error\<rparr>) } }"

definition parseVCMStructure ::
  "byte list \<Rightarrow> nat \<Rightarrow> 32 word \<Rightarrow> rmf_OobSiCache \<Rightarrow> (rmf_Error \<times> nat \<times> 32 word \<times> rmf_OobSiCache) option" where
  "parseVCMStructure buf p sl c =
     do { octet1 \<leftarrow> rd buf p; octet2 \<leftarrow> rd buf (p + 1);
          act_time \<leftarrow> read_be32 buf (p + 2);
          number_of_vc_records \<leftarrow> rd buf (p + 6);
          let descriptors_included = (TESTBITS octet1 6 6 \<noteq> 0);
          let svct_error = (if number_of_vc_records = 0 then 24 else NO_PARSING_ERROR);
          let svct_error = (if sint (sl - 7) \<le> 0 then 25 else svct_error);
          let st = \<lparr>v_pos = p + 7, v_len = sl - 7, v_program_number = 0, v_mms_reference = 0,
                    v_video_standard = 0, v_scrambled = False, v_saved_error = NO_PARSING_ERROR,
                    v_cache = c\<rparr>;
          (_, st) \<leftarrow> (if svct_error = NO_PARSING_ERROR
                       then record_loop (vcm_record descriptors_included act_time buf)
                              (unat number_of_vc_records) st
                       else Some (NO_PARSING_ERROR, st));
          Some (v_saved_error st, v_pos st, v_len st, v_cache st) }"

section \<open>The defined channels map\<close>

text \<open>\<open>for (j = 0; j < channels_count; j++)\<close> over \<open>virtual_channel\<close> and \<open>si_database_handle\<close>.\<close>

fun dcm_channels ::
  "nat \<Rightarrow> bool \<Rightarrow> 16 word \<Rightarrow> rmf_SiServiceHandle \<Rightarrow> rmf_OobSiCache \<Rightarrow>
   (16 word \<times> rmf_SiServiceHandle \<times> rmf_OobSiCache) option" where
  "dcm_channels 0 range_defined virtual_channel h c = Some (virtual_channel, h, c)"
| "dcm_channels (Suc n) range_defined virtual_channel h c =
     (case GetServiceEntryFromChannelNumber virtual_channel h c of (h, c) \<Rightarrow>
        do { c \<leftarrow> (if range_defined
                   then map_option (SetServiceEntriesStateDefined virtual_channel)
                          (SetServiceEntryStateDefined h c)
                   else map_option (SetServiceEntriesStateUnDefined virtual_channel)
                          (SetServiceEntryStateUnDefined h c));
             dcm_channels n range_defined (virtual_channel + 1) h c })"

text \<open>\<open>do ... while (dcm_data_length != 0)\<close>, entered with a nonzero \<open>dcm_data_length\<close>.\<close>

fun dcm_ranges ::
  "nat \<Rightarrow> byte list \<Rightarrow> nat \<Rightarrow> 32 word \<Rightarrow> 16 word \<Rightarrow> rmf_SiServiceHandle \<Rightarrow> rmf_OobSiCache \<Rightarrow>
   (nat \<times> 32 word \<times> rmf_OobSiCache) option" where
  "dcm_ranges 0 buf p sl virtual_channel h c = Some (p, sl, c)"
| "dcm_ranges (Suc dcm_data_length) buf p sl virtual_channel h c =
     do { channel_count \<leftarrow> rd buf p;
          (virtual_channel, h, c) \<leftarrow>
            dcm_channels (unat (GETBITS channel_count 7 1)) (TESTBITS channel_count 8 8 \<noteq> 0)
              virtual_channel h c;
          dcm_ranges dcm_data_length buf (p + 1) (sl - 1) virtual_channel h c }"

definition parseDCMStructure ::
  "byte list \<Rightarrow> nat \<Rightarrow> 32 word \<Rightarrow> rmf_OobSiCache \<Rightarrow> (rmf_Error \<times> nat \<times> 32 word \<times> rmf_OobSiCache) option" where
  "parseDCMStructure buf p sl c =
     do { octet1 \<leftarrow> rd buf p; octet2 \<leftarrow> rd buf (p + 1); dcm_data_length \<leftarrow> rd buf (p + 2);
          let first_virtual_channel = (ucast (be12 octet1 octet2) :: 16 word);
          let svct_error = (if dcm_data_length = 0 then 24 else NO_PARSING_ERROR);
          let svct_error = (if sint (sl - 3) \<le> 0 then 25 else svct_error);
          if svct_error = NO_PARSING_ERROR then
            do { (p, sl, c) \<leftarrow> dcm_ranges (unat dcm_data_length) buf (p + 3) (sl - 3)
                                 first_virtual_channel 0 c;
                 Some (NO_PARSING_ERROR, p, sl, c) }
          else Some (svct_error, p + 3, sl - 3, c) }"

section \<open>The table\<close>

record svct_header =
  sh_error :: rmf_Error
  sh_section_length :: "32 word"
  sh_table_subtype :: "16 word"
  sh_vct_id :: "16 word"

definition parse_svct_header :: "byte list \<Rightarrow> svct_header option" where
  "parse_svct_header buf =
     do { table_id \<leftarrow> rd buf 0; octet2 \<leftarrow> rd buf 1; octet3 \<leftarrow> rd buf 2; protocol_version \<leftarrow> rd buf 3;
          octet5 \<leftarrow> rd buf 4; octet6 \<leftarrow> rd buf 5; octet7 \<leftarrow> rd buf 6;
          let e = (if table_id \<noteq> SF_VIRTUAL_CHANNEL_TABLE_ID then 2 else NO_PARSING_ERROR);
          let e = (if TESTBITS octet5 8 5 \<noteq> 0 then 9 else e);
          let table_subtype = (ucast (GETBITS octet5 4 1) :: 16 word);
          let e = (if table_subtype > INVERSE_CHANNEL_MAP then 10 else e);
          let sl = be12 octet2 octet3 - (7 - 3);
          let e = (if e = NO_PARSING_ERROR \<and> sint sl < 4 then 11 else e);
          Some \<lparr>sh_error = e, sh_section_length = sl, sh_table_subtype = table_subtype,
                sh_vct_id = be16 octet6 octet7\<rparr> }"

text \<open>\<open>static uint16_t prev_vct_id\<close> is a field of the parser.\<close>

definition svct_vct_id :: "16 word \<Rightarrow> rmf_OobSiParser \<Rightarrow> rmf_OobSiParser" where
  "svct_vct_id vct_id P =
     (if vct_id \<noteq> prev_vct_id P
      then P\<lparr>prev_vct_id := vct_id,
             m_pSiCache := gz_call RMF_OOBSI_GLI_VCT_ID_CHANGED vct_id
               (if IsSIFullyAcquired (m_pSiCache P) then 1 else 0) (SetVCTId vct_id (m_pSiCache P))\<rparr>
      else P)"

definition parseAndUpdateSVCT ::
  "byte list \<Rightarrow> 32 word \<Rightarrow> table_out \<Rightarrow> rmf_OobSiParser \<Rightarrow>
   (rmf_Error \<times> table_out \<times> rmf_OobSiParser) option" where
  "parseAndUpdateSVCT input_buffer section_handle out P =
     do { (retCode, buf, n, sf) \<leftarrow>
            ReadSection (m_pSectionFilter P) section_handle 0 7 0 input_buffer;
          let P = P\<lparr>m_pSectionFilter := sf\<rparr>;
          if retCode \<noteq> RMF_SUCCESS \<or> n \<noteq> Some 7 then Some (1, out, P)
          else do {
            h \<leftarrow> parse_svct_header buf;
            let P = svct_vct_id (sh_vct_id h) P;
            let sl = sh_section_length h;
            if sh_error h = NO_PARSING_ERROR then
              do { (retCode, buf, n, sf) \<leftarrow> ReadSection (m_pSectionFilter P) section_handle 7 sl 0 buf;
                   let P = P\<lparr>m_pSectionFilter := sf\<rparr>;
                   if retCode \<noteq> RMF_SUCCESS \<or> n \<noteq> Some sl then Some (12, out, P)
                   else do {
                     (svct_error, p, sl, c) \<leftarrow>
                       (if sh_table_subtype h = 0 then parseVCMStructure buf 0 sl (m_pSiCache P)
                        else if sh_table_subtype h = 1 then parseDCMStructure buf 0 sl (m_pSiCache P)
                        else Some (13, 0, sl, m_pSiCache P));
                     (svct_error, out) \<leftarrow> table_tail buf p sl svct_error out;
                     Some (svct_error, out, P\<lparr>m_pSiCache := c\<rparr>) } }
            else do { (svct_error, out) \<leftarrow> table_tail buf 7 sl (sh_error h) out;
                      Some (svct_error, out, P) } } }"

section \<open>The effect of one channel\<close>

text \<open>What a channel record means for the entry of its channel.\<close>

definition vcm_entry :: "32 word \<Rightarrow> vcm_channel \<Rightarrow> rmf_SiTableEntry \<Rightarrow> rmf_SiTableEntry" where
  "vcm_entry t ch e =
     e\<lparr>source_id := if ch_application ch then SOURCEID_UNKNOWN else ucast (ch_source_id ch),
       app_id := if ch_application ch then ucast (ch_source_id ch) else app_id e,
       isAppType := ch_application ch, activation_time := t,
       major_channel_number := ucast (ch_number ch),
       minor_channel_number := RMF_SI_DEFAULT_CHANNEL_NUMBER,
       freq_index := ch_cds ch, mode_index := ch_mms ch, channel_type := ucast (ch_type ch),
       program_number := ch_program ch, transport_type := if ch_non_mpeg ch then 1 else 0,
       scrambled := ch_scrambled ch,
       video_standard := if ch_non_mpeg ch then ch_video_standard ch else video_standard e,
       service_type := if ch_non_mpeg ch then service_type e else RMF_SI_SERVICE_TYPE_UNKNOWN,
       entry_state := entry_state e OR SIENTRY_MAPPED\<rparr>"

definition vcm_apply :: "32 word \<Rightarrow> vcm_channel \<Rightarrow> rmf_OobSiCache \<Rightarrow> rmf_OobSiCache" where
  "vcm_apply t ch c =
     (case GetServiceEntryFromChannelNumber (ch_number ch) RMF_SI_INVALID_HANDLE c of (h, c) \<Rightarrow>
        if h = RMF_SI_INVALID_HANDLE then c
        else put_entry h (vcm_entry t ch) (if ch_application ch then c else vcm_reserved_ids ch c))"

lemma vcm_reserved_ids_put:
  "vcm_reserved_ids ch (put_entry h f c) = put_entry h f (vcm_reserved_ids ch c)"
  by (simp add: vcm_reserved_ids_def put_entry_def gz_call_def SetChannelMapId_def SetDACId_def
      IsSIFullyAcquired_def)

lemma vcm_reserved_ids_frame [simp]:
  "g_si_entry (vcm_reserved_ids ch c) = g_si_entry c" "alloc_cnt (vcm_reserved_ids ch c) = alloc_cnt c"
  "alloc_ok (vcm_reserved_ids ch c) = alloc_ok c"
  "g_frequency (vcm_reserved_ids ch c) = g_frequency c" "g_mode (vcm_reserved_ids ch c) = g_mode c"
  "handles (vcm_reserved_ids ch c) = handles c" "get_entry (vcm_reserved_ids ch c) k = get_entry c k"
  "cache_wf (vcm_reserved_ids ch c) = cache_wf c"
  by (simp_all add: vcm_reserved_ids_def SetChannelMapId_def SetDACId_def handles_def get_entry_def cache_wf_def)

lemma vcm_remap_id:
  assumes "cache_wf c" "h \<in> handles c"
  shows "vcm_remap ch h c = Some c"
proof -
  from assms(2) obtain e where e: "get_entry c h = Some e" by (auto simp: get_entry_handles)
  have "SetServiceEntryState h (entry_state e) c = Some c"
    using assms e by (simp add: set_entry_state.setter_put put_entry_id)
  with cache_wf_handle_pos[OF assms] e show ?thesis
    by (simp add: vcm_remap_def GetServiceEntryState_def GetSourceIdForServiceHandle_def
        GetAppIdForServiceHandle_def GetProgramNumberForServiceHandle_def split: option.splits)
qed

lemma unat_ucast_le: "(w :: 16 word) \<le> 4095 \<Longrightarrow> (ucast w :: 32 word) \<le> 4095"
  by (simp add: word_le_nat_alt)

lemma vcm_store_handle:
  assumes wf: "cache_wf c" and h: "h \<in> handles c" and n: "ch_number ch \<le> 4095"
    and g: "GetServiceEntryFromChannelNumber (ch_number ch) 0 c0 = (h, c)"
  shows "vcm_store t ch c0 =
    Some (put_entry h (vcm_entry t ch) (if ch_application ch then c else vcm_reserved_ids ch c))"
proof -
  have 0: "h \<noteq> 0" by (rule cache_wf_handle_pos[OF wf h])
  note puts = setter_puts SetAppId_put SetProgramNumber_put SetChannelNumber_put vcm_remap_id
    vcm_reserved_ids_put unat_ucast_le
  show ?thesis
    using wf h n 0 unfolding vcm_store_def g
    by (cases "ch_application ch"; cases "ch_non_mpeg ch")
      (simp_all add: puts,
       (intro arg_cong[where f = "\<lambda>f. put_entry h f _"] ext rmf_SiTableEntry.equality; simp add: vcm_entry_def)+)
qed

lemma GetServiceEntry_cases:
  assumes wf: "cache_wf c" and n: "n \<le> 4095"
    and res: "GetServiceEntryFromChannelNumber n h c = (a, c')"
  shows "cache_wf c' \<and> (a \<noteq> 0 \<longrightarrow> a \<in> handles c') \<and> alloc_ok c' = alloc_ok c"
proof -
  from n have nn: "\<not> n > 4095" by simp
  show ?thesis
  proof (cases "find_channel n (g_si_entry c)")
    case (Some b)
    with res nn have eq: "c' = c" "a = b" by (simp_all add: GetServiceEntryFromChannelNumber_def)
    from find_channel_Some[OF Some] have "b \<in> handles c" by (force simp: handles_def)
    with wf eq show ?thesis by simp
  next
    case None
    show ?thesis
    proof (cases "alloc_ok c (alloc_cnt c)")
      case True
      with None res nn have "a \<noteq> 0" "alloc_ok c' = alloc_ok c"
        by (auto simp: GetServiceEntryFromChannelNumber_def memAllocP_def)
      with GetServiceEntry_spec[OF wf n res] show ?thesis by simp
    next
      case False
      with None res nn have "a = 0" "c' = c\<lparr>alloc_cnt := Suc (alloc_cnt c)\<rparr>"
        by (simp_all add: GetServiceEntryFromChannelNumber_def memAllocP_def)
      with wf show ?thesis by (auto simp: cache_wf_def intro: le_SucI)
    qed
  qed
qed

lemma vcm_store_eq:
  assumes wf: "cache_wf c" and n: "ch_number ch \<le> 4095"
  shows "vcm_store t ch c = Some (vcm_apply t ch c)" "cache_wf (vcm_apply t ch c)"
proof -
  obtain h c1 where g: "GetServiceEntryFromChannelNumber (ch_number ch) 0 c = (h, c1)" by (rule prod.exhaust)
  note k = GetServiceEntry_cases[OF wf n g]
  show "vcm_store t ch c = Some (vcm_apply t ch c)"
  proof (cases "h = 0")
    case True
    then show ?thesis by (simp add: vcm_store_def vcm_apply_def g)
  next
    case False
    with vcm_store_handle[OF _ _ n g, of t] k show ?thesis by (simp add: vcm_apply_def g)
  qed
  show "cache_wf (vcm_apply t ch c)" using k by (simp add: vcm_apply_def g)
qed

section \<open>Encoded channel maps\<close>

record vc_entry =
  vc_number :: nat
  vc_application :: bool
  vc_path2 :: bool
  vc_non_mpeg :: bool
  vc_type :: nat
  vc_source :: nat
  vc_cds :: byte
  vc_program :: nat
  vc_mms :: byte
  vc_scrambled :: bool
  vc_video :: nat
  vc_descriptors :: "descriptor list"

definition enc_vc_fixed :: "vc_entry \<Rightarrow> byte list" where
  "enc_vc_fixed r =
     [word_of_nat (vc_number r div 256), word_of_nat (vc_number r mod 256),
      word_of_nat (128 * of_bool (vc_application r) + 32 * of_bool (vc_path2 r)
                   + 16 * of_bool (vc_non_mpeg r) + vc_type r),
      word_of_nat (vc_source r div 256), word_of_nat (vc_source r mod 256), vc_cds r]
     @ (if vc_non_mpeg r then [word_of_nat (128 * of_bool (vc_scrambled r) + vc_video r), 0, 0]
        else [word_of_nat (vc_program r div 256), word_of_nat (vc_program r mod 256), vc_mms r])"

definition enc_vc :: "bool \<Rightarrow> vc_entry \<Rightarrow> byte list" where
  "enc_vc di r = enc_vc_fixed r
     @ (if di then word_of_nat (length (vc_descriptors r)) # enc_descriptors (vc_descriptors r) else [])"

definition vc_ok :: "vc_entry \<Rightarrow> bool" where
  "vc_ok r \<longleftrightarrow> vc_number r < 4096 \<and> vc_type r < 16 \<and> vc_source r < 65536 \<and>
     (vc_application r \<longrightarrow> vc_source r \<noteq> 0) \<and>
     (if vc_non_mpeg r then vc_video r \<le> 4 else vc_cds r \<noteq> 0 \<and> vc_mms r \<noteq> 0 \<and> vc_program r < 65536) \<and>
     length (vc_descriptors r) < 256 \<and> list_all descriptor_ok (vc_descriptors r)"

text \<open>
  The channel the parser stores for the record: \<open>scrambled\<close> is set by a record and never cleared,
  and an MPEG-2 record inherits it with \<open>video_standard\<close> from the records before.
\<close>

definition vc_channel :: "vc_entry \<Rightarrow> bool \<Rightarrow> 16 word \<Rightarrow> vcm_channel" where
  "vc_channel r scr video =
     \<lparr>ch_number = word_of_nat (vc_number r), ch_application = vc_application r, ch_non_mpeg = vc_non_mpeg r,
      ch_type = word_of_nat (vc_type r), ch_source_id = word_of_nat (vc_source r), ch_cds = vc_cds r,
      ch_program = (if vc_non_mpeg r then 0 else word_of_nat (vc_program r)),
      ch_mms = (if vc_non_mpeg r then 0 else vc_mms r),
      ch_scrambled = (if vc_non_mpeg r then vc_scrambled r \<or> scr else scr),
      ch_video_standard = (if vc_non_mpeg r then word_of_nat (vc_video r) else video)\<rparr>"

lemma octet_fields:
  assumes "t < 16"
  shows "unat (word_of_nat (128 * of_bool a + 32 * of_bool b + 16 * of_bool c + t) :: byte)
      = 128 * of_bool a + 32 * of_bool b + 16 * of_bool c + t"
    and "TESTBITS (word_of_nat (128 * of_bool a + 32 * of_bool b + 16 * of_bool c + t)) 8 8 \<noteq> 0 \<longleftrightarrow> a"
    and "TESTBITS (word_of_nat (128 * of_bool a + 32 * of_bool b + 16 * of_bool c + t)) 5 5 \<noteq> 0 \<longleftrightarrow> c"
    and "GETBITS (word_of_nat (128 * of_bool a + 32 * of_bool b + 16 * of_bool c + t)) 4 1 = word_of_nat t"
proof -
  let ?n = "128 * of_bool a + 32 * of_bool b + 16 * of_bool c + t"
  show u: "unat (word_of_nat ?n :: byte) = ?n"
    by (rule unat_of_nat_byte) (use assms in \<open>cases a; cases b; cases c; simp\<close>)
  define k :: nat where "k = 8 * of_bool a + 2 * of_bool b + of_bool c"
  have n: "?n = t + 16 * k" by (simp add: k_def)
  have k: "?n div 16 = k" "?n mod 16 = t" unfolding n using assms by simp_all
  have "?n div 128 = ?n div 16 div 8" by (simp flip: div_mult2_eq)
  then have m: "?n div 128 mod 2 = of_bool a" "?n div 16 mod 2 = of_bool c" "?n mod 16 = t"
    unfolding k by (simp_all add: k_def split: bool.splits)
  show "TESTBITS (word_of_nat ?n) 8 8 \<noteq> 0 \<longleftrightarrow> a" "TESTBITS (word_of_nat ?n) 5 5 \<noteq> 0 \<longleftrightarrow> c"
    by (subst TESTBITS_eq_0; simp only: u; simp add: m)+
  have "unat (GETBITS (word_of_nat ?n) 4 1) = t" by (subst unat_GETBITS; simp only: u; simp add: m)
  then show "GETBITS (word_of_nat ?n) 4 1 = word_of_nat t" by (metis of_nat_unat ucast_id)
qed

lemma be12_of_nat:
  "n < 4096 \<Longrightarrow> ucast (be12 (word_of_nat (n div 256)) (word_of_nat (n mod 256))) = (word_of_nat n :: 16 word)"
proof -
  assume n: "n < 4096"
  then have "unat (be12 (word_of_nat (n div 256)) (word_of_nat (n mod 256))) = n"
    by (simp add: unat_be12)
  then have "be12 (word_of_nat (n div 256)) (word_of_nat (n mod 256)) = word_of_nat n"
    by (metis of_nat_unat ucast_id)
  with n show ?thesis
    by (intro word_unat_eq_iff[THEN iffD2]) (simp add: unsigned_ucast_eq take_bit_eq_mod unat_of_nat)
qed

lemma ucast_of_nat_32_16: "n < 65536 \<Longrightarrow> ucast (word_of_nat n :: 32 word) = (word_of_nat n :: 16 word)"
  by (intro word_unat_eq_iff[THEN iffD2]) (simp add: unsigned_ucast_eq take_bit_eq_mod unat_of_nat)

lemma of_nat_16_eq_zero: "n < 65536 \<Longrightarrow> (word_of_nat n :: 16 word) = 0 \<longleftrightarrow> n = 0"
  by (simp add: word_unat_eq_iff unat_of_nat)

lemma vcm_channel_fields_enc:
  assumes ok: "vc_ok r" and buf: "holds_at buf (v_pos st) (enc_vc_fixed r)"
  shows "vcm_channel_fields buf st = Some (NO_PARSING_ERROR, vc_channel r (v_scrambled st) (v_video_standard st))"
proof -
  have src: "be16 (word_of_nat (vc_source r div 256)) (word_of_nat (vc_source r mod 256)) = word_of_nat (vc_source r)"
    and num: "ucast (be12 (word_of_nat (vc_number r div 256)) (word_of_nat (vc_number r mod 256))) = (word_of_nat (vc_number r) :: 16 word)"
    and t: "vc_type r < 16" and src0: "vc_application r \<Longrightarrow> (word_of_nat (vc_source r) :: 16 word) \<noteq> 0"
    using ok by (simp_all add: vc_ok_def be16_of_nat be12_of_nat of_nat_16_eq_zero)
  note o3 = octet_fields(2-4)[OF t, of "vc_application r" "vc_path2 r" "vc_non_mpeg r"]
  have ty: "(ucast (word_of_nat (vc_type r) :: 32 word) :: 16 word) = word_of_nat (vc_type r)"
    using t by (simp add: ucast_of_nat_32_16)
  show ?thesis
  proof (cases "vc_non_mpeg r")
    case False
    have "be16 (word_of_nat (vc_program r div 256)) (word_of_nat (vc_program r mod 256)) = word_of_nat (vc_program r)"
      "vc_cds r \<noteq> 0" "vc_mms r \<noteq> 0"
      using ok False by (simp_all add: vc_ok_def be16_of_nat)
    with False buf src num o3 ty src0 show ?thesis
      unfolding enc_vc_fixed_def vcm_channel_fields_def
      by (simp only: if_False append_Cons append_Nil holds_at_9) (auto simp: Let_def vc_channel_def)
  next
    case True
    then have v: "vc_video r \<le> 4" using ok by (simp add: vc_ok_def)
    then have v16: "vc_video r < 16" by simp
    note o = octet_fields(2,4)[OF v16, of "vc_scrambled r" False False, simplified]
    have "(ucast (word_of_nat (vc_video r) :: 32 word) :: 16 word) = word_of_nat (vc_video r)"
      "\<not> (word_of_nat (vc_video r) :: 16 word) > 4"
      using v by (simp_all add: ucast_of_nat_32_16 word_less_nat_alt unat_of_nat)
    with True buf src num o3 ty src0 o show ?thesis
      unfolding enc_vc_fixed_def vcm_channel_fields_def
      by (simp only: if_True append_Cons append_Nil holds_at_9) (auto simp: Let_def vc_channel_def)
  qed
qed

definition vc_ready :: "bool \<Rightarrow> vc_entry \<Rightarrow> vcm_state \<Rightarrow> bool" where
  "vc_ready di r st \<longleftrightarrow> vc_ok r \<and> cache_wf (v_cache st) \<and>
     length (enc_vc di r) \<le> unat (v_len st) \<and> unat (v_len st) < 2 ^ 31"

definition vc_post :: "bool \<Rightarrow> 32 word \<Rightarrow> vc_entry \<Rightarrow> vcm_state \<Rightarrow> vcm_state" where
  "vc_post di t r st =
     (let ch = vc_channel r (v_scrambled st) (v_video_standard st)
      in st\<lparr>v_pos := v_pos st + length (enc_vc di r), v_len := v_len st - word_of_nat (length (enc_vc di r)),
            v_program_number := ch_program ch, v_mms_reference := ch_mms ch,
            v_video_standard := ch_video_standard ch, v_scrambled := ch_scrambled ch,
            v_cache := vcm_apply t ch (v_cache st)\<rparr>)"

lemma unat_sub_numeral:
  "numeral k \<le> unat (sl :: 32 word) \<Longrightarrow> unat (numeral k :: 32 word) = numeral k \<Longrightarrow> unat (sl - numeral k) = unat sl - numeral k"
  using unat_sub_le[of "numeral k" sl] by simp

lemma vcm_record_enc:
  assumes ready: "vc_ready di r st" and buf: "holds_at buf (v_pos st) (enc_vc di r)"
  shows "vcm_record di t buf st = Some (NO_PARSING_ERROR, vc_post di t r st)"
proof -
  from ready have ok: "vc_ok r" and wf: "cache_wf (v_cache st)" by (simp_all add: vc_ready_def)
  have fixed: "length (enc_vc_fixed r) = 9" by (simp add: enc_vc_fixed_def)
  have fields: "vcm_channel_fields buf st = Some (NO_PARSING_ERROR, vc_channel r (v_scrambled st) (v_video_standard st))"
    by (rule vcm_channel_fields_enc[OF ok]) (use buf in \<open>simp add: enc_vc_def\<close>)
  have "ch_number (vc_channel r (v_scrambled st) (v_video_standard st)) \<le> 4095"
    using ok by (simp add: vc_channel_def vc_ok_def word_le_nat_alt unat_of_nat)
  note store = vcm_store_eq(1)[OF wf this, of t]
  have len: "9 \<le> unat (v_len st)" "unat (v_len st) < 2 ^ 31"
    using ready fixed by (simp_all add: vc_ready_def enc_vc_def)
  then have sl: "unat (v_len st - 9) = unat (v_len st) - 9" by (simp add: unat_sub_numeral)
  then have nonneg: "\<not> sint (v_len st - 9) < 0" using len(2) by (simp add: sint_cmp)
  show ?thesis
  proof (cases di)
    case False
    with fields store nonneg show ?thesis
      by (simp add: vcm_record_def Let_def vc_post_def enc_vc_def fixed)
  next
    case True
    let ?D = "vc_descriptors r" let ?L = "length (enc_descriptors ?D)"
    have L: "10 + ?L \<le> unat (v_len st)" using ready fixed True by (simp add: vc_ready_def enc_vc_def)
    have n: "unat (word_of_nat (length ?D) :: byte) = length ?D" using ok by (simp add: vc_ok_def)
    have b: "rd buf (v_pos st + 9) = Some (word_of_nat (length ?D))"
      "holds_at buf (v_pos st + 10) (enc_descriptors ?D)"
      using buf True fixed by (simp_all add: enc_vc_def add.commute)
    have sl10: "unat (v_len st - 10) = unat (v_len st) - 10" using L by (simp add: unat_sub_numeral)
    have "skip_descriptors (length ?D) buf (v_pos st + 10) (v_len st - 10) =
        Some (False, v_pos st + 10 + ?L, v_len st - 10 - word_of_nat ?L)"
      by (rule skip_descriptors_enc) (use ok b L len sl10 in \<open>simp_all add: vc_ok_def\<close>)
    then have "skip_descriptors (length ?D) buf (v_pos st + 9 + 1) (v_len st - 6 - 3 - 1) =
        Some (False, v_pos st + 10 + ?L, v_len st - 10 - word_of_nat ?L)"
      by (simp add: add.commute)
    moreover have "sint (v_len st - 9) \<noteq> 0"
      using L sl sint_nonneg[of "v_len st - 9"] len(2) by linarith
    ultimately show ?thesis
      using fields store nonneg b(1) n True
      by (simp add: vcm_record_def Let_def vc_post_def enc_vc_def fixed)
  qed
qed

interpretation vcm: record_parser "vcm_record di t" "enc_vc di" "vc_ready di" "vc_post di t" v_pos v_len
  for di t
  by unfold_locales (simp_all add: vcm_record_enc, simp_all add: vc_post_def Let_def)

text \<open>What a list of channel records does to the cache.\<close>

fun vcm_apply_all :: "32 word \<Rightarrow> bool \<Rightarrow> 16 word \<Rightarrow> vc_entry list \<Rightarrow> rmf_OobSiCache \<Rightarrow> rmf_OobSiCache" where
  "vcm_apply_all t scr video [] c = c"
| "vcm_apply_all t scr video (r # rs) c =
     (let ch = vc_channel r scr video
      in vcm_apply_all t (ch_scrambled ch) (ch_video_standard ch) rs (vcm_apply t ch c))"

lemma vc_number_le: "vc_ok r \<Longrightarrow> ch_number (vc_channel r scr video) \<le> 4095"
  by (simp add: vc_channel_def vc_ok_def word_le_nat_alt unat_of_nat)

lemma vc_post_sel:
  "v_saved_error (vc_post di t r st) = v_saved_error st"
  "v_scrambled (vc_post di t r st) = ch_scrambled (vc_channel r (v_scrambled st) (v_video_standard st))"
  "v_video_standard (vc_post di t r st) = ch_video_standard (vc_channel r (v_scrambled st) (v_video_standard st))"
  "v_cache (vc_post di t r st) = vcm_apply t (vc_channel r (v_scrambled st) (v_video_standard st)) (v_cache st)"
  by (simp_all add: vc_post_def Let_def)

lemma vcm_along:
  assumes "list_all vc_ok rs" "cache_wf (v_cache st)"
    "length (concat (map (enc_vc di) rs)) \<le> unat (v_len st)" "unat (v_len st) < 2 ^ 31"
  shows "all_along (vc_ready di) (vc_post di t) rs st \<and>
    v_saved_error (fold (vc_post di t) rs st) = v_saved_error st \<and>
    v_cache (fold (vc_post di t) rs st) = vcm_apply_all t (v_scrambled st) (v_video_standard st) rs (v_cache st)"
  using assms
proof (induction rs arbitrary: st)
  case (Cons r rs)
  let ?s = "vc_post di t r st"
  have ready: "vc_ready di r st" using Cons.prems by (simp add: vc_ready_def)
  have "unat (v_len ?s) = unat (v_len st) - length (enc_vc di r)"
  proof -
    have "unat (word_of_nat (length (enc_vc di r)) :: 32 word) = length (enc_vc di r)"
      using Cons.prems(3,4) by (simp add: unat_of_nat)
    with Cons.prems(3) show ?thesis by (simp add: vc_post_def Let_def unat_sub_le)
  qed
  moreover have "cache_wf (v_cache ?s)"
    using Cons.prems vcm_store_eq(2)[OF Cons.prems(2) vc_number_le] by (simp add: vc_post_def Let_def)
  ultimately have "all_along (vc_ready di) (vc_post di t) rs ?s \<and>
    v_saved_error (fold (vc_post di t) rs ?s) = v_saved_error ?s \<and>
    v_cache (fold (vc_post di t) rs ?s) = vcm_apply_all t (v_scrambled ?s) (v_video_standard ?s) rs (v_cache ?s)"
    using Cons.IH[of ?s] Cons.prems by simp
  with ready show ?case by (simp add: vc_post_sel Let_def)
qed simp

record vcm_map =
  vm_descriptors_included :: bool
  vm_splice :: bool
  vm_activation_time :: "32 word"
  vm_channels :: "vc_entry list"

definition enc_vcm :: "vcm_map \<Rightarrow> byte list" where
  "enc_vcm m = [32 * of_bool (vm_descriptors_included m), 128 * of_bool (vm_splice m)]
     @ be32_bytes (vm_activation_time m) @ [word_of_nat (length (vm_channels m))]
     @ concat (map (enc_vc (vm_descriptors_included m)) (vm_channels m))"

definition vcm_ok :: "vcm_map \<Rightarrow> bool" where
  "vcm_ok m \<longleftrightarrow> vm_channels m \<noteq> [] \<and> length (vm_channels m) < 256 \<and> list_all vc_ok (vm_channels m)"

definition vcm_update :: "vcm_map \<Rightarrow> rmf_OobSiCache \<Rightarrow> rmf_OobSiCache" where
  "vcm_update m c = vcm_apply_all (vm_activation_time m) False 0 (vm_channels m) c"

lemma length_enc_vc_pos: "9 \<le> length (enc_vc di r)"
  by (simp add: enc_vc_def enc_vc_fixed_def)

lemma parseVCMStructure_enc:
  assumes m: "vcm_ok m" and wf: "cache_wf c" and buf: "holds_at buf p (enc_vcm m)"
    and sl: "length (enc_vcm m) \<le> unat sl" "unat sl < 2 ^ 31"
  shows "parseVCMStructure buf p sl c =
    Some (NO_PARSING_ERROR, p + length (enc_vcm m), sl - word_of_nat (length (enc_vcm m)), vcm_update m c)"
proof -
  let ?di = "vm_descriptors_included m" and ?t = "vm_activation_time m" and ?rs = "vm_channels m"
  let ?st = "\<lparr>v_pos = p + 7, v_len = sl - 7, v_program_number = 0, v_mms_reference = 0,
    v_video_standard = 0, v_scrambled = False, v_saved_error = NO_PARSING_ERROR, v_cache = c\<rparr>"
  let ?R = "concat (map (enc_vc ?di) ?rs)"
  have len: "length (enc_vcm m) = 7 + length ?R" by (simp add: enc_vcm_def)
  have pos: "9 \<le> length ?R"
    using m length_enc_vc_pos[of ?di "hd ?rs"] by (cases ?rs) (auto simp: vcm_ok_def)
  have b: "rd buf p = Some (32 * of_bool ?di)" "rd buf (p + 1) = Some (128 * of_bool (vm_splice m))"
    "holds_at buf (p + 2) (be32_bytes ?t)" "rd buf (p + 6) = Some (word_of_nat (length ?rs))"
    "holds_at buf (p + 7) ?R"
    using buf by (simp_all add: enc_vcm_def add.commute)
  have n: "unat (word_of_nat (length ?rs) :: byte) = length ?rs" "(word_of_nat (length ?rs) :: byte) \<noteq> 0"
    using m by (simp_all add: vcm_ok_def of_nat_byte_eq)
  have u: "unat (sl - 7) = unat sl - 7" using sl(1) len by (simp add: unat_sub_numeral)
  then have "\<not> sint (sl - 7) \<le> 0" using sl len pos by (simp add: sint_cmp)
  moreover have "TESTBITS (32 * of_bool ?di) 6 6 \<noteq> 0 \<longleftrightarrow> ?di" by (simp add: TESTBITS_def)
  moreover have al: "all_along (vc_ready ?di) (vc_post ?di ?t) ?rs ?st \<and>
      v_saved_error (fold (vc_post ?di ?t) ?rs ?st) = NO_PARSING_ERROR \<and>
      v_cache (fold (vc_post ?di ?t) ?rs ?st) = vcm_update m c"
    using vcm_along[of ?rs ?st ?di ?t] m wf sl len u by (simp add: vcm_ok_def vcm_update_def)
  moreover have "record_loop (vcm_record ?di ?t buf) (length ?rs) ?st =
      Some (NO_PARSING_ERROR, fold (vc_post ?di ?t) ?rs ?st)"
    by (rule vcm.loop_enc) (use al b(5) in simp_all)
  moreover have "v_pos (fold (vc_post ?di ?t) ?rs ?st) = p + 7 + length ?R"
    "v_len (fold (vc_post ?di ?t) ?rs ?st) = sl - 7 - word_of_nat (length ?R)"
    using vcm.loop_pos[of ?di ?t ?rs ?st] al by simp_all
  ultimately show ?thesis
    using b(1,2,4) n read_be32_crc[OF b(3)] by (simp add: parseVCMStructure_def Let_def len)
qed

section \<open>The effect of the defined channels map\<close>

definition dcm_state :: "bool \<Rightarrow> 32 word \<Rightarrow> 32 word" where
  "dcm_state d st = (if d then state_defined st else state_undefined st)"

definition dcm_mark :: "bool \<Rightarrow> 16 word \<Rightarrow> rmf_OobSiCache \<Rightarrow> rmf_OobSiCache" where
  "dcm_mark d v c =
     c\<lparr>g_si_entry := map (\<lambda>(a, e). (a, if virtual_channel_number e = v
                                        then e\<lparr>entry_state := dcm_state d (entry_state e)\<rparr> else e))
                       (g_si_entry c)\<rparr>"

text \<open>One channel: its entry is found or created, then every entry of the channel is marked.\<close>

definition dcm_apply :: "bool \<Rightarrow> 16 word \<Rightarrow> rmf_OobSiCache \<Rightarrow> rmf_OobSiCache" where
  "dcm_apply d v c = dcm_mark d v (snd (GetServiceEntryFromChannelNumber v RMF_SI_INVALID_HANDLE c))"

fun dcm_apply_all :: "nat \<Rightarrow> bool list \<Rightarrow> rmf_OobSiCache \<Rightarrow> rmf_OobSiCache" where
  "dcm_apply_all v [] c = c"
| "dcm_apply_all v (d # ds) c = dcm_apply_all (Suc v) ds (dcm_apply d (word_of_nat v) c)"

lemma dcm_state_bool: "dcm_state True = state_defined" "dcm_state False = state_undefined"
  by (simp_all add: dcm_state_def fun_eq_iff)

lemma dcm_state_idem [simp]: "dcm_state d (dcm_state d st) = dcm_state d st"
  by (rule bit_word_eqI) (auto simp: dcm_state_def state_defined_def state_undefined_def bit_simps)

lemma dcm_mark_put:
  assumes "cache_wf c" "get_entry c h = Some e" "virtual_channel_number e = v"
  shows "dcm_mark d v (put_entry h (\<lambda>e. e\<lparr>entry_state := dcm_state d (entry_state e)\<rparr>) c) = dcm_mark d v c"
proof -
  have "virtual_channel_number e' = v" if "(h, e') \<in> set (g_si_entry c)" for e'
    using that assms map_of_is_SomeI[of "g_si_entry c" h e'] by (simp add: cache_wf_def get_entry_def)
  then show ?thesis
    by (auto simp: dcm_mark_def put_entry_def
        intro!: arg_cong[where f = "\<lambda>es. c\<lparr>g_si_entry := es\<rparr>"] map_cong)
qed

lemma dcm_mark_frame [simp]:
  "handles (dcm_mark d v c) = handles c" "cache_wf (dcm_mark d v c) = cache_wf c"
  "alloc_ok (dcm_mark d v c) = alloc_ok c" "map fst (g_si_entry (dcm_mark d v c)) = map fst (g_si_entry c)"
proof -
  show h: "handles (dcm_mark d v c) = handles c" by (force simp: handles_def dcm_mark_def)
  show m: "map fst (g_si_entry (dcm_mark d v c)) = map fst (g_si_entry c)"
    by (simp add: dcm_mark_def split_beta comp_def)
  show "cache_wf (dcm_mark d v c) = cache_wf c"
    using h m by (simp add: cache_wf_def handles_def) (simp add: dcm_mark_def)
qed (simp add: dcm_mark_def)

lemma get_entry_dcm_mark:
  "get_entry (dcm_mark d v c) k = map_option (\<lambda>e. if virtual_channel_number e = v
     then e\<lparr>entry_state := dcm_state d (entry_state e)\<rparr> else e) (get_entry c k)"
proof -
  have "map_of (map (\<lambda>(a, e). (a, g e)) es) k = map_option g (map_of es k)"
    for es :: "(rmf_SiServiceHandle \<times> rmf_SiTableEntry) list" and g
    by (induction es) auto
  then show ?thesis by (simp add: get_entry_def dcm_mark_def)
qed

lemma find_channel_dcm_mark: "find_channel n (g_si_entry (dcm_mark d v c)) = find_channel n (g_si_entry c)"
proof -
  have "find_channel n (map (\<lambda>(a, e). (a, if virtual_channel_number e = v
      then e\<lparr>entry_state := dcm_state d (entry_state e)\<rparr> else e)) es) = find_channel n es" for es
    by (induction n es rule: find_channel.induct) auto
  then show ?thesis by (simp add: dcm_mark_def)
qed

lemma GetServiceEntry_handle_irrelevant:
  "n \<le> 4095 \<Longrightarrow> GetServiceEntryFromChannelNumber n h c = GetServiceEntryFromChannelNumber n 0 c"
  unfolding GetServiceEntryFromChannelNumber_def by (auto dest: leD)

lemma dcm_step:
  assumes wf: "cache_wf c" and v: "v \<le> 4095"
    and g: "GetServiceEntryFromChannelNumber v h c = (a, c1)"
  shows "(if d then map_option (SetServiceEntriesStateDefined v) (SetServiceEntryStateDefined a c1)
          else map_option (SetServiceEntriesStateUnDefined v) (SetServiceEntryStateUnDefined a c1)) =
    Some (dcm_apply d v c)" and "cache_wf (dcm_apply d v c)"
proof -
  have c1: "dcm_apply d v c = dcm_mark d v c1" for d
    using g GetServiceEntry_handle_irrelevant[OF v, of h c] by (simp add: dcm_apply_def)
  note k = GetServiceEntry_cases[OF wf v g]
  show "cache_wf (dcm_apply d v c)" using k by (simp add: c1)
  have ents: "SetServiceEntriesStateDefined v x = dcm_mark True v x"
    "SetServiceEntriesStateUnDefined v x = dcm_mark False v x" for x
    unfolding SetServiceEntriesStateDefined_def SetServiceEntriesStateUnDefined_def dcm_mark_def dcm_state_bool
    by (rule refl)+
  have mark: "dcm_mark d v (put_entry a (\<lambda>e. e\<lparr>entry_state := dcm_state d (entry_state e)\<rparr>) c1) = dcm_mark d v c1"
    if "a \<noteq> 0" for d
    using GetServiceEntry_spec[OF wf v g that] by (auto intro: dcm_mark_put)
  show "(if d then map_option (SetServiceEntriesStateDefined v) (SetServiceEntryStateDefined a c1)
          else map_option (SetServiceEntriesStateUnDefined v) (SetServiceEntryStateUnDefined a c1)) =
    Some (dcm_apply d v c)"
  proof (cases "a = 0")
    case True
    then show ?thesis
      by (cases d) (simp_all add: c1 ents set_defined.setter_ignored set_undefined.setter_ignored)
  next
    case False
    with k mark[of True] mark[of False] show ?thesis
      by (cases d) (simp_all add: c1 ents set_defined.setter_put set_undefined.setter_put dcm_state_bool)
  qed
qed

lemma of_nat_channel: "v < 4096 \<Longrightarrow> (word_of_nat v :: 16 word) \<le> 4095"
  by (simp add: word_le_nat_alt unat_of_nat)

lemma dcm_channels_eq:
  assumes "cache_wf c" "v + n \<le> 4096"
  shows "\<exists>h'. dcm_channels n d (word_of_nat v) h c =
    Some (word_of_nat (v + n), h', dcm_apply_all v (replicate n d) c) \<and>
    cache_wf (dcm_apply_all v (replicate n d) c)"
  using assms
proof (induction n arbitrary: v h c)
  case (Suc n)
  obtain a c1 where g: "GetServiceEntryFromChannelNumber (word_of_nat v) h c = (a, c1)" by (rule prod.exhaust)
  have v: "(word_of_nat v :: 16 word) \<le> 4095" using Suc.prems(2) by (simp add: of_nat_channel)
  note st = dcm_step[OF Suc.prems(1) v g]
  have "word_of_nat v + 1 = (word_of_nat (Suc v) :: 16 word)" by simp
  with Suc.IH[of "dcm_apply d (word_of_nat v) c" "Suc v" a] Suc.prems(2) st g show ?case
    by (simp add: algebra_simps)
qed simp

lemma dcm_apply_all_append:
  "dcm_apply_all v (ds @ es) c = dcm_apply_all (v + length ds) es (dcm_apply_all v ds c)"
  by (induction ds arbitrary: v c) simp_all

text \<open>Ranges of channels, each defined or undefined, and their octets.\<close>

definition enc_range :: "bool \<times> nat \<Rightarrow> byte" where
  "enc_range r = word_of_nat (128 * of_bool (fst r) + snd r)"

definition range_flags :: "(bool \<times> nat) list \<Rightarrow> bool list" where
  "range_flags rs = concat (map (\<lambda>(d, n). replicate n d) rs)"

lemma enc_range:
  assumes "n < 128"
  shows "unat (GETBITS (enc_range (d, n)) 7 1) = n" "TESTBITS (enc_range (d, n)) 8 8 \<noteq> 0 \<longleftrightarrow> d"
proof -
  have u: "unat (enc_range (d, n)) = 128 * of_bool d + n"
    using assms unfolding enc_range_def fst_conv snd_conv by (intro unat_of_nat_byte) (cases d; simp)
  show "unat (GETBITS (enc_range (d, n)) 7 1) = n"
    using assms by (subst unat_GETBITS; simp only: u; cases d; simp)
  show "TESTBITS (enc_range (d, n)) 8 8 \<noteq> 0 \<longleftrightarrow> d"
    using assms by (subst TESTBITS_eq_0; simp only: u; cases d; simp)
qed

lemma dcm_ranges_enc:
  assumes "cache_wf c" "list_all (\<lambda>r. snd r < 128) rs" "v + length (range_flags rs) \<le> 4096"
    and "holds_at buf p (map enc_range rs)"
  shows "dcm_ranges (length rs) buf p sl (word_of_nat v) h c =
    Some (p + length rs, sl - word_of_nat (length rs), dcm_apply_all v (range_flags rs) c)"
  using assms
proof (induction rs arbitrary: p sl v h c)
  case (Cons r rs)
  obtain d n where r: "r = (d, n)" by (cases r)
  from Cons.prems have n: "n < 128" "v + n \<le> 4096" by (simp_all add: r range_flags_def)
  let ?c = "dcm_apply_all v (replicate n d) c"
  obtain h' where ch: "dcm_channels n d (word_of_nat v) h c = Some (word_of_nat (v + n), h', ?c)"
    and wf: "cache_wf ?c"
    using dcm_channels_eq[OF Cons.prems(1) n(2), of d h] by auto
  have "dcm_ranges (length rs) buf (Suc p) (sl - 1) (word_of_nat (v + n)) h' ?c =
      Some (Suc p + length rs, sl - 1 - word_of_nat (length rs), dcm_apply_all (v + n) (range_flags rs) ?c)"
    by (rule Cons.IH[OF wf]) (use Cons.prems in \<open>simp_all add: r range_flags_def\<close>)
  with ch Cons.prems(4) enc_range[OF n(1), of d] show ?case
    by (simp add: r range_flags_def dcm_apply_all_append diff_diff_add)
qed (simp add: range_flags_def)

record dcm_map =
  dm_first :: nat
  dm_ranges :: "(bool \<times> nat) list"

definition enc_dcm :: "dcm_map \<Rightarrow> byte list" where
  "enc_dcm m = [word_of_nat (dm_first m div 256), word_of_nat (dm_first m mod 256),
     word_of_nat (length (dm_ranges m))] @ map enc_range (dm_ranges m)"

definition dcm_ok :: "dcm_map \<Rightarrow> bool" where
  "dcm_ok m \<longleftrightarrow> dm_ranges m \<noteq> [] \<and> length (dm_ranges m) < 256 \<and>
     list_all (\<lambda>r. snd r < 128) (dm_ranges m) \<and> dm_first m < 4096 \<and>
     dm_first m + length (range_flags (dm_ranges m)) \<le> 4096"

definition dcm_update :: "dcm_map \<Rightarrow> rmf_OobSiCache \<Rightarrow> rmf_OobSiCache" where
  "dcm_update m c = dcm_apply_all (dm_first m) (range_flags (dm_ranges m)) c"

lemma parseDCMStructure_enc:
  assumes m: "dcm_ok m" and wf: "cache_wf c" and buf: "holds_at buf p (enc_dcm m)"
    and sl: "length (enc_dcm m) \<le> unat sl" "unat sl < 2 ^ 31"
  shows "parseDCMStructure buf p sl c =
    Some (NO_PARSING_ERROR, p + length (enc_dcm m), sl - word_of_nat (length (enc_dcm m)), dcm_update m c)"
proof -
  have len: "length (enc_dcm m) = 3 + length (dm_ranges m)" by (simp add: enc_dcm_def)
  have pos: "0 < length (dm_ranges m)" using m by (simp add: dcm_ok_def)
  note b = buf[unfolded enc_dcm_def append_Cons append_Nil holds_at_3]
  have n: "unat (word_of_nat (length (dm_ranges m)) :: byte) = length (dm_ranges m)"
    "(word_of_nat (length (dm_ranges m)) :: byte) \<noteq> 0"
    "(ucast (be12 (word_of_nat (dm_first m div 256)) (word_of_nat (dm_first m mod 256))) :: 16 word) = word_of_nat (dm_first m)"
    using m pos by (simp_all add: dcm_ok_def of_nat_byte_eq be12_of_nat)
  have "unat (sl - 3) = unat sl - 3" using sl(1) len by (simp add: unat_sub_numeral)
  then have "\<not> sint (sl - 3) \<le> 0" using sl(2) pos sl(1)[unfolded len] by (simp add: sint_cmp del: length_greater_0_conv)
  moreover have "dcm_ranges (length (dm_ranges m)) buf (p + 3) (sl - 3) (word_of_nat (dm_first m)) 0 c =
      Some (p + 3 + length (dm_ranges m), sl - 3 - word_of_nat (length (dm_ranges m)), dcm_update m c)"
    unfolding dcm_update_def
    by (rule dcm_ranges_enc) (use m wf b in \<open>simp_all add: dcm_ok_def\<close>)
  ultimately show ?thesis
    using b[simplified] n by (simp add: parseDCMStructure_def Let_def len)
qed

section \<open>The encoded table\<close>

datatype svct_body = VCM vcm_map | DCM dcm_map

record svct_table =
  svct_vct :: nat
  svct_body :: svct_body
  svct_rest :: section_tail

definition enc_svct_body :: "svct_body \<Rightarrow> byte list" where
  "enc_svct_body b = (case b of VCM m \<Rightarrow> enc_vcm m | DCM m \<Rightarrow> enc_dcm m)"

definition svct_body_ok :: "svct_body \<Rightarrow> bool" where
  "svct_body_ok b = (case b of VCM m \<Rightarrow> vcm_ok m | DCM m \<Rightarrow> dcm_ok m)"

definition svct_subtype :: "svct_body \<Rightarrow> byte" where
  "svct_subtype b = (case b of VCM m \<Rightarrow> 0 | DCM m \<Rightarrow> 1)"

definition enc_svct :: "svct_table \<Rightarrow> byte list" where
  "enc_svct t =
     (let rest = enc_svct_body (svct_body t) @ enc_tail (svct_rest t)
      in [0xC4] @ enc_length (4 + length rest)
         @ [0, svct_subtype (svct_body t), word_of_nat (svct_vct t div 256), word_of_nat (svct_vct t mod 256)]
         @ rest)"

definition svct_ok :: "svct_table \<Rightarrow> bool" where
  "svct_ok t \<longleftrightarrow> svct_vct t < 65536 \<and> svct_body_ok (svct_body t) \<and> tail_ok (svct_rest t) \<and>
     length (enc_svct_body (svct_body t)) + length (enc_tail (svct_rest t)) \<le> 1017"

definition svct_body_update :: "svct_body \<Rightarrow> rmf_OobSiCache \<Rightarrow> rmf_OobSiCache" where
  "svct_body_update b c = (case b of VCM m \<Rightarrow> vcm_update m c | DCM m \<Rightarrow> dcm_update m c)"

definition svct_update :: "svct_table \<Rightarrow> rmf_OobSiParser \<Rightarrow> rmf_OobSiParser" where
  "svct_update t P =
     (let P = svct_vct_id (word_of_nat (svct_vct t)) P
      in P\<lparr>m_pSiCache := svct_body_update (svct_body t) (m_pSiCache P)\<rparr>)"

lemma svct_vct_id_frame [simp]:
  "m_pSectionFilter (svct_vct_id v P) = m_pSectionFilter P"
  "cache_wf (m_pSiCache (svct_vct_id v P)) = cache_wf (m_pSiCache P)"
  by (simp_all add: svct_vct_id_def SetVCTId_def cache_wf_def)

lemma parse_svct_header_enc:
  assumes "svct_ok t" "holds_at buf 0 (take 7 (enc_svct t))"
  shows "parse_svct_header buf = Some \<lparr>sh_error = NO_PARSING_ERROR,
    sh_section_length = word_of_nat (length (enc_svct_body (svct_body t)) + length (enc_tail (svct_rest t))),
    sh_table_subtype = ucast (svct_subtype (svct_body t)), sh_vct_id = word_of_nat (svct_vct t)\<rparr>"
proof -
  let ?m = "length (enc_svct_body (svct_body t)) + length (enc_tail (svct_rest t))"
  let ?n = "4 + ?m"
  have 7: "take 7 (enc_svct t) = [0xC4, word_of_nat (0x30 + ?n div 256), word_of_nat (?n mod 256), 0,
      svct_subtype (svct_body t), word_of_nat (svct_vct t div 256), word_of_nat (svct_vct t mod 256)]"
    by (simp add: enc_svct_def enc_length_def Let_def)
  note b = assms(2)[unfolded 7 holds_at_7 add_0]
  have n: "?n < 4096" and m: "?m < 2 ^ 31" "4 \<le> ?m" and vct: "svct_vct t < 65536"
    using assms(1) by (simp_all add: svct_ok_def enc_tail_def)
  have sub: "TESTBITS (svct_subtype b) 8 5 = 0" "(ucast (GETBITS (svct_subtype b) 4 1) :: 16 word) = ucast (svct_subtype b)"
    "\<not> (ucast (svct_subtype b) :: 16 word) > 2" for b
    by (simp_all add: svct_subtype_def TESTBITS_def GETBITS_def split: svct_body.splits)
  have l: "be12 (word_of_nat (0x30 + ?n div 256)) (word_of_nat (?n mod 256)) - (7 - 3) = word_of_nat ?m"
    unfolding be12_enc_length[OF n] by simp
  have um: "unat (word_of_nat ?m :: 32 word) = ?m" using m(1) by (simp only: unat_of_nat) simp
  have "\<not> sint (word_of_nat ?m :: 32 word) < 4"
    using sint_cmp(4)[of "word_of_nat ?m"] m unfolding um by linarith
  then show ?thesis
    unfolding parse_svct_header_def using b sub[simplified] l[simplified] be16_of_nat[OF vct]
    by (simp add: Let_def)
qed

lemma parse_svct_body_enc:
  assumes t: "svct_body_ok b" and wf: "cache_wf c" and buf: "holds_at buf 0 (enc_svct_body b)"
    and sl: "length (enc_svct_body b) \<le> unat sl" "unat sl < 2 ^ 31"
  shows "(if (ucast (svct_subtype b) :: 16 word) = 0 then parseVCMStructure buf 0 sl c
     else if (ucast (svct_subtype b) :: 16 word) = 1 then parseDCMStructure buf 0 sl c
     else Some (13, 0, sl, c)) =
    Some (NO_PARSING_ERROR, length (enc_svct_body b), sl - word_of_nat (length (enc_svct_body b)), svct_body_update b c)"
  using assms parseVCMStructure_enc[of _ c buf 0 sl] parseDCMStructure_enc[of _ c buf 0 sl]
  by (cases b) (simp_all add: svct_subtype_def enc_svct_body_def svct_body_ok_def svct_body_update_def)

lemma parseAndUpdateSVCT_enc:
  assumes t: "svct_ok t" and wf: "cache_wf (m_pSiCache P)" "sf_wf (m_pSectionFilter P)"
    and bytes: "section_bytes (m_pSectionFilter P) h = Some (enc_svct t)"
    and loc: "length stack_buffer = 1021"
  shows "parseAndUpdateSVCT stack_buffer h out P =
    Some (RMF_SUCCESS, tail_out (svct_rest t) out, svct_update t P)"
proof -
  let ?B = "enc_svct_body (svct_body t)" and ?T = "enc_tail (svct_rest t)"
  let ?sf = "m_pSectionFilter P" and ?P = "svct_vct_id (word_of_nat (svct_vct t)) P"
  define n where "n = length ?B + length ?T"
  have len: "length (enc_svct t) = 7 + n" "drop 7 (enc_svct t) = ?B @ ?T"
    by (simp_all add: n_def enc_svct_def enc_length_def Let_def)
  have n: "n \<le> 1017" "length ?B + 4 \<le> n" "length ?B + length ?T = n"
    using t by (simp_all add: svct_ok_def enc_tail_def n_def)
  have un: "unat (word_of_nat n :: 32 word) = n" using n by (simp only: unat_of_nat) simp
  then have n0: "(word_of_nat n :: 32 word) \<noteq> 0" using n(2) by (metis add_is_0 le_zero_eq unat_0 zero_neq_numeral)
  obtain buf where r1: "ReadSection ?sf h 0 7 0 stack_buffer = Some (RMF_SUCCESS, buf, Some 7, ?sf)"
    and b1: "holds_at buf 0 (take 7 (enc_svct t))" "length buf = 1021"
    by (rule sfsrc.read_holds_at[OF wf(2) bytes, of 0 7 stack_buffer]) (use loc len in auto)
  obtain buf' where r2: "ReadSection ?sf h 7 (word_of_nat n) 0 buf = Some (RMF_SUCCESS, buf', Some (word_of_nat n), ?sf)"
    and b2: "holds_at buf' 0 (?B @ ?T)"
    by (rule sfsrc.read_holds_at[OF wf(2) bytes, of 7 "word_of_nat n" buf])
      (use n b1 len un n0 in auto)
  have sub: "unat (word_of_nat n - word_of_nat (length ?B) :: 32 word) = length ?T"
    using n by (subst unat_sub_le) (simp_all add: un unat_of_nat)
  have "svct_body_ok (svct_body t)" using t by (simp add: svct_ok_def)
  note body = parse_svct_body_enc[OF this, of "m_pSiCache ?P" buf' "word_of_nat n"]
  have tail: "table_tail buf' (length ?B) (word_of_nat n - word_of_nat (length ?B)) NO_PARSING_ERROR out =
      Some (NO_PARSING_ERROR, tail_out (svct_rest t) out)"
    by (rule table_tail_enc) (use t b2 sub n in \<open>simp_all add: svct_ok_def\<close>)
  show ?thesis
    unfolding parseAndUpdateSVCT_def Let_def
    using r1 r2 parse_svct_header_enc[OF t b1(1), folded n_def] body b2 wf n un tail
    by (auto simp: svct_update_def Let_def split: if_splits)
qed

text \<open>
  C2. The SVCT round trip: a section that encodes a virtual channel map or a defined channels map
  is parsed without an error; the VCT id, the revision data and the CRC arrive, and the cache is
  updated by exactly the channels of the map (\<open>vcm_update\<close>, \<open>dcm_update\<close>).
\<close>

theorem parseAndUpdateSVCT_roundtrip:
  assumes t: "svct_ok t" and wf: "cache_wf (m_pSiCache P)" "sf_wf (m_pSectionFilter P)"
    and bytes: "section_bytes (m_pSectionFilter P) h = Some (enc_svct t)"
    and loc: "length stack_buffer = 1021"
  shows "parseAndUpdateSVCT stack_buffer h out P =
    Some (RMF_SUCCESS, tail_out (svct_rest t) out, svct_update t P)"
  by (rule parseAndUpdateSVCT_enc) (fact assms)+

definition vc_example :: vc_entry where
  "vc_example = \<lparr>vc_number = 12, vc_application = False, vc_path2 = False, vc_non_mpeg = False,
     vc_type = 0, vc_source = 1000, vc_cds = 1, vc_program = 7, vc_mms = 2, vc_scrambled = False,
     vc_video = 0, vc_descriptors = []\<rparr>"

definition vcm_example :: vcm_map where
  "vcm_example = \<lparr>vm_descriptors_included = False, vm_splice = False, vm_activation_time = 0,
     vm_channels = [vc_example]\<rparr>"

definition svct_example :: svct_table where
  "svct_example =
     \<lparr>svct_vct = 0x0102, svct_body = VCM vcm_example,
      svct_rest = \<lparr>tail_rdd = None, tail_descs = [(0x80, [9])], tail_crc = 0x01020304\<rparr>\<rparr>"

lemma svct_example_ok: "svct_ok svct_example" "length (enc_svct svct_example) < 65536"
  by (simp_all add: svct_example_def vcm_example_def vc_example_def svct_ok_def svct_body_ok_def vcm_ok_def vc_ok_def tail_ok_def
      descriptor_ok_def enc_svct_def Let_def enc_length_def enc_svct_body_def enc_vcm_def enc_vc_def
      enc_vc_fixed_def enc_descriptor_def enc_tail_def enc_rdd_def be32_bytes_def)

theorem parseAndUpdateSVCT_roundtrip_witness:
  "parseAndUpdateSVCT (replicate 1021 0) 1 \<lparr>out_version = 0, out_section_number = 0, out_last_section_number = 0, out_crc = 0\<rparr>
     (single_section_parser (enc_svct svct_example)) =
   Some (RMF_SUCCESS, \<lparr>out_version = 0, out_section_number = 0, out_last_section_number = 0, out_crc = 0x01020304\<rparr>,
     svct_update svct_example (single_section_parser (enc_svct svct_example)))"
  using parseAndUpdateSVCT_roundtrip[of svct_example "single_section_parser (enc_svct svct_example)" 1 "replicate 1021 0"]
    svct_example_ok single_section_parser_ok
  by (simp add: tail_out_def) (simp add: svct_example_def)

section \<open>What the channel maps leave in the cache\<close>

subsection \<open>Entries through the defined channels map\<close>

lemma find_channel_GetServiceEntry:
  assumes "n \<le> 4095" "GetServiceEntryFromChannelNumber n h c = (a, c')"
  shows "find_channel k (g_si_entry c') =
    (case find_channel k (g_si_entry c) of Some b \<Rightarrow> Some b
     | None \<Rightarrow> if k = n \<and> a \<noteq> 0 then Some a else None)"
proof -
  from assms(1) have nn: "\<not> n > 4095" by simp
  show ?thesis
    using assms(2) nn
    by (cases "find_channel n (g_si_entry c)"; cases "alloc_ok c (alloc_cnt c)")
      (auto simp: GetServiceEntryFromChannelNumber_def memAllocP_def find_channel_append split: option.splits)
qed

lemma GetServiceEntry_ok:
  assumes "cache_wf c" "n \<le> 4095" "GetServiceEntryFromChannelNumber n h c = (a, c')" "\<And>i. alloc_ok c i"
  shows "a \<noteq> 0" "find_channel n (g_si_entry c') = Some a"
proof -
  from assms(2) have nn: "\<not> n > 4095" by simp
  show a: "a \<noteq> 0"
  proof (cases "find_channel n (g_si_entry c)")
    case (Some b)
    then have "b \<in> handles c" using find_channel_Some[OF Some] by (force simp: handles_def)
    with Some assms(1,3) nn show ?thesis
      using cache_wf_handle_pos[of c b] by (simp add: GetServiceEntryFromChannelNumber_def)
  qed (use assms(3,4) nn in \<open>auto simp: GetServiceEntryFromChannelNumber_def memAllocP_def\<close>)
  show "find_channel n (g_si_entry c') = Some a"
  proof (cases "find_channel n (g_si_entry c)")
    case (Some b)
    with assms(3) nn show ?thesis by (auto simp: GetServiceEntryFromChannelNumber_def)
  qed (use find_channel_GetServiceEntry[OF assms(2,3), of n] a in simp)
qed

lemma dcm_apply_frame:
  assumes wf: "cache_wf c" and v: "v \<le> 4095"
  shows "find_channel n (g_si_entry c) = Some b \<Longrightarrow> find_channel n (g_si_entry (dcm_apply d v c)) = Some b"
    and "get_entry c k = Some e \<Longrightarrow> virtual_channel_number e \<noteq> v \<Longrightarrow> get_entry (dcm_apply d v c) k = Some e"
    and "alloc_ok (dcm_apply d v c) = alloc_ok c" and "cache_wf (dcm_apply d v c)"
proof -
  obtain a c1 where g: "GetServiceEntryFromChannelNumber v 0 c = (a, c1)" by (rule prod.exhaust)
  note k = GetServiceEntry_cases[OF wf v g]
  show "alloc_ok (dcm_apply d v c) = alloc_ok c" "cache_wf (dcm_apply d v c)"
    using k by (simp_all add: dcm_apply_def g)
  show "find_channel n (g_si_entry (dcm_apply d v c)) = Some b" if "find_channel n (g_si_entry c) = Some b"
    using find_channel_GetServiceEntry[OF v g, of n] that by (simp add: dcm_apply_def g find_channel_dcm_mark)
  show "get_entry (dcm_apply d v c) k = Some e" if e: "get_entry c k = Some e" "virtual_channel_number e \<noteq> v"
  proof -
    have "get_entry c1 k = Some e"
    proof (cases "a = 0")
      case True
      then have "g_si_entry c1 = g_si_entry c"
        using g v wf by (auto simp: GetServiceEntryFromChannelNumber_def memAllocP_def split: option.splits if_splits)
      with e show ?thesis by (simp add: get_entry_def)
    next
      case False
      with GetServiceEntry_spec[OF wf v g] e(1) show ?thesis by (auto simp: get_entry_handles)
    qed
    with e(2) show ?thesis by (simp add: dcm_apply_def g get_entry_dcm_mark)
  qed
qed

lemma of_nat_channel_eq:
  "v < 4096 \<Longrightarrow> w < 4096 \<Longrightarrow> (word_of_nat v :: 16 word) = word_of_nat w \<longleftrightarrow> v = w"
  by (simp add: word_unat_eq_iff unat_of_nat)

lemma dcm_apply_all_find:
  assumes "cache_wf c" "v + length ds \<le> 4096" "find_channel n (g_si_entry c) = Some b"
  shows "find_channel n (g_si_entry (dcm_apply_all v ds c)) = Some b"
  using assms
proof (induction ds arbitrary: v c)
  case (Cons d ds)
  have v: "(word_of_nat v :: 16 word) \<le> 4095" using Cons.prems(2) by (simp add: of_nat_channel)
  note f = dcm_apply_frame[OF Cons.prems(1) v, where d = d]
  with Cons.IH[of "dcm_apply d (word_of_nat v) c" "Suc v"] Cons.prems show ?case by simp
qed simp

lemma dcm_apply_all_frame:
  assumes "cache_wf c" "v + length ds \<le> 4096" "get_entry c k = Some e"
    and "\<And>i. i < length ds \<Longrightarrow> virtual_channel_number e \<noteq> word_of_nat (v + i)"
  shows "get_entry (dcm_apply_all v ds c) k = Some e"
  using assms
proof (induction ds arbitrary: v c)
  case (Cons d ds)
  have v: "(word_of_nat v :: 16 word) \<le> 4095" using Cons.prems(2) by (simp add: of_nat_channel)
  note f = dcm_apply_frame[OF Cons.prems(1) v, where d = d]
  from Cons.prems(4)[of 0] have "virtual_channel_number e \<noteq> word_of_nat v" by simp
  moreover have "virtual_channel_number e \<noteq> word_of_nat (Suc v + i)" if "i < length ds" for i
    using that Cons.prems(4)[of "Suc i"] by simp
  ultimately show ?case
    using Cons.IH[of "dcm_apply d (word_of_nat v) c" "Suc v"] Cons.prems(2,3) f by simp
qed simp

lemma dcm_apply_marks:
  assumes wf: "cache_wf c" and v: "v \<le> 4095" and ok: "\<And>i. alloc_ok c i"
  obtains a e where "find_channel v (g_si_entry (dcm_apply d v c)) = Some a"
    and "get_entry (dcm_apply d v c) a = Some (e\<lparr>entry_state := dcm_state d (entry_state e)\<rparr>)"
    and "virtual_channel_number e = v"
proof -
  obtain a c1 where g: "GetServiceEntryFromChannelNumber v 0 c = (a, c1)" by (rule prod.exhaust)
  note k = GetServiceEntry_ok[OF wf v g ok]
  obtain e where e: "get_entry c1 a = Some e" "virtual_channel_number e = v"
    using GetServiceEntry_spec[OF wf v g k(1)] by auto
  show thesis
    by (rule that[of a e]) (use k e in \<open>simp_all add: dcm_apply_def g find_channel_dcm_mark get_entry_dcm_mark\<close>)
qed

lemma dcm_apply_all_marks:
  assumes "cache_wf c" "v + length ds \<le> 4096" "\<And>i. alloc_ok c i" "i < length ds"
  shows "\<exists>a e. find_channel (word_of_nat (v + i)) (g_si_entry (dcm_apply_all v ds c)) = Some a \<and>
    get_entry (dcm_apply_all v ds c) a = Some (e\<lparr>entry_state := dcm_state (ds ! i) (entry_state e)\<rparr>) \<and>
    virtual_channel_number e = word_of_nat (v + i)"
  using assms
proof (induction ds arbitrary: v c i)
  case (Cons d ds)
  let ?c = "dcm_apply d (word_of_nat v) c"
  have v: "(word_of_nat v :: 16 word) \<le> 4095" using Cons.prems(2) by (simp add: of_nat_channel)
  note f = dcm_apply_frame[OF Cons.prems(1) v, where d = d]
  show ?case
  proof (cases i)
    case 0
    obtain a e where a: "find_channel (word_of_nat v) (g_si_entry ?c) = Some a"
      and e: "get_entry ?c a = Some (e\<lparr>entry_state := dcm_state d (entry_state e)\<rparr>)"
      and n: "virtual_channel_number e = word_of_nat v"
      by (rule dcm_apply_marks[OF Cons.prems(1) v Cons.prems(3), of d])
    have "(word_of_nat v :: 16 word) \<noteq> word_of_nat (Suc v + j)" if "j < length ds" for j
      using that Cons.prems(2) by (subst of_nat_channel_eq) simp_all
    then have "get_entry (dcm_apply_all (Suc v) ds ?c) a = Some (e\<lparr>entry_state := dcm_state d (entry_state e)\<rparr>)"
      using dcm_apply_all_frame[OF f(4) _ e, of "Suc v" ds] Cons.prems(2) n by simp
    moreover have "find_channel (word_of_nat v) (g_si_entry (dcm_apply_all (Suc v) ds ?c)) = Some a"
      using dcm_apply_all_find[OF f(4) _ a, of "Suc v" ds] Cons.prems(2) by simp
    ultimately show ?thesis using n 0 by auto
  next
    case (Suc j)
    with Cons.IH[of ?c "Suc v" j] Cons.prems f show ?thesis by simp
  qed
qed simp

lemma dcm_state_bits: "bit (dcm_state d st) 0" "bit (dcm_state d st) 1 \<longleftrightarrow> d"
  by (simp_all add: dcm_state_def state_defined_def state_undefined_def bit_simps)

text \<open>The entries after the effect of a defined channels map.\<close>

lemma dcm_update_entries:
  assumes "cache_wf c" "dcm_ok m" "\<And>i. alloc_ok c i"
  shows "(\<forall>i < length (range_flags (dm_ranges m)).
      \<exists>a e. find_channel (word_of_nat (dm_first m + i)) (g_si_entry (dcm_update m c)) = Some a \<and>
        get_entry (dcm_update m c) a = Some e \<and> virtual_channel_number e = word_of_nat (dm_first m + i) \<and>
        bit (entry_state e) 0 \<and> (bit (entry_state e) 1 \<longleftrightarrow> range_flags (dm_ranges m) ! i)) \<and>
    (\<forall>k e. get_entry c k = Some e \<longrightarrow>
      (\<forall>i < length (range_flags (dm_ranges m)). virtual_channel_number e \<noteq> word_of_nat (dm_first m + i)) \<longrightarrow>
      get_entry (dcm_update m c) k = Some e)"
proof (intro conjI allI impI)
  have le: "dm_first m + length (range_flags (dm_ranges m)) \<le> 4096" using assms(2) by (simp add: dcm_ok_def)
  fix i assume i: "i < length (range_flags (dm_ranges m))"
  from dcm_apply_all_marks[OF assms(1) le assms(3) i]
  obtain a e where "find_channel (word_of_nat (dm_first m + i)) (g_si_entry (dcm_update m c)) = Some a"
    "get_entry (dcm_update m c) a =
      Some (e\<lparr>entry_state := dcm_state (range_flags (dm_ranges m) ! i) (entry_state e)\<rparr>)"
    "virtual_channel_number e = word_of_nat (dm_first m + i)"
    unfolding dcm_update_def by blast
  then show "\<exists>a e. find_channel (word_of_nat (dm_first m + i)) (g_si_entry (dcm_update m c)) = Some a \<and>
        get_entry (dcm_update m c) a = Some e \<and> virtual_channel_number e = word_of_nat (dm_first m + i) \<and>
        bit (entry_state e) 0 \<and> (bit (entry_state e) 1 \<longleftrightarrow> range_flags (dm_ranges m) ! i)"
    using dcm_state_bits(2)[simplified] by (simp add: dcm_state_bits)
next
  have le: "dm_first m + length (range_flags (dm_ranges m)) \<le> 4096" using assms(2) by (simp add: dcm_ok_def)
  fix k e assume "get_entry c k = Some e"
    "\<forall>i < length (range_flags (dm_ranges m)). virtual_channel_number e \<noteq> word_of_nat (dm_first m + i)"
  then show "get_entry (dcm_update m c) k = Some e"
    unfolding dcm_update_def using assms(1) le by (intro dcm_apply_all_frame) auto
qed

text \<open>
  C16. When \<open>parseDCMStructure\<close> reads a defined channels map, it consumes exactly the map and returns without
  error, and in the cache it leaves every channel number of the ranges has an entry that is marked present and
  carries the defined bit exactly when its range is a defined one; an entry whose channel number is outside the
  ranges is untouched.
\<close>

theorem parseDCM_marks_channels:
  assumes "cache_wf c" "dcm_ok m" "\<And>i. alloc_ok c i"
    and "holds_at buf p (enc_dcm m)" "length (enc_dcm m) \<le> unat sl" "unat sl < 2 ^ 31"
  shows "\<exists>c'. parseDCMStructure buf p sl c =
      Some (NO_PARSING_ERROR, p + length (enc_dcm m), sl - word_of_nat (length (enc_dcm m)), c') \<and>
    (\<forall>i < length (range_flags (dm_ranges m)).
      \<exists>a e. find_channel (word_of_nat (dm_first m + i)) (g_si_entry c') = Some a \<and>
        get_entry c' a = Some e \<and> virtual_channel_number e = word_of_nat (dm_first m + i) \<and>
        bit (entry_state e) 0 \<and> (bit (entry_state e) 1 \<longleftrightarrow> range_flags (dm_ranges m) ! i)) \<and>
    (\<forall>k e. get_entry c k = Some e \<longrightarrow>
      (\<forall>i < length (range_flags (dm_ranges m)). virtual_channel_number e \<noteq> word_of_nat (dm_first m + i)) \<longrightarrow>
      get_entry c' k = Some e)"
  using parseDCMStructure_enc[OF assms(2,1,4-6)] dcm_update_entries[OF assms(1-3)] by blast

theorem parseDCM_marks_channels_witness:
  "\<exists>c' a e. parseDCMStructure [0, 10, 1, 0x82] 0 4 (rmf_OobSiCache_new 0 0 (\<lambda>_. True) 0) = Some (NO_PARSING_ERROR, 4, 0, c') \<and>
    find_channel 11 (g_si_entry c') = Some a \<and> get_entry c' a = Some e \<and> bit (entry_state e) 1"
proof -
  let ?m = "\<lparr>dm_first = 10, dm_ranges = [(True, 2)]\<rparr>" and ?c = "rmf_OobSiCache_new 0 0 (\<lambda>_. True) 0"
  have m: "dcm_ok ?m" "enc_dcm ?m = [0, 10, 1, 0x82]" "range_flags (dm_ranges ?m) = [True, True]"
    by (simp_all add: dcm_ok_def range_flags_def enc_dcm_def enc_range_def numeral_2_eq_2)
  have "alloc_ok ?c i" for i by (simp add: rmf_OobSiCache_new_def)
  then obtain c' where c': "parseDCMStructure [0, 10, 1, 0x82] 0 4 ?c = Some (NO_PARSING_ERROR, 4, 0, c')"
      "\<forall>i < 2. \<exists>a e. find_channel (word_of_nat (10 + i)) (g_si_entry c') = Some a \<and> get_entry c' a = Some e \<and>
        virtual_channel_number e = word_of_nat (10 + i) \<and> bit (entry_state e) 0 \<and> (bit (entry_state e) 1 \<longleftrightarrow> [True, True] ! i)"
    using parseDCM_marks_channels[of ?c ?m "[0, 10, 1, 0x82]" 0 4] rmf_OobSiCache_new_wf m by (auto simp: rd_def)
  from c'(2)[rule_format, of 1] c'(1) show ?thesis by auto
qed

subsection \<open>Entries through the virtual channel map\<close>

lemma find_channel_put_entry:
  assumes "\<And>e. virtual_channel_number (f e) = virtual_channel_number e"
  shows "find_channel n (g_si_entry (put_entry h f c)) = find_channel n (g_si_entry c)"
proof -
  have "find_channel n (map (\<lambda>(a, e). (a, if a = h then f e else e)) es) = find_channel n es" for es
    by (induction n es rule: find_channel.induct) (auto simp: assms)
  then show ?thesis by (simp add: put_entry_def)
qed

lemma vcm_apply_entry:
  assumes wf: "cache_wf c" and n: "ch_number ch \<le> 4095" and ok: "\<And>i. alloc_ok c i"
  obtains a e where "find_channel (ch_number ch) (g_si_entry (vcm_apply t ch c)) = Some a"
    and "get_entry (vcm_apply t ch c) a = Some (vcm_entry t ch e)" and "virtual_channel_number e = ch_number ch"
proof -
  obtain a c1 where g: "GetServiceEntryFromChannelNumber (ch_number ch) 0 c = (a, c1)" by (rule prod.exhaust)
  note k = GetServiceEntry_ok[OF wf n g ok]
  obtain e where e: "get_entry c1 a = Some e" "virtual_channel_number e = ch_number ch"
    using GetServiceEntry_spec[OF wf n g k(1)] by auto
  have v: "virtual_channel_number (vcm_entry t ch x) = virtual_channel_number x" for x
    by (simp add: vcm_entry_def)
  show thesis
    by (rule that[of a e]) (use k e in \<open>simp_all add: vcm_apply_def g find_channel_put_entry[OF v]\<close>)
qed

lemma vcm_apply_other:
  assumes wf: "cache_wf c" and n: "ch_number ch \<le> 4095"
    and k: "find_channel m (g_si_entry c) = Some b" "get_entry c b = Some e"
    and m: "virtual_channel_number e = m" "m \<noteq> ch_number ch"
  shows "find_channel m (g_si_entry (vcm_apply t ch c)) = Some b" "get_entry (vcm_apply t ch c) b = Some e"
proof -
  obtain a c1 where g: "GetServiceEntryFromChannelNumber (ch_number ch) 0 c = (a, c1)" by (rule prod.exhaust)
  have v: "virtual_channel_number (vcm_entry t ch x) = virtual_channel_number x" for x
    by (simp add: vcm_entry_def)
  have f1: "find_channel m (g_si_entry c1) = Some b"
    using find_channel_GetServiceEntry[OF n g, of m] k(1) by simp
  show "find_channel m (g_si_entry (vcm_apply t ch c)) = Some b"
    using f1 by (simp add: vcm_apply_def g find_channel_put_entry[OF v])
  show "get_entry (vcm_apply t ch c) b = Some e"
  proof (cases "a = 0")
    case True
    then have "g_si_entry c1 = g_si_entry c"
      using g n wf by (auto simp: GetServiceEntryFromChannelNumber_def memAllocP_def split: option.splits if_splits)
    with k(2) True show ?thesis by (simp add: vcm_apply_def g get_entry_def)
  next
    case False
    note s = GetServiceEntry_spec[OF wf n g False]
    have "get_entry c1 b = Some e" using s k(2) by (auto simp: get_entry_handles)
    moreover have "b \<noteq> a" using s calculation m by auto
    ultimately show ?thesis using False by (simp add: vcm_apply_def g)
  qed
qed

lemma vcm_apply_alloc: "ch_number ch \<le> 4095 \<Longrightarrow> cache_wf c \<Longrightarrow> alloc_ok (vcm_apply t ch c) = alloc_ok c"
  using GetServiceEntry_cases[of c "ch_number ch" 0]
  by (auto simp: vcm_apply_def split: prod.splits)

lemma vcm_apply_all_other:
  assumes "cache_wf c" "list_all vc_ok rs" "find_channel m (g_si_entry c) = Some b" "get_entry c b = Some e"
    "virtual_channel_number e = m" "\<forall>r \<in> set rs. word_of_nat (vc_number r) \<noteq> m"
  shows "find_channel m (g_si_entry (vcm_apply_all t scr video rs c)) = Some b \<and>
    get_entry (vcm_apply_all t scr video rs c) b = Some e"
  using assms
proof (induction rs arbitrary: c scr video)
  case (Cons r rs)
  let ?ch = "vc_channel r scr video"
  have n: "ch_number ?ch \<le> 4095" using Cons.prems(2) by (simp add: vc_number_le)
  have "m \<noteq> ch_number ?ch" using Cons.prems(6) by (auto simp: vc_channel_def)
  note o = vcm_apply_other[OF Cons.prems(1) n Cons.prems(3-5) this, of t]
  show ?case
    using Cons.IH[of "vcm_apply t ?ch c"] Cons.prems o vcm_store_eq(2)[OF Cons.prems(1) n]
    by (simp add: Let_def)
qed simp

lemma vcm_apply_all_entry:
  assumes "cache_wf c" "list_all vc_ok (pre @ r # post)" "\<And>i. alloc_ok c i"
    "\<forall>q \<in> set post. vc_number q \<noteq> vc_number r"
  shows "\<exists>a e scr' video'. find_channel (word_of_nat (vc_number r)) (g_si_entry (vcm_apply_all t scr video (pre @ r # post) c)) = Some a \<and>
    get_entry (vcm_apply_all t scr video (pre @ r # post) c) a = Some (vcm_entry t (vc_channel r scr' video') e)"
  using assms
proof (induction pre arbitrary: c scr video)
  case Nil
  let ?ch = "vc_channel r scr video"
  have n: "ch_number ?ch \<le> 4095" using Nil.prems(2) by (simp add: vc_number_le)
  have num: "ch_number ?ch = word_of_nat (vc_number r)" by (simp add: vc_channel_def)
  obtain a e where a: "find_channel (ch_number ?ch) (g_si_entry (vcm_apply t ?ch c)) = Some a"
    and e: "get_entry (vcm_apply t ?ch c) a = Some (vcm_entry t ?ch e)" "virtual_channel_number e = ch_number ?ch"
    by (rule vcm_apply_entry[OF Nil.prems(1) n Nil.prems(3)])
  have "\<forall>q \<in> set post. word_of_nat (vc_number q) \<noteq> ch_number ?ch"
    using Nil.prems(2,4) by (auto simp: num of_nat_channel_eq vc_ok_def list_all_iff)
  then have "find_channel (ch_number ?ch) (g_si_entry (vcm_apply_all t scr' video' post (vcm_apply t ?ch c))) = Some a \<and>
      get_entry (vcm_apply_all t scr' video' post (vcm_apply t ?ch c)) a = Some (vcm_entry t ?ch e)" for scr' video'
    using a e Nil.prems(2) vcm_store_eq(2)[OF Nil.prems(1) n]
    by (intro vcm_apply_all_other) (simp_all add: vcm_entry_def)
  then show ?case unfolding num by (auto simp: Let_def)
next
  case (Cons q pre)
  let ?ch = "vc_channel q scr video"
  have n: "ch_number ?ch \<le> 4095" using Cons.prems(2) by (simp add: vc_number_le)
  have "alloc_ok (vcm_apply t ?ch c) i" for i
    using Cons.prems(3) vcm_apply_alloc[OF n Cons.prems(1)] by simp
  with Cons.IH[of "vcm_apply t ?ch c"] Cons.prems(2,4) vcm_store_eq(2)[OF Cons.prems(1) n] show ?case
    by (simp add: Let_def)
qed

text \<open>The entry of a channel after the effect of a virtual channel map.\<close>

lemma vcm_update_entry:
  assumes "cache_wf c" "list_all vc_ok (vm_channels m)" "\<And>i. alloc_ok c i"
    and "vm_channels m = pre @ r # post" "\<forall>q \<in> set post. vc_number q \<noteq> vc_number r"
  shows "\<exists>a e. find_channel (word_of_nat (vc_number r)) (g_si_entry (vcm_update m c)) = Some a \<and>
    get_entry (vcm_update m c) a = Some e \<and>
    isAppType e = vc_application r \<and>
    (if vc_application r then app_id e = word_of_nat (vc_source r) \<and> source_id e = SOURCEID_UNKNOWN
     else source_id e = word_of_nat (vc_source r)) \<and>
    activation_time e = vm_activation_time m \<and> freq_index e = vc_cds r \<and>
    mode_index e = (if vc_non_mpeg r then 0 else vc_mms r) \<and>
    program_number e = (if vc_non_mpeg r then 0 else word_of_nat (vc_program r)) \<and>
    transport_type e = (if vc_non_mpeg r then 1 else 0) \<and> channel_type e = word_of_nat (vc_type r) \<and>
    major_channel_number e = word_of_nat (vc_number r) \<and> bit (entry_state e) 2"
proof -
  from assms obtain a e0 scr video where
    a: "find_channel (word_of_nat (vc_number r)) (g_si_entry (vcm_update m c)) = Some a" and
    e: "get_entry (vcm_update m c) a = Some (vcm_entry (vm_activation_time m) (vc_channel r scr video) e0)"
    using vcm_apply_all_entry[OF assms(1) _ assms(3,5)] by (fastforce simp: vcm_update_def)
  have "vc_ok r" using assms(2,4) by simp
  then have "ucast (word_of_nat (vc_source r) :: 16 word) = (word_of_nat (vc_source r) :: 32 word)"
    "ucast (word_of_nat (vc_type r) :: 16 word) = (word_of_nat (vc_type r) :: byte)"
    "ucast (word_of_nat (vc_number r) :: 16 word) = (word_of_nat (vc_number r) :: 32 word)"
    by (auto intro!: word_unat_eq_iff[THEN iffD2] simp: vc_ok_def unat_of_nat unsigned_ucast_eq take_bit_eq_mod)
  then show ?thesis
    using a e by (auto simp: vcm_entry_def vc_channel_def bit_simps)
qed



section \<open>Errors the virtual channel map does not report\<close>

text \<open>
  A virtual channel map without a record (error 24) or without room for one (error 25) is
  reported as parsed: both errors stay in \<open>svct_error\<close>, and \<open>parseVCMStructure\<close> returns
  \<open>saved_svct_error\<close>, which only the record loop assigns.
\<close>

theorem parseVCMStructure_header_errors_lost:
  assumes "holds_at buf p [o1, o2, t1, t2, t3, t4, n]" and "n = 0 \<or> sint (sl - 7) \<le> 0"
  shows "parseVCMStructure buf p sl c = Some (NO_PARSING_ERROR, p + 7, sl - 7, c)"
proof -
  have "p + 2 + 1 = p + 3" "p + 2 + 2 = p + 4" "p + 2 + 3 = p + 5" by simp_all
  then have "read_be32 buf (p + 2) = Some (be32 t1 t2 t3 t4)"
    using assms(1)[unfolded holds_at_7] by (simp only: read_be32_def Option.bind.bind_lunit)
  with assms show ?thesis
    unfolding holds_at_7 by (auto simp: parseVCMStructure_def Let_def)
qed

theorem parseVCMStructure_header_errors_lost_witness:
  "parseVCMStructure [0, 0, 0, 0, 0, 0, 0, 1, 2, 3, 4] 0 11 (rmf_OobSiCache_new 0 0 (\<lambda>_. True) 0) =
   Some (NO_PARSING_ERROR, 7, 4, rmf_OobSiCache_new 0 0 (\<lambda>_. True) 0)"
  using parseVCMStructure_header_errors_lost[of "[0, 0, 0, 0, 0, 0, 0, 1, 2, 3, 4]" 0 0 0 0 0 0 0 0 11]
  by (simp add: rd_def)

text \<open>
  Once a channel record has set \<open>scrambled\<close>, every later record of the map is stored as
  scrambled, MPEG-2 records included, which carry no such flag: the local is never reset.
\<close>

theorem vcm_scrambled_is_sticky:
  assumes "vcm_channel_fields buf st = Some (e, ch)" "v_scrambled st"
  shows "ch_scrambled ch"
  using assms by (auto simp: vcm_channel_fields_def Let_def split: Option.bind_splits if_splits)

theorem vcm_scrambled_is_sticky_witness:
  "\<exists>e ch. vcm_channel_fields [0, 12, 0, 0, 5, 1, 0, 7, 2]
     \<lparr>v_pos = 0, v_len = 9, v_program_number = 0, v_mms_reference = 0, v_video_standard = 0, v_scrambled = True,
      v_saved_error = 0, v_cache = rmf_OobSiCache_new 0 0 (\<lambda>_. True) 0\<rparr> = Some (e, ch) \<and> ch_scrambled ch \<and> \<not> ch_non_mpeg ch"
proof -
  let ?st = "\<lparr>v_pos = 0, v_len = 9, v_program_number = 0, v_mms_reference = 0, v_video_standard = 0, v_scrambled = True,
      v_saved_error = 0, v_cache = rmf_OobSiCache_new 0 0 (\<lambda>_. True) 0\<rparr>"
  obtain e ch where "vcm_channel_fields [0, 12, 0, 0, 5, 1, 0, 7, 2] ?st = Some (e, ch)" "\<not> ch_non_mpeg ch"
    by (simp add: vcm_channel_fields_def rd_def Let_def TESTBITS_def)
  with vcm_scrambled_is_sticky[OF this(1)] show ?thesis by auto
qed

end
