(* ===== verification/NttParser.thy ===== *)
theory NttParser
  imports ParserCommon
begin

text \<open>
  The network text table: \<open>parseAndUpdateNTT\<close>, its source name subtable (\<open>parseSNSSubtable\<close>) and
  the multilingual text segment of a name (\<open>parseMTS\<close>). A C string is the list of its bytes before
  the terminating zero. \<open>segment\<close> is declared outside the record loop and survives its rounds.
\<close>

section \<open>Names\<close>

definition c_string :: "byte list \<Rightarrow> cstring" where
  "c_string bs = takeWhile (\<lambda>b. b \<noteq> 0) bs"

text \<open>\<open>for (ii = 0; ii < *length; ii++)\<close> of \<open>parseMTS\<close>.\<close>

fun mts_copy :: "nat \<Rightarrow> nat \<Rightarrow> byte list \<Rightarrow> nat \<Rightarrow> byte list \<Rightarrow> (byte list \<times> nat) option" where
  "mts_copy 0 ii buf p segment = Some (segment, p)"
| "mts_copy (Suc n) ii buf p segment =
     do { b \<leftarrow> rd buf p; segment \<leftarrow> wr segment ii b; mts_copy n (ii + 1) buf (p + 1) segment }"

text \<open>A mode of 0x40 and above is not supported: the length is zero and the pointer stays.\<close>

definition parseMTS :: "byte list \<Rightarrow> nat \<Rightarrow> byte list \<Rightarrow> (byte \<times> byte list \<times> nat) option" where
  "parseMTS buf p segment =
     do { mode \<leftarrow> rd buf p;
          if mode \<ge> 0x40 then Some (0, segment, p)
          else do { len \<leftarrow> rd buf (p + 1);
                    (segment, p) \<leftarrow> mts_copy (unat len) 0 buf (p + 2) segment;
                    Some (len, segment, p) } }"

text \<open>The update of the source name entry, between \<open>LockForWrite\<close> and \<open>ReleaseWriteLock\<close>.\<close>

definition sns_store ::
  "cstring \<Rightarrow> cstring \<Rightarrow> 16 word \<Rightarrow> bool \<Rightarrow> rmf_OobSiCache \<Rightarrow> (rmf_Error \<times> rmf_OobSiCache) option" where
  "sns_store language name source_ID app c =
     (case GetSourceNameEntry (ucast source_ID) app False c of (_, entry, c) \<Rightarrow>
        (case entry of
           Some a \<Rightarrow>
             do { present \<leftarrow> IsSourceNameLanguagePresent a language c;
                  if present then Some (NO_PARSING_ERROR, c)
                  else do { (_, c) \<leftarrow> SetSourceName a name language True c;
                            (_, c) \<leftarrow> SetSourceLongName a name language c;
                            Some (NO_PARSING_ERROR, c) } }
         | None \<Rightarrow>
             (case GetSourceNameEntry (ucast source_ID) app True c of (_, entry, c) \<Rightarrow>
                (case entry of
                   Some a \<Rightarrow>
                     do { (_, c) \<leftarrow> SetSourceName a name language False c;
                          (_, c) \<leftarrow> SetSourceLongName a name language c;
                          Some (NO_PARSING_ERROR, c) }
                 | None \<Rightarrow> Some (18, c)))))"

section \<open>The source name subtable\<close>

record sns_state =
  n_pos :: nat
  n_len :: "32 word"
  n_segment :: "byte list"
  n_cache :: rmf_OobSiCache

definition sns_record :: "cstring \<Rightarrow> byte list \<Rightarrow> sns_state \<Rightarrow> (rmf_Error \<times> sns_state) option" where
  "sns_record language buf st =
     do { let p = n_pos st;
          octet1 \<leftarrow> rd buf p; octet2 \<leftarrow> rd buf (p + 1); octet3 \<leftarrow> rd buf (p + 2); name_length \<leftarrow> rd buf (p + 3);
          let sl = n_len st - (4 + ucast name_length);
          (segment_length, segment, p) \<leftarrow> parseMTS buf (p + 4) (n_segment st);
          (ntt_error, segment, c) \<leftarrow>
            (if segment_length \<noteq> 0 then
               do { segment \<leftarrow> wr segment (unat segment_length) 0;
                    (e, c) \<leftarrow> sns_store language (c_string segment) (be16 octet2 octet3)
                                (TESTBITS octet1 8 8 \<noteq> 0) (n_cache st);
                    Some (e, segment, c) }
             else Some (NO_PARSING_ERROR, segment, n_cache st));
          descriptor_count \<leftarrow> rd buf p;
          (neg, p, sl) \<leftarrow> skip_descriptors (unat descriptor_count) buf (p + 1) (sl - 1);
          Some (if neg then 18 else ntt_error,
                \<lparr>n_pos = p, n_len = sl, n_segment = segment, n_cache = c\<rparr>) }"

definition parseSNSSubtable ::
  "cstring \<Rightarrow> byte list \<Rightarrow> nat \<Rightarrow> 32 word \<Rightarrow> rmf_OobSiCache \<Rightarrow>
   (rmf_Error \<times> nat \<times> 32 word \<times> rmf_OobSiCache) option" where
  "parseSNSSubtable language buf p sl c =
     do { number_of_SNS_records \<leftarrow> rd buf p;
          (ntt_error, st) \<leftarrow> record_loop (sns_record language buf) (unat number_of_SNS_records)
             \<lparr>n_pos = p + 1, n_len = sl - 1, n_segment = replicate 256 0, n_cache = c\<rparr>;
          Some (ntt_error, n_pos st, n_len st, n_cache st) }"

section \<open>The table\<close>

text \<open>The language of three 0xFF octets stands for any language: the empty string.\<close>

definition ntt_language :: "byte \<Rightarrow> byte \<Rightarrow> byte \<Rightarrow> cstring" where
  "ntt_language a b c = (if a = 0xFF \<and> b = 0xFF \<and> c = 0xFF then [] else c_string [a, b, c])"

text \<open>
  The errors 2, 5, 6 and 7 of the header are assigned to \<open>ntt_error\<close>, which the call of
  \<open>parseSNSSubtable\<close> overwrites; only the failed reads (1 and 8) leave early.
\<close>

definition parseAndUpdateNTT ::
  "byte list \<Rightarrow> 32 word \<Rightarrow> table_out \<Rightarrow> rmf_OobSiParser \<Rightarrow>
   (rmf_Error \<times> table_out \<times> rmf_OobSiParser) option" where
  "parseAndUpdateNTT input_buffer section_handle out P =
     do { (retCode, buf, n, sf) \<leftarrow>
            ReadSection (m_pSectionFilter P) section_handle 0 8 0 input_buffer;
          let P = P\<lparr>m_pSectionFilter := sf\<rparr>;
          if retCode \<noteq> RMF_SUCCESS \<or> n \<noteq> Some 8 then Some (1, out, P)
          else do {
            table_id \<leftarrow> rd buf 0; octet2 \<leftarrow> rd buf 1; octet3 \<leftarrow> rd buf 2;
            lang1 \<leftarrow> rd buf 4; lang2 \<leftarrow> rd buf 5; lang3 \<leftarrow> rd buf 6; octet8 \<leftarrow> rd buf 7;
            let language_code = ntt_language lang1 lang2 lang3;
            let e = (if table_id \<noteq> NETWORK_TEXT_TABLE_ID then 2 else NO_PARSING_ERROR);
            let e = (if TESTBITS octet8 8 5 \<noteq> 0 then 5 else e);
            let e = (if GETBITS octet8 4 1 \<noteq> 6 then 6 else e);
            let sl = be12 octet2 octet3 - (8 - 3);
            let e = (if e = NO_PARSING_ERROR \<and> sint sl < 4 then 7 else e);
            (retCode, buf, n, sf) \<leftarrow> ReadSection (m_pSectionFilter P) section_handle 8 sl 0 buf;
            let P = P\<lparr>m_pSectionFilter := sf\<rparr>;
            if retCode \<noteq> RMF_SUCCESS \<or> n \<noteq> Some sl then Some (8, out, P)
            else do {
              (e, p, sl, c) \<leftarrow> parseSNSSubtable language_code buf 0 sl (m_pSiCache P);
              (e, out) \<leftarrow> table_tail buf p sl e out;
              Some (e, out, P\<lparr>m_pSiCache := c\<rparr>) } } }"

section \<open>Source names as a map\<close>

text \<open>
  What the name lists of the cache mean: a map from source (or application) id and language to
  the name. The subtable inserts a name unless the map has one for the key already.
\<close>

type_synonym name_key = "32 word \<times> bool \<times> cstring"

definition names_wf :: "rmf_OobSiCache \<Rightarrow> bool" where
  "names_wf c \<longleftrightarrow> distinct (map fst (g_si_sourcename_entry c)) \<and>
     (\<forall>a \<in> fst ` set (g_si_sourcename_entry c). a \<le> alloc_cnt c)"

definition name_map :: "rmf_OobSiCache \<Rightarrow> name_key \<rightharpoonup> cstring option" where
  "name_map c = (\<lambda>(i, app, language).
     case find_source_name i app (g_si_sourcename_entry c) of
       None \<Rightarrow> None
     | Some a \<Rightarrow> (case get_name_entry c a of None \<Rightarrow> None | Some e \<Rightarrow> map_of (source_names e) language))"

definition add_name :: "name_key \<Rightarrow> cstring \<Rightarrow> (name_key \<rightharpoonup> cstring option) \<Rightarrow> (name_key \<rightharpoonup> cstring option)" where
  "add_name k name m = (if k \<in> dom m then m else m(k \<mapsto> Some name))"

definition put_name :: "nat \<Rightarrow> (rmf_siSourceNameEntry \<Rightarrow> rmf_siSourceNameEntry) \<Rightarrow> rmf_OobSiCache \<Rightarrow> rmf_OobSiCache" where
  "put_name a f c =
     c\<lparr>g_si_sourcename_entry := map (\<lambda>(k, e). (k, if k = a then f e else e)) (g_si_sourcename_entry c)\<rparr>"

text \<open>What the name operations leave alone.\<close>

definition names_frame :: "rmf_OobSiCache \<Rightarrow> rmf_OobSiCache \<Rightarrow> bool" where
  "names_frame c c' \<longleftrightarrow> alloc_ok c' = alloc_ok c \<and> alloc_cnt c \<le> alloc_cnt c' \<and> g_si_entry c' = g_si_entry c \<and>
     g_frequency c' = g_frequency c \<and> g_mode c' = g_mode c \<and> crctab c' = crctab c"

lemma names_frame_refl [simp]: "names_frame c c"
  by (simp add: names_frame_def)

lemma names_frame_trans: "names_frame a b \<Longrightarrow> names_frame b c \<Longrightarrow> names_frame a c"
  by (simp add: names_frame_def)

lemma names_frame_wf: "names_frame c c' \<Longrightarrow> cache_wf c \<Longrightarrow> cache_wf c'"
  unfolding names_frame_def cache_wf_def using le_trans by auto

lemma find_source_name_Some:
  "find_source_name i app es = Some a \<Longrightarrow> \<exists>e. (a, e) \<in> set es \<and> sn_id e = i \<and> appType e = app"
  by (induction i app es rule: find_source_name.induct) (auto split: if_splits)

lemma find_source_name_entry:
  assumes "names_wf c" "find_source_name i app (g_si_sourcename_entry c) = Some a"
  obtains e where "get_name_entry c a = Some e" "sn_id e = i" "appType e = app"
  using find_source_name_Some[OF assms(2)] assms(1) that
  by (auto simp: get_name_entry_def names_wf_def)

lemma get_name_entry_set: "get_name_entry c a = Some e \<Longrightarrow> a \<in> fst ` set (g_si_sourcename_entry c)"
  by (force simp: get_name_entry_def dest: map_of_SomeD)

lemma upd_name_entry_put:
  "get_name_entry c a = Some e \<Longrightarrow> upd_name_entry a f c = Some (put_name a f c)"
  by (simp add: upd_name_entry_def put_name_def get_name_entry_set)

lemma get_name_entry_put:
  "get_name_entry (put_name a f c) k = (if k = a then map_option f (get_name_entry c k) else get_name_entry c k)"
proof -
  have "map_of (map (\<lambda>(k, e). (k, if k = a then f e else e)) es) k =
      (if k = a then map_option f (map_of es k) else map_of es k)" for es
    by (induction es) auto
  then show ?thesis by (simp add: get_name_entry_def put_name_def)
qed

lemma find_source_name_put:
  assumes "\<And>e. sn_id (f e) = sn_id e" "\<And>e. appType (f e) = appType e"
  shows "find_source_name i app (g_si_sourcename_entry (put_name a f c)) =
    find_source_name i app (g_si_sourcename_entry c)"
proof -
  have "find_source_name i app (map (\<lambda>(k, e). (k, if k = a then f e else e)) es) = find_source_name i app es" for es
    by (induction i app es rule: find_source_name.induct) (auto simp: assms)
  then show ?thesis by (simp add: put_name_def)
qed

lemma put_name_frame [simp]:
  "names_wf (put_name a f c) = names_wf c" "names_frame c (put_name a f c)"
  "alloc_cnt (put_name a f c) = alloc_cnt c" "alloc_ok (put_name a f c) = alloc_ok c"
proof -
  have "map fst (g_si_sourcename_entry (put_name a f c)) = map fst (g_si_sourcename_entry c)"
    by (simp add: put_name_def comp_def split_beta)
  moreover from this have "fst ` set (g_si_sourcename_entry (put_name a f c)) = fst ` set (g_si_sourcename_entry c)"
    by (metis list.set_map)
  moreover show "alloc_cnt (put_name a f c) = alloc_cnt c" by (simp add: put_name_def)
  ultimately show "names_wf (put_name a f c) = names_wf c" by (simp add: names_wf_def)
qed (simp_all add: put_name_def names_frame_def)

lemma get_name_entry_alloc [simp]: "get_name_entry (c\<lparr>alloc_cnt := n\<rparr>) a = get_name_entry c a"
  by (simp add: get_name_entry_def)

lemma alloc_cnt_names [simp]:
  "name_map (c\<lparr>alloc_cnt := n\<rparr>) = name_map c"
  "put_name a f (c\<lparr>alloc_cnt := n\<rparr>) = (put_name a f c)\<lparr>alloc_cnt := n\<rparr>"
  by (simp_all add: name_map_def put_name_def fun_eq_iff split: option.split)

lemma names_frame_alloc: "names_frame c c' \<Longrightarrow> alloc_cnt c' \<le> n \<Longrightarrow> names_frame c (c'\<lparr>alloc_cnt := n\<rparr>)"
  by (simp add: names_frame_def)

lemma names_wf_alloc: "names_wf c \<Longrightarrow> alloc_cnt c \<le> n \<Longrightarrow> names_wf (c\<lparr>alloc_cnt := n\<rparr>)"
  using le_trans by (auto simp: names_wf_def)

lemma name_search_Absent:
  "map_of xs language = None \<Longrightarrow> name_search ovr language name xs k = Absent"
  by (induction ovr language name xs k rule: name_search.induct) (auto split: if_splits)

lemma name_search_override: "name_search True language name xs k \<in> insert Absent (range Replace)"
  by (induction "True" language name xs k rule: name_search.induct) auto

lemma name_map_put:
  assumes "\<And>e. sn_id (f e) = sn_id e" "\<And>e. appType (f e) = appType e" "\<And>e. source_names (f e) = source_names e"
  shows "name_map (put_name a f c) = name_map c"
  by (rule ext)
    (auto simp: name_map_def find_source_name_put[OF assms(1,2)] get_name_entry_put assms(3) split: option.splits)

lemma SetSourceLongName_ok:
  assumes "names_wf c" "get_name_entry c a = Some e" "\<And>i. alloc_ok c i"
  shows "\<exists>c'. SetSourceLongName a name language c = Some (RMF_SUCCESS, c') \<and> names_wf c' \<and>
    names_frame c c' \<and> name_map c' = name_map c"
proof -
  let ?g = "\<lambda>g. put_name a (\<lambda>e. e\<lparr>source_long_names := g (source_long_names e)\<rparr>) c"
  have fin: "names_wf ((?g g)\<lparr>alloc_cnt := n\<rparr>) \<and> names_frame c ((?g g)\<lparr>alloc_cnt := n\<rparr>) \<and>
      name_map ((?g g)\<lparr>alloc_cnt := n\<rparr>) = name_map c" if "alloc_cnt c \<le> n" for g n
    using assms(1) that by (simp add: names_wf_alloc names_frame_alloc name_map_put)
  consider (abs) "name_search True language name (source_long_names e) 0 = Absent"
    | (repl) k where "name_search True language name (source_long_names e) 0 = Replace k"
    using name_search_override[of language name "source_long_names e" 0] by auto
  then show ?thesis
  proof cases
    case abs
    with assms(2,3) fin[of "Suc (Suc (alloc_cnt c))" "\<lambda>xs. (language, Some name) # xs"] show ?thesis
      by (simp add: SetSourceLongName_def memAllocP_def upd_name_entry_put)
  next
    case repl
    with assms(2,3) fin[of "Suc (alloc_cnt c)" "\<lambda>xs. xs[k := (language, Some name)]"] show ?thesis
      by (simp add: SetSourceLongName_def memAllocP_def upd_name_entry_put)
  qed
qed

lemma SetSourceName_ok:
  assumes "names_wf c" "get_name_entry c a = Some e" "\<And>i. alloc_ok c i" "map_of (source_names e) language = None"
  shows "SetSourceName a name language ovr c = Some (RMF_SUCCESS,
    (put_name a (\<lambda>e. e\<lparr>source_names := (language, Some name) # source_names e\<rparr>) c)\<lparr>alloc_cnt := Suc (Suc (alloc_cnt c))\<rparr>)"
  using assms by (simp add: SetSourceName_def name_search_Absent memAllocP_def upd_name_entry_put)

text \<open>Both updates of \<open>sns_store\<close> on an entry that has no name in the language.\<close>

lemma set_both_names:
  assumes wf: "names_wf c" and a: "find_source_name i app (g_si_sourcename_entry c) = Some a"
    and e: "get_name_entry c a = Some e" "map_of (source_names e) language = None" and ok: "\<And>i. alloc_ok c i"
  shows "\<exists>c'. (do { (_, c) \<leftarrow> SetSourceName a name language ovr c;
                    (_, c) \<leftarrow> SetSourceLongName a name language c;
                    Some (NO_PARSING_ERROR, c) }) = Some (NO_PARSING_ERROR, c') \<and>
    names_wf c' \<and> names_frame c c' \<and> name_map c' = (name_map c)((i, app, language) \<mapsto> Some name)"
proof -
  let ?f = "\<lambda>e. e\<lparr>source_names := (language, Some name) # source_names e\<rparr>"
  let ?c1 = "(put_name a ?f c)\<lparr>alloc_cnt := Suc (Suc (alloc_cnt c))\<rparr>"
  have wf1: "names_wf ?c1" "names_frame c ?c1" using wf by (simp_all add: names_wf_alloc names_frame_alloc)
  have e1: "get_name_entry ?c1 a = Some (?f e)" using e(1) by (simp add: get_name_entry_put)
  have ok1: "alloc_ok ?c1 i" for i using ok by simp
  obtain c' where c': "SetSourceLongName a name language ?c1 = Some (RMF_SUCCESS, c')" "names_wf c'"
    "names_frame ?c1 c'" "name_map c' = name_map ?c1"
    using SetSourceLongName_ok[OF wf1(1) e1 ok1] by auto
  have fs: "find_source_name j b (g_si_sourcename_entry (put_name a ?f c)) = find_source_name j b (g_si_sourcename_entry c)"
    for j b by (rule find_source_name_put) simp_all
  have key: "j = i \<and> b = app" if f: "find_source_name j b (g_si_sourcename_entry c) = Some a" for j b
  proof -
    obtain e1 where "get_name_entry c a = Some e1" "sn_id e1 = j" "appType e1 = b"
      by (rule find_source_name_entry[OF wf f])
    moreover obtain e2 where "get_name_entry c a = Some e2" "sn_id e2 = i" "appType e2 = app"
      by (rule find_source_name_entry[OF wf a])
    ultimately show ?thesis by simp
  qed
  have "name_map ?c1 = (name_map c)((i, app, language) \<mapsto> Some name)"
  proof (rule ext)
    fix k :: name_key
    obtain j b l where k: "k = (j, b, l)" by (cases k)
    show "name_map ?c1 k = ((name_map c)((i, app, language) \<mapsto> Some name)) k"
    proof (cases "j = i \<and> b = app")
      case True
      with a e(1) show ?thesis by (auto simp: k name_map_def fs get_name_entry_put)
    next
      case False
      with key[of j b] show ?thesis
        by (cases "find_source_name j b (g_si_sourcename_entry c)") (auto simp: k name_map_def fs get_name_entry_put)
    qed
  qed
  with SetSourceName_ok[OF wf e(1) ok e(2)] c' names_frame_trans[OF wf1(2) c'(3)] show ?thesis by simp
qed

lemma new_name_entry:
  assumes wf: "names_wf c" and none: "find_source_name i app (g_si_sourcename_entry c) = None"
  defines "c1 \<equiv> c\<lparr>alloc_cnt := Suc (alloc_cnt c), g_si_sourcename_entry :=
     (Suc (alloc_cnt c), \<lparr>appType = app, sn_id = i, sn_mapped = False, source_names = [], source_long_names = []\<rparr>)
     # g_si_sourcename_entry c\<rparr>"
  shows "names_wf c1" "name_map c1 = name_map c"
proof -
  have fresh: "Suc (alloc_cnt c) \<notin> fst ` set (g_si_sourcename_entry c)"
    using wf by (auto simp: names_wf_def)
  then show "names_wf c1" using wf by (auto simp: names_wf_def c1_def)
  show "name_map c1 = name_map c"
  proof (rule ext)
    fix k :: name_key
    obtain j b l where k: "k = (j, b, l)" by (cases k)
    have "x \<noteq> Suc (alloc_cnt c)" if "find_source_name j b (g_si_sourcename_entry c) = Some x" for x
      using find_source_name_Some[OF that] fresh by force
    then show "name_map c1 k = name_map c k"
      using none by (cases "find_source_name j b (g_si_sourcename_entry c)")
        (auto simp: k name_map_def c1_def get_name_entry_def)
  qed
qed

lemma sns_store_refines:
  assumes wf: "names_wf c" and ok: "\<And>i. alloc_ok c i" and id: "source_ID \<noteq> 0"
  shows "\<exists>c'. sns_store language name source_ID app c = Some (NO_PARSING_ERROR, c') \<and>
    names_wf c' \<and> names_frame c c' \<and> name_map c' = add_name (ucast source_ID, app, language) name (name_map c)"
proof -
  let ?i = "ucast source_ID :: 32 word"
  have valid: "\<not> (?i = 0 \<or> ?i > 65535)"
  proof -
    have "unat source_ID < 2 ^ LENGTH(16)" by (rule unsigned_less)
    moreover have "unat source_ID \<noteq> 0" using id by (simp add: unat_eq_0)
    ultimately show ?thesis
      unfolding word_less_nat_alt word_unat_eq_iff[of ?i 0] by simp
  qed
  show ?thesis
  proof (cases "find_source_name ?i app (g_si_sourcename_entry c)")
    case (Some a)
    obtain e where e: "get_name_entry c a = Some e" by (rule find_source_name_entry[OF wf Some])
    have g: "GetSourceNameEntry ?i app False c = (RMF_SUCCESS, Some a, c)"
      using valid Some by (simp add: GetSourceNameEntry_def)
    have nm: "name_map c (?i, app, language) = map_of (source_names e) language"
      by (simp add: name_map_def Some e)
    have pr: "IsSourceNameLanguagePresent a language c = Some (map_of (source_names e) language \<noteq> None)"
      by (force simp: IsSourceNameLanguagePresent_def e list_ex_iff map_of_eq_None_iff)
    show ?thesis
    proof (cases "map_of (source_names e) language")
      case None
      with set_both_names[OF wf Some e None ok, of name True] nm show ?thesis
        by (auto simp: sns_store_def g pr add_name_def)
    next
      case (Some s)
      then show ?thesis using nm wf by (auto simp: sns_store_def g pr add_name_def)
    qed
  next
    case None
    let ?a = "Suc (alloc_cnt c)"
    let ?e = "\<lparr>appType = app, sn_id = ?i, sn_mapped = False, source_names = [], source_long_names = []\<rparr>"
    let ?c1 = "c\<lparr>alloc_cnt := ?a, g_si_sourcename_entry := (?a, ?e) # g_si_sourcename_entry c\<rparr>"
    have g: "GetSourceNameEntry ?i app False c = (RMF_SUCCESS, None, c)"
      "GetSourceNameEntry ?i app True c = (RMF_SUCCESS, Some ?a, ?c1)"
      using valid None ok by (simp_all add: GetSourceNameEntry_def memAllocP_def)
    note n1 = new_name_entry[OF wf None]
    have "names_wf ?c1" "find_source_name ?i app (g_si_sourcename_entry ?c1) = Some ?a"
      "get_name_entry ?c1 ?a = Some ?e" "map_of (source_names ?e) language = None" "\<And>i. alloc_ok ?c1 i"
      using n1 ok by (simp_all add: get_name_entry_def)
    note both = set_both_names[OF this, of name False]
    have "names_frame c ?c1" by (simp add: names_frame_def)
    moreover have "name_map c (?i, app, language) = None" by (simp add: name_map_def None)
    ultimately show ?thesis
      using both n1(2) names_frame_trans[of c ?c1]
      by (auto simp: sns_store_def g add_name_def)
  qed
qed

section \<open>Encoded source names\<close>

record sns_entry =
  sns_application :: bool
  sns_id :: nat
  sns_mode :: byte
  sns_name :: "byte list"
  sns_descriptors :: "descriptor list"

definition enc_sns :: "sns_entry \<Rightarrow> byte list" where
  "enc_sns r = [128 * of_bool (sns_application r), word_of_nat (sns_id r div 256), word_of_nat (sns_id r mod 256),
     word_of_nat (2 + length (sns_name r)), sns_mode r, word_of_nat (length (sns_name r))]
     @ sns_name r @ [word_of_nat (length (sns_descriptors r))] @ enc_descriptors (sns_descriptors r)"

definition sns_ok :: "sns_entry \<Rightarrow> bool" where
  "sns_ok r \<longleftrightarrow> 1 \<le> sns_id r \<and> sns_id r < 65536 \<and> sns_mode r < 0x40 \<and> sns_name r \<noteq> [] \<and>
     length (sns_name r) \<le> 253 \<and> list_all (\<lambda>b. b \<noteq> 0) (sns_name r) \<and>
     length (sns_descriptors r) < 256 \<and> list_all descriptor_ok (sns_descriptors r)"

definition sns_apply :: "cstring \<Rightarrow> sns_entry \<Rightarrow> rmf_OobSiCache \<Rightarrow> rmf_OobSiCache" where
  "sns_apply language r c =
     snd (the (sns_store language (sns_name r) (word_of_nat (sns_id r)) (sns_application r) c))"

definition sns_ready :: "sns_entry \<Rightarrow> sns_state \<Rightarrow> bool" where
  "sns_ready r st \<longleftrightarrow> sns_ok r \<and> names_wf (n_cache st) \<and> (\<forall>i. alloc_ok (n_cache st) i) \<and>
     length (n_segment st) = 256 \<and> length (enc_sns r) \<le> unat (n_len st) \<and> unat (n_len st) < 2 ^ 31"

definition sns_post :: "cstring \<Rightarrow> sns_entry \<Rightarrow> sns_state \<Rightarrow> sns_state" where
  "sns_post language r st =
     \<lparr>n_pos = n_pos st + length (enc_sns r), n_len = n_len st - word_of_nat (length (enc_sns r)),
      n_segment = (sns_name r @ drop (length (sns_name r)) (n_segment st))[length (sns_name r) := 0],
      n_cache = sns_apply language r (n_cache st)\<rparr>"

lemma mts_copy_eq:
  assumes "holds_at buf p name" "ii + length name \<le> length segment"
  shows "mts_copy (length name) ii buf p segment =
    Some (take ii segment @ name @ drop (ii + length name) segment, p + length name)"
  using assms
proof (induction name arbitrary: ii p segment)
  case (Cons b name)
  let ?s = "segment[ii := b]"
  have "mts_copy (length name) (Suc ii) buf (Suc p) ?s =
      Some (take (Suc ii) ?s @ name @ drop (Suc ii + length name) ?s, Suc p + length name)"
    using Cons.IH[of "Suc p" "Suc ii" ?s] Cons.prems by simp
  moreover have "take (Suc ii) ?s = take ii segment @ [b]"
    using Cons.prems(2) by (simp add: take_Suc_conv_app_nth)
  ultimately show ?case using Cons.prems by (simp add: wr_def)
qed simp

lemma parseMTS_enc:
  assumes "holds_at buf p (mode # word_of_nat (length name) # name)" "mode < 0x40" "length name < 256"
    and "length segment = 256"
  shows "parseMTS buf p segment = Some (word_of_nat (length name), name @ drop (length name) segment, p + 2 + length name)"
proof -
  have "holds_at buf (p + 2) name" "rd buf p = Some mode" "rd buf (p + 1) = Some (word_of_nat (length name))"
    using assms(1) by simp_all
  with mts_copy_eq[of buf "p + 2" name 0 segment] assms(2-4) show ?thesis
    by (simp add: parseMTS_def not_le)
qed

lemma c_string_terminated: "list_all (\<lambda>b. b \<noteq> 0) name \<Longrightarrow> c_string (name @ 0 # rest) = name"
  unfolding c_string_def by (induction name) auto

lemma sns_apply_eq:
  assumes "sns_ok r" "names_wf c" "\<And>i. alloc_ok c i"
  shows "sns_store language (sns_name r) (word_of_nat (sns_id r)) (sns_application r) c =
      Some (NO_PARSING_ERROR, sns_apply language r c)"
    and "names_wf (sns_apply language r c)" "names_frame c (sns_apply language r c)"
    and "name_map (sns_apply language r c) =
      add_name (word_of_nat (sns_id r), sns_application r, language) (sns_name r) (name_map c)"
proof -
  let ?id = "word_of_nat (sns_id r) :: 16 word"
  have "?id \<noteq> 0" "ucast ?id = (word_of_nat (sns_id r) :: 32 word)"
    using assms(1) by (auto simp: sns_ok_def word_unat_eq_iff unat_of_nat)
  with sns_store_refines[OF assms(2,3), of ?id language "sns_name r" "sns_application r"]
  show "sns_store language (sns_name r) ?id (sns_application r) c = Some (NO_PARSING_ERROR, sns_apply language r c)"
    and "names_wf (sns_apply language r c)" "names_frame c (sns_apply language r c)"
    and "name_map (sns_apply language r c) =
      add_name (word_of_nat (sns_id r), sns_application r, language) (sns_name r) (name_map c)"
    by (auto simp: sns_apply_def)
qed

lemma sns_record_enc:
  assumes ready: "sns_ready r st" and buf: "holds_at buf (n_pos st) (enc_sns r)"
  shows "sns_record language buf st = Some (NO_PARSING_ERROR, sns_post language r st)"
proof -
  from ready have ok: "sns_ok r" by (simp add: sns_ready_def)
  let ?n = "length (sns_name r)" and ?D = "sns_descriptors r" and ?p = "n_pos st"
  let ?L = "length (enc_descriptors ?D)" and ?seg = "sns_name r @ drop (length (sns_name r)) (n_segment st)"
  have len: "length (enc_sns r) = 7 + ?n + ?L" by (simp add: enc_sns_def)
  have seg: "length (n_segment st) = 256" and n: "?n \<noteq> 0" "?n \<le> 253" "?n < 256" "?n + 2 < 256"
    and lb: "7 + ?n + ?L \<le> unat (n_len st)" "unat (n_len st) < 2 ^ 31"
    using ready ok len by (simp_all add: sns_ready_def sns_ok_def)
  have mode: "sns_mode r < 0x40" using ok unfolding sns_ok_def by blast
  note b6 = buf[unfolded enc_sns_def append_Cons append_Nil holds_at_6 holds_at_append]
  have mts: "parseMTS buf (?p + 4) (n_segment st) = Some (word_of_nat ?n, ?seg, ?p + 4 + 2 + ?n)"
    by (rule parseMTS_enc[OF _ mode n(3) seg]) (use b6 in \<open>simp add: add.commute\<close>)
  have wr: "wr ?seg ?n 0 = Some (?seg[?n := 0])" using seg n by (simp add: wr_def)
  have "drop ?n (n_segment st) \<noteq> []" using seg n by simp
  then obtain x xs where "drop ?n (n_segment st) = x # xs" by (cases "drop ?n (n_segment st)") auto
  then have "?seg[?n := 0] = sns_name r @ 0 # xs" by (simp add: list_update_append)
  then have str: "c_string (?seg[?n := 0]) = sns_name r"
    using ok by (simp add: c_string_terminated sns_ok_def)
  have app: "TESTBITS (128 * of_bool (sns_application r)) 8 8 \<noteq> 0 \<longleftrightarrow> sns_application r"
    by (simp add: TESTBITS_def)
  have id: "be16 (word_of_nat (sns_id r div 256)) (word_of_nat (sns_id r mod 256)) = word_of_nat (sns_id r)"
    using ok by (simp add: be16_of_nat sns_ok_def)
  have sl: "ucast (word_of_nat (2 + ?n) :: byte) = (word_of_nat (2 + ?n) :: 32 word)"
    using n by (intro ucast_of_nat_8_32) simp
  have dc: "rd buf (?p + 4 + 2 + ?n) = Some (word_of_nat (length ?D))"
    "holds_at buf (?p + 4 + 2 + ?n + 1) (enc_descriptors ?D)"
    using b6 by (simp_all add: add.commute add.left_commute)
  have "unat (n_len st - word_of_nat (7 + ?n)) = unat (n_len st) - (7 + ?n)"
    by (rule unat_sub_of_nat) (use lb in simp)
  then have skip: "skip_descriptors (length ?D) buf (?p + 4 + 2 + ?n + 1) (n_len st - word_of_nat (7 + ?n)) =
      Some (False, ?p + 4 + 2 + ?n + 1 + ?L, n_len st - word_of_nat (7 + ?n) - word_of_nat ?L)"
    by (intro skip_descriptors_enc) (use dc ok lb in \<open>simp_all add: sns_ok_def\<close>)
  have store: "sns_store language (sns_name r) (word_of_nat (sns_id r)) (sns_application r) (n_cache st) =
      Some (NO_PARSING_ERROR, sns_apply language r (n_cache st))"
    using ready by (intro sns_apply_eq) (auto simp: sns_ready_def)
  have nz: "(word_of_nat ?n :: byte) \<noteq> 0" and un: "unat (word_of_nat ?n :: byte) = ?n"
    "unat (word_of_nat (length ?D) :: byte) = length ?D"
    using n ok by (simp_all add: of_nat_byte_eq sns_ok_def)
  show ?thesis
    using b6[simplified] mts wr str app id sl[simplified] dc(1) skip store nz un
    by (simp add: sns_record_def sns_post_def len Let_def diff_diff_add)
qed

interpretation sns: record_parser "sns_record language" enc_sns sns_ready "sns_post language" n_pos n_len
  for language
  by unfold_locales (simp_all add: sns_record_enc, simp_all add: sns_post_def)

lemma sns_along:
  assumes "list_all sns_ok rs" "names_wf (n_cache st)" "\<And>i. alloc_ok (n_cache st) i" "length (n_segment st) = 256"
    "length (concat (map enc_sns rs)) \<le> unat (n_len st)" "unat (n_len st) < 2 ^ 31"
  shows "all_along sns_ready (sns_post language) rs st \<and>
    n_cache (fold (sns_post language) rs st) = fold (sns_apply language) rs (n_cache st)"
  using assms
proof (induction rs arbitrary: st)
  case (Cons r rs)
  let ?s = "sns_post language r st"
  have ready: "sns_ready r st" using Cons.prems by (simp add: sns_ready_def)
  have ap: "names_wf (n_cache ?s)" "names_frame (n_cache st) (n_cache ?s)"
    using sns_apply_eq(2,3)[of r "n_cache st" language] Cons.prems by (simp_all add: sns_post_def)
  have "length (n_segment ?s) = 256"
    using Cons.prems(1,4) by (simp add: sns_post_def sns_ok_def)
  moreover have "unat (n_len ?s) = unat (n_len st) - length (enc_sns r)"
    using Cons.prems(5) by (simp add: sns_post_def unat_sub_of_nat)
  moreover have "alloc_ok (n_cache ?s) i" for i using ap(2) Cons.prems(3) by (simp add: names_frame_def)
  ultimately have "all_along sns_ready (sns_post language) rs ?s \<and>
    n_cache (fold (sns_post language) rs ?s) = fold (sns_apply language) rs (n_cache ?s)"
    using Cons.IH[of ?s] Cons.prems ap(1) by simp
  moreover have "n_cache ?s = sns_apply language r (n_cache st)" by (simp add: sns_post_def)
  ultimately show ?case using ready by simp
qed simp

text \<open>What a subtable means: every name is added under its key in order, the first one stays.\<close>

definition sns_names :: "cstring \<Rightarrow> sns_entry list \<Rightarrow> (name_key \<rightharpoonup> cstring option) \<Rightarrow> (name_key \<rightharpoonup> cstring option)" where
  "sns_names language rs m =
     fold (\<lambda>r. add_name (word_of_nat (sns_id r), sns_application r, language) (sns_name r)) rs m"

lemma fold_sns_apply:
  assumes "list_all sns_ok rs" "names_wf c" "\<And>i. alloc_ok c i"
  shows "name_map (fold (sns_apply language) rs c) = sns_names language rs (name_map c) \<and>
    names_wf (fold (sns_apply language) rs c) \<and> names_frame c (fold (sns_apply language) rs c)"
  using assms
proof (induction rs arbitrary: c)
  case (Cons r rs)
  note ap = sns_apply_eq(2-4)[of r c language]
  have "alloc_ok (sns_apply language r c) i" for i
    using ap(2) Cons.prems by (simp add: names_frame_def)
  then show ?case
    using Cons.IH[of "sns_apply language r c"] Cons.prems ap names_frame_trans[of c "sns_apply language r c"]
    by (simp add: sns_names_def)
qed (simp add: sns_names_def)

definition enc_sns_subtable :: "sns_entry list \<Rightarrow> byte list" where
  "enc_sns_subtable rs = word_of_nat (length rs) # concat (map enc_sns rs)"

lemma parseSNSSubtable_enc:
  assumes rs: "list_all sns_ok rs" "length rs < 256" and wf: "names_wf c" "\<And>i. alloc_ok c i"
    and buf: "holds_at buf p (enc_sns_subtable rs)"
    and sl: "length (enc_sns_subtable rs) \<le> unat sl" "unat sl < 2 ^ 31"
  shows "parseSNSSubtable language buf p sl c =
    Some (NO_PARSING_ERROR, p + length (enc_sns_subtable rs), sl - word_of_nat (length (enc_sns_subtable rs)),
          fold (sns_apply language) rs c)"
proof -
  let ?st = "\<lparr>n_pos = p + 1, n_len = sl - 1, n_segment = replicate 256 0, n_cache = c\<rparr>"
  let ?t = "fold (sns_post language) rs ?st"
  have "unat (sl - 1) = unat sl - 1" using unat_sub_of_nat[of 1 sl] sl(1) by (simp add: enc_sns_subtable_def)
  then have al: "all_along sns_ready (sns_post language) rs ?st" "n_cache ?t = fold (sns_apply language) rs c"
    using sns_along[of rs ?st language] rs wf sl by (simp_all add: enc_sns_subtable_def)
  have "record_loop (sns_record language buf) (length rs) ?st = Some (NO_PARSING_ERROR, ?t)"
    by (rule sns.loop_enc) (use al buf in \<open>simp_all add: enc_sns_subtable_def\<close>)
  moreover have "n_pos ?t = p + 1 + length (concat (map enc_sns rs))"
    "n_len ?t = sl - 1 - word_of_nat (length (concat (map enc_sns rs)))"
    using sns.loop_pos[of language rs ?st] al by simp_all
  moreover have "rd buf p = Some (word_of_nat (length rs))" using buf by (simp add: enc_sns_subtable_def)
  ultimately show ?thesis
    using rs(2) al(2) by (simp add: parseSNSSubtable_def enc_sns_subtable_def diff_diff_add)
qed

section \<open>The encoded table\<close>

record ntt_table =
  ntt_lang :: "byte list"
  ntt_names :: "sns_entry list"
  ntt_rest :: section_tail

definition enc_ntt_as :: "byte \<Rightarrow> byte \<Rightarrow> ntt_table \<Rightarrow> byte list" where
  "enc_ntt_as table_id subtype t =
     (let rest = enc_sns_subtable (ntt_names t) @ enc_tail (ntt_rest t)
      in [table_id] @ enc_length (5 + length rest) @ [0] @ ntt_lang t @ [subtype] @ rest)"

definition enc_ntt :: "ntt_table \<Rightarrow> byte list" where
  "enc_ntt t = enc_ntt_as 0xC3 6 t"

definition ntt_ok :: "ntt_table \<Rightarrow> bool" where
  "ntt_ok t \<longleftrightarrow> length (ntt_lang t) = 3 \<and> length (ntt_names t) < 256 \<and> list_all sns_ok (ntt_names t) \<and>
     tail_ok (ntt_rest t) \<and> length (enc_sns_subtable (ntt_names t)) + length (enc_tail (ntt_rest t)) \<le> 1016"

definition ntt_table_language :: "ntt_table \<Rightarrow> cstring" where
  "ntt_table_language t = ntt_language (ntt_lang t ! 0) (ntt_lang t ! 1) (ntt_lang t ! 2)"

text \<open>The table whatever its table id and subtype octets say: the parser does not act on them.\<close>

lemma parseAndUpdateNTT_enc:
  assumes t: "ntt_ok t" and wf: "names_wf (m_pSiCache P)" "sf_wf (m_pSectionFilter P)"
    and ok: "\<And>i. alloc_ok (m_pSiCache P) i"
    and bytes: "section_bytes (m_pSectionFilter P) h = Some (enc_ntt_as b0 b7 t)"
    and loc: "length stack_buffer = 1021"
  shows "\<exists>c'. parseAndUpdateNTT stack_buffer h out P =
      Some (RMF_SUCCESS, tail_out (ntt_rest t) out, P\<lparr>m_pSiCache := c'\<rparr>) \<and>
    name_map c' = sns_names (ntt_table_language t) (ntt_names t) (name_map (m_pSiCache P)) \<and>
    names_wf c' \<and> names_frame (m_pSiCache P) c'"
proof -
  let ?B = "enc_sns_subtable (ntt_names t)" and ?T = "enc_tail (ntt_rest t)" and ?lang = "ntt_table_language t"
  let ?sf = "m_pSectionFilter P" and ?c = "fold (sns_apply (ntt_table_language t)) (ntt_names t) (m_pSiCache P)"
  define n where "n = length ?B + length ?T"
  from t have "length (ntt_lang t) = 3" by (simp add: ntt_ok_def)
  then obtain l1 l2 l3 where lang: "ntt_lang t = [l1, l2, l3]"
    by (auto simp: length_Suc_conv eval_nat_numeral)
  have n: "n \<le> 1016" "length ?B + 4 \<le> n" "length ?B + length ?T = n" "5 + n < 4096"
    using t by (simp_all add: ntt_ok_def enc_tail_def n_def)
  have enc: "enc_ntt_as b0 b7 t = [b0, word_of_nat (0x30 + (5 + n) div 256), word_of_nat ((5 + n) mod 256), 0, l1, l2, l3, b7] @ ?B @ ?T"
    by (simp add: enc_ntt_as_def enc_length_def Let_def lang n_def)
  then have len: "length (enc_ntt_as b0 b7 t) = 8 + n" "drop 8 (enc_ntt_as b0 b7 t) = ?B @ ?T" by (simp_all add: n_def)
  have un: "unat (word_of_nat n :: 32 word) = n" using n by (simp only: unat_of_nat) simp
  then have n0: "(word_of_nat n :: 32 word) \<noteq> 0" using n(2) by (metis add_is_0 le_zero_eq unat_0 zero_neq_numeral)
  obtain buf where r1: "ReadSection ?sf h 0 8 0 stack_buffer = Some (RMF_SUCCESS, buf, Some 8, ?sf)"
    and b1: "holds_at buf 0 (take 8 (enc_ntt_as b0 b7 t))" "length buf = 1021"
    by (rule sfsrc.read_holds_at[OF wf(2) bytes, of 0 8 stack_buffer]) (use loc len in auto)
  have take8: "take 8 (enc_ntt_as b0 b7 t) = [b0, word_of_nat (0x30 + (5 + n) div 256), word_of_nat ((5 + n) mod 256), 0, l1, l2, l3, b7]"
    by (simp add: enc)
  obtain buf' where r2: "ReadSection ?sf h 8 (word_of_nat n) 0 buf = Some (RMF_SUCCESS, buf', Some (word_of_nat n), ?sf)"
    and b2: "holds_at buf' 0 (?B @ ?T)"
    by (rule sfsrc.read_holds_at[OF wf(2) bytes, of 8 "word_of_nat n" buf])
      (use n b1 len un n0 in auto)
  have sub: "unat (word_of_nat n - word_of_nat (length ?B) :: 32 word) = length ?T"
    using n by (subst unat_sub_of_nat) (simp_all add: un)
  have sns: "parseSNSSubtable ?lang buf' 0 (word_of_nat n) (m_pSiCache P) =
      Some (NO_PARSING_ERROR, length ?B, word_of_nat n - word_of_nat (length ?B), ?c)"
    using parseSNSSubtable_enc[of "ntt_names t" "m_pSiCache P" buf' 0 "word_of_nat n" ?lang] t wf(1) ok b2 n un
    by (simp add: ntt_ok_def)
  have tail: "table_tail buf' (length ?B) (word_of_nat n - word_of_nat (length ?B)) NO_PARSING_ERROR out =
      Some (NO_PARSING_ERROR, tail_out (ntt_rest t) out)"
    by (rule table_tail_enc) (use t b2 sub n in \<open>simp_all add: ntt_ok_def\<close>)
  have l: "be12 (word_of_nat (0x30 + (5 + n) div 256)) (word_of_nat ((5 + n) mod 256)) - (8 - 3) = word_of_nat n"
    unfolding be12_enc_length[OF n(4)] by simp
  have lg: "ntt_language l1 l2 l3 = ?lang" by (simp add: ntt_table_language_def lang)
  have "parseAndUpdateNTT stack_buffer h out P = Some (RMF_SUCCESS, tail_out (ntt_rest t) out, P\<lparr>m_pSiCache := ?c\<rparr>)"
    unfolding parseAndUpdateNTT_def Let_def
    using r1 r2 b1(1)[unfolded take8 holds_at_8 add_0] sns tail l[simplified] lg by simp
  moreover have "name_map ?c = sns_names ?lang (ntt_names t) (name_map (m_pSiCache P)) \<and>
      names_wf ?c \<and> names_frame (m_pSiCache P) ?c"
    using fold_sns_apply[OF _ wf(1) ok] t by (simp add: ntt_ok_def)
  ultimately show ?thesis by blast
qed

text \<open>
  C3. The NTT round trip: a section that encodes source names is parsed without an error, its
  revision data and CRC arrive, and the source names of the cache, read as a map from id and
  language to a name, are those of before with the names of the table added in order, a key that
  had a name keeping it; service entries, frequencies and modes are untouched.
\<close>

theorem parseAndUpdateNTT_roundtrip:
  assumes t: "ntt_ok t" and wf: "names_wf (m_pSiCache P)" "sf_wf (m_pSectionFilter P)"
    and ok: "\<And>i. alloc_ok (m_pSiCache P) i"
    and bytes: "section_bytes (m_pSectionFilter P) h = Some (enc_ntt t)"
    and loc: "length stack_buffer = 1021"
  shows "\<exists>c'. parseAndUpdateNTT stack_buffer h out P =
      Some (RMF_SUCCESS, tail_out (ntt_rest t) out, P\<lparr>m_pSiCache := c'\<rparr>) \<and>
    name_map c' = sns_names (ntt_table_language t) (ntt_names t) (name_map (m_pSiCache P)) \<and>
    names_wf c' \<and> names_frame (m_pSiCache P) c'"
  using parseAndUpdateNTT_enc[OF t wf ok _ loc] bytes unfolding enc_ntt_def by blast

definition ntt_example :: ntt_table where
  "ntt_example =
     \<lparr>ntt_lang = [0x65, 0x6E, 0x67],
      ntt_names = [\<lparr>sns_application = False, sns_id = 1000, sns_mode = 0, sns_name = [0x43, 0x4E, 0x4E], sns_descriptors = []\<rparr>],
      ntt_rest = \<lparr>tail_rdd = Some (3, 0, 1), tail_descs = [], tail_crc = 7\<rparr>\<rparr>"

lemma ntt_example_ok:
  "ntt_ok ntt_example" "length (enc_ntt_as b0 b7 ntt_example) < 65536"
  "names_wf (m_pSiCache (single_section_parser bs))" "alloc_ok (m_pSiCache (single_section_parser bs)) i"
  by (simp_all add: ntt_example_def ntt_ok_def sns_ok_def tail_ok_def enc_ntt_as_def Let_def enc_length_def
      enc_sns_subtable_def enc_sns_def enc_tail_def enc_rdd_def be32_bytes_def single_section_parser_def
      rmf_OobSiCache_new_def names_wf_def)

theorem parseAndUpdateNTT_roundtrip_witness:
  "\<exists>c'. parseAndUpdateNTT (replicate 1021 0) 1 \<lparr>out_version = 0, out_section_number = 0, out_last_section_number = 0, out_crc = 0\<rparr>
     (single_section_parser (enc_ntt ntt_example)) =
   Some (RMF_SUCCESS, \<lparr>out_version = 3, out_section_number = 0, out_last_section_number = 1, out_crc = 7\<rparr>,
     (single_section_parser (enc_ntt ntt_example))\<lparr>m_pSiCache := c'\<rparr>) \<and>
   name_map c' (1000, False, [0x65, 0x6E, 0x67]) = Some (Some [0x43, 0x4E, 0x4E])"
proof -
  let ?P = "single_section_parser (enc_ntt ntt_example)"
  have e: "length (enc_ntt ntt_example) < 65536" using ntt_example_ok(2) by (simp add: enc_ntt_def)
  have "name_map (m_pSiCache ?P) = Map.empty"
    by (simp add: name_map_def single_section_parser_def rmf_OobSiCache_new_def fun_eq_iff)
  then have "sns_names (ntt_table_language ntt_example) (ntt_names ntt_example) (name_map (m_pSiCache ?P))
      (1000, False, [0x65, 0x6E, 0x67]) = Some (Some [0x43, 0x4E, 0x4E])"
    by (simp add: sns_names_def ntt_example_def ntt_table_language_def ntt_language_def c_string_def add_name_def)
  moreover have "tail_out (ntt_rest ntt_example) \<lparr>out_version = 0, out_section_number = 0, out_last_section_number = 0, out_crc = 0\<rparr>
      = \<lparr>out_version = 3, out_section_number = 0, out_last_section_number = 1, out_crc = 7\<rparr>"
    by (simp add: tail_out_def ntt_example_def)
  ultimately show ?thesis
    using parseAndUpdateNTT_roundtrip[OF ntt_example_ok(1) ntt_example_ok(3) single_section_parser_ok(1)[OF e]
        ntt_example_ok(4) single_section_parser_ok(2)[OF e], of "replicate 1021 0"
        "\<lparr>out_version = 0, out_section_number = 0, out_last_section_number = 0, out_crc = 0\<rparr>"]
    by auto
qed

text \<open>
  The NTT parser accepts a section of any table id and any subtype: the header errors 2, 5, 6
  and 7 are overwritten by the result of the source name subtable, so the names of the section
  enter the cache and the section counts as parsed.
\<close>

theorem parseAndUpdateNTT_ignores_header_errors:
  assumes "ntt_ok t" "names_wf (m_pSiCache P)" "sf_wf (m_pSectionFilter P)" "\<And>i. alloc_ok (m_pSiCache P) i"
    and "section_bytes (m_pSectionFilter P) h = Some (enc_ntt_as table_id subtype t)" "length stack_buffer = 1021"
  shows "\<exists>c'. parseAndUpdateNTT stack_buffer h out P =
      Some (RMF_SUCCESS, tail_out (ntt_rest t) out, P\<lparr>m_pSiCache := c'\<rparr>) \<and>
    name_map c' = sns_names (ntt_table_language t) (ntt_names t) (name_map (m_pSiCache P))"
  using parseAndUpdateNTT_enc[OF assms] by blast

theorem parseAndUpdateNTT_ignores_header_errors_witness:
  "\<exists>P'. parseAndUpdateNTT (replicate 1021 0) 1 \<lparr>out_version = 0, out_section_number = 0, out_last_section_number = 0, out_crc = 0\<rparr>
     (single_section_parser (enc_ntt_as 0xC2 0xF1 ntt_example)) =
   Some (RMF_SUCCESS, tail_out (ntt_rest ntt_example) \<lparr>out_version = 0, out_section_number = 0, out_last_section_number = 0, out_crc = 0\<rparr>, P')"
  using parseAndUpdateNTT_ignores_header_errors[OF ntt_example_ok(1) ntt_example_ok(3)
      single_section_parser_ok(1)[OF ntt_example_ok(2)] ntt_example_ok(4)
      single_section_parser_ok(2)[OF ntt_example_ok(2)], of "replicate 1021 0"] by (metis length_replicate)

end
