(* ===== verification/RevisionData.thy ===== *)
theory RevisionData
  imports Crc NitParser SvctParser NttParser
begin

text \<open>
  The revision pass of \<open>qamsource/simgr/oob/src/rmf_oobsiparser.cpp\<close>: before a section is parsed
  the SI manager asks \<open>get_revision_data\<close> for its version, section numbers and CRC, which a second,
  smaller parser per table finds by skipping the records. \<open>section_length\<close> is \<open>uint16_t\<close> here and
  wraps. The local arrays are uninitialised in the code; their initial content is an argument.
  \<open>parseAndUpdateSTT\<close> and the dispatcher \<open>parseAndUpdateTable\<close> complete the parser.
\<close>

abbreviation (input) NO_VERSION :: byte where "NO_VERSION \<equiv> 0xFF"
abbreviation (input) SNS_TABLE_SUBTYPE :: "32 word" where "SNS_TABLE_SUBTYPE \<equiv> 6"

section \<open>Skipping\<close>

text \<open>
  \<open>while (descriptor_count--)\<close> of the NIT and the SVCT: \<open>ptr_gen_desc_struc\<close> stays at the first
  descriptor, whose length is subtracted in every round.
\<close>

fun same_descriptors :: "nat \<Rightarrow> byte list \<Rightarrow> nat \<Rightarrow> nat \<Rightarrow> 16 word \<Rightarrow> (nat \<times> 16 word) option" where
  "same_descriptors 0 buf ptr offset sl = Some (offset, sl)"
| "same_descriptors (Suc descriptor_count) buf ptr offset sl =
     do { descriptor_length \<leftarrow> rd buf (ptr + 1);
          same_descriptors descriptor_count buf ptr (offset + (unat descriptor_length + 2))
            (sl - (ucast descriptor_length + 2)) }"

text \<open>The same loop of the NTT, whose pointer moves.\<close>

fun moving_descriptors :: "nat \<Rightarrow> byte list \<Rightarrow> nat \<Rightarrow> 16 word \<Rightarrow> (nat \<times> 16 word) option" where
  "moving_descriptors 0 buf p sl = Some (p, sl)"
| "moving_descriptors (Suc descriptor_count) buf p sl =
     do { descriptor_length \<leftarrow> rd buf (p + 1);
          moving_descriptors descriptor_count buf (p + (unat descriptor_length + 2))
            (sl - (ucast descriptor_length + 2)) }"

text \<open>\<open>while (number_of_records--)\<close> of the NIT.\<close>

fun nit_skip_records :: "nat \<Rightarrow> nat \<Rightarrow> byte list \<Rightarrow> nat \<Rightarrow> 16 word \<Rightarrow> (nat \<times> 16 word) option" where
  "nit_skip_records record_size 0 buf offset sl = Some (offset, sl)"
| "nit_skip_records record_size (Suc number_of_records) buf offset sl =
     do { descriptor_count \<leftarrow> rd buf (offset + record_size);
          let ptr = offset + record_size + 1;
          (offset, sl) \<leftarrow> same_descriptors (unat descriptor_count) buf ptr ptr (sl - of_nat record_size - 1);
          nit_skip_records record_size number_of_records buf offset sl }"

text \<open>\<open>while (number_of_SNS_records--)\<close> of the NTT.\<close>

fun sns_skip_records :: "nat \<Rightarrow> byte list \<Rightarrow> nat \<Rightarrow> 16 word \<Rightarrow> (nat \<times> 16 word) option" where
  "sns_skip_records 0 buf p sl = Some (p, sl)"
| "sns_skip_records (Suc number_of_SNS_records) buf p sl =
     do { name_length \<leftarrow> rd buf (p + 3);
          let p = p + (4 + unat name_length);
          let sl = sl - (4 + ucast name_length);
          SNS_descriptor_count \<leftarrow> rd buf p;
          (p, sl) \<leftarrow> moving_descriptors (unat SNS_descriptor_count) buf (p + 1) (sl - 1);
          sns_skip_records number_of_SNS_records buf p sl }"

text \<open>\<open>for (ii = 0; ii < number_of_VC_records; ii++)\<close> of the virtual channel map.\<close>

fun vcm_skip_records :: "bool \<Rightarrow> nat \<Rightarrow> byte list \<Rightarrow> nat \<Rightarrow> 16 word \<Rightarrow> (nat \<times> 16 word) option" where
  "vcm_skip_records descriptors_included 0 buf offset sl = Some (offset, sl)"
| "vcm_skip_records descriptors_included (Suc n) buf offset sl =
     do { let offset = offset + (6 + 3);
          let sl = sl - (6 + 3);
          (offset, sl) \<leftarrow>
            (if descriptors_included then
               do { descriptor_count \<leftarrow> rd buf offset;
                    same_descriptors (unat descriptor_count) buf (offset + 1) (offset + 1) (sl - 1) }
             else Some (offset, sl));
          vcm_skip_records descriptors_included n buf offset sl }"

text \<open>
  \<open>while (section_length > LENGTH_CRC_32)\<close> behind the records. The length may wrap; the offset
  grows until a read leaves the array.
\<close>

function skip_to_crc :: "byte list \<Rightarrow> nat \<Rightarrow> 16 word \<Rightarrow> (nat \<times> 16 word) option" where
  "skip_to_crc buf p sl =
     (if sl > 4 then
        do { descriptor_length \<leftarrow> rd buf (p + 1);
             let p' = p + (2 + unat descriptor_length);
             let sl' = sl - (2 + ucast descriptor_length);
             if sl' = 0 then Some (p', sl') else skip_to_crc buf p' sl' }
      else Some (p, sl))"
  by pat_completeness auto
termination
  by (relation "measure (\<lambda>(buf, p, sl). length buf - p)") (auto dest: rd_SomeD)

declare skip_to_crc.simps [simp del]

section \<open>Version and CRC\<close>

definition no_version :: "table_out \<Rightarrow> table_out" where
  "no_version out = out\<lparr>out_version := NO_VERSION, out_section_number := NO_VERSION,
                        out_last_section_number := NO_VERSION\<rparr>"

text \<open>The descriptor behind the records: the RDD is read, anything else is skipped up to the CRC.\<close>

definition revision_descriptor ::
  "byte list \<Rightarrow> nat \<Rightarrow> 16 word \<Rightarrow> table_out \<Rightarrow> (nat \<times> 16 word \<times> table_out) option" where
  "revision_descriptor buf p sl out =
     do { descriptor_tag \<leftarrow> rd buf p;
          if descriptor_tag \<noteq> 0x93 then
            do { (p, sl) \<leftarrow> skip_to_crc buf p sl; Some (p, sl, no_version out) }
          else
            do { table_version_number \<leftarrow> rd buf (p + 2);
                 section_number \<leftarrow> rd buf (p + 3);
                 last_section_number \<leftarrow> rd buf (p + 4);
                 Some (p + 5, sl - 5,
                       out\<lparr>out_version := table_version_number AND 0x1F,
                           out_section_number := section_number,
                           out_last_section_number := last_section_number\<rparr>) } }"

text \<open>The CRC at \<open>p\<close>; an implausible one is replaced by the CRC of the first \<open>offset + 4\<close> bytes.\<close>

definition revision_crc ::
  "rmf_OobSiCache \<Rightarrow> byte list \<Rightarrow> nat \<Rightarrow> nat \<Rightarrow> table_out \<Rightarrow> table_out option" where
  "revision_crc c buf p offset out =
     do { crc \<leftarrow> read_be32 buf p;
          if crc = 0xFFFFFFFF \<or> crc = 0
          then do { crc \<leftarrow> calc_mpeg2_crc c buf 0 (offset + 4); Some (out\<lparr>out_crc := crc\<rparr>) }
          else Some (out\<lparr>out_crc := crc\<rparr>) }"

definition revision_tail ::
  "rmf_OobSiCache \<Rightarrow> byte list \<Rightarrow> nat \<Rightarrow> 16 word \<Rightarrow> table_out \<Rightarrow> table_out option" where
  "revision_tail c buf offset sl out =
     (if sl > 4 then
        do { (offset, sl, out) \<leftarrow> revision_descriptor buf offset sl out;
             if sl = 4 then revision_crc c buf offset offset out else Some out }
      else if sl = 4 then revision_crc c buf offset offset (no_version out)
      else Some out)"

text \<open>
  The tail of the NTT: \<open>offset\<close> still stands behind the header of the table when \<open>ptr_input_buffer\<close>
  (here \<open>p\<close>) has moved on, and both the checksum and the CRC of a section without descriptors use it.
\<close>

definition ntt_revision_tail ::
  "rmf_OobSiCache \<Rightarrow> byte list \<Rightarrow> nat \<Rightarrow> nat \<Rightarrow> 16 word \<Rightarrow> table_out \<Rightarrow> table_out option" where
  "ntt_revision_tail c buf p offset sl out =
     (if sl > 4 then
        do { (p, sl, out) \<leftarrow> revision_descriptor buf p sl out;
             if sl = 4 then revision_crc c buf p offset out else Some out }
      else if sl = 4 then revision_crc c buf offset offset (no_version out)
      else Some out)"

section \<open>The revision pass of each table\<close>

definition revision_length :: "byte list \<Rightarrow> 16 word option" where
  "revision_length buf = do { octet2 \<leftarrow> rd buf 1; octet3 \<leftarrow> rd buf 2; Some (ucast (be12 octet2 octet3)) }"

definition parseNIT_revision_data ::
  "byte list \<Rightarrow> 32 word \<Rightarrow> table_out \<Rightarrow> rmf_OobSiParser \<Rightarrow> (rmf_Error \<times> table_out \<times> rmf_OobSiParser) option" where
  "parseNIT_revision_data stack section_handle out P =
     do { (retCode, buf, n, sf) \<leftarrow>
            ReadSection (m_pSectionFilter P) section_handle 0 1021 0 stack;
          let P = P\<lparr>m_pSectionFilter := sf\<rparr>;
          if retCode \<noteq> RMF_SUCCESS then Some (RMF_SI_PARSE_ERROR, out, P)
          else do {
            section_length \<leftarrow> revision_length buf;
            number_of_records \<leftarrow> rd buf 5;
            octet7 \<leftarrow> rd buf 6;
            let table_subtype = GETBITS octet7 4 1;
            if table_subtype < 1 \<or> table_subtype > 2 then Some (RMF_SI_PARSE_ERROR, out, P)
            else do {
              let record_size = (if table_subtype = 1 then 5 else 6);
              (offset, sl) \<leftarrow> nit_skip_records record_size (unat number_of_records) buf 7
                               (section_length - (7 - 3));
              out \<leftarrow> revision_tail (m_pSiCache P) buf offset sl out;
              Some (retCode, out, P) } } }"

definition parseNTT_revision_data ::
  "byte list \<Rightarrow> 32 word \<Rightarrow> table_out \<Rightarrow> rmf_OobSiParser \<Rightarrow> (rmf_Error \<times> table_out \<times> rmf_OobSiParser) option" where
  "parseNTT_revision_data stack section_handle out P =
     do { (retCode, buf, n, sf) \<leftarrow>
            ReadSection (m_pSectionFilter P) section_handle 0 1021 0 stack;
          let P = P\<lparr>m_pSectionFilter := sf\<rparr>;
          if retCode \<noteq> RMF_SUCCESS then Some (RMF_SI_PARSE_ERROR, out, P)
          else do {
            section_length \<leftarrow> revision_length buf;
            octet8 \<leftarrow> rd buf 7;
            if GETBITS octet8 4 1 \<noteq> SNS_TABLE_SUBTYPE then Some (RMF_SI_PARSE_ERROR, out, P)
            else do {
              number_of_SNS_records \<leftarrow> rd buf 8;
              (p, sl) \<leftarrow> sns_skip_records (unat number_of_SNS_records) buf (8 + 1)
                          (section_length - (8 - 3) - 1);
              out \<leftarrow> ntt_revision_tail (m_pSiCache P) buf p 8 sl out;
              Some (retCode, out, P) } } }"

definition svct_skip_body ::
  "32 word \<Rightarrow> byte list \<Rightarrow> nat \<Rightarrow> 16 word \<Rightarrow> (nat \<times> 16 word) option option" where
  "svct_skip_body table_subtype buf offset sl =
     (if table_subtype = 0 then
        do { octet1 \<leftarrow> rd buf offset;
             number_of_VC_records \<leftarrow> rd buf (offset + 6);
             let descriptors_included = drop_bit 2 (octet1 AND 0x04);
             r \<leftarrow> vcm_skip_records (descriptors_included \<noteq> 0) (unat number_of_VC_records) buf (offset + 7) (sl - 7);
             Some (Some r) }
      else if table_subtype = 1 then
        do { octet3 \<leftarrow> rd buf (offset + 2);
             let DCM_data_length = octet3 AND 0x7F;
             Some (Some (offset + (1 * unat DCM_data_length + 3), sl - (ucast DCM_data_length + 3))) }
      else if table_subtype = 2 then
        do { octet3 \<leftarrow> rd buf (offset + 2);
             let icm_record_count = octet3 AND 0x7F;
             Some (Some (offset + (4 * unat icm_record_count + 3), sl - (4 * ucast icm_record_count + 3))) }
      else Some None)"

definition parseSVCT_revision_data ::
  "byte list \<Rightarrow> 32 word \<Rightarrow> table_out \<Rightarrow> rmf_OobSiParser \<Rightarrow> (rmf_Error \<times> table_out \<times> rmf_OobSiParser) option" where
  "parseSVCT_revision_data stack section_handle out P =
     do { (retCode, buf, n, sf) \<leftarrow>
            ReadSection (m_pSectionFilter P) section_handle 0 1021 0 stack;
          let P = P\<lparr>m_pSectionFilter := sf\<rparr>;
          if retCode \<noteq> RMF_SUCCESS then Some (RMF_SI_PARSE_ERROR, out, P)
          else do {
            section_length \<leftarrow> revision_length buf;
            octet5 \<leftarrow> rd buf 4;
            body \<leftarrow> svct_skip_body (GETBITS octet5 4 1) buf 7 (section_length - (7 - 3));
            case body of
              None \<Rightarrow> Some (RMF_SI_PARSE_ERROR, out, P)
            | Some (offset, sl) \<Rightarrow>
                do { out \<leftarrow> revision_tail (m_pSiCache P) buf offset sl out;
                     Some (retCode, out, P) } } }"

definition parseSTT_revision_data ::
  "byte list \<Rightarrow> 32 word \<Rightarrow> table_out \<Rightarrow> rmf_OobSiParser \<Rightarrow> (rmf_Error \<times> table_out \<times> rmf_OobSiParser) option" where
  "parseSTT_revision_data stack section_handle out P =
     do { (retCode, buf, n, sf) \<leftarrow>
            ReadSection (m_pSectionFilter P) section_handle 0 1021 0 stack;
          let P = P\<lparr>m_pSectionFilter := sf\<rparr>;
          if retCode \<noteq> RMF_SUCCESS then Some (RMF_SI_PARSE_ERROR, out, P)
          else do { section_length \<leftarrow> revision_length buf; Some (retCode, no_version out, P) } }"

text \<open>\<open>id_buffer\<close> and \<open>stack\<close> are the uninitialised arrays of the dispatcher and of the pass.\<close>

definition get_revision_data ::
  "byte list \<Rightarrow> byte list \<Rightarrow> 32 word \<Rightarrow> table_out \<Rightarrow> rmf_OobSiParser \<Rightarrow>
   (rmf_Error \<times> table_out \<times> rmf_OobSiParser) option" where
  "get_revision_data id_buffer stack section_handle out P =
     do { (_, buf, _, sf) \<leftarrow> ReadSection (m_pSectionFilter P) section_handle 0 1 0 id_buffer;
          let P = P\<lparr>m_pSectionFilter := sf\<rparr>;
          table_id \<leftarrow> rd buf 0;
          if table_id \<notin> {NETWORK_INFORMATION_TABLE_ID, SF_VIRTUAL_CHANNEL_TABLE_ID, NETWORK_TEXT_TABLE_ID,
                          SYSTEM_TIME_TABLE_ID}
          then Some (RMF_SI_PARSE_ERROR, out, P)
          else do {
            (retCode, out, P) \<leftarrow>
              (if table_id = NETWORK_INFORMATION_TABLE_ID then parseNIT_revision_data stack section_handle out P
               else if table_id = SF_VIRTUAL_CHANNEL_TABLE_ID then parseSVCT_revision_data stack section_handle out P
               else if table_id = NETWORK_TEXT_TABLE_ID then parseNTT_revision_data stack section_handle out P
               else parseSTT_revision_data stack section_handle out P);
            Some (retCode, if isVersioningByCRC32 (m_pSiCache P) then no_version out else out, P) } }"

section \<open>The system time table and the dispatcher\<close>

text \<open>The time is only logged and the CRC stays in a local variable.\<close>

definition parseAndUpdateSTT ::
  "byte list \<Rightarrow> 32 word \<Rightarrow> table_out \<Rightarrow> rmf_OobSiParser \<Rightarrow> (rmf_Error \<times> table_out \<times> rmf_OobSiParser) option" where
  "parseAndUpdateSTT stack section_handle out P =
     do { (retCode, buf, n, sf) \<leftarrow>
            ReadSection (m_pSectionFilter P) section_handle 0 1021 0 stack;
          let P = P\<lparr>m_pSectionFilter := sf\<rparr>;
          if retCode \<noteq> RMF_SUCCESS then Some (1, out, P)
          else do {
            table_id \<leftarrow> rd buf 0;
            if table_id \<noteq> SYSTEM_TIME_TABLE_ID then Some (2, out, P)
            else do {
              section_length \<leftarrow> revision_length buf;
              system_time \<leftarrow> read_be32 buf 5;
              gps_utc_offset \<leftarrow> rd buf 9;
              let section_length = section_length - (10 - 3);
              if section_length < 4 then Some (3, out, P)
              else if section_length = 4
              then do { crc2 \<leftarrow> read_be32 buf 10; Some (NO_PARSING_ERROR, out, P) }
              else Some (NO_PARSING_ERROR, out, P) } } }"

record table_locals =
  tl_nit :: nit_locals
  tl_ntt_buffer :: "byte list"
  tl_svct_buffer :: "byte list"
  tl_stt_buffer :: "byte list"

definition parseAndUpdateTable ::
  "table_locals \<Rightarrow> byte \<Rightarrow> 32 word \<Rightarrow> table_out \<Rightarrow> rmf_OobSiParser \<Rightarrow>
   (rmf_Error \<times> table_out \<times> rmf_OobSiParser) option" where
  "parseAndUpdateTable loc table_id section_handle out P =
     (if table_id = NETWORK_INFORMATION_TABLE_ID then parseAndUpdateNIT (tl_nit loc) section_handle out P
      else if table_id = NETWORK_TEXT_TABLE_ID then parseAndUpdateNTT (tl_ntt_buffer loc) section_handle out P
      else if table_id = SF_VIRTUAL_CHANNEL_TABLE_ID then parseAndUpdateSVCT (tl_svct_buffer loc) section_handle out P
      else if table_id = SYSTEM_TIME_TABLE_ID then parseAndUpdateSTT (tl_stt_buffer loc) section_handle out P
      else Some (RMF_SI_PARSE_ERROR, out, P))"

section \<open>Skipping what the encoders write\<close>

text \<open>
  All lemmas keep the remaining length as a natural number under \<open>word_of_nat\<close>, so that the
  subtractions of the code are subtractions of naturals.
\<close>

lemma len16_sub: "word_of_nat (a + b) - word_of_nat a = (word_of_nat b :: 16 word)"
  by simp

lemma len16_descriptor:
  assumes "L < 256"
  shows "word_of_nat (L + 2 + m) - (ucast (word_of_nat L :: byte) + 2) = (word_of_nat m :: 16 word)"
proof -
  have "ucast (word_of_nat L :: byte) = (word_of_nat L :: 16 word)" using assms by (rule ucast_of_nat_8_16)
  then show ?thesis by simp
qed

definition uniform :: "descriptor list \<Rightarrow> bool" where
  "uniform ds \<longleftrightarrow> (\<forall>d \<in> set ds. length (snd d) = length (snd (hd ds)))"

lemma same_descriptors_run:
  assumes "rd buf (ptr + 1) = Some (word_of_nat L)" "L < 256" "\<forall>d \<in> set ds. length (snd d) = L"
  shows "same_descriptors (length ds) buf ptr p (word_of_nat (length (enc_descriptors ds) + m)) =
    Some (p + length (enc_descriptors ds), word_of_nat m)"
  using assms(3)
proof (induction ds arbitrary: p)
  case (Cons d ds)
  have L: "length (snd d) = L" using Cons.prems by simp
  have "length (enc_descriptors (d # ds)) + m = L + 2 + (length (enc_descriptors ds) + m)"
    by (simp add: L)
  then have "same_descriptors (length (d # ds)) buf ptr p (word_of_nat (length (enc_descriptors (d # ds)) + m)) =
      same_descriptors (length ds) buf ptr (p + (L + 2)) (word_of_nat (length (enc_descriptors ds) + m))"
    using assms(1,2) len16_descriptor[OF assms(2), of "length (enc_descriptors ds) + m"]
    by (simp only: same_descriptors.simps list.size(4)) (simp add: unat_of_nat_byte)
  with Cons show ?case by (simp add: L)
qed simp

lemma same_descriptors_enc:
  assumes "holds_at buf ptr (enc_descriptors ds)" "list_all descriptor_ok ds" "uniform ds"
  shows "same_descriptors (length ds) buf ptr ptr (word_of_nat (length (enc_descriptors ds) + m)) =
    Some (ptr + length (enc_descriptors ds), word_of_nat m)"
proof (cases ds)
  case (Cons d es)
  with assms have r: "rd buf (ptr + 1) = Some (word_of_nat (length (snd d)))" "length (snd d) < 256"
    using rd_descriptor_length[of buf ptr d] by (simp_all add: descriptor_ok_def)
  from assms(3) Cons have "\<forall>e \<in> set ds. length (snd e) = length (snd d)" by (simp add: uniform_def)
  with r show ?thesis by (rule same_descriptors_run)
qed simp

lemma moving_descriptors_enc:
  assumes "holds_at buf p (enc_descriptors ds)" "list_all descriptor_ok ds"
  shows "moving_descriptors (length ds) buf p (word_of_nat (length (enc_descriptors ds) + m)) =
    Some (p + length (enc_descriptors ds), word_of_nat m)"
  using assms
proof (induction ds arbitrary: p)
  case (Cons d ds)
  let ?L = "length (snd d)"
  have r: "rd buf (p + 1) = Some (word_of_nat ?L)" "?L < 256"
    using Cons.prems rd_descriptor_length[of buf p d] by (simp_all add: descriptor_ok_def)
  have "length (enc_descriptors (d # ds)) + m = ?L + 2 + (length (enc_descriptors ds) + m)" by simp
  then have "moving_descriptors (length (d # ds)) buf p (word_of_nat (length (enc_descriptors (d # ds)) + m)) =
      moving_descriptors (length ds) buf (p + (?L + 2)) (word_of_nat (length (enc_descriptors ds) + m))"
    using r len16_descriptor[OF r(2), of "length (enc_descriptors ds) + m"]
    by (simp only: moving_descriptors.simps list.size(4)) (simp add: unat_of_nat_byte)
  with Cons show ?case by (simp add: add.commute)
qed simp

lemma skip_to_crc_step:
  "rd buf (p + 1) = Some b \<Longrightarrow> 4 < sl \<Longrightarrow> sl - (2 + ucast b) = sl' \<Longrightarrow> sl' \<noteq> 0 \<Longrightarrow>
   skip_to_crc buf p sl = skip_to_crc buf (p + (2 + unat b)) sl'"
  by (subst skip_to_crc.simps) (auto simp: Let_def)

lemma skip_to_crc_enc:
  assumes "holds_at buf p (enc_descriptors ds)" "list_all descriptor_ok ds"
    "length (enc_descriptors ds) + 4 < 65536"
  shows "skip_to_crc buf p (word_of_nat (length (enc_descriptors ds) + 4)) =
    Some (p + length (enc_descriptors ds), 4)"
  using assms
proof (induction ds arbitrary: p)
  case Nil
  show ?case by (subst skip_to_crc.simps) simp
next
  case (Cons d ds)
  let ?L = "length (snd d)" and ?m = "length (enc_descriptors ds) + 4"
  have r: "rd buf (p + 1) = Some (word_of_nat ?L)" "?L < 256"
    using Cons.prems rd_descriptor_length[of buf p d] by (simp_all add: descriptor_ok_def)
  have l: "length (enc_descriptors (d # ds)) + 4 = ?L + 2 + ?m" by simp
  have u: "unat (word_of_nat (?L + 2 + ?m) :: 16 word) = ?L + 2 + ?m"
    "unat (word_of_nat ?m :: 16 word) = ?m"
    using Cons.prems(3) by (simp_all only: unat_of_nat) simp_all
  have "(4 :: 16 word) < word_of_nat (?L + 2 + ?m)" by (simp only: word_less_nat_alt u) simp
  moreover have "(word_of_nat ?m :: 16 word) \<noteq> 0" using u(2) by (metis add_is_0 unat_0 zero_neq_numeral)
  moreover have "word_of_nat (?L + 2 + ?m) - (2 + ucast (word_of_nat ?L :: byte)) = (word_of_nat ?m :: 16 word)"
    using len16_descriptor[OF r(2), of ?m] by (simp only: add.commute)
  ultimately have "skip_to_crc buf p (word_of_nat (?L + 2 + ?m)) = skip_to_crc buf (p + (2 + ?L)) (word_of_nat ?m)"
    using skip_to_crc_step[OF r(1)] r(2) by (simp only: unat_of_nat_byte)
  with Cons show ?case unfolding l by simp
qed

text \<open>
  A record that ends with a descriptor count and its descriptors, behind \<open>size\<close> octets: what the
  NIT loop skips.
\<close>

locale skippable_record =
  fixes size :: nat
    and enc :: "'r \<Rightarrow> byte list"
    and fixed :: "'r \<Rightarrow> byte list"
    and descs :: "'r \<Rightarrow> descriptor list"
  assumes enc_parts: "enc r = fixed r @ word_of_nat (length (descs r)) # enc_descriptors (descs r)"
    and fixed_size: "length (fixed r) = size"
begin

lemma skip_one:
  assumes buf: "holds_at buf p (enc r)"
    and ok: "length (descs r) < 256" "list_all descriptor_ok (descs r)" "uniform (descs r)"
  shows "nit_skip_records size (Suc n) buf p (word_of_nat (length (enc r) + m)) =
    nit_skip_records size n buf (p + length (enc r)) (word_of_nat m)"
proof -
  let ?ds = "descs r"
  have len: "length (enc r) = size + 1 + length (enc_descriptors ?ds)" by (simp add: enc_parts fixed_size)
  from buf have b: "rd buf (p + size) = Some (word_of_nat (length ?ds))"
      "holds_at buf (p + size + 1) (enc_descriptors ?ds)"
    by (simp_all add: enc_parts fixed_size)
  have "(word_of_nat (length (enc r) + m) :: 16 word) - of_nat size - 1 =
      word_of_nat (length (enc_descriptors ?ds) + m)"
    unfolding len by simp
  then show ?thesis
    using b same_descriptors_enc[OF b(2) ok(2,3), of m] ok(1)
    by (simp add: Let_def unat_of_nat_byte len add.assoc del: of_nat_add)
qed

lemma skip_enc:
  assumes "holds_at buf p (concat (map enc rs))"
    and "\<And>r. r \<in> set rs \<Longrightarrow> length (descs r) < 256 \<and> list_all descriptor_ok (descs r) \<and> uniform (descs r)"
  shows "nit_skip_records size (length rs) buf p (word_of_nat (length (concat (map enc rs)) + m)) =
    Some (p + length (concat (map enc rs)), word_of_nat m)"
  using assms
proof (induction rs arbitrary: p)
  case (Cons r rs)
  have l: "length (concat (map enc (r # rs))) + m = length (enc r) + (length (concat (map enc rs)) + m)" by simp
  have "nit_skip_records size (length rs) buf (p + length (enc r)) (word_of_nat (length (concat (map enc rs)) + m)) =
      Some (p + length (enc r) + length (concat (map enc rs)), word_of_nat m)"
    by (rule Cons.IH) (use Cons.prems in simp_all)
  with Cons.prems show ?case
    unfolding l list.size(4) One_nat_def add_Suc_right add_0_right
    by (subst skip_one) (simp_all add: add.assoc del: of_nat_add)
qed simp

end

interpretation skip_cds: skippable_record 5 enc_cds "\<lambda>r. take 5 (enc_cds r)" cds_descriptors
  by unfold_locales (simp_all add: enc_cds_def)

interpretation skip_mms: skippable_record 6 enc_mms "\<lambda>r. take 6 (enc_mms r)" mms_descriptors
  by unfold_locales (simp_all add: enc_mms_def)

lemma len16_name:
  assumes "N < 256"
  shows "word_of_nat (4 + N + m) - (4 + ucast (word_of_nat N :: byte)) = (word_of_nat m :: 16 word)"
proof -
  have "ucast (word_of_nat N :: byte) = (word_of_nat N :: 16 word)" using assms by (rule ucast_of_nat_8_16)
  then show ?thesis by simp
qed

lemma sns_skip_enc:
  assumes "holds_at buf p (concat (map enc_sns rs))" "list_all sns_ok rs"
  shows "sns_skip_records (length rs) buf p (word_of_nat (length (concat (map enc_sns rs)) + m)) =
    Some (p + length (concat (map enc_sns rs)), word_of_nat m)"
  using assms
proof (induction rs arbitrary: p)
  case (Cons r rs)
  let ?N = "2 + length (sns_name r)" and ?ds = "sns_descriptors r"
  let ?k = "length (concat (map enc_sns rs)) + m"
  have ok: "?N < 256" "length ?ds < 256" "list_all descriptor_ok ?ds" using Cons.prems by (simp_all add: sns_ok_def)
  have head: "enc_sns r = [128 * of_bool (sns_application r), word_of_nat (sns_id r div 256),
      word_of_nat (sns_id r mod 256), word_of_nat ?N] @ ([sns_mode r, word_of_nat (length (sns_name r))] @ sns_name r)
      @ [word_of_nat (length ?ds)] @ enc_descriptors ?ds"
    by (simp add: enc_sns_def)
  have len: "length (enc_sns r) = 4 + ?N + (1 + length (enc_descriptors ?ds))" by (simp add: enc_sns_def)
  from Cons.prems(1) have "holds_at buf p (enc_sns r)" by simp
  then have b: "rd buf (p + 3) = Some (word_of_nat ?N)" "rd buf (p + (4 + ?N)) = Some (word_of_nat (length ?ds))"
      "holds_at buf (p + (4 + ?N) + 1) (enc_descriptors ?ds)"
    unfolding head append_Cons append_Nil holds_at_4 by (simp_all add: ac_simps del: of_nat_add)
  have l: "length (concat (map enc_sns (r # rs))) + m = 4 + ?N + (1 + (length (enc_descriptors ?ds) + ?k))"
    using len by simp
  have "moving_descriptors (length ?ds) buf (p + (4 + ?N) + 1) (word_of_nat (length (enc_descriptors ?ds) + ?k)) =
      Some (p + (4 + ?N) + 1 + length (enc_descriptors ?ds), word_of_nat ?k)"
    by (rule moving_descriptors_enc[OF b(3) ok(3)])
  moreover have "word_of_nat (4 + ?N + (1 + (length (enc_descriptors ?ds) + ?k))) - (4 + ucast (word_of_nat ?N :: byte)) - 1 =
      (word_of_nat (length (enc_descriptors ?ds) + ?k) :: 16 word)"
    unfolding len16_name[OF ok(1)] by simp
  ultimately have "sns_skip_records (Suc (length rs)) buf p (word_of_nat (4 + ?N + (1 + (length (enc_descriptors ?ds) + ?k)))) =
      sns_skip_records (length rs) buf (p + (4 + ?N) + 1 + length (enc_descriptors ?ds)) (word_of_nat ?k)"
    using b(1,2) ok(1,2) by (simp only: sns_skip_records.simps Option.bind.bind_lunit Let_def unat_of_nat_byte prod.case)
  also have "p + (4 + ?N) + 1 + length (enc_descriptors ?ds) = p + length (enc_sns r)" using len by simp
  finally show ?case
    using Cons.IH[of "p + length (enc_sns r)"] Cons.prems by (simp only: l list.size(4)) (simp add: add.assoc)
qed simp

section \<open>What the pass finds\<close>

text \<open>The CRC of a section: the transmitted one, or the computed one when that is implausible.\<close>

definition section_crc :: "rmf_OobSiCache \<Rightarrow> byte list \<Rightarrow> 32 word \<Rightarrow> 32 word" where
  "section_crc c bs crc =
     (if crc = 0xFFFFFFFF \<or> crc = 0 then the (calc_mpeg2_crc c bs 0 (length bs)) else crc)"

text \<open>
  With an RDD the section numbers are its fields, and the CRC is found only when no other descriptor
  follows; without one there is no version.
\<close>

definition tail_version :: "section_tail \<Rightarrow> table_out \<Rightarrow> table_out" where
  "tail_version t out =
     (case tail_rdd t of
        None \<Rightarrow> no_version out
      | Some (v, s, l) \<Rightarrow> out\<lparr>out_version := v AND 0x1F, out_section_number := s, out_last_section_number := l\<rparr>)"

definition crc_reached :: "section_tail \<Rightarrow> bool" where
  "crc_reached t \<longleftrightarrow> tail_rdd t = None \<or> tail_descs t = []"

definition revision_out :: "rmf_OobSiCache \<Rightarrow> byte list \<Rightarrow> section_tail \<Rightarrow> table_out \<Rightarrow> table_out" where
  "revision_out c bs t out =
     (if crc_reached t then (tail_version t out)\<lparr>out_crc := section_crc c bs (tail_crc t)\<rparr>
      else tail_version t out)"

lemma crc_loop_prefix:
  assumes "\<forall>i < n. rd buf (p + i) = rd bs (p + i)"
  shows "crc_loop tab n buf p r = crc_loop tab n bs p r"
  using assms
proof (induction n arbitrary: p r)
  case (Suc n)
  from Suc.prems have "rd buf p = rd bs p" by (metis add_0_right zero_less_Suc)
  moreover have "\<forall>i < n. rd buf (p + 1 + i) = rd bs (p + 1 + i)"
  proof (intro allI impI)
    fix i assume "i < n"
    with Suc.prems have "rd buf (p + Suc i) = rd bs (p + Suc i)" by blast
    then show "rd buf (p + 1 + i) = rd bs (p + 1 + i)" by simp
  qed
  ultimately show ?case using Suc.IH[of "p + 1"] by simp
qed simp

lemma calc_mpeg2_crc_prefix:
  assumes "holds_at buf 0 bs"
  shows "calc_mpeg2_crc c buf 0 (length bs) = calc_mpeg2_crc c bs 0 (length bs)"
proof -
  have rd: "rd buf i = rd bs i" if "i < length bs" for i
    using holds_at_rd[OF assms that] that by (simp add: rd_in)
  have "crc_loop (crctab c) (length bs - 4) buf 4 r = crc_loop (crctab c) (length bs - 4) bs 4 r" for r
    by (rule crc_loop_prefix) (simp add: rd)
  moreover have "rd buf 0 = rd bs 0" if "\<not> length bs < 4" by (rule rd) (use that in linarith)
  ultimately show ?thesis by (simp add: calc_mpeg2_crc_def rd)
qed

lemma calc_mpeg2_crc_total:
  assumes "length (crctab c) = 256"
  shows "\<exists>v. calc_mpeg2_crc c bs 0 (length bs) = Some v"
proof -
  have "\<exists>v. crc_loop (crctab c) n bs p r = Some v" if "p + n \<le> length bs" for n p r
    using that
  proof (induction n arbitrary: p r)
    case (Suc n)
    have "unat (drop_bit 24 r) < length (crctab c)" using assms unat_drop_bit_24[of r] by simp
    with Suc show ?case by (simp add: rd_in)
  qed simp
  note loop = this
  show ?thesis
  proof (cases "length bs < 4")
    case False
    then have "rd bs 0 = Some (bs ! 0)" by (intro rd_in) linarith
    with False loop[of 4 "length bs - 4" "NOT (be32 (bs ! 0) (bs ! 1) (bs ! 2) (bs ! 3))"] show ?thesis
      by (auto simp: calc_mpeg2_crc_def rd_in numeral_2_eq_2)
  qed (simp add: calc_mpeg2_crc_def)
qed

lemma revision_crc_enc:
  assumes buf: "holds_at buf 0 bs" "holds_at buf p (be32_bytes crc)" and len: "length bs = p + 4"
    and tab: "length (crctab c) = 256"
  shows "revision_crc c buf p p out = Some (out\<lparr>out_crc := section_crc c bs crc\<rparr>)"
proof -
  obtain v where "calc_mpeg2_crc c buf 0 (p + 4) = Some v" "calc_mpeg2_crc c bs 0 (length bs) = Some v"
    using calc_mpeg2_crc_total[OF tab, of bs] calc_mpeg2_crc_prefix[OF buf(1), of c] len by auto
  then show ?thesis using read_be32_crc[OF buf(2)] by (simp add: revision_crc_def section_crc_def)
qed

lemma word16_eq_4: "n < 65536 \<Longrightarrow> (word_of_nat n :: 16 word) = 4 \<longleftrightarrow> n = 4"
  by (simp add: word_unat_eq_iff[of _ "4 :: 16 word"] unat_of_nat)

lemma word16_gt_4: "n < 65536 \<Longrightarrow> (4 :: 16 word) < word_of_nat n \<longleftrightarrow> 4 < n"
  by (simp add: word_less_nat_alt unat_of_nat)

text \<open>Where the descriptor step stops, and that the CRC stands there if it is reached.\<close>

lemma revision_descriptor_enc:
  assumes t: "tail_ok t" and buf: "holds_at buf p (enc_tail t)"
    and len: "4 < length (enc_tail t)" "length (enc_tail t) < 65536"
  obtains q sl' where "revision_descriptor buf p (word_of_nat (length (enc_tail t))) out = Some (q, sl', tail_version t out)"
    and "sl' = 4 \<longleftrightarrow> crc_reached t"
    and "crc_reached t \<Longrightarrow> holds_at buf q (be32_bytes (tail_crc t)) \<and> q + 4 = p + length (enc_tail t)"
proof (cases "tail_rdd t")
  let ?D = "enc_descriptors (tail_descs t)" and ?n = "length (enc_tail t)"
  case None
  then have n: "?n = length ?D + 4" and e: "enc_tail t = ?D @ be32_bytes (tail_crc t)"
    by (simp_all add: enc_tail_def enc_rdd_def)
  from len(1) n obtain d es where ds: "tail_descs t = d # es" by (cases "tail_descs t") auto
  then have tag: "rd buf p = Some (fst d)" "fst d \<noteq> 0x93"
    using t None buf by (simp_all add: tail_ok_def e enc_descriptor_def)
  have "skip_to_crc buf p (word_of_nat ?n) = Some (p + length ?D, 4)"
    unfolding n by (rule skip_to_crc_enc) (use buf t len n in \<open>simp_all add: e tail_ok_def\<close>)
  then show thesis
    using None buf tag n
    by (intro that[of "p + length ?D" 4])
      (simp_all add: revision_descriptor_def tail_version_def crc_reached_def e)
next
  let ?D = "enc_descriptors (tail_descs t)" and ?n = "length (enc_tail t)"
  case (Some r)
  obtain v s l where r: "r = (v, s, l)" by (cases r) auto
  then have e: "enc_tail t = [0x93, 3, v, s, l] @ ?D @ be32_bytes (tail_crc t)"
    and n: "?n = 5 + (length ?D + 4)" using Some by (simp_all add: enc_tail_def enc_rdd_def)
  from buf have b: "rd buf p = Some 0x93" "rd buf (p + 2) = Some v" "rd buf (p + 3) = Some s" "rd buf (p + 4) = Some l"
    "holds_at buf (p + 5) (?D @ be32_bytes (tail_crc t))"
    unfolding e append_Cons append_Nil holds_at_5 by blast+
  have sl: "word_of_nat ?n - 5 = (word_of_nat (length ?D + 4) :: 16 word)" unfolding n by simp
  have "(word_of_nat (length ?D + 4) :: 16 word) = 4 \<longleftrightarrow> tail_descs t = []"
    using word16_eq_4[of "length ?D + 4"] len(2) n by (cases "tail_descs t") (simp_all del: of_nat_add)
  then show thesis
    using b n sl Some r
    by (intro that[of "p + 5" "word_of_nat ?n - 5"])
      (simp_all add: revision_descriptor_def tail_version_def crc_reached_def del: of_nat_add)
qed

lemma revision_tail_enc:
  assumes t: "tail_ok t" and buf: "holds_at buf 0 bs" "holds_at buf p (enc_tail t)"
    and len: "length bs = p + length (enc_tail t)" "length bs < 65536" and tab: "length (crctab c) = 256"
  shows "revision_tail c buf p (word_of_nat (length (enc_tail t))) out = Some (revision_out c bs t out)"
proof (cases "length (enc_tail t) = 4")
  case True
  then have "tail_rdd t = None" "tail_descs t = []" "enc_tail t = be32_bytes (tail_crc t)"
    by (cases "tail_descs t"; auto simp: enc_tail_def enc_rdd_def split: option.splits)+
  with revision_crc_enc[OF buf(1) _ _ tab, of p "tail_crc t"] buf(2) len show ?thesis
    by (simp add: revision_tail_def True revision_out_def crc_reached_def tail_version_def)
next
  case False
  then have gt: "4 < length (enc_tail t)" by (simp add: enc_tail_def)
  have len': "length (enc_tail t) < 65536" using len by simp
  obtain q sl' where d: "revision_descriptor buf p (word_of_nat (length (enc_tail t))) out = Some (q, sl', tail_version t out)"
    "sl' = 4 \<longleftrightarrow> crc_reached t"
    and q: "crc_reached t \<Longrightarrow> holds_at buf q (be32_bytes (tail_crc t)) \<and> q + 4 = p + length (enc_tail t)"
    by (rule revision_descriptor_enc[OF t buf(2) gt len', of out]) blast
  have "revision_crc c buf q q o' = Some (o'\<lparr>out_crc := section_crc c bs (tail_crc t)\<rparr>)" if "crc_reached t" for o'
    using q[OF that] len by (intro revision_crc_enc[OF buf(1) _ _ tab]) simp_all
  then show ?thesis
    using d word16_gt_4[of "length (enc_tail t)"] gt len by (simp add: revision_tail_def revision_out_def)
qed

text \<open>One read delivers a whole section that fits the array.\<close>

lemma read_whole:
  assumes "sf_wf sf" "section_bytes sf h = Some bs" "bs \<noteq> []" "length bs \<le> 1021" "length stack = 1021"
  obtains buf n where "ReadSection sf h 0 1021 0 stack = Some (RMF_SUCCESS, buf, n, sf)" "holds_at buf 0 bs"
proof -
  have "ReadSection sf h 0 1021 0 stack = Some (RMF_SUCCESS, bs @ drop (length bs) stack, Some (word_of_nat (length bs)), sf)"
    using sfsrc.read_ok[OF assms(1,2), of 0 1021 stack] assms(3-5) by (simp add: min_absorb2)
  then show thesis by (rule that) simp
qed

lemma read_table_id:
  assumes "sf_wf sf" "section_bytes sf h = Some (b # bs)" "length id_buffer = 1"
  obtains n buf where "ReadSection sf h 0 1 0 id_buffer = Some (RMF_SUCCESS, buf, n, sf)" "rd buf 0 = Some b"
  by (rule sfsrc.read_holds_at[OF assms(1,2), of 0 1 id_buffer]) (use assms(3) that in auto)

lemma revision_length_enc:
  assumes "holds_at buf 0 (b # enc_length n @ xs)" "n < 4096"
  shows "revision_length buf = Some (word_of_nat n)"
proof -
  have "rd buf 1 = Some (word_of_nat (0x30 + n div 256))" "rd buf 2 = Some (word_of_nat (n mod 256))"
    using assms(1) by (simp_all add: enc_length_def numeral_2_eq_2)
  moreover have "ucast (word_of_nat n :: 32 word) = (word_of_nat n :: 16 word)"
    using assms(2) by (intro word_unat_eq_iff[THEN iffD2]) (simp add: unat_of_nat unsigned_ucast_eq take_bit_eq_mod)
  ultimately show ?thesis using be12_enc_length[OF assms(2)] by (simp add: revision_length_def)
qed

definition nit_uniform :: "nit_table \<Rightarrow> bool" where
  "nit_uniform t =
     (case nit_body t of
        CDS rs \<Rightarrow> list_all (\<lambda>r. uniform (cds_descriptors r)) rs
      | MMS rs \<Rightarrow> list_all (\<lambda>r. uniform (mms_descriptors r)) rs)"

lemma nit_skip_body:
  assumes "nit_ok t" "nit_uniform t" "holds_at buf p (enc_nit_body (nit_body t))"
  shows "nit_skip_records (if GETBITS (nit_subtype (nit_body t)) 4 1 = 1 then 5 else 6) (nit_record_count (nit_body t)) buf p
      (word_of_nat (length (enc_nit_body (nit_body t)) + m)) =
    Some (p + length (enc_nit_body (nit_body t)), word_of_nat m)"
proof (cases "nit_body t")
  case (CDS rs)
  have g: "GETBITS 1 4 1 = (1 :: 32 word)" by (simp add: GETBITS_def)
  have "nit_skip_records 5 (length rs) buf p (word_of_nat (length (concat (map enc_cds rs)) + m)) =
    Some (p + length (concat (map enc_cds rs)), word_of_nat m)"
    by (rule skip_cds.skip_enc) (use assms CDS in \<open>auto simp: nit_ok_def nit_body_ok_def nit_uniform_def
      enc_nit_body_def list_all_iff cds_ok_def\<close>)
  with CDS g show ?thesis
    by (simp add: nit_subtype_def nit_record_count_def enc_nit_body_def)
next
  case (MMS rs)
  have g: "GETBITS 2 4 1 = (2 :: 32 word)" by (simp add: GETBITS_def)
  have "nit_skip_records 6 (length rs) buf p (word_of_nat (length (concat (map enc_mms rs)) + m)) =
    Some (p + length (concat (map enc_mms rs)), word_of_nat m)"
    by (rule skip_mms.skip_enc) (use assms MMS in \<open>auto simp: nit_ok_def nit_body_ok_def nit_uniform_def
      enc_nit_body_def list_all_iff mms_ok_def\<close>)
  with MMS g show ?thesis
    by (simp add: nit_subtype_def nit_record_count_def enc_nit_body_def)
qed

lemma parseNIT_revision_data_enc:
  assumes t: "nit_ok t" "nit_uniform t" "length (enc_nit t) \<le> 1021"
    and wf: "sf_wf (m_pSectionFilter P)" "length (crctab (m_pSiCache P)) = 256" "length stack = 1021"
    and bytes: "section_bytes (m_pSectionFilter P) h = Some (enc_nit t)"
  shows "parseNIT_revision_data stack h out P =
    Some (RMF_SUCCESS, revision_out (m_pSiCache P) (enc_nit t) (nit_rest t) out, P)"
proof -
  let ?b = "nit_body t"
  let ?B = "enc_nit_body ?b" and ?T = "enc_tail (nit_rest t)"
  let ?n = "4 + (length ?B + length ?T)"
  have e: "enc_nit t = 0xC2 # enc_length ?n @ [0, word_of_nat (nit_first t), word_of_nat (nit_record_count ?b), nit_subtype ?b] @ ?B @ ?T"
    by (simp add: enc_nit_def Let_def)
  obtain buf n where r: "ReadSection (m_pSectionFilter P) h 0 1021 0 stack = Some (RMF_SUCCESS, buf, n, m_pSectionFilter P)"
    and b: "holds_at buf 0 (enc_nit t)"
    by (rule read_whole[OF wf(1) bytes _ t(3) wf(3)]) (simp add: e)
  have l: "revision_length buf = Some (word_of_nat ?n)"
    using b[unfolded e] by (rule revision_length_enc) (use t(1) in \<open>simp add: nit_ok_def\<close>)
  have f: "rd buf 5 = Some (word_of_nat (nit_record_count ?b))" "rd buf 6 = Some (nit_subtype ?b)"
      "holds_at buf 7 (?B @ ?T)"
    using b[unfolded e enc_length_def append_Cons append_Nil holds_at_7 add_0] by simp_all
  have cnt: "nit_record_count ?b < 256"
    using t(1) by (cases ?b) (auto simp: nit_ok_def nit_body_ok_def nit_record_count_def)
  have sub: "\<not> GETBITS (nit_subtype ?b) 4 1 < 1" "\<not> GETBITS (nit_subtype ?b) 4 1 > 2"
    by (simp_all add: nit_subtype_def GETBITS_def split: nit_body.splits)
  have skip: "nit_skip_records (if GETBITS (nit_subtype ?b) 4 1 = 1 then 5 else 6) (nit_record_count ?b) buf 7
      (word_of_nat (length ?B + length ?T)) = Some (7 + length ?B, word_of_nat (length ?T))"
    by (rule nit_skip_body) (use t f in simp_all)
  have tail: "revision_tail (m_pSiCache P) buf (7 + length ?B) (word_of_nat (length ?T)) out =
      Some (revision_out (m_pSiCache P) (enc_nit t) (nit_rest t) out)"
    by (rule revision_tail_enc[OF _ b _ _ _ wf(2)])
      (use t f in \<open>simp_all add: nit_ok_def e enc_length_def\<close>)
  have sl: "word_of_nat ?n - (7 - 3) = (word_of_nat (length ?B + length ?T) :: 16 word)" by simp
  show ?thesis
    using r l f(1,2) sub skip tail cnt
    unfolding parseNIT_revision_data_def
    by (simp only: Option.bind.bind_lunit prod.case Let_def sl unat_of_nat_byte if_False simp_thms) simp
qed

text \<open>
  The SVCT: the pass tests a wrong bit for \<open>descriptors_included\<close>, so a virtual channel map is
  skipped correctly only without descriptors, and it cuts the number of ranges to seven bits.
\<close>

definition svct_skippable :: "svct_body \<Rightarrow> bool" where
  "svct_skippable b =
     (case b of VCM m \<Rightarrow> \<not> vm_descriptors_included m | DCM m \<Rightarrow> length (dm_ranges m) < 128)"

lemma vcm_skip_enc:
  "vcm_skip_records False n buf p (word_of_nat (9 * n + m)) = Some (p + 9 * n, word_of_nat m)"
proof (induction n arbitrary: p)
  case (Suc n)
  have "(word_of_nat (9 * Suc n + m) :: 16 word) - (6 + 3) = word_of_nat (9 * n + m)" by simp
  with Suc[of "p + (6 + 3)"] show ?case
    by (simp only: vcm_skip_records.simps Let_def if_False Option.bind.bind_lunit prod.case) simp
qed simp

lemma length_enc_vcm: "\<not> vm_descriptors_included m \<Longrightarrow> length (enc_vcm m) = 7 + 9 * length (vm_channels m)"
proof -
  have "length (concat (map (enc_vc False) rs)) = 9 * length rs" for rs
    by (induction rs) (simp_all add: enc_vc_def enc_vc_fixed_def)
  then show "\<not> vm_descriptors_included m \<Longrightarrow> length (enc_vcm m) = 7 + 9 * length (vm_channels m)"
    by (simp add: enc_vcm_def)
qed

lemma svct_skip_body_enc:
  assumes ok: "svct_body_ok b" "svct_skippable b" and buf: "holds_at buf p (enc_svct_body b)"
  shows "svct_skip_body (GETBITS (svct_subtype b) 4 1) buf p (word_of_nat (length (enc_svct_body b) + m)) =
    Some (Some (p + length (enc_svct_body b), word_of_nat m))"
proof (cases b)
  case (VCM v)
  let ?k = "length (vm_channels v)"
  from VCM ok have v: "\<not> vm_descriptors_included v" "?k < 256"
    by (simp_all add: svct_body_ok_def svct_skippable_def vcm_ok_def)
  from buf VCM have r: "rd buf p = Some 0" "rd buf (p + 6) = Some (word_of_nat ?k)"
    by (simp_all add: enc_svct_body_def enc_vcm_def v(1) be32_bytes_def holds_at_7 del: holds_at.simps)
  have g: "GETBITS 0 4 1 = (0 :: 32 word)" by (simp add: GETBITS_def)
  have "(word_of_nat (7 + 9 * ?k + m) :: 16 word) - 7 = word_of_nat (9 * ?k + m)" by simp
  then show ?thesis
    using r g v vcm_skip_enc[of ?k buf "p + 7" m] VCM
    by (simp add: svct_subtype_def enc_svct_body_def length_enc_vcm svct_skip_body_def unat_of_nat_byte Let_def
        del: of_nat_add of_nat_mult)
next
  case (DCM d)
  let ?k = "length (dm_ranges d)"
  from DCM ok have k: "?k < 128" by (simp add: svct_skippable_def)
  from buf DCM have r: "rd buf (p + 2) = Some (word_of_nat ?k)"
    by (simp add: enc_svct_body_def enc_dcm_def holds_at_3 del: holds_at.simps)
  have g: "GETBITS 1 4 1 = (1 :: 32 word)" by (simp add: GETBITS_def)
  have mask: "(word_of_nat ?k :: byte) AND 0x7F = word_of_nat ?k"
  proof (rule word_unat_eq_iff[THEN iffD2])
    have "(0x7F :: byte) = mask 7" by (simp add: mask_eq_exp_minus_1)
    then have "(word_of_nat ?k :: byte) AND 0x7F = take_bit 7 (word_of_nat ?k)" by (simp add: take_bit_eq_mask)
    then show "unat ((word_of_nat ?k :: byte) AND 0x7F) = unat (word_of_nat ?k :: byte)"
      using k by (simp add: unsigned_take_bit_eq unat_of_nat take_bit_nat_eq_self)
  qed
  have "(word_of_nat (?k + m) :: 16 word) - ucast (word_of_nat ?k :: byte) = word_of_nat m"
    using k by (simp add: ucast_of_nat_8_16)
  then show ?thesis
    using r g mask k DCM
    by (simp add: svct_subtype_def enc_svct_body_def enc_dcm_def svct_skip_body_def unat_of_nat_byte Let_def
        add.commute[of 3] del: of_nat_add)
qed

lemma parseSVCT_revision_data_enc:
  assumes t: "svct_ok t" "svct_skippable (svct_body t)" "length (enc_svct t) \<le> 1021"
    and wf: "sf_wf (m_pSectionFilter P)" "length (crctab (m_pSiCache P)) = 256" "length stack = 1021"
    and bytes: "section_bytes (m_pSectionFilter P) h = Some (enc_svct t)"
  shows "parseSVCT_revision_data stack h out P =
    Some (RMF_SUCCESS, revision_out (m_pSiCache P) (enc_svct t) (svct_rest t) out, P)"
proof -
  let ?b = "svct_body t"
  let ?B = "enc_svct_body ?b" and ?T = "enc_tail (svct_rest t)"
  let ?n = "4 + (length ?B + length ?T)"
  have e: "enc_svct t = 0xC4 # enc_length ?n
      @ [0, svct_subtype ?b, word_of_nat (svct_vct t div 256), word_of_nat (svct_vct t mod 256)] @ ?B @ ?T"
    by (simp add: enc_svct_def Let_def)
  obtain buf n where r: "ReadSection (m_pSectionFilter P) h 0 1021 0 stack = Some (RMF_SUCCESS, buf, n, m_pSectionFilter P)"
    and b: "holds_at buf 0 (enc_svct t)"
    by (rule read_whole[OF wf(1) bytes _ t(3) wf(3)]) (simp add: e)
  have l: "revision_length buf = Some (word_of_nat ?n)"
    using b[unfolded e] by (rule revision_length_enc) (use t(1) in \<open>simp add: svct_ok_def\<close>)
  have f: "rd buf 4 = Some (svct_subtype ?b)" "holds_at buf 7 (?B @ ?T)"
    using b[unfolded e enc_length_def append_Cons append_Nil holds_at_7 add_0] by simp_all
  have skip: "svct_skip_body (GETBITS (svct_subtype ?b) 4 1) buf 7 (word_of_nat (length ?B + length ?T)) =
      Some (Some (7 + length ?B, word_of_nat (length ?T)))"
    by (rule svct_skip_body_enc) (use t f in \<open>simp_all add: svct_ok_def\<close>)
  have tail: "revision_tail (m_pSiCache P) buf (7 + length ?B) (word_of_nat (length ?T)) out =
      Some (revision_out (m_pSiCache P) (enc_svct t) (svct_rest t) out)"
    by (rule revision_tail_enc[OF _ b _ _ _ wf(2)])
      (use t f in \<open>simp_all add: svct_ok_def e enc_length_def\<close>)
  have sl: "word_of_nat ?n - (7 - 3) = (word_of_nat (length ?B + length ?T) :: 16 word)" by simp
  show ?thesis
    using r l f(1) skip tail
    unfolding parseSVCT_revision_data_def
    by (simp only: Option.bind.bind_lunit prod.case Let_def sl option.case if_False simp_thms) simp
qed


text \<open>
  The NTT. With descriptors behind the names the pass agrees with the parser. Without any, the
  CRC is taken from the four octets behind the header of the table: the number of names, the
  application flag of the first and its id.
\<close>

lemma ntt_revision_tail_enc:
  assumes t: "tail_ok t" and buf: "holds_at buf p (enc_tail t)"
    and len: "4 < length (enc_tail t)" "length (enc_tail t) < 65536"
    and crc: "tail_crc t \<noteq> 0" "tail_crc t \<noteq> 0xFFFFFFFF"
  shows "ntt_revision_tail c buf p offset (word_of_nat (length (enc_tail t))) out = Some (revision_out c bs t out)"
proof -
  obtain q sl' where d: "revision_descriptor buf p (word_of_nat (length (enc_tail t))) out = Some (q, sl', tail_version t out)"
    "sl' = 4 \<longleftrightarrow> crc_reached t"
    and q: "crc_reached t \<Longrightarrow> holds_at buf q (be32_bytes (tail_crc t)) \<and> q + 4 = p + length (enc_tail t)"
    by (rule revision_descriptor_enc[OF t buf len, of out]) blast
  have "revision_crc c buf q offset o' = Some (o'\<lparr>out_crc := tail_crc t\<rparr>)" if "crc_reached t" for o'
    using read_be32_crc[OF conjunct1[OF q[OF that]]] crc by (simp add: revision_crc_def)
  then show ?thesis
    using d word16_gt_4[OF len(2)] len crc by (simp add: ntt_revision_tail_def revision_out_def section_crc_def)
qed

lemma parseNTT_revision_data_enc:
  assumes t: "ntt_ok t" "length (enc_ntt t) \<le> 1021"
    and wf: "sf_wf (m_pSectionFilter P)" "length stack = 1021"
    and bytes: "section_bytes (m_pSectionFilter P) h = Some (enc_ntt t)"
    and tail: "\<And>buf p. holds_at buf 0 (enc_ntt t) \<Longrightarrow> holds_at buf p (enc_tail (ntt_rest t)) \<Longrightarrow>
      ntt_revision_tail (m_pSiCache P) buf p 8 (word_of_nat (length (enc_tail (ntt_rest t)))) out = Some out'"
  shows "parseNTT_revision_data stack h out P = Some (RMF_SUCCESS, out', P)"
proof -
  let ?rs = "ntt_names t"
  let ?B = "concat (map enc_sns ?rs)" and ?T = "enc_tail (ntt_rest t)"
  let ?n = "5 + (1 + (length ?B + length ?T))"
  from t(1) obtain l1 l2 l3 where lang: "ntt_lang t = [l1, l2, l3]"
    by (auto simp: ntt_ok_def length_Suc_conv numeral_eq_Suc)
  have e: "enc_ntt t = 0xC3 # enc_length ?n @ [0, l1, l2, l3, 6, word_of_nat (length ?rs)] @ ?B @ ?T"
    by (simp add: enc_ntt_def enc_ntt_as_def enc_sns_subtable_def Let_def lang)
  have ok: "list_all sns_ok ?rs" "length ?rs < 256" using t(1) by (simp_all add: ntt_ok_def)
  obtain buf n where r: "ReadSection (m_pSectionFilter P) h 0 1021 0 stack = Some (RMF_SUCCESS, buf, n, m_pSectionFilter P)"
    and b: "holds_at buf 0 (enc_ntt t)"
    by (rule read_whole[OF wf(1) bytes _ t(2) wf(2)]) (simp add: e)
  have l: "revision_length buf = Some (word_of_nat ?n)"
    using b[unfolded e] by (rule revision_length_enc) (use t(1) in \<open>simp add: ntt_ok_def enc_sns_subtable_def\<close>)
  have f: "rd buf 7 = Some 6" "rd buf 8 = Some (word_of_nat (length ?rs))" "holds_at buf (8 + 1) (?B @ ?T)"
    using b[unfolded e enc_length_def append_Cons append_Nil holds_at_9 add_0] by simp_all
  have g: "GETBITS 6 4 1 = (6 :: 32 word)" by (simp add: GETBITS_def)
  have skip: "sns_skip_records (length ?rs) buf (8 + 1) (word_of_nat (length ?B + length ?T)) =
      Some (8 + 1 + length ?B, word_of_nat (length ?T))"
    by (rule sns_skip_enc) (use ok f in simp_all)
  have sl: "word_of_nat ?n - (8 - 3) - 1 = (word_of_nat (length ?B + length ?T) :: 16 word)" by simp
  have tl: "ntt_revision_tail (m_pSiCache P) buf (8 + 1 + length ?B) 8 (word_of_nat (length ?T)) out = Some out'"
    by (rule tail[OF b]) (use f(3) in simp)
  show ?thesis
    using r l f(1,2) g skip tl ok(2)
    unfolding parseNTT_revision_data_def
    by (simp only: Option.bind.bind_lunit prod.case Let_def sl unat_of_nat_byte if_False simp_thms) simp
qed

definition ntt_false_crc :: "ntt_table \<Rightarrow> 32 word" where
  "ntt_false_crc t =
     (case ntt_names t of
        [] \<Rightarrow> 0
      | r # _ \<Rightarrow> be32 (word_of_nat (length (ntt_names t))) (128 * of_bool (sns_application r))
                  (word_of_nat (sns_id r div 256)) (word_of_nat (sns_id r mod 256)))"

lemma ntt_false_crc_enc:
  assumes t: "ntt_names t \<noteq> []" "tail_rdd (ntt_rest t) = None" "tail_descs (ntt_rest t) = []"
    and ok: "ntt_ok t" and buf: "holds_at buf 0 (enc_ntt t)"
  shows "ntt_revision_tail c buf p 8 (word_of_nat (length (enc_tail (ntt_rest t)))) out =
    Some ((no_version out)\<lparr>out_crc := ntt_false_crc t\<rparr>)"
proof -
  obtain r rs where n: "ntt_names t = r # rs" using t(1) by (cases "ntt_names t") auto
  from ok obtain l1 l2 l3 where lang: "ntt_lang t = [l1, l2, l3]"
    by (auto simp: ntt_ok_def length_Suc_conv numeral_eq_Suc)
  define k where "k = 5 + length (enc_sns_subtable (ntt_names t) @ enc_tail (ntt_rest t))"
  define a b where "a = (word_of_nat (sns_id r div 256) :: byte)" and "b = (word_of_nat (sns_id r mod 256) :: byte)"
  define app where "app = (128 * of_bool (sns_application r) :: byte)"
  define cnt where "cnt = (word_of_nat (length (ntt_names t)) :: byte)"
  have "\<exists>xs. enc_ntt t = [0xC3, word_of_nat (0x30 + k div 256), word_of_nat (k mod 256), 0, l1, l2, l3, 6, cnt] @ app # a # b # xs"
    by (simp add: enc_ntt_def enc_ntt_as_def enc_sns_subtable_def Let_def lang n enc_sns_def enc_length_def k_def
        a_def b_def app_def cnt_def)
  then have r8: "read_be32 buf 8 = Some (be32 cnt app a b)"
    using buf unfolding append_Cons append_Nil read_be32_def
    by (auto simp only: holds_at_9 holds_at_3 add_0) simp
  have "bit (be32 cnt app a b) 16 = False" by (auto simp: be32_def bit_simps app_def dest: byte_bit)
  then have "be32 cnt app a b \<noteq> 0xFFFFFFFF" by (auto simp: bit_simps)
  moreover have "be32 cnt app a b \<noteq> 0"
  proof
    assume z: "be32 cnt app a b = 0"
    have "unat cnt = 0"
    proof -
      have "cnt = ucast (drop_bit 24 (be32 cnt app a b))"
        by (rule bit_word_eqI) (auto simp: be32_def bit_simps dest: byte_bit)
      with z show ?thesis by simp
    qed
    moreover have "unat cnt = length (ntt_names t)"
      unfolding cnt_def using ok by (intro unat_of_nat_byte) (simp add: ntt_ok_def)
    ultimately show False using t(1) by simp
  qed
  moreover have "ntt_false_crc t = be32 cnt app a b"
    by (simp add: ntt_false_crc_def n cnt_def app_def a_def b_def)
  moreover have "length (enc_tail (ntt_rest t)) = 4" using t by (simp add: enc_tail_def enc_rdd_def)
  ultimately show ?thesis using r8 by (simp add: ntt_revision_tail_def revision_crc_def)
qed

section \<open>The tables together\<close>

datatype si_table = NIT_table nit_table | SVCT_table svct_table | NTT_table ntt_table

definition enc_table :: "si_table \<Rightarrow> byte list" where
  "enc_table T = (case T of NIT_table t \<Rightarrow> enc_nit t | SVCT_table t \<Rightarrow> enc_svct t | NTT_table t \<Rightarrow> enc_ntt t)"

definition table_rest :: "si_table \<Rightarrow> section_tail" where
  "table_rest T = (case T of NIT_table t \<Rightarrow> nit_rest t | SVCT_table t \<Rightarrow> svct_rest t | NTT_table t \<Rightarrow> ntt_rest t)"

definition table_id_of :: "si_table \<Rightarrow> byte" where
  "table_id_of T = (case T of NIT_table t \<Rightarrow> NETWORK_INFORMATION_TABLE_ID
     | SVCT_table t \<Rightarrow> SF_VIRTUAL_CHANNEL_TABLE_ID | NTT_table t \<Rightarrow> NETWORK_TEXT_TABLE_ID)"

definition table_ok :: "si_table \<Rightarrow> bool" where
  "table_ok T = (case T of NIT_table t \<Rightarrow> nit_ok t | SVCT_table t \<Rightarrow> svct_ok t | NTT_table t \<Rightarrow> ntt_ok t)"

text \<open>The tables on which the revision pass and the parser find the same fields.\<close>

definition revisable :: "si_table \<Rightarrow> bool" where
  "revisable T \<longleftrightarrow> length (enc_table T) \<le> 1021 \<and>
     (case T of
        NIT_table t \<Rightarrow> nit_uniform t
      | SVCT_table t \<Rightarrow> svct_skippable (svct_body t)
      | NTT_table t \<Rightarrow> (tail_rdd (ntt_rest t) \<noteq> None \<or> tail_descs (ntt_rest t) \<noteq> []) \<and>
          tail_crc (ntt_rest t) \<notin> {0, 0xFFFFFFFF})"

lemma enc_table_hd: "\<exists>bs. enc_table T = table_id_of T # bs"
  by (cases T) (simp_all add: enc_table_def table_id_of_def enc_nit_def enc_svct_def enc_ntt_def enc_ntt_as_def Let_def)

lemma tail_longer: "tail_rdd t \<noteq> None \<or> tail_descs t \<noteq> [] \<Longrightarrow> 4 < length (enc_tail t)"
  by (cases "tail_descs t") (auto simp: enc_tail_def enc_rdd_def)

lemma get_revision_data_enc:
  assumes T: "table_ok T" "revisable T"
    and wf: "sf_wf (m_pSectionFilter P)" "length (crctab (m_pSiCache P)) = 256"
    and loc: "length stack = 1021" "length id_buffer = 1"
    and bytes: "section_bytes (m_pSectionFilter P) h = Some (enc_table T)"
  shows "get_revision_data id_buffer stack h out P =
    Some (RMF_SUCCESS,
      (if isVersioningByCRC32 (m_pSiCache P) then no_version else id)
        (revision_out (m_pSiCache P) (enc_table T) (table_rest T) out), P)"
proof -
  obtain bs where hd: "enc_table T = table_id_of T # bs" using enc_table_hd[of T] by blast
  obtain n buf where r: "ReadSection (m_pSectionFilter P) h 0 1 0 id_buffer = Some (RMF_SUCCESS, buf, n, m_pSectionFilter P)"
      "rd buf 0 = Some (table_id_of T)"
    by (rule read_table_id[OF wf(1) bytes[unfolded hd] loc(2)])
  have "parseNIT_revision_data stack h out P = Some (RMF_SUCCESS, revision_out (m_pSiCache P) (enc_nit t) (nit_rest t) out, P)"
    if "T = NIT_table t" for t
    by (rule parseNIT_revision_data_enc)
      (use that T wf loc bytes in \<open>simp_all add: table_ok_def revisable_def enc_table_def\<close>)
  moreover have "parseSVCT_revision_data stack h out P = Some (RMF_SUCCESS, revision_out (m_pSiCache P) (enc_svct t) (svct_rest t) out, P)"
    if "T = SVCT_table t" for t
    by (rule parseSVCT_revision_data_enc)
      (use that T wf loc bytes in \<open>simp_all add: table_ok_def revisable_def enc_table_def\<close>)
  moreover have "parseNTT_revision_data stack h out P = Some (RMF_SUCCESS, revision_out (m_pSiCache P) (enc_ntt t) (ntt_rest t) out, P)"
    if "T = NTT_table t" for t
  proof (rule parseNTT_revision_data_enc)
    show "ntt_revision_tail (m_pSiCache P) buf p 8 (word_of_nat (length (enc_tail (ntt_rest t)))) out =
        Some (revision_out (m_pSiCache P) (enc_ntt t) (ntt_rest t) out)" if "holds_at buf p (enc_tail (ntt_rest t))" for buf p
      by (rule ntt_revision_tail_enc[OF _ that])
        (use \<open>T = _\<close> T in \<open>auto simp: table_ok_def revisable_def enc_table_def ntt_ok_def intro: tail_longer\<close>)
  qed (use that T wf loc bytes in \<open>simp_all add: table_ok_def revisable_def enc_table_def\<close>)
  ultimately show ?thesis
    using r by (cases T) (simp_all add: get_revision_data_def table_id_of_def enc_table_def table_rest_def Let_def)
qed

text \<open>
  C4. The revision pass agrees with the parser: on the section of a NIT, SVCT or NTT inside the limits of
  \<open>revisable\<close> it returns the version and section numbers of the revision detection descriptor, or
  \<open>NO_VERSION\<close> without one or when revisions are detected by CRC, and the CRC of the section.
\<close>

theorem get_revision_data_finds:
  assumes T: "table_ok T" "revisable T"
    and wf: "sf_wf (m_pSectionFilter P)" "length (crctab (m_pSiCache P)) = 256"
    and loc: "length stack = 1021" "length id_buffer = 1"
    and bytes: "section_bytes (m_pSectionFilter P) h = Some (enc_table T)"
  shows "get_revision_data id_buffer stack h out P =
    Some (RMF_SUCCESS,
      (if isVersioningByCRC32 (m_pSiCache P) then no_version else id)
        (revision_out (m_pSiCache P) (enc_table T) (table_rest T) out), P)"
  by (rule get_revision_data_enc) (fact assms)+

lemma single_section_tab: "length (crctab (m_pSiCache (single_section_parser bs))) = 256"
  by (simp add: single_section_parser_def rmf_OobSiCache_new_def)

theorem get_revision_data_finds_witness:
  "get_revision_data [0] (replicate 1021 0) 1
     \<lparr>out_version = 0, out_section_number = 0, out_last_section_number = 0, out_crc = 0\<rparr>
     (single_section_parser (enc_nit nit_example)) =
   Some (RMF_SUCCESS,
     \<lparr>out_version = 5, out_section_number = 0, out_last_section_number = 0, out_crc = 0xDEADBEEF\<rparr>,
     single_section_parser (enc_nit nit_example))"
proof -
  let ?P = "single_section_parser (enc_nit nit_example)"
  have T: "table_ok (NIT_table nit_example)" "revisable (NIT_table nit_example)"
    using nit_example_ok(1)
    by (simp_all add: table_ok_def revisable_def nit_uniform_def uniform_def enc_table_def nit_example_def
        enc_nit_def Let_def enc_length_def enc_nit_body_def enc_cds_def enc_descriptor_def enc_tail_def
        enc_rdd_def be32_bytes_def)
  have "\<not> isVersioningByCRC32 (m_pSiCache ?P)"
    by (simp add: isVersioningByCRC32_def single_section_parser_def rmf_OobSiCache_new_def)
  moreover have "revision_out c bs (table_rest (NIT_table nit_example)) out =
      \<lparr>out_version = 5, out_section_number = 0, out_last_section_number = 0, out_crc = 0xDEADBEEF\<rparr>"
    if "out = \<lparr>out_version = 0, out_section_number = 0, out_last_section_number = 0, out_crc = 0\<rparr>" for c bs out
    by (simp add: that revision_out_def crc_reached_def tail_version_def section_crc_def table_rest_def nit_example_def)
  ultimately show ?thesis
    using get_revision_data_finds[OF T single_section_parser_ok(1)[OF nit_example_ok(3)] single_section_tab,
        of "replicate 1021 0" "[0]" 1 "\<lparr>out_version = 0, out_section_number = 0, out_last_section_number = 0, out_crc = 0\<rparr>"]
      single_section_parser_ok(2)[OF nit_example_ok(3)]
    by (simp add: enc_table_def)
qed

text \<open>
  C29. The CRC the revision pass reports for an NTT section without descriptors is not its CRC: it is
  formed from the number of names, the application flag of the first name and its id, whatever the
  names are and whatever CRC the section carries.
\<close>

theorem get_revision_data_NTT_false_crc:
  assumes t: "ntt_ok t" "length (enc_ntt t) \<le> 1021" "ntt_names t \<noteq> []"
      "tail_rdd (ntt_rest t) = None" "tail_descs (ntt_rest t) = []"
    and wf: "sf_wf (m_pSectionFilter P)"
    and loc: "length stack = 1021" "length id_buffer = 1"
    and bytes: "section_bytes (m_pSectionFilter P) h = Some (enc_ntt t)"
  shows "get_revision_data id_buffer stack h out P =
    Some (RMF_SUCCESS, (no_version out)\<lparr>out_crc := ntt_false_crc t\<rparr>, P)"
proof -
  obtain bs where hd: "enc_ntt t = 0xC3 # bs" by (simp add: enc_ntt_def enc_ntt_as_def Let_def)
  obtain n buf where r: "ReadSection (m_pSectionFilter P) h 0 1 0 id_buffer = Some (RMF_SUCCESS, buf, n, m_pSectionFilter P)"
      "rd buf 0 = Some 0xC3"
    by (rule read_table_id[OF wf bytes[unfolded hd] loc(2)])
  have "parseNTT_revision_data stack h out P = Some (RMF_SUCCESS, (no_version out)\<lparr>out_crc := ntt_false_crc t\<rparr>, P)"
    by (rule parseNTT_revision_data_enc[OF t(1,2) wf loc(1) bytes]) (rule ntt_false_crc_enc[OF t(3-5,1)])
  with r show ?thesis by (simp add: get_revision_data_def Let_def no_version_def)
qed

definition ntt_bare_example :: ntt_table where
  "ntt_bare_example = ntt_example\<lparr>ntt_rest := \<lparr>tail_rdd = None, tail_descs = [], tail_crc = 7\<rparr>\<rparr>"

lemma ntt_bare_example_ok:
  "ntt_ok ntt_bare_example" "length (enc_ntt ntt_bare_example) = 23"
  by (simp_all add: ntt_bare_example_def ntt_example_def ntt_ok_def sns_ok_def tail_ok_def enc_ntt_def enc_ntt_as_def
      Let_def enc_length_def enc_sns_subtable_def enc_sns_def enc_tail_def enc_rdd_def be32_bytes_def)

theorem get_revision_data_NTT_false_crc_witness:
  "get_revision_data [0] (replicate 1021 0) 1
     \<lparr>out_version = 0, out_section_number = 0, out_last_section_number = 0, out_crc = 0\<rparr>
     (single_section_parser (enc_ntt ntt_bare_example)) =
   Some (RMF_SUCCESS,
     \<lparr>out_version = 255, out_section_number = 255, out_last_section_number = 255, out_crc = 0x010003E8\<rparr>,
     single_section_parser (enc_ntt ntt_bare_example))"
proof -
  have l: "length (enc_ntt ntt_bare_example) < 65536" by (simp add: ntt_bare_example_ok)
  have "ntt_false_crc ntt_bare_example = 0x010003E8"
    by (simp add: ntt_false_crc_def ntt_bare_example_def ntt_example_def be32_def)
  then show ?thesis
    using get_revision_data_NTT_false_crc[OF ntt_bare_example_ok(1) _ _ _ _ single_section_parser_ok(1)[OF l],
        of "replicate 1021 0" "[0]" 1 "\<lparr>out_version = 0, out_section_number = 0, out_last_section_number = 0, out_crc = 0\<rparr>"]
      single_section_parser_ok(2)[OF l] ntt_bare_example_ok(2)
    by (simp add: no_version_def) (simp add: ntt_bare_example_def ntt_example_def)
qed

end
