(* ===== verification/SiTables.thy ===== *)
theory SiTables
  imports RevisionData SectionRequests
begin

text \<open>
  The table bookkeeping of \<open>qamsource/simgr/oob/src/rmf_oobsimgr.cpp\<close>: for each of the five tables the
  manager acquires, the sections seen so far with their CRC, match count and time. The array \<open>section\<close>
  has 64 elements; accesses go through \<open>rd\<close> and \<open>wr\<close>, so that an index outside it is \<open>None\<close>. Times are
  milliseconds (\<open>long long\<close>, taken as unbounded). The configuration values the constructor reads from the
  environment are the fields of \<open>si_config\<close>.
\<close>

datatype rmf_si_state_e =
    RMF_SI_STATE_WAIT_TABLE_REVISION
  | RMF_SI_STATE_WAIT_TABLE_COMPLETE
  | RMF_SI_STATE_NONE

datatype rmf_si_revisioning_type_e = RMF_SI_REV_TYPE_UNKNOWN | RMF_SI_REV_TYPE_RDD | RMF_SI_REV_TYPE_CRC

record rmf_si_table_section_t =
  section_acquired :: bool
  crc_32 :: "32 word"
  crc_section_match_count :: byte
  last_seen_time :: int

record rmf_si_table_t =
  table_id :: byte
  subtype :: byte
  table_state :: rmf_si_state_e
  rev_type :: rmf_si_revisioning_type_e
  rev_sample_count :: "32 word"
  table_acquired :: bool
  table_unique_id :: "32 word"
  version_number :: byte
  number_sections :: byte
  filter_start_time :: int
  sections :: "rmf_si_table_section_t list"
  rolling_match_counter :: "32 word"

record si_config =
  g_sitp_si_max_nit_cds_wait_time :: "32 word"
  g_sitp_si_max_nit_mms_wait_time :: "32 word"
  g_sitp_si_max_svct_dcm_wait_time :: "32 word"
  g_sitp_si_max_svct_vcm_wait_time :: "32 word"
  g_sitp_si_max_ntt_wait_time :: "32 word"
  g_sitp_si_update_poll_interval :: "32 word"
  g_sitp_si_update_poll_interval_max :: "32 word"
  g_sitp_si_update_poll_interval_min :: "32 word"
  g_sitp_si_status_update_time_interval :: "32 word"
  g_sitp_si_initial_section_match_count :: "32 word"
  g_sitp_si_rev_sample_sections :: "32 word"
  g_stip_si_process_table_revisions :: "32 word"
  g_sitp_si_filter_multiplier :: "32 word"
  g_sitp_si_section_retention_time :: "32 word"
  g_sitp_si_max_nit_section_seen_count :: "32 word"
  g_sitp_si_max_vcm_section_seen_count :: "32 word"
  g_sitp_si_max_dcm_section_seen_count :: "32 word"
  g_sitp_si_max_ntt_section_seen_count :: "32 word"
  g_siOobFilterEnable :: bool
  inIpDirectMode :: bool
  g_sitp_si_queue :: "32 word"

abbreviation (input) RMF_SI_FAILURE :: rmf_Error where "RMF_SI_FAILURE \<equiv> 1"
abbreviation (input) MAX_SECTION_NUMBER :: nat where "MAX_SECTION_NUMBER \<equiv> 64"
abbreviation (input) SITP_SI_INIT_VERSION :: byte where "SITP_SI_INIT_VERSION \<equiv> 32"
abbreviation (input) SITP_SI_INIT_CRC_32 :: "32 word" where "SITP_SI_INIT_CRC_32 \<equiv> 0xFFFFFFFF"
abbreviation (input) CARRIER_DEFINITION_SUBTABLE :: byte where "CARRIER_DEFINITION_SUBTABLE \<equiv> 1"
abbreviation (input) MODULATION_MODE_SUBTABLE :: byte where "MODULATION_MODE_SUBTABLE \<equiv> 2"
abbreviation (input) VIRTUAL_CHANNEL_MAP :: byte where "VIRTUAL_CHANNEL_MAP \<equiv> 0"
abbreviation (input) DEFINED_CHANNEL_MAP :: byte where "DEFINED_CHANNEL_MAP \<equiv> 1"
abbreviation (input) SOURCE_NAME_SUBTABLE :: byte where "SOURCE_NAME_SUBTABLE \<equiv> 6"

section \<open>Creating and resetting\<close>

definition init_section :: rmf_si_table_section_t where
  "init_section = \<lparr>section_acquired = False, crc_32 = SITP_SI_INIT_CRC_32, crc_section_match_count = 0, last_seen_time = 0\<rparr>"

definition init_table :: "byte \<Rightarrow> byte \<Rightarrow> rmf_si_table_t" where
  "init_table tid st =
     \<lparr>table_id = tid, subtype = st, table_state = RMF_SI_STATE_NONE, rev_type = RMF_SI_REV_TYPE_UNKNOWN,
      rev_sample_count = 0, table_acquired = False, table_unique_id = 0, version_number = SITP_SI_INIT_VERSION,
      number_sections = 0, filter_start_time = 0, sections = replicate MAX_SECTION_NUMBER init_section,
      rolling_match_counter = 0\<rparr>"

text \<open>The allocator returns zeroed memory, hence \<open>filter_start_time\<close> 0.\<close>

definition createAndSetTableDataArray :: "rmf_Error \<Rightarrow> rmf_Error \<times> rmf_si_table_t list option" where
  "createAndSetTableDataArray alloc =
     (if alloc \<noteq> RMF_SUCCESS then (RMF_SI_FAILURE, None)
      else (RMF_SUCCESS, Some
        [init_table NETWORK_INFORMATION_TABLE_ID CARRIER_DEFINITION_SUBTABLE,
         init_table NETWORK_INFORMATION_TABLE_ID MODULATION_MODE_SUBTABLE,
         init_table SF_VIRTUAL_CHANNEL_TABLE_ID VIRTUAL_CHANNEL_MAP,
         init_table SF_VIRTUAL_CHANNEL_TABLE_ID DEFINED_CHANNEL_MAP,
         init_table NETWORK_TEXT_TABLE_ID SOURCE_NAME_SUBTABLE]))"

text \<open>\<open>for (ii = 0; ii < k; ii++)\<close> with an assignment to fields of \<open>section[ii]\<close>.\<close>

fun update_loop :: "('a \<Rightarrow> 'a) \<Rightarrow> nat \<Rightarrow> nat \<Rightarrow> 'a list \<Rightarrow> 'a list option" where
  "update_loop f 0 ii secs = Some secs"
| "update_loop f (Suc k) ii secs =
     do { s \<leftarrow> rd secs ii; secs \<leftarrow> wr secs ii (f s); update_loop f k (Suc ii) secs }"

definition reset_section_array :: "rmf_si_revisioning_type_e \<Rightarrow> rmf_si_table_t \<Rightarrow> rmf_si_table_t option" where
  "reset_section_array rt t =
     (if rt = RMF_SI_REV_TYPE_RDD then
        do { secs \<leftarrow> update_loop (\<lambda>s. s\<lparr>section_acquired := False, crc_32 := 0, crc_section_match_count := 0\<rparr>)
                     (unat (number_sections t)) 0 (sections t);
             Some (t\<lparr>sections := secs, table_acquired := False, number_sections := 0\<rparr>) }
      else
        do { secs \<leftarrow> update_loop (\<lambda>s. s\<lparr>section_acquired := False, crc_section_match_count := 0\<rparr>)
                     MAX_SECTION_NUMBER 0 (sections t);
             Some (t\<lparr>sections := secs, table_acquired := False\<rparr>) })"

section \<open>Looking up\<close>

fun match_loop :: "nat \<Rightarrow> nat \<Rightarrow> 32 word \<Rightarrow> rmf_si_table_section_t list \<Rightarrow> nat option option" where
  "match_loop 0 ii crc secs = Some None"
| "match_loop (Suc k) ii crc secs =
     do { s \<leftarrow> rd secs ii; if crc_32 s = crc then Some (Some ii) else match_loop k (Suc ii) crc secs }"

text \<open>The index is stored through a pointer on success only: \<open>Some i\<close> is true with index \<open>i\<close>.\<close>

definition matchedCRC32 :: "rmf_si_table_t \<Rightarrow> 32 word \<Rightarrow> nat option option" where
  "matchedCRC32 t crc = match_loop (unat (number_sections t)) 0 crc (sections t)"

fun acquired_loop :: "nat \<Rightarrow> nat \<Rightarrow> bool \<Rightarrow> rmf_si_table_section_t list \<Rightarrow> bool option" where
  "acquired_loop 0 ii all secs = Some all"
| "acquired_loop (Suc k) ii all secs =
     do { s \<leftarrow> rd secs ii; acquired_loop k (Suc ii) (if section_acquired s then all else False) secs }"

abbreviation (input) DCM_ACQUIRED :: "32 word" where "DCM_ACQUIRED \<equiv> 8"

text \<open>The result, \<open>all_sections_acquired\<close>, and the table, whose \<open>table_acquired\<close> one branch sets.\<close>

definition isTable_acquired ::
  "32 word \<Rightarrow> rmf_OobSiCache \<Rightarrow> rmf_si_table_t \<Rightarrow> (bool \<times> bool \<times> rmf_si_table_t) option" where
  "isTable_acquired svctAcquired c t =
     do { all \<leftarrow> acquired_loop (unat (number_sections t)) 0 True (sections t);
          Some (if all then (True, all, t)
                else if rev_type t = RMF_SI_REV_TYPE_RDD then (False, all, t)
                else if table_id t = SF_VIRTUAL_CHANNEL_TABLE_ID \<and> subtype t = VIRTUAL_CHANNEL_MAP \<and>
                        svctAcquired AND DCM_ACQUIRED = DCM_ACQUIRED \<and> IsVCMComplete c
                then (True, all, t\<lparr>table_acquired := True\<rparr>)
                else (False, all, t)) }"

definition section_seen_count :: "si_config \<Rightarrow> rmf_si_table_t \<Rightarrow> 32 word" where
  "section_seen_count cfg t =
     (if table_id t = NETWORK_INFORMATION_TABLE_ID then g_sitp_si_max_nit_section_seen_count cfg
      else if table_id t = SF_VIRTUAL_CHANNEL_TABLE_ID then
        (if subtype t = VIRTUAL_CHANNEL_MAP then g_sitp_si_max_vcm_section_seen_count cfg
         else if subtype t = DEFINED_CHANNEL_MAP then g_sitp_si_max_dcm_section_seen_count cfg
         else 0)
      else if table_id t = NETWORK_TEXT_TABLE_ID then g_sitp_si_max_ntt_section_seen_count cfg
      else 0)"

definition checkCRCMatchCount :: "si_config \<Rightarrow> rmf_si_table_t \<Rightarrow> nat \<Rightarrow> bool option" where
  "checkCRCMatchCount cfg t section_index =
     do { s \<leftarrow> rd (sections t) section_index;
          Some (ucast (crc_section_match_count s) = section_seen_count cfg t) }"

fun unique_id_loop :: "32 word \<Rightarrow> nat \<Rightarrow> rmf_si_table_t list \<Rightarrow> nat option" where
  "unique_id_loop unique_id table_index [] = None"
| "unique_id_loop unique_id table_index (t # ts) =
     (if table_unique_id t = unique_id then Some table_index else unique_id_loop unique_id (Suc table_index) ts)"

definition findTableIndexByUniqueId :: "32 word \<Rightarrow> rmf_si_table_t list \<Rightarrow> rmf_Error \<times> nat option" where
  "findTableIndexByUniqueId unique_id tables =
     (case unique_id_loop unique_id 0 tables of None \<Rightarrow> (RMF_SI_FAILURE, None) | Some i \<Rightarrow> (RMF_SUCCESS, Some i))"

definition checkForActiveFilters :: "rmf_si_table_t list \<Rightarrow> bool" where
  "checkForActiveFilters tables \<longleftrightarrow> list_ex (\<lambda>t. table_unique_id t \<noteq> 0) tables"

section \<open>Purging\<close>

text \<open>\<open>for (jj = ii; jj < n; jj++) section[jj] = section[jj + 1]\<close> with \<open>k = n - ii\<close> rounds.\<close>

fun shift_loop :: "nat \<Rightarrow> nat \<Rightarrow> 'a list \<Rightarrow> 'a list option" where
  "shift_loop 0 jj secs = Some secs"
| "shift_loop (Suc k) jj secs =
     do { s \<leftarrow> rd secs (jj + 1); secs \<leftarrow> wr secs jj s; shift_loop k (Suc jj) secs }"

lemma unat_pred_less: "ii < unat (n :: byte) \<Longrightarrow> unat (n - 1) - ii < unat n - ii"
proof -
  assume a: "ii < unat n"
  then have "n \<noteq> 0" by auto
  then have "unat (n - 1) = unat n - 1" by (rule unat_minus_one)
  with a show ?thesis by simp
qed

text \<open>The index stays where it is when the element is dropped (\<open>ii--\<close> before \<open>ii++\<close>).\<close>

function purge_loop :: "('a \<Rightarrow> bool) \<Rightarrow> nat \<Rightarrow> byte \<Rightarrow> 'a list \<Rightarrow> (byte \<times> 'a list) option" where
  "purge_loop old ii n secs =
     (if ii < unat n then
        do { s \<leftarrow> rd secs ii;
             if old s
             then do { secs \<leftarrow> shift_loop (unat (n - 1) - ii) ii secs; purge_loop old ii (n - 1) secs }
             else purge_loop old (Suc ii) n secs }
      else Some (n, secs))"
  by pat_completeness auto

termination
  by (relation "measure (\<lambda>(_, ii, n, _). unat n - ii)") (simp_all add: unat_pred_less)

declare purge_loop.simps [simp del]

definition purgeSectionsNotMatchedByFilter :: "si_config \<Rightarrow> rmf_si_table_t \<Rightarrow> rmf_si_table_t option" where
  "purgeSectionsNotMatchedByFilter cfg t =
     (if g_sitp_si_section_retention_time cfg = 0 then Some t
      else do { (n, secs) \<leftarrow> purge_loop (\<lambda>s. last_seen_time s \<le> filter_start_time t) 0 (number_sections t) (sections t);
                Some (t\<lparr>number_sections := n, sections := secs\<rparr>) })"

definition purgeOldSectionMatches :: "si_config \<Rightarrow> int \<Rightarrow> rmf_si_table_t \<Rightarrow> rmf_si_table_t option" where
  "purgeOldSectionMatches cfg current_time t =
     (if g_sitp_si_section_retention_time cfg = 0 then Some t
      else do { (n, secs) \<leftarrow> purge_loop (\<lambda>s. current_time - last_seen_time s > uint (g_sitp_si_section_retention_time cfg))
                               0 (number_sections t) (sections t);
                Some (t\<lparr>number_sections := n, sections := secs\<rparr>) })"

definition rmf_si_purge_RDD_tables :: "rmf_si_table_t list \<Rightarrow> rmf_si_table_t list option" where
  "rmf_si_purge_RDD_tables tables =
     those (map (\<lambda>t. if rev_type t = RMF_SI_REV_TYPE_RDD
                     then do { secs \<leftarrow> update_loop (\<lambda>s. s\<lparr>section_acquired := False, crc_32 := 0, crc_section_match_count := 0\<rparr>)
                                          MAX_SECTION_NUMBER 0 (sections t);
                               Some (t\<lparr>version_number := NO_VERSION, sections := secs\<rparr>) }
                     else Some t) tables)"

section \<open>The loops\<close>

definition seen :: "rmf_si_table_t \<Rightarrow> rmf_si_table_section_t list" where
  "seen t = take (unat (number_sections t)) (sections t)"

definition table_wf :: "rmf_si_table_t \<Rightarrow> bool" where
  "table_wf t \<longleftrightarrow> length (sections t) = MAX_SECTION_NUMBER \<and> unat (number_sections t) \<le> MAX_SECTION_NUMBER"

lemma init_table_wf: "table_wf (init_table tid st)" "seen (init_table tid st) = []"
  by (simp_all add: table_wf_def seen_def init_table_def)

lemma update_loop_run:
  assumes "ii + k \<le> length secs"
  shows "update_loop f k ii secs = Some (take ii secs @ map f (take k (drop ii secs)) @ drop (ii + k) secs)"
  using assms
proof (induction k arbitrary: ii secs)
  case (Suc k)
  then have ii: "ii < length secs" by simp
  have "update_loop f (Suc k) ii secs = update_loop f k (Suc ii) (secs[ii := f (secs ! ii)])"
    using ii by (simp add: rd_def wr_def)
  also have "\<dots> = Some (take (Suc ii) (secs[ii := f (secs ! ii)]) @
      map f (take k (drop (Suc ii) (secs[ii := f (secs ! ii)]))) @ drop (Suc ii + k) (secs[ii := f (secs ! ii)]))"
    using Suc.prems by (intro Suc.IH) simp
  also have "take (Suc ii) (secs[ii := f (secs ! ii)]) = take ii secs @ [f (secs ! ii)]"
    using ii by (simp add: take_Suc_conv_app_nth)
  also have "drop (Suc ii) (secs[ii := f (secs ! ii)]) = drop (Suc ii) secs" by simp
  also have "take (Suc k) (drop ii secs) = secs ! ii # take k (drop (Suc ii) secs)"
    using ii by (simp add: Cons_nth_drop_Suc[symmetric])
  ultimately show ?case using ii by simp
qed simp

lemma update_loop_all: "length secs = n \<Longrightarrow> update_loop f n 0 secs = Some (map f secs)"
  using update_loop_run[of 0 n secs f] by simp

lemma match_loop_run:
  "ii + k \<le> length secs \<Longrightarrow> match_loop k ii crc secs = Some (List.find (\<lambda>i. crc_32 (secs ! i) = crc) [ii..<ii + k])"
proof (induction k arbitrary: ii)
  case (Suc k)
  then have "[ii..<ii + Suc k] = ii # [Suc ii..<Suc ii + k]" by (simp add: upt_rec)
  with Suc show ?case by (simp add: rd_def)
qed simp

lemma acquired_loop_run:
  "ii + k \<le> length secs \<Longrightarrow>
   acquired_loop k ii all secs = Some (all \<and> list_all section_acquired (take k (drop ii secs)))"
proof (induction k arbitrary: ii all)
  case (Suc k)
  then have "take (Suc k) (drop ii secs) = secs ! ii # take k (drop (Suc ii) secs)"
    by (simp add: Cons_nth_drop_Suc[symmetric])
  with Suc show ?case by (simp add: rd_def)
qed simp

lemma shift_loop_run:
  "jj + k < length secs \<Longrightarrow>
   shift_loop k jj secs = Some (take jj secs @ take k (drop (Suc jj) secs) @ drop (jj + k) secs)"
proof (induction k arbitrary: jj secs)
  case (Suc k)
  let ?s = "secs[jj := secs ! (jj + 1)]"
  have "shift_loop (Suc k) jj secs = shift_loop k (Suc jj) ?s" using Suc.prems by (simp add: rd_def wr_def)
  also have "\<dots> = Some (take (Suc jj) ?s @ take k (drop (Suc (Suc jj)) ?s) @ drop (Suc jj + k) ?s)"
    using Suc.prems by (intro Suc.IH) simp
  also have "take (Suc jj) ?s = take jj secs @ [secs ! (jj + 1)]"
    using Suc.prems by (simp add: take_Suc_conv_app_nth)
  also have "drop (Suc (Suc jj)) ?s = drop (Suc (Suc jj)) secs" by simp
  also have "drop (Suc jj + k) ?s = drop (Suc jj + k) secs" by simp
  finally show ?case using Suc.prems by (simp add: Cons_nth_drop_Suc[symmetric])
qed simp

text \<open>Shifting the rest of the first \<open>n\<close> elements down drops one of them.\<close>

lemma shift_loop_removes:
  assumes "ii < n" "n \<le> length secs"
  obtains secs' where "shift_loop (n - 1 - ii) ii secs = Some secs'" "length secs' = length secs"
    "take ii secs' = take ii secs" "drop ii (take (n - 1) secs') = drop (Suc ii) (take n secs)"
proof
  let ?s = "take ii secs @ take (n - 1 - ii) (drop (Suc ii) secs) @ drop (ii + (n - 1 - ii)) secs"
  show "shift_loop (n - 1 - ii) ii secs = Some ?s" using assms by (intro shift_loop_run) simp
  show "length ?s = length secs" using assms by (simp add: min_def) linarith
  show "take ii ?s = take ii secs" "drop ii (take (n - 1) ?s) = drop (Suc ii) (take n secs)"
    using assms by (simp_all add: drop_take min_def)
qed

text \<open>A purge keeps, in their order, the sections that are not old.\<close>

lemma purge_loop_run:
  assumes "unat n \<le> length secs" "ii \<le> unat n"
  obtains n' secs' where "purge_loop old ii n secs = Some (n', secs')" "length secs' = length secs" "unat n' \<le> unat n"
    "take (unat n') secs' = take ii secs @ filter (\<lambda>s. \<not> old s) (drop ii (take (unat n) secs))"
  using assms
proof (induction old ii n secs arbitrary: thesis rule: purge_loop.induct)
  case (1 old ii n secs)
  show ?case
  proof (cases "ii < unat n")
    case False
    then have "purge_loop old ii n secs = Some (n, secs)" by (simp add: purge_loop.simps[of old ii])
    with False show ?thesis using 1(3)[of n secs] 1(4,5) by simp
  next
    case True
    then have rd: "rd secs ii = Some (secs ! ii)" and len: "ii < length secs" using 1(4) by (auto simp: rd_def)
    have split: "drop ii (take (unat n) secs) = secs ! ii # drop (Suc ii) (take (unat n) secs)"
      using True 1(4) by (subst Cons_nth_drop_Suc[symmetric]) auto
    show ?thesis
    proof (cases "old (secs ! ii)")
      case False
      obtain n' secs' where r: "purge_loop old (Suc ii) n secs = Some (n', secs')" "length secs' = length secs" "unat n' \<le> unat n"
          "take (unat n') secs' = take (Suc ii) secs @ filter (\<lambda>s. \<not> old s) (drop (Suc ii) (take (unat n) secs))"
        using 1(2)[OF True rd False] 1(4) True by (metis Suc_leI)
      have "take (unat n') secs' = take ii secs @ filter (\<lambda>s. \<not> old s) (drop ii (take (unat n) secs))"
        using r(4) False len unfolding split by (simp add: take_Suc_conv_app_nth)
      with r rd True False show ?thesis using 1(3)[of n' secs'] by (simp add: purge_loop.simps[of old ii])
    next
      case old: True
      have "n \<noteq> 0" using True by auto
      then have n1: "unat (n - 1) = unat n - 1" by (rule unat_minus_one)
      obtain s where sh: "shift_loop (unat (n - 1) - ii) ii secs = Some s" and ls: "length s = length secs"
          and ts: "take ii s = take ii secs" "drop ii (take (unat (n - 1)) s) = drop (Suc ii) (take (unat n) secs)"
        using shift_loop_removes[OF True 1(4)] unfolding n1 by metis
      obtain n' secs' where r: "purge_loop old ii (n - 1) s = Some (n', secs')" "length secs' = length s" "unat n' \<le> unat (n - 1)"
          "take (unat n') secs' = take ii s @ filter (\<lambda>s. \<not> old s) (drop ii (take (unat (n - 1)) s))"
      proof (rule 1(1)[OF True rd old sh])
        show "unat (n - 1) \<le> length s" using ls 1(4) n1 by simp
        show "ii \<le> unat (n - 1)" using True n1 by simp
      qed blast
      show ?thesis
      proof (rule 1(3)[of n' secs'])
        show "purge_loop old ii n secs = Some (n', secs')"
          using r(1) sh rd True old by (simp add: purge_loop.simps[of old ii])
        show "length secs' = length secs" using r(2) ls by simp
        show "unat n' \<le> unat n" using r(3) n1 by simp
        show "take (unat n') secs' = take ii secs @ filter (\<lambda>s. \<not> old s) (drop ii (take (unat n) secs))"
          using r(4) old unfolding ts split by simp
      qed
    qed
  qed
qed


section \<open>Operations on a table\<close>

text \<open>What the manager relies on: on a well-formed table an operation is defined, keeps it well-formed and
  leaves identity, filter and revision data alone; \<open>view\<close> is what it does to the sections seen.\<close>

definition same_table :: "rmf_si_table_t \<Rightarrow> rmf_si_table_t \<Rightarrow> bool" where
  "same_table t t' \<longleftrightarrow> table_id t' = table_id t \<and> subtype t' = subtype t \<and> rev_type t' = rev_type t \<and>
     table_state t' = table_state t \<and> table_unique_id t' = table_unique_id t \<and> version_number t' = version_number t \<and>
     filter_start_time t' = filter_start_time t"

locale table_op =
  fixes f :: "rmf_si_table_t \<Rightarrow> rmf_si_table_t option"
    and view :: "rmf_si_table_t \<Rightarrow> rmf_si_table_section_t list"
  assumes total: "table_wf t \<Longrightarrow> f t \<noteq> None"
    and wf: "table_wf t \<Longrightarrow> f t = Some t' \<Longrightarrow> table_wf t'"
    and same: "table_wf t \<Longrightarrow> f t = Some t' \<Longrightarrow> same_table t t'"
    and sees: "table_wf t \<Longrightarrow> f t = Some t' \<Longrightarrow> seen t' = view t"
begin

lemma run:
  assumes "table_wf t"
  obtains t' where "f t = Some t'" "table_wf t'" "same_table t t'" "seen t' = view t"
  using total[OF assms] wf[OF assms] same[OF assms] sees[OF assms] by auto

end

lemma purge_total:
  assumes "table_wf t"
  obtains n secs where "purge_loop old 0 (number_sections t) (sections t) = Some (n, secs)"
    "table_wf (t\<lparr>number_sections := n, sections := secs\<rparr>)"
    "seen (t\<lparr>number_sections := n, sections := secs\<rparr>) = filter (\<lambda>s. \<not> old s) (seen t)"
proof -
  obtain n' secs' where "purge_loop old 0 (number_sections t) (sections t) = Some (n', secs')"
      "length secs' = length (sections t)" "unat n' \<le> unat (number_sections t)"
      "take (unat n') secs' = take 0 (sections t) @ filter (\<lambda>s. \<not> old s) (drop 0 (take (unat (number_sections t)) (sections t)))"
    by (rule purge_loop_run[of "number_sections t" "sections t" 0 old]) (use assms in \<open>auto simp: table_wf_def\<close>)
  with assms show ?thesis by (intro that[of n' secs']) (auto simp: table_wf_def seen_def)
qed

interpretation purge_filter: table_op "purgeSectionsNotMatchedByFilter cfg"
  "\<lambda>t. if g_sitp_si_section_retention_time cfg = 0 then seen t
       else filter (\<lambda>s. filter_start_time t < last_seen_time s) (seen t)" for cfg
proof unfold_locales
  fix t t' assume wf: "table_wf t"
  obtain n secs where p: "purge_loop (\<lambda>s. last_seen_time s \<le> filter_start_time t) 0 (number_sections t) (sections t) = Some (n, secs)"
    and w: "table_wf (t\<lparr>number_sections := n, sections := secs\<rparr>)"
      "seen (t\<lparr>number_sections := n, sections := secs\<rparr>) = filter (\<lambda>s. \<not> last_seen_time s \<le> filter_start_time t) (seen t)"
    by (rule purge_total[OF wf])
  show "purgeSectionsNotMatchedByFilter cfg t \<noteq> None" by (simp add: purgeSectionsNotMatchedByFilter_def p)
  assume "purgeSectionsNotMatchedByFilter cfg t = Some t'"
  then have t': "t' = (if g_sitp_si_section_retention_time cfg = 0 then t else t\<lparr>number_sections := n, sections := secs\<rparr>)"
    by (simp add: purgeSectionsNotMatchedByFilter_def p split: if_splits)
  show "table_wf t'" "same_table t t'"
    "seen t' = (if g_sitp_si_section_retention_time cfg = 0 then seen t
       else filter (\<lambda>s. filter_start_time t < last_seen_time s) (seen t))"
    unfolding t' using wf w by (simp_all add: same_table_def not_le)
qed

interpretation purge_old: table_op "purgeOldSectionMatches cfg current_time"
  "\<lambda>t. if g_sitp_si_section_retention_time cfg = 0 then seen t
       else filter (\<lambda>s. current_time - last_seen_time s \<le> uint (g_sitp_si_section_retention_time cfg)) (seen t)"
  for cfg current_time
proof unfold_locales
  fix t t' assume wf: "table_wf t"
  let ?old = "\<lambda>s. current_time - last_seen_time s > uint (g_sitp_si_section_retention_time cfg)"
  obtain n secs where p: "purge_loop ?old 0 (number_sections t) (sections t) = Some (n, secs)"
    and w: "table_wf (t\<lparr>number_sections := n, sections := secs\<rparr>)"
      "seen (t\<lparr>number_sections := n, sections := secs\<rparr>) = filter (\<lambda>s. \<not> ?old s) (seen t)"
    by (rule purge_total[OF wf])
  show "purgeOldSectionMatches cfg current_time t \<noteq> None" by (simp add: purgeOldSectionMatches_def p)
  assume "purgeOldSectionMatches cfg current_time t = Some t'"
  then have t': "t' = (if g_sitp_si_section_retention_time cfg = 0 then t else t\<lparr>number_sections := n, sections := secs\<rparr>)"
    by (simp add: purgeOldSectionMatches_def p split: if_splits)
  show "table_wf t'" "same_table t t'"
    "seen t' = (if g_sitp_si_section_retention_time cfg = 0 then seen t
       else filter (\<lambda>s. current_time - last_seen_time s \<le> uint (g_sitp_si_section_retention_time cfg)) (seen t))"
    unfolding t' using wf w by (simp_all add: same_table_def not_less)
qed

interpretation reset: table_op "reset_section_array rt"
  "\<lambda>t. if rt = RMF_SI_REV_TYPE_RDD then []
       else map (\<lambda>s. s\<lparr>section_acquired := False, crc_section_match_count := 0\<rparr>) (seen t)" for rt
proof unfold_locales
  fix t t' assume wf: "table_wf t"
  note runs = update_loop_run[of 0 "unat (number_sections t)" "sections t"] update_loop_all[of "sections t" MAX_SECTION_NUMBER]
  show "reset_section_array rt t \<noteq> None" using wf by (simp add: reset_section_array_def table_wf_def runs)
  assume "reset_section_array rt t = Some t'"
  then show "table_wf t'" "same_table t t'"
    "seen t' = (if rt = RMF_SI_REV_TYPE_RDD then []
       else map (\<lambda>s. s\<lparr>section_acquired := False, crc_section_match_count := 0\<rparr>) (seen t))"
    using wf by (auto simp: reset_section_array_def table_wf_def same_table_def seen_def runs take_map split: if_splits)
qed

end
