(* ===== verification/OobSiMgr.thy ===== *)
theory OobSiMgr
  imports SiTables
begin

text \<open>
  The acquisition state machine of \<open>qamsource/simgr/oob/src/rmf_oobsimgr.cpp\<close>. One worker thread takes events
  from its queue; each event is one \<open>worker_step\<close>. A handler works on the table \<open>g_table\<close> points to; here it
  receives that table and the rest of the manager, and the step writes the table back. The section filter and
  the cache are those of the parser object. What the operating system, the driver and uninitialised stack
  arrays contribute to a step are the fields of \<open>si_env\<close>; \<open>update_services\<close> stands for
  \<open>UpdateServiceEntries\<close>, which links service entries to the inband cache. Writing the cache to disk
  (\<open>CacheSiEntriesFromLive\<close>) and counting services for the log are left out.
\<close>

datatype oob_event =
    OOB_START_UP_EVENT
  | OOB_VCTID_CHANGE_EVENT
  | RMF_OSAL_ETIMEOUT
  | RMF_SF_EVENT_SOURCE_CLOSED
  | RMF_PODSRV_EVENT_RESET_PENDING
  | OOB_SF sf_event

record si_env =
  section_alloc :: bool
  section_read :: "rmf_Section_Data option"
  id_stack :: "byte list"
  revision_stack :: "byte list"
  parser_locals :: table_locals
  handler_time :: int
  post_result :: "32 word \<Rightarrow> nat \<Rightarrow> rmf_Error \<times> rmf_Error"
  update_services :: "rmf_OobSiCache \<Rightarrow> rmf_OobSiCache"
  release_env :: sf_env
  handler_filter :: filter_env
  table_filter :: "nat \<Rightarrow> filter_env"
  timeout_time :: int
  rand_value :: "32 word"

record rmf_OobSiMgr =
  m_pOobSiParser :: rmf_OobSiParser
  g_table_array :: "rmf_si_table_t list"
  g_table :: nat
  g_sitp_si_timeout :: "32 word"
  g_sitp_siTablesAcquired :: "32 word"
  g_sitp_svctAcquired :: "32 word"
  g_si_registration_list :: "32 word list"
  si_events :: "(32 word \<times> 32 word \<times> 32 word) list"
  sf_events :: "sf_posted list"

abbreviation sf_of :: "rmf_OobSiMgr \<Rightarrow> rmf_SectionFilter" where
  "sf_of M \<equiv> m_pSectionFilter (m_pOobSiParser M)"

abbreviation cache_of :: "rmf_OobSiMgr \<Rightarrow> rmf_OobSiCache" where
  "cache_of M \<equiv> m_pSiCache (m_pOobSiParser M)"

abbreviation upd_sf :: "rmf_SectionFilter \<Rightarrow> rmf_OobSiMgr \<Rightarrow> rmf_OobSiMgr" where
  "upd_sf sf M \<equiv> M\<lparr>m_pOobSiParser := (m_pOobSiParser M)\<lparr>m_pSectionFilter := sf\<rparr>\<rparr>"

abbreviation upd_cache :: "(rmf_OobSiCache \<Rightarrow> rmf_OobSiCache) \<Rightarrow> rmf_OobSiMgr \<Rightarrow> rmf_OobSiMgr" where
  "upd_cache f M \<equiv> M\<lparr>m_pOobSiParser := (m_pOobSiParser M)\<lparr>m_pSiCache := f (cache_of M)\<rparr>\<rparr>"

abbreviation (input) CDS_ACQUIRED :: "32 word" where "CDS_ACQUIRED \<equiv> 1"
abbreviation (input) MMS_ACQUIRED :: "32 word" where "MMS_ACQUIRED \<equiv> 2"
abbreviation (input) NIT_ACQUIRED :: "32 word" where "NIT_ACQUIRED \<equiv> 3"
abbreviation (input) VCM_ACQUIRED :: "32 word" where "VCM_ACQUIRED \<equiv> 4"
abbreviation (input) NIT_SVCT_ACQUIRED :: "32 word" where "NIT_SVCT_ACQUIRED \<equiv> 0xF"
abbreviation (input) NTT_ACQUIRED :: "32 word" where "NTT_ACQUIRED \<equiv> 0x10"
abbreviation (input) TABLES_ACQUIRED :: "32 word" where "TABLES_ACQUIRED \<equiv> 0x1F"
abbreviation (input) SIDB_SIGNALED :: "32 word" where "SIDB_SIGNALED \<equiv> 0x20"
abbreviation (input) OOB_TABLES_ACQUIRED :: "32 word" where "OOB_TABLES_ACQUIRED \<equiv> 0x3F"
abbreviation (input) SHORT_TIMER :: "32 word" where "SHORT_TIMER \<equiv> 100"
abbreviation (input) RMF_SF_FILTER_PRIORITY_SITP :: byte where "RMF_SF_FILTER_PRIORITY_SITP \<equiv> 2"
abbreviation (input) VIRTUAL_CHANNEL_UNKNOWN :: "16 word" where "VIRTUAL_CHANNEL_UNKNOWN \<equiv> 0xFFFF"
abbreviation (input) RMF_SI_EVENT_OOB_VCT_ACQUIRED :: "32 word" where "RMF_SI_EVENT_OOB_VCT_ACQUIRED \<equiv> 0x300C"
abbreviation (input) RMF_SI_EVENT_OOB_NIT_ACQUIRED :: "32 word" where "RMF_SI_EVENT_OOB_NIT_ACQUIRED \<equiv> 0x300D"
abbreviation (input) RMF_SI_EVENT_SI_FULLY_ACQUIRED :: "32 word" where "RMF_SI_EVENT_SI_FULLY_ACQUIRED \<equiv> 0x300A"
abbreviation (input) RMF_SI_CHANGE_TYPE_ADD :: "32 word" where "RMF_SI_CHANGE_TYPE_ADD \<equiv> 1"
abbreviation (input) RMF_SI_CHANGE_TYPE_MODIFY :: "32 word" where "RMF_SI_CHANGE_TYPE_MODIFY \<equiv> 3"

section \<open>Events to clients\<close>

definition si_state_to_event :: "rmf_SiGlobalState \<Rightarrow> 32 word" where
  "si_state_to_event st =
     (case st of SI_ACQUIRING \<Rightarrow> 0x3008 | SI_NOT_AVAILABLE_YET \<Rightarrow> 0x3009 | SI_NIT_SVCT_ACQUIRED \<Rightarrow> 0x3015
      | SI_FULLY_ACQUIRED \<Rightarrow> 0x300A | SI_DISABLED \<Rightarrow> 0x300B | SI_STT_ACQUIRED \<Rightarrow> 0x3016)"

text \<open>The walk over the registrations stops at the first failure to create or to add an event.\<close>

fun send_walk ::
  "(nat \<Rightarrow> rmf_Error \<times> rmf_Error) \<Rightarrow> 32 word \<Rightarrow> 32 word \<Rightarrow> nat \<Rightarrow> 32 word list \<Rightarrow> (32 word \<times> 32 word \<times> 32 word) list" where
  "send_walk post siEvent changeType n [] = []"
| "send_walk post siEvent changeType n (queueId # walker) =
     (if fst (post n) \<noteq> RMF_SUCCESS then []
      else if snd (post n) \<noteq> RMF_SUCCESS then []
      else (queueId, siEvent, changeType) # send_walk post siEvent changeType (Suc n) walker)"

definition send_si_event :: "si_env \<Rightarrow> 32 word \<Rightarrow> 32 word \<Rightarrow> rmf_OobSiMgr \<Rightarrow> rmf_OobSiMgr" where
  "send_si_event env siEvent changeType M =
     M\<lparr>si_events := si_events M @ send_walk (post_result env siEvent) siEvent changeType 0 (g_si_registration_list M)\<rparr>"

text \<open>
  \<open>rmf_SiTableType\<close> as far as the manager uses it. \<open>TABLE_UNKNOWN\<close> is never passed. The defined channels
  map has no notification of its own.
\<close>

datatype rmf_SiTableType = OOB_SVCT_VCM | OOB_SVCT_DCM | OOB_NTT_SNS | OOB_NIT_CDS | OOB_NIT_MMS

definition NotifyTableChanged :: "si_env \<Rightarrow> rmf_SiTableType \<Rightarrow> 32 word \<Rightarrow> rmf_OobSiMgr \<Rightarrow> rmf_OobSiMgr" where
  "NotifyTableChanged env table_type changeType M =
     (case table_type of
        OOB_NTT_SNS \<Rightarrow> M
      | OOB_NIT_MMS \<Rightarrow> M
      | OOB_NIT_CDS \<Rightarrow> send_si_event env RMF_SI_EVENT_OOB_NIT_ACQUIRED changeType (upd_cache SortCDSFreqList M)
      | _ \<Rightarrow> if changeType = RMF_SI_CHANGE_TYPE_ADD \<or> changeType = RMF_SI_CHANGE_TYPE_MODIFY
             then send_si_event env RMF_SI_EVENT_OOB_VCT_ACQUIRED changeType M else M)"

definition RegisterForSIEvents :: "bool \<Rightarrow> si_env \<Rightarrow> 32 word \<Rightarrow> rmf_OobSiMgr \<Rightarrow> rmf_Error \<times> rmf_OobSiMgr" where
  "RegisterForSIEvents alloc env queueId M =
     (let found = (queueId \<in> set (g_si_registration_list M))
      in if \<not> found \<and> \<not> alloc then (RMF_SI_OUT_OF_MEM, M)
         else
           let M = (if found then M else M\<lparr>g_si_registration_list := g_si_registration_list M @ [queueId]\<rparr>);
               M = (if g_si_state (cache_of M) = SI_FULLY_ACQUIRED
                    then send_si_event env (si_state_to_event SI_NIT_SVCT_ACQUIRED) 0 M else M);
               M = send_si_event env (si_state_to_event SI_STT_ACQUIRED) 0 M
           in (RMF_SUCCESS, send_si_event env (si_state_to_event (g_si_state (cache_of M))) 0 M))"

definition UnRegisterForSIEvents :: "32 word \<Rightarrow> rmf_OobSiMgr \<Rightarrow> rmf_Error \<times> rmf_OobSiMgr" where
  "UnRegisterForSIEvents queueId M =
     (if g_si_registration_list M = [] then (RMF_OSAL_EINVAL, M)
      else (RMF_SUCCESS, M\<lparr>g_si_registration_list := remove1 queueId (g_si_registration_list M)\<rparr>))"

section \<open>Filters and sections\<close>

definition get_table_section :: "si_env \<Rightarrow> 32 word \<Rightarrow> rmf_OobSiMgr \<Rightarrow> rmf_Error \<times> 32 word \<times> rmf_OobSiMgr" where
  "get_table_section env unique_id M =
     (case GetSectionHandle (section_alloc env) (section_read env) (sf_of M) unique_id 0 of
        (retCode, sect_h, sf) \<Rightarrow>
          (if retCode = RMF_SUCCESS then RMF_SUCCESS else RMF_SI_FAILURE,
           (case sect_h of None \<Rightarrow> 0 | Some h \<Rightarrow> h), upd_sf sf M))"

definition release_table_section :: "32 word \<Rightarrow> rmf_OobSiMgr \<Rightarrow> rmf_Error \<times> rmf_OobSiMgr" where
  "release_table_section section_handle M =
     (case ReleaseSection (sf_of M) section_handle of
        (retCode, sf) \<Rightarrow> (if retCode = RMF_SUCCESS then RMF_SUCCESS else RMF_SI_FAILURE, upd_sf sf M))"

text \<open>The argument \<open>unique_id\<close> of \<open>release_filter\<close> is not used by the code.\<close>

definition release_filter ::
  "si_env \<Rightarrow> rmf_si_table_t \<Rightarrow> rmf_OobSiMgr \<Rightarrow> (rmf_Error \<times> rmf_si_table_t \<times> rmf_OobSiMgr) option" where
  "release_filter env t M =
     do { (retCode, posted, sf) \<leftarrow> ReleaseFilter (release_env env) (table_unique_id t) (sf_of M);
          let M = (upd_sf sf M)\<lparr>sf_events := sf_events M @ posted\<rparr>;
          Some (if retCode = RMF_SUCCESS then (RMF_SUCCESS, t\<lparr>table_unique_id := 0, filter_start_time := 0\<rparr>, M)
                else (RMF_SI_FAILURE, t, M)) }"

text \<open>The positive part of the filter: table id and, in the low four bits of a later octet, the subtype.\<close>

definition si_filter_spec :: "rmf_si_table_t \<Rightarrow> rmf_FilterSpec" where
  "si_filter_spec t =
     (let neg = \<lparr>fc_length = 0, fc_mask = Some [0], fc_vals = Some [0]\<rparr>;
          pos = (\<lambda>zeros. \<lparr>fc_length = word_of_nat (zeros + 2), fc_mask = Some (0xFF # replicate zeros 0 @ [0x0F]),
                          fc_vals = Some (table_id t # replicate zeros 0 @ [subtype t])\<rparr>)
      in \<lparr>fs_pos = (if table_id t = SF_VIRTUAL_CHANNEL_TABLE_ID then pos 3
                    else if table_id t = NETWORK_INFORMATION_TABLE_ID then pos 5
                    else if table_id t = NETWORK_TEXT_TABLE_ID then pos 6
                    else \<lparr>fc_length = 0, fc_mask = None, fc_vals = None\<rparr>), fs_neg = neg\<rparr>)"

definition activate_filter ::
  "si_config \<Rightarrow> si_env \<Rightarrow> filter_env \<Rightarrow> 32 word \<Rightarrow> rmf_si_table_t \<Rightarrow> rmf_OobSiMgr \<Rightarrow>
   (rmf_Error \<times> rmf_si_table_t \<times> rmf_OobSiMgr) option" where
  "activate_filter cfg env fe timesToMatch t M =
     do { (t, M) \<leftarrow> (if table_unique_id t \<noteq> 0
                     then do { (_, t, M) \<leftarrow> release_filter env t M; Some (t, M) } else Some (t, M));
          (retCode, uid, posted, sf) \<leftarrow>
            SetFilter (create_result fe) (start_result fe) (request_alloc fe) (new_queue fe) (set_env fe)
              (Some (si_filter_spec t)) (g_sitp_si_queue cfg) RMF_SF_FILTER_PRIORITY_SITP timesToMatch (sf_of M);
          let M = (upd_sf sf M)\<lparr>sf_events := sf_events M @ posted\<rparr>;
          Some (if retCode = RMF_SUCCESS
                then (RMF_SUCCESS,
                      t\<lparr>table_unique_id := (case uid of None \<Rightarrow> table_unique_id t | Some i \<Rightarrow> i),
                        filter_start_time := set_time fe\<rparr>, M)
                else (RMF_SI_FAILURE, t\<lparr>table_unique_id := 0\<rparr>, M)) }"

section \<open>A table is acquired\<close>

abbreviation acquired :: "rmf_OobSiMgr \<Rightarrow> 32 word \<Rightarrow> bool" where
  "acquired M flag \<equiv> g_sitp_siTablesAcquired M AND flag \<noteq> 0"

definition setTablesAcquired :: "32 word \<Rightarrow> rmf_OobSiMgr \<Rightarrow> rmf_OobSiMgr" where
  "setTablesAcquired tables_acquired M = M\<lparr>g_sitp_siTablesAcquired := tables_acquired\<rparr>"

definition setSVCTAcquired :: "32 word \<Rightarrow> rmf_OobSiMgr \<Rightarrow> rmf_OobSiMgr" where
  "setSVCTAcquired svct_acquired M = M\<lparr>g_sitp_svctAcquired := svct_acquired\<rparr>"

text \<open>\<open>setTablesAcquired(getTablesAcquired() | flag)\<close> and the same for the SVCT flags.\<close>

definition or_TablesAcquired :: "32 word \<Rightarrow> rmf_OobSiMgr \<Rightarrow> rmf_OobSiMgr" where
  "or_TablesAcquired flag M = setTablesAcquired (g_sitp_siTablesAcquired M OR flag) M"

definition or_SVCTAcquired :: "32 word \<Rightarrow> rmf_OobSiMgr \<Rightarrow> rmf_OobSiMgr" where
  "or_SVCTAcquired flag M = setSVCTAcquired (g_sitp_svctAcquired M OR flag) M"

definition notify_or_add :: "si_env \<Rightarrow> rmf_SiTableType \<Rightarrow> 32 word \<Rightarrow> (rmf_OobSiMgr \<Rightarrow> rmf_OobSiMgr) \<Rightarrow> rmf_OobSiMgr \<Rightarrow> rmf_OobSiMgr" where
  "notify_or_add env table_type flag add M =
     (if acquired M flag then NotifyTableChanged env table_type RMF_SI_CHANGE_TYPE_MODIFY M
      else NotifyTableChanged env table_type RMF_SI_CHANGE_TYPE_ADD (or_TablesAcquired flag (add M)))"

definition update_when :: "si_env \<Rightarrow> bool \<Rightarrow> rmf_OobSiMgr \<Rightarrow> rmf_OobSiMgr" where
  "update_when env b M = (if b then upd_cache (update_services env) M else M)"

text \<open>The switch over the kind of table.\<close>

definition mark_acquired :: "si_config \<Rightarrow> si_env \<Rightarrow> rmf_si_table_t \<Rightarrow> rmf_OobSiMgr \<Rightarrow> rmf_OobSiMgr" where
  "mark_acquired cfg env t M =
     (let names = (\<lambda>M. acquired M NTT_ACQUIRED \<or> inIpDirectMode cfg) in
      if table_id t = NETWORK_INFORMATION_TABLE_ID then
        if subtype t = CARRIER_DEFINITION_SUBTABLE then
          let M = notify_or_add env OOB_NIT_CDS CDS_ACQUIRED id M
          in update_when env (acquired M MMS_ACQUIRED \<and> acquired M DCM_ACQUIRED \<and> acquired M VCM_ACQUIRED \<and> names M) M
        else if subtype t = MODULATION_MODE_SUBTABLE then
          let M = notify_or_add env OOB_NIT_MMS MMS_ACQUIRED id M
          in update_when env (acquired M CDS_ACQUIRED \<and> acquired M VCM_ACQUIRED \<and> acquired M DCM_ACQUIRED \<and> names M) M
        else M
      else if table_id t = NETWORK_TEXT_TABLE_ID then
        let M = notify_or_add env OOB_NTT_SNS NTT_ACQUIRED id M
        in update_when env (acquired M CDS_ACQUIRED \<and> acquired M MMS_ACQUIRED \<and> acquired M DCM_ACQUIRED \<and> acquired M VCM_ACQUIRED) M
      else if table_id t = SF_VIRTUAL_CHANNEL_TABLE_ID then
        if subtype t = DEFINED_CHANNEL_MAP then
          let M = (if IsVCMComplete (cache_of M)
                   then notify_or_add env OOB_SVCT_VCM VCM_ACQUIRED (or_SVCTAcquired VCM_ACQUIRED) M else M);
              M = (if acquired M DCM_ACQUIRED then M else or_TablesAcquired DCM_ACQUIRED (or_SVCTAcquired DCM_ACQUIRED M))
          in update_when env (acquired M CDS_ACQUIRED \<and> acquired M MMS_ACQUIRED \<and> acquired M VCM_ACQUIRED \<and> names M) M
        else if subtype t = VIRTUAL_CHANNEL_MAP then
          let M = notify_or_add env OOB_SVCT_VCM VCM_ACQUIRED (or_SVCTAcquired VCM_ACQUIRED) M
          in update_when env (acquired M CDS_ACQUIRED \<and> acquired M MMS_ACQUIRED \<and> acquired M DCM_ACQUIRED \<and> names M) M
        else M
      else M)"

definition announce_state :: "si_env \<Rightarrow> rmf_SiGlobalState \<Rightarrow> rmf_OobSiMgr \<Rightarrow> rmf_OobSiMgr" where
  "announce_state env st M =
     (let M = upd_cache (SetGlobalState st) M
      in send_si_event env (si_state_to_event (g_si_state (cache_of M))) 0 M)"

definition set_tablesAcquired :: "si_config \<Rightarrow> si_env \<Rightarrow> rmf_si_table_t \<Rightarrow> rmf_OobSiMgr \<Rightarrow> rmf_OobSiMgr" where
  "set_tablesAcquired cfg env t M =
     (let M = mark_acquired cfg env t M
      in if g_sitp_siTablesAcquired M = NIT_SVCT_ACQUIRED then
           if inIpDirectMode cfg then or_TablesAcquired SIDB_SIGNALED (announce_state env SI_FULLY_ACQUIRED M)
           else announce_state env SI_NIT_SVCT_ACQUIRED M
         else if g_sitp_siTablesAcquired M = TABLES_ACQUIRED
         then or_TablesAcquired SIDB_SIGNALED (announce_state env SI_FULLY_ACQUIRED M)
         else M)"

section \<open>The handlers\<close>

abbreviation set_timeout :: "32 word \<Rightarrow> rmf_OobSiMgr \<Rightarrow> rmf_OobSiMgr" where
  "set_timeout v M \<equiv> M\<lparr>g_sitp_si_timeout := v\<rparr>"

definition idle_timeout :: "si_config \<Rightarrow> rmf_OobSiMgr \<Rightarrow> 32 word" where
  "idle_timeout cfg M =
     (if g_stip_si_process_table_revisions cfg \<noteq> 0
      then if g_sitp_siTablesAcquired M \<le> OOB_TABLES_ACQUIRED then SHORT_TIMER else g_sitp_si_update_poll_interval cfg
      else g_sitp_si_status_update_time_interval cfg)"

text \<open>Back to waiting for a revision: the end of every failure.\<close>

definition back_to_revision ::
  "si_config \<Rightarrow> rmf_si_table_t \<Rightarrow> rmf_OobSiMgr \<Rightarrow> (rmf_si_table_t \<times> rmf_OobSiMgr) option" where
  "back_to_revision cfg t M =
     do { t \<leftarrow> reset_section_array (rev_type t) t;
          Some (t\<lparr>table_state := RMF_SI_STATE_WAIT_TABLE_REVISION\<rparr>, set_timeout (g_sitp_si_update_poll_interval cfg) M) }"

text \<open>\<open>parseAndUpdateTable\<close> with \<open>&g_table->version_number\<close> and the local section numbers.\<close>

definition parse_section ::
  "si_env \<Rightarrow> 32 word \<Rightarrow> table_out \<Rightarrow> rmf_si_table_t \<Rightarrow> rmf_OobSiMgr \<Rightarrow>
   (rmf_Error \<times> table_out \<times> rmf_si_table_t \<times> rmf_OobSiMgr) option" where
  "parse_section env section_handle out t M =
     do { (retCode, out, P) \<leftarrow>
            parseAndUpdateTable (parser_locals env) (table_id t) section_handle
              (out\<lparr>out_version := version_number t, out_crc := 0\<rparr>) (m_pOobSiParser M);
          Some (retCode, out, t\<lparr>version_number := out_version out\<rparr>, M\<lparr>m_pOobSiParser := P\<rparr>) }"

definition section_update :: "nat \<Rightarrow> (rmf_si_table_section_t \<Rightarrow> rmf_si_table_section_t) \<Rightarrow> rmf_si_table_t \<Rightarrow> rmf_si_table_t option" where
  "section_update i f t =
     do { s \<leftarrow> rd (sections t) i; secs \<leftarrow> wr (sections t) i (f s); Some (t\<lparr>sections := secs\<rparr>) }"

text \<open>A new section is recorded unless the array is full.\<close>

definition add_section :: "si_config \<Rightarrow> 32 word \<Rightarrow> int \<Rightarrow> rmf_si_table_t \<Rightarrow> rmf_si_table_t option" where
  "add_section cfg crc current_time t =
     (let n = unat (number_sections t)
      in if n = MAX_SECTION_NUMBER then Some t
         else do {
           t \<leftarrow> section_update n (\<lambda>s. s\<lparr>crc_32 := crc, crc_section_match_count := 1, last_seen_time := current_time\<rparr>) t;
           b \<leftarrow> checkCRCMatchCount cfg t n;
           t \<leftarrow> (if b then section_update n (\<lambda>s. s\<lparr>section_acquired := True\<rparr>) t else Some t);
           Some (t\<lparr>number_sections := number_sections t + 1\<rparr>) })"

definition table_acquired_now ::
  "rmf_si_table_t \<Rightarrow> rmf_OobSiMgr \<Rightarrow> (bool \<times> bool \<times> rmf_si_table_t) option" where
  "table_acquired_now t M =
     do { (acq, all, t) \<leftarrow> isTable_acquired (g_sitp_svctAcquired M) (cache_of M) t;
          Some (acq, all, t\<lparr>table_acquired := acq\<rparr>) }"

text \<open>The number of matches \<open>number_sections * g_sitp_si_filter_multiplier\<close>.\<close>

definition rdd_matches :: "si_config \<Rightarrow> rmf_si_table_t \<Rightarrow> 32 word" where
  "rdd_matches cfg t = ucast (number_sections t) * g_sitp_si_filter_multiplier cfg"

type_synonym handler_result = "(rmf_Error \<times> rmf_si_table_t \<times> rmf_OobSiMgr) option"

text \<open>The revision type follows the version the revision pass reports.\<close>

definition with_rev_type :: "table_out \<Rightarrow> rmf_si_table_t \<Rightarrow> rmf_si_table_t" where
  "with_rev_type out t =
     t\<lparr>rev_type := if out_version out = NO_VERSION then RMF_SI_REV_TYPE_CRC else RMF_SI_REV_TYPE_RDD\<rparr>"

abbreviation (input) no_out :: table_out where
  "no_out \<equiv> \<lparr>out_version = 0, out_section_number = 0, out_last_section_number = 0, out_crc = 0\<rparr>"

text \<open>
  How both handlers start: get the section, run the revision pass, and branch on the revision type by the
  two continuations. Other events are refused.
\<close>

definition section_event ::
  "si_config \<Rightarrow> si_env \<Rightarrow>
   (sf_event \<Rightarrow> table_out \<Rightarrow> 32 word \<Rightarrow> rmf_si_table_t \<Rightarrow> rmf_OobSiMgr \<Rightarrow> handler_result) \<Rightarrow>
   (sf_event \<Rightarrow> table_out \<Rightarrow> 32 word \<Rightarrow> rmf_si_table_t \<Rightarrow> rmf_OobSiMgr \<Rightarrow> handler_result) \<Rightarrow>
   oob_event \<Rightarrow> 32 word \<Rightarrow> rmf_si_table_t \<Rightarrow> rmf_OobSiMgr \<Rightarrow> handler_result" where
  "section_event cfg env rdd crc si_event event_data t M =
     (case si_event of
        OOB_SF ev \<Rightarrow>
          if ev = RMF_SF_EVENT_SECTION_FOUND \<or> ev = RMF_SF_EVENT_LAST_SECTION_FOUND then
            case get_table_section env event_data M of (retCode, section_handle, M) \<Rightarrow>
            if retCode \<noteq> RMF_SUCCESS then do {
              (_, t, M) \<leftarrow> release_filter env t M;
              (t, M) \<leftarrow> back_to_revision cfg t M;
              Some (RMF_SI_FAILURE, t, M) }
            else do {
              (retCode, out, P) \<leftarrow> get_revision_data (id_stack env) (revision_stack env) section_handle no_out (m_pOobSiParser M);
              let M = M\<lparr>m_pOobSiParser := P\<rparr>;
              if retCode \<noteq> RMF_SUCCESS then do { (t, M) \<leftarrow> back_to_revision cfg t M; Some (retCode, t, M) }
              else let t = with_rev_type out t
                   in if out_version out = NO_VERSION then crc ev out section_handle t M
                      else rdd ev out section_handle t M }
          else Some (RMF_SI_FAILURE, t, M)
      | _ \<Rightarrow> Some (RMF_SI_FAILURE, t, M))"

subsection \<open>Waiting for a revision\<close>

definition wait_revision_rdd ::
  "si_config \<Rightarrow> si_env \<Rightarrow> table_out \<Rightarrow> 32 word \<Rightarrow> rmf_si_table_t \<Rightarrow> rmf_OobSiMgr \<Rightarrow> handler_result" where
  "wait_revision_rdd cfg env out section_handle t M =
     do { (_, t, M) \<leftarrow> release_filter env t M;
          if out_version out = version_number t then
            do { let (_, M) = release_table_section section_handle M;
                 Some (RMF_SUCCESS, t\<lparr>table_state := RMF_SI_STATE_WAIT_TABLE_REVISION\<rparr>,
                       set_timeout (g_sitp_si_update_poll_interval cfg) M) }
          else do {
            let t = t\<lparr>version_number := out_version out, number_sections := out_last_section_number out + 1\<rparr>;
            (err, out, t, M) \<leftarrow> parse_section env section_handle out t M;
            let (_, M) = release_table_section section_handle M;
            if err \<noteq> RMF_SUCCESS then do { (t, M) \<leftarrow> back_to_revision cfg t M; Some (RMF_SUCCESS, t, M) }
            else do {
              t \<leftarrow> section_update (unat (out_section_number out)) (\<lambda>s. s\<lparr>section_acquired := True\<rparr>) t;
              (acq, all, t) \<leftarrow> table_acquired_now t M;
              if \<not> acq then do {
                (retCode, t, M) \<leftarrow> activate_filter cfg env (handler_filter env) (rdd_matches cfg t) t M;
                t \<leftarrow> (if retCode \<noteq> RMF_SUCCESS then reset_section_array (rev_type t) t else Some t);
                Some (retCode, t\<lparr>table_state := RMF_SI_STATE_WAIT_TABLE_COMPLETE\<rparr>,
                      set_timeout (g_sitp_si_status_update_time_interval cfg) M) }
              else do {
                let M = set_tablesAcquired cfg env t M;
                t \<leftarrow> reset_section_array (rev_type t) t;
                Some (RMF_SUCCESS, t, M) } } } }"

text \<open>The Boolean of the first part says that the filter was released, \<open>None\<close> that a failed parse ends the handler.\<close>

definition wait_revision_crc_section ::
  "si_config \<Rightarrow> si_env \<Rightarrow> table_out \<Rightarrow> 32 word \<Rightarrow> rmf_si_table_t \<Rightarrow> rmf_OobSiMgr \<Rightarrow>
   (bool option \<times> rmf_Error \<times> rmf_si_table_t \<times> rmf_OobSiMgr) option" where
  "wait_revision_crc_section cfg env out section_handle t M =
     do { matched \<leftarrow> matchedCRC32 t (out_crc out);
          case matched of
            Some section_index \<Rightarrow> do {
              let (retCode, M) = release_table_section section_handle M;
              t \<leftarrow> section_update section_index (\<lambda>s. s\<lparr>last_seen_time := handler_time env\<rparr>)
                     (t\<lparr>table_state := RMF_SI_STATE_WAIT_TABLE_REVISION\<rparr>);
              Some (Some False, retCode, t, set_timeout (g_sitp_si_update_poll_interval cfg) M) }
          | None \<Rightarrow> do {
              (err, _, t, M) \<leftarrow> parse_section env section_handle out t M;
              let (_, M) = release_table_section section_handle M;
              if err \<noteq> RMF_SUCCESS then do { (t, M) \<leftarrow> back_to_revision cfg t M; Some (None, RMF_SI_FAILURE, t, M) }
              else do {
                t \<leftarrow> add_section cfg (out_crc out) (handler_time env) t;
                (acq, all, t) \<leftarrow> table_acquired_now t M;
                let M = (if acq then set_tablesAcquired cfg env t M else M);
                if \<not> all then do {
                  let released = (table_unique_id t \<noteq> 0);
                  (t, M) \<leftarrow> (if released then do { (_, t, M) \<leftarrow> release_filter env t M; Some (t, M) } else Some (t, M));
                  (retCode, t, M) \<leftarrow>
                    activate_filter cfg env (handler_filter env) (g_sitp_si_initial_section_match_count cfg) t M;
                  Some (Some released, retCode, t\<lparr>table_state := RMF_SI_STATE_WAIT_TABLE_COMPLETE\<rparr>,
                        set_timeout (g_sitp_si_status_update_time_interval cfg) M) }
                else do {
                  t \<leftarrow> reset_section_array (rev_type t) t;
                  Some (Some False, RMF_SUCCESS, t\<lparr>table_state := RMF_SI_STATE_WAIT_TABLE_REVISION\<rparr>,
                        set_timeout (idle_timeout cfg M) M) } } } }"

definition wait_revision_crc ::
  "si_config \<Rightarrow> si_env \<Rightarrow> sf_event \<Rightarrow> table_out \<Rightarrow> 32 word \<Rightarrow> rmf_si_table_t \<Rightarrow> rmf_OobSiMgr \<Rightarrow> handler_result" where
  "wait_revision_crc cfg env ev out section_handle t M =
     do { (released, retCode, t, M) \<leftarrow>
            wait_revision_crc_section cfg env out section_handle (t\<lparr>rev_sample_count := rev_sample_count t + 1\<rparr>) M;
          case released of
            None \<Rightarrow> Some (retCode, t, M)
          | Some filter_released \<Rightarrow>
              if ev = RMF_SF_EVENT_LAST_SECTION_FOUND then do {
                t \<leftarrow> purgeSectionsNotMatchedByFilter cfg t;
                if \<not> filter_released then do {
                  (_, t, M) \<leftarrow> release_filter env t M;
                  Some (retCode, t\<lparr>rev_sample_count := 0\<rparr>, M) }
                else Some (retCode, t, M) }
              else Some (retCode, t, M) }"

definition sitp_si_state_wait_table_revision_handler ::
  "si_config \<Rightarrow> si_env \<Rightarrow> oob_event \<Rightarrow> 32 word \<Rightarrow> rmf_si_table_t \<Rightarrow> rmf_OobSiMgr \<Rightarrow> handler_result" where
  "sitp_si_state_wait_table_revision_handler cfg env =
     section_event cfg env (\<lambda>ev. wait_revision_rdd cfg env) (wait_revision_crc cfg env)"

subsection \<open>Waiting for the rest of the table\<close>

definition wait_complete_rdd ::
  "si_config \<Rightarrow> si_env \<Rightarrow> sf_event \<Rightarrow> table_out \<Rightarrow> 32 word \<Rightarrow> rmf_si_table_t \<Rightarrow> rmf_OobSiMgr \<Rightarrow> handler_result" where
  "wait_complete_rdd cfg env ev out section_handle t M =
     do { t \<leftarrow> (if out_version out \<noteq> version_number t then
                  do { t \<leftarrow> reset_section_array (rev_type t) t;
                       Some (t\<lparr>version_number := out_version out, number_sections := out_last_section_number out + 1\<rparr>) }
                else Some t);
          s \<leftarrow> rd (sections t) (unat (out_section_number out));
          if section_acquired s then do {
            let (_, M) = release_table_section section_handle M;
            let t = t\<lparr>table_state := RMF_SI_STATE_WAIT_TABLE_COMPLETE\<rparr>;
            let M = set_timeout (g_sitp_si_status_update_time_interval cfg) M;
            if ev = RMF_SF_EVENT_LAST_SECTION_FOUND then do {
              let M = set_timeout (g_sitp_si_update_poll_interval cfg) M;
              (acq, all, t) \<leftarrow> table_acquired_now t M;
              if \<not> acq then
                activate_filter cfg env (handler_filter env) (rdd_matches cfg t) (t\<lparr>table_unique_id := 0\<rparr>) M
              else Some (RMF_SUCCESS, t, M) }
            else Some (RMF_SUCCESS, t, M) }
          else do {
            (err, out, t, M) \<leftarrow> parse_section env section_handle out t M;
            let (_, M) = release_table_section section_handle M;
            if err \<noteq> RMF_SUCCESS then do { (t, M) \<leftarrow> back_to_revision cfg t M; Some (RMF_SUCCESS, t, M) }
            else do {
              t \<leftarrow> section_update (unat (out_section_number out)) (\<lambda>s. s\<lparr>section_acquired := True\<rparr>) t;
              (acq, all, t) \<leftarrow> table_acquired_now t M;
              if acq then do {
                let M = set_tablesAcquired cfg env t M;
                (_, t, M) \<leftarrow> release_filter env t M;
                t \<leftarrow> reset_section_array (rev_type t) t;
                Some (RMF_SUCCESS, t\<lparr>table_state := RMF_SI_STATE_WAIT_TABLE_REVISION\<rparr>,
                      set_timeout (if g_stip_si_process_table_revisions cfg \<noteq> 0 then g_sitp_si_update_poll_interval cfg
                                   else g_sitp_si_status_update_time_interval cfg) M) }
              else do {
                let t = t\<lparr>table_state := RMF_SI_STATE_WAIT_TABLE_COMPLETE\<rparr>;
                let M = set_timeout (g_sitp_si_update_poll_interval cfg) M;
                if ev = RMF_SF_EVENT_LAST_SECTION_FOUND then
                  activate_filter cfg env (handler_filter env) (rdd_matches cfg t) (t\<lparr>table_unique_id := 0\<rparr>) M
                else Some (RMF_SUCCESS, t, M) } } } }"

text \<open>The first part: \<open>new_section_parsed\<close>, or \<open>None\<close> when a failed parse ends the handler.\<close>

definition wait_complete_crc_section ::
  "si_config \<Rightarrow> si_env \<Rightarrow> table_out \<Rightarrow> 32 word \<Rightarrow> rmf_si_table_t \<Rightarrow> rmf_OobSiMgr \<Rightarrow>
   (bool option \<times> rmf_Error \<times> rmf_si_table_t \<times> rmf_OobSiMgr) option" where
  "wait_complete_crc_section cfg env out section_handle t M =
     do { t \<leftarrow> purgeOldSectionMatches cfg (handler_time env) t;
          matched \<leftarrow> matchedCRC32 t (out_crc out);
          case matched of
            Some section_index \<Rightarrow> do {
              let (retCode, M) = release_table_section section_handle M;
              t \<leftarrow> section_update section_index
                     (\<lambda>s. s\<lparr>crc_section_match_count := crc_section_match_count s + 1, last_seen_time := handler_time env\<rparr>) t;
              b \<leftarrow> checkCRCMatchCount cfg t section_index;
              t \<leftarrow> (if b then section_update section_index (\<lambda>s. s\<lparr>section_acquired := True\<rparr>) t else Some t);
              Some (Some False, retCode, t, M) }
          | None \<Rightarrow> do {
              (err, _, t, M) \<leftarrow> parse_section env section_handle out t M;
              let (_, M) = release_table_section section_handle M;
              if err \<noteq> RMF_SUCCESS then do { (t, M) \<leftarrow> back_to_revision cfg t M; Some (None, RMF_SI_FAILURE, t, M) }
              else do {
                t \<leftarrow> add_section cfg (out_crc out) (handler_time env) t;
                Some (Some True, RMF_SUCCESS, t, M) } } }"

definition wait_complete_crc ::
  "si_config \<Rightarrow> si_env \<Rightarrow> sf_event \<Rightarrow> table_out \<Rightarrow> 32 word \<Rightarrow> rmf_si_table_t \<Rightarrow> rmf_OobSiMgr \<Rightarrow> handler_result" where
  "wait_complete_crc cfg env ev out section_handle t M =
     do { (parsed, retCode, t, M) \<leftarrow> wait_complete_crc_section cfg env out section_handle t M;
          case parsed of
            None \<Rightarrow> Some (retCode, t, M)
          | Some new_section_parsed \<Rightarrow> do {
              (acq, all, t) \<leftarrow> table_acquired_now t M;
              let M = (if new_section_parsed \<and> acq \<or> all then set_tablesAcquired cfg env t M else M);
              if all then do {
                t \<leftarrow> purgeSectionsNotMatchedByFilter cfg t;
                (_, t, M) \<leftarrow> release_filter env t M;
                t \<leftarrow> reset_section_array (rev_type t) t;
                Some (retCode, t\<lparr>table_state := RMF_SI_STATE_WAIT_TABLE_REVISION\<rparr>, set_timeout (idle_timeout cfg M) M) }
              else do {
                let t = t\<lparr>table_state := RMF_SI_STATE_WAIT_TABLE_COMPLETE\<rparr>;
                let M = set_timeout (g_sitp_si_update_poll_interval cfg) M;
                if ev = RMF_SF_EVENT_LAST_SECTION_FOUND then do {
                  t \<leftarrow> purgeSectionsNotMatchedByFilter cfg t;
                  (_, t, M) \<leftarrow> release_filter env t M;
                  activate_filter cfg env (handler_filter env) (g_sitp_si_initial_section_match_count cfg) t M }
                else Some (retCode, t, M) } } }"

definition sitp_si_state_wait_table_complete_handler ::
  "si_config \<Rightarrow> si_env \<Rightarrow> oob_event \<Rightarrow> 32 word \<Rightarrow> rmf_si_table_t \<Rightarrow> rmf_OobSiMgr \<Rightarrow> handler_result" where
  "sitp_si_state_wait_table_complete_handler cfg env =
     section_event cfg env (wait_complete_rdd cfg env) (wait_complete_crc cfg env)"

section \<open>Choosing the table\<close>

abbreviation put_table :: "nat \<Rightarrow> rmf_si_table_t \<Rightarrow> rmf_OobSiMgr \<Rightarrow> rmf_OobSiMgr" where
  "put_table i t M \<equiv> M\<lparr>g_table_array := (g_table_array M)[i := t]\<rparr>"

text \<open>A loop over the tables whose body works on one table and the manager.\<close>

fun tables_loop ::
  "(nat \<Rightarrow> rmf_si_table_t \<Rightarrow> rmf_OobSiMgr \<Rightarrow> (rmf_si_table_t \<times> rmf_OobSiMgr) option) \<Rightarrow> nat \<Rightarrow> nat \<Rightarrow> rmf_OobSiMgr \<Rightarrow> rmf_OobSiMgr option" where
  "tables_loop body 0 ii M = Some M"
| "tables_loop body (Suc k) ii M =
     do { t \<leftarrow> rd (g_table_array M) ii; (t, M) \<leftarrow> body ii t M; tables_loop body k (Suc ii) (put_table ii t M) }"

definition clear_table :: "rmf_si_table_t \<Rightarrow> rmf_si_table_t option" where
  "clear_table t =
     do { secs \<leftarrow> update_loop (\<lambda>_. init_section) MAX_SECTION_NUMBER 0 (sections t);
          Some (t\<lparr>table_state := RMF_SI_STATE_NONE, rev_type := RMF_SI_REV_TYPE_UNKNOWN, rev_sample_count := 0,
                  table_acquired := False, version_number := SITP_SI_INIT_VERSION, number_sections := 0,
                  sections := secs, rolling_match_counter := 0\<rparr>) }"

definition release_if_active ::
  "si_env \<Rightarrow> rmf_si_table_t \<Rightarrow> rmf_OobSiMgr \<Rightarrow> (rmf_si_table_t \<times> rmf_OobSiMgr) option" where
  "release_if_active env t M =
     (if table_unique_id t \<noteq> 0 then do { (_, t, M) \<leftarrow> release_filter env t M; Some (t, M) } else Some (t, M))"

definition rmf_si_reset_tables :: "si_env \<Rightarrow> rmf_OobSiMgr \<Rightarrow> rmf_OobSiMgr option" where
  "rmf_si_reset_tables env M =
     do { M \<leftarrow> tables_loop (\<lambda>ii t M. do { (t, M) \<leftarrow> release_if_active env t M; t \<leftarrow> clear_table t; Some (t, M) })
                (length (g_table_array M)) 0 M;
          Some (upd_cache (\<lambda>c. SetAllSIEntriesUndefinedUnmapped (SetGlobalState SI_ACQUIRING
                  (SetChannelMapId VIRTUAL_CHANNEL_UNKNOWN (SetDACId VIRTUAL_CHANNEL_UNKNOWN c))))
                 (setTablesAcquired 0 (setSVCTAcquired 0 M))) }"

definition set_filters_body ::
  "si_config \<Rightarrow> si_env \<Rightarrow> nat \<Rightarrow> rmf_si_table_t \<Rightarrow> rmf_OobSiMgr \<Rightarrow> (rmf_si_table_t \<times> rmf_OobSiMgr) option" where
  "set_filters_body cfg env ii t M =
     (if table_state t = RMF_SI_STATE_NONE then do {
        (_, t, M) \<leftarrow> activate_filter cfg env (table_filter env ii) (g_sitp_si_initial_section_match_count cfg) t M;
        Some (t\<lparr>table_state := RMF_SI_STATE_WAIT_TABLE_COMPLETE\<rparr>, set_timeout (g_sitp_si_status_update_time_interval cfg) M) }
      else if table_unique_id t = 0 then do {
        (_, t, M) \<leftarrow>
          (if rev_type t = RMF_SI_REV_TYPE_CRC \<and> g_sitp_si_rev_sample_sections cfg = 1 \<and> number_sections t \<noteq> 0
           then activate_filter cfg env (table_filter env ii) (ucast (number_sections t) + 1) t M
           else activate_filter cfg env (table_filter env ii) 1 t M);
        Some (t\<lparr>table_state := RMF_SI_STATE_WAIT_TABLE_REVISION\<rparr>, set_timeout (g_sitp_si_update_poll_interval cfg) M) }
      else Some (t, M))"

text \<open>
  \<open>tables_to_set = 0\<close> for active filters is overwritten by the next statement, so \<open>checkForActiveFilters\<close>
  has no effect here.
\<close>

definition set_filters :: "si_config \<Rightarrow> si_env \<Rightarrow> oob_event \<Rightarrow> rmf_OobSiMgr \<Rightarrow> (rmf_Error \<times> rmf_OobSiMgr) option" where
  "set_filters cfg env event M =
     (if \<not> (g_sitp_siTablesAcquired M = 0 \<and> (event = OOB_START_UP_EVENT \<or> event = OOB_VCTID_CHANGE_EVENT)) \<and>
         g_sitp_siTablesAcquired M < NIT_ACQUIRED
      then Some (RMF_SI_FAILURE, set_timeout (g_sitp_si_status_update_time_interval cfg) M)
      else do { M \<leftarrow> tables_loop (set_filters_body cfg env) (length (g_table_array M)) 0 M; Some (RMF_SI_FAILURE, M) })"

definition sitp_si_get_table ::
  "si_config \<Rightarrow> si_env \<Rightarrow> oob_event \<Rightarrow> 32 word \<Rightarrow> rmf_OobSiMgr \<Rightarrow> (rmf_Error \<times> rmf_OobSiMgr) option" where
  "sitp_si_get_table cfg env event data M =
     (case event of
        OOB_VCTID_CHANGE_EVENT \<Rightarrow> do { M \<leftarrow> rmf_si_reset_tables env M; set_filters cfg env event M }
      | OOB_START_UP_EVENT \<Rightarrow> set_filters cfg env event M
      | RMF_OSAL_ETIMEOUT \<Rightarrow> set_filters cfg env event M
      | RMF_SF_EVENT_SOURCE_CLOSED \<Rightarrow> do {
          t \<leftarrow> rd (g_table_array M) (g_table M);
          (_, t, M) \<leftarrow> release_filter env t M;
          Some (RMF_SI_FAILURE, set_timeout (g_sitp_si_update_poll_interval cfg)
            (put_table (g_table M) (t\<lparr>table_state := RMF_SI_STATE_WAIT_TABLE_REVISION\<rparr>) M)) }
      | RMF_PODSRV_EVENT_RESET_PENDING \<Rightarrow> do {
          M \<leftarrow> tables_loop (\<lambda>ii t M. do { (t, M) \<leftarrow> release_if_active env t M; t \<leftarrow> clear_table t;
                                           Some (t\<lparr>table_unique_id := 0\<rparr>, M) })
                (length (g_table_array M)) 0 M;
          Some (RMF_SI_FAILURE, set_timeout (g_sitp_si_status_update_time_interval cfg) (M\<lparr>g_sitp_siTablesAcquired := 0\<rparr>)) }
      | OOB_SF ev \<Rightarrow>
          if ev = RMF_SF_EVENT_SECTION_FOUND \<or> ev = RMF_SF_EVENT_LAST_SECTION_FOUND then
            (case findTableIndexByUniqueId data (g_table_array M) of
               (retCode, Some index) \<Rightarrow> Some (RMF_SUCCESS, M\<lparr>g_table := index\<rparr>)
             | (retCode, None) \<Rightarrow>
                 Some (RMF_SI_FAILURE, set_timeout (if g_sitp_siTablesAcquired M \<le> OOB_TABLES_ACQUIRED then SHORT_TIMER
                                                    else g_sitp_si_update_poll_interval cfg) M))
          else Some (RMF_SI_FAILURE, M))"

section \<open>Timeouts and the worker\<close>

text \<open>Whether the loop goes on to the next table because the wait time has not elapsed.\<close>

definition still_waiting :: "si_config \<Rightarrow> int \<Rightarrow> rmf_si_table_t \<Rightarrow> bool" where
  "still_waiting cfg elapsed t =
     (if table_id t = NETWORK_INFORMATION_TABLE_ID then
        if subtype t = CARRIER_DEFINITION_SUBTABLE then elapsed < uint (g_sitp_si_max_nit_cds_wait_time cfg)
        else if subtype t = MODULATION_MODE_SUBTABLE then elapsed < uint (g_sitp_si_max_nit_mms_wait_time cfg)
        else False
      else if table_id t = SF_VIRTUAL_CHANNEL_TABLE_ID then
        if subtype t = VIRTUAL_CHANNEL_MAP then elapsed < uint (g_sitp_si_max_svct_vcm_wait_time cfg)
        else if subtype t = DEFINED_CHANNEL_MAP then elapsed < uint (g_sitp_si_max_svct_dcm_wait_time cfg)
        else False
      else if table_id t = NETWORK_TEXT_TABLE_ID then elapsed < uint (g_sitp_si_max_ntt_wait_time cfg)
      else True)"

definition timed_out :: "si_config \<Rightarrow> int \<Rightarrow> rmf_si_table_t \<Rightarrow> bool" where
  "timed_out cfg current_time t \<longleftrightarrow>
     table_unique_id t \<noteq> 0 \<and> rev_type t \<noteq> RMF_SI_REV_TYPE_RDD \<and>
     \<not> still_waiting cfg (current_time - filter_start_time t) t"

text \<open>
  The time-out of table \<open>ii\<close>. \<open>reset_section_array\<close> works on \<open>g_table\<close>, which need not be the table that
  timed out.
\<close>

definition reset_current :: "rmf_si_revisioning_type_e \<Rightarrow> rmf_OobSiMgr \<Rightarrow> rmf_OobSiMgr option" where
  "reset_current rt M =
     do { t \<leftarrow> rd (g_table_array M) (g_table M);
          t \<leftarrow> reset_section_array rt t;
          Some (put_table (g_table M) t M) }"

definition await_revision :: "si_config \<Rightarrow> nat \<Rightarrow> rmf_OobSiMgr \<Rightarrow> rmf_OobSiMgr option" where
  "await_revision cfg ii M =
     do { t \<leftarrow> rd (g_table_array M) ii;
          let M = put_table ii (t\<lparr>table_state := RMF_SI_STATE_WAIT_TABLE_REVISION\<rparr>) M;
          Some (set_timeout (idle_timeout cfg M) M) }"

definition table_timeout :: "si_config \<Rightarrow> si_env \<Rightarrow> nat \<Rightarrow> rmf_OobSiMgr \<Rightarrow> rmf_OobSiMgr option" where
  "table_timeout cfg env ii M =
     do { t \<leftarrow> rd (g_table_array M) ii;
          if \<not> timed_out cfg (timeout_time env) t then Some M
          else do {
            (_, t, M) \<leftarrow> release_filter env t (set_tablesAcquired cfg env t M);
            M \<leftarrow> reset_current (rev_type t) (put_table ii t M);
            await_revision cfg ii M } }"

fun timeouts_loop :: "si_config \<Rightarrow> si_env \<Rightarrow> nat \<Rightarrow> nat \<Rightarrow> rmf_OobSiMgr \<Rightarrow> rmf_OobSiMgr option" where
  "timeouts_loop cfg env 0 ii M = Some M"
| "timeouts_loop cfg env (Suc k) ii M = do { M \<leftarrow> table_timeout cfg env ii M; timeouts_loop cfg env k (Suc ii) M }"

definition checkForTableAcquisitionTimeouts :: "si_config \<Rightarrow> si_env \<Rightarrow> rmf_OobSiMgr \<Rightarrow> rmf_OobSiMgr option" where
  "checkForTableAcquisitionTimeouts cfg env M = timeouts_loop cfg env (length (g_table_array M)) 0 M"

text \<open>The random poll interval; \<open>None\<close> is the division by zero when both bounds are equal.\<close>

definition poll_timeout :: "si_config \<Rightarrow> si_env \<Rightarrow> 32 word option" where
  "poll_timeout cfg env =
     (let range = g_sitp_si_update_poll_interval_max cfg - g_sitp_si_update_poll_interval_min cfg
      in if range = 0 then None else Some (g_sitp_si_update_poll_interval_max cfg - rand_value env mod range))"

text \<open>The dispatch on the state of the current table.\<close>

definition dispatch_table :: "si_config \<Rightarrow> si_env \<Rightarrow> oob_event \<Rightarrow> 32 word \<Rightarrow> rmf_OobSiMgr \<Rightarrow> rmf_OobSiMgr option" where
  "dispatch_table cfg env event data M =
     do { t \<leftarrow> rd (g_table_array M) (g_table M);
          let t = t\<lparr>rolling_match_counter := rolling_match_counter t + 1\<rparr>;
          (_, t, M) \<leftarrow>
            (case table_state t of
               RMF_SI_STATE_WAIT_TABLE_COMPLETE \<Rightarrow> sitp_si_state_wait_table_complete_handler cfg env event data t M
             | RMF_SI_STATE_WAIT_TABLE_REVISION \<Rightarrow> sitp_si_state_wait_table_revision_handler cfg env event data t M
             | RMF_SI_STATE_NONE \<Rightarrow> Some (RMF_SUCCESS, t, M));
          Some (put_table (g_table M) t M) }"

definition worker_poll :: "si_config \<Rightarrow> si_env \<Rightarrow> rmf_OobSiMgr \<Rightarrow> rmf_OobSiMgr option" where
  "worker_poll cfg env M =
     (if g_siOobFilterEnable cfg then do {
        M \<leftarrow> checkForTableAcquisitionTimeouts cfg env M;
        if g_sitp_si_timeout M = g_sitp_si_update_poll_interval cfg \<and> TABLES_ACQUIRED \<le> g_sitp_siTablesAcquired M
        then do { v \<leftarrow> poll_timeout cfg env; Some (set_timeout v M) }
        else Some M }
      else Some M)"

text \<open>One round of the loop of \<open>siWorkerThreadFn\<close>, from an event to the wait for the next one.\<close>

definition worker_step :: "si_config \<Rightarrow> si_env \<Rightarrow> oob_event \<Rightarrow> 32 word \<Rightarrow> rmf_OobSiMgr \<Rightarrow> rmf_OobSiMgr option" where
  "worker_step cfg env event data M =
     do { (retCode, M) \<leftarrow> sitp_si_get_table cfg env event data M;
          M \<leftarrow> (if retCode = RMF_SUCCESS then dispatch_table cfg env event data M else Some M);
          worker_poll cfg env M }"

definition siWorkerThread_init :: "rmf_OobSiParser \<Rightarrow> si_config \<Rightarrow> rmf_si_table_t list \<Rightarrow> rmf_OobSiMgr" where
  "siWorkerThread_init P cfg tables =
     \<lparr>m_pOobSiParser = P, g_table_array = tables, g_table = 0,
      g_sitp_si_timeout = g_sitp_si_status_update_time_interval cfg, g_sitp_siTablesAcquired = 0, g_sitp_svctAcquired = 0,
      g_si_registration_list = [], si_events = [], sf_events = []\<rparr>"

end
