(* ===== verification/SectionFrames.thy ===== *)
theory SectionFrames
  imports SectionRequests
begin

text \<open>
  What setting and releasing filters leave alone, as rules over \<open>wp\<close> for the two managers that call them.
\<close>

section \<open>What the filter operations leave alone\<close>

definition filter_ids :: "(32 word, rmf_sf_SectionRequest) rmf_SymbolMapTable \<Rightarrow> 32 word set" where
  "filter_ids t = fst ` set t"

lemma filter_ids_upd [simp]: "filter_ids (upd_node i f t) = filter_ids t"
  unfolding filter_ids_def by (metis map_fst_upd_node set_map)

lemma filter_ids_Remove: "Remove i t = (removed, rest) \<Longrightarrow> filter_ids rest \<subseteq> filter_ids t"
  using Remove_set[of i t] by (auto simp: filter_ids_def image_def)

lemma filter_ids_Insert: "filter_ids (Insert a i r t) \<subseteq> insert i (filter_ids t)"
  by (auto simp: filter_ids_def Insert_def)

lemma cancelFilter_frame:
  assumes "snd (cancelFilter env i e sf) = (posted, sf')"
  shows "m_outstandingSections sf' = m_outstandingSections sf \<and> filter_ids (m_sectionRequests sf') = filter_ids (m_sectionRequests sf)"
  using assms by (auto simp: cancelFilter_def split: option.splits if_splits)

lemma ReleaseFilter_frame:
  assumes "ReleaseFilter env i sf = Some (err, posted, sf')"
  shows "m_outstandingSections sf' = m_outstandingSections sf \<and> filter_ids (m_sectionRequests sf') \<subseteq> filter_ids (m_sectionRequests sf)"
  using assms
  by (auto simp: ReleaseFilter_def ReleaseFromDeferredDeleteQueue_def Let_def
      split: option.splits if_splits prod.splits bind_splits dest!: filter_ids_Remove cancelFilter_frame)

lemma create_loop_frame:
  assumes "create_loop create env p n posted sf = Some res"
  shows "m_outstandingSections (snd (snd res)) = m_outstandingSections sf"
proof (rule create_loop.raw_induct[where P = "\<lambda>create env p n posted sf res.
    m_outstandingSections (snd (snd res)) = m_outstandingSections sf", OF _ assms])
  fix loop env p n posted sf res
  fix create :: "nat \<Rightarrow> RMF_SECTFLT_RESULT \<times> 32 word"
  assume IH: "\<And>create env p n posted sf res. loop create env p n posted sf = Some res \<Longrightarrow>
      m_outstandingSections (snd (snd res)) = m_outstandingSections sf"
    and body: "(case create n of (returnCode, filterID) \<Rightarrow>
        if returnCode = RMF_SECTFLT_NoFilterRes then
          let filterID = getLowestPriorityFilter p sf
          in if filterID \<noteq> -1
             then case cancelFilter env filterID RMF_SF_EVENT_FILTER_PREEMPTED sf of
                    (_, posted', sf) \<Rightarrow> loop create env p (Suc n) (posted @ posted') sf
             else Some (None, posted, sf)
        else Some (Some (returnCode, filterID), posted, sf)) = Some res"
  then show "m_outstandingSections (snd (snd res)) = m_outstandingSections sf"
    using cancelFilter_frame[of env "getLowestPriorityFilter p sf" RMF_SF_EVENT_FILTER_PREEMPTED sf]
    by (auto simp: Let_def split: prod.splits if_splits)
qed

text \<open>The ids the driver may hand out, and what is asked of it: it answers in the end, with an unused id.\<close>

definition new_ids :: "filter_env \<Rightarrow> 32 word set" where
  "new_ids fe = {i. \<exists>n. create_result fe n = (RMF_SECTFLT_Success, i)}"

definition filter_env_ok :: "filter_env \<Rightarrow> bool" where
  "filter_env_ok fe \<longleftrightarrow> queue_wf (new_queue fe) \<and> (\<exists>n. fst (create_result fe n) \<noteq> RMF_SECTFLT_NoFilterRes)"

lemma wp_ReleaseFilter:
  assumes "requests_wf sf"
    and "\<And>err posted sf'. requests_wf sf' \<Longrightarrow> m_outstandingSections sf' = m_outstandingSections sf \<Longrightarrow>
      filter_ids (m_sectionRequests sf') \<subseteq> filter_ids (m_sectionRequests sf) \<Longrightarrow> Q (err, posted, sf')"
  shows "wp Q (ReleaseFilter env i sf)"
proof -
  obtain err posted sf' where r: "ReleaseFilter env i sf = Some (err, posted, sf')" "requests_wf sf'"
    by (rule ReleaseFilter_wf[OF assms(1)])
  from ReleaseFilter_frame[OF r(1)] r(2) have "Q (err, posted, sf')" by (intro assms(2)) auto
  with r(1) show ?thesis by simp
qed

lemma SetFilter_frame:
  assumes "SetFilter create start alloc queue env spec qh prio n sf = Some (err, uid, posted, sf')" "requests_wf sf"
  shows "m_outstandingSections sf' = m_outstandingSections sf"
    "filter_ids (m_sectionRequests sf') \<subseteq> filter_ids (m_sectionRequests sf) \<union> {i. \<exists>n. create n = (RMF_SECTFLT_Success, i)}"
proof -
  have "m_outstandingSections sf' = m_outstandingSections sf \<and>
    filter_ids (m_sectionRequests sf') \<subseteq> filter_ids (m_sectionRequests sf) \<union> {i. \<exists>n. create n = (RMF_SECTFLT_Success, i)}"
  proof (cases "create_loop create env (ucast prio) 0 [] sf")
    case None
    with assms(1) show ?thesis by (auto simp: SetFilter_def split: option.splits if_splits)
  next
    case (Some res)
    obtain created posted1 sf1 where res: "res = (created, posted1, sf1)" by (cases res) auto
    from create_loop_frame[OF Some] have o: "m_outstandingSections sf1 = m_outstandingSections sf" by (simp add: res)
    from create_loop_wf[OF Some[unfolded res]] assms(2)
    have l: "filter_ids (m_sectionRequests sf1) = filter_ids (m_sectionRequests sf)" "\<And>c. created = Some c \<Longrightarrow> \<exists>n. create n = c"
      by (auto simp: filter_ids_def simp flip: set_map)
    let ?ins = "\<lambda>i r. sf1\<lparr>m_sectionRequests := Insert (node_alloc env) i r (m_sectionRequests sf1)\<rparr>"
    have shape: "sf' = sf \<or> sf' = sf1 \<or> (\<exists>i r. created = Some (RMF_SECTFLT_Success, i) \<and>
        (sf' = ?ins i r \<or> (\<exists>e p. ReleaseFilter env i (?ins i r) = Some (e, p, sf'))))"
      using assms(1) Some
      by (auto simp: SetFilter_def res Let_def split: option.splits if_splits prod.splits bind_splits)
    have ins: ?thesis if i: "created = Some (RMF_SECTFLT_Success, i)"
        "sf' = ?ins i r \<or> (\<exists>e p. ReleaseFilter env i (?ins i r) = Some (e, p, sf'))" for i r
    proof -
      from i(2) have "m_outstandingSections sf' = m_outstandingSections sf1"
        "filter_ids (m_sectionRequests sf') \<subseteq> filter_ids (m_sectionRequests (?ins i r))"
        by (auto dest!: ReleaseFilter_frame)
      with filter_ids_Insert[of "node_alloc env" i r "m_sectionRequests sf1"] o l(1) l(2)[OF i(1)] show ?thesis by auto
    qed
    have same: ?thesis if "sf' = sf \<or> sf' = sf1" using that o l(1) by auto
    from shape show ?thesis by (elim disjE[of "sf' = sf"] disjE[of "sf' = sf1"] exE conjE) (use same ins in \<open>blast+\<close>)
  qed
  then show "m_outstandingSections sf' = m_outstandingSections sf"
    "filter_ids (m_sectionRequests sf') \<subseteq> filter_ids (m_sectionRequests sf) \<union> {i. \<exists>n. create n = (RMF_SECTFLT_Success, i)}" by auto
qed

lemma wp_SetFilter:
  assumes "requests_wf sf" "filter_env_ok fe" "new_ids fe \<inter> filter_ids (m_sectionRequests sf) = {}"
    and "\<And>err uid posted sf'. requests_wf sf' \<Longrightarrow> m_outstandingSections sf' = m_outstandingSections sf \<Longrightarrow>
      filter_ids (m_sectionRequests sf') \<subseteq> filter_ids (m_sectionRequests sf) \<union> new_ids fe \<Longrightarrow> Q (err, uid, posted, sf')"
  shows "wp Q (SetFilter (create_result fe) (start_result fe) alloc (new_queue fe) env spec qh prio n sf)"
proof -
  have q: "queue_wf (new_queue fe)" using assms(2) by (simp add: filter_env_ok_def)
  from assms(2) obtain k where "fst (create_result fe k) \<noteq> RMF_SECTFLT_NoFilterRes" by (auto simp: filter_env_ok_def)
  with create_loop_returns[of "create_result fe" 0 k env "ucast prio" "[]" sf]
  have answer: "create_loop (create_result fe) env (ucast prio) 0 [] sf \<noteq> None" by auto
  obtain err uid posted sf' where
      r: "SetFilter (create_result fe) (start_result fe) alloc (new_queue fe) env spec qh prio n sf = Some (err, uid, posted, sf')"
      "requests_wf sf'"
    by (rule SetFilter_wf[OF assms(1) q _ answer, of "start_result fe" alloc spec qh n])
      (use assms(3) in \<open>auto simp: new_ids_def filter_ids_def\<close>)
  from SetFilter_frame[OF r(1) assms(1)] r(2) have "Q (err, uid, posted, sf')" by (intro assms(4)) (auto simp: new_ids_def)
  with r(1) show ?thesis by simp
qed

end
