(* ===== verification/SiMgrSafety.thy ===== *)
theory SiMgrSafety
  imports OobSiMgr SectionFrames
begin

text \<open>
  The manager keeps its tables and the cache well-formed and never leaves the array of sections, as long as the sections
  it is given parse and number themselves below 64. Each operation of the manager is described by one lemma
  over \<open>wp\<close>; the lemmas of the handlers chain them.
\<close>

section \<open>The parser between two sections\<close>

text \<open>The cache is well-formed, its CRC table is there and memory lasts; outstanding sections have their announced length.\<close>

definition parser_ready :: "rmf_OobSiParser \<Rightarrow> bool" where
  "parser_ready P \<longleftrightarrow> sf_wf (m_pSectionFilter P) \<and> cache_wf (m_pSiCache P) \<and> names_wf (m_pSiCache P) \<and>
     length (crctab (m_pSiCache P)) = 256 \<and> (\<forall>i. alloc_ok (m_pSiCache P) i)"

definition cache_ready :: "rmf_OobSiCache \<Rightarrow> bool" where
  "cache_ready c \<longleftrightarrow> cache_wf c \<and> names_wf c \<and> length (crctab c) = 256 \<and> (\<forall>i. alloc_ok c i)"

lemma parser_ready_iff: "parser_ready P \<longleftrightarrow> sf_wf (m_pSectionFilter P) \<and> cache_ready (m_pSiCache P)"
  by (simp add: parser_ready_def cache_ready_def)

lemma cache_ready_cong:
  assumes "map fst (g_si_entry c') = map fst (g_si_entry c)" "g_si_sourcename_entry c' = g_si_sourcename_entry c"
    "g_frequency c' = g_frequency c" "g_mode c' = g_mode c" "crctab c' = crctab c" "alloc_ok c' = alloc_ok c" "alloc_cnt c' = alloc_cnt c"
  shows "cache_ready c' = cache_ready c"
proof -
  have "fst ` set (g_si_entry c') = fst ` set (g_si_entry c)" using assms(1) by (metis list.set_map)
  with assms show ?thesis by (simp add: cache_ready_def cache_wf_def names_wf_def)
qed

lemma cache_ready_ops [simp]:
  "cache_ready (SetGlobalState st c) = cache_ready c" "cache_ready (SortCDSFreqList c) = cache_ready c"
  "cache_ready (SetAllSIEntriesUndefinedUnmapped c) = cache_ready c"
  "cache_ready (SetChannelMapId v c) = cache_ready c" "cache_ready (SetDACId v c) = cache_ready c"
  by (rule cache_ready_cong;
      simp add: SetGlobalState_def SortCDSFreqList_def SetAllSIEntriesUndefinedUnmapped_def SetChannelMapId_def SetDACId_def
        gz_call_def Let_def split_def comp_def)+

text \<open>What is asked of \<open>UpdateServiceEntries\<close>, a parameter here.\<close>

definition services_ok :: "si_env \<Rightarrow> bool" where
  "services_ok env \<longleftrightarrow> (\<forall>c. cache_ready c \<longrightarrow> cache_ready (update_services env c))"

definition read_ok :: "si_env \<Rightarrow> bool" where
  "read_ok env \<longleftrightarrow> (\<forall>d. section_read env = Some d \<longrightarrow> length (sectionData d) = unat (sectionLength d))"

section \<open>The invariant of a handler\<close>

text \<open>
  While a handler runs: its table and the filter requests are well-formed, the parser is ready, the acquisition flags are
  a subset of \<open>OOB_TABLES_ACQUIRED\<close>, and the kind of the table and the rest of the manager stay what they
  were. \<open>I\<close> bounds the ids of the filters in use.
\<close>

definition flags_ok :: "32 word \<Rightarrow> bool" where
  "flags_ok w \<longleftrightarrow> w OR OOB_TABLES_ACQUIRED = OOB_TABLES_ACQUIRED"

definition t_inv :: "byte \<times> byte \<Rightarrow> rmf_si_table_t \<Rightarrow> bool" where
  "t_inv kd t \<longleftrightarrow> table_wf t \<and> (table_id t, subtype t) = kd"

definition m_inv :: "32 word set \<Rightarrow> rmf_si_table_t list \<Rightarrow> nat \<Rightarrow> rmf_OobSiMgr \<Rightarrow> bool" where
  "m_inv I ts g M \<longleftrightarrow> requests_wf (sf_of M) \<and> filter_ids (m_sectionRequests (sf_of M)) \<subseteq> I \<and>
     flags_ok (g_sitp_siTablesAcquired M) \<and> g_table_array M = ts \<and> g_table M = g \<and> parser_ready (m_pOobSiParser M)"

named_theorems tm_simps \<open>assignments to fields the invariant does not mention\<close>

lemma t_inv_upd [tm_simps]:
  "t_inv kd (t\<lparr>table_state := st\<rparr>) = t_inv kd t" "t_inv kd (t\<lparr>rev_type := rt\<rparr>) = t_inv kd t"
  "t_inv kd (t\<lparr>rev_sample_count := n\<rparr>) = t_inv kd t" "t_inv kd (t\<lparr>table_acquired := b\<rparr>) = t_inv kd t"
  "t_inv kd (t\<lparr>table_unique_id := u\<rparr>) = t_inv kd t" "t_inv kd (t\<lparr>version_number := v\<rparr>) = t_inv kd t"
  "t_inv kd (t\<lparr>filter_start_time := n'\<rparr>) = t_inv kd t" "t_inv kd (t\<lparr>rolling_match_counter := n\<rparr>) = t_inv kd t"
  by (simp_all add: t_inv_def table_wf_def)

lemma m_inv_upd [tm_simps]:
  "m_inv I ts g (M\<lparr>g_sitp_si_timeout := w\<rparr>) = m_inv I ts g M"
  "m_inv I ts g (M\<lparr>sf_events := es\<rparr>) = m_inv I ts g M"
  by (simp_all add: m_inv_def)

lemma m_inv_sf:
  assumes "m_inv I ts g M" "requests_wf sf" "m_outstandingSections sf = m_outstandingSections (sf_of M)"
    "filter_ids (m_sectionRequests sf) \<subseteq> J"
  shows "m_inv J ts g (upd_sf sf M)"
  using assms by (simp add: m_inv_def parser_ready_iff sf_wf_def)

lemma t_invD: "t_inv kd t \<Longrightarrow> table_wf t" by (simp add: t_inv_def)

lemma m_invD:
  assumes "m_inv I ts g M"
  shows "requests_wf (sf_of M)" "filter_ids (m_sectionRequests (sf_of M)) \<subseteq> I"
  using assms by (auto simp: m_inv_def)

lemma m_inv_Un: "m_inv I ts g M \<Longrightarrow> m_inv (I \<union> J) ts g M"
  by (auto simp: m_inv_def)

named_theorems tm_wp \<open>operations under the invariant of a handler\<close>

lemma wp_release_filter [tm_wp]:
  assumes "m_inv I ts g M" "t_inv kd t"
    and "\<And>err t' M'. m_inv I ts g M' \<Longrightarrow> t_inv kd t' \<Longrightarrow> m_pSiCache (m_pOobSiParser M') = m_pSiCache (m_pOobSiParser M) \<Longrightarrow>
      prev_vct_id (m_pOobSiParser M') = prev_vct_id (m_pOobSiParser M) \<Longrightarrow>
      m_outstandingSections (sf_of M') = m_outstandingSections (sf_of M) \<Longrightarrow> rev_type t' = rev_type t \<Longrightarrow> Q (err, t', M')"
  shows "wp Q (release_filter env t M)"
  unfolding release_filter_def
proof (simp add: Let_def split_def, rule wp_ReleaseFilter[OF m_invD(1)[OF assms(1)]])
  fix err posted sf'
  assume sf': "requests_wf sf'" "m_outstandingSections sf' = m_outstandingSections (sf_of M)"
    "filter_ids (m_sectionRequests sf') \<subseteq> filter_ids (m_sectionRequests (sf_of M))"
  then have "m_inv I ts g (upd_sf sf' M)" using assms(1) m_invD(2)[OF assms(1)] by (intro m_inv_sf) auto
  with sf' show "(fst (err, posted, sf') = 0 \<longrightarrow> Q (0, t\<lparr>table_unique_id := 0, filter_start_time := 0\<rparr>,
      (upd_sf (snd (snd (err, posted, sf'))) M)\<lparr>sf_events := sf_events M @ fst (snd (err, posted, sf'))\<rparr>)) \<and>
     (0 < fst (err, posted, sf') \<longrightarrow> Q (Suc 0, t,
      (upd_sf (snd (snd (err, posted, sf'))) M)\<lparr>sf_events := sf_events M @ fst (snd (err, posted, sf'))\<rparr>))"
    using assms(2) by (auto intro!: assms(3) simp: tm_simps)
qed

lemma wp_activate_filter [tm_wp]:
  assumes "m_inv I ts g M" "t_inv kd t" "filter_env_ok fe" "new_ids fe \<inter> I = {}"
    and "\<And>err t' M'. m_inv (I \<union> new_ids fe) ts g M' \<Longrightarrow> t_inv kd t' \<Longrightarrow> rev_type t' = rev_type t \<Longrightarrow> Q (err, t', M')"
  shows "wp Q (activate_filter cfg env fe n t M)"
proof -
  have set: "wp Q (do {
      (retCode, uid, posted, sf) \<leftarrow>
        SetFilter (create_result fe) (start_result fe) (request_alloc fe) (new_queue fe) (set_env fe)
          (Some (si_filter_spec t1)) (g_sitp_si_queue cfg) RMF_SF_FILTER_PRIORITY_SITP n (sf_of M1);
      let M = (upd_sf sf M1)\<lparr>sf_events := sf_events M1 @ posted\<rparr>;
      Some (if retCode = RMF_SUCCESS
            then (RMF_SUCCESS,
                  t1\<lparr>table_unique_id := (case uid of None \<Rightarrow> table_unique_id t1 | Some i \<Rightarrow> i),
                    filter_start_time := set_time fe\<rparr>, M)
            else (RMF_SI_FAILURE, t1\<lparr>table_unique_id := 0\<rparr>, M)) })"
    if 1: "m_inv I ts g M1" and 2: "t_inv kd t1" and rt: "rev_type t1 = rev_type t" for t1 M1
  proof (simp only: wp_simps, rule wp_SetFilter[OF m_invD(1)[OF 1] assms(3)])
    show "new_ids fe \<inter> filter_ids (m_sectionRequests (sf_of M1)) = {}" using assms(4) m_invD(2)[OF 1] by auto
    fix err uid posted sf'
    assume sf': "requests_wf sf'" "m_outstandingSections sf' = m_outstandingSections (sf_of M1)"
      "filter_ids (m_sectionRequests sf') \<subseteq> filter_ids (m_sectionRequests (sf_of M1)) \<union> new_ids fe"
    then have "m_inv (I \<union> new_ids fe) ts g (upd_sf sf' M1)"
      using 1 m_invD(2)[OF 1] by (intro m_inv_sf) auto
    then show "wp Q (case (err, uid, posted, sf') of (retCode, uid, posted, sf) \<Rightarrow>
       let M = (upd_sf sf M1)\<lparr>sf_events := sf_events M1 @ posted\<rparr>
       in Some (if retCode = RMF_SUCCESS
            then (RMF_SUCCESS,
                  t1\<lparr>table_unique_id := (case uid of None \<Rightarrow> table_unique_id t1 | Some i \<Rightarrow> i),
                    filter_start_time := set_time fe\<rparr>, M)
            else (RMF_SI_FAILURE, t1\<lparr>table_unique_id := 0\<rparr>, M)))"
      using 2 by (auto simp: Let_def tm_simps rt intro!: assms(5))
  qed
  show ?thesis
    unfolding activate_filter_def
    using assms(1,2) set[OF assms(1,2)] set by (auto intro!: wp_release_filter[of I ts g _ kd])
qed

lemma m_inv_release_section [tm_simps]:
  "m_inv I ts g M \<Longrightarrow> m_inv I ts g (snd (release_table_section h M))"
  using Remove_set[of h "m_outstandingSections (sf_of M)"]
  by (auto simp: release_table_section_def ReleaseSection_def m_inv_def requests_wf_def Let_def split_def parser_ready_iff sf_wf_def)

text \<open>The table operations, through their contract.\<close>

context table_op
begin

lemma wp_op:
  assumes "t_inv kd t"
    and "\<And>t'. t_inv kd t' \<Longrightarrow> rev_type t' = rev_type t \<Longrightarrow> table_unique_id t' = table_unique_id t \<Longrightarrow> Q t'"
  shows "wp Q (f t)"
proof -
  obtain t' where t': "f t = Some t'" "table_wf t'" "same_table t t'"
    by (rule run[OF t_invD[OF assms(1)]])
  with assms(1) have "t_inv kd t'" by (simp add: t_inv_def same_table_def)
  with t' show ?thesis by (simp add: assms(2) same_table_def)
qed

end

lemmas [tm_wp] = reset.wp_op purge_filter.wp_op purge_old.wp_op

lemma wp_back_to_revision [tm_wp]:
  assumes "t_inv kd t" "m_inv I ts g M" "\<And>t' M'. m_inv I ts g M' \<Longrightarrow> t_inv kd t' \<Longrightarrow> Q (t', M')"
  shows "wp Q (back_to_revision cfg t M)"
  using assms unfolding back_to_revision_def by (auto intro!: reset.wp_op[of kd] simp: tm_simps)

lemma wp_section_update [tm_wp]:
  assumes "t_inv kd t" "i < MAX_SECTION_NUMBER"
    and "\<And>t'. t_inv kd t' \<Longrightarrow> number_sections t' = number_sections t \<Longrightarrow> table_unique_id t' = table_unique_id t \<Longrightarrow>
      rev_type t' = rev_type t \<Longrightarrow> Q t'"
  shows "wp Q (section_update i f t)"
proof -
  have "i < length (sections t)" using t_invD[OF assms(1)] assms(2) by (simp add: table_wf_def)
  moreover from this have "t_inv kd (t\<lparr>sections := (sections t)[i := f (sections t ! i)]\<rparr>)"
    using assms(1) by (simp add: t_inv_def table_wf_def)
  ultimately show ?thesis unfolding section_update_def by (simp add: wp_rd wp_wr assms(3))
qed

lemma wp_matchedCRC32 [tm_wp]:
  assumes "t_inv kd t" "\<And>m. (\<forall>i. m = Some i \<longrightarrow> i < MAX_SECTION_NUMBER) \<Longrightarrow> Q m"
  shows "wp Q (matchedCRC32 t crc)"
proof -
  have wf: "table_wf t" by (rule t_invD[OF assms(1)])
  let ?m = "List.find (\<lambda>i. crc_32 (sections t ! i) = crc) [0..<unat (number_sections t)]"
  have "matchedCRC32 t crc = Some ?m" using wf match_loop_run[of 0] by (simp add: matchedCRC32_def table_wf_def)
  moreover have "Q ?m" by (rule assms(2)) (use wf in \<open>auto simp: find_Some_iff table_wf_def\<close>)
  ultimately show ?thesis by simp
qed

lemma wp_checkCRCMatchCount [tm_wp]:
  assumes "t_inv kd t" "i < MAX_SECTION_NUMBER" "\<And>b. Q b"
  shows "wp Q (checkCRCMatchCount cfg t i)"
  using t_invD[OF assms(1)] assms(2,3) by (simp add: checkCRCMatchCount_def table_wf_def wp_rd)

lemma wp_table_acquired_now [tm_wp]:
  assumes "t_inv kd t" "\<And>acq all t'. t_inv kd t' \<Longrightarrow> rev_type t' = rev_type t \<Longrightarrow> Q (acq, all, t')"
  shows "wp Q (table_acquired_now t M)"
proof -
  have wf: "table_wf t" by (rule t_invD[OF assms(1)])
  then have "acquired_loop (unat (number_sections t)) 0 True (sections t) = Some (list_all section_acquired (seen t))"
    using acquired_loop_run[of 0] by (simp add: table_wf_def seen_def)
  then show ?thesis
    unfolding table_acquired_now_def isTable_acquired_def using assms by (auto simp: tm_simps)
qed

lemma wp_add_section [tm_wp]:
  assumes "t_inv kd t" "\<And>t'. t_inv kd t' \<Longrightarrow> rev_type t' = rev_type t \<Longrightarrow> Q t'"
  shows "wp Q (add_section cfg crc current_time t)"
proof -
  have n: "unat (number_sections t) \<le> MAX_SECTION_NUMBER" using t_invD[OF assms(1)] by (simp add: table_wf_def)
  have suc: "t_inv kd (t'\<lparr>number_sections := number_sections t' + 1\<rparr>)"
    if "t_inv kd t'" "number_sections t' = number_sections t" "unat (number_sections t) \<noteq> MAX_SECTION_NUMBER" for t'
    using that n by (auto simp: t_inv_def table_wf_def unat_word_ariths)
  show ?thesis
    unfolding add_section_def Let_def using assms n
    by (auto intro!: wp_section_update[of kd] wp_checkCRCMatchCount[of kd] assms(2) suc)
qed

text \<open>Marking a table as acquired touches the cache, the flags and the events only.\<close>

lemma flags_ok_or: "flags_ok w \<Longrightarrow> flags_ok f \<Longrightarrow> flags_ok (w OR f)"
  by (simp add: flags_ok_def or.assoc)

lemma flags_ok_le: "flags_ok w \<Longrightarrow> w \<le> OOB_TABLES_ACQUIRED"
  unfolding flags_ok_def by (metis le_word_or2)

definition si_frame :: "rmf_OobSiMgr \<Rightarrow> rmf_OobSiMgr \<Rightarrow> bool" where
  "si_frame M M' \<longleftrightarrow> sf_of M' = sf_of M \<and> g_table_array M' = g_table_array M \<and> g_table M' = g_table M \<and>
     (flags_ok (g_sitp_siTablesAcquired M) \<longrightarrow> flags_ok (g_sitp_siTablesAcquired M'))"

lemma si_frame_refl [simp]: "si_frame M M" by (simp add: si_frame_def)

lemma si_frame_ops:
  assumes "si_frame M M'"
  shows "si_frame M (send_si_event env e ch M')" "si_frame M (upd_cache f M')"
    "flags_ok flag \<Longrightarrow> si_frame M (or_TablesAcquired flag M')" "si_frame M (or_SVCTAcquired flag M')"
    "si_frame M (NotifyTableChanged env ty ch M')"
  using assms
  by (auto simp: si_frame_def send_si_event_def or_TablesAcquired_def setTablesAcquired_def or_SVCTAcquired_def setSVCTAcquired_def flags_ok_or NotifyTableChanged_def
      split: rmf_SiTableType.split)

lemma si_frame_calls:
  assumes "si_frame M M'"
  shows "flags_ok flag \<Longrightarrow> si_frame M (notify_or_add env ty flag id M')"
    "flags_ok flag \<Longrightarrow> si_frame M (notify_or_add env ty flag (or_SVCTAcquired flag') M')"
    "si_frame M (update_when env b M')" "si_frame M (announce_state env st M')"
  using assms by (auto simp: notify_or_add_def update_when_def announce_state_def Let_def intro!: si_frame_ops)

lemma si_frame_mark_acquired: "si_frame M (mark_acquired cfg env t M)"
proof -
  have flags: "flags_ok CDS_ACQUIRED" "flags_ok MMS_ACQUIRED" "flags_ok VCM_ACQUIRED" "flags_ok DCM_ACQUIRED" "flags_ok NTT_ACQUIRED"
    by (simp_all add: flags_ok_def)
  show ?thesis
    unfolding mark_acquired_def Let_def by (simp add: flags si_frame_ops si_frame_calls)
qed

lemma si_frame_set_tablesAcquired: "si_frame M (set_tablesAcquired cfg env t M)"
proof -
  have "flags_ok SIDB_SIGNALED" by (simp add: flags_ok_def)
  with si_frame_mark_acquired[of M cfg env t] show ?thesis
    unfolding set_tablesAcquired_def Let_def by (simp add: si_frame_ops si_frame_calls)
qed

lemma cache_ready_send [simp]: "cache_ready (cache_of (send_si_event env e ch M)) = cache_ready (cache_of M)"
  by (simp add: send_si_event_def)

lemma cache_ready_acquired [simp]:
  "cache_ready (cache_of (or_TablesAcquired flag M)) = cache_ready (cache_of M)"
  "cache_ready (cache_of (or_SVCTAcquired flag M)) = cache_ready (cache_of M)"
  "cache_ready (cache_of (NotifyTableChanged env ty ch M)) = cache_ready (cache_of M)"
  "cache_ready (cache_of (announce_state env st M)) = cache_ready (cache_of M)"
  by (simp_all add: or_TablesAcquired_def setTablesAcquired_def or_SVCTAcquired_def setSVCTAcquired_def NotifyTableChanged_def
      announce_state_def Let_def split: rmf_SiTableType.split)

lemma cache_ready_notify [simp]:
  "cache_ready (cache_of (notify_or_add env ty flag id M)) = cache_ready (cache_of M)"
  "cache_ready (cache_of (notify_or_add env ty flag (or_SVCTAcquired flag') M)) = cache_ready (cache_of M)"
  by (simp_all add: notify_or_add_def)

lemma cache_ready_set_tablesAcquired:
  assumes "services_ok env" "cache_ready (cache_of M)"
  shows "cache_ready (cache_of (set_tablesAcquired cfg env t M))"
proof -
  have upd: "cache_ready (cache_of (update_when env b N))" if "cache_ready (cache_of N)" for b N
    using that assms(1) by (simp add: update_when_def services_ok_def)
  have "cache_ready (cache_of (mark_acquired cfg env t M))"
    using assms(2) by (simp add: mark_acquired_def Let_def upd)
  then show ?thesis by (simp add: set_tablesAcquired_def Let_def)
qed

lemma m_inv_set_tablesAcquired: "services_ok env \<Longrightarrow> m_inv I ts g M \<Longrightarrow> m_inv I ts g (set_tablesAcquired cfg env t M)"
  using si_frame_set_tablesAcquired[of M cfg env t] cache_ready_set_tablesAcquired[of env M cfg t]
  by (simp add: m_inv_def si_frame_def parser_ready_iff)

section \<open>The sections a handler is given\<close>

definition same_view :: "rmf_OobSiParser \<Rightarrow> rmf_OobSiParser \<Rightarrow> bool" where
  "same_view P P' \<longleftrightarrow> m_pSiCache P' = m_pSiCache P \<and> prev_vct_id P' = prev_vct_id P \<and>
     m_outstandingSections (m_pSectionFilter P') = m_outstandingSections (m_pSectionFilter P)"

definition small_numbers :: "table_out \<Rightarrow> bool" where
  "small_numbers out \<longleftrightarrow> unat (out_section_number out) < MAX_SECTION_NUMBER \<and> unat (out_last_section_number out) < MAX_SECTION_NUMBER"

definition parses :: "si_env \<Rightarrow> byte \<Rightarrow> 32 word \<Rightarrow> table_out \<Rightarrow> rmf_OobSiParser \<Rightarrow> bool" where
  "parses env tid h out P \<longleftrightarrow> (\<forall>v P'. same_view P P' \<longrightarrow>
     wp (\<lambda>(err, out', P''). m_pSectionFilter P'' = m_pSectionFilter P' \<and> parser_ready P'' \<and>
          (err = RMF_SUCCESS \<longrightarrow> out_version out \<noteq> NO_VERSION \<longrightarrow> small_numbers out'))
        (parseAndUpdateTable (parser_locals env) tid h (out\<lparr>out_version := v, out_crc := 0\<rparr>) P'))"

text \<open>
  A section the parser handles without leaving its buffers, and whose section numbers, where the section has
  a revision detection descriptor, are below 64.
\<close>

definition section_ok :: "si_env \<Rightarrow> byte \<Rightarrow> 32 word \<Rightarrow> rmf_OobSiParser \<Rightarrow> bool" where
  "section_ok env tid h P \<longleftrightarrow>
     wp (\<lambda>(err, out, P'). m_pSectionFilter P' = m_pSectionFilter P \<and> parser_ready P' \<and>
          (err = RMF_SUCCESS \<longrightarrow> (out_version out \<noteq> NO_VERSION \<longrightarrow> small_numbers out) \<and> parses env tid h out P'))
        (get_revision_data (id_stack env) (revision_stack env) h no_out P)"

lemma wp_parse_section:
  assumes "m_inv I ts g M" "t_inv kd t" "parses env (fst kd) h out P" "same_view P (m_pOobSiParser M)"
    and "\<And>err out' t' M'. m_inv I ts g M' \<Longrightarrow> t_inv kd t' \<Longrightarrow> rev_type t' = rev_type t \<Longrightarrow>
      (err = RMF_SUCCESS \<longrightarrow> out_version out \<noteq> NO_VERSION \<longrightarrow> small_numbers out') \<Longrightarrow> Q (err, out', t', M')"
  shows "wp Q (parse_section env h out t M)"
proof -
  have "table_id t = fst kd" using assms(2) by (auto simp: t_inv_def)
  with assms(3,4) have "wp (\<lambda>(err, out', P''). m_pSectionFilter P'' = sf_of M \<and> parser_ready P'' \<and>
      (err = RMF_SUCCESS \<longrightarrow> out_version out \<noteq> NO_VERSION \<longrightarrow> small_numbers out'))
    (parseAndUpdateTable (parser_locals env) (table_id t) h (out\<lparr>out_version := version_number t, out_crc := 0\<rparr>) (m_pOobSiParser M))"
    by (simp add: parses_def)
  then show ?thesis
    unfolding parse_section_def wp_simps
  proof (rule wp_weaken, clarify)
    fix err out' and P'' :: rmf_OobSiParser
    assume P'': "m_pSectionFilter P'' = sf_of M" "parser_ready P''" "err = RMF_SUCCESS \<longrightarrow> out_version out \<noteq> NO_VERSION \<longrightarrow> small_numbers out'"
    then have "m_inv I ts g (M\<lparr>m_pOobSiParser := P''\<rparr>)" using assms(1) by (simp add: m_inv_def)
    with P''(3) show "wp Q (Some (err, out', t\<lparr>version_number := out_version out'\<rparr>, M\<lparr>m_pOobSiParser := P''\<rparr>))"
      using assms(2) by (auto simp: tm_simps intro!: assms(5))
  qed
qed

section \<open>The handlers keep the invariant\<close>

lemmas handler_simps = Let_def split_def tm_simps m_inv_set_tablesAcquired m_inv_Un

lemma t_inv_announced:
  assumes "t_inv kd t" "small_numbers out"
  shows "t_inv kd (t\<lparr>version_number := v, number_sections := out_last_section_number out + 1\<rparr>)"
  using assms by (auto simp: t_inv_def table_wf_def small_numbers_def unat_word_ariths)

lemma same_view_refl [simp]: "same_view P P" by (simp add: same_view_def)

text \<open>What a handler is given.\<close>

definition handler_ready :: "si_env \<Rightarrow> 32 word set \<Rightarrow> bool" where
  "handler_ready env I \<longleftrightarrow> filter_env_ok (handler_filter env) \<and> new_ids (handler_filter env) \<inter> I = {} \<and>
     services_ok env \<and> read_ok env"

abbreviation handler_done ::
  "si_env \<Rightarrow> 32 word set \<Rightarrow> byte \<times> byte \<Rightarrow> rmf_si_table_t list \<Rightarrow> nat \<Rightarrow> rmf_Error \<times> rmf_si_table_t \<times> rmf_OobSiMgr \<Rightarrow> bool" where
  "handler_done env I kd ts g \<equiv> \<lambda>(_, t', M'). m_inv (I \<union> new_ids (handler_filter env)) ts g M' \<and> t_inv kd t'"

lemma wp_wait_revision_rdd:
  assumes inv: "m_inv I ts g M" "t_inv kd t" and ready: "handler_ready env I"
    and out: "small_numbers out" "out_version out \<noteq> NO_VERSION" "parses env (fst kd) h out (m_pOobSiParser M)"
  shows "wp (handler_done env I kd ts g) (wait_revision_rdd cfg env out h t M)"
  unfolding wait_revision_rdd_def
  using inv ready out
  by (auto simp: handler_simps handler_ready_def t_inv_announced same_view_def small_numbers_def
      intro!: wp_release_filter[of I ts g _ kd] wp_parse_section[of I ts g _ kd _ env h out "m_pOobSiParser M"]
        wp_back_to_revision[of kd _ I ts g] wp_section_update[of kd] wp_table_acquired_now[of kd]
        wp_activate_filter[of I ts g _ kd] reset.wp_op[of kd])

lemma wp_wait_revision_crc_section:
  assumes inv: "m_inv I ts g M" "t_inv kd t" and ready: "handler_ready env I"
    and out: "parses env (fst kd) h out (m_pOobSiParser M)"
  shows "wp (\<lambda>(_, r). handler_done env I kd ts g r) (wait_revision_crc_section cfg env out h t M)"
  unfolding wait_revision_crc_section_def
  using inv ready out
  by (auto simp: handler_simps handler_ready_def split: option.split
      intro!: wp_matchedCRC32[of kd] wp_section_update[of kd] wp_parse_section[of I ts g _ kd _ env h out "m_pOobSiParser M"]
        wp_back_to_revision[of kd _ I ts g] wp_add_section[of kd] wp_table_acquired_now[of kd] wp_release_filter[of I ts g _ kd]
        wp_activate_filter[of I ts g _ kd] reset.wp_op[of kd])

lemma wp_wait_revision_crc:
  assumes inv: "m_inv I ts g M" "t_inv kd t" and ready: "handler_ready env I"
    and out: "parses env (fst kd) h out (m_pOobSiParser M)"
  shows "wp (handler_done env I kd ts g) (wait_revision_crc cfg env ev out h t M)"
  unfolding wait_revision_crc_def wp_simps
  by (rule wp_weaken[OF wp_wait_revision_crc_section[where kd = kd and I = I]])
    (use inv ready out in \<open>auto simp: handler_simps split: option.split
      intro!: purge_filter.wp_op[of kd] wp_release_filter[of "I \<union> new_ids (handler_filter env)" ts g _ kd]\<close>)

lemma wp_wait_complete_rdd:
  assumes inv: "m_inv I ts g M" "t_inv kd t" and ready: "handler_ready env I"
    and out: "small_numbers out" "out_version out \<noteq> NO_VERSION" "parses env (fst kd) h out (m_pOobSiParser M)"
  shows "wp (handler_done env I kd ts g) (wait_complete_rdd cfg env ev out h t M)"
proof -
  have rd: "wp Q (rd (sections t') (unat (out_section_number out))) = Q (sections t' ! unat (out_section_number out))"
    if "t_inv kd t'" for Q t'
    using that out(1) by (simp add: t_inv_def table_wf_def small_numbers_def wp_rd)
  have start: "wp (t_inv kd) (if out_version out \<noteq> version_number t then
         do { t \<leftarrow> reset_section_array (rev_type t) t;
              Some (t\<lparr>version_number := out_version out, number_sections := out_last_section_number out + 1\<rparr>) }
       else Some t)"
    using inv(2) out(1) by (auto simp: t_inv_announced intro!: reset.wp_op[of kd])
  show ?thesis
    unfolding wait_complete_rdd_def wp_simps
    by (rule wp_weaken[OF start])
      (use inv(1) ready out in \<open>auto simp: rd handler_simps handler_ready_def small_numbers_def
        intro!: wp_parse_section[of I ts g _ kd _ env h out "m_pOobSiParser M"] wp_back_to_revision[of kd _ I ts g]
          wp_section_update[of kd] wp_table_acquired_now[of kd] wp_release_filter[of I ts g _ kd]
          wp_activate_filter[of I ts g _ kd] reset.wp_op[of kd]\<close>)
qed

lemma wp_wait_complete_crc_section:
  assumes inv: "m_inv I ts g M" "t_inv kd t" and out: "parses env (fst kd) h out (m_pOobSiParser M)"
  shows "wp (\<lambda>(_, _, t', M'). m_inv I ts g M' \<and> t_inv kd t') (wait_complete_crc_section cfg env out h t M)"
  unfolding wait_complete_crc_section_def
  using inv out
  by (auto simp: handler_simps split: option.split
      intro!: purge_old.wp_op[of kd] wp_matchedCRC32[of kd] wp_section_update[of kd] wp_checkCRCMatchCount[of kd]
        wp_parse_section[of I ts g _ kd _ env h out "m_pOobSiParser M"] wp_back_to_revision[of kd _ I ts g] wp_add_section[of kd])

lemma wp_wait_complete_crc:
  assumes inv: "m_inv I ts g M" "t_inv kd t" and ready: "handler_ready env I"
    and out: "parses env (fst kd) h out (m_pOobSiParser M)"
  shows "wp (handler_done env I kd ts g) (wait_complete_crc cfg env ev out h t M)"
  unfolding wait_complete_crc_def wp_simps
  by (rule wp_weaken[OF wp_wait_complete_crc_section[OF inv out]])
    (use ready in \<open>auto simp: handler_simps handler_ready_def split: option.split
      intro!: wp_table_acquired_now[of kd] purge_filter.wp_op[of kd] wp_release_filter[of I ts g _ kd] reset.wp_op[of kd]
        wp_activate_filter[of I ts g _ kd]\<close>)

text \<open>
  Both handlers run the same start; their two continuations are the parameters, with the laws proved above
  as the contract.
\<close>

definition delivered_ok :: "si_env \<Rightarrow> byte \<Rightarrow> 32 word \<Rightarrow> rmf_OobSiMgr \<Rightarrow> bool" where
  "delivered_ok env tid event_data M \<longleftrightarrow>
     (case get_table_section env event_data M of (retCode, h, M') \<Rightarrow>
        retCode = RMF_SUCCESS \<longrightarrow> section_ok env tid h (m_pOobSiParser M'))"

lemma m_inv_get_table_section: "read_ok env \<Longrightarrow> m_inv I ts g M \<Longrightarrow> m_inv I ts g (snd (snd (get_table_section env i M)))"
  by (auto simp: get_table_section_def GetSectionHandle_def m_inv_def requests_wf_def parser_ready_iff sf_wf_def read_ok_def
      Insert_def split: option.splits)

locale section_handler =
  fixes cfg :: si_config and env :: si_env
    and rdd crc :: "sf_event \<Rightarrow> table_out \<Rightarrow> 32 word \<Rightarrow> rmf_si_table_t \<Rightarrow> rmf_OobSiMgr \<Rightarrow> handler_result"
  assumes rdd: "m_inv I ts g M \<Longrightarrow> t_inv kd t \<Longrightarrow> handler_ready env I \<Longrightarrow> small_numbers out \<Longrightarrow> out_version out \<noteq> NO_VERSION \<Longrightarrow>
      parses env (fst kd) h out (m_pOobSiParser M) \<Longrightarrow> wp (handler_done env I kd ts g) (rdd ev out h t M)"
    and crc: "m_inv I ts g M \<Longrightarrow> t_inv kd t \<Longrightarrow> handler_ready env I \<Longrightarrow>
      parses env (fst kd) h out (m_pOobSiParser M) \<Longrightarrow> wp (handler_done env I kd ts g) (crc ev out h t M)"
begin

lemma wp_section:
  assumes inv: "m_inv I ts g M" "t_inv kd t" and ready: "handler_ready env I" and ok: "section_ok env (fst kd) h (m_pOobSiParser M)"
  shows "wp (handler_done env I kd ts g) (do {
      (retCode, out, P) \<leftarrow> get_revision_data (id_stack env) (revision_stack env) h no_out (m_pOobSiParser M);
      let M = M\<lparr>m_pOobSiParser := P\<rparr>;
      if retCode \<noteq> RMF_SUCCESS then do { (t, M) \<leftarrow> back_to_revision cfg t M; Some (retCode, t, M) }
      else let t = with_rev_type out t
           in if out_version out = NO_VERSION then crc ev out h t M else rdd ev out h t M })"
  unfolding wp_simps
proof (rule wp_weaken[OF ok[unfolded section_ok_def]], clarify)
  fix err out and P' :: rmf_OobSiParser
  assume P': "m_pSectionFilter P' = sf_of M" "parser_ready P'"
    and out: "err = RMF_SUCCESS \<longrightarrow> (out_version out \<noteq> NO_VERSION \<longrightarrow> small_numbers out) \<and> parses env (fst kd) h out P'"
  have m: "m_inv I ts g (M\<lparr>m_pOobSiParser := P'\<rparr>)" using inv(1) P' by (simp add: m_inv_def)
  have t: "t_inv kd (with_rev_type out t)" using inv(2) by (simp add: with_rev_type_def tm_simps)
  show "wp (handler_done env I kd ts g) (let M = M\<lparr>m_pOobSiParser := P'\<rparr>
      in if err \<noteq> RMF_SUCCESS then do { (t, M) \<leftarrow> back_to_revision cfg t M; Some (err, t, M) }
         else let t = with_rev_type out t
              in if out_version out = NO_VERSION then crc ev out h t M else rdd ev out h t M)"
    using m t inv(2) ready out rdd[OF m t ready] crc[OF m t ready]
    by (auto simp: Let_def m_inv_Un intro!: wp_back_to_revision[of kd _ I ts g])
qed

lemma wp_event:
  assumes inv: "m_inv I ts g M" "t_inv kd t" and ready: "handler_ready env I" and ok: "delivered_ok env (fst kd) event_data M"
  shows "wp (handler_done env I kd ts g) (section_event cfg env rdd crc si_event event_data t M)"
proof -
  obtain retCode h M' where gs: "get_table_section env event_data M = (retCode, h, M')" by (cases "get_table_section env event_data M") auto
  have "read_ok env" using ready by (simp add: handler_ready_def)
  from m_inv_get_table_section[OF this inv(1), of event_data] gs have inv': "m_inv I ts g M'" by simp
  from ok gs have ok': "retCode = RMF_SUCCESS \<Longrightarrow> section_ok env (fst kd) h (m_pOobSiParser M')" by (simp add: delivered_ok_def)
  note sec = wp_section[OF inv' inv(2) ready ok', unfolded wp_simps]
  show ?thesis
    unfolding section_event_def gs prod.case
    using inv inv' sec
    by (cases si_event) (auto simp: m_inv_Un intro!: wp_release_filter[of I ts g _ kd] wp_back_to_revision[of kd _ I ts g])
qed

end

interpretation revision_handler: section_handler cfg env "\<lambda>ev. wait_revision_rdd cfg env" "wait_revision_crc cfg env" for cfg env
  by unfold_locales (blast intro: wp_wait_revision_rdd wp_wait_revision_crc)+

interpretation complete_handler: section_handler cfg env "wait_complete_rdd cfg env" "wait_complete_crc cfg env" for cfg env
  by unfold_locales (blast intro: wp_wait_complete_rdd wp_wait_complete_crc)+

section \<open>A step of the worker\<close>

definition kinds :: "(byte \<times> byte) list" where
  "kinds = [(NETWORK_INFORMATION_TABLE_ID, CARRIER_DEFINITION_SUBTABLE), (NETWORK_INFORMATION_TABLE_ID, MODULATION_MODE_SUBTABLE),
     (SF_VIRTUAL_CHANNEL_TABLE_ID, VIRTUAL_CHANNEL_MAP), (SF_VIRTUAL_CHANNEL_TABLE_ID, DEFINED_CHANNEL_MAP),
     (NETWORK_TEXT_TABLE_ID, SOURCE_NAME_SUBTABLE)]"

definition tables_ok :: "rmf_si_table_t list \<Rightarrow> bool" where
  "tables_ok ts \<longleftrightarrow> length ts = 5 \<and> (\<forall>i < 5. t_inv (kinds ! i) (ts ! i))"

definition mgr_inv :: "32 word set \<Rightarrow> rmf_OobSiMgr \<Rightarrow> bool" where
  "mgr_inv I M \<longleftrightarrow> m_inv I (g_table_array M) (g_table M) M \<and> tables_ok (g_table_array M) \<and> g_table M < 5"

lemma mgr_inv_upd [tm_simps]:
  "mgr_inv I (M\<lparr>g_sitp_si_timeout := w\<rparr>) = mgr_inv I M"
  by (simp add: mgr_inv_def m_inv_def)

lemma mgr_inv_put:
  assumes "m_inv I ts g M" "tables_ok ts" "g < 5" "t_inv (kinds ! i) t"
  shows "mgr_inv I (put_table i t M)"
proof -
  have "t_inv (kinds ! j) (ts[i := t] ! j)" if "j < 5" for j
    using assms(2,4) that by (cases "j = i") (auto simp: tables_ok_def)
  with assms show ?thesis by (simp add: mgr_inv_def m_inv_def tables_ok_def)
qed

lemma mgr_inv_table: "mgr_inv I M \<Longrightarrow> i < 5 \<Longrightarrow> t_inv (kinds ! i) (g_table_array M ! i) \<and> length (g_table_array M) = 5"
  by (simp add: mgr_inv_def tables_ok_def)

lemma wp_tables_loop:
  assumes "\<And>ii ts g t M. ii < 5 \<Longrightarrow> m_inv (J ii) ts g M \<Longrightarrow> t_inv (kinds ! ii) t \<Longrightarrow>
      wp (\<lambda>(t', M'). m_inv (J (Suc ii)) ts g M' \<and> t_inv (kinds ! ii) t') (body ii t M)"
    and "mgr_inv (J ii) M" "ii + k = 5"
  shows "wp (mgr_inv (J 5)) (tables_loop body k ii M)"
  using assms(2,3)
proof (induction k arbitrary: ii M)
  case (Suc k)
  then have ii: "ii < 5" "t_inv (kinds ! ii) (g_table_array M ! ii)" "length (g_table_array M) = 5"
    using mgr_inv_table[of "J ii" M ii] by auto
  from Suc.prems(1) have m: "m_inv (J ii) (g_table_array M) (g_table M) M" "tables_ok (g_table_array M)" "g_table M < 5"
    by (auto simp: mgr_inv_def)
  have "wp (\<lambda>(t', M'). wp (mgr_inv (J 5)) (tables_loop body k (Suc ii) (put_table ii t' M'))) (body ii (g_table_array M ! ii) M)"
  proof (rule wp_weaken[OF assms(1)[OF ii(1) m(1) ii(2)]], clarify)
    fix t' M' assume "m_inv (J (Suc ii)) (g_table_array M) (g_table M) M'" "t_inv (kinds ! ii) t'"
    then have "mgr_inv (J (Suc ii)) (put_table ii t' M')" using m(2,3) by (intro mgr_inv_put)
    then show "wp (mgr_inv (J 5)) (tables_loop body k (Suc ii) (put_table ii t' M'))" using Suc.prems(2) by (intro Suc.IH) auto
  qed
  then show ?case using ii by (simp add: rd_def split_def)
qed simp

lemma wp_clear_table:
  assumes "t_inv kd t" "\<And>t'. t_inv kd t' \<Longrightarrow> Q t'"
  shows "wp Q (clear_table t)"
proof -
  have l: "length (sections t) = MAX_SECTION_NUMBER" using t_invD[OF assms(1)] by (simp add: table_wf_def)
  show ?thesis
    unfolding clear_table_def wp_simps update_loop_all[OF l]
    using assms(1) l by (intro assms(2)) (simp add: t_inv_def table_wf_def)
qed

lemma wp_release_if_active:
  assumes "m_inv I ts g M" "t_inv kd t" "\<And>t' M'. m_inv I ts g M' \<Longrightarrow> t_inv kd t' \<Longrightarrow> Q (t', M')"
  shows "wp Q (release_if_active env t M)"
  unfolding release_if_active_def using assms by (auto intro!: wp_release_filter[of I ts g _ kd])

lemma wp_rmf_si_reset_tables:
  assumes "mgr_inv I M"
  shows "wp (mgr_inv I) (rmf_si_reset_tables env M)"
proof -
  have "wp (mgr_inv I) (tables_loop (\<lambda>ii t M. do { (t, M) \<leftarrow> release_if_active env t M; t \<leftarrow> clear_table t; Some (t, M) })
      (length (g_table_array M)) 0 M)"
    using assms mgr_inv_table[OF assms, of 0]
    by (intro wp_tables_loop[of "\<lambda>_. I"]) (auto intro!: wp_release_if_active wp_clear_table)
  then show ?thesis
    unfolding rmf_si_reset_tables_def wp_simps setTablesAcquired_def setSVCTAcquired_def
    by (rule wp_weaken) (simp add: mgr_inv_def m_inv_def flags_ok_def parser_ready_iff)
qed

text \<open>The driver hands out different ids to different tables.\<close>

definition tables_ready :: "si_env \<Rightarrow> 32 word set \<Rightarrow> bool" where
  "tables_ready env I \<longleftrightarrow> (\<forall>i < 5. filter_env_ok (table_filter env i) \<and> new_ids (table_filter env i) \<inter> I = {} \<and>
     (\<forall>j < i. new_ids (table_filter env i) \<inter> new_ids (table_filter env j) = {}))"

definition ids_upto :: "si_env \<Rightarrow> 32 word set \<Rightarrow> nat \<Rightarrow> 32 word set" where
  "ids_upto env I n = I \<union> (\<Union>i < n. new_ids (table_filter env i))"

lemma ids_upto_Suc: "ids_upto env I (Suc n) = ids_upto env I n \<union> new_ids (table_filter env n)"
  by (auto simp: ids_upto_def lessThan_Suc)

lemma wp_set_filters:
  assumes "mgr_inv I M" "tables_ready env I"
  shows "wp (\<lambda>(_, M'). mgr_inv (ids_upto env I 5) M') (set_filters cfg env ev M)"
proof -
  have mono: "mgr_inv (ids_upto env I n) M" for n
    using assms(1) by (auto simp: mgr_inv_def m_inv_def ids_upto_def)
  have fresh: "filter_env_ok (table_filter env ii)" "new_ids (table_filter env ii) \<inter> ids_upto env I ii = {}" if "ii < 5" for ii
    using assms(2) that by (auto simp: tables_ready_def ids_upto_def)
  have "wp (\<lambda>M'. mgr_inv (ids_upto env I 5) M') (tables_loop (set_filters_body cfg env) (length (g_table_array M)) 0 M)"
  proof (rule wp_tables_loop)
    fix ii ts g t M assume ii: "ii < 5" and inv: "m_inv (ids_upto env I ii) ts g M" "t_inv (kinds ! ii) t"
    show "wp (\<lambda>(t', M'). m_inv (ids_upto env I (Suc ii)) ts g M' \<and> t_inv (kinds ! ii) t') (set_filters_body cfg env ii t M)"
      unfolding set_filters_body_def ids_upto_Suc
      using inv fresh[OF ii] by (auto simp: tm_simps m_inv_Un intro!: wp_activate_filter[of "ids_upto env I ii" ts g _ "kinds ! ii"])
  qed (use mono mgr_inv_table[OF assms(1), of 0] in auto)
  then show ?thesis
    unfolding set_filters_def using mono by (auto simp: tm_simps)
qed

lemma unique_id_loop_Some:
  "unique_id_loop u n ts = Some i \<Longrightarrow> n \<le> i \<and> i < n + length ts \<and> table_unique_id (ts ! (i - n)) = u"
  by (induction u n ts rule: unique_id_loop.induct) (fastforce split: if_splits simp: nth_Cons')+

text \<open>After choosing a table: the invariant, and for a section event the table whose filter it is.\<close>

lemma wp_sitp_si_get_table:
  assumes "mgr_inv I M" "tables_ready env I"
  shows "wp (\<lambda>(err, M'). mgr_inv (ids_upto env I 5) M' \<and>
      (err = RMF_SUCCESS \<longrightarrow> (\<exists>i. M' = M\<lparr>g_table := i\<rparr> \<and> i < 5 \<and> table_unique_id (g_table_array M ! i) = data)))
    (sitp_si_get_table cfg env ev data M)"
proof -
  have I: "mgr_inv (ids_upto env I 5) M" using assms(1) by (auto simp: mgr_inv_def m_inv_def ids_upto_def)
  have fail: "wp (\<lambda>(err, M'). mgr_inv (ids_upto env I 5) M' \<and> err \<noteq> RMF_SUCCESS) (set_filters cfg env e M')" if "mgr_inv I M'" for e M'
  proof (rule wp_weaken[of "\<lambda>x. (case x of (_, M') \<Rightarrow> mgr_inv (ids_upto env I 5) M') \<and> fst x \<noteq> RMF_SUCCESS"])
    show "wp (\<lambda>x. (case x of (_, M') \<Rightarrow> mgr_inv (ids_upto env I 5) M') \<and> fst x \<noteq> RMF_SUCCESS) (set_filters cfg env e M')"
      using wp_set_filters[OF that assms(2), of cfg e]
      by (auto simp: wp_def set_filters_def bind_eq_Some_conv split: if_splits)
  qed auto
  show ?thesis
  proof (cases ev)
    case (OOB_SF e)
    show ?thesis
    proof (cases "unique_id_loop data 0 (g_table_array M)")
      case None
      with I OOB_SF show ?thesis by (simp add: sitp_si_get_table_def findTableIndexByUniqueId_def tm_simps)
    next
      case (Some i)
      with unique_id_loop_Some[OF Some] mgr_inv_table[OF assms(1), of 0]
      have "i < 5" "table_unique_id (g_table_array M ! i) = data" by auto
      moreover from this have "mgr_inv (ids_upto env I 5) (M\<lparr>g_table := i\<rparr>)" using I by (simp add: mgr_inv_def m_inv_def)
      ultimately show ?thesis using I OOB_SF Some by (auto simp: sitp_si_get_table_def findTableIndexByUniqueId_def)
    qed
  next
    case OOB_VCTID_CHANGE_EVENT
    have "wp (\<lambda>M'. wp (\<lambda>(err, M'). mgr_inv (ids_upto env I 5) M' \<and> err \<noteq> RMF_SUCCESS) (set_filters cfg env ev M')) (rmf_si_reset_tables env M)"
      by (rule wp_weaken[OF wp_rmf_si_reset_tables[OF assms(1)]]) (rule fail)
    then show ?thesis using OOB_VCTID_CHANGE_EVENT by (auto simp: sitp_si_get_table_def elim!: wp_weaken)
  next
    case RMF_SF_EVENT_SOURCE_CLOSED
    have t: "t_inv (kinds ! g_table M) (g_table_array M ! g_table M)" "g_table M < length (g_table_array M)"
      using mgr_inv_table[OF assms(1), of "g_table M"] assms(1) by (auto simp: mgr_inv_def)
    from I have m: "m_inv (ids_upto env I 5) (g_table_array M) (g_table M) M" "tables_ok (g_table_array M)" "g_table M < 5"
      by (auto simp: mgr_inv_def)
    have put: "mgr_inv (ids_upto env I 5) (put_table (g_table M') (t\<lparr>table_state := st\<rparr>) M')"
      if "m_inv (ids_upto env I 5) (g_table_array M) (g_table M) M'" "t_inv (kinds ! g_table M) t" for t st M'
      using that m(2,3) by (intro mgr_inv_put[of _ "g_table_array M" "g_table M"]) (auto simp: m_inv_def tm_simps)
    show ?thesis
      unfolding sitp_si_get_table_def
      using RMF_SF_EVENT_SOURCE_CLOSED t m
      by (auto simp: wp_rd tm_simps intro!: wp_release_filter[OF m(1) t(1)] put)
  next
    case RMF_PODSRV_EVENT_RESET_PENDING
    have "wp (mgr_inv (ids_upto env I 5)) (tables_loop (\<lambda>ii t M. do { (t, M) \<leftarrow> release_if_active env t M; t \<leftarrow> clear_table t;
          Some (t\<lparr>table_unique_id := 0\<rparr>, M) }) (length (g_table_array M)) 0 M)"
      using I mgr_inv_table[OF I, of 0]
      by (intro wp_tables_loop[of "\<lambda>_. ids_upto env I 5"]) (auto simp: tm_simps intro!: wp_release_if_active wp_clear_table)
    then show ?thesis
      using RMF_PODSRV_EVENT_RESET_PENDING
      by (auto simp: sitp_si_get_table_def mgr_inv_def m_inv_def flags_ok_def elim!: wp_weaken)
  qed (use fail[OF assms(1), of ev] in \<open>auto simp: sitp_si_get_table_def elim!: wp_weaken\<close>)
qed

lemma wp_reset_current:
  assumes "mgr_inv I M"
  shows "wp (mgr_inv I) (reset_current rt M)"
proof -
  have g: "g_table M < 5" using assms by (simp add: mgr_inv_def)
  have t: "t_inv (kinds ! g_table M) (g_table_array M ! g_table M)" "g_table M < length (g_table_array M)"
    using mgr_inv_table[OF assms g] g by auto
  show ?thesis
    unfolding reset_current_def wp_simps wp_rd[OF t(2)]
  proof (rule reset.wp_op[OF t(1)])
    fix t' assume "t_inv (kinds ! g_table M) t'"
    then show "mgr_inv I (put_table (g_table M) t' M)"
      using assms by (intro mgr_inv_put[of I "g_table_array M" "g_table M"]) (auto simp: mgr_inv_def)
  qed
qed

lemma wp_await_revision:
  assumes "mgr_inv I M" "ii < 5"
  shows "wp (mgr_inv I) (await_revision cfg ii M)"
proof -
  have t: "t_inv (kinds ! ii) (g_table_array M ! ii)" "ii < length (g_table_array M)" using mgr_inv_table[OF assms] assms(2) by auto
  have "mgr_inv I (put_table ii ((g_table_array M ! ii)\<lparr>table_state := RMF_SI_STATE_WAIT_TABLE_REVISION\<rparr>) M)"
    using assms t by (intro mgr_inv_put[of I "g_table_array M" "g_table M"]) (auto simp: mgr_inv_def tm_simps)
  then show ?thesis unfolding await_revision_def wp_simps wp_rd[OF t(2)] Let_def by (simp add: tm_simps)
qed

lemma wp_table_timeout:
  assumes inv: "mgr_inv I M" and ii: "ii < 5" and env: "services_ok env"
  shows "wp (mgr_inv I) (table_timeout cfg env ii M)"
proof -
  let ?t = "g_table_array M ! ii"
  from inv have m: "m_inv I (g_table_array M) (g_table M) M" "tables_ok (g_table_array M)" "g_table M < 5"
    by (auto simp: mgr_inv_def)
  have t: "t_inv (kinds ! ii) ?t" "ii < length (g_table_array M)" using mgr_inv_table[OF inv ii] ii by auto
  have rest: "wp (\<lambda>M. wp (mgr_inv I) (await_revision cfg ii M)) (reset_current rt (put_table ii t' M'))"
    if "m_inv I (g_table_array M) (g_table M) M'" "t_inv (kinds ! ii) t'" for rt t' M'
    by (rule wp_weaken[OF wp_reset_current[OF mgr_inv_put[OF that(1) m(2,3) that(2)]]]) (rule wp_await_revision[OF _ ii])
  show ?thesis
    unfolding table_timeout_def wp_simps wp_rd[OF t(2)]
    using inv rest by (auto intro!: wp_release_filter[OF m_inv_set_tablesAcquired[OF env m(1)] t(1)])
qed

lemma wp_timeouts_loop: "mgr_inv I M \<Longrightarrow> services_ok env \<Longrightarrow> ii + k = 5 \<Longrightarrow> wp (mgr_inv I) (timeouts_loop cfg env k ii M)"
proof (induction k arbitrary: ii M)
  case (Suc k)
  have "wp (\<lambda>M'. wp (mgr_inv I) (timeouts_loop cfg env k (Suc ii) M')) (table_timeout cfg env ii M)"
    by (rule wp_weaken[OF wp_table_timeout[OF Suc.prems(1)]]) (use Suc in auto)
  then show ?case by simp
qed simp

lemma mgr_inv_UNIV: "mgr_inv I M \<Longrightarrow> mgr_inv UNIV M"
  by (simp add: mgr_inv_def m_inv_def)

lemma wp_checkForTableAcquisitionTimeouts:
  assumes "mgr_inv I M" "services_ok env"
  shows "wp (mgr_inv I) (checkForTableAcquisitionTimeouts cfg env M)"
  unfolding checkForTableAcquisitionTimeouts_def using wp_timeouts_loop[OF assms, of 0 5] mgr_inv_table[OF assms(1), of 0] by simp

text \<open>
  The state of the manager, and what the environment of a step has to offer: a driver that answers with
  fresh ids, a section that parses when there is a section, and a poll range.
\<close>

definition mgr_wf :: "rmf_OobSiMgr \<Rightarrow> bool" where
  "mgr_wf M \<longleftrightarrow> mgr_inv UNIV M"

definition worker_able :: "si_config \<Rightarrow> si_env \<Rightarrow> 32 word \<Rightarrow> rmf_OobSiMgr \<Rightarrow> bool" where
  "worker_able cfg env data M \<longleftrightarrow>
     tables_ready env (filter_ids (m_sectionRequests (sf_of M))) \<and>
     handler_ready env (filter_ids (m_sectionRequests (sf_of M))) \<and>
     (\<forall>t \<in> set (g_table_array M). table_unique_id t = data \<longrightarrow> delivered_ok env (table_id t) data M) \<and>
     g_sitp_si_update_poll_interval_max cfg \<noteq> g_sitp_si_update_poll_interval_min cfg"

lemma wp_dispatch_table:
  assumes inv: "mgr_inv I (M\<lparr>g_table := i\<rparr>)" and ready: "handler_ready env I"
    and ok: "\<forall>t \<in> set (g_table_array M). table_unique_id t = data \<longrightarrow> delivered_ok env (table_id t) data M"
    and i: "i < 5" "table_unique_id (g_table_array M ! i) = data"
  shows "wp (mgr_inv UNIV) (dispatch_table cfg env event data (M\<lparr>g_table := i\<rparr>))"
proof -
  let ?M = "M\<lparr>g_table := i\<rparr>" and ?kd = "kinds ! i"
  let ?t = "(g_table_array M ! i)\<lparr>rolling_match_counter := rolling_match_counter (g_table_array M ! i) + 1\<rparr>"
  have l: "i < length (g_table_array ?M)" and t0: "t_inv ?kd (g_table_array M ! i)" using mgr_inv_table[OF inv i(1)] i(1) by auto
  then have t: "t_inv ?kd ?t" by (simp add: tm_simps)
  from inv have m: "m_inv I (g_table_array M) i ?M" "tables_ok (g_table_array M)" by (auto simp: mgr_inv_def)
  have kd: "fst ?kd = table_id (g_table_array M ! i)" using t0 unfolding t_inv_def by (metis fst_conv)
  have "g_table_array M ! i \<in> set (g_table_array M)" using l by simp
  with ok i(2) have d: "delivered_ok env (fst ?kd) data ?M"
    unfolding kd by (auto simp: delivered_ok_def get_table_section_def split_def)
  have put: "mgr_inv UNIV (put_table (g_table M') t' M')"
    if "m_inv J (g_table_array M) i M'" "t_inv ?kd t'" for J t' M'
    using mgr_inv_put[OF that(1) m(2) i(1) that(2)] that(1) by (auto simp: mgr_inv_UNIV m_inv_def)
  have fin: "wp (handler_done env I ?kd (g_table_array M) i) r \<Longrightarrow>
      wp (\<lambda>(_, t, M). mgr_inv UNIV (put_table (g_table M) t M)) r" for r
    by (erule wp_weaken) (auto intro: put)
  have none: "mgr_inv UNIV (put_table i ?t ?M)" using put[OF m(1) t] by simp
  note revision = fin[OF revision_handler.wp_event[OF m(1) t ready d]]
  note complete = fin[OF complete_handler.wp_event[OF m(1) t ready d]]
  show ?thesis
    unfolding dispatch_table_def sitp_si_state_wait_table_complete_handler_def sitp_si_state_wait_table_revision_handler_def Let_def
    using revision complete none l
    by (cases "table_state (g_table_array M ! i)") (simp_all add: wp_rd split_def)
qed

lemma wp_worker_poll:
  assumes "mgr_inv UNIV M" "services_ok env" "g_sitp_si_update_poll_interval_max cfg \<noteq> g_sitp_si_update_poll_interval_min cfg"
  shows "wp mgr_wf (worker_poll cfg env M)"
  using wp_checkForTableAcquisitionTimeouts[OF assms(1,2), of cfg] assms
  by (auto simp: worker_poll_def mgr_wf_def poll_timeout_def Let_def tm_simps elim!: wp_weaken)

lemma wp_worker_step:
  assumes "mgr_wf M" "worker_able cfg env data M"
  shows "wp mgr_wf (worker_step cfg env event data M)"
proof -
  let ?I = "filter_ids (m_sectionRequests (sf_of M))"
  have inv: "mgr_inv ?I M" using assms(1) by (simp add: mgr_wf_def mgr_inv_def m_inv_def)
  from assms(2) have r: "tables_ready env ?I" "handler_ready env ?I"
      "\<forall>t \<in> set (g_table_array M). table_unique_id t = data \<longrightarrow> delivered_ok env (table_id t) data M"
      "g_sitp_si_update_poll_interval_max cfg \<noteq> g_sitp_si_update_poll_interval_min cfg"
    by (auto simp: worker_able_def)
  have handle: "mgr_inv ?I (M\<lparr>g_table := i\<rparr>)" if "i < 5" for i
    using inv that by (simp add: mgr_inv_def m_inv_def)
  show ?thesis
    unfolding worker_step_def wp_simps(3)
  proof (rule wp_weaken[OF wp_sitp_si_get_table[OF inv r(1), of data cfg event]], clarify)
    fix err M' assume M': "mgr_inv (ids_upto env ?I 5) M'"
      "err = RMF_SUCCESS \<longrightarrow> (\<exists>i. M' = M\<lparr>g_table := i\<rparr> \<and> i < 5 \<and> table_unique_id (g_table_array M ! i) = data)"
    have "wp (mgr_inv UNIV) (if err = RMF_SUCCESS then dispatch_table cfg env event data M' else Some M')"
      using M' wp_dispatch_table[OF handle r(2,3)] mgr_inv_UNIV by auto
    then have "wp (\<lambda>M. wp mgr_wf (worker_poll cfg env M)) (if err = RMF_SUCCESS then dispatch_table cfg env event data M' else Some M')"
      by (rule wp_weaken) (rule wp_worker_poll[OF _ _ r(4)], use r(2) in \<open>simp_all add: handler_ready_def\<close>)
    then show "wp mgr_wf (do {
        M \<leftarrow> (if err = RMF_SUCCESS then dispatch_table cfg env event data M' else Some M'); worker_poll cfg env M })" by simp
  qed
qed

end
