(* ===== verification/SiAcquisition.thy ===== *)
theory SiAcquisition
  imports SiMgrSafety
begin

text \<open>
  From a section on the wire to the cache: the manager, the section filter, the revision pass and the
  parsers together. A section that encodes a table is parsed when its CRC is new, and only then.
\<close>

section \<open>Sections that encode a table\<close>

definition stacks_ok :: "si_env \<Rightarrow> bool" where
  "stacks_ok env \<longleftrightarrow> length (id_stack env) = 1 \<and> length (revision_stack env) = 1021 \<and>
     nit_locals_ok (tl_nit (parser_locals env)) \<and> length (tl_ntt_buffer (parser_locals env)) = 1021 \<and>
     length (tl_svct_buffer (parser_locals env)) = 1021"

text \<open>The effect of the table on the parser's cache.\<close>

definition table_applied :: "si_table \<Rightarrow> rmf_OobSiParser \<Rightarrow> rmf_OobSiParser \<Rightarrow> bool" where
  "table_applied T P P' =
     (case T of
        NIT_table t \<Rightarrow> P' = P\<lparr>m_pSiCache := nit_update t (m_pSiCache P)\<rparr>
      | SVCT_table t \<Rightarrow> P' = svct_update t P
      | NTT_table t \<Rightarrow> \<exists>c. P' = P\<lparr>m_pSiCache := c\<rparr> \<and> names_wf c \<and> names_frame (m_pSiCache P) c \<and>
          name_map c = sns_names (ntt_table_language t) (ntt_names t) (name_map (m_pSiCache P)))"

lemma table_applied_sf: "table_applied T P P' \<Longrightarrow> m_pSectionFilter P' = m_pSectionFilter P"
  by (auto simp: table_applied_def svct_update_def Let_def split: si_table.splits)

text \<open>A table leaves the parser ready for the next one.\<close>

definition names_kept :: "rmf_OobSiCache \<Rightarrow> rmf_OobSiCache \<Rightarrow> bool" where
  "names_kept c c' \<longleftrightarrow> g_si_sourcename_entry c' = g_si_sourcename_entry c \<and> crctab c' = crctab c \<and> alloc_ok c' = alloc_ok c \<and>
     alloc_cnt c \<le> alloc_cnt c'"

lemma names_kept_trans: "names_kept c c' \<Longrightarrow> names_kept c' c'' \<Longrightarrow> names_kept c c''"
  by (simp add: names_kept_def)

lemma names_kept_ready: "names_kept c c' \<Longrightarrow> cache_wf c' \<Longrightarrow> cache_ready c \<Longrightarrow> cache_ready c'"
  unfolding names_kept_def cache_ready_def names_wf_def using le_trans by auto

lemma names_kept_service: "names_kept c (snd (GetServiceEntryFromChannelNumber n h c))"
  by (auto simp: names_kept_def GetServiceEntryFromChannelNumber_def memAllocP_def split: option.split)

lemma names_kept_vcm_apply: "names_kept c (vcm_apply t ch c)"
  using names_kept_service[of c "ch_number ch" RMF_SI_INVALID_HANDLE]
  by (auto simp: vcm_apply_def names_kept_def put_entry_def vcm_reserved_ids_def SetChannelMapId_def SetDACId_def gz_call_def
      split: prod.splits)

lemma vcm_apply_all_kept:
  assumes "list_all vc_ok rs" "cache_wf c"
  shows "names_kept c (vcm_apply_all t scr video rs c) \<and> cache_wf (vcm_apply_all t scr video rs c)"
  using assms
proof (induction rs arbitrary: scr video c)
  case (Cons r rs)
  let ?c = "vcm_apply t (vc_channel r scr video) c"
  have "cache_wf ?c" using Cons.prems by (intro vcm_store_eq(2) vc_number_le) simp_all
  with Cons have "names_kept ?c (vcm_apply_all t a b rs ?c) \<and> cache_wf (vcm_apply_all t a b rs ?c)" for a b by simp
  then show ?case by (simp add: Let_def) (blast intro: names_kept_trans names_kept_vcm_apply)
qed (simp add: names_kept_def)

lemma dcm_apply_all_kept:
  assumes "cache_wf c" "v + length ds \<le> 4096"
  shows "names_kept c (dcm_apply_all v ds c) \<and> cache_wf (dcm_apply_all v ds c)"
  using assms
proof (induction ds arbitrary: v c)
  case (Cons d ds)
  let ?c = "dcm_apply d (word_of_nat v) c"
  have "(word_of_nat v :: 16 word) \<le> 4095" using Cons.prems(2) by (simp add: of_nat_channel)
  then have "cache_wf ?c" by (rule dcm_apply_frame(4)[OF Cons.prems(1)])
  moreover have "names_kept c ?c"
    using names_kept_service[of c "word_of_nat v" RMF_SI_INVALID_HANDLE]
    by (simp add: dcm_apply_def names_kept_def dcm_mark_def)
  ultimately show ?case using Cons.IH[of ?c "Suc v"] Cons.prems(2) names_kept_trans by auto
qed (simp add: names_kept_def)

lemma table_applied_ready:
  assumes T: "table_ok T" and P: "parser_ready P" and app: "table_applied T P P'"
  shows "parser_ready P'"
proof -
  from P have c: "cache_ready (m_pSiCache P)" "sf_wf (m_pSectionFilter P)" by (simp_all add: parser_ready_iff)
  show ?thesis
  proof (cases T)
    case (NIT_table t)
    have "cache_wf (nit_update t (m_pSiCache P))"
      using T c(1) NIT_table
      by (auto simp: table_ok_def nit_ok_def nit_body_ok_def nit_update_def cache_ready_def cache_wf_def length_concat comp_def
          split: nit_body.splits)
    moreover have "names_kept (m_pSiCache P) (nit_update t (m_pSiCache P))"
      by (simp add: names_kept_def nit_update_def split: nit_body.split)
    ultimately show ?thesis using NIT_table app c names_kept_ready by (simp add: table_applied_def parser_ready_iff)
  next
    case (SVCT_table t)
    let ?P = "svct_vct_id (word_of_nat (svct_vct t)) P"
    have wf: "cache_wf (m_pSiCache ?P)" using c(1) by (simp add: cache_ready_def)
    have "names_kept (m_pSiCache ?P) (svct_body_update (svct_body t) (m_pSiCache ?P)) \<and>
        cache_wf (svct_body_update (svct_body t) (m_pSiCache ?P))"
    proof (cases "svct_body t")
      case (VCM m)
      with T SVCT_table wf show ?thesis
        unfolding svct_body_update_def
        by (simp add: vcm_update_def) (rule vcm_apply_all_kept, simp_all add: table_ok_def svct_ok_def svct_body_ok_def vcm_ok_def)
    next
      case (DCM m)
      with T SVCT_table wf show ?thesis
        unfolding svct_body_update_def
        by (simp add: dcm_update_def) (rule dcm_apply_all_kept, simp_all add: table_ok_def svct_ok_def svct_body_ok_def dcm_ok_def)
    qed
    moreover have "names_kept (m_pSiCache P) (m_pSiCache ?P)"
      by (simp add: names_kept_def svct_vct_id_def SetVCTId_def gz_call_def)
    ultimately show ?thesis
      using SVCT_table app c names_kept_ready names_kept_trans
      by (simp add: table_applied_def parser_ready_iff svct_update_def Let_def) blast
  next
    case (NTT_table t)
    with app c show ?thesis
      using names_frame_wf[of "m_pSiCache P"]
      by (auto simp: table_applied_def parser_ready_iff cache_ready_def) (simp_all add: names_frame_def)
  qed
qed

lemma parse_table_enc:
  assumes T: "table_ok T" and P: "parser_ready P" and env: "stacks_ok env"
    and bytes: "section_bytes (m_pSectionFilter P) h = Some (enc_table T)"
  obtains P' where "parseAndUpdateTable (parser_locals env) (table_id_of T) h out P =
      Some (RMF_SUCCESS, tail_out (table_rest T) out, P')" "table_applied T P P'"
proof (cases T)
  case (NIT_table t)
  have "parseAndUpdateNIT (tl_nit (parser_locals env)) h out P =
      Some (RMF_SUCCESS, tail_out (nit_rest t) out, P\<lparr>m_pSiCache := nit_update t (m_pSiCache P)\<rparr>)"
    by (rule parseAndUpdateNIT_enc)
      (use assms NIT_table in \<open>simp_all add: table_ok_def parser_ready_def stacks_ok_def enc_table_def\<close>)
  with NIT_table show thesis
    by (intro that) (simp_all add: parseAndUpdateTable_def table_id_of_def table_rest_def table_applied_def)
next
  case (SVCT_table t)
  have "parseAndUpdateSVCT (tl_svct_buffer (parser_locals env)) h out P =
      Some (RMF_SUCCESS, tail_out (svct_rest t) out, svct_update t P)"
    by (rule parseAndUpdateSVCT_enc)
      (use assms SVCT_table in \<open>simp_all add: table_ok_def parser_ready_def stacks_ok_def enc_table_def\<close>)
  with SVCT_table show thesis
    by (intro that) (simp_all add: parseAndUpdateTable_def table_id_of_def table_rest_def table_applied_def)
next
  case (NTT_table t)
  have r: "\<exists>c'. parseAndUpdateNTT (tl_ntt_buffer (parser_locals env)) h out P =
      Some (RMF_SUCCESS, tail_out (ntt_rest t) out, P\<lparr>m_pSiCache := c'\<rparr>) \<and>
    name_map c' = sns_names (ntt_table_language t) (ntt_names t) (name_map (m_pSiCache P)) \<and>
    names_wf c' \<and> names_frame (m_pSiCache P) c'"
    by (rule parseAndUpdateNTT_enc)
      (use assms NTT_table in \<open>simp_all add: table_ok_def parser_ready_def stacks_ok_def enc_table_def enc_ntt_def\<close>)
  from r obtain c' where c': "parseAndUpdateNTT (tl_ntt_buffer (parser_locals env)) h out P =
      Some (RMF_SUCCESS, tail_out (ntt_rest t) out, P\<lparr>m_pSiCache := c'\<rparr>)"
    "name_map c' = sns_names (ntt_table_language t) (ntt_names t) (name_map (m_pSiCache P))"
    "names_wf c'" "names_frame (m_pSiCache P) c'" by blast
  with NTT_table show thesis
    by (intro that[of "P\<lparr>m_pSiCache := c'\<rparr>"])
      (auto simp: parseAndUpdateTable_def table_id_of_def table_rest_def table_applied_def intro!: exI[of _ c'])
qed

lemma same_view_ready:
  assumes "same_view P P'"
  shows "parser_ready P' = parser_ready P" "section_bytes (m_pSectionFilter P') h = section_bytes (m_pSectionFilter P) h"
  using assms by (auto simp: same_view_def parser_ready_def sf_wf_def section_bytes_def)

text \<open>Such a section is one the manager handles, provided its section numbers are below 64.\<close>

definition tail_small :: "section_tail \<Rightarrow> bool" where
  "tail_small t = (case tail_rdd t of None \<Rightarrow> True
     | Some (v, s, l) \<Rightarrow> unat s < MAX_SECTION_NUMBER \<and> unat l < MAX_SECTION_NUMBER)"

lemma section_ok_enc:
  assumes T: "table_ok T" "revisable T" "tail_small (table_rest T)" and P: "parser_ready P" and env: "stacks_ok env"
    and bytes: "section_bytes (m_pSectionFilter P) h = Some (enc_table T)"
  shows "section_ok env (table_id_of T) h P"
proof -
  let ?out = "(if isVersioningByCRC32 (m_pSiCache P) then no_version else id)
        (revision_out (m_pSiCache P) (enc_table T) (table_rest T) no_out)"
  have rev: "get_revision_data (id_stack env) (revision_stack env) h no_out P = Some (RMF_SUCCESS, ?out, P)"
    by (rule get_revision_data_enc) (use assms in \<open>simp_all add: parser_ready_def stacks_ok_def\<close>)
  have small: "small_numbers ?out" if "out_version ?out \<noteq> NO_VERSION"
    using that T(3) by (auto simp: small_numbers_def revision_out_def tail_version_def tail_small_def no_version_def
        split: if_splits option.splits)
  have "parses env (table_id_of T) h ?out P"
    unfolding parses_def
  proof (intro allI impI)
    fix v P' assume view: "same_view P P'"
    obtain P'' where r: "parseAndUpdateTable (parser_locals env) (table_id_of T) h (?out\<lparr>out_version := v, out_crc := 0\<rparr>) P' =
        Some (RMF_SUCCESS, tail_out (table_rest T) (?out\<lparr>out_version := v, out_crc := 0\<rparr>), P'')" "table_applied T P' P''"
      by (rule parse_table_enc[OF T(1) _ env, of P' h]) (use P bytes same_view_ready[OF view] in auto)
    have "small_numbers (tail_out (table_rest T) (?out\<lparr>out_version := v, out_crc := 0\<rparr>))" if "out_version ?out \<noteq> NO_VERSION"
      using small[OF that] T(3) by (auto simp: small_numbers_def tail_out_def tail_small_def split: option.splits)
    moreover have "parser_ready P''"
      by (rule table_applied_ready[OF T(1) _ r(2)]) (use P same_view_ready(1)[OF view] in simp)
    ultimately
    show "wp (\<lambda>(err, out', P''). m_pSectionFilter P'' = m_pSectionFilter P' \<and> parser_ready P'' \<and>
          (err = RMF_SUCCESS \<longrightarrow> out_version ?out \<noteq> NO_VERSION \<longrightarrow> small_numbers out'))
        (parseAndUpdateTable (parser_locals env) (table_id_of T) h (?out\<lparr>out_version := v, out_crc := 0\<rparr>) P')"
      using r(1) table_applied_sf[OF r(2)] by simp
  qed
  with rev small P show ?thesis by (simp add: section_ok_def)
qed

section \<open>A new CRC is parsed, a known one is not\<close>

text \<open>The sections still remembered after old ones are dropped.\<close>

definition retained :: "si_config \<Rightarrow> int \<Rightarrow> rmf_si_table_t \<Rightarrow> rmf_si_table_section_t list" where
  "retained cfg current_time t =
     (if g_sitp_si_section_retention_time cfg = 0 then seen t
      else filter (\<lambda>s. current_time - last_seen_time s \<le> uint (g_sitp_si_section_retention_time cfg)) (seen t))"

lemma seen_nth: "i < unat (number_sections t) \<Longrightarrow> seen t ! i = sections t ! i"
  by (simp add: seen_def)

lemma length_seen: "table_wf t \<Longrightarrow> length (seen t) = unat (number_sections t)"
  by (simp add: seen_def table_wf_def)

lemma matchedCRC32_seen:
  assumes "table_wf t"
  shows "matchedCRC32 t crc = Some (List.find (\<lambda>i. crc_32 (seen t ! i) = crc) [0..<length (seen t)])"
proof -
  have "List.find (\<lambda>i. crc_32 (sections t ! i) = crc) [0..<n] = List.find (\<lambda>i. crc_32 (seen t ! i) = crc) [0..<n]"
    if "n \<le> unat (number_sections t)" for n
    using that by (intro find_cong) (auto simp: seen_nth)
  with assms show ?thesis
    using match_loop_run[of 0 "unat (number_sections t)" "sections t" crc]
    by (simp add: matchedCRC32_def length_seen) (simp add: table_wf_def)
qed

lemma matchedCRC32_cases:
  assumes "table_wf t"
  obtains (new) "matchedCRC32 t crc = Some None" "crc \<notin> crc_32 ` set (seen t)"
  | (known) i where "matchedCRC32 t crc = Some (Some i)" "i < length (seen t)" "crc \<in> crc_32 ` set (seen t)"
      "crc_32 (seen t ! i) = crc" "\<forall>j<i. crc_32 (seen t ! j) \<noteq> crc"
proof (cases "List.find (\<lambda>i. crc_32 (seen t ! i) = crc) [0..<length (seen t)]")
  case None
  then have "crc \<notin> crc_32 ` set (seen t)" by (auto simp: find_None_iff in_set_conv_nth)
  with None new show thesis by (simp add: matchedCRC32_seen[OF assms])
next
  case (Some i)
  then have "i < length (seen t)" "crc \<in> crc_32 ` set (seen t)" "crc_32 (seen t ! i) = crc" "\<forall>j<i. crc_32 (seen t ! j) \<noteq> crc"
    by (auto simp: find_Some_iff)
  with Some known show thesis by (simp add: matchedCRC32_seen[OF assms])
qed

lemma section_update_seen:
  assumes "table_wf t" "i < MAX_SECTION_NUMBER"
  obtains t' where "section_update i f t = Some t'" "table_wf t'" "number_sections t' = number_sections t"
    "sections t' = (sections t)[i := f (sections t ! i)]" "table_id t' = table_id t"
    "i < length (seen t) \<Longrightarrow> seen t' = (seen t)[i := f (seen t ! i)]"
proof
  let ?t = "t\<lparr>sections := (sections t)[i := f (sections t ! i)]\<rparr>"
  show "section_update i f t = Some ?t" using assms by (simp add: section_update_def table_wf_def rd_def wr_def)
  show "table_wf ?t" using assms by (simp add: table_wf_def)
  show "seen ?t = (seen t)[i := f (seen t ! i)]" if "i < length (seen t)"
    using that by (simp add: seen_def take_update_swap)
qed simp_all

text \<open>What is remembered of a section, besides the flag that it has been seen often enough.\<close>

definition mark :: "rmf_si_table_section_t \<Rightarrow> 32 word \<times> byte \<times> int" where
  "mark s = (crc_32 s, crc_section_match_count s, last_seen_time s)"

lemma marks_update: "mark (f (xs ! i)) = mark (xs ! i) \<Longrightarrow> map mark (xs[i := f (xs ! i)]) = map mark xs"
  by (cases "i < length xs") (simp_all add: map_update list_update_same_conv list_update_beyond)

lemma add_section_seen:
  assumes "table_wf t"
  obtains t' where "add_section cfg crc current_time t = Some t'" "table_wf t'"
    "map mark (seen t') = map mark (seen t) @ (if length (seen t) < MAX_SECTION_NUMBER then [(crc, 1, current_time)] else [])"
proof (cases "unat (number_sections t) = MAX_SECTION_NUMBER")
  case True
  with assms show thesis by (intro that[of t]) (simp_all add: add_section_def length_seen)
next
  case False
  let ?n = "unat (number_sections t)"
  have n: "?n < MAX_SECTION_NUMBER" using assms False by (simp add: table_wf_def)
  obtain t1 where t1: "section_update ?n (\<lambda>s. s\<lparr>crc_32 := crc, crc_section_match_count := 1, last_seen_time := current_time\<rparr>) t = Some t1"
      "table_wf t1" "number_sections t1 = number_sections t"
      "sections t1 = (sections t)[?n := (sections t ! ?n)\<lparr>crc_32 := crc, crc_section_match_count := 1, last_seen_time := current_time\<rparr>]"
    by (rule section_update_seen[OF assms n])
  obtain b where b: "checkCRCMatchCount cfg t1 ?n = Some b"
    using t1(2) n by (auto simp: checkCRCMatchCount_def table_wf_def rd_def)
  have "\<exists>t2. (if b then section_update ?n (\<lambda>s. s\<lparr>section_acquired := True\<rparr>) t1 else Some t1) = Some t2 \<and> table_wf t2 \<and>
      number_sections t2 = number_sections t \<and> map mark (sections t2) = map mark (sections t1)"
  proof (cases b)
    case True
    obtain t2 where "section_update ?n (\<lambda>s. s\<lparr>section_acquired := True\<rparr>) t1 = Some t2" "table_wf t2"
        "number_sections t2 = number_sections t1" "sections t2 = (sections t1)[?n := (sections t1 ! ?n)\<lparr>section_acquired := True\<rparr>]"
      by (rule section_update_seen[OF t1(2) n])
    with True t1(3) show ?thesis by (simp add: marks_update mark_def)
  qed (use t1 in simp)
  then obtain t2 where t2: "(if b then section_update ?n (\<lambda>s. s\<lparr>section_acquired := True\<rparr>) t1 else Some t1) = Some t2" "table_wf t2"
      "number_sections t2 = number_sections t" "map mark (sections t2) = map mark (sections t1)" by blast
  let ?t = "t2\<lparr>number_sections := number_sections t2 + 1\<rparr>"
  have un: "unat (number_sections t + 1) = ?n + 1" using n by (simp add: unat_word_ariths)
  have "map mark (seen ?t) = take (?n + 1) (map mark (sections t2))" by (simp add: seen_def take_map t2(3) un)
  also have "\<dots> = map mark (seen t) @ [(crc, 1, current_time)]"
    using n assms by (simp add: t2(4) t1(4) take_map seen_def table_wf_def take_Suc_conv_app_nth map_update mark_def)
  finally show thesis
    using t1 t2 b False n un assms
    by (intro that[of ?t]) (simp_all add: add_section_def Let_def table_wf_def length_seen)
qed

lemma seen_count_same: "same_table t t' \<Longrightarrow> section_seen_count cfg t' = section_seen_count cfg t"
  by (simp add: same_table_def section_seen_count_def)

text \<open>
  A section whose CRC is known: the section is released and nothing is parsed; the first remembered section with
  that CRC is counted once more, its time is the present one, and it is acquired when the count is the configured one.
\<close>

lemma wait_complete_known:
  assumes wf: "table_wf t" and known: "out_crc out \<in> crc_32 ` set (retained cfg (handler_time env) t)"
  obtains t' i where "wait_complete_crc_section cfg env out h t M =
      Some (Some False, fst (release_table_section h M), t', snd (release_table_section h M))"
    "table_wf t'" "i < length (retained cfg (handler_time env) t)" "crc_32 (retained cfg (handler_time env) t ! i) = out_crc out"
    "\<forall>j<i. crc_32 (retained cfg (handler_time env) t ! j) \<noteq> out_crc out"
    "seen t' = (let kept = retained cfg (handler_time env) t; s = kept ! i; n = crc_section_match_count s + 1
       in kept[i := s\<lparr>crc_section_match_count := n, last_seen_time := handler_time env,
                       section_acquired := section_acquired s \<or> ucast n = section_seen_count cfg t\<rparr>])"
proof -
  obtain t1 where t1: "purgeOldSectionMatches cfg (handler_time env) t = Some t1" "table_wf t1" "same_table t t1"
      "seen t1 = retained cfg (handler_time env) t"
    unfolding retained_def by (rule purge_old.run[OF wf])
  from t1(2) show thesis
  proof (cases rule: matchedCRC32_cases[where crc = "out_crc out"])
    case new
    with known t1(4) show thesis by simp
  next
    case (known i)
    have i: "i < MAX_SECTION_NUMBER" using known(2) t1(2) by (simp add: length_seen) (simp add: table_wf_def)
    let ?f = "\<lambda>s. s\<lparr>crc_section_match_count := crc_section_match_count s + 1, last_seen_time := handler_time env\<rparr>"
    obtain t2 where t2: "section_update i ?f t1 = Some t2" "table_wf t2" "sections t2 = (sections t1)[i := ?f (sections t1 ! i)]"
        "seen t2 = (seen t1)[i := ?f (seen t1 ! i)]"
      by (rule section_update_seen[OF t1(2) i, of ?f]) (use known(2) in auto)
    have l2: "i < length (seen t2)" using known(2) t2(4) by simp
    have same: "section_seen_count cfg t2 = section_seen_count cfg t"
      using t2(1) seen_count_same[OF t1(3), of cfg]
      by (auto simp: section_update_def section_seen_count_def bind_eq_Some_conv)
    have "i < unat (number_sections t1)" using known(2) t1(2) by (simp add: length_seen)
    then have "sections t2 ! i = ?f (seen t1 ! i)" using t2(3) i t1(2) by (simp add: seen_nth table_wf_def)
    then have b: "checkCRCMatchCount cfg t2 i = Some (ucast (crc_section_match_count (seen t1 ! i) + 1) = section_seen_count cfg t)"
      using t2(2) i same by (simp add: checkCRCMatchCount_def table_wf_def rd_def)
    obtain t3 where t3: "section_update i (\<lambda>s. s\<lparr>section_acquired := True\<rparr>) t2 = Some t3" "table_wf t3"
        "seen t3 = (seen t2)[i := (seen t2 ! i)\<lparr>section_acquired := True\<rparr>]"
      by (rule section_update_seen[OF t2(2) i, of "\<lambda>s. s\<lparr>section_acquired := True\<rparr>"]) (use l2 in auto)
    have acq: "s\<lparr>crc_section_match_count := n, last_seen_time := k, section_acquired := section_acquired s\<rparr> =
        s\<lparr>crc_section_match_count := n, last_seen_time := k\<rparr>" for s :: rmf_si_table_section_t and n k by simp
    show thesis
    proof (cases "ucast (crc_section_match_count (seen t1 ! i) + 1) = section_seen_count cfg t")
      case True
      with t1 t2 t3 b known show thesis
        by (intro that[of t3 i]) (simp_all add: wait_complete_crc_section_def Let_def split_def)
    next
      case False
      with t1 t2 b known show thesis
        by (intro that[of t2 i]) (simp_all add: wait_complete_crc_section_def Let_def split_def acq)
    qed
  qed
qed

text \<open>A section whose CRC is new: the parser runs and the CRC is remembered while there is room.\<close>

lemma wait_complete_new:
  assumes wf: "table_wf t" and new: "out_crc out \<notin> crc_32 ` set (retained cfg (handler_time env) t)"
    and parse: "parseAndUpdateTable (parser_locals env) (table_id t) h (out\<lparr>out_version := version_number t, out_crc := 0\<rparr>)
      (m_pOobSiParser M) = Some (RMF_SUCCESS, out', P')"
  obtains t' where "wait_complete_crc_section cfg env out h t M =
      Some (Some True, RMF_SUCCESS, t', snd (release_table_section h (M\<lparr>m_pOobSiParser := P'\<rparr>)))"
    "table_wf t'"
    "map mark (seen t') = map mark (retained cfg (handler_time env) t) @
       (if length (retained cfg (handler_time env) t) < MAX_SECTION_NUMBER then [(out_crc out, 1, handler_time env)] else [])"
proof -
  obtain t1 where t1: "purgeOldSectionMatches cfg (handler_time env) t = Some t1" "table_wf t1" "same_table t t1"
      "seen t1 = retained cfg (handler_time env) t"
    unfolding retained_def by (rule purge_old.run[OF wf])
  from t1(2) have m: "matchedCRC32 t1 (out_crc out) = Some None"
    by (cases rule: matchedCRC32_cases[where crc = "out_crc out"]) (use new t1(4) in auto)
  have tid: "table_id t1 = table_id t" "version_number t1 = version_number t" using t1(3) by (simp_all add: same_table_def)
  let ?t2 = "t1\<lparr>version_number := out_version out'\<rparr>"
  have t2: "table_wf ?t2" "seen ?t2 = seen t1" using t1(2) by (simp_all add: table_wf_def seen_def)
  obtain t3 where "add_section cfg (out_crc out) (handler_time env) ?t2 = Some t3" "table_wf t3"
      "map mark (seen t3) = map mark (seen ?t2) @
         (if length (seen ?t2) < MAX_SECTION_NUMBER then [(out_crc out, 1, handler_time env)] else [])"
    by (rule add_section_seen[OF t2(1)])
  with t1 m parse t2 tid show thesis
    by (intro that[of t3]) (simp_all add: wait_complete_crc_section_def parse_section_def Let_def split_def)
qed


section \<open>Runs of the manager\<close>

definition filter_env_example :: "32 word \<Rightarrow> filter_env" where
  "filter_env_example i =
     \<lparr>create_result = (\<lambda>_. (RMF_SECTFLT_Success, i)), start_result = (\<lambda>_. RMF_SECTFLT_Success), request_alloc = RMF_SUCCESS,
      new_queue = empty_queue_example, set_env = sf_env_example, set_time = 20\<rparr>"

definition si_env_example :: si_env where
  "si_env_example =
     \<lparr>section_alloc = True, section_read = None, id_stack = [0], revision_stack = replicate 1021 0,
      parser_locals = \<lparr>tl_nit = nit_stack, tl_ntt_buffer = replicate 1021 0, tl_svct_buffer = replicate 1021 0,
        tl_stt_buffer = replicate 1021 0\<rparr>,
      handler_time = 30, post_result = (\<lambda>_ _. (RMF_SUCCESS, RMF_SUCCESS)), update_services = id,
      release_env = sf_env_example, handler_filter = filter_env_example 99,
      table_filter = (\<lambda>i. filter_env_example (word_of_nat (i + 1))), timeout_time = 30, rand_value = 7\<rparr>"

text \<open>The defaults of the constructor.\<close>

definition si_config_example :: si_config where
  "si_config_example =
     \<lparr>g_sitp_si_max_nit_cds_wait_time = 60000, g_sitp_si_max_nit_mms_wait_time = 60000,
      g_sitp_si_max_svct_dcm_wait_time = 150000, g_sitp_si_max_svct_vcm_wait_time = 240000,
      g_sitp_si_max_ntt_wait_time = 150000, g_sitp_si_update_poll_interval = 1,
      g_sitp_si_update_poll_interval_max = 30000, g_sitp_si_update_poll_interval_min = 25000,
      g_sitp_si_status_update_time_interval = 15000, g_sitp_si_initial_section_match_count = 50,
      g_sitp_si_rev_sample_sections = 0, g_stip_si_process_table_revisions = 1, g_sitp_si_filter_multiplier = 2,
      g_sitp_si_section_retention_time = 150000, g_sitp_si_max_nit_section_seen_count = 2,
      g_sitp_si_max_vcm_section_seen_count = 4, g_sitp_si_max_dcm_section_seen_count = 2,
      g_sitp_si_max_ntt_section_seen_count = 3, g_siOobFilterEnable = True, inIpDirectMode = False, g_sitp_si_queue = 3\<rparr>"

definition nit_crc_example :: nit_table where
  "nit_crc_example = nit_example\<lparr>nit_rest := \<lparr>tail_rdd = None, tail_descs = [], tail_crc = 0xDEADBEEF\<rparr>\<rparr>"

lemma nit_crc_example_ok:
  "table_ok (NIT_table nit_crc_example)" "revisable (NIT_table nit_crc_example)" "length (enc_nit nit_crc_example) < 65536"
  by (simp_all add: table_ok_def revisable_def nit_crc_example_def nit_example_def nit_ok_def nit_body_ok_def cds_ok_def
      descriptor_ok_def tail_ok_def nit_uniform_def uniform_def enc_table_def enc_nit_def Let_def enc_length_def
      enc_nit_body_def enc_cds_def enc_descriptor_def enc_tail_def enc_rdd_def be32_bytes_def)

lemma si_env_example_stacks: "stacks_ok si_env_example"
  by (simp add: stacks_ok_def si_env_example_def nit_example_ok)

lemma single_section_parser_ready: "length bs < 65536 \<Longrightarrow> parser_ready (single_section_parser bs)"
  using single_section_parser_ok[of bs] single_section_tab[of bs]
  by (simp add: parser_ready_def names_wf_def) (simp add: single_section_parser_def rmf_OobSiCache_new_def)

definition mgr_example :: rmf_OobSiMgr where
  "mgr_example = siWorkerThread_init (single_section_parser (enc_nit nit_crc_example)) si_config_example
     (the (snd (createAndSetTableDataArray RMF_SUCCESS)))"


text \<open>
  What a step needs of its environment: a driver that answers, with fresh ids; memory for the section and for the queues of
  new filters, and the stack arrays of the parsers; if the driver hands over a section, one that encodes a table of the kind its filter is for, with
  section numbers below 64; a poll range; and of \<open>UpdateServiceEntries\<close>, which is a parameter, that it keeps the cache
  well-formed.
\<close>

definition section_for :: "rmf_si_table_t \<Rightarrow> rmf_Section_Data \<Rightarrow> bool" where
  "section_for t d \<longleftrightarrow> (\<exists>T. sectionData d = enc_table T \<and> table_ok T \<and> revisable T \<and> tail_small (table_rest T) \<and>
     table_id_of T = table_id t)"

definition worker_ready :: "si_config \<Rightarrow> si_env \<Rightarrow> 32 word \<Rightarrow> rmf_OobSiMgr \<Rightarrow> bool" where
  "worker_ready cfg env data M \<longleftrightarrow>
     tables_ready env (filter_ids (m_sectionRequests (sf_of M))) \<and>
     filter_env_ok (handler_filter env) \<and> new_ids (handler_filter env) \<inter> filter_ids (m_sectionRequests (sf_of M)) = {} \<and>
     section_alloc env \<and> stacks_ok env \<and>
     (\<forall>d. section_read env = Some d \<longrightarrow> length (sectionData d) = unat (sectionLength d) \<and>
        (\<forall>t \<in> set (g_table_array M). table_unique_id t = data \<longrightarrow> section_for t d)) \<and>
     (\<forall>c. cache_ready c \<longrightarrow> cache_ready (update_services env c)) \<and>
     g_sitp_si_update_poll_interval_max cfg \<noteq> g_sitp_si_update_poll_interval_min cfg"

lemma delivered_section:
  assumes P: "parser_ready (m_pOobSiParser M)" and env: "section_alloc env" "stacks_ok env" "read_ok env"
    and d: "\<And>d. section_read env = Some d \<Longrightarrow> section_for t d"
  shows "delivered_ok env (table_id t) data M"
proof -
  have "section_ok env (table_id t) h (m_pOobSiParser M')" if get: "get_table_section env data M = (RMF_SUCCESS, h, M')" for h M'
  proof -
    from get env(1) obtain d where d': "section_read env = Some d" "h = sectionID d"
        "M' = upd_sf ((sf_of M)\<lparr>m_outstandingSections := Insert True (sectionID d) d (m_outstandingSections (sf_of M))\<rparr>) M"
      by (auto simp: get_table_section_def GetSectionHandle_def split: option.splits if_splits)
    obtain T where T: "sectionData d = enc_table T" "table_ok T" "revisable T" "tail_small (table_rest T)" "table_id_of T = table_id t"
      using d[OF d'(1)] by (auto simp: section_for_def)
    have "parser_ready (m_pOobSiParser M')"
      using P env(3) d' by (auto simp: parser_ready_def sf_wf_def Insert_def read_ok_def)
    moreover have "section_bytes (sf_of M') h = Some (enc_table T)"
      using d' T(1) by (simp add: section_bytes_def Insert_def)
    ultimately show ?thesis using section_ok_enc[OF T(2-4) _ env(2)] T(5) by metis
  qed
  then show ?thesis by (auto simp: delivered_ok_def)
qed

lemma worker_ready_able:
  assumes "mgr_wf M" "worker_ready cfg env data M"
  shows "worker_able cfg env data M"
proof -
  have P: "parser_ready (m_pOobSiParser M)" using assms(1) by (simp add: mgr_wf_def mgr_inv_def m_inv_def)
  have "read_ok env" "services_ok env" using assms(2) by (auto simp: worker_ready_def read_ok_def services_ok_def)
  with assms(2) delivered_section[OF P, of env _ data] show ?thesis
    by (simp add: worker_able_def worker_ready_def handler_ready_def)
qed

text \<open>
  A run: the worker starts with fresh tables and a parser that is ready, takes steps in environments that are
  ready for them, the driver delivers sections in between, and clients register and unregister.
\<close>

inductive mgr_run :: "si_config \<Rightarrow> rmf_OobSiMgr \<Rightarrow> bool" for cfg where
  start: "createAndSetTableDataArray alloc = (RMF_SUCCESS, Some tables) \<Longrightarrow> requests_wf (m_pSectionFilter P) \<Longrightarrow>
     parser_ready P \<Longrightarrow> mgr_run cfg (siWorkerThread_init P cfg tables)"
| work: "mgr_run cfg M \<Longrightarrow> worker_ready cfg env data M \<Longrightarrow> worker_step cfg env event data M = Some M' \<Longrightarrow> mgr_run cfg M'"
| deliver: "mgr_run cfg M \<Longrightarrow> section_avail_cb env i d (sf_of M) = Some (posted, sf) \<Longrightarrow> mgr_run cfg (upd_sf sf M)"
| register: "mgr_run cfg M \<Longrightarrow> RegisterForSIEvents a env q M = (err, M') \<Longrightarrow> mgr_run cfg M'"
| unregister: "mgr_run cfg M \<Longrightarrow> UnRegisterForSIEvents q M = (err, M') \<Longrightarrow> mgr_run cfg M'"

lemma created_tables_ok: "createAndSetTableDataArray alloc = (RMF_SUCCESS, Some tables) \<Longrightarrow> tables_ok tables"
proof -
  have t: "t_inv (tid, st) (init_table tid st)" for tid st
    using init_table_wf(1)[of tid st] by (simp add: t_inv_def) (simp add: init_table_def)
  assume "createAndSetTableDataArray alloc = (RMF_SUCCESS, Some tables)"
  then show ?thesis
    by (auto simp: createAndSetTableDataArray_def tables_ok_def kinds_def t less_Suc_eq_0_disj eval_nat_numeral split: if_splits)
qed

lemma section_avail_cb_outstanding:
  "section_avail_cb env i d sf = Some (posted, sf') \<Longrightarrow> m_outstandingSections sf' = m_outstandingSections sf"
  by (auto simp: section_avail_cb_def Let_def split: option.splits if_splits prod.splits bind_splits)

lemma mgr_wf_frame: "mgr_wf M \<Longrightarrow> si_frame M M' \<Longrightarrow> cache_of M' = cache_of M \<Longrightarrow> mgr_wf M'"
  by (simp add: mgr_wf_def mgr_inv_def m_inv_def si_frame_def parser_ready_iff)

lemma mgr_run_wf: "mgr_run cfg M \<Longrightarrow> mgr_wf M"
proof (induction rule: mgr_run.induct)
  case (start alloc tables P)
  then show ?case
    by (simp add: mgr_wf_def mgr_inv_def m_inv_def siWorkerThread_init_def created_tables_ok flags_ok_def)
next
  case (work M env data event M')
  with wp_worker_step[OF work(4) worker_ready_able[OF work(4,2)], of event] show ?case by (simp add: wp_def)
next
  case (deliver M env i d posted sf)
  then have "requests_wf (sf_of M)" by (simp add: mgr_wf_def mgr_inv_def m_inv_def)
  then have "requests_wf sf" by (rule section_avail_cb_wf[of _ env i d]) (use deliver in auto)
  with deliver section_avail_cb_outstanding[OF deliver(2)] show ?case
    by (simp add: mgr_wf_def mgr_inv_def m_inv_def parser_ready_iff sf_wf_def)
next
  case (register M a env q err M')
  have reg: "si_frame M (M\<lparr>g_si_registration_list := l\<rparr>)" for l by (simp add: si_frame_def)
  from register have "si_frame M M'"
    by (auto simp: RegisterForSIEvents_def Let_def intro!: si_frame_ops(1) reg split: if_splits)
  moreover from register have "cache_of M' = cache_of M"
    by (auto simp: RegisterForSIEvents_def Let_def send_si_event_def split: if_splits)
  ultimately show ?case using register by (blast intro: mgr_wf_frame)
next
  case (unregister M q err M')
  then have "si_frame M M'" "cache_of M' = cache_of M"
    by (auto simp: UnRegisterForSIEvents_def si_frame_def split: if_splits)
  with unregister show ?case by (blast intro: mgr_wf_frame)
qed


lemma filter_env_example_ok: "filter_env_ok (filter_env_example i)" "new_ids (filter_env_example i) = {i}"
  by (auto simp: filter_env_ok_def new_ids_def filter_env_example_def empty_queue_example_def rmf_queue_new_def queue_wf_def)

lemma mgr_example_run: "mgr_run si_config_example mgr_example"
proof -
  have "requests_wf (m_pSectionFilter (single_section_parser bs))" for bs
    by (simp add: single_section_parser_def requests_wf_def)
  then show ?thesis
    unfolding mgr_example_def
    by (intro start[of RMF_SUCCESS] single_section_parser_ready nit_crc_example_ok(3)) (simp_all add: createAndSetTableDataArray_def)
qed

text \<open>
  Two steps of a run: the worker sets its five filters, and the filter of the first table delivers a section that
  encodes carrier definitions.
\<close>

declare create_loop.simps [code]

definition mgr_started :: rmf_OobSiMgr where
  "mgr_started = the (worker_step si_config_example si_env_example OOB_START_UP_EVENT 1 mgr_example)"

lemma mgr_started_state:
  "worker_step si_config_example si_env_example OOB_START_UP_EVENT 1 mgr_example = Some mgr_started"
  "map fst (m_sectionRequests (sf_of mgr_started)) = [5, 4, 3, 2, 1]"
  "map (\<lambda>t. (table_id t, table_unique_id t)) (g_table_array mgr_started) = [(0xC2, 1), (0xC2, 2), (0xC4, 3), (0xC4, 4), (0xC3, 5)]"
proof -
  let ?step = "worker_step si_config_example si_env_example OOB_START_UP_EVENT 1 mgr_example"
  have s: "map_option (\<lambda>M. (map fst (m_sectionRequests (sf_of M)), map (\<lambda>t. (table_id t, table_unique_id t)) (g_table_array M))) ?step =
      Some ([5, 4, 3, 2, 1], [(0xC2, 1), (0xC2, 2), (0xC4, 3), (0xC4, 4), (0xC3, 5)])" by code_simp
  then obtain M where M: "?step = Some M" by (cases ?step) auto
  then have "mgr_started = M" by (simp add: mgr_started_def)
  with M s show "?step = Some mgr_started"
    "map fst (m_sectionRequests (sf_of mgr_started)) = [5, 4, 3, 2, 1]"
    "map (\<lambda>t. (table_id t, table_unique_id t)) (g_table_array mgr_started) = [(0xC2, 1), (0xC2, 2), (0xC4, 3), (0xC4, 4), (0xC3, 5)]"
    by simp_all
qed

lemma numbered_filters_ready:
  assumes "\<And>i. table_filter env i = filter_env_example (word_of_nat (i + n))" "n \<le> 200" "\<forall>i < 5. word_of_nat (i + n) \<notin> I"
  shows "tables_ready env I"
proof -
  have "(word_of_nat (i + n) :: 32 word) \<noteq> word_of_nat (j + n)" if "i < 5" "j < i" for i j
  proof
    assume "(word_of_nat (i + n) :: 32 word) = word_of_nat (j + n)"
    then have "unat (word_of_nat (i + n) :: 32 word) = unat (word_of_nat (j + n) :: 32 word)" by (rule arg_cong)
    with that assms(2) show False by (simp add: unat_of_nat del: of_nat_add of_nat_Suc)
  qed
  with assms show ?thesis by (auto simp: tables_ready_def filter_env_example_ok simp del: of_nat_add of_nat_Suc)
qed

lemma mgr_started_run: "mgr_run si_config_example mgr_started"
proof (rule work[OF mgr_example_run _ mgr_started_state(1)])
  have ids: "filter_ids (m_sectionRequests (sf_of mgr_example)) = {}"
    by (simp add: mgr_example_def siWorkerThread_init_def single_section_parser_def filter_ids_def)
  have "tables_ready si_env_example {}" by (rule numbered_filters_ready[of _ 1]) (simp_all add: si_env_example_def)
  then show "worker_ready si_config_example si_env_example 1 mgr_example"
    using si_env_example_stacks
    by (simp add: worker_ready_def ids) (simp add: si_env_example_def filter_env_example_ok si_config_example_def)
qed

definition si_env_delivery :: si_env where
  "si_env_delivery = si_env_example\<lparr>section_read := Some \<lparr>sectionID = 12, sectionData = enc_nit nit_crc_example,
     sectionLength = word_of_nat (length (enc_nit nit_crc_example))\<rparr>,
     table_filter := (\<lambda>i. filter_env_example (word_of_nat (i + 101)))\<rparr>"


end
