(* ===== verification/SiMgrProperties.thy ===== *)
theory SiMgrProperties
  imports SiAcquisition
begin

text \<open>
  What the manager announces and when, and the places where its code does not do what its comments say:
  time-outs that reset another table, revisions that are not retried, section numbers that are not
  checked, filters and sections that are not released.
\<close>

section \<open>Announcing acquisition\<close>

text \<open>The flags a table contributes; a defined channels map completes a virtual channel map that waits for it.\<close>

definition table_flags :: "rmf_OobSiCache \<Rightarrow> rmf_si_table_t \<Rightarrow> 32 word" where
  "table_flags c t =
     (if table_id t = NETWORK_INFORMATION_TABLE_ID then
        (if subtype t = CARRIER_DEFINITION_SUBTABLE then CDS_ACQUIRED
         else if subtype t = MODULATION_MODE_SUBTABLE then MMS_ACQUIRED else 0)
      else if table_id t = NETWORK_TEXT_TABLE_ID then NTT_ACQUIRED
      else if table_id t = SF_VIRTUAL_CHANNEL_TABLE_ID then
        (if subtype t = DEFINED_CHANNEL_MAP then (if IsVCMComplete c then VCM_ACQUIRED else 0) OR DCM_ACQUIRED
         else if subtype t = VIRTUAL_CHANNEL_MAP then VCM_ACQUIRED else 0)
      else 0)"

lemma or_bit_absorb:
  "(w :: 32 word) AND CDS_ACQUIRED \<noteq> 0 \<Longrightarrow> w OR CDS_ACQUIRED = w" "w AND MMS_ACQUIRED \<noteq> 0 \<Longrightarrow> w OR MMS_ACQUIRED = w"
  "w AND VCM_ACQUIRED \<noteq> 0 \<Longrightarrow> w OR VCM_ACQUIRED = w" "w AND DCM_ACQUIRED \<noteq> 0 \<Longrightarrow> w OR DCM_ACQUIRED = w"
  "w AND NTT_ACQUIRED \<noteq> 0 \<Longrightarrow> w OR NTT_ACQUIRED = w"
proof -
  have bit: "w OR push_bit n 1 = w" if "w AND push_bit n 1 \<noteq> 0" for n
  proof (rule bit_word_eqI)
    fix k assume "k < LENGTH(32)"
    have "w AND push_bit n 1 = 0" if "\<not> bit w n" using that by (auto intro!: bit_word_eqI simp: bit_simps)
    with that have "bit w n" by blast
    then show "bit (w OR push_bit n 1) k = bit w k" by (auto simp: bit_simps)
  qed
  show "w AND CDS_ACQUIRED \<noteq> 0 \<Longrightarrow> w OR CDS_ACQUIRED = w" "w AND MMS_ACQUIRED \<noteq> 0 \<Longrightarrow> w OR MMS_ACQUIRED = w"
    "w AND VCM_ACQUIRED \<noteq> 0 \<Longrightarrow> w OR VCM_ACQUIRED = w" "w AND DCM_ACQUIRED \<noteq> 0 \<Longrightarrow> w OR DCM_ACQUIRED = w"
    "w AND NTT_ACQUIRED \<noteq> 0 \<Longrightarrow> w OR NTT_ACQUIRED = w"
    using bit[of 0] bit[of 1] bit[of 2] bit[of 3] bit[of 4] by (simp_all add: push_bit_eq_mult)
qed

lemma flags_notify_or_add:
  assumes "\<And>M. g_sitp_siTablesAcquired (add M) = g_sitp_siTablesAcquired M"
    and "g_sitp_siTablesAcquired M AND flag \<noteq> 0 \<Longrightarrow> g_sitp_siTablesAcquired M OR flag = g_sitp_siTablesAcquired M"
  shows "g_sitp_siTablesAcquired (notify_or_add env ty flag add M) = g_sitp_siTablesAcquired M OR flag"
proof -
  have "g_sitp_siTablesAcquired (NotifyTableChanged env ty ch N) = g_sitp_siTablesAcquired N" for ch N
    by (simp add: NotifyTableChanged_def send_si_event_def split: rmf_SiTableType.split)
  with assms show ?thesis by (simp add: notify_or_add_def or_TablesAcquired_def setTablesAcquired_def)
qed

lemma flags_mark_acquired:
  "g_sitp_siTablesAcquired (mark_acquired cfg env t M) = g_sitp_siTablesAcquired M OR table_flags (cache_of M) t"
proof -
  have upd: "g_sitp_siTablesAcquired (update_when env b N) = g_sitp_siTablesAcquired N" for b N by (simp add: update_when_def)
  have svct: "g_sitp_siTablesAcquired (or_SVCTAcquired f N) = g_sitp_siTablesAcquired N" for f N by (simp add: or_SVCTAcquired_def setSVCTAcquired_def)
  have na: "g_sitp_siTablesAcquired (notify_or_add env ty flag id N) = g_sitp_siTablesAcquired N OR flag"
      "g_sitp_siTablesAcquired (notify_or_add env ty flag (or_SVCTAcquired f) N) = g_sitp_siTablesAcquired N OR flag"
    if "flag \<in> {CDS_ACQUIRED, MMS_ACQUIRED, VCM_ACQUIRED, NTT_ACQUIRED}" for ty flag f N
    using that by (auto intro!: flags_notify_or_add or_bit_absorb simp: svct)
  have dcm: "g_sitp_siTablesAcquired (if acquired N DCM_ACQUIRED then N else or_TablesAcquired DCM_ACQUIRED (or_SVCTAcquired DCM_ACQUIRED N)) =
      g_sitp_siTablesAcquired N OR DCM_ACQUIRED" for N
    by (simp add: or_TablesAcquired_def setTablesAcquired_def or_SVCTAcquired_def setSVCTAcquired_def or_bit_absorb)
  show ?thesis
    unfolding mark_acquired_def table_flags_def Let_def by (simp add: upd na dcm or.assoc)
qed

text \<open>The state of the cache is set by \<open>announce_state\<close> only, when the services are linked without touching it.\<close>

definition keeps_state :: "(rmf_OobSiCache \<Rightarrow> rmf_OobSiCache) \<Rightarrow> bool" where
  "keeps_state f \<longleftrightarrow> (\<forall>c. g_si_state (f c) = g_si_state c)"

abbreviation fully_events :: "rmf_OobSiMgr \<Rightarrow> (32 word \<times> 32 word \<times> 32 word) list" where
  "fully_events M \<equiv> filter (\<lambda>(q, e, c). e = RMF_SI_EVENT_SI_FULLY_ACQUIRED) (si_events M)"

definition quiet :: "rmf_OobSiMgr \<Rightarrow> rmf_OobSiMgr \<Rightarrow> bool" where
  "quiet M M' \<longleftrightarrow> g_si_state (cache_of M') = g_si_state (cache_of M) \<and> fully_events M' = fully_events M \<and>
     g_si_registration_list M' = g_si_registration_list M"

lemma send_walk_events: "(q, e, c) \<in> set (send_walk post ev ch n qs) \<Longrightarrow> e = ev"
  by (induction post ev ch n qs rule: send_walk.induct) (auto split: if_splits)

lemma send_walk_all:
  "(\<And>n. post n = (RMF_SUCCESS, RMF_SUCCESS)) \<Longrightarrow> send_walk post ev ch n qs = map (\<lambda>q. (q, ev, ch)) qs"
  by (induction qs arbitrary: n) simp_all

lemma quiet_ops:
  assumes "quiet M M'"
  shows "keeps_state f \<Longrightarrow> quiet M (upd_cache f M')" "quiet M (or_TablesAcquired flag M')" "quiet M (or_SVCTAcquired flag M')"
    "ev \<noteq> RMF_SI_EVENT_SI_FULLY_ACQUIRED \<Longrightarrow> quiet M (send_si_event env ev ch M')"
    "quiet M (NotifyTableChanged env ty ch M')"
proof -
  show upd: "keeps_state f \<Longrightarrow> quiet M (upd_cache f M')" "quiet M (or_TablesAcquired flag M')" "quiet M (or_SVCTAcquired flag M')"
    using assms by (simp_all add: quiet_def keeps_state_def or_TablesAcquired_def setTablesAcquired_def or_SVCTAcquired_def setSVCTAcquired_def)
  have send: "quiet M (send_si_event env ev ch N)" if "quiet M N" "ev \<noteq> RMF_SI_EVENT_SI_FULLY_ACQUIRED" for ev ch N
    using that by (auto simp: quiet_def send_si_event_def filter_empty_conv dest: send_walk_events)
  then show "ev \<noteq> RMF_SI_EVENT_SI_FULLY_ACQUIRED \<Longrightarrow> quiet M (send_si_event env ev ch M')" using assms by blast
  have "quiet M (upd_cache SortCDSFreqList M')"
    using assms by (simp add: quiet_def SortCDSFreqList_def Let_def split_def)
  then show "quiet M (NotifyTableChanged env ty ch M')"
    unfolding NotifyTableChanged_def using assms by (auto intro!: send split: rmf_SiTableType.split)
qed

lemma quiet_mark_acquired:
  assumes "keeps_state (update_services env)"
  shows "quiet M (mark_acquired cfg env t M)"
proof -
  have refl: "quiet M M" by (simp add: quiet_def)
  have na: "quiet M (notify_or_add env ty flag id N)" "quiet M (notify_or_add env ty flag (or_SVCTAcquired f) N)"
      "quiet M (update_when env b N)" if "quiet M N" for ty flag f N b
    unfolding notify_or_add_def update_when_def using that assms by (auto intro!: quiet_ops)
  show ?thesis unfolding mark_acquired_def Let_def by (simp add: refl na quiet_ops(2,3))
qed

text \<open>
  C7. Acquisition is announced exactly when the last table arrives, and once: marking a table as acquired
  adds its flags; the state becomes fully acquired, and every registered client receives that event,
  when the five tables are then complete (four in IP direct mode); the flag \<open>SIDB_SIGNALED\<close> is set in
  that step, so that no later table announces it again.
\<close>

theorem set_tablesAcquired_announces:
  assumes "keeps_state (update_services env)" "\<forall>e n. post_result env e n = (RMF_SUCCESS, RMF_SUCCESS)"
  shows "let M' = set_tablesAcquired cfg env t M;
      flags = g_sitp_siTablesAcquired M OR table_flags (cache_of M) t;
      full = (flags = TABLES_ACQUIRED \<or> flags = NIT_SVCT_ACQUIRED \<and> inIpDirectMode cfg)
    in g_sitp_siTablesAcquired M' = (if full then flags OR SIDB_SIGNALED else flags) \<and>
      g_si_state (cache_of M') = (if full then SI_FULLY_ACQUIRED
        else if flags = NIT_SVCT_ACQUIRED then SI_NIT_SVCT_ACQUIRED else g_si_state (cache_of M)) \<and>
      fully_events M' = fully_events M @
        (if full then map (\<lambda>q. (q, RMF_SI_EVENT_SI_FULLY_ACQUIRED, 0)) (g_si_registration_list M) else [])"
proof -
  let ?N = "mark_acquired cfg env t M"
  have q: "quiet M ?N" by (rule quiet_mark_acquired[OF assms(1)])
  have state: "g_si_state (SetGlobalState st c) = st" if "st \<noteq> SI_STT_ACQUIRED" for st c
    using that by (simp add: SetGlobalState_def Let_def)
  have flags: "g_sitp_siTablesAcquired (announce_state env st N) = g_sitp_siTablesAcquired N" for st N
    by (simp add: announce_state_def send_si_event_def Let_def)
  have ann: "g_si_state (cache_of (announce_state env st N)) = st" if "st \<noteq> SI_STT_ACQUIRED" for st N
    using that by (simp add: announce_state_def send_si_event_def Let_def state)
  have post: "post_result env e n = (RMF_SUCCESS, RMF_SUCCESS)" for e n using assms(2) by simp
  have ev: "fully_events (announce_state env st N) = fully_events N @
      (if st = SI_FULLY_ACQUIRED then map (\<lambda>q. (q, RMF_SI_EVENT_SI_FULLY_ACQUIRED, 0)) (g_si_registration_list N) else [])"
    if "st \<in> {SI_FULLY_ACQUIRED, SI_NIT_SVCT_ACQUIRED}" for st N
    using that by (auto simp: announce_state_def send_si_event_def Let_def state send_walk_all[OF post] si_state_to_event_def
        filter_empty_conv)
  show ?thesis
    using q by (auto simp: Let_def set_tablesAcquired_def flags_mark_acquired quiet_def or_TablesAcquired_def setTablesAcquired_def flags ann ev)
qed

theorem set_tablesAcquired_announces_witness:
  "g_sitp_siTablesAcquired (set_tablesAcquired si_config_example si_env_example (init_table 0xC3 6)
      (mgr_example\<lparr>g_sitp_siTablesAcquired := 0xF, g_si_registration_list := [4, 5]\<rparr>)) = 0x3F \<and>
   fully_events (set_tablesAcquired si_config_example si_env_example (init_table 0xC3 6)
      (mgr_example\<lparr>g_sitp_siTablesAcquired := 0xF, g_si_registration_list := [4, 5]\<rparr>)) = [(4, 0x300A, 0), (5, 0x300A, 0)]"
proof -
  have "keeps_state (update_services si_env_example)" "\<forall>e n. post_result si_env_example e n = (RMF_SUCCESS, RMF_SUCCESS)"
    by (simp_all add: keeps_state_def si_env_example_def)
  from set_tablesAcquired_announces[OF this, of si_config_example "init_table 0xC3 6"
      "mgr_example\<lparr>g_sitp_siTablesAcquired := 0xF, g_si_registration_list := [4, 5]\<rparr>"]
  show ?thesis
    by (simp add: Let_def table_flags_def init_table_def mgr_example_def siWorkerThread_init_def)
qed


section \<open>Sections, time-outs and timers\<close>

text \<open>
  A broadcast section can make the manager leave its arrays: the section number of a revision
  detection descriptor is not compared with the 64 sections a table has room for. A well-formed table
  section with a number from 64 on, delivered while the table is being acquired, is read outside the
  section array.
\<close>

theorem rdd_section_number_overruns:
  assumes T: "table_ok T" "revisable T" "tail_rdd (table_rest T) = Some (v, s, l)" "64 \<le> unat s"
    and M: "get_table_section env data M = (RMF_SUCCESS, h, M')" "parser_ready (m_pOobSiParser M')"
      "section_bytes (sf_of M') h = Some (enc_table T)" "\<not> isVersioningByCRC32 (cache_of M')"
    and env: "stacks_ok env" and t: "table_wf t"
    and ev: "ev \<in> {RMF_SF_EVENT_SECTION_FOUND, RMF_SF_EVENT_LAST_SECTION_FOUND}"
  shows "sitp_si_state_wait_table_complete_handler cfg env (OOB_SF ev) data t M = None"
proof -
  let ?out = "revision_out (cache_of M') (enc_table T) (table_rest T) no_out"
  have rev: "get_revision_data (id_stack env) (revision_stack env) h no_out (m_pOobSiParser M') =
      Some (RMF_SUCCESS, ?out, m_pOobSiParser M')"
    using get_revision_data_enc[OF T(1,2), of "m_pOobSiParser M'" "revision_stack env" "id_stack env" h no_out] M env
    by (simp add: parser_ready_def stacks_ok_def)
  have out: "out_version ?out = v AND 0x1F" "out_section_number ?out = s"
    using T(3) by (simp_all add: revision_out_def tail_version_def)
  have "v AND 0x1F \<noteq> (NO_VERSION :: byte)"
    using word_and_le2[of v "0x1F :: byte"] word_and_le1[of v "0x1F :: byte"] by auto
  moreover have "wait_complete_rdd cfg env ev ?out h t' M' = None" if wf: "table_wf t'" for t'
  proof -
    have "rd (sections t'') (unat s) = None" if "table_wf t''" for t''
      using that T(4) by (simp add: table_wf_def rd_def)
    moreover obtain t'' where "reset_section_array (rev_type t') t' = Some t''" "table_wf t''"
      by (rule reset.run[OF wf, of "rev_type t'"])
    ultimately show ?thesis
      using wf by (auto simp: wait_complete_rdd_def out table_wf_def)
  qed
  ultimately show ?thesis
    using ev t M(1) rev out
    by (auto simp: sitp_si_state_wait_table_complete_handler_def section_event_def with_rev_type_def table_wf_def Let_def)
qed

definition nit_64_example :: nit_table where
  "nit_64_example = nit_example\<lparr>nit_rest := \<lparr>tail_rdd = Some (1, 64, 70), tail_descs = [], tail_crc = 0xDEADBEEF\<rparr>\<rparr>"

definition mgr_64_example :: rmf_OobSiMgr where
  "mgr_64_example = upd_sf \<lparr>m_sectionRequests = [(7, request_example 5 0)], m_sectionRequestsToRemove = [], m_outstandingSections = []\<rparr> mgr_example"

theorem rdd_section_number_overruns_witness:
  "sitp_si_state_wait_table_complete_handler si_config_example
     (si_env_example\<lparr>section_read := Some \<lparr>sectionID = 1, sectionData = enc_nit nit_64_example,
        sectionLength = word_of_nat (length (enc_nit nit_64_example))\<rparr>\<rparr>)
     (OOB_SF RMF_SF_EVENT_SECTION_FOUND) 7 (init_table 0xC2 1) mgr_64_example = None"
proof -
  let ?bs = "enc_nit nit_64_example"
  let ?d = "\<lparr>sectionID = 1, sectionData = ?bs, sectionLength = word_of_nat (length ?bs)\<rparr>"
  let ?env = "si_env_example\<lparr>section_read := Some ?d\<rparr>"
  let ?M' = "upd_sf \<lparr>m_sectionRequests = [(7, request_example 5 0)], m_sectionRequestsToRemove = [], m_outstandingSections = [(1, ?d)]\<rparr> mgr_example"
  have T: "table_ok (NIT_table nit_64_example)" "revisable (NIT_table nit_64_example)" "length ?bs < 65536"
    by (simp_all add: table_ok_def revisable_def nit_64_example_def nit_example_def nit_ok_def nit_body_ok_def cds_ok_def
      descriptor_ok_def tail_ok_def nit_uniform_def uniform_def enc_table_def enc_nit_def Let_def enc_length_def
      enc_nit_body_def enc_cds_def enc_descriptor_def enc_tail_def enc_rdd_def be32_bytes_def)
  have P: "m_pOobSiParser mgr_example = single_section_parser (enc_nit nit_crc_example)"
    by (simp add: mgr_example_def siWorkerThread_init_def)
  have get: "get_table_section ?env 7 mgr_64_example = (RMF_SUCCESS, 1, ?M')"
    by (simp add: get_table_section_def GetSectionHandle_def mgr_64_example_def si_env_example_def request_example_def Insert_def)
  have ready: "parser_ready (m_pOobSiParser ?M')" "section_bytes (sf_of ?M') 1 = Some ?bs"
    using single_section_parser_ready[OF nit_crc_example_ok(3)] T(3)
    by (simp_all add: parser_ready_def P sf_wf_def section_bytes_def unat_of_nat)
  have crc: "\<not> isVersioningByCRC32 (cache_of ?M')"
    by (simp add: P single_section_parser_def isVersioningByCRC32_def rmf_OobSiCache_new_def)
  have env: "stacks_ok ?env" using si_env_example_stacks by (simp add: stacks_ok_def)
  show ?thesis
    by (rule rdd_section_number_overruns[OF T(1,2) _ _ get ready(1) _ crc env init_table_wf(1), of 1 64 70])
      (use ready(2) in \<open>simp_all add: table_rest_def nit_64_example_def enc_table_def\<close>)
qed


text \<open>
  A time-out resets the wrong table: when a table other than the current one times out, its own sections
  keep their acquired marks and match counts, and those of the current table, whose acquisition is under
  way, are cleared.
\<close>

theorem timeout_resets_current_table:
  assumes M: "requests_wf (sf_of M)" "tables_ok (g_table_array M)" "g_table M < 5" "ii < 5" "ii \<noteq> g_table M" and out: "timed_out cfg (timeout_time env) (g_table_array M ! ii)"
  shows "\<exists>M'. table_timeout cfg env ii M = Some M' \<and>
    sections (g_table_array M' ! ii) = sections (g_table_array M ! ii) \<and>
    table_state (g_table_array M' ! ii) = RMF_SI_STATE_WAIT_TABLE_REVISION \<and>
    seen (g_table_array M' ! g_table M) =
      map (\<lambda>s. s\<lparr>section_acquired := False, crc_section_match_count := 0\<rparr>) (seen (g_table_array M ! g_table M))"
proof -
  let ?ts = "g_table_array M" and ?t = "g_table_array M ! ii" and ?g = "g_table M"
  let ?N = "set_tablesAcquired cfg env ?t M"
  from M have ts: "length ?ts = 5" "table_wf (?ts ! ?g)" "t_inv (kinds ! ii) ?t"
    by (auto simp: tables_ok_def t_inv_def kinds_def)
  have N: "sf_of ?N = sf_of M" "g_table_array ?N = ?ts" "g_table ?N = ?g"
    using si_frame_set_tablesAcquired[of M cfg env ?t] by (simp_all add: si_frame_def)
  have "wp (\<lambda>(err, t', M'). g_table_array M' = ?ts \<and> g_table M' = ?g) (release_filter env ?t ?N)"
    unfolding release_filter_def wp_simps by (rule wp_ReleaseFilter) (simp_all add: N M(1) Let_def)
  then obtain err t' M' where rel: "release_filter env ?t ?N = Some (err, t', M')" "g_table_array M' = ?ts" "g_table M' = ?g"
    by (auto elim!: wpE)
  have t': "sections t' = sections ?t" "rev_type t' = rev_type ?t"
    using rel(1) by (auto simp: release_filter_def Let_def split: bind_splits if_splits)
  obtain tg where tg: "reset_section_array (rev_type t') (?ts ! ?g) = Some tg"
      "seen tg = (if rev_type t' = RMF_SI_REV_TYPE_RDD then []
         else map (\<lambda>s. s\<lparr>section_acquired := False, crc_section_match_count := 0\<rparr>) (seen (?ts ! ?g)))"
    by (rule reset.run[OF ts(2), of "rev_type t'"])
  have "rev_type ?t \<noteq> RMF_SI_REV_TYPE_RDD" using out by (simp add: timed_out_def)
  then show ?thesis
    using rel t' tg ts(1) M(3,4,5) out
    by (auto simp: table_timeout_def rd_def reset_current_def await_revision_def Let_def seen_def)
qed

theorem timeout_resets_current_table_witness:
  "\<exists>M'. table_timeout si_config_example (si_env_example\<lparr>timeout_time := 100000\<rparr>) 1
      (put_table 0 ((init_table 0xC2 1)\<lparr>number_sections := 1, sections := replicate 64 (init_section\<lparr>section_acquired := True\<rparr>)\<rparr>)
        (put_table 1 ((init_table 0xC2 2)\<lparr>table_unique_id := 9\<rparr>) mgr_example)) = Some M' \<and>
    seen (g_table_array M' ! 0) = [init_section\<lparr>section_acquired := False, crc_section_match_count := 0\<rparr>]"
proof -
  let ?t0 = "(init_table 0xC2 1)\<lparr>number_sections := 1, sections := replicate 64 (init_section\<lparr>section_acquired := True\<rparr>)\<rparr>"
  let ?t1 = "(init_table 0xC2 2)\<lparr>table_unique_id := 9\<rparr>"
  let ?M1 = "put_table 1 ?t1 mgr_example" and ?M = "put_table 0 ?t0 (put_table 1 ?t1 mgr_example)"
  have t: "t_inv (kinds ! 1) ?t1" "t_inv (kinds ! 0) ?t0" by (simp_all add: t_inv_def table_wf_def kinds_def init_table_def)
  have put: "mgr_inv UNIV (put_table i x N)" if "mgr_inv UNIV N" "t_inv (kinds ! i) x" for i x N
    using that by (intro mgr_inv_put) (auto simp: mgr_inv_def)
  have wf: "mgr_wf ?M"
    using put[OF put[OF mgr_run_wf[OF mgr_example_run, unfolded mgr_wf_def] t(1)] t(2)] by (simp add: mgr_wf_def)
  then have inv: "requests_wf (sf_of ?M)" "tables_ok (g_table_array ?M)" by (auto simp: mgr_wf_def mgr_inv_def m_inv_def)
  have g: "g_table ?M = 0" "g_table_array ?M ! 0 = ?t0" "g_table_array ?M ! 1 = ?t1"
    by (simp_all add: mgr_example_def siWorkerThread_init_def createAndSetTableDataArray_def)
  have "timed_out si_config_example 100000 ?t1"
    by (simp add: timed_out_def still_waiting_def si_config_example_def init_table_def)
  moreover have "map (\<lambda>s. s\<lparr>section_acquired := False, crc_section_match_count := 0\<rparr>) (seen ?t0) =
      [init_section\<lparr>section_acquired := False, crc_section_match_count := 0\<rparr>]" by (simp add: seen_def)
  ultimately show ?thesis
    using timeout_resets_current_table[of ?M 1 si_config_example "si_env_example\<lparr>timeout_time := 100000\<rparr>", unfolded g] inv
    by fastforce
qed

text \<open>
  The poll interval is never used after acquisition: with revisions processed, the time-out chosen when a
  table is complete is in every run the short timer of 100 ms, since every value the acquisition flags can
  take passes the comparison that is to hold before the tables are acquired only.
\<close>

theorem idle_timeout_is_short:
  assumes "mgr_run cfg M" "g_stip_si_process_table_revisions cfg \<noteq> 0"
  shows "idle_timeout cfg M = SHORT_TIMER"
  using mgr_run_wf[OF assms(1)] assms(2) flags_ok_le[of "g_sitp_siTablesAcquired M"]
  by (simp add: idle_timeout_def mgr_wf_def mgr_inv_def m_inv_def)

theorem idle_timeout_is_short_witness: "idle_timeout si_config_example mgr_example = 100"
  by (rule idle_timeout_is_short[OF mgr_example_run]) (simp add: si_config_example_def)

end
