(* ===== verification/SiConfig.thy ===== *)
theory SiConfig
  imports SiAcquisition
begin

text \<open>
  The configuration of the SI manager: the part of its constructor that reads the environment, and
  \<open>sitp_si_cache_enabled\<close>, which lengthens the wait times when the cache was loaded from disk.
\<close>

section \<open>Numbers and flags in the environment\<close>

fun digits_value :: "int \<Rightarrow> string \<Rightarrow> int" where
  "digits_value n [] = n"
| "digits_value n (c # cs) =
     (let d = of_char c in if 48 \<le> d \<and> d \<le> 57 then digits_value (10 * n + d - 48) cs else n)"

text \<open>\<open>atoi\<close> of the C library; \<open>None\<close> is a value outside \<open>int\<close>, for which C leaves the result undefined.\<close>

definition atoi :: "string \<Rightarrow> int option" where
  "atoi s =
     (let s = dropWhile (\<lambda>c. c \<in> {CHR '' '', CHR 0x09, CHR 0x0A, CHR 0x0B, CHR 0x0C, CHR 0x0D}) s;
          v = (case s of
                 c # cs \<Rightarrow> if c = CHR ''-'' then - digits_value 0 cs
                           else if c = CHR ''+'' then digits_value 0 cs else digits_value 0 s
               | [] \<Rightarrow> 0)
      in if - (2 ^ 31) \<le> v \<and> v < 2 ^ 31 then Some v else None)"

definition toupper :: "char \<Rightarrow> char" where
  "toupper c = (let d = (of_char c :: nat) in if 97 \<le> d \<and> d \<le> 122 then char_of (d - 32) else c)"

definition stricmp_eq :: "string \<Rightarrow> string \<Rightarrow> bool" where
  "stricmp_eq a b \<longleftrightarrow> map toupper a = map toupper b"

type_synonym environment = "string \<Rightarrow> string option"

definition env_number :: "environment \<Rightarrow> string \<Rightarrow> 32 word \<Rightarrow> 32 word option" where
  "env_number envGet name default_value =
     (case envGet name of None \<Rightarrow> Some default_value | Some s \<Rightarrow> map_option word_of_int (atoi s))"

text \<open>A count of at least two.\<close>

definition env_count :: "environment \<Rightarrow> string \<Rightarrow> 32 word \<Rightarrow> 32 word option" where
  "env_count envGet name default_value =
     (case envGet name of None \<Rightarrow> Some default_value
      | Some s \<Rightarrow> map_option (\<lambda>v. if v < 2 then 2 else word_of_int v) (atoi s))"

definition env_is_true :: "environment \<Rightarrow> string \<Rightarrow> bool \<Rightarrow> bool" where
  "env_is_true envGet name default_value =
     (case envGet name of None \<Rightarrow> default_value | Some s \<Rightarrow> stricmp_eq s ''TRUE'')"

section \<open>The constructor\<close>

text \<open>The event queue is created later, by the worker thread.\<close>

definition rmf_OobSiMgr_config :: "environment \<Rightarrow> si_config option" where
  "rmf_OobSiMgr_config envGet =
     do { nit_cds \<leftarrow> env_number envGet ''SITP.SI.MAX.NIT.CDS.WAIT.TIME'' 60000;
          nit_mms \<leftarrow> env_number envGet ''SITP.SI.MAX.NIT.MMS.WAIT.TIME'' 60000;
          svct_dcm \<leftarrow> env_number envGet ''SITP.SI.MAX.SVCT.DCM.WAIT.TIME'' 150000;
          svct_vcm \<leftarrow> env_number envGet ''SITP.SI.MAX.SVCT.VCM.WAIT.TIME'' 240000;
          ntt \<leftarrow> env_number envGet ''SITP.SI.MAX.NTT.WAIT.TIME'' 150000;
          poll_max \<leftarrow> env_number envGet ''SITP.SI.MAX.UPDATE.POLL.INTERVAL'' 30000;
          poll_min \<leftarrow> env_number envGet ''SITP.SI.MIN.UPDATE.POLL.INTERVAL'' 25000;
          let (poll_min, poll_max) = (if poll_min > poll_max then (25000, 30000) else (poll_min, poll_max));
          status \<leftarrow> env_number envGet ''SITP.SI.STATUS.UPDATE.TIME.INTERVAL'' 15000;
          match_count \<leftarrow> env_number envGet ''SITP.SI.INITIAL.SECTION.MATCH.COUNT'' 50;
          multiplier \<leftarrow> env_number envGet ''SITP.SI.FILTER.MULTIPLIER'' 2;
          retention \<leftarrow> env_number envGet ''SITP.SI.SECTION.RETENTION.TIME'' 150000;
          nit_seen \<leftarrow> env_count envGet ''SITP.SI.MAX.NIT.SECTION.SEEN.COUNT'' 2;
          vcm_seen \<leftarrow> env_count envGet ''SITP.SI.MAX.VCM.SECTION.SEEN.COUNT'' 4;
          dcm_seen \<leftarrow> env_number envGet ''SITP.SI.MAX.DCM.SECTION.SEEN.COUNT'' 2;
          ntt_seen \<leftarrow> env_count envGet ''SITP.SI.MAX.NTT.SECTION.SEEN.COUNT'' 3;
          Some \<lparr>g_sitp_si_max_nit_cds_wait_time = nit_cds, g_sitp_si_max_nit_mms_wait_time = nit_mms,
            g_sitp_si_max_svct_dcm_wait_time = svct_dcm, g_sitp_si_max_svct_vcm_wait_time = svct_vcm,
            g_sitp_si_max_ntt_wait_time = ntt, g_sitp_si_update_poll_interval = 1,
            g_sitp_si_update_poll_interval_max = poll_max, g_sitp_si_update_poll_interval_min = poll_min,
            g_sitp_si_status_update_time_interval = status, g_sitp_si_initial_section_match_count = match_count,
            g_sitp_si_rev_sample_sections = (if env_is_true envGet ''SITP.SI.REV.SAMPLE.SECTIONS'' False then 1 else 0),
            g_stip_si_process_table_revisions = (if env_is_true envGet ''SITP.SI.PROCESS.TABLE.REVISIONS'' True then 1 else 0),
            g_sitp_si_filter_multiplier = multiplier, g_sitp_si_section_retention_time = retention,
            g_sitp_si_max_nit_section_seen_count = nit_seen, g_sitp_si_max_vcm_section_seen_count = vcm_seen,
            g_sitp_si_max_dcm_section_seen_count = dcm_seen, g_sitp_si_max_ntt_section_seen_count = ntt_seen,
            g_siOobFilterEnable = env_is_true envGet ''SITP.SI.FILTER.ENABLED'' True, inIpDirectMode = False,
            g_sitp_si_queue = 0\<rparr> }"

definition sitp_si_cache_enabled :: "si_config \<Rightarrow> si_config" where
  "sitp_si_cache_enabled cfg =
     (let cfg = cfg\<lparr>g_sitp_si_max_nit_cds_wait_time :=
                      if g_sitp_si_max_nit_cds_wait_time cfg > 60000 then g_sitp_si_max_svct_dcm_wait_time cfg else 60000\<rparr>;
          cfg = cfg\<lparr>g_sitp_si_max_nit_mms_wait_time :=
                      if g_sitp_si_max_nit_mms_wait_time cfg > 60000 then g_sitp_si_max_svct_vcm_wait_time cfg else 60000\<rparr>;
          cfg = cfg\<lparr>g_sitp_si_max_svct_dcm_wait_time :=
                      if g_sitp_si_max_svct_dcm_wait_time cfg > 1800000 then g_sitp_si_max_svct_dcm_wait_time cfg else 1800000\<rparr>;
          cfg = cfg\<lparr>g_sitp_si_max_svct_vcm_wait_time :=
                      if g_sitp_si_max_svct_vcm_wait_time cfg > 1800000 then g_sitp_si_max_svct_vcm_wait_time cfg else 1800000\<rparr>
      in cfg\<lparr>g_sitp_si_max_ntt_wait_time :=
               if g_sitp_si_max_ntt_wait_time cfg > 1800000 then g_sitp_si_max_ntt_wait_time cfg else 1800000\<rparr>)"

section \<open>What the configuration guarantees\<close>

lemma env_count_ge:
  assumes "env_count envGet name d = Some w" "2 \<le> d"
  shows "2 \<le> w"
proof -
  have "(2 :: 32 word) \<le> word_of_int v" if "2 \<le> v" "v < 2 ^ 31" for v
    using that by (simp add: word_le_def uint_word_of_int)
  with assms show ?thesis
    by (fastforce simp: env_count_def atoi_def Let_def split: option.splits if_splits)
qed

text \<open>
  C40. Whatever the environment holds, the constructor leaves an ordered pair of poll bounds and section counts
  of at least two for the NIT, the VCM and the NTT. The count for the DCM has no such bound: it is the configured
  number, whatever it is, and 2 without one. Equal poll bounds are not excluded, and exactly then the
  choice of a random poll interval divides by zero. When the cache is loaded from disk, the wait times of the
  SVCT and NTT become at least half an hour, while a NIT wait time above a minute is replaced by the wait
  time of a channel map.
\<close>

theorem configuration_bounds:
  assumes "rmf_OobSiMgr_config envGet = Some cfg"
  shows "g_sitp_si_update_poll_interval_min cfg \<le> g_sitp_si_update_poll_interval_max cfg \<and>
    2 \<le> g_sitp_si_max_nit_section_seen_count cfg \<and> 2 \<le> g_sitp_si_max_vcm_section_seen_count cfg \<and>
    2 \<le> g_sitp_si_max_ntt_section_seen_count cfg \<and>
    (case envGet ''SITP.SI.MAX.DCM.SECTION.SEEN.COUNT'' of
       None \<Rightarrow> g_sitp_si_max_dcm_section_seen_count cfg = 2
     | Some s \<Rightarrow> \<exists>v. atoi s = Some v \<and> g_sitp_si_max_dcm_section_seen_count cfg = word_of_int v) \<and>
    (poll_timeout cfg env = None \<longleftrightarrow> g_sitp_si_update_poll_interval_min cfg = g_sitp_si_update_poll_interval_max cfg) \<and>
    (let cfg' = sitp_si_cache_enabled cfg in
      1800000 \<le> g_sitp_si_max_svct_dcm_wait_time cfg' \<and> 1800000 \<le> g_sitp_si_max_svct_vcm_wait_time cfg' \<and>
      1800000 \<le> g_sitp_si_max_ntt_wait_time cfg' \<and>
      (60000 < g_sitp_si_max_nit_cds_wait_time cfg \<longrightarrow>
        g_sitp_si_max_nit_cds_wait_time cfg' = g_sitp_si_max_svct_dcm_wait_time cfg) \<and>
      (60000 < g_sitp_si_max_nit_mms_wait_time cfg \<longrightarrow>
        g_sitp_si_max_nit_mms_wait_time cfg' = g_sitp_si_max_svct_vcm_wait_time cfg))"
proof -
  have "g_sitp_si_update_poll_interval_min cfg \<le> g_sitp_si_update_poll_interval_max cfg"
    using assms by (auto simp: rmf_OobSiMgr_config_def Let_def split: bind_splits if_splits)
  moreover have "2 \<le> g_sitp_si_max_nit_section_seen_count cfg \<and> 2 \<le> g_sitp_si_max_vcm_section_seen_count cfg \<and>
      2 \<le> g_sitp_si_max_ntt_section_seen_count cfg"
    using assms by (auto simp: rmf_OobSiMgr_config_def Let_def split_def dest!: env_count_ge split: bind_splits)
  moreover have "env_number envGet ''SITP.SI.MAX.DCM.SECTION.SEEN.COUNT'' 2 = Some (g_sitp_si_max_dcm_section_seen_count cfg)"
    using assms by (auto simp: rmf_OobSiMgr_config_def Let_def split_def split: bind_splits)
  then have "case envGet ''SITP.SI.MAX.DCM.SECTION.SEEN.COUNT'' of
       None \<Rightarrow> g_sitp_si_max_dcm_section_seen_count cfg = 2
     | Some s \<Rightarrow> \<exists>v. atoi s = Some v \<and> g_sitp_si_max_dcm_section_seen_count cfg = word_of_int v"
    by (auto simp: env_number_def split: option.splits)
  moreover have "poll_timeout cfg env = None \<longleftrightarrow>
      g_sitp_si_update_poll_interval_min cfg = g_sitp_si_update_poll_interval_max cfg"
    by (auto simp: poll_timeout_def Let_def)
  ultimately show ?thesis by (auto simp: sitp_si_cache_enabled_def Let_def)
qed

text \<open>An environment that sets both poll bounds to the same value, and the count for the DCM to 0.\<close>

definition poll_env_example :: environment where
  "poll_env_example =
     [''SITP.SI.MAX.UPDATE.POLL.INTERVAL'' \<mapsto> ''30000'', ''SITP.SI.MIN.UPDATE.POLL.INTERVAL'' \<mapsto> ''30000'',
      ''SITP.SI.MAX.DCM.SECTION.SEEN.COUNT'' \<mapsto> ''0'']"

theorem configuration_bounds_witness:
  "\<exists>cfg. rmf_OobSiMgr_config poll_env_example = Some cfg \<and> poll_timeout cfg si_env_example = None \<and>
     g_sitp_si_max_dcm_section_seen_count cfg = 0"
proof -
  have "\<exists>cfg. rmf_OobSiMgr_config poll_env_example = Some cfg \<and> g_sitp_si_update_poll_interval_min cfg = 30000 \<and>
      g_sitp_si_update_poll_interval_max cfg = 30000"
    by (simp add: rmf_OobSiMgr_config_def poll_env_example_def env_number_def env_count_def atoi_def Let_def)
  then obtain cfg where c: "rmf_OobSiMgr_config poll_env_example = Some cfg" "g_sitp_si_update_poll_interval_min cfg = 30000"
      "g_sitp_si_update_poll_interval_max cfg = 30000" by blast
  have "poll_env_example ''SITP.SI.MAX.DCM.SECTION.SEEN.COUNT'' = Some ''0''" "atoi ''0'' = Some 0"
    by (simp_all add: poll_env_example_def atoi_def Let_def)
  with configuration_bounds[OF c(1), of si_env_example] c show ?thesis by simp
qed

end
