(* ===== verification/OsFile.thy ===== *)
theory OsFile
  imports Prelude
begin

text \<open>
  The files of the operating system layer (\<open>osal/src/rmf_osal_file_hd.c\<close>) as far as the SI cache uses them.
  The disk maps a path to the bytes of a file; a handle is a path and a position. What the system answers to
  the n-th call is \<open>outcome n\<close>: success, a transfer of at most that many bytes, or a failure. Buffered
  and unbuffered handles differ only in the C library call behind them. Integers are stored little endian,
  as on the target machines.
\<close>

datatype io_outcome = IO_ok | IO_short nat | IO_fail

record rmf_osal_fs =
  disk :: "string \<rightharpoonup> byte list"
  outcome :: "nat \<Rightarrow> io_outcome"
  io_calls :: nat

record rmf_osal_fileHD =
  fh_name :: string
  fh_pos :: nat

abbreviation (input) RMF_OSAL_FS_ERROR_FAILURE :: rmf_Error where "RMF_OSAL_FS_ERROR_FAILURE \<equiv> 0x301"
abbreviation (input) RMF_OSAL_FS_ERROR_ALREADY_EXISTS :: rmf_Error where "RMF_OSAL_FS_ERROR_ALREADY_EXISTS \<equiv> 0x302"
abbreviation (input) RMF_OSAL_FS_ERROR_NOT_FOUND :: rmf_Error where "RMF_OSAL_FS_ERROR_NOT_FOUND \<equiv> 0x303"
abbreviation (input) RMF_OSAL_FS_ERROR_DEVICE_FAILURE :: rmf_Error where "RMF_OSAL_FS_ERROR_DEVICE_FAILURE \<equiv> 0x305"
abbreviation (input) RMF_OSAL_FS_ERROR_INVALID_PARAMETER :: rmf_Error where "RMF_OSAL_FS_ERROR_INVALID_PARAMETER \<equiv> 0x30D"
abbreviation (input) RMF_OSAL_FS_OPEN_READ :: "32 word" where "RMF_OSAL_FS_OPEN_READ \<equiv> 0x0001"
abbreviation (input) RMF_OSAL_FS_OPEN_WRITE :: "32 word" where "RMF_OSAL_FS_OPEN_WRITE \<equiv> 0x0002"
abbreviation (input) RMF_OSAL_FS_OPEN_CAN_CREATE :: "32 word" where "RMF_OSAL_FS_OPEN_CAN_CREATE \<equiv> 0x0008"
abbreviation (input) RMF_OSAL_FS_OPEN_MUST_CREATE :: "32 word" where "RMF_OSAL_FS_OPEN_MUST_CREATE \<equiv> 0x0010"
abbreviation (input) RMF_OSAL_FS_OPEN_TRUNCATE :: "32 word" where "RMF_OSAL_FS_OPEN_TRUNCATE \<equiv> 0x0020"

abbreviation tick :: "rmf_osal_fs \<Rightarrow> rmf_osal_fs" where
  "tick fs \<equiv> fs\<lparr>io_calls := Suc (io_calls fs)\<rparr>"

abbreviation now_outcome :: "rmf_osal_fs \<Rightarrow> io_outcome" where
  "now_outcome fs \<equiv> outcome fs (io_calls fs)"

section \<open>Operations\<close>

definition rmf_osal_fileHDFileOpen ::
  "string \<Rightarrow> 32 word \<Rightarrow> rmf_osal_fs \<Rightarrow> rmf_Error \<times> rmf_osal_fileHD option \<times> rmf_osal_fs" where
  "rmf_osal_fileHDFileOpen name openMode fs =
     (let must = (openMode AND RMF_OSAL_FS_OPEN_MUST_CREATE \<noteq> 0);
          can = (openMode AND RMF_OSAL_FS_OPEN_CAN_CREATE \<noteq> 0);
          trunc = (openMode AND RMF_OSAL_FS_OPEN_TRUNCATE \<noteq> 0);
          opened = (\<lambda>c. (RMF_SUCCESS, Some \<lparr>fh_name = name, fh_pos = 0\<rparr>,
                          (tick fs)\<lparr>disk := (disk fs)(name \<mapsto> if trunc then [] else c)\<rparr>))
      in if now_outcome fs = IO_fail then (RMF_OSAL_FS_ERROR_FAILURE, None, tick fs)
         else case disk fs name of
                Some c \<Rightarrow> if must then (RMF_OSAL_FS_ERROR_ALREADY_EXISTS, None, tick fs) else opened c
              | None \<Rightarrow> if must \<or> can then opened [] else (RMF_OSAL_FS_ERROR_FAILURE, None, tick fs))"

definition rmf_osal_fileOpenBuffered ::
  "string \<Rightarrow> 32 word \<Rightarrow> rmf_osal_fs \<Rightarrow> rmf_Error \<times> rmf_osal_fileHD option \<times> rmf_osal_fs" where
  "rmf_osal_fileOpenBuffered name openMode fs = rmf_osal_fileHDFileOpen name openMode fs"

definition rmf_osal_fileHDFileClose :: "rmf_osal_fileHD option \<Rightarrow> rmf_osal_fs \<Rightarrow> rmf_Error \<times> rmf_osal_fs" where
  "rmf_osal_fileHDFileClose handle fs =
     (case handle of
        None \<Rightarrow> (RMF_OSAL_FS_ERROR_INVALID_PARAMETER, fs)
      | Some h \<Rightarrow> (if now_outcome fs = IO_fail then RMF_OSAL_FS_ERROR_FAILURE else RMF_SUCCESS, tick fs))"

text \<open>The bytes of a file from a position on; nothing when the file is gone.\<close>

definition file_rest :: "rmf_osal_fileHD \<Rightarrow> rmf_osal_fs \<Rightarrow> byte list" where
  "file_rest h fs = (case disk fs (fh_name h) of None \<Rightarrow> [] | Some c \<Rightarrow> drop (fh_pos h) c)"

text \<open>
  The result is the error, \<open>*count\<close> after the call, the bytes put into the buffer, and the handle. A failed read
  leaves \<open>*count\<close> as it was.
\<close>

definition rmf_osal_fileHDFileRead ::
  "rmf_osal_fileHD \<Rightarrow> nat \<Rightarrow> rmf_osal_fs \<Rightarrow> rmf_Error \<times> nat \<times> byte list \<times> rmf_osal_fileHD \<times> rmf_osal_fs" where
  "rmf_osal_fileHDFileRead h count fs =
     (if count = 0 then (RMF_SUCCESS, 0, [], h, fs)
      else case now_outcome fs of
             IO_fail \<Rightarrow> (RMF_OSAL_FS_ERROR_DEVICE_FAILURE, count, [], h, tick fs)
           | oc \<Rightarrow> (let bs = take (case oc of IO_short k \<Rightarrow> min k count | _ \<Rightarrow> count) (file_rest h fs)
                    in (RMF_SUCCESS, length bs, bs, h\<lparr>fh_pos := fh_pos h + length bs\<rparr>, tick fs)))"

definition rmf_osal_fileHDFileWrite ::
  "rmf_osal_fileHD \<Rightarrow> byte list \<Rightarrow> rmf_osal_fs \<Rightarrow> rmf_Error \<times> nat \<times> rmf_osal_fileHD \<times> rmf_osal_fs" where
  "rmf_osal_fileHDFileWrite h buffer fs =
     (if buffer = [] then (RMF_SUCCESS, 0, h, fs)
      else case now_outcome fs of
             IO_fail \<Rightarrow> (RMF_OSAL_FS_ERROR_DEVICE_FAILURE, 0, h, tick fs)
           | oc \<Rightarrow> (let bs = (case oc of IO_short k \<Rightarrow> take k buffer | _ \<Rightarrow> buffer);
                        c = (case disk fs (fh_name h) of None \<Rightarrow> [] | Some c \<Rightarrow> c);
                        p = fh_pos h
                    in (RMF_SUCCESS, length bs, h\<lparr>fh_pos := p + length bs\<rparr>,
                        (tick fs)\<lparr>disk := (disk fs)(fh_name h \<mapsto> take p c @ bs @ drop (p + length bs) c)\<rparr>)))"

definition rmf_osal_fileHDFileDelete :: "string \<Rightarrow> rmf_osal_fs \<Rightarrow> rmf_Error \<times> rmf_osal_fs" where
  "rmf_osal_fileHDFileDelete name fs =
     (if now_outcome fs = IO_fail \<or> disk fs name = None then (RMF_OSAL_FS_ERROR_FAILURE, tick fs)
      else (RMF_SUCCESS, (tick fs)\<lparr>disk := (disk fs)(name := None)\<rparr>))"

definition rmf_osal_fileHDFileRename :: "string \<Rightarrow> string \<Rightarrow> rmf_osal_fs \<Rightarrow> rmf_Error \<times> rmf_osal_fs" where
  "rmf_osal_fileHDFileRename oldName newName fs =
     (if now_outcome fs = IO_fail then (RMF_OSAL_FS_ERROR_DEVICE_FAILURE, tick fs)
      else case disk fs oldName of
             None \<Rightarrow> (RMF_OSAL_FS_ERROR_NOT_FOUND, tick fs)
           | Some c \<Rightarrow> (RMF_SUCCESS, (tick fs)\<lparr>disk := (disk fs)(oldName := None, newName \<mapsto> c)\<rparr>))"

section \<open>Little endian integers\<close>

definition le16 :: "16 word \<Rightarrow> byte list" where
  "le16 w = [ucast w, ucast (drop_bit 8 w)]"

definition le32 :: "32 word \<Rightarrow> byte list" where
  "le32 w = [ucast w, ucast (drop_bit 8 w), ucast (drop_bit 16 w), ucast (drop_bit 24 w)]"

definition le64 :: "64 word \<Rightarrow> byte list" where
  "le64 w = le32 (ucast w) @ le32 (ucast (drop_bit 32 w))"

text \<open>The inverses, on a buffer that was zero before the read.\<close>

fun of_le :: "byte list \<Rightarrow> 'a :: len word" where
  "of_le [] = 0"
| "of_le (b # bs) = ucast b OR push_bit 8 (of_le bs)"

lemma length_le [simp]: "length (le16 w) = 2" "length (le32 v) = 4" "length (le64 u) = 8"
  by (simp_all add: le16_def le32_def le64_def)

lemma of_le_le16 [simp]: "of_le (le16 w) = w"
proof (rule bit_word_eqI)
  fix n assume "n < LENGTH(16)"
  then show "bit (of_le (le16 w) :: 16 word) n = bit w n"
    by (auto simp: le16_def bit_simps)
qed

lemma of_le_le32 [simp]: "of_le (le32 w) = w"
proof (rule bit_word_eqI)
  fix n assume "n < LENGTH(32)"
  moreover have "n < 8 \<or> (8 \<le> n \<and> n < 16) \<or> (16 \<le> n \<and> n < 24) \<or> 24 \<le> n" by linarith
  ultimately show "bit (of_le (le32 w) :: 32 word) n = bit w n"
    by (auto simp: le32_def bit_simps)
qed

lemma of_le_append: "length bs = 4 \<Longrightarrow> (of_le (bs @ cs) :: 64 word) = of_le bs OR push_bit 32 (of_le cs)"
  by (auto simp: length_Suc_conv eval_nat_numeral push_bit_or push_bit_push_bit or.assoc)

lemma of_le_le32_64: "(of_le (le32 w) :: 64 word) = ucast w"
proof (rule bit_word_eqI)
  fix n assume "n < LENGTH(64)"
  moreover have "n < 8 \<or> (8 \<le> n \<and> n < 16) \<or> (16 \<le> n \<and> n < 24) \<or> 24 \<le> n" by linarith
  ultimately show "bit (of_le (le32 w) :: 64 word) n = bit (ucast w :: 64 word) n"
    by (auto simp: le32_def bit_simps dest: bit_imp_le_length)
qed

lemma of_le_le64 [simp]: "of_le (le64 w) = w"
proof -
  have "(of_le (le64 w) :: 64 word) = ucast (ucast w :: 32 word) OR push_bit 32 (ucast (ucast (drop_bit 32 w) :: 32 word))"
    by (simp add: le64_def of_le_append of_le_le32_64)
  also have "\<dots> = w"
    by (rule bit_word_eqI) (auto simp: bit_simps)
  finally show ?thesis .
qed

section \<open>Reading and writing a healthy disk\<close>

definition healthy :: "rmf_osal_fs \<Rightarrow> bool" where
  "healthy fs \<longleftrightarrow> (\<forall>n. outcome fs n = IO_ok)"

lemma healthy_upd [simp]: "healthy (fs\<lparr>io_calls := n\<rparr>) = healthy fs" "healthy (fs\<lparr>disk := d\<rparr>) = healthy fs"
  by (simp_all add: healthy_def)

text \<open>
  \<open>reading n d rest h fs\<close>: the handle is on file \<open>n\<close> of the disk \<open>d\<close>, and \<open>rest\<close> is still to be read.
  \<open>writing n d bs h fs\<close>: the file \<open>n\<close> of the disk \<open>d\<close> was replaced by \<open>bs\<close>, and the handle stands at its end.
\<close>

definition reading :: "string \<Rightarrow> (string \<rightharpoonup> byte list) \<Rightarrow> byte list \<Rightarrow> rmf_osal_fileHD \<Rightarrow> rmf_osal_fs \<Rightarrow> bool" where
  "reading n d rest h fs \<longleftrightarrow> healthy fs \<and> disk fs = d \<and> fh_name h = n \<and> (\<exists>c. d n = Some c \<and> drop (fh_pos h) c = rest)"

definition writing :: "string \<Rightarrow> (string \<rightharpoonup> byte list) \<Rightarrow> byte list \<Rightarrow> rmf_osal_fileHD \<Rightarrow> rmf_osal_fs \<Rightarrow> bool" where
  "writing n d bs h fs \<longleftrightarrow> healthy fs \<and> disk fs = d(n \<mapsto> bs) \<and> h = \<lparr>fh_name = n, fh_pos = length bs\<rparr>"

lemma fileRead_step:
  assumes "reading n d rest h fs"
  obtains h' fs' where "rmf_osal_fileHDFileRead h k fs = (RMF_SUCCESS, length (take k rest), take k rest, h', fs')"
    "reading n d (drop k rest) h' fs'"
proof (cases "k = 0")
  case True
  with assms that[of h fs] show ?thesis by (simp add: rmf_osal_fileHDFileRead_def)
next
  case False
  obtain c where c: "d n = Some c" "rest = drop (fh_pos h) c"
    using assms by (auto simp: reading_def)
  have "drop (fh_pos h + length (take k rest)) c = drop k rest"
    using c(2) by (cases "k \<le> length rest") (auto simp: add.commute)
  with False assms c show ?thesis
    by (intro that[of "h\<lparr>fh_pos := fh_pos h + length (take k rest)\<rparr>" "tick fs"])
      (auto simp: rmf_osal_fileHDFileRead_def reading_def healthy_def file_rest_def)
qed

lemma fileRead_append:
  assumes "reading n d (xs @ rest) h fs"
  obtains h' fs' where "rmf_osal_fileHDFileRead h (length xs) fs = (RMF_SUCCESS, length xs, xs, h', fs')" "reading n d rest h' fs'"
  by (rule fileRead_step[OF assms, of "length xs"]) (use that in auto)

lemma fileWrite_step:
  assumes "writing n d bs h fs"
  obtains h' fs' where "rmf_osal_fileHDFileWrite h xs fs = (RMF_SUCCESS, length xs, h', fs')" "writing n d (bs @ xs) h' fs'"
proof (cases "xs = []")
  case True
  with assms that[of h fs] show ?thesis by (simp add: rmf_osal_fileHDFileWrite_def)
next
  case False
  with assms show ?thesis
    by (intro that[of "h\<lparr>fh_pos := fh_pos h + length xs\<rparr>" "(tick fs)\<lparr>disk := d(n \<mapsto> bs @ xs)\<rparr>"])
      (auto simp: rmf_osal_fileHDFileWrite_def writing_def healthy_def)
qed

lemma open_for_writing:
  assumes "healthy fs" "disk fs n = None"
  obtains h fs' where "rmf_osal_fileOpenBuffered n (RMF_OSAL_FS_OPEN_WRITE OR RMF_OSAL_FS_OPEN_MUST_CREATE) fs = (RMF_SUCCESS, Some h, fs')"
    "writing n (disk fs) [] h fs'"
  using assms that[of "\<lparr>fh_name = n, fh_pos = 0\<rparr>" "(tick fs)\<lparr>disk := (disk fs)(n \<mapsto> [])\<rparr>"]
  by (simp add: rmf_osal_fileOpenBuffered_def rmf_osal_fileHDFileOpen_def writing_def healthy_def)

lemma open_for_reading:
  assumes "healthy fs" "disk fs n = Some c"
  obtains h fs' where "rmf_osal_fileHDFileOpen n RMF_OSAL_FS_OPEN_READ fs = (RMF_SUCCESS, Some h, fs')"
    "reading n (disk fs) c h fs'"
proof -
  have "(disk fs)(n \<mapsto> c) = disk fs" using assms(2) by auto
  with assms that[of "\<lparr>fh_name = n, fh_pos = 0\<rparr>" "tick fs"] show ?thesis
    by (simp add: rmf_osal_fileHDFileOpen_def reading_def healthy_def)
qed

lemma delete_file:
  assumes "healthy fs"
  obtains e fs' where "rmf_osal_fileHDFileDelete n fs = (e, fs')" "healthy fs'" "disk fs' = (disk fs)(n := None)"
proof (cases "disk fs n")
  case None
  then have "(disk fs)(n := None) = disk fs" by auto
  with assms None that[of RMF_OSAL_FS_ERROR_FAILURE "tick fs"] show ?thesis by (simp add: rmf_osal_fileHDFileDelete_def)
next
  case (Some c)
  with assms that show ?thesis by (simp add: rmf_osal_fileHDFileDelete_def healthy_def)
qed

lemma close_file:
  assumes "healthy fs"
  obtains fs' where "rmf_osal_fileHDFileClose (Some h) fs = (RMF_SUCCESS, fs')" "healthy fs'" "disk fs' = disk fs"
  using assms that[of "tick fs"] by (simp add: rmf_osal_fileHDFileClose_def healthy_def)

end
