(* ===== verification/SnsStore.thy ===== *)
theory SnsStore
  imports OsFile NttParser
begin

text \<open>
  The source names on disk: \<open>cache_sns_entries\<close> writes the mapped source name entries of the cache,
  \<open>load_sns_entries\<close> reads them back at the next start. An entry is dumped as the bytes of its struct, the two
  list pointers replaced by the lengths of the lists, followed by the nodes of the lists.
\<close>

section \<open>Name strings\<close>

text \<open>\<open>char language[4]\<close>, filled by \<open>strncpy\<close>.\<close>

definition lang_bytes :: "cstring \<Rightarrow> byte list" where
  "lang_bytes language = take 4 (language @ replicate 4 0)"

type_synonym name_list = "(cstring \<times> cstring option) list"

text \<open>The loop goes on after an error, and the next write overwrites it.\<close>

fun write_name_string ::
  "rmf_osal_fileHD \<Rightarrow> name_list \<Rightarrow> rmf_Error \<Rightarrow> rmf_osal_fs \<Rightarrow> rmf_Error \<times> rmf_osal_fileHD \<times> rmf_osal_fs" where
  "write_name_string cache_fd [] err fs = (err, cache_fd, fs)"
| "write_name_string cache_fd ((language, string) # name_walker) err fs =
     (let name_len = 4 + (case string of None \<Rightarrow> 0 | Some s \<Rightarrow> length s + 4);
          (err, count, cache_fd, fs) = rmf_osal_fileHDFileWrite cache_fd (le32 (word_of_nat name_len)) fs;
          (err, cache_fd, fs) =
            (if count = 4 then
               let (err, count, cache_fd, fs) = rmf_osal_fileHDFileWrite cache_fd (lang_bytes language) fs
               in if count = 4 then
                    case string of
                      None \<Rightarrow> (err, cache_fd, fs)
                    | Some s \<Rightarrow>
                        let (err, count, cache_fd, fs) = rmf_osal_fileHDFileWrite cache_fd (le32 (word_of_nat (length s))) fs
                        in if count = 4 then
                             if length s > 0 then
                               let (err, count, cache_fd, fs) = rmf_osal_fileHDFileWrite cache_fd s fs
                               in (if count \<noteq> length s then RMF_SI_INVALID_PARAMETER else err, cache_fd, fs)
                             else (err, cache_fd, fs)
                           else (RMF_SI_INVALID_PARAMETER, cache_fd, fs)
                  else (RMF_SI_INVALID_PARAMETER, cache_fd, fs)
             else (RMF_SI_INVALID_PARAMETER, cache_fd, fs))
      in write_name_string cache_fd name_walker err fs)"

abbreviation (input) NAME_COUNT_MAX :: nat where "NAME_COUNT_MAX \<equiv> 32768"

text \<open>
  The node is zeroed before the call. The result of the second allocation is not looked at: \<open>memset\<close> follows at once.
\<close>

definition read_name_string ::
  "rmf_osal_fileHD \<Rightarrow> 32 word \<Rightarrow> int \<Rightarrow> rmf_osal_fs \<Rightarrow> rmf_OobSiCache \<Rightarrow>
   (rmf_Error \<times> (cstring \<times> cstring option) \<times> 32 word \<times> rmf_osal_fileHD \<times> rmf_osal_fs \<times> rmf_OobSiCache) option" where
  "read_name_string cache_fd read_count total_bytes fs c =
     (case rmf_osal_fileHDFileRead cache_fd 4 fs of (ret, count, language, cache_fd, fs) \<Rightarrow>
      if ret = RMF_SUCCESS \<and> count = 4 then
        let read_count = read_count + word_of_nat count; total_bytes = total_bytes - int count
        in if total_bytes > 0 then
             case rmf_osal_fileHDFileRead cache_fd 4 fs of (ret, count, buf, cache_fd, fs) \<Rightarrow>
             let size = min (unat (of_le buf :: 32 word)) NAME_COUNT_MAX
             in if ret = RMF_SUCCESS \<and> count = 4 then
                  case memAllocP c of
                    (None, _) \<Rightarrow> None
                  | (Some _, c) \<Rightarrow>
                      case rmf_osal_fileHDFileRead cache_fd size fs of (ret, count', string, cache_fd, fs) \<Rightarrow>
                      Some (ret, (c_string language, Some (c_string string)),
                            read_count + word_of_nat count + word_of_nat count', cache_fd, fs, c)
                else Some (ret, (c_string language, None), read_count, cache_fd, fs, c)
           else Some (ret, (c_string language, None), read_count, cache_fd, fs, c)
      else Some (ret, (c_string language, None), read_count, cache_fd, fs, c))"

text \<open>The loop over the nodes of one list, which are linked in at the front.\<close>

fun read_names_loop ::
  "nat \<Rightarrow> name_list \<Rightarrow> rmf_osal_fileHD \<Rightarrow> 32 word \<Rightarrow> rmf_osal_fs \<Rightarrow> rmf_OobSiCache \<Rightarrow>
   (name_list \<times> rmf_osal_fileHD \<times> 32 word \<times> rmf_osal_fs \<times> rmf_OobSiCache) option" where
  "read_names_loop 0 names cache_fd read_count fs c = Some (names, cache_fd, read_count, fs, c)"
| "read_names_loop (Suc n) names cache_fd read_count fs c =
     (case rmf_osal_fileHDFileRead cache_fd 4 fs of (ret, count, buf, cache_fd, fs) \<Rightarrow>
      let read_count = read_count + word_of_nat count
      in case memAllocP c of
           (None, c) \<Rightarrow> read_names_loop n names cache_fd read_count fs c
         | (Some _, c) \<Rightarrow>
             let name_len = (of_le buf :: 32 word)
             in do { (ret, node, read_count, cache_fd, fs, c) \<leftarrow>
                       read_name_string cache_fd read_count (sint name_len) fs c;
                     let names = (if ret \<noteq> RMF_SUCCESS \<and> read_count \<noteq> name_len then names else node # names);
                     read_names_loop n names cache_fd read_count fs c })"

section \<open>Entries\<close>

text \<open>The struct as it is dumped: 64 bit pointers, the fields at their natural alignment.\<close>

record sn_image =
  im_appType :: "32 word"
  im_id :: "32 word"
  im_mapped :: "32 word"
  im_source_names :: "64 word"
  im_source_long_names :: "64 word"
  im_next :: "64 word"

abbreviation (input) sizeof_sn :: nat where "sizeof_sn \<equiv> 40"

definition sn_bytes :: "sn_image \<Rightarrow> byte list" where
  "sn_bytes im = le32 (im_appType im) @ le32 (im_id im) @ le32 (im_mapped im) @ [0, 0, 0, 0] @
     le64 (im_source_names im) @ le64 (im_source_long_names im) @ le64 (im_next im)"

definition sn_of_bytes :: "byte list \<Rightarrow> sn_image" where
  "sn_of_bytes bs = \<lparr>im_appType = of_le (take 4 bs), im_id = of_le (take 4 (drop 4 bs)), im_mapped = of_le (take 4 (drop 8 bs)),
     im_source_names = of_le (take 8 (drop 16 bs)), im_source_long_names = of_le (take 8 (drop 24 bs)),
     im_next = of_le (take 8 (drop 32 bs))\<rparr>"

text \<open>\<open>uint8_t name_count\<close>: the length of a list as it is written.\<close>

definition name_count8 :: "name_list \<Rightarrow> 64 word" where
  "name_count8 names = ucast (word_of_nat (length names) :: byte)"

definition sn_image_of :: "rmf_siSourceNameEntry \<Rightarrow> nat \<Rightarrow> sn_image" where
  "sn_image_of e next = \<lparr>im_appType = of_bool (appType e), im_id = sn_id e, im_mapped = of_bool (sn_mapped e),
     im_source_names = name_count8 (source_names e), im_source_long_names = name_count8 (source_long_names e),
     im_next = word_of_nat next\<rparr>"

fun sn_next :: "(nat \<times> rmf_siSourceNameEntry) list \<Rightarrow> nat" where
  "sn_next [] = 0"
| "sn_next ((a, e) # rest) = a"

fun cache_sns_loop ::
  "rmf_osal_fileHD \<Rightarrow> (nat \<times> rmf_siSourceNameEntry) list \<Rightarrow> rmf_Error \<Rightarrow> rmf_osal_fs \<Rightarrow> rmf_Error \<times> rmf_osal_fileHD \<times> rmf_osal_fs" where
  "cache_sns_loop cache_fd [] err fs = (err, cache_fd, fs)"
| "cache_sns_loop cache_fd ((a, e) # sn_walker) err fs =
     (if err \<noteq> RMF_SUCCESS then (err, cache_fd, fs)
      else if \<not> sn_mapped e then cache_sns_loop cache_fd sn_walker err fs
      else let (err, count, cache_fd, fs) =
                 rmf_osal_fileHDFileWrite cache_fd (sn_bytes (sn_image_of e (sn_next sn_walker))) fs
           in if count = sizeof_sn then
                let (err, cache_fd, fs) = write_name_string cache_fd (source_names e) RMF_SUCCESS fs;
                    (err, cache_fd, fs) = write_name_string cache_fd (source_long_names e) RMF_SUCCESS fs
                in cache_sns_loop cache_fd sn_walker err fs
              else (RMF_SI_INVALID_PARAMETER, cache_fd, fs))"

definition cache_sns_entries :: "string \<Rightarrow> rmf_OobSiCache \<Rightarrow> rmf_osal_fs \<Rightarrow> rmf_Error \<times> rmf_osal_fs" where
  "cache_sns_entries siOOBSNSCacheLocation c fs =
     (let (_, fs) = rmf_osal_fileHDFileDelete siOOBSNSCacheLocation fs
      in case rmf_osal_fileOpenBuffered siOOBSNSCacheLocation (RMF_OSAL_FS_OPEN_WRITE OR RMF_OSAL_FS_OPEN_MUST_CREATE) fs of
           (err, Some cache_fd, fs) \<Rightarrow>
             let (err, cache_fd, fs) = cache_sns_loop cache_fd (g_si_sourcename_entry c) RMF_SUCCESS fs;
                 (_, fs) = rmf_osal_fileHDFileClose (Some cache_fd) fs
             in (err, fs)
         | (err, None, fs) \<Rightarrow> (RMF_SI_INVALID_PARAMETER, fs))"

text \<open>A list length read from the file: negative is none, and at most \<open>NAME_COUNT_MAX\<close>.\<close>

definition clamp_count :: "64 word \<Rightarrow> nat" where
  "clamp_count w = (if sint w < 0 then 0 else min (nat (sint w)) NAME_COUNT_MAX)"

text \<open>
  The loop ends at the first short read. \<open>new_sn_entry\<close> keeps its value when the id is refused. The flag
  \<open>appType\<close> of the file is 0 or 1.
\<close>

partial_function (option) load_sns_loop ::
  "rmf_osal_fileHD \<Rightarrow> 32 word \<Rightarrow> nat option \<Rightarrow> rmf_osal_fs \<Rightarrow> rmf_OobSiCache \<Rightarrow>
   (rmf_osal_fileHD \<times> rmf_osal_fs \<times> rmf_OobSiCache) option" where
  "load_sns_loop cache_fd read_count new_sn_entry fs c =
     (case rmf_osal_fileHDFileRead cache_fd sizeof_sn fs of (ret, count, bs, cache_fd, fs) \<Rightarrow>
      if ret = RMF_SUCCESS \<and> count = sizeof_sn then
        do { let im = sn_of_bytes bs;
             let read_count = read_count + word_of_nat count;
             (names, cache_fd, read_count, fs, c) \<leftarrow>
               read_names_loop (clamp_count (im_source_names im)) [] cache_fd read_count fs c;
             (long_names, cache_fd, read_count, fs, c) \<leftarrow>
               read_names_loop (clamp_count (im_source_long_names im)) [] cache_fd read_count fs c;
             let (_, entry, c) = GetSourceNameEntry (im_id im) (im_appType im \<noteq> 0) True c;
             let new_sn_entry = (if im_id im = 0 \<or> im_id im > 65535 then new_sn_entry else entry);
             c \<leftarrow> (case new_sn_entry of
                     None \<Rightarrow> Some c
                   | Some a \<Rightarrow> upd_name_entry a (\<lambda>e. e\<lparr>source_names := names, source_long_names := long_names\<rparr>) c);
             load_sns_loop cache_fd read_count new_sn_entry fs c }
      else Some (cache_fd, fs, c))"

definition load_sns_entries ::
  "string \<Rightarrow> rmf_OobSiCache \<Rightarrow> rmf_osal_fs \<Rightarrow> (rmf_Error \<times> rmf_OobSiCache \<times> rmf_osal_fs) option" where
  "load_sns_entries siOOBSNSCacheLocation c fs =
     (case rmf_osal_fileHDFileOpen siOOBSNSCacheLocation RMF_OSAL_FS_OPEN_READ fs of
        (err, Some cache_fd, fs) \<Rightarrow>
          do { (cache_fd, fs, c) \<leftarrow> load_sns_loop cache_fd 0 None fs c;
               let (_, fs) = rmf_osal_fileHDFileClose (Some cache_fd) fs;
               Some (RMF_SUCCESS, c, fs) }
      | (err, None, fs) \<Rightarrow> Some (RMF_SI_INVALID_PARAMETER, c, fs))"


section \<open>The bytes of the file\<close>

definition enc_name :: "cstring \<times> cstring option \<Rightarrow> byte list" where
  "enc_name = (\<lambda>(language, string).
     le32 (word_of_nat (4 + (case string of None \<Rightarrow> 0 | Some s \<Rightarrow> length s + 4))) @ lang_bytes language @
     (case string of None \<Rightarrow> [] | Some s \<Rightarrow> le32 (word_of_nat (length s)) @ s))"

definition enc_sn_entry :: "rmf_siSourceNameEntry \<Rightarrow> nat \<Rightarrow> byte list" where
  "enc_sn_entry e next = sn_bytes (sn_image_of e next) @ concat (map enc_name (source_names e)) @
     concat (map enc_name (source_long_names e))"

fun enc_sns_file :: "(nat \<times> rmf_siSourceNameEntry) list \<Rightarrow> byte list" where
  "enc_sns_file [] = []"
| "enc_sns_file ((a, e) # rest) = (if sn_mapped e then enc_sn_entry e (sn_next rest) else []) @ enc_sns_file rest"

text \<open>What can be stored: terminated strings within the limit of the reader, fewer than 256 names in a list.\<close>

definition name_ok :: "cstring \<times> cstring option \<Rightarrow> bool" where
  "name_ok = (\<lambda>(language, string). length language \<le> 3 \<and> 0 \<notin> set language \<and>
     (case string of None \<Rightarrow> True | Some s \<Rightarrow> 0 \<notin> set s \<and> length s \<le> NAME_COUNT_MAX))"

definition sn_entry_ok :: "rmf_siSourceNameEntry \<Rightarrow> bool" where
  "sn_entry_ok e \<longleftrightarrow> sn_id e \<noteq> 0 \<and> sn_id e \<le> 65535 \<and> length (source_names e) < 256 \<and> length (source_long_names e) < 256 \<and>
     (\<forall>n \<in> set (source_names e) \<union> set (source_long_names e). name_ok n)"

lemma length_lang_bytes [simp]: "length (lang_bytes l) = 4" by (simp add: lang_bytes_def)

lemma length_sn_bytes [simp]: "length (sn_bytes im) = 40" by (simp add: sn_bytes_def)

lemma sn_of_bytes_bytes [simp]: "sn_of_bytes (sn_bytes im) = im"
  by (simp add: sn_of_bytes_def sn_bytes_def)

lemma c_string_id: "0 \<notin> set s \<Longrightarrow> c_string s = s"
  by (induction s) (auto simp: c_string_def)

lemma c_string_lang: "length l \<le> 3 \<Longrightarrow> 0 \<notin> set l \<Longrightarrow> c_string (lang_bytes l) = l"
proof -
  assume l: "length l \<le> 3" "0 \<notin> set l"
  then have "lang_bytes l = l @ replicate (4 - length l) 0" by (simp add: lang_bytes_def)
  moreover have "replicate (4 - length l) (0 :: byte) = 0 # replicate (3 - length l) 0"
    using l(1) by (cases "4 - length l") (auto simp: eval_nat_numeral)
  moreover have "takeWhile (\<lambda>b. b \<noteq> 0) (l @ 0 # zs) = l" for zs
    using l(2) by (induction l) auto
  ultimately show ?thesis by (simp add: c_string_def)
qed

lemma write_name_string_enc:
  assumes "writing n d bs h fs"
  obtains h' fs' where "write_name_string h names RMF_SUCCESS fs = (RMF_SUCCESS, h', fs')"
    "writing n d (bs @ concat (map enc_name names)) h' fs'"
  using assms
proof (induction names arbitrary: h fs bs thesis)
  case (Cons node names)
  obtain l s where node: "node = (l, s)" by (cases node)
  let ?len = "le32 (word_of_nat (4 + (case s of None \<Rightarrow> 0 | Some s \<Rightarrow> length s + 4)))"
  let ?sz = "\<lambda>t :: cstring. le32 (word_of_nat (length t))"
  obtain h1 fs1 where 1: "rmf_osal_fileHDFileWrite h ?len fs = (RMF_SUCCESS, length ?len, h1, fs1)" "writing n d (bs @ ?len) h1 fs1"
    by (rule fileWrite_step[OF Cons.prems(2)])
  obtain h2 fs2 where 2: "rmf_osal_fileHDFileWrite h1 (lang_bytes l) fs1 = (RMF_SUCCESS, length (lang_bytes l), h2, fs2)"
      "writing n d ((bs @ ?len) @ lang_bytes l) h2 fs2"
    by (rule fileWrite_step[OF 1(2)])
  show ?case
  proof (cases s)
    case None
    obtain h' fs' where "write_name_string h2 names RMF_SUCCESS fs2 = (RMF_SUCCESS, h', fs')"
        "writing n d (((bs @ ?len) @ lang_bytes l) @ concat (map enc_name names)) h' fs'"
      by (rule Cons.IH[OF _ 2(2)])
    with 1(1) 2(1) None node show ?thesis by (intro Cons.prems(1)[of h' fs']) (simp_all add: enc_name_def)
  next
    case (Some t)
    obtain h3 fs3 where 3: "rmf_osal_fileHDFileWrite h2 (?sz t) fs2 = (RMF_SUCCESS, length (?sz t), h3, fs3)"
        "writing n d (((bs @ ?len) @ lang_bytes l) @ ?sz t) h3 fs3"
      by (rule fileWrite_step[OF 2(2)])
    obtain h4 fs4 where 4: "rmf_osal_fileHDFileWrite h3 t fs3 = (RMF_SUCCESS, length t, h4, fs4)"
        "writing n d ((((bs @ ?len) @ lang_bytes l) @ ?sz t) @ t) h4 fs4"
      by (rule fileWrite_step[OF 3(2)])
    have t0: "t = [] \<Longrightarrow> h4 = h3 \<and> fs4 = fs3" using 4(1) by (simp add: rmf_osal_fileHDFileWrite_def)
    obtain h' fs' where "write_name_string h4 names RMF_SUCCESS fs4 = (RMF_SUCCESS, h', fs')"
        "writing n d (((((bs @ ?len) @ lang_bytes l) @ ?sz t) @ t) @ concat (map enc_name names)) h' fs'"
      by (rule Cons.IH[OF _ 4(2)])
    with 1(1) 2(1) 3(1) 4(1) t0 Some node show ?thesis
      by (intro Cons.prems(1)[of h' fs']) (auto simp: enc_name_def simp del: of_nat_add)
  qed
qed simp


lemma cache_sns_loop_enc:
  assumes "writing n d bs h fs"
  obtains h' fs' where "cache_sns_loop h es RMF_SUCCESS fs = (RMF_SUCCESS, h', fs')" "writing n d (bs @ enc_sns_file es) h' fs'"
  using assms
proof (induction es arbitrary: h fs bs thesis)
  case (Cons ae es)
  obtain a e where ae: "ae = (a, e)" by (cases ae)
  show ?case
  proof (cases "sn_mapped e")
    case True
    let ?im = "sn_bytes (sn_image_of e (sn_next es))"
    obtain h1 fs1 where 1: "rmf_osal_fileHDFileWrite h ?im fs = (RMF_SUCCESS, length ?im, h1, fs1)" "writing n d (bs @ ?im) h1 fs1"
      by (rule fileWrite_step[OF Cons.prems(2)])
    obtain h2 fs2 where 2: "write_name_string h1 (source_names e) RMF_SUCCESS fs1 = (RMF_SUCCESS, h2, fs2)"
        "writing n d ((bs @ ?im) @ concat (map enc_name (source_names e))) h2 fs2"
      by (rule write_name_string_enc[OF 1(2)])
    obtain h3 fs3 where 3: "write_name_string h2 (source_long_names e) RMF_SUCCESS fs2 = (RMF_SUCCESS, h3, fs3)"
        "writing n d (((bs @ ?im) @ concat (map enc_name (source_names e))) @ concat (map enc_name (source_long_names e))) h3 fs3"
      by (rule write_name_string_enc[OF 2(2)])
    obtain h' fs' where "cache_sns_loop h3 es RMF_SUCCESS fs3 = (RMF_SUCCESS, h', fs')"
        "writing n d ((((bs @ ?im) @ concat (map enc_name (source_names e))) @ concat (map enc_name (source_long_names e))) @
          enc_sns_file es) h' fs'"
      by (rule Cons.IH[OF _ 3(2)])
    with 1(1) 2(1) 3(1) True ae show ?thesis
      by (intro Cons.prems(1)[of h' fs']) (simp_all add: enc_sn_entry_def)
  next
    case False
    obtain h' fs' where "cache_sns_loop h es RMF_SUCCESS fs = (RMF_SUCCESS, h', fs')" "writing n d (bs @ enc_sns_file es) h' fs'"
      by (rule Cons.IH[OF _ Cons.prems(2)])
    with False ae show ?thesis by (intro Cons.prems(1)[of h' fs']) simp_all
  qed
qed simp

lemma cache_sns_entries_writes:
  assumes "healthy fs"
  obtains fs' where "cache_sns_entries f c fs = (RMF_SUCCESS, fs')" "healthy fs'"
    "disk fs' = (disk fs)(f \<mapsto> enc_sns_file (g_si_sourcename_entry c))"
proof -
  obtain e fs1 where 1: "rmf_osal_fileHDFileDelete f fs = (e, fs1)" "healthy fs1" "disk fs1 = (disk fs)(f := None)"
    by (rule delete_file[OF assms])
  obtain h fs2 where 2: "rmf_osal_fileOpenBuffered f (RMF_OSAL_FS_OPEN_WRITE OR RMF_OSAL_FS_OPEN_MUST_CREATE) fs1 = (RMF_SUCCESS, Some h, fs2)"
      "writing f (disk fs1) [] h fs2"
    by (rule open_for_writing[OF 1(2), of f]) (use 1(3) in auto)
  obtain h' fs3 where 3: "cache_sns_loop h (g_si_sourcename_entry c) RMF_SUCCESS fs2 = (RMF_SUCCESS, h', fs3)"
      "writing f (disk fs1) ([] @ enc_sns_file (g_si_sourcename_entry c)) h' fs3"
    by (rule cache_sns_loop_enc[OF 2(2)])
  then have "healthy fs3" by (simp add: writing_def)
  then obtain fs4 where 4: "rmf_osal_fileHDFileClose (Some h') fs3 = (RMF_SUCCESS, fs4)" "healthy fs4" "disk fs4 = disk fs3"
    by (rule close_file)
  from 3(2) 1(3) 4(3) have "disk fs4 = (disk fs)(f \<mapsto> enc_sns_file (g_si_sourcename_entry c))" by (simp add: writing_def)
  with 1(1) 2(1) 3(1) 4(1,2) that[of fs4] show ?thesis by (simp add: cache_sns_entries_def Let_def)
qed

section \<open>Reading back\<close>

lemma small_word_of_nat:
  assumes "k < 2 ^ 31"
  shows "unat (word_of_nat k :: 32 word) = k" "sint (word_of_nat k :: 32 word) = int k"
proof -
  show u: "unat (word_of_nat k :: 32 word) = k" using assms by (simp add: unat_of_nat)
  then show "sint (word_of_nat k :: 32 word) = int k"
    using assms by (subst sint_unat) simp_all
qed

lemma read_name_string_enc:
  assumes ok: "name_ok (l, s)" "\<And>i. alloc_ok c i"
    and r: "reading n d (lang_bytes l @ (case s of None \<Rightarrow> [] | Some t \<Rightarrow> le32 (word_of_nat (length t)) @ t) @ rest) h fs"
    and total: "tot = 4 + (case s of None \<Rightarrow> 0 | Some t \<Rightarrow> int (length t) + 4)"
  obtains rc' h' fs' k where "read_name_string h rc tot fs c = Some (RMF_SUCCESS, (l, s), rc', h', fs', c\<lparr>alloc_cnt := k\<rparr>)"
    "alloc_cnt c \<le> k" "reading n d rest h' fs'"
proof -
  let ?more = "(case s of None \<Rightarrow> [] | Some t \<Rightarrow> le32 (word_of_nat (length t)) @ t) @ rest"
  obtain h1 fs1 where 1: "rmf_osal_fileHDFileRead h (length (lang_bytes l)) fs = (RMF_SUCCESS, length (lang_bytes l), lang_bytes l, h1, fs1)"
      "reading n d ?more h1 fs1"
    by (rule fileRead_append[OF r])
  have lang: "c_string (lang_bytes l) = l" using ok(1) by (auto simp: name_ok_def c_string_lang)
  show ?thesis
  proof (cases s)
    case None
    with 1 lang total show ?thesis
      by (intro that[of _ h1 fs1 "alloc_cnt c"]) (simp_all add: read_name_string_def)
  next
    case (Some t)
    with 1(2) have r1: "reading n d (le32 (word_of_nat (length t)) @ t @ rest) h1 fs1" by simp
    obtain h2 fs2 where 2: "rmf_osal_fileHDFileRead h1 (length (le32 (word_of_nat (length t)))) fs1 =
        (RMF_SUCCESS, length (le32 (word_of_nat (length t))), le32 (word_of_nat (length t)), h2, fs2)" "reading n d (t @ rest) h2 fs2"
      by (rule fileRead_append[OF r1])
    obtain h3 fs3 where 3: "rmf_osal_fileHDFileRead h2 (length t) fs2 = (RMF_SUCCESS, length t, t, h3, fs3)" "reading n d rest h3 fs3"
      by (rule fileRead_append[OF 2(2)])
    have t: "c_string t = t" "length t \<le> NAME_COUNT_MAX" using ok(1) Some by (auto simp: name_ok_def c_string_id)
    then have "unat (word_of_nat (length t) :: 32 word) = length t" by (intro small_word_of_nat) simp
    with 1(1) 2(1) 3 t lang total Some ok(2) show ?thesis
      by (intro that[of _ h3 fs3 "Suc (alloc_cnt c)"]) (simp_all add: read_name_string_def memAllocP_def)
  qed
qed

lemma read_names_loop_enc:
  assumes "\<forall>m \<in> set names. name_ok m" "\<And>i. alloc_ok c i" "reading n d (concat (map enc_name names) @ rest) h fs"
  obtains rc' h' fs' k where "read_names_loop (length names) acc h rc fs c = Some (rev names @ acc, h', rc', fs', c\<lparr>alloc_cnt := k\<rparr>)"
    "alloc_cnt c \<le> k" "reading n d rest h' fs'"
  using assms
proof (induction names arbitrary: acc h rc fs c thesis)
  case Nil
  from Nil.prems(4) show ?case by (intro Nil.prems(1)[of h rc fs "alloc_cnt c"]) simp_all
next
  case (Cons m names)
  obtain l s where m: "m = (l, s)" by (cases m)
  let ?k = "4 + (case s of None \<Rightarrow> 0 | Some t \<Rightarrow> length t + 4)"
  let ?body = "lang_bytes l @ (case s of None \<Rightarrow> [] | Some t \<Rightarrow> le32 (word_of_nat (length t)) @ t) @ concat (map enc_name names) @ rest"
  have r0: "reading n d (le32 (word_of_nat ?k) @ ?body) h fs"
    using Cons.prems(4) m by (cases s) (simp_all add: enc_name_def)
  obtain h1 fs1 where 1: "rmf_osal_fileHDFileRead h (length (le32 (word_of_nat ?k))) fs =
      (RMF_SUCCESS, length (le32 (word_of_nat ?k)), le32 (word_of_nat ?k), h1, fs1)" "reading n d ?body h1 fs1"
    by (rule fileRead_append[OF r0])
  let ?c = "c\<lparr>alloc_cnt := Suc (alloc_cnt c)\<rparr>"
  have al: "\<And>i. alloc_ok ?c i" using Cons.prems(3) by simp
  have "name_ok (l, s)" using Cons.prems(2) m by simp
  then have "?k < 2 ^ 31" by (cases s) (simp_all add: name_ok_def)
  then have k: "sint (word_of_nat ?k :: 32 word) = int ?k" by (rule small_word_of_nat(2))
  have tot: "int ?k = 4 + (case s of None \<Rightarrow> 0 | Some t \<Rightarrow> int (length t) + 4)" by (cases s) simp_all
  obtain rc2 h2 fs2 k2 where 2: "read_name_string h1 (rc + 4) (int ?k) fs1 ?c =
      Some (RMF_SUCCESS, (l, s), rc2, h2, fs2, ?c\<lparr>alloc_cnt := k2\<rparr>)" "alloc_cnt ?c \<le> k2"
      "reading n d (concat (map enc_name names) @ rest) h2 fs2"
    by (rule read_name_string_enc[where c = ?c and rc = "rc + 4", OF \<open>name_ok (l, s)\<close> al 1(2) tot])
  have ok: "\<forall>m \<in> set names. name_ok m" "\<And>i. alloc_ok (c\<lparr>alloc_cnt := k2\<rparr>) i" using Cons.prems(2,3) by simp_all
  obtain rc' h' fs' k' where 3: "read_names_loop (length names) ((l, s) # acc) h2 rc2 fs2 (c\<lparr>alloc_cnt := k2\<rparr>) =
      Some (rev names @ (l, s) # acc, h', rc', fs', c\<lparr>alloc_cnt := k2, alloc_cnt := k'\<rparr>)"
      "alloc_cnt (c\<lparr>alloc_cnt := k2\<rparr>) \<le> k'" "reading n d rest h' fs'"
    by (rule Cons.IH[where acc = "(l, s) # acc" and rc = rc2, OF _ ok 2(3)])
  from Cons.prems(3) have "memAllocP c = (Some (Suc (alloc_cnt c)), ?c)" by (simp add: memAllocP_def)
  with 1(1) 2(1,2) 3 m k show ?case
    by (intro Cons.prems(1)[of h' rc' fs' k']) (simp_all add: Let_def del: of_nat_add)
qed


text \<open>The two lists of the entry with a key.\<close>

definition sn_view :: "rmf_OobSiCache \<Rightarrow> 32 word \<times> bool \<rightharpoonup> name_list \<times> name_list" where
  "sn_view c = (\<lambda>(i, app). case find_source_name i app (g_si_sourcename_entry c) of
     None \<Rightarrow> None | Some a \<Rightarrow> map_option (\<lambda>e. (source_names e, source_long_names e)) (get_name_entry c a))"

lemma name_map_view: "name_map c (i, app, l) = (case sn_view c (i, app) of None \<Rightarrow> None | Some (ns, _) \<Rightarrow> map_of ns l)"
  by (auto simp: name_map_def sn_view_def split: option.splits)

lemma sn_view_alloc [simp]: "sn_view (c\<lparr>alloc_cnt := n\<rparr>) = sn_view c"
  by (simp add: sn_view_def get_name_entry_def fun_eq_iff split: option.splits)

lemma new_entry_view:
  assumes wf: "names_wf c" and none: "find_source_name i app (g_si_sourcename_entry c) = None"
  defines "c1 \<equiv> c\<lparr>alloc_cnt := Suc (alloc_cnt c), g_si_sourcename_entry :=
     (Suc (alloc_cnt c), \<lparr>appType = app, sn_id = i, sn_mapped = False, source_names = [], source_long_names = []\<rparr>)
     # g_si_sourcename_entry c\<rparr>"
  shows "names_wf c1" "sn_view c1 = (sn_view c)((i, app) \<mapsto> ([], []))" "find_source_name i app (g_si_sourcename_entry c1) = Some (Suc (alloc_cnt c))"
    "names_frame c c1"
proof -
  have fresh: "Suc (alloc_cnt c) \<notin> fst ` set (g_si_sourcename_entry c)"
    using wf by (auto simp: names_wf_def)
  show "names_wf c1" using new_name_entry(1)[OF wf none] by (simp add: c1_def)
  have "x \<noteq> Suc (alloc_cnt c)" if "find_source_name j b (g_si_sourcename_entry c) = Some x" for j b x
    using find_source_name_Some[OF that] fresh by force
  then show "sn_view c1 = (sn_view c)((i, app) \<mapsto> ([], []))"
    by (auto simp: fun_eq_iff sn_view_def c1_def get_name_entry_def split: option.splits)
qed (simp_all add: c1_def names_frame_def)

lemma put_lists_view:
  assumes wf: "names_wf c" and a: "find_source_name i app (g_si_sourcename_entry c) = Some a"
  shows "sn_view (put_name a (\<lambda>e. e\<lparr>source_names := ns, source_long_names := ls\<rparr>) c) = (sn_view c)((i, app) \<mapsto> (ns, ls))"
proof -
  obtain e where e: "get_name_entry c a = Some e" "sn_id e = i" "appType e = app" by (rule find_source_name_entry[OF wf a])
  have "a' \<noteq> a" if f: "find_source_name j b (g_si_sourcename_entry c) = Some a'" "(j, b) \<noteq> (i, app)" for j b a'
  proof -
    obtain e' where "get_name_entry c a' = Some e'" "sn_id e' = j" "appType e' = b" by (rule find_source_name_entry[OF wf f(1)])
    with e f(2) show ?thesis by auto
  qed
  with a e(1) show ?thesis
    by (auto simp: fun_eq_iff sn_view_def find_source_name_put get_name_entry_put split: option.splits)
qed

lemma load_entry_view:
  assumes wf: "names_wf c" and al: "\<And>k. alloc_ok c k" and i: "i \<noteq> 0" "i \<le> 65535"
  obtains a c1 c' where "GetSourceNameEntry i app True c = (RMF_SUCCESS, Some a, c1)"
    "upd_name_entry a (\<lambda>e. e\<lparr>source_names := ns, source_long_names := ls\<rparr>) c1 = Some c'"
    "names_wf c'" "names_frame c c'" "sn_view c' = (sn_view c)((i, app) \<mapsto> (ns, ls))"
proof -
  let ?f = "\<lambda>e. e\<lparr>source_names := ns, source_long_names := ls\<rparr>"
  note goal = that
  have fin: thesis if f: "GetSourceNameEntry i app True c = (RMF_SUCCESS, Some a, c1)" "names_wf c1" "names_frame c c1"
      "find_source_name i app (g_si_sourcename_entry c1) = Some a" "(sn_view c1)((i, app) \<mapsto> (ns, ls)) = (sn_view c)((i, app) \<mapsto> (ns, ls))"
    for a c1
  proof -
    obtain e where "get_name_entry c1 a = Some e" by (rule find_source_name_entry[OF f(2,4)])
    then have "upd_name_entry a ?f c1 = Some (put_name a ?f c1)" by (rule upd_name_entry_put)
    with f(1) show thesis
      by (rule goal)
        (use f put_lists_view[OF f(2,4), where ns = ns and ls = ls] names_frame_trans[OF f(3) put_name_frame(2)[of c1 a ?f]] in simp_all)
  qed
  show thesis
  proof (cases "find_source_name i app (g_si_sourcename_entry c)")
    case None
    with al i show ?thesis
      by (intro fin[OF _ new_entry_view(1)[OF wf None] new_entry_view(4,3)[OF wf None]])
        (auto simp: GetSourceNameEntry_def memAllocP_def new_entry_view(2)[OF wf None])
  next
    case (Some a)
    with i wf show ?thesis by (intro fin[of a c]) (simp_all add: GetSourceNameEntry_def not_less[symmetric])
  qed
qed

lemma clamp_count8: "length names < 256 \<Longrightarrow> clamp_count (name_count8 names) = length names"
proof -
  assume "length names < 256"
  then have u: "unat (name_count8 names) = length names"
    by (simp add: name_count8_def unsigned_ucast_eq unat_of_nat take_bit_nat_eq_self)
  then have "sint (name_count8 names) = int (length names)"
    using \<open>length names < 256\<close> by (simp add: sint_uint signed_take_bit_int_eq_self uint_nat)
  with \<open>length names < 256\<close> show ?thesis by (simp add: clamp_count_def)
qed

text \<open>What reading the file does to the lists: every mapped entry, the order of its lists reversed.\<close>

definition sns_restored ::
  "(nat \<times> rmf_siSourceNameEntry) list \<Rightarrow> (32 word \<times> bool \<rightharpoonup> name_list \<times> name_list) \<Rightarrow> (32 word \<times> bool \<rightharpoonup> name_list \<times> name_list)" where
  "sns_restored es m = fold (\<lambda>(a, e) m. if sn_mapped e
     then m((sn_id e, appType e) \<mapsto> (rev (source_names e), rev (source_long_names e))) else m) es m"


lemma load_sns_loop_enc:
  assumes "\<forall>(a, e) \<in> set es. sn_mapped e \<longrightarrow> sn_entry_ok e" "\<And>k. alloc_ok c k" "names_wf c" "length trailer < 40"
    and "reading n d (enc_sns_file es @ trailer) h fs"
  obtains h' fs' c' where "load_sns_loop h rc p fs c = Some (h', fs', c')" "healthy fs'" "disk fs' = d" "names_wf c'"
    "names_frame c c'" "sn_view c' = sns_restored es (sn_view c)"
  using assms
proof (induction es arbitrary: h rc p fs c thesis)
  case Nil
  then have r: "reading n d trailer h fs" by simp
  obtain h' fs' where 1: "rmf_osal_fileHDFileRead h 40 fs = (RMF_SUCCESS, length (take 40 trailer), take 40 trailer, h', fs')"
      "reading n d (drop 40 trailer) h' fs'"
    by (rule fileRead_step[OF r])
  with Nil.prems(4,5) show ?case
    by (intro Nil.prems(1)[of h' fs' c]) (subst load_sns_loop.simps, auto simp: reading_def sns_restored_def)
next
  case (Cons ae es)
  obtain a e where ae: "ae = (a, e)" by (cases ae)
  show ?case
  proof (cases "sn_mapped e")
    case False
    obtain h' fs' c' where r: "load_sns_loop h rc p fs c = Some (h', fs', c')" "healthy fs'" "disk fs' = d" "names_wf c'"
        "names_frame c c'" "sn_view c' = sns_restored es (sn_view c)"
      by (rule Cons.IH[where h = h and rc = rc and p = p and fs = fs and c = c])
        (use Cons.prems(2-6) ae False in auto)
    with False ae show ?thesis by (intro Cons.prems(1)[OF r(1-5)]) (simp add: sns_restored_def)
  next
    case True
    let ?im = "sn_image_of e (sn_next es)" and ?ns = "source_names e" and ?ls = "source_long_names e"
    have ok: "sn_id e \<noteq> 0" "sn_id e \<le> 65535" "\<forall>m \<in> set ?ns. name_ok m" "\<forall>m \<in> set ?ls. name_ok m"
        "clamp_count (im_source_names ?im) = length ?ns" "clamp_count (im_source_long_names ?im) = length ?ls"
      using Cons.prems(2) ae True by (auto simp: sn_entry_ok_def sn_image_of_def clamp_count8)
    have r0: "reading n d (sn_bytes ?im @ concat (map enc_name ?ns) @ concat (map enc_name ?ls) @ enc_sns_file es @ trailer) h fs"
      using Cons.prems(6) ae True by (simp add: enc_sn_entry_def)
    obtain h1 fs1 where 1: "rmf_osal_fileHDFileRead h (length (sn_bytes ?im)) fs = (RMF_SUCCESS, length (sn_bytes ?im), sn_bytes ?im, h1, fs1)"
        "reading n d (concat (map enc_name ?ns) @ concat (map enc_name ?ls) @ enc_sns_file es @ trailer) h1 fs1"
      by (rule fileRead_append[OF r0])
    obtain rc2 h2 fs2 k2 where 2: "read_names_loop (length ?ns) [] h1 (rc + 40) fs1 c = Some (rev ?ns @ [], h2, rc2, fs2, c\<lparr>alloc_cnt := k2\<rparr>)"
        "alloc_cnt c \<le> k2" "reading n d (concat (map enc_name ?ls) @ enc_sns_file es @ trailer) h2 fs2"
      by (rule read_names_loop_enc[OF ok(3) Cons.prems(3) 1(2)])
    let ?c2 = "c\<lparr>alloc_cnt := k2\<rparr>"
    have al2: "\<And>k. alloc_ok ?c2 k" using Cons.prems(3) by simp
    obtain rc3 h3 fs3 k3 where 3: "read_names_loop (length ?ls) [] h2 rc2 fs2 ?c2 = Some (rev ?ls @ [], h3, rc3, fs3, ?c2\<lparr>alloc_cnt := k3\<rparr>)"
        "alloc_cnt ?c2 \<le> k3" "reading n d (enc_sns_file es @ trailer) h3 fs3"
      by (rule read_names_loop_enc[OF ok(4) al2 2(3)])
    let ?c3 = "c\<lparr>alloc_cnt := k3\<rparr>"
    have c3: "names_wf ?c3" "\<And>k. alloc_ok ?c3 k" "names_frame c ?c3" "sn_view ?c3 = sn_view c"
      using Cons.prems(3,4) 2(2) 3(2) by (auto intro: names_wf_alloc simp: names_frame_alloc)
    obtain a' c4 c5 where 4: "GetSourceNameEntry (sn_id e) (appType e) True ?c3 = (RMF_SUCCESS, Some a', c4)"
        "upd_name_entry a' (\<lambda>e. e\<lparr>source_names := rev ?ns, source_long_names := rev ?ls\<rparr>) c4 = Some c5"
        "names_wf c5" "names_frame ?c3 c5" "sn_view c5 = (sn_view ?c3)((sn_id e, appType e) \<mapsto> (rev ?ns, rev ?ls))"
      by (rule load_entry_view[OF c3(1,2) ok(1,2)])
    have c5: "\<And>k. alloc_ok c5 k" "names_frame c c5" using 4(4) c3(2,3) by (auto simp: names_frame_def)
    have rest: "\<forall>(a, e) \<in> set es. sn_mapped e \<longrightarrow> sn_entry_ok e" using Cons.prems(2) by simp
    obtain h' fs' c' where 5: "load_sns_loop h3 rc3 (Some a') fs3 c5 = Some (h', fs', c')" "healthy fs'" "disk fs' = d" "names_wf c'"
        "names_frame c5 c'" "sn_view c' = sns_restored es (sn_view c5)"
      by (rule Cons.IH[OF _ rest c5(1) 4(3) Cons.prems(5) 3(3)])
    have "load_sns_loop h rc p fs c = load_sns_loop h3 rc3 (Some a') fs3 c5"
      using 1(1) 2(1) 3(1) 4(1,2) ok by (subst load_sns_loop.simps) (simp add: Let_def sn_image_of_def not_less[symmetric])
    with 5 c5(2) c3(4) 4(5) ae True show ?thesis
      by (intro Cons.prems(1)[of h' fs' c']) (simp_all add: sns_restored_def names_frame_trans[OF c5(2)])
  qed
qed

section \<open>The round trip\<close>

text \<open>The keys of the entries are unique, as \<open>GetSourceNameEntry\<close> creates them; so are the languages of a list.\<close>

definition sn_keyed :: "rmf_OobSiCache \<Rightarrow> bool" where
  "sn_keyed c \<longleftrightarrow> distinct (map (\<lambda>(a, e). (sn_id e, appType e)) (g_si_sourcename_entry c)) \<and>
     (\<forall>(a, e) \<in> set (g_si_sourcename_entry c). distinct (map fst (source_names e)))"

lemma sns_restored_key:
  assumes "distinct (map (\<lambda>(a, e). (sn_id e, appType e)) es)"
  shows "sns_restored es m k = (if \<exists>(a, e) \<in> set es. sn_mapped e \<and> (sn_id e, appType e) = k
     then map_option (\<lambda>(a, e). (rev (source_names e), rev (source_long_names e))) (List.find (\<lambda>(a, e). (sn_id e, appType e) = k) es)
     else m k)"
  using assms
proof (induction es arbitrary: m)
  case (Cons ae es)
  obtain a e where ae: "ae = (a, e)" by (cases ae)
  have "sns_restored (ae # es) m = sns_restored es (if sn_mapped e
     then m((sn_id e, appType e) \<mapsto> (rev (source_names e), rev (source_long_names e))) else m)"
    by (simp add: sns_restored_def ae)
  moreover have "\<not> (\<exists>(a', e') \<in> set es. sn_mapped e' \<and> (sn_id e', appType e') = (sn_id e, appType e))"
    using Cons.prems ae by force
  ultimately show ?case
    using Cons ae by (cases "(sn_id e, appType e) = k") auto
qed (simp add: sns_restored_def)


lemma find_source_name_find:
  "find_source_name i app es = map_option fst (List.find (\<lambda>(a, e). (sn_id e, appType e) = (i, app)) es)"
  by (induction i app es rule: find_source_name.induct) auto

lemma find_mem: "List.find P xs = Some x \<Longrightarrow> x \<in> set xs \<and> P x"
  by (induction xs) (auto split: if_splits)

lemma name_map_find:
  assumes "names_wf c" "List.find (\<lambda>(a, e). (sn_id e, appType e) = (i, app)) (g_si_sourcename_entry c) = Some (a, e)"
  shows "name_map c (i, app, l) = map_of (source_names e) l"
proof -
  have "(a, e) \<in> set (g_si_sourcename_entry c)" using find_mem[OF assms(2)] by simp
  with assms(1) have "get_name_entry c a = Some e" by (simp add: get_name_entry_def names_wf_def)
  with assms(2) show ?thesis by (simp add: name_map_def find_source_name_find)
qed

text \<open>
  C18. Source names survive a restart: on a disk without faults, storing the source names of one cache and loading
  them into another succeeds, and afterwards the second cache finds, for every mapped entry of the first and
  every language, the name the first one finds; every other name of the second cache is as before. The names
  are terminated strings of at most 32768 bytes, fewer than 256 to an entry.
\<close>

theorem source_names_survive_restart:
  assumes "healthy fs" and c: "names_wf c" "sn_keyed c" "\<forall>(a, e) \<in> set (g_si_sourcename_entry c). sn_mapped e \<longrightarrow> sn_entry_ok e"
    and c0: "names_wf c0" "\<forall>k. alloc_ok c0 k"
  shows "\<exists>fs1 c' fs2. cache_sns_entries f c fs = (RMF_SUCCESS, fs1) \<and> load_sns_entries f c0 fs1 = Some (RMF_SUCCESS, c', fs2) \<and>
    disk fs2 = disk fs1 \<and> g_si_entry c' = g_si_entry c0 \<and>
    (\<forall>i app l. name_map c' (i, app, l) =
      (if \<exists>(a, e) \<in> set (g_si_sourcename_entry c). sn_mapped e \<and> sn_id e = i \<and> appType e = app
       then name_map c (i, app, l) else name_map c0 (i, app, l)))"
proof -
  let ?es = "g_si_sourcename_entry c"
  obtain fs1 where 1: "cache_sns_entries f c fs = (RMF_SUCCESS, fs1)" "healthy fs1" "disk fs1 = (disk fs)(f \<mapsto> enc_sns_file ?es)"
    by (rule cache_sns_entries_writes[OF assms(1)])
  then have "disk fs1 f = Some (enc_sns_file ?es)" by simp
  then obtain h fs2 where 2: "rmf_osal_fileHDFileOpen f RMF_OSAL_FS_OPEN_READ fs1 = (RMF_SUCCESS, Some h, fs2)"
      "reading f (disk fs1) (enc_sns_file ?es) h fs2"
    by (rule open_for_reading[OF 1(2)])
  then have r: "reading f (disk fs1) (enc_sns_file ?es @ []) h fs2" by simp
  have trailer: "length ([] :: byte list) < 40" by simp
  obtain h' fs3 c' where 3: "load_sns_loop h 0 None fs2 c0 = Some (h', fs3, c')" "healthy fs3" "disk fs3 = disk fs1" "names_wf c'"
      "names_frame c0 c'" "sn_view c' = sns_restored ?es (sn_view c0)"
    by (rule load_sns_loop_enc[OF c(3) c0(2)[rule_format] c0(1) trailer r])
  obtain fs4 where 4: "rmf_osal_fileHDFileClose (Some h') fs3 = (RMF_SUCCESS, fs4)" "disk fs4 = disk fs3"
    by (rule close_file[OF 3(2)])
  have keys: "distinct (map (\<lambda>(a, e). (sn_id e, appType e)) ?es)" using c(2) by (simp add: sn_keyed_def)
  have names: "name_map c' (i, app, l) = (if \<exists>(a, e) \<in> set ?es. sn_mapped e \<and> sn_id e = i \<and> appType e = app
       then name_map c (i, app, l) else name_map c0 (i, app, l))" for i app l
  proof (cases "\<exists>(a, e) \<in> set ?es. sn_mapped e \<and> sn_id e = i \<and> appType e = app")
    case True
    then have "List.find (\<lambda>(a, e). (sn_id e, appType e) = (i, app)) ?es \<noteq> None" by (auto simp: find_None_iff)
    then obtain a e where f: "List.find (\<lambda>(a, e). (sn_id e, appType e) = (i, app)) ?es = Some (a, e)" by auto
    then have mem: "(a, e) \<in> set ?es" using find_mem by fastforce
    have "sn_view c' (i, app) = Some (rev (source_names e), rev (source_long_names e))"
      using True f by (auto simp: 3(6) sns_restored_key[OF keys])
    moreover have "map_of (rev (source_names e)) = map_of (source_names e)"
      using c(2) mem by (intro map_of_inject_set[THEN iffD2]) (auto simp: sn_keyed_def rev_map[symmetric])
    ultimately show ?thesis using True by (simp add: name_map_view[of c'] name_map_find[OF c(1) f])
  next
    case False
    then have "sn_view c' (i, app) = sn_view c0 (i, app)" by (auto simp: 3(6) sns_restored_key[OF keys])
    with False show ?thesis by (simp only: if_False name_map_view)
  qed
  have "load_sns_entries f c0 fs1 = Some (RMF_SUCCESS, c', fs4)"
    using 2(1) 3(1) 4(1) by (simp add: load_sns_entries_def)
  with 1(1) 3(3,5) 4(2) names show ?thesis by (auto simp: names_frame_def)
qed

definition named_cache_example :: rmf_OobSiCache where
  "named_cache_example = (rmf_OobSiCache_new 0 0 (\<lambda>_. True) 0)\<lparr>g_si_sourcename_entry :=
     [(2, \<lparr>appType = False, sn_id = 1001, sn_mapped = True, source_names = [([0x65, 0x6E, 0x67], Some [0x43, 0x4E, 0x4E])],
        source_long_names = []\<rparr>)], alloc_cnt := 2\<rparr>"

theorem source_names_survive_restart_witness:
  "\<exists>fs1 c' fs2. cache_sns_entries ''sns'' named_cache_example \<lparr>disk = Map.empty, outcome = (\<lambda>_. IO_ok), io_calls = 0\<rparr> = (RMF_SUCCESS, fs1) \<and>
     load_sns_entries ''sns'' (rmf_OobSiCache_new 0 0 (\<lambda>_. True) 0) fs1 = Some (RMF_SUCCESS, c', fs2) \<and>
     name_map c' (1001, False, [0x65, 0x6E, 0x67]) = Some (Some [0x43, 0x4E, 0x4E])"
proof -
  let ?fs = "\<lparr>disk = Map.empty, outcome = (\<lambda>_. IO_ok), io_calls = 0\<rparr>" and ?c0 = "rmf_OobSiCache_new 0 0 (\<lambda>_. True) 0"
  have "healthy ?fs" by (simp add: healthy_def)
  moreover have "names_wf named_cache_example" "sn_keyed named_cache_example"
      "\<forall>(a, e) \<in> set (g_si_sourcename_entry named_cache_example). sn_mapped e \<longrightarrow> sn_entry_ok e"
    by (auto simp: named_cache_example_def names_wf_def sn_keyed_def sn_entry_ok_def name_ok_def rmf_OobSiCache_new_def)
  moreover have "names_wf ?c0" "\<forall>k. alloc_ok ?c0 k" by (simp_all add: names_wf_def rmf_OobSiCache_new_def)
  ultimately have "\<exists>fs1 c' fs2. cache_sns_entries ''sns'' named_cache_example ?fs = (RMF_SUCCESS, fs1) \<and>
     load_sns_entries ''sns'' ?c0 fs1 = Some (RMF_SUCCESS, c', fs2) \<and> disk fs2 = disk fs1 \<and> g_si_entry c' = g_si_entry ?c0 \<and>
    (\<forall>i app l. name_map c' (i, app, l) =
      (if \<exists>(a, e) \<in> set (g_si_sourcename_entry named_cache_example). sn_mapped e \<and> sn_id e = i \<and> appType e = app
       then name_map named_cache_example (i, app, l) else name_map ?c0 (i, app, l)))"
    by (rule source_names_survive_restart)
  then obtain fs1 c' fs2 where 1: "cache_sns_entries ''sns'' named_cache_example ?fs = (RMF_SUCCESS, fs1)"
      "load_sns_entries ''sns'' ?c0 fs1 = Some (RMF_SUCCESS, c', fs2)"
    and names: "\<And>i app l. name_map c' (i, app, l) =
      (if \<exists>(a, e) \<in> set (g_si_sourcename_entry named_cache_example). sn_mapped e \<and> sn_id e = i \<and> appType e = app
       then name_map named_cache_example (i, app, l) else name_map ?c0 (i, app, l))" by auto
  have "name_map c' (1001, False, [0x65, 0x6E, 0x67]) = Some (Some [0x43, 0x4E, 0x4E])"
    unfolding names by (simp add: name_map_def named_cache_example_def get_name_entry_def)
  with 1 show ?thesis by blast
qed

end
