(* ===== verification/CacheCrc.thy ===== *)
theory CacheCrc
  imports SnsStore Crc
begin

text \<open>
  The check of the two cache files at start-up (\<open>write_crc_for_si_and_sns_cache\<close>,
  \<open>verify_crc_for_si_and_sns_cache\<close> and \<open>verify_version_and_crc\<close> of \<open>rmf_oobsicache.cpp\<close>). The CRC of the source name file
  followed by the service file is appended to the service file as a little endian word. The section shows
  that a pair of files as it was written is accepted, and that a pair in which one byte was changed is refused.
\<close>

abbreviation (input) RMF_OSAL_ENOMEM :: rmf_Error where "RMF_OSAL_ENOMEM \<equiv> 0x102"
abbreviation (input) RMF_SI_CACHE_FILE_VERSION :: "32 word" where "RMF_SI_CACHE_FILE_VERSION \<equiv> 0x101"

section \<open>Operations\<close>

text \<open>\<open>stat\<close> may fail as any other call; then the caller's size stays 0.\<close>

definition si_getFileSize :: "string \<Rightarrow> rmf_osal_fs \<Rightarrow> 32 word \<times> rmf_osal_fs" where
  "si_getFileSize location fs =
     (if now_outcome fs = IO_fail then (0, tick fs)
      else (case disk fs location of None \<Rightarrow> 0 | Some c \<Rightarrow> word_of_nat (length c), tick fs))"

text \<open>\<open>rmf_osal_memAllocPGen\<close>: a buffer of \<open>calloc\<close>; a size of 0 is refused.\<close>

definition memAlloc_buffer :: "32 word \<Rightarrow> rmf_OobSiCache \<Rightarrow> rmf_Error \<times> byte list option \<times> rmf_OobSiCache" where
  "memAlloc_buffer sz c =
     (if sz = 0 then (RMF_OSAL_EINVAL, None, c)
      else case memAllocP c of
             (None, c) \<Rightarrow> (RMF_OSAL_ENOMEM, None, c)
           | (Some _, c) \<Rightarrow> (RMF_SUCCESS, Some (replicate (unat sz) 0), c))"

text \<open>A read into \<open>buf + p\<close>. There is no result when the bytes do not fit.\<close>

definition put_bytes :: "byte list \<Rightarrow> nat \<Rightarrow> byte list \<Rightarrow> byte list option" where
  "put_bytes buf p bs = (if p + length bs \<le> length buf then Some (take p buf @ bs @ drop (p + length bs) buf) else None)"

text \<open>
  Opening, reading and closing one of the files. The result is the error, the size after the call and the buffer;
  no buffer when the file could not be opened. A failed read leaves the size as it was.
\<close>

definition read_into ::
  "string \<Rightarrow> 32 word \<Rightarrow> byte list \<Rightarrow> nat \<Rightarrow> rmf_osal_fs \<Rightarrow> (rmf_Error \<times> nat \<times> byte list option \<times> rmf_osal_fs) option" where
  "read_into name sz buf p fs =
     (case rmf_osal_fileHDFileOpen name RMF_OSAL_FS_OPEN_READ fs of
        (err, None, fs) \<Rightarrow> Some (err, unat sz, None, fs)
      | (err, Some fd, fs) \<Rightarrow>
          (case rmf_osal_fileHDFileRead fd (unat sz) fs of (err, count, bs, fd, fs) \<Rightarrow>
           do { buf \<leftarrow> put_bytes buf p bs;
                let (_, fs) = rmf_osal_fileHDFileClose (Some fd) fs;
                Some (err, count, Some buf, fs) }))"

text \<open>The part the writer and the verifier have in common: both files in one buffer, the source names first.\<close>

definition read_cache_files ::
  "string \<Rightarrow> string \<Rightarrow> rmf_OobSiCache \<Rightarrow> rmf_osal_fs \<Rightarrow>
   (rmf_Error \<times> 32 word \<times> byte list option \<times> rmf_OobSiCache \<times> rmf_osal_fs) option" where
  "read_cache_files pSICache pSISNSCache c fs =
     (let (sizeOfSICache, fs) = si_getFileSize pSICache fs;
          (sizeOfSISNSCache, fs) = si_getFileSize pSISNSCache fs;
          crcFileSize = sizeOfSISNSCache + sizeOfSICache
      in case memAlloc_buffer crcFileSize c of
           (err, None, c) \<Rightarrow> Some (err, crcFileSize, None, c, fs)
         | (err, Some pCRCData, c) \<Rightarrow>
             do { (err, readSNSSize, buf, fs) \<leftarrow> read_into pSISNSCache sizeOfSISNSCache pCRCData 0 fs;
                  case buf of
                    None \<Rightarrow> Some (err, crcFileSize, None, c, fs)
                  | Some pCRCData \<Rightarrow>
                      do { (err, _, buf, fs) \<leftarrow> read_into pSICache sizeOfSICache pCRCData readSNSSize fs;
                           Some (err, crcFileSize, buf, c, fs) } })"

text \<open>
  The file is read, reopened for writing without being truncated, and written back with the CRC behind it.
\<close>

definition write_crc ::
  "string \<Rightarrow> 32 word \<Rightarrow> rmf_OobSiCache \<Rightarrow> rmf_osal_fs \<Rightarrow> (rmf_Error \<times> rmf_OobSiCache \<times> rmf_osal_fs) option" where
  "write_crc pSICacheFileName crcValue c fs =
     (let (sizeOfSICache, fs) = si_getFileSize pSICacheFileName fs;
          (err, pActualData, c) = (if sizeOfSICache > 0 then memAlloc_buffer sizeOfSICache c else (RMF_SUCCESS, None, c))
      in case pActualData of
           None \<Rightarrow> Some (err, c, fs)
         | Some buf \<Rightarrow>
             case rmf_osal_fileHDFileOpen pSICacheFileName RMF_OSAL_FS_OPEN_READ fs of
               (err, None, fs) \<Rightarrow> Some (RMF_SI_INVALID_PARAMETER, c, fs)
             | (err, Some cache_read_fd, fs) \<Rightarrow>
                 case rmf_osal_fileHDFileRead cache_read_fd (unat sizeOfSICache) fs of (err, readDataSize, bs, cache_read_fd, fs) \<Rightarrow>
                 do { buf \<leftarrow> put_bytes buf 0 bs;
                      let (_, fs) = rmf_osal_fileHDFileClose (Some cache_read_fd) fs;
                      if err \<noteq> RMF_SUCCESS then Some (err, c, fs)
                      else case rmf_osal_fileOpenBuffered pSICacheFileName RMF_OSAL_FS_OPEN_WRITE fs of
                             (err, None, fs) \<Rightarrow>
                               let (_, fs) = rmf_osal_fileHDFileClose None fs in Some (RMF_SI_INVALID_PARAMETER, c, fs)
                           | (err, Some fd, fs) \<Rightarrow>
                               let (err, _, fd, fs) = rmf_osal_fileHDFileWrite fd (take readDataSize buf) fs;
                                   (err, fd, fs) =
                                     (if err = RMF_SUCCESS then
                                        let (err, _, fd, fs) = rmf_osal_fileHDFileWrite fd (le32 crcValue) fs in (err, fd, fs)
                                      else (err, fd, fs));
                                   (_, fs) = rmf_osal_fileHDFileClose (Some fd) fs
                               in Some (err, c, fs) })"

definition write_crc_for_si_and_sns_cache ::
  "string \<Rightarrow> string \<Rightarrow> rmf_OobSiCache \<Rightarrow> rmf_osal_fs \<Rightarrow> (rmf_Error \<times> rmf_OobSiCache \<times> rmf_osal_fs) option" where
  "write_crc_for_si_and_sns_cache pSICache pSISNSCache c fs =
     do { (err, crcFileSize, buf, c, fs) \<leftarrow> read_cache_files pSICache pSISNSCache c fs;
          case buf of
            None \<Rightarrow> Some (err, c, fs)
          | Some pCRCData \<Rightarrow>
              do { crcValue \<leftarrow> calc_mpeg2_crc c pCRCData 0 (unat crcFileSize);
                   write_crc pSICache crcValue c fs } }"

text \<open>
  The result is the error and \<open>*pStatus\<close>. With fewer than four bytes in all, \<open>crcFileSize - 4\<close> wraps and the
  CRC is taken of memory behind the buffer: no result.
\<close>

definition verify_crc_for_si_and_sns_cache ::
  "string \<Rightarrow> string \<Rightarrow> rmf_OobSiCache \<Rightarrow> rmf_osal_fs \<Rightarrow> (rmf_Error \<times> bool \<times> rmf_OobSiCache \<times> rmf_osal_fs) option" where
  "verify_crc_for_si_and_sns_cache pSICache pSISNSCache c fs =
     do { (err, crcFileSize, buf, c, fs) \<leftarrow> read_cache_files pSICache pSISNSCache c fs;
          case buf of
            None \<Rightarrow> Some (err, False, c, fs)
          | Some pCRCData \<Rightarrow>
              do { let n = unat (crcFileSize - 4);
                   crcValue \<leftarrow> calc_mpeg2_crc c pCRCData 0 n;
                   crcRead \<leftarrow> memcpy [0, 0, 0, 0] pCRCData n 4;
                   Some (err, crcValue = of_le crcRead, c, fs) } }"

definition verify_version_and_crc ::
  "string \<Rightarrow> string \<Rightarrow> rmf_OobSiCache \<Rightarrow> rmf_osal_fs \<Rightarrow> (bool \<times> rmf_OobSiCache \<times> rmf_osal_fs) option" where
  "verify_version_and_crc siOOBCacheLocation siOOBSNSCacheLocation c fs =
     (case rmf_osal_fileHDFileOpen siOOBCacheLocation RMF_OSAL_FS_OPEN_READ fs of
        (err, None, fs) \<Rightarrow> Some (False, c, fs)
      | (err, Some cache_fd, fs) \<Rightarrow>
          case rmf_osal_fileHDFileRead cache_fd 4 fs of (err, count, bs, cache_fd, fs) \<Rightarrow>
          let proceed = (err = RMF_SUCCESS \<and> count = 4 \<and> \<not> (of_le bs :: 32 word) < RMF_SI_CACHE_FILE_VERSION);
              (_, fs) = rmf_osal_fileHDFileClose (Some cache_fd) fs
          in if err = RMF_SUCCESS \<and> proceed then
               do { (err, isCRCMatch, c, fs) \<leftarrow> verify_crc_for_si_and_sns_cache siOOBCacheLocation siOOBSNSCacheLocation c fs;
                    Some (err = RMF_SUCCESS \<and> isCRCMatch, c, fs) }
             else Some (False, c, fs))"

section \<open>Bursts\<close>

definition crc_of :: "byte list \<Rightarrow> 32 word" where
  "crc_of ds = NOT (crc_divide (map NOT (take 4 ds) @ drop 4 ds) 0)"

lemma calc_crc_of:
  assumes "crctab c = map crc_entry [0..<256]" "4 \<le> n" "n \<le> length data"
  shows "calc_mpeg2_crc c data 0 n = Some (crc_of (take n data))"
  using calc_mpeg2_crc_divides[of c n 0 data] assms by (simp add: crc_of_def min_def drop_take)

lemma bits_of_xor: "bits_of (d XOR e) = map2 (\<noteq>) (bits_of d) (bits_of e)"
  by (simp add: bits_of_def bit_xor_iff)

lemma length_bits_of [simp]: "length (bits_of d) = 8"
  by (simp add: bits_of_def)

lemma concat_bits_xor:
  "length ds = length es \<Longrightarrow>
   concat (map bits_of (map2 (XOR) ds es)) = map2 (\<noteq>) (concat (map bits_of ds)) (concat (map bits_of es))"
  by (induction ds es rule: list_induct2) (simp_all add: bits_of_xor)

lemma crc_divide_xor:
  assumes "length ds = length es"
  shows "crc_divide (map2 (XOR) ds es) 0 = crc_divide ds 0 XOR crc_divide es 0"
proof -
  have "length (concat (map bits_of ds)) = length (concat (map bits_of es))"
    using assms by (induction ds es rule: list_induct2) simp_all
  from fold_crc_bit_xor[OF this, of 0 0] show ?thesis
    unfolding crc_divide_def concat_bits_xor[OF assms] by (simp del: not_iff)
qed

lemma fold_crc_bit_zero: "fold crc_bit (replicate n False) 0 = 0"
  by (induction n) (simp_all add: crc_bit_def)

lemma crc_divide_zeros: "crc_divide (replicate n 0) r = 0 \<longleftrightarrow> r = 0"
proof -
  have "concat (map bits_of (replicate n 0)) = replicate (8 * n) False"
    by (induction n) (simp_all add: bits_of_def eval_nat_numeral replicate_add)
  then show ?thesis
    using fold_crc_bit_inj[of "replicate (8 * n) False" r 0] fold_crc_bit_zero[of "8 * n"]
    by (auto simp: crc_divide_def)
qed

lemma bits_of_all_zero: "\<forall>b \<in> set (bits_of d). \<not> b \<Longrightarrow> d = 0"
  by (rule bits_of_zero) (simp add: bits_of_def crc_bit_def)

lemma short_crc_divide_zero:
  assumes "crc_divide ds 0 = 0" "length ds \<le> 4"
  shows "\<forall>d \<in> set ds. d = 0"
proof -
  let ?bs = "concat (map bits_of ds)"
  have len: "length ?bs \<le> 32" using assms(2) by (simp add: length_concat comp_def sum_list_triv)
  have "\<not> rev ?bs ! n" if "n < length ?bs" for n
    using bit_fold_crc_bit[of ?bs 0 n] len that assms(1) by (simp add: crc_divide_def)
  then have "\<forall>b \<in> set (rev ?bs). \<not> b" by (metis in_set_conv_nth length_rev)
  then show ?thesis by (auto intro!: bits_of_all_zero)
qed

text \<open>Two messages that differ only inside a window of four bytes have different CRCs.\<close>

lemma map2_xor_inverted:
  assumes "length ds = length es"
  shows "map2 (XOR) (map NOT (take 4 ds) @ drop 4 ds) (map NOT (take 4 es) @ drop 4 es) = map2 (XOR) ds (es :: byte list)"
proof -
  have "map2 (XOR) ds es = map2 (XOR) (take 4 ds @ drop 4 ds) (take 4 es @ drop 4 es)" by simp
  also have "\<dots> = map2 (XOR) (take 4 ds) (take 4 es) @ map2 (XOR) (drop 4 ds) (drop 4 es)"
    using assms by (subst zip_append) simp_all
  finally show ?thesis
    using assms by (simp add: zip_map1 zip_map2 comp_def case_prod_beta)
qed

lemma map2_xor_self: "map2 (XOR) ds ds = replicate (length ds) (0 :: byte)"
  by (induction ds) simp_all

lemma map2_xor_zero: "length x = length y \<Longrightarrow> \<forall>d \<in> set (map2 (XOR) x y). d = (0 :: byte) \<Longrightarrow> x = y"
proof (induction x y rule: list_induct2)
  case (Cons a x b y)
  then have "a XOR b = 0" by simp
  then have "a = b" by (simp add: bit_eq_iff bit_simps)
  with Cons show ?case by simp
qed simp

lemma crc_burst:
  assumes "length x = length y" "length x \<le> 4" "crc_of (pre @ x @ post) = crc_of (pre @ y @ post)"
  shows "x = y"
proof -
  let ?d = "pre @ x @ post" and ?e = "pre @ y @ post"
  have len: "length ?d = length ?e" using assms(1) by simp
  have "crc_divide (map2 (XOR) ?d ?e) 0 = 0"
    using assms(3) crc_divide_xor[of "map NOT (take 4 ?d) @ drop 4 ?d" "map NOT (take 4 ?e) @ drop 4 ?e"] len
    unfolding map2_xor_inverted[OF len] by (simp add: crc_of_def)
  moreover have "map2 (XOR) ?d ?e = replicate (length pre) 0 @ map2 (XOR) x y @ replicate (length post) 0"
    using assms(1) by (simp add: map2_xor_self)
  ultimately have "crc_divide (map2 (XOR) x y) (crc_divide (replicate (length pre) 0) 0) = 0"
    by (simp add: crc_divide_append crc_divide_zeros)
  then have "crc_divide (map2 (XOR) x y) 0 = 0" using crc_divide_zeros[of "length pre" 0] by simp
  then show ?thesis using assms(1,2) by (intro map2_xor_zero short_crc_divide_zero) auto
qed

section \<open>A pair of files\<close>

definition crc_ready :: "rmf_OobSiCache \<Rightarrow> bool" where
  "crc_ready c \<longleftrightarrow> crctab c = map crc_entry [0..<256] \<and> (\<forall>k. alloc_ok c k)"

lemma getFileSize_ok:
  assumes "healthy fs" "disk fs n = Some a"
  obtains fs' where "si_getFileSize n fs = (word_of_nat (length a), fs')" "healthy fs'" "disk fs' = disk fs"
  using assms that[of "tick fs"] by (simp add: si_getFileSize_def healthy_def)

lemma unat_file_size: "n < 2 ^ 32 \<Longrightarrow> unat (word_of_nat n :: 32 word) = n"
  by (simp add: unsigned_of_nat take_bit_nat_eq_self)

lemma memAlloc_buffer_ok:
  assumes "crc_ready c" "0 < n" "n < 2 ^ 32"
  obtains c' where "memAlloc_buffer (word_of_nat n) c = (RMF_SUCCESS, Some (replicate n 0), c')" "crc_ready c'"
proof -
  have "(word_of_nat n :: 32 word) \<noteq> 0" using assms(2,3) unat_file_size[of n] by (metis less_irrefl unat_0)
  with assms that[of "c\<lparr>alloc_cnt := Suc (alloc_cnt c)\<rparr>"] show ?thesis
    by (simp add: memAlloc_buffer_def memAllocP_def crc_ready_def unat_file_size)
qed

lemma read_into_ok:
  assumes "healthy fs" "disk fs n = Some a" "length a < 2 ^ 32" "p + length a \<le> length buf"
  obtains fs' where "read_into n (word_of_nat (length a)) buf p fs =
      Some (RMF_SUCCESS, length a, Some (take p buf @ a @ drop (p + length a) buf), fs')"
    "healthy fs'" "disk fs' = disk fs"
proof -
  obtain h fs1 where 1: "rmf_osal_fileHDFileOpen n RMF_OSAL_FS_OPEN_READ fs = (RMF_SUCCESS, Some h, fs1)"
      "reading n (disk fs) a h fs1"
    by (rule open_for_reading[OF assms(1,2)])
  obtain h' fs2 where 2: "rmf_osal_fileHDFileRead h (length a) fs1 = (RMF_SUCCESS, length (take (length a) a), take (length a) a, h', fs2)"
      "reading n (disk fs) (drop (length a) a) h' fs2"
    by (rule fileRead_step[OF 1(2)])
  have h2: "healthy fs2" and d2: "disk fs2 = disk fs" using 2(2) by (simp_all add: reading_def)
  obtain fs3 where 3: "rmf_osal_fileHDFileClose (Some h') fs2 = (RMF_SUCCESS, fs3)" "healthy fs3" "disk fs3 = disk fs2"
    by (rule close_file[OF h2])
  show thesis
    using that[of fs3] 1(1) 2(1) 3 d2 assms(3,4) by (simp add: read_into_def put_bytes_def unat_file_size)
qed

lemma read_cache_files_ok:
  assumes "crc_ready c" "healthy fs" "disk fs f_sns = Some a" "disk fs f_si = Some b"
    and len: "0 < length a + length b" "length a + length b < 2 ^ 32"
  obtains c' fs' where "read_cache_files f_si f_sns c fs =
      Some (RMF_SUCCESS, word_of_nat (length a + length b), Some (a @ b), c', fs')"
    "crc_ready c'" "healthy fs'" "disk fs' = disk fs"
proof -
  have la: "length a < 2 ^ 32" "length b < 2 ^ 32" using len(2) by auto
  obtain fs1 where 1: "si_getFileSize f_si fs = (word_of_nat (length b), fs1)" "healthy fs1" "disk fs1 = disk fs"
    by (rule getFileSize_ok[OF assms(2,4)])
  have d1: "disk fs1 f_sns = Some a" using 1(3) assms(3) by simp
  obtain fs2 where 2: "si_getFileSize f_sns fs1 = (word_of_nat (length a), fs2)" "healthy fs2" "disk fs2 = disk fs1"
    by (rule getFileSize_ok[OF 1(2) d1])
  obtain c' where 3: "memAlloc_buffer (word_of_nat (length a + length b)) c = (RMF_SUCCESS, Some (replicate (length a + length b) 0), c')"
      "crc_ready c'"
    by (rule memAlloc_buffer_ok[OF assms(1) len])
  have d2: "disk fs2 f_sns = Some a" using d1 2(3) by simp
  have l2: "0 + length a \<le> length (replicate (length a + length b) (0 :: byte))" by simp
  obtain fs3 where 4: "read_into f_sns (word_of_nat (length a)) (replicate (length a + length b) 0) 0 fs2 =
      Some (RMF_SUCCESS, length a, Some (take 0 (replicate (length a + length b) 0) @ a @ drop (0 + length a) (replicate (length a + length b) 0)), fs3)"
      "healthy fs3" "disk fs3 = disk fs2"
    by (rule read_into_ok[OF 2(2) d2 la(1) l2])
  have d3: "disk fs3 f_si = Some b" using 1(3) 2(3) 4(3) assms(4) by simp
  have l3: "length a + length b \<le> length (a @ replicate (length b) (0 :: byte))" by simp
  obtain fs4 where 5: "read_into f_si (word_of_nat (length b)) (a @ replicate (length b) 0) (length a) fs3 =
      Some (RMF_SUCCESS, length b, Some (take (length a) (a @ replicate (length b) 0) @ b @ drop (length a + length b) (a @ replicate (length b) 0)), fs4)"
      "healthy fs4" "disk fs4 = disk fs3"
    by (rule read_into_ok[OF 4(2) d3 la(2) l3])
  show thesis
    using 1(1,3) 2(1,3) 3 4 5 by (intro that[of c' fs4]) (simp_all add: read_cache_files_def flip: of_nat_add add.commute[of "length b"])
qed

lemma write_crc_ok:
  assumes "crc_ready c" "healthy fs" "disk fs f_si = Some b" "0 < length b" "length b < 2 ^ 32"
  obtains c' fs' where "write_crc f_si w c fs = Some (RMF_SUCCESS, c', fs')" "crc_ready c'" "healthy fs'"
    "disk fs' = (disk fs)(f_si \<mapsto> b @ le32 w)"
proof -
  obtain fs1 where 1: "si_getFileSize f_si fs = (word_of_nat (length b), fs1)" "healthy fs1" "disk fs1 = disk fs"
    by (rule getFileSize_ok[OF assms(2,3)])
  obtain c' where 2: "memAlloc_buffer (word_of_nat (length b)) c = (RMF_SUCCESS, Some (replicate (length b) 0), c')" "crc_ready c'"
    by (rule memAlloc_buffer_ok[OF assms(1,4,5)])
  have pos: "(word_of_nat (length b) :: 32 word) > 0"
    using assms(4) unat_file_size[OF assms(5)] by (metis unat_gt_0 word_gt_0)
  have d1: "disk fs1 f_si = Some b" using 1(3) assms(3) by simp
  obtain h fs2 where 3: "rmf_osal_fileHDFileOpen f_si RMF_OSAL_FS_OPEN_READ fs1 = (RMF_SUCCESS, Some h, fs2)"
      "reading f_si (disk fs1) b h fs2"
    by (rule open_for_reading[OF 1(2) d1])
  obtain h1 fs3 where 4: "rmf_osal_fileHDFileRead h (length b) fs2 = (RMF_SUCCESS, length (take (length b) b), take (length b) b, h1, fs3)"
      "reading f_si (disk fs1) (drop (length b) b) h1 fs3"
    by (rule fileRead_step[OF 3(2)])
  have h3: "healthy fs3" and d3: "disk fs3 = disk fs" using 4(2) 1(3) by (simp_all add: reading_def)
  obtain fs4 where 5: "rmf_osal_fileHDFileClose (Some h1) fs3 = (RMF_SUCCESS, fs4)" "healthy fs4" "disk fs4 = disk fs3"
    by (rule close_file[OF h3])
  define h2 where "h2 = \<lparr>fh_name = f_si, fh_pos = 0\<rparr>"
  define fs5 where "fs5 = (tick fs4)\<lparr>disk := (disk fs)(f_si \<mapsto> b)\<rparr>"
  have 6: "rmf_osal_fileOpenBuffered f_si RMF_OSAL_FS_OPEN_WRITE fs4 = (RMF_SUCCESS, Some h2, fs5)"
    using 5 d3 assms(3) by (simp add: rmf_osal_fileOpenBuffered_def rmf_osal_fileHDFileOpen_def healthy_def h2_def fs5_def)
  define h3 where "h3 = \<lparr>fh_name = f_si, fh_pos = length b\<rparr>"
  define fs6 where "fs6 = (tick fs5)\<lparr>disk := (disk fs)(f_si \<mapsto> b)\<rparr>"
  have 7: "rmf_osal_fileHDFileWrite h2 b fs5 = (RMF_SUCCESS, length b, h3, fs6)"
    using 5(2) assms(4) by (auto simp: rmf_osal_fileHDFileWrite_def healthy_def h2_def h3_def fs5_def fs6_def)
  have "writing f_si (disk fs) b h3 fs6"
    using 5(2) by (simp add: writing_def h3_def fs5_def fs6_def)
  then obtain h4 fs7 where 8: "rmf_osal_fileHDFileWrite h3 (le32 w) fs6 = (RMF_SUCCESS, length (le32 w), h4, fs7)"
      "writing f_si (disk fs) (b @ le32 w) h4 fs7"
    by (rule fileWrite_step)
  have h7: "healthy fs7" using 8(2) by (simp add: writing_def)
  obtain fs8 where 9: "rmf_osal_fileHDFileClose (Some h4) fs7 = (RMF_SUCCESS, fs8)" "healthy fs8" "disk fs8 = disk fs7"
    by (rule close_file[OF h7])
  show thesis
    using 1(1) 2 pos 3(1) 4(1) 5(1) 6 7 8 9 assms(5)
    by (intro that[of c' fs8]) (simp_all add: write_crc_def unat_file_size put_bytes_def writing_def)
qed

lemma verify_crc_ok:
  assumes "crc_ready c" "healthy fs" "disk fs f_sns = Some a" "disk fs f_si = Some (b @ w)" "length w = 4"
    and len: "4 \<le> length a + length b" "length a + length b + 4 < 2 ^ 32"
  obtains c' fs' where "verify_crc_for_si_and_sns_cache f_si f_sns c fs =
      Some (RMF_SUCCESS, crc_of (a @ b) = of_le w, c', fs')" "disk fs' = disk fs"
proof -
  have l: "0 < length a + length (b @ w)" "length a + length (b @ w) < 2 ^ 32" using len assms(5) by auto
  obtain c' fs' where 1: "read_cache_files f_si f_sns c fs =
      Some (RMF_SUCCESS, word_of_nat (length a + length (b @ w)), Some (a @ b @ w), c', fs')" "crc_ready c'" "disk fs' = disk fs"
    by (rule read_cache_files_ok[OF assms(1-4) l]) simp
  have "(word_of_nat (length a + length (b @ w)) :: 32 word) - 4 = word_of_nat (length a + length b)"
    using assms(5) by simp
  then have n: "unat (word_of_nat (length a + length (b @ w)) - 4 :: 32 word) = length a + length b"
    using len(2) by (simp only: unat_file_size)
  have "calc_mpeg2_crc c' (a @ b @ w) 0 (length a + length b) = Some (crc_of (a @ b))"
    using calc_crc_of[of c' "length a + length b" "a @ b @ w"] 1(2) len(1) by (simp add: crc_ready_def)
  moreover have "memcpy [0, 0, 0, 0] (a @ b @ w) (length a + length b) 4 = Some w"
    using assms(5) by (simp add: memcpy_def)
  ultimately show thesis
    using 1(1,3) n by (intro that[of c' fs']) (simp_all add: verify_crc_for_si_and_sns_cache_def del: of_nat_add)
qed

lemma verify_version_ok:
  assumes "crc_ready c" "healthy fs" "disk fs f_sns = Some a" "disk fs f_si = Some (b @ w)" "length w = 4"
    and len: "4 \<le> length a + length b" "length a + length b + 4 < 2 ^ 32"
  obtains c' fs' where "verify_version_and_crc f_si f_sns c fs =
      Some (\<not> (of_le (take 4 (b @ w)) :: 32 word) < RMF_SI_CACHE_FILE_VERSION \<and> crc_of (a @ b) = of_le w, c', fs')" "disk fs' = disk fs"
proof -
  obtain h fs1 where 1: "rmf_osal_fileHDFileOpen f_si RMF_OSAL_FS_OPEN_READ fs = (RMF_SUCCESS, Some h, fs1)"
      "reading f_si (disk fs) (b @ w) h fs1"
    by (rule open_for_reading[OF assms(2,4)])
  obtain h1 fs2 where 2: "rmf_osal_fileHDFileRead h 4 fs1 = (RMF_SUCCESS, length (take 4 (b @ w)), take 4 (b @ w), h1, fs2)"
      "reading f_si (disk fs) (drop 4 (b @ w)) h1 fs2"
    by (rule fileRead_step[OF 1(2)])
  have h2: "healthy fs2" and d2: "disk fs2 = disk fs" using 2(2) by (simp_all add: reading_def)
  obtain fs3 where 3: "rmf_osal_fileHDFileClose (Some h1) fs2 = (RMF_SUCCESS, fs3)" "healthy fs3" "disk fs3 = disk fs2"
    by (rule close_file[OF h2])
  have d3: "disk fs3 f_sns = Some a" "disk fs3 f_si = Some (b @ w)" using 3(3) d2 assms(3,4) by simp_all
  obtain c' fs' where 4: "verify_crc_for_si_and_sns_cache f_si f_sns c fs3 =
      Some (RMF_SUCCESS, crc_of (a @ b) = of_le w, c', fs')" "disk fs' = disk fs3"
    by (rule verify_crc_ok[OF assms(1) 3(2) d3 assms(5) len])
  have l4: "length (take 4 (b @ w)) = 4" using assms(5) by simp
  show thesis
  proof (cases "(of_le (take 4 (b @ w)) :: 32 word) < RMF_SI_CACHE_FILE_VERSION")
    case True
    then show ?thesis
      using that[of c fs3] 1(1) 2(1) 3 l4 d2 by (simp add: verify_version_and_crc_def del: take_append length_take)
  next
    case False
    then show ?thesis
      using that[of c' fs'] 1(1) 2(1) 3 4 l4 d2 by (simp add: verify_version_and_crc_def del: take_append length_take)
  qed
qed

lemma le32_of_le:
  assumes "length w = 4"
  shows "le32 (of_le w) = w"
proof -
  obtain a b c d where w: "w = [a, b, c, d]"
    using assms by (auto simp: length_Suc_conv eval_nat_numeral)
  show ?thesis
    by (simp add: w le32_def) (intro conjI bit_word_eqI; auto simp: bit_simps dest: byte_bit)
qed

text \<open>Damage to a pair of files: up to four adjacent bytes of the contents, or any of the stored CRC.\<close>

definition damaged :: "byte list \<Rightarrow> byte list \<Rightarrow> byte list \<Rightarrow> byte list \<Rightarrow> bool" where
  "damaged ds w ds' w' \<longleftrightarrow>
     (w' = w \<and> (\<exists>pre x y post. ds = pre @ x @ post \<and> ds' = pre @ y @ post \<and> length x = length y \<and> length x \<le> 4 \<and> x \<noteq> y)) \<or>
     (ds' = ds \<and> length w' = length w \<and> w' \<noteq> w)"

lemma damaged_crc:
  assumes "damaged ds (le32 (crc_of ds)) ds' w'"
  shows "length w' = 4 \<and> crc_of ds' \<noteq> of_le w'"
proof (cases "w' = le32 (crc_of ds)")
  case True
  then obtain pre x y post where d: "ds = pre @ x @ post" "ds' = pre @ y @ post" "length x = length y" "length x \<le> 4" "x \<noteq> y"
    using assms by (auto simp: damaged_def)
  then have "crc_of ds' \<noteq> crc_of ds" using crc_burst[of x y pre post] by auto
  with True show ?thesis by simp
next
  case False
  then have "ds' = ds" "length w' = 4" using assms by (auto simp: damaged_def)
  with False show ?thesis using le32_of_le[of w'] by auto
qed

text \<open>
  C19. The check of the cache files at start-up. On a disk without faults, \<open>write_crc_for_si_and_sns_cache\<close> appends four bytes to
  the service file; the pair is then accepted by \<open>verify_version_and_crc\<close> exactly when the service file starts
  with a version of at least 0x101, and a pair of the same sizes in which up to four adjacent bytes of
  the contents, or the appended bytes, were changed is refused.
\<close>

theorem cache_files_checked:
  assumes "crc_ready c" "healthy fs" "f_sns \<noteq> f_si" and d: "disk fs f_sns = Some a" "disk fs f_si = Some b"
    and len: "4 \<le> length b" "length a + length b + 4 < 2 ^ 32"
  shows "\<exists>w c1 fs1 c2 fs2. write_crc_for_si_and_sns_cache f_si f_sns c fs = Some (RMF_SUCCESS, c1, fs1) \<and>
    disk fs1 = (disk fs)(f_si \<mapsto> b @ w) \<and> length w = 4 \<and>
    verify_version_and_crc f_si f_sns c1 fs1 = Some (RMF_SI_CACHE_FILE_VERSION \<le> (of_le (take 4 b) :: 32 word), c2, fs2) \<and>
    (\<forall>fs' a' b' w'. healthy fs' \<and> disk fs' f_sns = Some a' \<and> disk fs' f_si = Some (b' @ w') \<and>
       length a' = length a \<and> length b' = length b \<and> damaged (a @ b) w (a' @ b') w' \<longrightarrow>
       (\<exists>c'' fs''. verify_version_and_crc f_si f_sns c1 fs' = Some (False, c'', fs'')))"
proof -
  let ?v = "crc_of (a @ b)"
  have l: "0 < length a + length b" "length a + length b < 2 ^ 32" "0 < length b" "length b < 2 ^ 32" "4 \<le> length a + length b"
    using len by auto
  obtain c1 fs1 where 1: "read_cache_files f_si f_sns c fs = Some (RMF_SUCCESS, word_of_nat (length a + length b), Some (a @ b), c1, fs1)"
      "crc_ready c1" "healthy fs1" "disk fs1 = disk fs"
    by (rule read_cache_files_ok[OF assms(1,2) d l(1,2)])
  have crc: "calc_mpeg2_crc c1 (a @ b) 0 (length a + length b) = Some ?v"
    using calc_crc_of[of c1 "length a + length b" "a @ b"] 1(2) l(5) by (simp add: crc_ready_def)
  have d1: "disk fs1 f_si = Some b" using 1(4) d(2) by simp
  obtain c2 fs2 where 2: "write_crc f_si ?v c1 fs1 = Some (RMF_SUCCESS, c2, fs2)" "crc_ready c2" "healthy fs2"
      "disk fs2 = (disk fs1)(f_si \<mapsto> b @ le32 ?v)"
    by (rule write_crc_ok[OF 1(2,3) d1 l(3,4)])
  have w: "write_crc_for_si_and_sns_cache f_si f_sns c fs = Some (RMF_SUCCESS, c2, fs2)"
    using 1(1) crc 2(1) l(2) by (simp add: write_crc_for_si_and_sns_cache_def unat_file_size del: of_nat_add)
  have d2: "disk fs2 f_sns = Some a" "disk fs2 f_si = Some (b @ le32 ?v)" using 2(4) 1(4) d(1) assms(3) by simp_all
  have t4: "take 4 (b @ le32 ?v) = take 4 b" using len(1) by simp
  have l4: "length (le32 ?v) = 4" by simp
  obtain c3 fs3 where 3: "verify_version_and_crc f_si f_sns c2 fs2 =
      Some (\<not> (of_le (take 4 (b @ le32 ?v)) :: 32 word) < RMF_SI_CACHE_FILE_VERSION \<and> ?v = of_le (le32 ?v), c3, fs3)"
    by (rule verify_version_ok[OF 2(2,3) d2 l4 l(5) len(2)])
  have bad: "\<exists>c'' fs''. verify_version_and_crc f_si f_sns c2 fs' = Some (False, c'', fs'')"
    if h: "healthy fs'" and ds: "disk fs' f_sns = Some a'" "disk fs' f_si = Some (b' @ w')"
      and ls: "length a' = length a" "length b' = length b" and dm: "damaged (a @ b) (le32 ?v) (a' @ b') w'" for fs' a' b' w'
  proof -
    have w': "length w' = 4" "crc_of (a' @ b') \<noteq> of_le w'" using damaged_crc[OF dm] by simp_all
    have ls': "4 \<le> length a' + length b'" "length a' + length b' + 4 < 2 ^ 32" using l(5) len(2) ls by simp_all
    obtain c'' fs'' where "verify_version_and_crc f_si f_sns c2 fs' =
      Some (\<not> (of_le (take 4 (b' @ w')) :: 32 word) < RMF_SI_CACHE_FILE_VERSION \<and> crc_of (a' @ b') = of_le w', c'', fs'')"
      by (rule verify_version_ok[OF 2(2) h ds w'(1) ls'])
    with w'(2) show ?thesis by simp
  qed
  have "verify_version_and_crc f_si f_sns c2 fs2 = Some (RMF_SI_CACHE_FILE_VERSION \<le> (of_le (take 4 b) :: 32 word), c3, fs3)"
    using 3 by (simp only: t4 of_le_le32 not_less simp_thms)
  with w 2(4) 1(4) bad l4 show ?thesis by (intro exI[of _ "le32 ?v"] exI[of _ c2] exI[of _ fs2] exI[of _ c3] exI[of _ fs3]) auto
qed

definition two_files :: rmf_osal_fs where
  "two_files = \<lparr>disk = [''sns'' \<mapsto> [7, 9], ''si'' \<mapsto> [1, 1, 0, 0, 5]], outcome = (\<lambda>_. IO_ok), io_calls = 0\<rparr>"

theorem cache_files_checked_witness:
  "\<exists>w c1 fs1 c2 fs2. write_crc_for_si_and_sns_cache ''si'' ''sns'' (init_mpeg2_crc (rmf_OobSiCache_new 0 0 (\<lambda>_. True) 0)) two_files = Some (RMF_SUCCESS, c1, fs1) \<and>
     verify_version_and_crc ''si'' ''sns'' c1 fs1 = Some (True, c2, fs2) \<and>
     (\<exists>c3 fs3. verify_version_and_crc ''si'' ''sns'' c1 (two_files\<lparr>disk := [''sns'' \<mapsto> [7, 8], ''si'' \<mapsto> [1, 1, 0, 0, 5] @ w]\<rparr>) = Some (False, c3, fs3))"
proof -
  let ?c = "init_mpeg2_crc (rmf_OobSiCache_new 0 0 (\<lambda>_. True) 0)" and ?bad = "\<lambda>w. two_files\<lparr>disk := [''sns'' \<mapsto> [7, 8], ''si'' \<mapsto> [1, 1, 0, 0, 5] @ w]\<rparr>"
  have r: "crc_ready ?c" by (simp add: crc_ready_def init_mpeg2_crc_def rmf_OobSiCache_new_def)
  have h: "healthy two_files" "\<And>d. healthy (two_files\<lparr>disk := d\<rparr>)" by (simp_all add: healthy_def two_files_def)
  have d: "disk two_files ''sns'' = Some [7, 9]" "disk two_files ''si'' = Some [1, 1, 0, 0, 5]" by (simp_all add: two_files_def)
  have l: "''sns'' \<noteq> ''si''" "4 \<le> length [1, 1, 0, 0, 5 :: byte]" "length [7, 9 :: byte] + length [1, 1, 0, 0, 5 :: byte] + 4 < 2 ^ 32" by simp_all
  obtain w c1 fs1 c2 fs2 where 1: "write_crc_for_si_and_sns_cache ''si'' ''sns'' ?c two_files = Some (RMF_SUCCESS, c1, fs1)"
      "verify_version_and_crc ''si'' ''sns'' c1 fs1 = Some (RMF_SI_CACHE_FILE_VERSION \<le> (of_le (take 4 [1, 1, 0, 0, 5]) :: 32 word), c2, fs2)"
    and bad: "\<forall>fs' a' b' w'. healthy fs' \<and> disk fs' ''sns'' = Some a' \<and> disk fs' ''si'' = Some (b' @ w') \<and>
       length a' = length [7, 9 :: byte] \<and> length b' = length [1, 1, 0, 0, 5 :: byte] \<and> damaged ([7, 9] @ [1, 1, 0, 0, 5]) w (a' @ b') w' \<longrightarrow>
       (\<exists>c'' fs''. verify_version_and_crc ''si'' ''sns'' c1 fs' = Some (False, c'', fs''))"
    using cache_files_checked[OF r h(1) l(1) d l(2,3)] by blast
  have "[7, 9] @ [1, 1, 0, 0, 5] = [7] @ [9] @ [1, 1, 0, 0, 5 :: byte]" "[7, 8] @ [1, 1, 0, 0, 5] = [7] @ [8] @ [1, 1, 0, 0, 5 :: byte]" by simp_all
  then have "damaged ([7, 9] @ [1, 1, 0, 0, 5]) w ([7, 8] @ [1, 1, 0, 0, 5]) w" unfolding damaged_def
    by (intro disjI1 conjI exI[of _ "[7]"] exI[of _ "[9]"] exI[of _ "[8]"] exI[of _ "[1, 1, 0, 0, 5]"]) simp_all
  with bad[rule_format, of "?bad w" "[7, 8]" "[1, 1, 0, 0, 5]" w] h(2) have "\<exists>c3 fs3. verify_version_and_crc ''si'' ''sns'' c1 (?bad w) = Some (False, c3, fs3)"
    by simp
  moreover have "RMF_SI_CACHE_FILE_VERSION \<le> (of_le (take 4 [1, 1, 0, 0, 5]) :: 32 word)" by code_simp
  ultimately show ?thesis using 1 by auto
qed

end
