(* ===== verification/InbPsi.thy ===== *)
theory InbPsi
  imports SectionRequests
begin

text \<open>
  The inband SI manager (\<open>qamsource/simgr/inband/src/rmf_inbsimgr.cpp\<close>): its state, the clients registered with it,
  the events it posts, and the filters it sets for the program association, program map, conditional
  access and time tables. The configuration is the one of the makefile without the inband SI cache and with conditional
  access: \<open>CAT_FUNCTIONALITY\<close>, \<open>USE_EXTERNAL_CAS\<close> and the three section buffers. The mutexes are recursive; each operation runs
  between an acquisition and a release, and the model runs them one after another.
\<close>

section \<open>State\<close>

type_synonym cstr = "byte list"

record rmf_pmtInfo =
  program_no :: "16 word"
  pmt_pid :: "16 word"

text \<open>A descriptor without content has the content pointer NULL; here its content is empty.\<close>

record rmf_SiMpeg2Descriptor =
  tag :: byte
  descriptor_length :: byte
  descriptor_content :: "byte list"

datatype rmf_SiServiceComponentType =
    RMF_SI_COMP_TYPE_UNKNOWN | RMF_SI_COMP_TYPE_VIDEO | RMF_SI_COMP_TYPE_AUDIO
  | RMF_SI_COMP_TYPE_SUBTITLES | RMF_SI_COMP_TYPE_DATA | RMF_SI_COMP_TYPE_SECTIONS

record rmf_SiElementaryStream =
  elementary_stream_type :: byte
  service_comp_type :: rmf_SiServiceComponentType
  service_component_names :: "(cstr \<times> cstr) list"
  elementary_PID :: "32 word"
  associated_language :: "byte list"
  es_info_length :: "32 word"
  number_desc :: "32 word"
  descriptors :: "rmf_SiMpeg2Descriptor list"

datatype rmf_psi_table_type_e =
    TABLE_TYPE_PAT | TABLE_TYPE_PMT | TABLE_TYPE_CVCT | TABLE_TYPE_NONE | TABLE_TYPE_DVB | TABLE_TYPE_CAT
  | TABLE_TYPE_TDT | TABLE_TYPE_TOT | TABLE_TYPE_SECTION

record rmf_PsiParam =
  pp_table_type :: rmf_psi_table_type_e
  pp_pid :: "16 word"
  pp_table_id_extension :: "16 word"
  pp_version_number :: "16 word"
  pp_priority :: byte
  pp_table_id :: byte

record rmf_FilterInfo =
  fi_program_number :: "16 word"
  fi_pid :: "16 word"
  fi_filterId :: "32 word"
  fi_oneShotMode :: bool

record rmf_InbSiRegistration =
  reg_queueId :: "32 word"
  reg_frequency :: "32 word"
  reg_program_number :: "16 word"

record SectionFilterInfo =
  sfi_pid :: "16 word"
  sfi_data :: "byte list"
  sfi_data_length :: "32 word"
  sfi_getNewECM :: bool
  sfi_newEcmData :: bool

text \<open>
  An array behind a pointer is a list of its allocated length (None: NULL). \<open>m_section_filter_list\<close> is kept in the
  order of its keys, as \<open>std::map\<close> iterates. \<open>psi_events\<close> collects what is posted to the queues of the clients,
  \<open>filter_events\<close> what the section filter posts; \<open>allocs\<close> counts the allocations and \<open>mem_ok n\<close> says whether the
  n-th succeeds.
\<close>

record rmf_InbSiMgr =
  g_inbsi_registration_list :: "rmf_InbSiRegistration list"
  m_catTable :: "byte list option"
  m_catTableSize :: "16 word"
  m_total_descriptor_length :: "16 word"
  m_bIsCATFilterSet :: bool
  m_bIsCATAvailable :: bool
  catVersionNumber :: "16 word"
  catCRC :: "32 word"
  num_cat_sections :: "32 word"
  m_tdtTable :: "byte list option"
  m_tdtTableSize :: nat
  m_totTable :: "byte list option"
  m_totTableSize :: nat
  m_bIsPATFilterSet :: bool
  m_bIsPATAvailable :: bool
  m_NegativeFiltersEnabled :: bool
  m_pmtInfoList :: "rmf_pmtInfo list option"
  m_pmtListLen :: nat
  m_pmtListMaxSize :: nat
  patVersionNumber :: "16 word"
  pmtVersionNumber :: "16 word"
  patCRC :: "32 word"
  pmtCRC :: "32 word"
  number_outer_desc :: "32 word"
  outer_descriptors :: "rmf_SiMpeg2Descriptor list"
  number_elem_streams :: "32 word"
  elementary_streams :: "rmf_SiElementaryStream list"
  descriptors_in_use :: bool
  pmtPid :: "16 word"
  pcrPid :: "16 word"
  ts_id :: "16 word"
  pmtBuf :: "byte list"
  pmtBufLen :: "32 word"
  patBuf :: "byte list"
  patBufLen :: "32 word"
  catBuf :: "byte list"
  catBufLen :: "32 word"
  m_freq :: "32 word"
  m_modulation_mode :: byte
  m_filter_list :: "rmf_FilterInfo list"
  num_sections :: "32 word"
  m_section_filter_list :: "(32 word \<times> SectionFilterInfo) list"
  isPaused :: bool
  m_pInbSectionFilter :: rmf_SectionFilter
  m_FilterQueueId :: "32 word"
  pat_cond :: bool
  cat_cond :: bool
  psi_events :: "(32 word \<times> 32 word \<times> 32 word) list"
  filter_events :: "sf_posted list"
  mem_ok :: "nat \<Rightarrow> bool"
  allocs :: nat

abbreviation (input) RMF_INBSI_NOT_FOUND :: rmf_Error where "RMF_INBSI_NOT_FOUND \<equiv> 0x5001"
abbreviation (input) RMF_INBSI_OUT_OF_MEM :: rmf_Error where "RMF_INBSI_OUT_OF_MEM \<equiv> 0x5002"
abbreviation (input) RMF_INBSI_INVALID_PARAMETER :: rmf_Error where "RMF_INBSI_INVALID_PARAMETER \<equiv> 0x5003"
abbreviation (input) RMF_INBSI_PAT_NOT_AVAILABLE :: rmf_Error where "RMF_INBSI_PAT_NOT_AVAILABLE \<equiv> 0x5005"
abbreviation (input) INIT_TABLE_VERSION :: "16 word" where "INIT_TABLE_VERSION \<equiv> 32"
abbreviation (input) RMF_SI_CHANGE_TYPE_ADD :: "32 word" where "RMF_SI_CHANGE_TYPE_ADD \<equiv> 1"
abbreviation (input) RMF_SI_CHANGE_TYPE_REMOVE :: "32 word" where "RMF_SI_CHANGE_TYPE_REMOVE \<equiv> 2"
abbreviation (input) RMF_SI_CHANGE_TYPE_MODIFY :: "32 word" where "RMF_SI_CHANGE_TYPE_MODIFY \<equiv> 3"
abbreviation (input) RMF_SI_EVENT_IB_PAT_ACQUIRED :: "32 word" where "RMF_SI_EVENT_IB_PAT_ACQUIRED \<equiv> 0x3001"
abbreviation (input) RMF_SI_EVENT_IB_PMT_ACQUIRED :: "32 word" where "RMF_SI_EVENT_IB_PMT_ACQUIRED \<equiv> 0x3002"
abbreviation (input) RMF_SI_EVENT_IB_PAT_UPDATE :: "32 word" where "RMF_SI_EVENT_IB_PAT_UPDATE \<equiv> 0x3005"
abbreviation (input) RMF_SI_EVENT_IB_PMT_UPDATE :: "32 word" where "RMF_SI_EVENT_IB_PMT_UPDATE \<equiv> 0x3006"
abbreviation (input) RMF_SI_EVENT_SI_NOT_AVAILABLE_YET :: "32 word" where "RMF_SI_EVENT_SI_NOT_AVAILABLE_YET \<equiv> 0x3009"
abbreviation (input) RMF_SI_EVENT_IB_CAT_ACQUIRED :: "32 word" where "RMF_SI_EVENT_IB_CAT_ACQUIRED \<equiv> 0x3014"
abbreviation (input) RMF_SI_EVENT_IB_CAT_UPDATE :: "32 word" where "RMF_SI_EVENT_IB_CAT_UPDATE \<equiv> 0x3015"
abbreviation (input) RMF_SI_EVENT_IB_TDT_ACQUIRED :: "32 word" where "RMF_SI_EVENT_IB_TDT_ACQUIRED \<equiv> 0x3016"
abbreviation (input) RMF_SI_EVENT_IB_TOT_ACQUIRED :: "32 word" where "RMF_SI_EVENT_IB_TOT_ACQUIRED \<equiv> 0x3017"
abbreviation (input) RMF_SI_EVENT_IB_SECTION_ACQUIRED :: "32 word" where "RMF_SI_EVENT_IB_SECTION_ACQUIRED \<equiv> 0x3018"
abbreviation (input) PROGRAM_ASSOCIATION_TABLE_ID :: byte where "PROGRAM_ASSOCIATION_TABLE_ID \<equiv> 0"
abbreviation (input) CONDITIONAL_ACCESS_TABLE_ID :: byte where "CONDITIONAL_ACCESS_TABLE_ID \<equiv> 1"
abbreviation (input) PROGRAM_MAP_TABLE_ID :: byte where "PROGRAM_MAP_TABLE_ID \<equiv> 2"
abbreviation (input) TDT_TABLE_ID :: byte where "TDT_TABLE_ID \<equiv> 0x70"
abbreviation (input) TOT_TABLE_ID :: byte where "TOT_TABLE_ID \<equiv> 0x73"
abbreviation (input) TDT_TOT_PID :: "16 word" where "TDT_TOT_PID \<equiv> 0x14"
abbreviation (input) CAT_PID :: "16 word" where "CAT_PID \<equiv> 1"
abbreviation (input) MAX_IB_SECTION_LENGTH :: "32 word" where "MAX_IB_SECTION_LENGTH \<equiv> 1021"
abbreviation (input) PMT_LIST_DEFAULT_LEN :: nat where "PMT_LIST_DEFAULT_LEN \<equiv> 16"
abbreviation (input) PMT_LIST_MAX_LEN :: nat where "PMT_LIST_MAX_LEN \<equiv> 128"
abbreviation (input) RMF_SI_SECTION_MAX_SIZE :: nat where "RMF_SI_SECTION_MAX_SIZE \<equiv> 1024"

text \<open>What the event library, the section filter and the driver answer during one call.\<close>

record inb_env =
  inb_create :: rmf_Error
  inb_add :: "32 word \<Rightarrow> rmf_Error"
  inb_release :: sf_env
  inb_filter :: filter_env
  inb_info_alloc :: bool
  pmtInfo_stack :: "rmf_pmtInfo list"

definition inb_alloc :: "rmf_InbSiMgr \<Rightarrow> bool \<times> rmf_InbSiMgr" where
  "inb_alloc M = (mem_ok M (allocs M), M\<lparr>allocs := Suc (allocs M)\<rparr>)"

section \<open>The constructor\<close>

text \<open>
  The fields the constructor leaves alone keep what the new object holds: \<open>pmtCRC\<close>, \<open>pmtPid\<close>, \<open>pcrPid\<close>, \<open>ts_id\<close> and the three section
  buffers with their lengths. The flag for negative filters is static; an environment setting can only set it.
\<close>

definition rmf_InbSiMgr_new ::
  "32 word \<Rightarrow> byte \<Rightarrow> bool \<Rightarrow> rmf_SectionFilter \<Rightarrow> 32 word \<Rightarrow> rmf_InbSiMgr \<Rightarrow> rmf_InbSiMgr" where
  "rmf_InbSiMgr_new freq modulation_mode negative_env section_filter queue M =
     (let M = M\<lparr>g_inbsi_registration_list := [], isPaused := False, pat_cond := False, cat_cond := False,
                m_bIsPATAvailable := False, m_bIsPATFilterSet := False, m_catTable := None, m_catTableSize := 0,
                m_total_descriptor_length := 0, m_bIsCATAvailable := False, m_bIsCATFilterSet := False,
                catVersionNumber := INIT_TABLE_VERSION, catCRC := 0, num_cat_sections := 0,
                m_NegativeFiltersEnabled := negative_env \<or> m_NegativeFiltersEnabled M, m_freq := freq,
                m_modulation_mode := modulation_mode, num_sections := 0, m_pInbSectionFilter := section_filter,
                m_FilterQueueId := queue, m_filter_list := [], m_section_filter_list := []\<rparr>;
          (ok, M) = inb_alloc M
      in M\<lparr>m_pmtInfoList := (if ok then Some (replicate PMT_LIST_DEFAULT_LEN \<lparr>program_no = 0, pmt_pid = 0\<rparr>) else None),
           m_pmtListMaxSize := PMT_LIST_DEFAULT_LEN, m_pmtListLen := 0, patVersionNumber := INIT_TABLE_VERSION,
           pmtVersionNumber := INIT_TABLE_VERSION, outer_descriptors := [], elementary_streams := [],
           number_elem_streams := 0, number_outer_desc := 0, descriptors_in_use := False, patCRC := 0,
           m_tdtTable := None, m_tdtTableSize := 0, m_totTable := None, m_totTableSize := 0\<rparr>)"

section \<open>Clients and events\<close>

text \<open>
  One event is created and added to the queue of every client; a queue that refuses it is logged only.
\<close>

definition dispatch_event :: "inb_env \<Rightarrow> 32 word \<Rightarrow> 32 word \<Rightarrow> rmf_InbSiMgr \<Rightarrow> rmf_Error \<times> rmf_InbSiMgr" where
  "dispatch_event env event optionalEventData M =
     (if inb_create env \<noteq> RMF_SUCCESS then (inb_create env, M)
      else (RMF_SUCCESS,
            M\<lparr>psi_events := psi_events M @
               map (\<lambda>r. (reg_queueId r, event, optionalEventData))
                 (filter (\<lambda>r. inb_add env (reg_queueId r) = RMF_SUCCESS) (g_inbsi_registration_list M))\<rparr>))"

text \<open>The event of a table and a kind of change; 0 is no event.\<close>

definition table_event :: "rmf_psi_table_type_e \<Rightarrow> 32 word \<Rightarrow> 32 word" where
  "table_event table_type changeType =
     (let by_change = (\<lambda>acquired updated.
            if changeType = RMF_SI_CHANGE_TYPE_ADD then acquired
            else if changeType = RMF_SI_CHANGE_TYPE_MODIFY then updated
            else if changeType = RMF_SI_CHANGE_TYPE_REMOVE then updated else 0)
      in case table_type of
           TABLE_TYPE_TDT \<Rightarrow> RMF_SI_EVENT_IB_TDT_ACQUIRED
         | TABLE_TYPE_TOT \<Rightarrow> RMF_SI_EVENT_IB_TOT_ACQUIRED
         | TABLE_TYPE_SECTION \<Rightarrow> RMF_SI_EVENT_IB_SECTION_ACQUIRED
         | TABLE_TYPE_PAT \<Rightarrow> by_change RMF_SI_EVENT_IB_PAT_ACQUIRED RMF_SI_EVENT_IB_PAT_UPDATE
         | TABLE_TYPE_PMT \<Rightarrow> by_change RMF_SI_EVENT_IB_PMT_ACQUIRED RMF_SI_EVENT_IB_PMT_UPDATE
         | TABLE_TYPE_CAT \<Rightarrow> by_change RMF_SI_EVENT_IB_CAT_ACQUIRED RMF_SI_EVENT_IB_CAT_UPDATE
         | _ \<Rightarrow> 0)"

definition inb_NotifyTableChanged ::
  "inb_env \<Rightarrow> rmf_psi_table_type_e \<Rightarrow> 32 word \<Rightarrow> 32 word \<Rightarrow> rmf_InbSiMgr \<Rightarrow> rmf_Error \<times> rmf_InbSiMgr" where
  "inb_NotifyTableChanged env table_type changeType optional_data M =
     (let event = table_event table_type changeType;
          optionalEventData3 = (if table_type = TABLE_TYPE_SECTION then optional_data else changeType)
      in if event = 0 then (RMF_SUCCESS, M)
         else (RMF_SUCCESS, snd (dispatch_event env event optionalEventData3 M)))"

definition notifySIDB :: "inb_env \<Rightarrow> rmf_psi_table_type_e \<Rightarrow> bool \<Rightarrow> bool \<Rightarrow> bool \<Rightarrow> rmf_InbSiMgr \<Rightarrow> rmf_InbSiMgr" where
  "notifySIDB env table_type init_version new_version new_crc M =
     (if new_version then
        snd (inb_NotifyTableChanged env table_type (if init_version then RMF_SI_CHANGE_TYPE_ADD else RMF_SI_CHANGE_TYPE_MODIFY) 0 M)
      else if new_crc then snd (inb_NotifyTableChanged env table_type RMF_SI_CHANGE_TYPE_MODIFY 0 M)
      else M)"

definition RegisterForPSIEvents :: "32 word \<Rightarrow> 16 word \<Rightarrow> rmf_InbSiMgr \<Rightarrow> rmf_Error \<times> rmf_InbSiMgr" where
  "RegisterForPSIEvents queueId program_number M =
     (let (ok, M) = inb_alloc M
      in if \<not> ok then (RMF_INBSI_OUT_OF_MEM, M)
         else (RMF_SUCCESS, M\<lparr>g_inbsi_registration_list := g_inbsi_registration_list M @
                 [\<lparr>reg_queueId = queueId, reg_frequency = m_freq M, reg_program_number = program_number\<rparr>]\<rparr>))"

text \<open>The head of the list is compared by its queue alone.\<close>

fun unregister_walk :: "32 word \<Rightarrow> 16 word \<Rightarrow> rmf_InbSiRegistration list \<Rightarrow> rmf_InbSiRegistration list" where
  "unregister_walk queueId program_number [] = []"
| "unregister_walk queueId program_number (r # walker) =
     (if reg_queueId r = queueId \<and> reg_program_number r = program_number then walker
      else r # unregister_walk queueId program_number walker)"

definition UnRegisterForPSIEvents :: "32 word \<Rightarrow> 16 word \<Rightarrow> rmf_InbSiMgr \<Rightarrow> rmf_Error \<times> rmf_InbSiMgr" where
  "UnRegisterForPSIEvents queueId program_number M =
     (case g_inbsi_registration_list M of
        [] \<Rightarrow> (RMF_OSAL_EINVAL, M)
      | r # rest \<Rightarrow>
          (RMF_SUCCESS, M\<lparr>g_inbsi_registration_list :=
             if reg_queueId r = queueId then rest else unregister_walk queueId program_number (r # rest)\<rparr>))"

section \<open>Filters\<close>

text \<open>
  The arrays \<open>tid_val\<close>, \<open>tid_mask\<close>, \<open>ver_val\<close> and \<open>ver_mask\<close> of \<open>set_filter\<close>. For an unknown table type the positive
  component is left without arrays.
\<close>

definition psi_filter_spec :: "rmf_PsiParam \<Rightarrow> rmf_FilterSpec" where
  "psi_filter_spec psiParam =
     (let ext = pp_table_id_extension psiParam;
          pos = (\<lambda>n vals mask. \<lparr>fc_length = n, fc_mask = Some mask, fc_vals = Some vals\<rparr>);
          mask = [0xFF, 0, 0, 0, 0, 1];
          pos_part =
            (case pp_table_type psiParam of
               TABLE_TYPE_PAT \<Rightarrow> pos 6 [PROGRAM_ASSOCIATION_TABLE_ID, 0, 0, 0, 0, 1] mask
             | TABLE_TYPE_CAT \<Rightarrow> pos 6 [CONDITIONAL_ACCESS_TABLE_ID, 0, 0, 0, 0, 1] mask
             | TABLE_TYPE_PMT \<Rightarrow> pos 6 [PROGRAM_MAP_TABLE_ID, 0, 0, ucast (drop_bit 8 ext), ucast ext, 1] [0xFF, 0, 0, 0xFF, 0xFF, 1]
             | TABLE_TYPE_TDT \<Rightarrow> pos 1 [pp_table_id psiParam, 0, 0, 0, 0, 1] [0xFC, 0, 0, 0, 0, 1]
             | _ \<Rightarrow> \<lparr>fc_length = 6, fc_mask = None, fc_vals = None\<rparr>);
          ver = pp_version_number psiParam
      in \<lparr>fs_pos = pos_part,
          fs_neg = (if ver = INIT_TABLE_VERSION
                    then \<lparr>fc_length = 0, fc_mask = Some [0, 0, 0, 0, 0, 0x3E], fc_vals = Some [0, 0, 0, 0, 0, 0x40]\<rparr>
                    else \<lparr>fc_length = 6, fc_mask = Some [0, 0, 0, 0, 0, 0x3E],
                          fc_vals = Some [0, 0, 0, 0, 0, ucast (push_bit 1 ver)]\<rparr>)\<rparr>)"

text \<open>The call of \<open>SetFilter\<close> and, on success, the entry of the filter list.\<close>

definition inb_SetFilter ::
  "inb_env \<Rightarrow> rmf_FilterSpec \<Rightarrow> byte \<Rightarrow> rmf_InbSiMgr \<Rightarrow> (rmf_Error \<times> 32 word option \<times> rmf_InbSiMgr) option" where
  "inb_SetFilter env spec priority M =
     (let fe = inb_filter env
      in do { (ret, uid, posted, sf) \<leftarrow>
                SetFilter (create_result fe) (start_result fe) (request_alloc fe) (new_queue fe) (set_env fe)
                  (Some spec) (m_FilterQueueId M) priority 0 (m_pInbSectionFilter M);
              Some (ret, uid, M\<lparr>m_pInbSectionFilter := sf, filter_events := filter_events M @ posted\<rparr>) })"

definition set_filter :: "inb_env \<Rightarrow> rmf_PsiParam \<Rightarrow> rmf_InbSiMgr \<Rightarrow> (rmf_Error \<times> rmf_InbSiMgr) option" where
  "set_filter env psiParam M =
     do { (ret, uid, M) \<leftarrow> inb_SetFilter env (psi_filter_spec psiParam) (pp_priority psiParam) M;
          if ret = RMF_SUCCESS then
            if \<not> inb_info_alloc env then Some (RMF_INBSI_OUT_OF_MEM, M)
            else Some (ret, M\<lparr>m_filter_list := m_filter_list M @
                   [\<lparr>fi_program_number = (if pp_table_type psiParam = TABLE_TYPE_PMT then pp_table_id_extension psiParam else 0),
                     fi_pid = pp_pid psiParam, fi_filterId = (case uid of None \<Rightarrow> 0 | Some i \<Rightarrow> i), fi_oneShotMode = False\<rparr>]\<rparr>)
          else Some (ret, M) }"

definition inb_ReleaseFilter :: "inb_env \<Rightarrow> 32 word \<Rightarrow> rmf_InbSiMgr \<Rightarrow> rmf_InbSiMgr option" where
  "inb_ReleaseFilter env filterId M =
     do { (_, posted, sf) \<leftarrow> ReleaseFilter (inb_release env) filterId (m_pInbSectionFilter M);
          Some (M\<lparr>m_pInbSectionFilter := sf, filter_events := filter_events M @ posted\<rparr>) }"

fun remove_first :: "('a \<Rightarrow> bool) \<Rightarrow> 'a list \<Rightarrow> 'a list" where
  "remove_first P [] = []"
| "remove_first P (x # xs) = (if P x then xs else x # remove_first P xs)"

text \<open>The loops that release the first filter of the list with some property and take it out of the list.\<close>

definition release_first ::
  "inb_env \<Rightarrow> (rmf_FilterInfo \<Rightarrow> bool) \<Rightarrow> rmf_InbSiMgr \<Rightarrow> (rmf_FilterInfo option \<times> rmf_InbSiMgr) option" where
  "release_first env P M =
     (case List.find P (m_filter_list M) of
        None \<Rightarrow> Some (None, M)
      | Some f \<Rightarrow> do { M \<leftarrow> inb_ReleaseFilter env (fi_filterId f) M;
                      Some (Some f, M\<lparr>m_filter_list := remove_first P (m_filter_list M)\<rparr>) })"

definition releaseFilter :: "inb_env \<Rightarrow> 32 word \<Rightarrow> rmf_InbSiMgr \<Rightarrow> (rmf_Error \<times> rmf_InbSiMgr) option" where
  "releaseFilter env filterId M =
     do { (_, M) \<leftarrow> release_first env (\<lambda>f. fi_filterId f = filterId) M; Some (RMF_SUCCESS, M) }"

fun cancel_loop :: "inb_env \<Rightarrow> rmf_FilterInfo list \<Rightarrow> rmf_InbSiMgr \<Rightarrow> rmf_InbSiMgr option" where
  "cancel_loop env [] M = Some M"
| "cancel_loop env (f # fiter) M = do { M \<leftarrow> inb_ReleaseFilter env (fi_filterId f) M; cancel_loop env fiter M }"

definition cancel_all_filters :: "inb_env \<Rightarrow> rmf_InbSiMgr \<Rightarrow> rmf_InbSiMgr option" where
  "cancel_all_filters env M =
     do { M \<leftarrow> cancel_loop env (m_filter_list M) M; Some (M\<lparr>m_filter_list := []\<rparr>) }"

text \<open>The priority of the new filter is \<open>RMF_PSI_WAIT_REVISION\<close>, a state and not a priority: 4.\<close>

definition negative_filter_param :: "rmf_psi_table_type_e \<Rightarrow> rmf_FilterInfo \<Rightarrow> rmf_InbSiMgr \<Rightarrow> rmf_PsiParam" where
  "negative_filter_param type f M =
     (let pat = \<lparr>pp_table_type = TABLE_TYPE_PAT, pp_pid = 0, pp_table_id_extension = 0, pp_version_number = patVersionNumber M,
                 pp_priority = 4, pp_table_id = PROGRAM_ASSOCIATION_TABLE_ID\<rparr>
      in case type of
           TABLE_TYPE_PMT \<Rightarrow> pat\<lparr>pp_pid := fi_pid f, pp_table_type := TABLE_TYPE_PMT, pp_table_id_extension := fi_program_number f,
                                 pp_version_number := pmtVersionNumber M, pp_table_id := PROGRAM_MAP_TABLE_ID\<rparr>
         | TABLE_TYPE_CAT \<Rightarrow> pat\<lparr>pp_pid := fi_pid f, pp_table_type := TABLE_TYPE_CAT, pp_table_id_extension := 0,
                                 pp_version_number := catVersionNumber M, pp_table_id := CONDITIONAL_ACCESS_TABLE_ID\<rparr>
         | _ \<Rightarrow> pat)"

definition configure_negative_filters :: "inb_env \<Rightarrow> rmf_psi_table_type_e \<Rightarrow> rmf_InbSiMgr \<Rightarrow> rmf_InbSiMgr option" where
  "configure_negative_filters env type M =
     (let wanted = (case type of
            TABLE_TYPE_PAT \<Rightarrow> Some (\<lambda>f. fi_program_number f = 0 \<and> fi_pid f = 0)
          | TABLE_TYPE_PMT \<Rightarrow> Some (\<lambda>f. fi_program_number f > 0)
          | TABLE_TYPE_CAT \<Rightarrow> Some (\<lambda>f. fi_program_number f = 0 \<and> fi_pid f = CAT_PID)
          | _ \<Rightarrow> None)
      in case wanted of
           None \<Rightarrow> Some M
         | Some P \<Rightarrow>
             do { (found, M) \<leftarrow> release_first env P M;
                  case found of
                    None \<Rightarrow> Some M
                  | Some f \<Rightarrow> do { (_, M) \<leftarrow> set_filter env (negative_filter_param type f M) M; Some M } })"

section \<open>What a filter lets through\<close>

text \<open>
  The documented meaning of a filter specification (\<open>rmf_sectionfilter.h\<close>): the masked section equals the positive
  values and does not equal the negative ones; a component of length 0 is absent.
\<close>

definition component_matches :: "rmf_FilterComponent \<Rightarrow> byte list \<Rightarrow> bool" where
  "component_matches fc ds \<longleftrightarrow>
     (case (fc_mask fc, fc_vals fc) of
        (Some m, Some v) \<Rightarrow> \<forall>i \<in> {0..<unat (fc_length fc)}. ds ! i AND m ! i = v ! i
      | _ \<Rightarrow> False)"

definition filter_passes :: "rmf_FilterSpec \<Rightarrow> byte list \<Rightarrow> bool" where
  "filter_passes spec ds \<longleftrightarrow>
     component_matches (fs_pos spec) ds \<and> (fc_length (fs_neg spec) = 0 \<or> \<not> component_matches (fs_neg spec) ds)"

text \<open>\<open>version_number\<close> and \<open>current_next_indicator\<close> in the sixth byte of a section.\<close>

definition section_version :: "byte list \<Rightarrow> nat" where
  "section_version ds = unat (ds ! 5) div 2 mod 32"

definition section_current :: "byte list \<Rightarrow> bool" where
  "section_current ds \<longleftrightarrow> odd (unat (ds ! 5))"

lemma upt_6: "{0..<6 :: nat} = {0, 1, 2, 3, 4, 5}"
  by auto

lemma byte_current: "(d :: byte) AND 1 = 1 \<longleftrightarrow> odd (unat d)"
proof -
  have "d AND 1 = of_bool (odd d)" by (simp add: and_one_eq mod_2_eq_odd)
  moreover have "bit (unat d) 0 \<longleftrightarrow> bit d 0" by (simp only: bit_unsigned_iff) simp
  then have "odd (unat d) \<longleftrightarrow> odd d" by (simp only: bit_0)
  ultimately show ?thesis by auto
qed

lemma byte_version:
  assumes "v < 32"
  shows "(d :: byte) AND 0x3E = word_of_nat (2 * v) \<longleftrightarrow> unat d div 2 mod 32 = v"
proof -
  have m: "(0x3E :: byte) = push_bit 1 (mask 5)" by (simp add: mask_eq_exp_minus_1)
  have "d AND push_bit k (mask 5) = push_bit k (take_bit 5 (drop_bit k d))" for k
    by (intro bit_word_eqI) (auto simp: bit_and_iff bit_push_bit_iff bit_mask_iff bit_take_bit_iff bit_drop_bit_eq)
  then have "d AND 0x3E = push_bit 1 (take_bit 5 (drop_bit 1 d))" unfolding m .
  moreover have x: "unat (take_bit 5 (drop_bit 1 d)) = unat d div 2 mod 32"
    by (simp only: unsigned_take_bit_eq unsigned_drop_bit_eq) (simp add: take_bit_eq_mod drop_bit_eq_div mod_less less_trans[OF unat_byte])
  have "unat (push_bit 1 (take_bit 5 (drop_bit 1 d))) = unat (take_bit 5 (drop_bit 1 d)) * 2"
  proof -
    have "unat (w * 2) = unat w * 2" if "unat w < 32" for w :: byte
      using that by (simp add: unat_word_ariths)
    then show ?thesis using x by (simp add: push_bit_eq_mult)
  qed
  ultimately have "unat (d AND 0x3E) = 2 * (unat d div 2 mod 32)" by (simp only: x mult.commute)
  moreover have "unat (word_of_nat (2 * v) :: byte) = 2 * v" using assms by (subst unat_of_nat_byte) simp_all
  ultimately show ?thesis by (auto simp: word_unat_eq_iff simp del: of_nat_mult of_nat_numeral)
qed

lemma be16_parts: "ucast (drop_bit 8 (be16 a b)) = a" "ucast (be16 a b) = b" "be16 (ucast (drop_bit 8 w)) (ucast w) = w"
  by (intro bit_word_eqI; auto simp: be16_def bit_simps dest: byte_bit)+

definition psi_param_pat :: "16 word \<Rightarrow> rmf_PsiParam" where
  "psi_param_pat ver = \<lparr>pp_table_type = TABLE_TYPE_PAT, pp_pid = 0, pp_table_id_extension = 0, pp_version_number = ver,
     pp_priority = 40, pp_table_id = PROGRAM_ASSOCIATION_TABLE_ID\<rparr>"

lemma negative_part:
  assumes "v \<le> 32"
  shows "let neg = fs_neg (psi_filter_spec (p\<lparr>pp_version_number := word_of_nat v\<rparr>)) in
    (fc_length neg = 0 \<or> \<not> component_matches neg ds) \<longleftrightarrow> v = 32 \<or> section_version ds \<noteq> v"
proof (cases "v = 32")
  case True
  then show ?thesis by (simp add: psi_filter_spec_def Let_def)
next
  case False
  with assms have v: "v < 32" by simp
  then have ne: "(word_of_nat v :: 16 word) \<noteq> 32"
  proof -
    have "unat (word_of_nat v :: 16 word) = v" using v by (simp add: unat_of_nat)
    then show ?thesis using v by auto
  qed
  have "ucast (push_bit 1 (word_of_nat v :: 16 word)) = (word_of_nat (2 * v) :: byte)"
    using v by (intro word_unat_eq_iff[THEN iffD2]) (simp add: unsigned_ucast_eq unat_word_ariths unat_of_nat take_bit_eq_mod push_bit_eq_mult)
  with ne v show ?thesis
    by (simp add: psi_filter_spec_def Let_def component_matches_def upt_6 byte_version section_version_def False
        del: of_nat_mult push_bit_Suc)
qed

text \<open>
  C26. The section filters of the manager, read by the documented meaning of a filter specification. With no
  known version the filter for the association table lets through exactly the sections of that table that are
  current; with a known version only those of another version. The filter for a map table selects by
  the program number as well. The filter for the time tables lets nothing through: its value 0x73 has bits its mask 0xFC leaves out.
\<close>

theorem psi_filters_select:
  assumes "v \<le> 32" "pp_version_number p = word_of_nat v"
  shows "(pp_table_type p = TABLE_TYPE_PAT \<longrightarrow> filter_passes (psi_filter_spec p) ds =
      (ds ! 0 = PROGRAM_ASSOCIATION_TABLE_ID \<and> section_current ds \<and> (v = 32 \<or> section_version ds \<noteq> v))) \<and>
    (pp_table_type p = TABLE_TYPE_CAT \<longrightarrow> filter_passes (psi_filter_spec p) ds =
      (ds ! 0 = CONDITIONAL_ACCESS_TABLE_ID \<and> section_current ds \<and> (v = 32 \<or> section_version ds \<noteq> v))) \<and>
    (pp_table_type p = TABLE_TYPE_PMT \<longrightarrow> filter_passes (psi_filter_spec p) ds =
      (ds ! 0 = PROGRAM_MAP_TABLE_ID \<and> be16 (ds ! 3) (ds ! 4) = pp_table_id_extension p \<and> section_current ds \<and>
       (v = 32 \<or> section_version ds \<noteq> v))) \<and>
    (pp_table_type p = TABLE_TYPE_TDT \<and> pp_table_id p = TDT_TABLE_ID OR TOT_TABLE_ID \<longrightarrow> \<not> filter_passes (psi_filter_spec p) ds)"
proof (intro conjI impI)
  have p: "p\<lparr>pp_version_number := word_of_nat v\<rparr> = p" using assms(2) by simp
  note neg = negative_part[OF assms(1), of p ds, unfolded p Let_def]
  have full: "x AND 0xFF = x" for x :: byte
  proof -
    have "(0xFF :: byte) = - 1" by simp
    then show ?thesis by (simp only: and.right_neutral)
  qed
  note pos = psi_filter_spec_def Let_def component_matches_def upt_6 full byte_current section_current_def
  show "filter_passes (psi_filter_spec p) ds =
      (ds ! 0 = PROGRAM_ASSOCIATION_TABLE_ID \<and> section_current ds \<and> (v = 32 \<or> section_version ds \<noteq> v))" if "pp_table_type p = TABLE_TYPE_PAT"
    unfolding filter_passes_def neg using that by (simp add: pos)
  show "filter_passes (psi_filter_spec p) ds =
      (ds ! 0 = CONDITIONAL_ACCESS_TABLE_ID \<and> section_current ds \<and> (v = 32 \<or> section_version ds \<noteq> v))" if "pp_table_type p = TABLE_TYPE_CAT"
    unfolding filter_passes_def neg using that by (simp add: pos)
  have ext: "be16 a b = w \<longleftrightarrow> a = ucast (drop_bit 8 w) \<and> b = ucast w" for a b w
    using be16_parts by auto
  show "filter_passes (psi_filter_spec p) ds =
      (ds ! 0 = PROGRAM_MAP_TABLE_ID \<and> be16 (ds ! 3) (ds ! 4) = pp_table_id_extension p \<and> section_current ds \<and>
       (v = 32 \<or> section_version ds \<noteq> v))" if "pp_table_type p = TABLE_TYPE_PMT"
    unfolding filter_passes_def neg using that by (simp add: pos ext)
  show "\<not> filter_passes (psi_filter_spec p) ds" if "pp_table_type p = TABLE_TYPE_TDT \<and> pp_table_id p = TDT_TABLE_ID OR TOT_TABLE_ID"
  proof -
    have "(d :: byte) AND 0xFC \<noteq> 0x73" for d
    proof
      assume "d AND 0xFC = 0x73"
      then have "bit (d AND 0xFC) 0 = bit (0x73 :: byte) 0" by simp
      then show False by (simp only: bit_and_iff) simp
    qed
    then show ?thesis using that by (simp add: filter_passes_def psi_filter_spec_def Let_def component_matches_def)
  qed
qed

theorem psi_filters_select_witness:
  "filter_passes (psi_filter_spec (psi_param_pat 32)) [0, 0xB0, 13, 0, 1, 0xC7, 0, 0] \<and>
   \<not> filter_passes (psi_filter_spec (psi_param_pat 3)) [0, 0xB0, 13, 0, 1, 0xC7, 0, 0]"
proof -
  let ?ds = "[0, 0xB0, 13, 0, 1, 0xC7, 0, 0 :: byte]"
  have "section_current ?ds" "section_version ?ds = 3" by (simp_all add: section_current_def section_version_def)
  then show ?thesis
    using psi_filters_select[of 32 "psi_param_pat 32" ?ds] psi_filters_select[of 3 "psi_param_pat 3" ?ds]
    by (simp add: psi_param_pat_def)
qed

section \<open>An example\<close>

definition inb_env_example :: inb_env where
  "inb_env_example = \<lparr>inb_create = RMF_SUCCESS, inb_add = (\<lambda>_. RMF_SUCCESS), inb_release = sf_env_example,
     inb_filter = \<lparr>create_result = (\<lambda>_. (RMF_SECTFLT_Success, 5)), start_result = (\<lambda>_. RMF_SECTFLT_Success), request_alloc = RMF_SUCCESS,
       new_queue = empty_queue_example, set_env = sf_env_example, set_time = 0\<rparr>,
     inb_info_alloc = True, pmtInfo_stack = replicate 128 \<lparr>program_no = 7, pmt_pid = 7\<rparr>\<rparr>"

text \<open>A new manager with one registered client; the memory of the new object held arbitrary values.\<close>

definition inb_example :: rmf_InbSiMgr where
  "inb_example = snd (RegisterForPSIEvents 11 3 (rmf_InbSiMgr_new 639000000 8 False
     \<lparr>m_sectionRequests = [], m_sectionRequestsToRemove = [], m_outstandingSections = []\<rparr> 9
     \<lparr>g_inbsi_registration_list = [], m_catTable = None, m_catTableSize = 0, m_total_descriptor_length = 0,
      m_bIsCATFilterSet = False, m_bIsCATAvailable = False, catVersionNumber = 0, catCRC = 0, num_cat_sections = 0,
      m_tdtTable = None, m_tdtTableSize = 0, m_totTable = None, m_totTableSize = 0, m_bIsPATFilterSet = False,
      m_bIsPATAvailable = False, m_NegativeFiltersEnabled = False, m_pmtInfoList = None, m_pmtListLen = 0, m_pmtListMaxSize = 0,
      patVersionNumber = 0, pmtVersionNumber = 0, patCRC = 0, pmtCRC = 1, number_outer_desc = 0, outer_descriptors = [],
      number_elem_streams = 0, elementary_streams = [], descriptors_in_use = False, pmtPid = 9, pcrPid = 9, ts_id = 9,
      pmtBuf = replicate 1024 1, pmtBufLen = 5, patBuf = replicate 1024 1, patBufLen = 5, catBuf = replicate 1024 1, catBufLen = 5,
      m_freq = 0, m_modulation_mode = 0, m_filter_list = [], num_sections = 0, m_section_filter_list = [], isPaused = False,
      m_pInbSectionFilter = \<lparr>m_sectionRequests = [], m_sectionRequestsToRemove = [], m_outstandingSections = []\<rparr>,
      m_FilterQueueId = 0, pat_cond = False, cat_cond = False, psi_events = [], filter_events = [],
      mem_ok = (\<lambda>_. True), allocs = 0\<rparr>))"

end
