(* ===== verification/InbPat.thy ===== *)
theory InbPat
  imports InbPsi
begin

text \<open>
  The program association table: \<open>parse_and_update_PAT\<close> and the look-up of a program's map PID. The parser gets the array of
  4096 bytes into which the section was read and the size of the section. Its loop over the programs
  does not always move on, hence a partial function; one round of it is \<open>pat_round\<close>.
\<close>

section \<open>The parser\<close>

record pat_state =
  ps_ptr :: nat
  ps_section_length :: "32 word"
  ps_number_of_PMTs :: "32 word"
  ps_pmtInfo :: "rmf_pmtInfo list"

abbreviation (input) MIN_VALID_PID :: "16 word" where "MIN_VALID_PID \<equiv> 0x10"
abbreviation (input) MAX_VALID_PID :: "16 word" where "MAX_VALID_PID \<equiv> 0x1FFE"

text \<open>One round of \<open>while (section_length > LENGTH_CRC_32)\<close>: error 7 or the state after it.\<close>

definition pat_round :: "byte list \<Rightarrow> pat_state \<Rightarrow> (rmf_Error + pat_state) option" where
  "pat_round section_data st =
     do { let p = ps_ptr st;
          o1 \<leftarrow> rd section_data p; o2 \<leftarrow> rd section_data (p + 1);
          o3 \<leftarrow> rd section_data (p + 2); o4 \<leftarrow> rd section_data (p + 3);
          let program_number = be16 o1 o2;
          let unknown_pid = be16 o3 o4 AND 0x1FFF;
          if \<not> (unknown_pid \<ge> MIN_VALID_PID \<and> unknown_pid \<le> MAX_VALID_PID) then Some (Inl 7)
          else
            let n = ps_number_of_PMTs st;
                st = (if program_number \<noteq> 0 then
                        st\<lparr>ps_pmtInfo := (if unat n < PMT_LIST_MAX_LEN
                             then (ps_pmtInfo st)[unat n := \<lparr>program_no = program_number, pmt_pid = unknown_pid\<rparr>] else ps_pmtInfo st),
                           ps_number_of_PMTs := n + 1\<rparr>
                      else st)
            in Some (Inr (if ps_section_length st \<ge> 8
                          then st\<lparr>ps_section_length := ps_section_length st - 4, ps_ptr := p + 4\<rparr> else st)) }"

partial_function (option) pat_loop :: "byte list \<Rightarrow> pat_state \<Rightarrow> (rmf_Error + pat_state) option" where
  "pat_loop section_data st =
     (if ps_section_length st > 4 then
        do { r \<leftarrow> pat_round section_data st;
             case r of Inl e \<Rightarrow> Some (Inl e) | Inr st \<Rightarrow> pat_loop section_data st }
      else Some (Inr st))"

record pat_table =
  pt_transport_stream_id :: "16 word"
  pt_version_number :: "16 word"
  pt_number_of_PMTs :: "32 word"
  pt_pmtInfo :: "rmf_pmtInfo list"
  pt_crc :: "32 word"

text \<open>
  Everything before \<open>PARSING_DONE\<close>: an error or the decoded table. \<open>num_sections\<close> is set before later checks fail. The
  length is unsigned, so a section shorter than its header passes the check for error 5.
\<close>

definition pat_parse ::
  "rmf_pmtInfo list \<Rightarrow> 32 word \<Rightarrow> byte list \<Rightarrow> rmf_InbSiMgr \<Rightarrow> ((rmf_Error + pat_table) \<times> rmf_InbSiMgr) option" where
  "pat_parse pmtInfo section_size section_data M =
     do { o1 \<leftarrow> rd section_data 0; o2 \<leftarrow> rd section_data 1; o3 \<leftarrow> rd section_data 2;
          let section_length = be12 o2 o3;
          if o1 \<noteq> PROGRAM_ASSOCIATION_TABLE_ID then Some (Inl 1, M)
          else if TESTBITS o2 8 8 = 0 then Some (Inl 3, M)
          else if section_length > MAX_IB_SECTION_LENGTH then Some (Inl 2, M)
          else if section_size - 3 \<noteq> section_length then Some (Inl 3, M)
          else do {
            o4 \<leftarrow> rd section_data 3; o5 \<leftarrow> rd section_data 4; o6 \<leftarrow> rd section_data 5; o8 \<leftarrow> rd section_data 7;
            let M = (if num_sections M = 0 then M\<lparr>num_sections := ucast o8 + 1\<rparr> else M);
            let section_length = section_length - 5;
            if section_length < 4 then Some (Inl 5, M)
            else do {
              r \<leftarrow> pat_loop section_data
                     \<lparr>ps_ptr = 8, ps_section_length = section_length, ps_number_of_PMTs = 0, ps_pmtInfo = pmtInfo\<rparr>;
              case r of
                Inl e \<Rightarrow> Some (Inl e, M)
              | Inr st \<Rightarrow>
                  if ps_section_length st \<noteq> 4 then Some (Inl 13, M)
                  else do {
                    let p = ps_ptr st;
                    c1 \<leftarrow> rd section_data p; c2 \<leftarrow> rd section_data (p + 1);
                    c3 \<leftarrow> rd section_data (p + 2); c4 \<leftarrow> rd section_data (p + 3);
                    Some (Inr \<lparr>pt_transport_stream_id = be16 o4 o5, pt_version_number = ucast (GETBITS o6 6 2),
                               pt_number_of_PMTs = ps_number_of_PMTs st, pt_pmtInfo = ps_pmtInfo st,
                               pt_crc = be32 c1 c2 c3 c4\<rparr>, M) } } } }"

section \<open>The update\<close>

text \<open>\<open>rmf_osal_memReallocP\<close>; the elements behind the old ones are overwritten at once.\<close>

definition realloc_list :: "nat \<Rightarrow> rmf_pmtInfo list option \<Rightarrow> rmf_pmtInfo list option" where
  "realloc_list n l = Some (take n ((case l of None \<Rightarrow> [] | Some xs \<Rightarrow> xs) @ replicate n \<lparr>program_no = 0, pmt_pid = 0\<rparr>))"

definition pat_store :: "pat_table \<Rightarrow> rmf_InbSiMgr \<Rightarrow> (rmf_Error \<times> rmf_InbSiMgr) option" where
  "pat_store t M =
     (let n = unat (pt_number_of_PMTs t);
          (ok, M) = (if n > m_pmtListMaxSize M then inb_alloc M else (True, M))
      in if \<not> ok then Some (25, M)
         else let M = (if n > m_pmtListMaxSize M
                       then M\<lparr>m_pmtInfoList := realloc_list n (m_pmtInfoList M), m_pmtListMaxSize := n\<rparr> else M)
              in do { l \<leftarrow> m_pmtInfoList M;
                      l \<leftarrow> memcpy l (pt_pmtInfo t) 0 n;
                      Some (RMF_SUCCESS, M\<lparr>m_pmtInfoList := Some l, m_pmtListLen := n, ts_id := pt_transport_stream_id t\<rparr>) })"

definition pat_available :: "rmf_InbSiMgr \<Rightarrow> rmf_InbSiMgr" where
  "pat_available M = (if \<not> m_bIsPATAvailable M then M\<lparr>m_bIsPATAvailable := True, pat_cond := True\<rparr> else M)"

text \<open>A copy of the section for clients, when it fits.\<close>

definition keep_pat :: "32 word \<Rightarrow> byte list \<Rightarrow> rmf_InbSiMgr \<Rightarrow> rmf_InbSiMgr option" where
  "keep_pat section_size section_data M =
     (if unat section_size \<le> RMF_SI_SECTION_MAX_SIZE then
        do { b \<leftarrow> memcpy (patBuf M) section_data 0 (unat section_size);
             Some (M\<lparr>patBuf := b, patBufLen := section_size\<rparr>) }
      else Some M)"

definition pat_changed :: "inb_env \<Rightarrow> pat_table \<Rightarrow> rmf_InbSiMgr \<Rightarrow> rmf_InbSiMgr option" where
  "pat_changed env t M =
     (let version_number = pt_version_number t; crc = pt_crc t
      in if num_sections M = 0 then
           do { let M = pat_available M;
                let M = notifySIDB env TABLE_TYPE_PAT (patVersionNumber M = INIT_TABLE_VERSION)
                          (patVersionNumber M \<noteq> version_number) (patCRC M \<noteq> crc) M;
                let M = M\<lparr>patVersionNumber := version_number, patCRC := crc\<rparr>;
                if m_NegativeFiltersEnabled M then configure_negative_filters env TABLE_TYPE_PAT M else Some M }
         else Some (M\<lparr>patVersionNumber := version_number, patCRC := crc\<rparr>))"

definition parse_and_update_PAT ::
  "inb_env \<Rightarrow> 32 word \<Rightarrow> byte list \<Rightarrow> rmf_InbSiMgr \<Rightarrow> (rmf_Error \<times> rmf_InbSiMgr) option" where
  "parse_and_update_PAT env section_size section_data M =
     do { (r, M) \<leftarrow> pat_parse (pmtInfo_stack env) section_size section_data M;
          case r of
            Inl e \<Rightarrow> Some (e, M)
          | Inr t \<Rightarrow>
              do { let M = M\<lparr>num_sections := num_sections M - 1\<rparr>;
                   if patVersionNumber M = INIT_TABLE_VERSION \<or> patVersionNumber M \<noteq> pt_version_number t \<or> patCRC M \<noteq> pt_crc t then
                     do { (ret, M) \<leftarrow> pat_store t M;
                          if ret \<noteq> RMF_SUCCESS then Some (ret, M)
                          else do { M \<leftarrow> pat_changed env t M; M \<leftarrow> keep_pat section_size section_data M; Some (0, M) } }
                   else
                     do { let M = (if num_sections M = 0 then pat_available M else M);
                          M \<leftarrow> keep_pat section_size section_data M; Some (0, M) } } }"

section \<open>Look-up\<close>

fun pmtpid_walk :: "16 word \<Rightarrow> nat \<Rightarrow> nat \<Rightarrow> rmf_pmtInfo list \<Rightarrow> 16 word option option" where
  "pmtpid_walk program_number 0 i l = Some None"
| "pmtpid_walk program_number (Suc n) i l =
     do { x \<leftarrow> rd l i; if program_no x = program_number then Some (Some (pmt_pid x)) else pmtpid_walk program_number n (Suc i) l }"

definition get_pmtpid_for_program :: "16 word \<Rightarrow> rmf_InbSiMgr \<Rightarrow> (rmf_Error \<times> 16 word option) option" where
  "get_pmtpid_for_program program_number M =
     do { r \<leftarrow> pmtpid_walk program_number (m_pmtListLen M) 0 (case m_pmtInfoList M of None \<Rightarrow> [] | Some l \<Rightarrow> l);
          Some (case r of None \<Rightarrow> (RMF_INBSI_NOT_FOUND, None) | Some p \<Rightarrow> (RMF_SUCCESS, Some p)) }"

definition GetTSID :: "rmf_InbSiMgr \<Rightarrow> rmf_Error \<times> 32 word" where
  "GetTSID M = (RMF_SUCCESS, ucast (ts_id M))"

section \<open>Encoded tables\<close>

definition be16_bytes :: "16 word \<Rightarrow> byte list" where
  "be16_bytes w = [ucast (drop_bit 8 w), ucast w]"

definition pid_bytes :: "16 word \<Rightarrow> byte list" where
  "pid_bytes pid = [0xE0 OR ucast (drop_bit 8 pid), ucast pid]"

definition enc_program :: "16 word \<times> 16 word \<Rightarrow> byte list" where
  "enc_program prog = be16_bytes (fst prog) @ pid_bytes (snd prog)"

definition enc_programs :: "(16 word \<times> 16 word) list \<Rightarrow> byte list" where
  "enc_programs ps = concat (map enc_program ps)"

text \<open>The header with its length field; \<open>n\<close> bytes follow the third.\<close>

definition enc_psi_header :: "byte \<Rightarrow> nat \<Rightarrow> byte list" where
  "enc_psi_header tid n = [tid, 0xB0 OR word_of_nat (n div 256), word_of_nat (n mod 256)]"

record pat_section =
  pa_transport_stream_id :: "16 word"
  pa_version :: nat
  pa_section_number :: byte
  pa_last_section_number :: byte
  pa_programs :: "(16 word \<times> 16 word) list"
  pa_stray :: "byte list"
  pa_crc :: "byte list"

definition enc_pat :: "pat_section \<Rightarrow> byte list" where
  "enc_pat s = enc_psi_header PROGRAM_ASSOCIATION_TABLE_ID (9 + 4 * length (pa_programs s) + length (pa_stray s)) @
     be16_bytes (pa_transport_stream_id s) @
     [0xC1 OR word_of_nat (2 * pa_version s), pa_section_number s, pa_last_section_number s] @
     enc_programs (pa_programs s) @ pa_stray s @ pa_crc s"

definition pid_ok :: "16 word \<Rightarrow> bool" where
  "pid_ok pid \<longleftrightarrow> MIN_VALID_PID \<le> pid \<and> pid \<le> MAX_VALID_PID"

definition pat_ok :: "pat_section \<Rightarrow> bool" where
  "pat_ok s \<longleftrightarrow> pa_version s < 32 \<and> (\<forall>prog \<in> set (pa_programs s). pid_ok (snd prog)) \<and> length (pa_crc s) = 4 \<and>
     9 + 4 * length (pa_programs s) + length (pa_stray s) \<le> 1021"

lemma be16_bytes [simp]: "be16 (ucast (drop_bit 8 w)) (ucast w) = w"
  by (rule be16_parts(3))

lemma pid_ok_13: "pid_ok pid \<Longrightarrow> unat pid < 2 ^ 13"
  by (simp add: pid_ok_def word_le_nat_alt)

lemma pid_bits: "unat (pid :: 16 word) < 2 ^ 13 \<Longrightarrow> bit pid n \<Longrightarrow> n < 13"
proof -
  assume "unat pid < 2 ^ 13" "bit pid n"
  then have "take_bit 13 (unat pid) = unat pid" by (simp only: take_bit_nat_eq_self)
  moreover have "bit (unat pid) n" using \<open>bit pid n\<close> by (simp add: bit_unsigned_iff bit_imp_le_length)
  ultimately show "n < 13" by (metis bit_take_bit_iff)
qed

lemma bit_1FFF: "bit (0x1FFF :: 16 word) n \<longleftrightarrow> n < 13"
proof -
  have e: "(0x1FFF :: 16 word) = mask 13" by (simp add: mask_eq_exp_minus_1)
  show ?thesis by (simp only: e bit_mask_iff) auto
qed

lemma bit_E0: "bit (0xE0 :: byte) n \<Longrightarrow> 5 \<le> n"
proof -
  assume b: "bit (0xE0 :: byte) n"
  have e: "(0xE0 :: byte) = push_bit 5 7" by (simp add: push_bit_eq_mult)
  show ?thesis using b by (simp only: e bit_push_bit_iff)
qed

lemma pid_roundtrip:
  assumes "unat (pid :: 16 word) < 2 ^ 13"
  shows "be16 (0xE0 OR ucast (drop_bit 8 pid)) (ucast pid) AND 0x1FFF = pid"
proof (rule bit_word_eqI)
  fix n assume n: "n < LENGTH(16)"
  define m :: "16 word" where "m = 0x1FFF"
  have m: "bit m n \<longleftrightarrow> n < 13" unfolding m_def by (rule bit_1FFF)
  define e :: byte where "e = 0xE0"
  have "\<not> bit e (n - 8)" if "n < 13" using bit_E0[of "n - 8"] that unfolding e_def by linarith
  then have "bit (be16 (e OR ucast (drop_bit 8 pid)) (ucast pid) AND m) n = bit pid n"
    using n pid_bits[OF assms, of n]
    by (auto simp: be16_def bit_and_iff bit_or_iff bit_push_bit_iff bit_ucast_iff bit_drop_bit_eq bit_unsigned_iff m)
  then show "bit (be16 (0xE0 OR ucast (drop_bit 8 pid)) (ucast pid) AND 0x1FFF) n = bit pid n"
    unfolding m_def e_def .
qed

lemma length_enc_programs [simp]: "length (enc_programs ps) = 4 * length ps"
  by (induction ps) (simp_all add: enc_programs_def enc_program_def be16_bytes_def pid_bytes_def)

lemma length_enc_pat: "pat_ok s \<Longrightarrow> length (enc_pat s) = 12 + 4 * length (pa_programs s) + length (pa_stray s)"
  by (simp add: enc_pat_def enc_psi_header_def be16_bytes_def pat_ok_def)

text \<open>The length field.\<close>

lemma enc_psi_length:
  assumes "n \<le> 1021"
  shows "be12 (0xB0 OR word_of_nat (n div 256)) (word_of_nat (n mod 256)) = word_of_nat n"
    and "TESTBITS (0xB0 OR word_of_nat (n div 256)) 8 8 \<noteq> 0"
proof -
  have "n div 256 < 4" using assms by simp
  then have c: "n div 256 \<in> {0, 1, 2, 3}" by auto
  then have u: "unat (0xB0 OR word_of_nat (n div 256) :: byte) = 176 + n div 256" by auto
  have "n div 256 mod 16 = n div 256" using \<open>n div 256 < 4\<close> by simp
  then have "unat (be12 (0xB0 OR word_of_nat (n div 256)) (word_of_nat (n mod 256))) = n"
    unfolding unat_be12 u by (simp add: mod_add_eq[symmetric])
  then show "be12 (0xB0 OR word_of_nat (n div 256)) (word_of_nat (n mod 256)) = word_of_nat n"
    using assms by (intro word_unat_eq_iff[THEN iffD2]) (simp add: unat_of_nat)
  have "(176 + n div 256) div 128 = 1" using \<open>n div 256 < 4\<close> by simp
  then show "TESTBITS (0xB0 OR word_of_nat (n div 256)) 8 8 \<noteq> 0"
    by (subst TESTBITS_eq_0) (simp_all add: u)
qed

lemma enc_version:
  assumes "v < 32"
  shows "GETBITS (0xC1 OR word_of_nat (2 * v)) 6 2 = word_of_nat v"
proof -
  have "unat (0xC1 OR word_of_nat (2 * v) :: byte) = 193 + 2 * v"
  proof -
    have "(0xC1 :: byte) OR word_of_nat (2 * v) = 0xC1 + word_of_nat (2 * v)"
    proof (rule disjunctive_add[symmetric])
      fix n
      have "bit (word_of_nat (2 * v) :: byte) n \<Longrightarrow> 1 \<le> n \<and> n < 6"
      proof -
        assume b: "bit (word_of_nat (2 * v) :: byte) n"
        then have "bit (2 * v) n" by (simp add: bit_simps)
        moreover have "take_bit 6 (2 * v) = 2 * v" using assms by (simp add: take_bit_nat_eq_self)
        ultimately have "n < 6" by (metis bit_take_bit_iff)
        moreover have "n \<noteq> 0"
        proof
          assume "n = 0"
          with \<open>bit (2 * v) n\<close> show False by (simp add: bit_0)
        qed
        ultimately show ?thesis by simp
      qed
      moreover have "bit (0xC1 :: byte) n \<Longrightarrow> n = 0 \<or> 6 \<le> n"
      proof -
        assume "bit (0xC1 :: byte) n"
        moreover have e: "(0xC1 :: byte) = 1 OR push_bit 6 3" by simp
        ultimately have "bit (1 :: byte) n \<or> bit (push_bit 6 3 :: byte) n" by (simp only: e bit_or_iff)
        then show ?thesis by (auto simp: bit_1_iff bit_push_bit_iff simp del: push_bit_numeral)
      qed
      ultimately show "\<not> bit (0xC1 :: byte) n \<or> \<not> bit (word_of_nat (2 * v) :: byte) n" by auto
    qed
    then show ?thesis using assms by (simp add: unat_word_ariths unat_of_nat)
  qed
  moreover have "(193 + 2 * v) div 2 = v + 32 * 3" by simp
  ultimately have "unat (GETBITS (0xC1 OR word_of_nat (2 * v)) 6 2) = v"
    using assms by (subst unat_GETBITS) (simp_all del: mult_numeral_1 add: mod_mult_self2[of v 32 3, simplified])
  then show ?thesis using assms by (intro word_unat_eq_iff[THEN iffD2]) (simp add: unat_of_nat)
qed

section \<open>The loop on encoded programs\<close>

text \<open>The effect of a program on the local array and the count, apart from the pointer and the length.\<close>

definition pat_put :: "16 word \<times> 16 word \<Rightarrow> pat_state \<Rightarrow> pat_state" where
  "pat_put prog st =
     (if fst prog \<noteq> 0 then
        st\<lparr>ps_pmtInfo := (if unat (ps_number_of_PMTs st) < PMT_LIST_MAX_LEN
             then (ps_pmtInfo st)[unat (ps_number_of_PMTs st) := \<lparr>program_no = fst prog, pmt_pid = snd prog\<rparr>] else ps_pmtInfo st),
           ps_number_of_PMTs := ps_number_of_PMTs st + 1\<rparr>
      else st)"

lemma pat_put_ptr [simp]:
  "ps_ptr (pat_put prog st) = ps_ptr st" "ps_section_length (pat_put prog st) = ps_section_length st"
  "length (ps_pmtInfo (pat_put prog st)) = length (ps_pmtInfo st)"
  by (simp_all add: pat_put_def)

lemma pat_put_moved [simp]:
  "pat_put prog (st\<lparr>ps_section_length := a, ps_ptr := b\<rparr>) = (pat_put prog st)\<lparr>ps_section_length := a, ps_ptr := b\<rparr>"
  by (simp add: pat_put_def)

lemma pat_round_program:
  assumes "holds_at buf (ps_ptr st) (enc_program prog)" "pid_ok (snd prog)"
  shows "pat_round buf st = Some (Inr (let st = pat_put prog st in
    if ps_section_length st \<ge> 8 then st\<lparr>ps_section_length := ps_section_length st - 4, ps_ptr := ps_ptr st + 4\<rparr> else st))"
proof -
  have r: "rd buf (ps_ptr st) = Some (ucast (drop_bit 8 (fst prog)))" "rd buf (ps_ptr st + 1) = Some (ucast (fst prog))"
      "rd buf (ps_ptr st + 2) = Some (0xE0 OR ucast (drop_bit 8 (snd prog)))" "rd buf (ps_ptr st + 3) = Some (ucast (snd prog))"
    using assms(1) by (simp_all add: enc_program_def be16_bytes_def pid_bytes_def eval_nat_numeral)
  show ?thesis
    unfolding pat_round_def r Let_def bind.bind_lunit be16_bytes pid_roundtrip[OF pid_ok_13[OF assms(2)]]
    using assms(2) by (simp add: pid_ok_def pat_put_def)
qed

lemma word_len_ge: "8 + n < 2 ^ 32 \<Longrightarrow> (8 :: 32 word) \<le> word_of_nat (8 + n)" "8 + n < 2 ^ 32 \<Longrightarrow> (4 :: 32 word) < word_of_nat (8 + n)"
  by (simp_all add: word_le_nat_alt word_less_nat_alt unat_of_nat del: of_nat_add of_nat_numeral)

lemma pat_loop_programs:
  assumes "holds_at buf (ps_ptr st) (enc_programs ps @ rest)" "\<forall>prog \<in> set ps. pid_ok (snd prog)"
    "ps_section_length st = word_of_nat (4 * length ps + n)" "4 \<le> n" "4 * length ps + n < 2 ^ 32"
  shows "pat_loop buf st = pat_loop buf
    ((fold pat_put ps st)\<lparr>ps_ptr := ps_ptr st + 4 * length ps, ps_section_length := word_of_nat n\<rparr>)"
  using assms
proof (induction ps arbitrary: st)
  case Nil
  then have "st\<lparr>ps_ptr := ps_ptr st, ps_section_length := word_of_nat n\<rparr> = st" by simp
  then show ?case by simp
next
  case (Cons prog ps)
  let ?k = "4 * length ps + n - 4"
  have k: "4 * length (prog # ps) + n = 8 + ?k" using Cons.prems(4) by simp
  have sl: "ps_section_length st = word_of_nat (8 + ?k)" using Cons.prems(3) unfolding k .
  have lt: "8 + ?k < 2 ^ 32" using Cons.prems(5) unfolding k .
  let ?st = "(pat_put prog st)\<lparr>ps_section_length := word_of_nat (4 * length ps + n), ps_ptr := ps_ptr st + 4\<rparr>"
  have "word_of_nat (8 + ?k) - 4 = (word_of_nat (4 * length ps + n) :: 32 word)"
    using Cons.prems(4) by (simp add: of_nat_diff)
  then have "pat_round buf st = Some (Inr ?st)"
    using pat_round_program[of buf st prog] Cons.prems(1,2) word_len_ge(1)[OF lt] sl
    by (simp add: enc_programs_def Let_def del: of_nat_add)
  then have "pat_loop buf st = pat_loop buf ?st"
    using word_len_ge(2)[OF lt] sl by (subst pat_loop.simps) (simp del: of_nat_add)
  also have "\<dots> = pat_loop buf ((fold pat_put ps ?st)\<lparr>ps_ptr := ps_ptr ?st + 4 * length ps, ps_section_length := word_of_nat n\<rparr>)"
  proof (rule Cons.IH)
    have "length (enc_program prog) = 4" by (simp add: enc_program_def be16_bytes_def pid_bytes_def)
    with Cons.prems(1) show "holds_at buf (ps_ptr ?st) (enc_programs ps @ rest)" by (simp add: enc_programs_def)
  qed (use Cons.prems in simp_all)
  also have "(fold pat_put ps ?st)\<lparr>ps_ptr := ps_ptr ?st + 4 * length ps, ps_section_length := word_of_nat n\<rparr> =
      (fold pat_put (prog # ps) st)\<lparr>ps_ptr := ps_ptr st + 4 * length (prog # ps), ps_section_length := word_of_nat n\<rparr>"
  proof -
    have "(fold pat_put ps (s\<lparr>ps_section_length := a, ps_ptr := b\<rparr>))\<lparr>ps_ptr := c, ps_section_length := d\<rparr> =
        (fold pat_put ps s)\<lparr>ps_ptr := c, ps_section_length := d\<rparr>" for s a b c d
      by (induction ps arbitrary: s) simp_all
    then show ?thesis by (simp add: add.assoc)
  qed
  finally show ?case .
qed

text \<open>What the programs leave in the array: the numbered programs in order, program 0 left out.\<close>

definition listed :: "(16 word \<times> 16 word) list \<Rightarrow> rmf_pmtInfo list" where
  "listed ps = map (\<lambda>(a, b). \<lparr>program_no = a, pmt_pid = b\<rparr>) (filter (\<lambda>prog. fst prog \<noteq> 0) ps)"

lemma fold_pat_put_number: "ps_number_of_PMTs (fold pat_put ps st) = ps_number_of_PMTs st + word_of_nat (length (listed ps))"
  by (induction ps arbitrary: st) (auto simp: pat_put_def listed_def)

lemma fold_pat_put_length: "length (ps_pmtInfo (fold pat_put ps st)) = length (ps_pmtInfo st)"
  by (induction ps arbitrary: st) simp_all

lemma fold_pat_put_info:
  assumes "ps_number_of_PMTs st = word_of_nat n" "n + length (listed ps) \<le> 128" "length (ps_pmtInfo st) = 128"
  shows "take (n + length (listed ps)) (ps_pmtInfo (fold pat_put ps st)) = take n (ps_pmtInfo st) @ listed ps"
  using assms
proof (induction ps arbitrary: st n)
  case (Cons prog ps)
  show ?case
  proof (cases "fst prog = 0")
    case True
    then have "pat_put prog st = st" "listed (prog # ps) = listed ps" by (simp_all add: pat_put_def listed_def)
    with Cons show ?thesis by simp
  next
    case False
    then have l: "listed (prog # ps) = \<lparr>program_no = fst prog, pmt_pid = snd prog\<rparr> # listed ps"
      by (simp add: listed_def case_prod_beta)
    with Cons.prems(2) have n: "n < 128" by simp
    then have u: "unat (word_of_nat n :: 32 word) = n" by (simp add: unat_of_nat)
    let ?st = "pat_put prog st"
    have 1: "ps_pmtInfo ?st = (ps_pmtInfo st)[n := \<lparr>program_no = fst prog, pmt_pid = snd prog\<rparr>]"
      using False Cons.prems(1) n by (simp add: pat_put_def u)
    have 2: "ps_number_of_PMTs ?st = word_of_nat (Suc n)" using False Cons.prems(1) by (simp add: pat_put_def add.commute)
    have "take (Suc n + length (listed ps)) (ps_pmtInfo (fold pat_put ps ?st)) = take (Suc n) (ps_pmtInfo ?st) @ listed ps"
      using Cons.prems(2,3) l by (intro Cons.IH 2) simp_all
    moreover have "take (Suc n) (ps_pmtInfo ?st) = take n (ps_pmtInfo st) @ [\<lparr>program_no = fst prog, pmt_pid = snd prog\<rparr>]"
      using n Cons.prems(3) by (simp add: 1 take_Suc_conv_app_nth)
    ultimately show ?thesis by (simp add: l)
  qed
qed (simp add: listed_def)

section \<open>Encoded sections\<close>

abbreviation pat_size :: "pat_section \<Rightarrow> 32 word" where
  "pat_size s \<equiv> word_of_nat (length (enc_pat s))"

definition pat_begin :: "rmf_pmtInfo list \<Rightarrow> pat_section \<Rightarrow> pat_state" where
  "pat_begin info s = \<lparr>ps_ptr = 8, ps_section_length = word_of_nat (4 * length (pa_programs s) + (4 + length (pa_stray s))),
     ps_number_of_PMTs = 0, ps_pmtInfo = info\<rparr>"

definition pat_numbered :: "pat_section \<Rightarrow> rmf_InbSiMgr \<Rightarrow> rmf_InbSiMgr" where
  "pat_numbered s M = (if num_sections M = 0 then M\<lparr>num_sections := ucast (pa_last_section_number s) + 1\<rparr> else M)"

lemma pat_numbered_simps [simp]:
  "patVersionNumber (pat_numbered s M) = patVersionNumber M" "patCRC (pat_numbered s M) = patCRC M"
  by (simp_all add: pat_numbered_def)

lemma pat_split:
  assumes "holds_at buf 0 (enc_pat s)"
  shows "let n = 9 + 4 * length (pa_programs s) + length (pa_stray s) in
      rd buf 0 = Some 0 \<and> rd buf 1 = Some (0xB0 OR word_of_nat (n div 256)) \<and> rd buf 2 = Some (word_of_nat (n mod 256)) \<and>
      rd buf 3 = Some (ucast (drop_bit 8 (pa_transport_stream_id s))) \<and> rd buf 4 = Some (ucast (pa_transport_stream_id s)) \<and>
      rd buf 5 = Some (0xC1 OR word_of_nat (2 * pa_version s)) \<and> rd buf 7 = Some (pa_last_section_number s)"
    and "holds_at buf 8 (enc_programs (pa_programs s) @ pa_stray s @ pa_crc s)"
proof -
  let ?n = "9 + 4 * length (pa_programs s) + length (pa_stray s)"
  have e: "enc_pat s = 0 # (0xB0 OR word_of_nat (?n div 256)) # word_of_nat (?n mod 256) # ucast (drop_bit 8 (pa_transport_stream_id s)) #
      ucast (pa_transport_stream_id s) # (0xC1 OR word_of_nat (2 * pa_version s)) # pa_section_number s # pa_last_section_number s #
      enc_programs (pa_programs s) @ pa_stray s @ pa_crc s"
    by (simp only: enc_pat_def enc_psi_header_def be16_bytes_def append.simps)
  note h = assms[unfolded e holds_at_8 add_0]
  show "let n = ?n in
      rd buf 0 = Some 0 \<and> rd buf 1 = Some (0xB0 OR word_of_nat (n div 256)) \<and> rd buf 2 = Some (word_of_nat (n mod 256)) \<and>
      rd buf 3 = Some (ucast (drop_bit 8 (pa_transport_stream_id s))) \<and> rd buf 4 = Some (ucast (pa_transport_stream_id s)) \<and>
      rd buf 5 = Some (0xC1 OR word_of_nat (2 * pa_version s)) \<and> rd buf 7 = Some (pa_last_section_number s)"
    unfolding Let_def using h by (simp only: simp_thms)
  show "holds_at buf 8 (enc_programs (pa_programs s) @ pa_stray s @ pa_crc s)" using h by (simp only: simp_thms)
qed

text \<open>After the checks of the header the loop is entered at the first program.\<close>

lemma pat_parse_head:
  assumes "pat_ok s" "holds_at buf 0 (enc_pat s)"
  shows "pat_parse info (pat_size s) buf M =
    do { r \<leftarrow> pat_loop buf (pat_begin info s);
         case r of
           Inl e \<Rightarrow> Some (Inl e, pat_numbered s M)
         | Inr st \<Rightarrow>
             if ps_section_length st \<noteq> 4 then Some (Inl 13, pat_numbered s M)
             else do {
               let p = ps_ptr st;
               c1 \<leftarrow> rd buf p; c2 \<leftarrow> rd buf (p + 1); c3 \<leftarrow> rd buf (p + 2); c4 \<leftarrow> rd buf (p + 3);
               Some (Inr \<lparr>pt_transport_stream_id = pa_transport_stream_id s, pt_version_number = word_of_nat (pa_version s),
                          pt_number_of_PMTs = ps_number_of_PMTs st, pt_pmtInfo = ps_pmtInfo st,
                          pt_crc = be32 c1 c2 c3 c4\<rparr>, pat_numbered s M) } }"
proof -
  let ?n = "9 + 4 * length (pa_programs s) + length (pa_stray s)"
  have n: "?n \<le> 1021" and v: "pa_version s < 32" using assms(1) by (simp_all add: pat_ok_def)
  have r: "rd buf 0 = Some 0" "rd buf 1 = Some (0xB0 OR word_of_nat (?n div 256))" "rd buf 2 = Some (word_of_nat (?n mod 256))"
      "rd buf 3 = Some (ucast (drop_bit 8 (pa_transport_stream_id s)))" "rd buf 4 = Some (ucast (pa_transport_stream_id s))"
      "rd buf 5 = Some (0xC1 OR word_of_nat (2 * pa_version s))" "rd buf 7 = Some (pa_last_section_number s)"
    using pat_split(1)[OF assms(2)] unfolding Let_def by (simp_all only: simp_thms)
  have len: "\<not> (word_of_nat ?n :: 32 word) > 1021" using n by (simp add: word_less_nat_alt unat_of_nat del: of_nat_add)
  have sz: "pat_size s - 3 = (word_of_nat ?n :: 32 word)" by (simp add: length_enc_pat[OF assms(1)])
  have sl: "(word_of_nat ?n :: 32 word) - 5 = word_of_nat (4 * length (pa_programs s) + (4 + length (pa_stray s)))" by simp
  have ge: "\<not> (word_of_nat (4 * length (pa_programs s) + (4 + length (pa_stray s))) :: 32 word) < 4"
    using n by (simp add: word_less_nat_alt unat_of_nat del: of_nat_add)
  have w: "ucast (word_of_nat (pa_version s) :: 32 word) = (word_of_nat (pa_version s) :: 16 word)"
    using v by (intro word_unat_eq_iff[THEN iffD2]) (simp add: unsigned_ucast_eq unat_of_nat take_bit_nat_eq_self)
  show ?thesis
    unfolding pat_parse_def r bind.bind_lunit Let_def enc_psi_length(1)[OF n] sz sl enc_version[OF v] w be16_bytes
      pat_numbered_def[symmetric] pat_begin_def
    by (simp only: len ge enc_psi_length(2)[OF n] simp_thms if_False)
qed

lemma pat_tail:
  assumes "holds_at buf 0 (enc_pat s)"
  shows "holds_at buf (8 + 4 * length (pa_programs s)) (pa_stray s @ pa_crc s)"
  using pat_split(2)[OF assms] by simp

lemma pat_loop_begin:
  assumes "pat_ok s" "holds_at buf 0 (enc_pat s)"
  shows "pat_loop buf (pat_begin info s) = pat_loop buf ((fold pat_put (pa_programs s) (pat_begin info s))
    \<lparr>ps_ptr := 8 + 4 * length (pa_programs s), ps_section_length := word_of_nat (4 + length (pa_stray s))\<rparr>)"
proof -
  have p: "ps_ptr (pat_begin info s) = 8" by (simp add: pat_begin_def)
  have 1: "holds_at buf (ps_ptr (pat_begin info s)) (enc_programs (pa_programs s) @ pa_stray s @ pa_crc s)"
    unfolding p by (rule pat_split(2)[OF assms(2)])
  have 2: "ps_section_length (pat_begin info s) = word_of_nat (4 * length (pa_programs s) + (4 + length (pa_stray s)))"
    by (simp only: pat_begin_def pat_state.simps)
  have 3: "4 * length (pa_programs s) + (4 + length (pa_stray s)) < 2 ^ 32" "\<forall>prog \<in> set (pa_programs s). pid_ok (snd prog)"
    using assms(1) by (simp_all add: pat_ok_def)
  show ?thesis using pat_loop_programs[OF 1 3(2) 2 _ 3(1)] unfolding p by simp
qed

lemma rd_crc:
  assumes "holds_at buf p c" "length c = 4"
  shows "rd buf p = Some (c ! 0) \<and> rd buf (p + 1) = Some (c ! 1) \<and> rd buf (p + 2) = Some (c ! 2) \<and> rd buf (p + 3) = Some (c ! 3)"
proof -
  obtain c0 c1 c2 c3 where c: "c = [c0, c1, c2, c3]" using assms(2) by (auto simp: length_Suc_conv eval_nat_numeral)
  show ?thesis using assms(1) unfolding c holds_at_4 by simp
qed

definition pat_decoded :: "rmf_pmtInfo list \<Rightarrow> pat_section \<Rightarrow> pat_table" where
  "pat_decoded info s = \<lparr>pt_transport_stream_id = pa_transport_stream_id s, pt_version_number = word_of_nat (pa_version s),
     pt_number_of_PMTs = word_of_nat (length (listed (pa_programs s))),
     pt_pmtInfo = ps_pmtInfo (fold pat_put (pa_programs s) (pat_begin info s)),
     pt_crc = be32 (pa_crc s ! 0) (pa_crc s ! 1) (pa_crc s ! 2) (pa_crc s ! 3)\<rparr>"

lemma pat_parse_enc:
  assumes "pat_ok s" "pa_stray s = []" "holds_at buf 0 (enc_pat s)"
  shows "pat_parse info (pat_size s) buf M = Some (Inr (pat_decoded info s), pat_numbered s M)"
proof -
  let ?st = "(fold pat_put (pa_programs s) (pat_begin info s))\<lparr>ps_ptr := 8 + 4 * length (pa_programs s), ps_section_length := 4\<rparr>"
  have "pat_loop buf (pat_begin info s) = Some (Inr ?st)"
    unfolding pat_loop_begin[OF assms(1,3)] assms(2) by (subst pat_loop.simps) simp
  moreover have l: "length (pa_crc s) = 4" using assms(1) by (simp add: pat_ok_def)
  moreover have "holds_at buf (8 + 4 * length (pa_programs s)) (pa_crc s)" using pat_tail[OF assms(3)] assms(2) by simp
  note rd_crc[OF this l]
  ultimately show ?thesis
    unfolding pat_parse_head[OF assms(1,3)] by (simp add: pat_decoded_def fold_pat_put_number pat_begin_def Let_def)
qed

section \<open>The update on encoded sections\<close>

definition pat_crc :: "pat_section \<Rightarrow> 32 word" where
  "pat_crc s = be32 (pa_crc s ! 0) (pa_crc s ! 1) (pa_crc s ! 2) (pa_crc s ! 3)"

text \<open>A manager that can take a table: its arrays have their sizes, memory and event queues work.\<close>

definition pat_ready :: "inb_env \<Rightarrow> rmf_InbSiMgr \<Rightarrow> bool" where
  "pat_ready env M \<longleftrightarrow> (\<exists>l. m_pmtInfoList M = Some l \<and> length l = m_pmtListMaxSize M) \<and> m_pmtListLen M \<le> m_pmtListMaxSize M \<and>
     length (pmtInfo_stack env) = PMT_LIST_MAX_LEN \<and> length (patBuf M) = RMF_SI_SECTION_MAX_SIZE \<and> (\<forall>k. mem_ok M k) \<and>
     inb_create env = RMF_SUCCESS \<and> (\<forall>q. inb_add env q = RMF_SUCCESS) \<and> \<not> m_NegativeFiltersEnabled M"

definition programs_of :: "rmf_InbSiMgr \<Rightarrow> rmf_pmtInfo list" where
  "programs_of M = take (m_pmtListLen M) (case m_pmtInfoList M of None \<Rightarrow> [] | Some l \<Rightarrow> l)"

lemma pat_store_enc:
  assumes "pat_ready env M" "length (listed (pa_programs s)) \<le> 128"
  obtains M' where "pat_store (pat_decoded (pmtInfo_stack env) s) M = Some (RMF_SUCCESS, M')" "pat_ready env M'"
    "programs_of M' = listed (pa_programs s)" "ts_id M' = pa_transport_stream_id s"
    "patVersionNumber M' = patVersionNumber M" "patCRC M' = patCRC M" "num_sections M' = num_sections M"
    "m_bIsPATAvailable M' = m_bIsPATAvailable M" "psi_events M' = psi_events M"
    "g_inbsi_registration_list M' = g_inbsi_registration_list M"
proof -
  let ?n = "length (listed (pa_programs s))" and ?t = "pat_decoded (pmtInfo_stack env) s"
  obtain l where l: "m_pmtInfoList M = Some l" "length l = m_pmtListMaxSize M" using assms(1) by (auto simp: pat_ready_def)
  have "unat (word_of_nat ?n :: 32 word) = ?n" using assms(2) by (simp add: unat_of_nat)
  then have n: "unat (pt_number_of_PMTs ?t) = ?n" by (simp add: pat_decoded_def)
  have len: "length (pmtInfo_stack env) = 128" using assms(1) by (simp add: pat_ready_def)
  then have "take (0 + ?n) (pt_pmtInfo ?t) = listed (pa_programs s)"
    unfolding pat_decoded_def pat_table.simps
    by (subst fold_pat_put_info) (use assms(2) in \<open>simp_all add: pat_begin_def\<close>)
  moreover have "length (pt_pmtInfo ?t) = 128" using len by (simp add: pat_decoded_def fold_pat_put_length pat_begin_def)
  ultimately have cp: "memcpy xs (pt_pmtInfo ?t) 0 ?n = Some (listed (pa_programs s) @ drop ?n xs)" if "?n \<le> length xs" for xs
    using that assms(2) by (simp add: memcpy_def)
  have tsid: "pt_transport_stream_id ?t = pa_transport_stream_id s" by (simp add: pat_decoded_def)
  show thesis
  proof (cases "?n > m_pmtListMaxSize M")
    case True
    let ?l = "take ?n (l @ replicate ?n \<lparr>program_no = 0, pmt_pid = 0\<rparr>)"
    let ?M = "M\<lparr>allocs := Suc (allocs M), m_pmtListMaxSize := ?n, m_pmtInfoList := Some (listed (pa_programs s) @ drop ?n ?l),
      m_pmtListLen := ?n, ts_id := pa_transport_stream_id s\<rparr>"
    have "pat_store ?t M = Some (RMF_SUCCESS, ?M)"
      using True assms(1) l cp[of ?l] by (simp add: pat_store_def n inb_alloc_def pat_ready_def realloc_list_def tsid Let_def)
    with True assms(1) show ?thesis
      by (intro that[of ?M]) (simp_all add: pat_ready_def programs_of_def)
  next
    case False
    let ?M = "M\<lparr>m_pmtInfoList := Some (listed (pa_programs s) @ drop ?n l), m_pmtListLen := ?n, ts_id := pa_transport_stream_id s\<rparr>"
    have "pat_store ?t M = Some (RMF_SUCCESS, ?M)"
      using False assms(1) l cp[of l] by (simp add: pat_store_def n tsid Let_def)
    with False assms(1) l show ?thesis
      by (intro that[of ?M]) (simp_all add: pat_ready_def programs_of_def)
  qed
qed

lemma keep_pat_enc:
  assumes "pat_ready env M" "pat_ok s" "holds_at buf 0 (enc_pat s)"
  obtains b where "keep_pat (pat_size s) buf M = Some (M\<lparr>patBuf := b, patBufLen := pat_size s\<rparr>)" "length b = 1024"
proof -
  have le: "length (enc_pat s) \<le> 1024" using assms(2) by (simp add: length_enc_pat) (simp add: pat_ok_def)
  have "enc_pat s \<noteq> []" by (simp add: enc_pat_def enc_psi_header_def)
  then have "length (enc_pat s) \<le> length buf" using holds_at_length[OF assms(3)] by simp
  moreover have "unat (pat_size s) = length (enc_pat s)" using le by (simp add: unat_of_nat)
  ultimately show thesis
    using assms(1) le by (intro that[of "take (length (enc_pat s)) buf @ drop (length (enc_pat s)) (patBuf M)"])
      (simp_all add: keep_pat_def memcpy_def pat_ready_def)
qed

text \<open>The events of one announcement.\<close>

definition announced :: "32 word \<Rightarrow> 32 word \<Rightarrow> rmf_InbSiMgr \<Rightarrow> (32 word \<times> 32 word \<times> 32 word) list" where
  "announced event change M = map (\<lambda>r. (reg_queueId r, event, change)) (g_inbsi_registration_list M)"

lemma pat_changed_enc:
  assumes "pat_ready env M" "pt_version_number t \<noteq> INIT_TABLE_VERSION"
    "patVersionNumber M = INIT_TABLE_VERSION \<or> patVersionNumber M \<noteq> pt_version_number t \<or> patCRC M \<noteq> pt_crc t"
  shows "pat_changed env t M = Some (if num_sections M = 0
    then (pat_available M)\<lparr>patVersionNumber := pt_version_number t, patCRC := pt_crc t,
      psi_events := psi_events M @ (if patVersionNumber M = INIT_TABLE_VERSION
         then announced RMF_SI_EVENT_IB_PAT_ACQUIRED RMF_SI_CHANGE_TYPE_ADD M
         else announced RMF_SI_EVENT_IB_PAT_UPDATE RMF_SI_CHANGE_TYPE_MODIFY M)\<rparr>
    else M\<lparr>patVersionNumber := pt_version_number t, patCRC := pt_crc t\<rparr>)"
  using assms
  by (auto simp: pat_changed_def pat_ready_def pat_available_def notifySIDB_def inb_NotifyTableChanged_def dispatch_event_def
      table_event_def announced_def Let_def)

lemma pat_version_known: "pat_ok s \<Longrightarrow> (word_of_nat (pa_version s) :: 16 word) \<noteq> INIT_TABLE_VERSION"
proof
  assume "pat_ok s" "(word_of_nat (pa_version s) :: 16 word) = INIT_TABLE_VERSION"
  then have "unat (word_of_nat (pa_version s) :: 16 word) = unat (32 :: 16 word)" by simp
  then show False using \<open>pat_ok s\<close> by (simp add: unat_of_nat pat_ok_def)
qed

lemma pat_update_changed:
  assumes r: "pat_ready env M" and s: "pat_ok s" "pa_stray s = []" "holds_at buf 0 (enc_pat s)" "length (listed (pa_programs s)) \<le> 128"
    and new: "patVersionNumber M = INIT_TABLE_VERSION \<or> patVersionNumber M \<noteq> word_of_nat (pa_version s) \<or> patCRC M \<noteq> pat_crc s"
  obtains M' where "parse_and_update_PAT env (pat_size s) buf M = Some (0, M')" "pat_ready env M'"
    "programs_of M' = listed (pa_programs s)" "ts_id M' = pa_transport_stream_id s"
    "patVersionNumber M' = word_of_nat (pa_version s)" "patCRC M' = pat_crc s"
    "num_sections M' = num_sections (pat_numbered s M) - 1" "g_inbsi_registration_list M' = g_inbsi_registration_list M"
    "m_bIsPATAvailable M' = (m_bIsPATAvailable M \<or> num_sections M' = 0)"
    "psi_events M' = psi_events M @ (if num_sections M' \<noteq> 0 then [] else if patVersionNumber M = INIT_TABLE_VERSION
         then announced RMF_SI_EVENT_IB_PAT_ACQUIRED RMF_SI_CHANGE_TYPE_ADD M
         else announced RMF_SI_EVENT_IB_PAT_UPDATE RMF_SI_CHANGE_TYPE_MODIFY M)"
proof -
  let ?t = "pat_decoded (pmtInfo_stack env) s"
  let ?M1 = "(pat_numbered s M)\<lparr>num_sections := num_sections (pat_numbered s M) - 1\<rparr>"
  have t: "pt_version_number ?t = word_of_nat (pa_version s)" "pt_crc ?t = pat_crc s" by (simp_all add: pat_decoded_def pat_crc_def)
  note v = pat_version_known[OF s(1)]
  have r1: "pat_ready env ?M1" using r by (auto simp: pat_numbered_def pat_ready_def)
  obtain M2 where 2: "pat_store ?t ?M1 = Some (RMF_SUCCESS, M2)" "pat_ready env M2"
    "programs_of M2 = listed (pa_programs s)" "ts_id M2 = pa_transport_stream_id s"
    "patVersionNumber M2 = patVersionNumber ?M1" "patCRC M2 = patCRC ?M1" "num_sections M2 = num_sections ?M1"
    "m_bIsPATAvailable M2 = m_bIsPATAvailable ?M1" "psi_events M2 = psi_events ?M1"
    "g_inbsi_registration_list M2 = g_inbsi_registration_list ?M1"
    by (rule pat_store_enc[OF r1 s(4)])
  have f: "patVersionNumber ?M1 = patVersionNumber M" "patCRC ?M1 = patCRC M" "m_bIsPATAvailable ?M1 = m_bIsPATAvailable M"
      "psi_events ?M1 = psi_events M" "g_inbsi_registration_list ?M1 = g_inbsi_registration_list M"
    by (simp_all add: pat_numbered_def)
  obtain M3 where 3: "pat_changed env ?t M2 = Some M3" "M3 = (if num_sections M2 = 0
    then (pat_available M2)\<lparr>patVersionNumber := pt_version_number ?t, patCRC := pt_crc ?t,
      psi_events := psi_events M2 @ (if patVersionNumber M2 = INIT_TABLE_VERSION
         then announced RMF_SI_EVENT_IB_PAT_ACQUIRED RMF_SI_CHANGE_TYPE_ADD M2
         else announced RMF_SI_EVENT_IB_PAT_UPDATE RMF_SI_CHANGE_TYPE_MODIFY M2)\<rparr>
    else M2\<lparr>patVersionNumber := pt_version_number ?t, patCRC := pt_crc ?t\<rparr>)"
    using pat_changed_enc[OF 2(2), of ?t] v new t 2(5,6) f by simp
  have r3: "pat_ready env M3" using 2(2) by (auto simp: 3(2) pat_ready_def pat_available_def)
  obtain b where 4: "keep_pat (pat_size s) buf M3 = Some (M3\<lparr>patBuf := b, patBufLen := pat_size s\<rparr>)" "length b = 1024"
    by (rule keep_pat_enc[OF r3 s(1,3)])
  let ?M' = "M3\<lparr>patBuf := b, patBufLen := pat_size s\<rparr>"
  have "parse_and_update_PAT env (pat_size s) buf M = Some (0, ?M')"
    unfolding parse_and_update_PAT_def pat_parse_enc[OF s(1-3)]
    using new t 2(1) 3(1) 4(1) f by (simp add: Let_def)
  moreover have "pat_ready env ?M'" using r3 4(2) by (auto simp: pat_ready_def)
  ultimately show thesis
    using 2(3-10) f t by (intro that[of ?M']) (simp_all add: 3(2) pat_available_def programs_of_def announced_def)
qed

section \<open>Look-up after an update\<close>

lemma pmtpid_walk_map:
  "i + n \<le> length l \<Longrightarrow>
   pmtpid_walk p n i l = Some (map_of (map (\<lambda>x. (program_no x, pmt_pid x)) (take n (drop i l))) p)"
proof (induction n arbitrary: i)
  case (Suc n)
  then have "i < length l" by simp
  then have "take (Suc n) (drop i l) = l ! i # take n (drop (Suc i) l)" by (simp add: Cons_nth_drop_Suc[symmetric])
  with Suc \<open>i < length l\<close> show ?case by (simp add: rd_in)
qed simp

lemma map_of_listed: "p \<noteq> 0 \<Longrightarrow> map_of (map (\<lambda>x. (program_no x, pmt_pid x)) (listed ps)) p = map_of ps p"
  by (induction ps) (auto simp: listed_def)

lemma get_pmtpid_programs:
  assumes "pat_ready env M"
  shows "get_pmtpid_for_program p M =
    Some (case map_of (map (\<lambda>x. (program_no x, pmt_pid x)) (programs_of M)) p of
            None \<Rightarrow> (RMF_INBSI_NOT_FOUND, None) | Some pid \<Rightarrow> (RMF_SUCCESS, Some pid))"
  using assms by (auto simp: get_pmtpid_for_program_def programs_of_def pat_ready_def pmtpid_walk_map)

lemma get_pmtpid_listed:
  assumes "pat_ready env M" "programs_of M = listed ps" "p \<noteq> 0"
  shows "get_pmtpid_for_program p M =
    Some (case map_of ps p of None \<Rightarrow> (RMF_INBSI_NOT_FOUND, None) | Some pid \<Rightarrow> (RMF_SUCCESS, Some pid))"
  by (simp only: get_pmtpid_programs[OF assms(1)] assms(2) map_of_listed[OF assms(3)])

lemma pat_update_same:
  assumes r: "pat_ready env M" and s: "pat_ok s" "pa_stray s = []" "holds_at buf 0 (enc_pat s)" "pa_last_section_number s = 0"
    and same: "patVersionNumber M = word_of_nat (pa_version s)" "patCRC M = pat_crc s" and M: "num_sections M = 0" "m_bIsPATAvailable M"
    "patVersionNumber M \<noteq> INIT_TABLE_VERSION"
  obtains b where "parse_and_update_PAT env (pat_size s) buf M = Some (0, M\<lparr>patBuf := b, patBufLen := pat_size s\<rparr>)"
proof -
  let ?t = "pat_decoded (pmtInfo_stack env) s"
  obtain b where b: "keep_pat (pat_size s) buf M = Some (M\<lparr>patBuf := b, patBufLen := pat_size s\<rparr>)"
    by (rule keep_pat_enc[OF r s(1,3)])
  have "(pat_numbered s M)\<lparr>num_sections := num_sections (pat_numbered s M) - 1\<rparr> = M"
    using M(1) s(4) by (simp add: pat_numbered_def)
  moreover have "pat_available M = M" using M(2) by (simp add: pat_available_def)
  moreover have "pt_version_number ?t = word_of_nat (pa_version s)" "pt_crc ?t = pat_crc s" by (simp_all add: pat_decoded_def pat_crc_def)
  ultimately have "parse_and_update_PAT env (pat_size s) buf M = Some (0, M\<lparr>patBuf := b, patBufLen := pat_size s\<rparr>)"
    unfolding parse_and_update_PAT_def pat_parse_enc[OF s(1-3)] using same M b by (simp add: Let_def)
  then show thesis by (rule that)
qed

text \<open>
  C22. A program association table of one section that encodes at most 128 numbered programs, with a version or CRC the manager
  has not seen, is parsed without error. Afterwards the look-up of a program number gives the PID of its first entry
  in the table or "not found", the transport stream id is the one of the table, and every registered client has been told
  once, of an acquisition when no table was known and of an update otherwise. The same section again
  changes neither and tells nobody.
\<close>

theorem pat_section_gives_programs:
  assumes "pat_ready env M" "pat_ok s" "pa_stray s = []" "holds_at buf 0 (enc_pat s)" "length (listed (pa_programs s)) \<le> 128"
    "pa_last_section_number s = 0" "num_sections M = 0"
    "patVersionNumber M = INIT_TABLE_VERSION \<or> patVersionNumber M \<noteq> word_of_nat (pa_version s) \<or> patCRC M \<noteq> pat_crc s"
  shows "\<exists>M' M''. parse_and_update_PAT env (pat_size s) buf M = Some (0, M') \<and>
    (\<forall>p. p \<noteq> 0 \<longrightarrow> get_pmtpid_for_program p M' =
       Some (case map_of (pa_programs s) p of None \<Rightarrow> (RMF_INBSI_NOT_FOUND, None) | Some pid \<Rightarrow> (RMF_SUCCESS, Some pid))) \<and>
    GetTSID M' = (RMF_SUCCESS, ucast (pa_transport_stream_id s)) \<and> m_bIsPATAvailable M' \<and>
    psi_events M' = psi_events M @ (if patVersionNumber M = INIT_TABLE_VERSION
       then announced RMF_SI_EVENT_IB_PAT_ACQUIRED RMF_SI_CHANGE_TYPE_ADD M
       else announced RMF_SI_EVENT_IB_PAT_UPDATE RMF_SI_CHANGE_TYPE_MODIFY M) \<and>
    parse_and_update_PAT env (pat_size s) buf M' = Some (0, M'') \<and> psi_events M'' = psi_events M' \<and>
    (\<forall>p. get_pmtpid_for_program p M'' = get_pmtpid_for_program p M')"
proof -
  obtain M' where 1: "parse_and_update_PAT env (pat_size s) buf M = Some (0, M')" "pat_ready env M'"
    "programs_of M' = listed (pa_programs s)" "ts_id M' = pa_transport_stream_id s"
    "patVersionNumber M' = word_of_nat (pa_version s)" "patCRC M' = pat_crc s"
    "num_sections M' = num_sections (pat_numbered s M) - 1"
    "m_bIsPATAvailable M' = (m_bIsPATAvailable M \<or> num_sections M' = 0)"
    "psi_events M' = psi_events M @ (if num_sections M' \<noteq> 0 then [] else if patVersionNumber M = INIT_TABLE_VERSION
         then announced RMF_SI_EVENT_IB_PAT_ACQUIRED RMF_SI_CHANGE_TYPE_ADD M
         else announced RMF_SI_EVENT_IB_PAT_UPDATE RMF_SI_CHANGE_TYPE_MODIFY M)"
    by (rule pat_update_changed[OF assms(1-5,8)])
  have n: "num_sections M' = 0" using 1(7) assms(6,7) by (simp add: pat_numbered_def)
  have v: "patVersionNumber M' \<noteq> INIT_TABLE_VERSION" using pat_version_known[OF assms(2)] 1(5) by simp
  have av: "m_bIsPATAvailable M'" using 1(8) n by simp
  obtain b where 2: "parse_and_update_PAT env (pat_size s) buf M' = Some (0, M'\<lparr>patBuf := b, patBufLen := pat_size s\<rparr>)"
    by (rule pat_update_same[OF 1(2) assms(2-4,6) 1(5,6) n av v])
  have "\<forall>p. p \<noteq> 0 \<longrightarrow> get_pmtpid_for_program p M' =
       Some (case map_of (pa_programs s) p of None \<Rightarrow> (RMF_INBSI_NOT_FOUND, None) | Some pid \<Rightarrow> (RMF_SUCCESS, Some pid))"
    using get_pmtpid_listed[OF 1(2,3)] by simp
  with 1(1,4,9) n av 2 show ?thesis
    by (intro exI[of _ M'] exI[of _ "M'\<lparr>patBuf := b, patBufLen := pat_size s\<rparr>"]) (simp add: GetTSID_def get_pmtpid_for_program_def)
qed

definition pat_example :: pat_section where
  "pat_example = \<lparr>pa_transport_stream_id = 77, pa_version = 3, pa_section_number = 0, pa_last_section_number = 0,
     pa_programs = [(0, 0x10), (3, 0x64)], pa_stray = [], pa_crc = [0xDE, 0xAD, 0xBE, 0xEF]\<rparr>"

lemma inb_example_ready: "pat_ready inb_env_example inb_example"
  by (simp add: pat_ready_def inb_example_def inb_env_example_def RegisterForPSIEvents_def rmf_InbSiMgr_new_def inb_alloc_def)

lemma inb_example_new: "num_sections inb_example = 0" "patVersionNumber inb_example = INIT_TABLE_VERSION"
  by (simp_all add: inb_example_def RegisterForPSIEvents_def rmf_InbSiMgr_new_def inb_alloc_def)

theorem pat_section_gives_programs_witness:
  "\<exists>M'. parse_and_update_PAT inb_env_example (pat_size pat_example) (enc_pat pat_example @ replicate 4076 0) inb_example = Some (0, M') \<and>
     get_pmtpid_for_program 3 M' = Some (RMF_SUCCESS, Some 0x64) \<and> get_pmtpid_for_program 4 M' = Some (RMF_INBSI_NOT_FOUND, None) \<and>
     psi_events M' = psi_events inb_example @ announced RMF_SI_EVENT_IB_PAT_ACQUIRED RMF_SI_CHANGE_TYPE_ADD inb_example"
proof -
  have ok: "pat_ok pat_example" by (simp add: pat_ok_def pat_example_def pid_ok_def)
  have l: "length (listed (pa_programs pat_example)) \<le> 128" by (simp add: listed_def pat_example_def)
  have s: "pa_stray pat_example = []" "pa_last_section_number pat_example = 0" by (simp_all add: pat_example_def)
  have buf: "holds_at (enc_pat pat_example @ replicate 4076 0) 0 (enc_pat pat_example)" by simp
  from pat_section_gives_programs[OF inb_example_ready ok s(1) buf l s(2) inb_example_new(1)] inb_example_new(2)
  obtain M' where m: "parse_and_update_PAT inb_env_example (pat_size pat_example) (enc_pat pat_example @ replicate 4076 0) inb_example = Some (0, M')"
      "\<forall>p. p \<noteq> 0 \<longrightarrow> get_pmtpid_for_program p M' =
         Some (case map_of (pa_programs pat_example) p of None \<Rightarrow> (RMF_INBSI_NOT_FOUND, None) | Some pid \<Rightarrow> (RMF_SUCCESS, Some pid))"
      "psi_events M' = psi_events inb_example @ announced RMF_SI_EVENT_IB_PAT_ACQUIRED RMF_SI_CHANGE_TYPE_ADD inb_example"
    by (auto simp del: enc_pat_def)
  then show ?thesis by (intro exI[of _ M']) (simp add: pat_example_def)
qed

section \<open>Tables the parser does not cope with\<close>

text \<open>\<open>n\<close> rounds of the loop.\<close>

fun pat_rounds :: "nat \<Rightarrow> byte list \<Rightarrow> pat_state \<Rightarrow> (rmf_Error + pat_state) option" where
  "pat_rounds 0 section_data st = Some (Inr st)"
| "pat_rounds (Suc n) section_data st =
     (if ps_section_length st > 4 then
        do { r \<leftarrow> pat_round section_data st; case r of Inl e \<Rightarrow> Some (Inl e) | Inr st \<Rightarrow> pat_rounds n section_data st }
      else Some (Inr st))"

definition stray_pid :: "pat_section \<Rightarrow> 16 word" where
  "stray_pid s = (let t = pa_stray s @ pa_crc s in be16 (t ! 2) (t ! 3) AND 0x1FFF)"

text \<open>A state in which one to three bytes are left before the CRC. A round reads a program there and does not move on.\<close>

definition stuck :: "pat_section \<Rightarrow> pat_state \<Rightarrow> bool" where
  "stuck s st \<longleftrightarrow> ps_ptr st = 8 + 4 * length (pa_programs s) \<and> ps_section_length st = word_of_nat (4 + length (pa_stray s))"

lemma stray_lengths:
  assumes "length (pa_stray s) \<in> {1, 2, 3}" "stuck s st"
  shows "ps_section_length st > 4" "\<not> ps_section_length st \<ge> 8"
  using assms by (auto simp: stuck_def)

lemma stuck_round:
  assumes "pat_ok s" "holds_at buf 0 (enc_pat s)" "length (pa_stray s) \<in> {1, 2, 3}" "stuck s st"
  shows "if pid_ok (stray_pid s) then \<exists>st'. pat_round buf st = Some (Inr st') \<and> stuck s st' else pat_round buf st = Some (Inl 7)"
proof -
  let ?t = "take 4 (pa_stray s @ pa_crc s)"
  have "holds_at buf (ps_ptr st) (?t @ drop 4 (pa_stray s @ pa_crc s))"
    using pat_tail[OF assms(2)] assms(4) by (simp only: append_take_drop_id stuck_def)
  then have h: "holds_at buf (ps_ptr st) ?t" by simp
  have "length ?t = 4" using assms(1) by (simp add: pat_ok_def)
  note r = rd_crc[OF h this]
  have "stray_pid s = be16 (?t ! 2) (?t ! 3) AND 0x1FFF" by (simp add: stray_pid_def Let_def del: take_append)
  with r stray_lengths[OF assms(3,4)] assms(4) show ?thesis
    by (simp add: pat_round_def Let_def pid_ok_def stuck_def)
qed

lemma stuck_rounds:
  assumes "pat_ok s" "holds_at buf 0 (enc_pat s)" "length (pa_stray s) \<in> {1, 2, 3}" "pid_ok (stray_pid s)"
  shows "stuck s st \<Longrightarrow> \<exists>st'. pat_rounds n buf st = Some (Inr st') \<and> stuck s st'"
proof (induction n arbitrary: st)
  case (Suc n)
  obtain st' where "pat_round buf st = Some (Inr st')" "stuck s st'"
    using stuck_round[OF assms(1-3) Suc.prems] assms(4) by auto
  with Suc.IH[of st'] stray_lengths(1)[OF assms(3) Suc.prems] show ?case by simp
qed simp

lemma stuck_loop:
  assumes "pat_ok s" "holds_at buf 0 (enc_pat s)" "length (pa_stray s) \<in> {1, 2, 3}" "pid_ok (stray_pid s)" "stuck s st"
  shows "pat_loop buf st = None"
proof (rule ccontr)
  assume "pat_loop buf st \<noteq> None"
  then obtain y where "pat_loop buf st = Some y" by auto
  from this have "buf = buf \<longrightarrow> \<not> stuck s st"
  proof (rule pat_loop.raw_induct[rotated, where P = "\<lambda>b st y. b = buf \<longrightarrow> \<not> stuck s st"])
    fix f b st y
    assume IH: "\<And>b st y. f b st = Some y \<Longrightarrow> b = buf \<longrightarrow> \<not> stuck s st"
      and y: "(if ps_section_length st > 4 then
        do { r \<leftarrow> pat_round b st; case r of Inl e \<Rightarrow> Some (Inl e) | Inr st \<Rightarrow> f b st } else Some (Inr st)) = Some y"
    show "b = buf \<longrightarrow> \<not> stuck s st"
    proof (intro impI notI)
      assume b: "b = buf" and st: "stuck s st"
      obtain st' where "pat_round buf st = Some (Inr st')" "stuck s st'"
        using stuck_round[OF assms(1-3) st] assms(4) by auto
      with IH[of b st' y] y b stray_lengths(1)[OF assms(3) st] show False by simp
    qed
  qed
  with assms(5) show False by simp
qed

lemma stuck_begin: "stuck s ((fold pat_put (pa_programs s) (pat_begin info s))
    \<lparr>ps_ptr := 8 + 4 * length (pa_programs s), ps_section_length := word_of_nat (4 + length (pa_stray s))\<rparr>)"
  by (simp add: stuck_def)

text \<open>
  C27. A table with one to three bytes between its last program and its CRC. The loop reads a program across the border; when its PID
  is not valid the parser gives error 7. When it is valid, the loop does not move on: after
  any number of rounds the state is one in which another round is due, and the parser does not return.
\<close>

theorem pat_stray_bytes_hang:
  assumes "pat_ok s" "holds_at buf 0 (enc_pat s)" "length (pa_stray s) \<in> {1, 2, 3}"
  shows "if pid_ok (stray_pid s)
    then parse_and_update_PAT env (pat_size s) buf M = None \<and>
      (\<exists>st. pat_loop buf (pat_begin info s) = pat_loop buf st \<and>
         (\<forall>n. \<exists>st'. pat_rounds n buf st = Some (Inr st') \<and> ps_section_length st' > 4 \<and> ps_ptr st' = ps_ptr st))
    else parse_and_update_PAT env (pat_size s) buf M = Some (7, pat_numbered s M)"
proof -
  let ?st = "\<lambda>info. (fold pat_put (pa_programs s) (pat_begin info s))
    \<lparr>ps_ptr := 8 + 4 * length (pa_programs s), ps_section_length := word_of_nat (4 + length (pa_stray s))\<rparr>"
  have b: "pat_loop buf (pat_begin info s) = pat_loop buf (?st info)" "stuck s (?st info)" for info
    by (rule pat_loop_begin[OF assms(1,2)]) (rule stuck_begin)
  show ?thesis
  proof (cases "pid_ok (stray_pid s)")
    case True
    have "parse_and_update_PAT env (pat_size s) buf M = None"
      unfolding parse_and_update_PAT_def pat_parse_head[OF assms(1,2)] b(1) stuck_loop[OF assms True b(2)] by simp
    moreover have "\<exists>st'. pat_rounds n buf (?st info) = Some (Inr st') \<and> ps_section_length st' > 4 \<and> ps_ptr st' = ps_ptr (?st info)" for n
      using stuck_rounds[OF assms True b(2)] stray_lengths(1)[OF assms(3)] b(2) by (fastforce simp: stuck_def)
    ultimately show ?thesis using True b(1)[of info] by auto
  next
    case False
    have "pat_round buf (?st info) = Some (Inl 7)" for info using stuck_round[OF assms b(2)] False by simp
    then have "pat_loop buf (?st info) = Some (Inl 7)" for info
      using stray_lengths(1)[OF assms(3) b(2)] by (subst pat_loop.simps) simp
    then have "parse_and_update_PAT env (pat_size s) buf M = Some (7, pat_numbered s M)"
      unfolding parse_and_update_PAT_def pat_parse_head[OF assms(1,2)] b(1) by simp
    with False show ?thesis by simp
  qed
qed

definition pat_stray_example :: pat_section where
  "pat_stray_example = pat_example\<lparr>pa_stray := [0, 3, 0xE0], pa_crc := [0x64, 0xAD, 0xBE, 0xEF]\<rparr>"

theorem pat_stray_bytes_hang_witness:
  "parse_and_update_PAT inb_env_example (pat_size pat_stray_example) (enc_pat pat_stray_example @ replicate 4073 0) inb_example = None"
proof -
  have ok: "pat_ok pat_stray_example" by (simp add: pat_ok_def pat_stray_example_def pat_example_def pid_ok_def)
  have buf: "holds_at (enc_pat pat_stray_example @ replicate 4073 0) 0 (enc_pat pat_stray_example)" by simp
  have l: "length (pa_stray pat_stray_example) \<in> {1, 2, 3}" by (simp add: pat_stray_example_def)
  have "be16 0xE0 0x64 AND 0x1FFF = (0x64 :: 16 word)" by (simp add: be16_def)
  then have "pid_ok (stray_pid pat_stray_example)"
    by (simp add: stray_pid_def pat_stray_example_def pid_ok_def)
  with pat_stray_bytes_hang[OF ok buf l, of inb_env_example inb_example] show ?thesis by simp
qed

text \<open>
  A table of more than 128 numbered programs. The parser accepts it and counts them all, while its array
  has the first 128 only; the update then copies as many programs as were counted from that array, past its end.
\<close>

theorem pat_overrun:
  assumes "pat_ready env M" "pat_ok s" "pa_stray s = []" "holds_at buf 0 (enc_pat s)" "length (listed (pa_programs s)) > 128"
    "patVersionNumber M = INIT_TABLE_VERSION \<or> patVersionNumber M \<noteq> word_of_nat (pa_version s) \<or> patCRC M \<noteq> pat_crc s"
  shows "(\<exists>t M'. pat_parse (pmtInfo_stack env) (pat_size s) buf M = Some (Inr t, M') \<and>
      unat (pt_number_of_PMTs t) = length (listed (pa_programs s)) \<and> length (pt_pmtInfo t) = 128 \<and>
      (\<forall>xs. memcpy xs (pt_pmtInfo t) 0 (unat (pt_number_of_PMTs t)) = None)) \<and>
    parse_and_update_PAT env (pat_size s) buf M = None"
proof -
  let ?t = "pat_decoded (pmtInfo_stack env) s" and ?n = "length (listed (pa_programs s))"
  let ?M1 = "(pat_numbered s M)\<lparr>num_sections := num_sections (pat_numbered s M) - 1\<rparr>"
  have "?n \<le> length (pa_programs s)" by (simp add: listed_def)
  then have "?n < 2 ^ 32" using assms(2) by (simp add: pat_ok_def)
  then have n: "unat (pt_number_of_PMTs ?t) = ?n" by (simp add: pat_decoded_def unat_of_nat)
  have l: "length (pt_pmtInfo ?t) = 128"
    using assms(1) by (simp add: pat_decoded_def fold_pat_put_length pat_begin_def pat_ready_def)
  have m: "memcpy xs (pt_pmtInfo ?t) 0 (unat (pt_number_of_PMTs ?t)) = None" for xs
    using assms(5) unfolding n by (simp add: memcpy_def l)
  have "pat_ready env ?M1" using assms(1) by (auto simp: pat_numbered_def pat_ready_def)
  then have "pat_store ?t ?M1 = None"
    unfolding pat_store_def by (auto simp: m pat_ready_def inb_alloc_def realloc_list_def Let_def)
  moreover have "pt_version_number ?t = word_of_nat (pa_version s)" "pt_crc ?t = pat_crc s"
    by (simp_all add: pat_decoded_def pat_crc_def)
  ultimately have "parse_and_update_PAT env (pat_size s) buf M = None"
    unfolding parse_and_update_PAT_def pat_parse_enc[OF assms(2-4)] using assms(6) by (simp add: Let_def)
  with pat_parse_enc[OF assms(2-4), of "pmtInfo_stack env" M] n l m show ?thesis by auto
qed

definition pat_long_example :: pat_section where
  "pat_long_example = pat_example\<lparr>pa_programs := replicate 129 (3, 0x64)\<rparr>"

theorem pat_overrun_witness:
  "parse_and_update_PAT inb_env_example (pat_size pat_long_example) (enc_pat pat_long_example @ replicate 3564 0) inb_example = None"
proof -
  have ok: "pat_ok pat_long_example" by (simp add: pat_ok_def pat_long_example_def pat_example_def pid_ok_def)
  have l: "length (listed (pa_programs pat_long_example)) > 128" by (simp add: listed_def pat_long_example_def)
  have s: "pa_stray pat_long_example = []" by (simp add: pat_long_example_def pat_example_def)
  have buf: "holds_at (enc_pat pat_long_example @ replicate 3564 0) 0 (enc_pat pat_long_example)" by simp
  show ?thesis using pat_overrun[OF inb_example_ready ok s buf l] inb_example_new(2) by simp
qed

text \<open>
  A table of two sections, of which the manager gets the first and then the second. Clients are told after the second
  only, and then the programs are those of the second section: the first one's are gone.
\<close>

theorem pat_sections_replace:
  assumes "pat_ready env M" "num_sections M = 0" "patVersionNumber M = INIT_TABLE_VERSION" "m_bIsPATAvailable M = False"
    and "\<forall>s \<in> {s1, s2}. pat_ok s \<and> pa_stray s = [] \<and> length (listed (pa_programs s)) \<le> 128 \<and> pa_last_section_number s = 1"
    and "holds_at buf1 0 (enc_pat s1)" "holds_at buf2 0 (enc_pat s2)" "pat_crc s1 \<noteq> pat_crc s2" "pa_version s1 = pa_version s2"
  shows "\<exists>M1 M2. parse_and_update_PAT env (pat_size s1) buf1 M = Some (0, M1) \<and> \<not> m_bIsPATAvailable M1 \<and>
    parse_and_update_PAT env (pat_size s2) buf2 M1 = Some (0, M2) \<and> m_bIsPATAvailable M2 \<and>
    psi_events M1 = psi_events M \<and> psi_events M2 = psi_events M @ announced RMF_SI_EVENT_IB_PAT_UPDATE RMF_SI_CHANGE_TYPE_MODIFY M \<and>
    (\<forall>p. p \<noteq> 0 \<longrightarrow> get_pmtpid_for_program p M2 =
       Some (case map_of (pa_programs s2) p of None \<Rightarrow> (RMF_INBSI_NOT_FOUND, None) | Some pid \<Rightarrow> (RMF_SUCCESS, Some pid)))"
proof -
  have s1: "pat_ok s1" "pa_stray s1 = []" "length (listed (pa_programs s1)) \<le> 128"
    and s2: "pat_ok s2" "pa_stray s2 = []" "length (listed (pa_programs s2)) \<le> 128"
    and last: "pa_last_section_number s1 = 1" using assms(5) by simp_all
  obtain M1 where 1: "parse_and_update_PAT env (pat_size s1) buf1 M = Some (0, M1)" "pat_ready env M1"
    "patVersionNumber M1 = word_of_nat (pa_version s1)" "patCRC M1 = pat_crc s1"
    "num_sections M1 = num_sections (pat_numbered s1 M) - 1" "g_inbsi_registration_list M1 = g_inbsi_registration_list M"
    "m_bIsPATAvailable M1 = (m_bIsPATAvailable M \<or> num_sections M1 = 0)"
    "psi_events M1 = psi_events M @ (if num_sections M1 \<noteq> 0 then [] else if patVersionNumber M = INIT_TABLE_VERSION
         then announced RMF_SI_EVENT_IB_PAT_ACQUIRED RMF_SI_CHANGE_TYPE_ADD M
         else announced RMF_SI_EVENT_IB_PAT_UPDATE RMF_SI_CHANGE_TYPE_MODIFY M)"
    by (rule pat_update_changed[OF assms(1) s1(1,2) assms(6) s1(3)]) (use assms(3) in simp)
  have n: "num_sections M1 = 1" using 1(5) assms(2) last by (simp add: pat_numbered_def)
  have v: "patVersionNumber M1 \<noteq> 32" using pat_version_known[OF s1(1)] 1(3) by simp
  obtain M2 where 2: "parse_and_update_PAT env (pat_size s2) buf2 M1 = Some (0, M2)" "pat_ready env M2"
    "programs_of M2 = listed (pa_programs s2)" "num_sections M2 = num_sections (pat_numbered s2 M1) - 1"
    "m_bIsPATAvailable M2 = (m_bIsPATAvailable M1 \<or> num_sections M2 = 0)"
    "psi_events M2 = psi_events M1 @ (if num_sections M2 \<noteq> 0 then [] else if patVersionNumber M1 = INIT_TABLE_VERSION
         then announced RMF_SI_EVENT_IB_PAT_ACQUIRED RMF_SI_CHANGE_TYPE_ADD M1
         else announced RMF_SI_EVENT_IB_PAT_UPDATE RMF_SI_CHANGE_TYPE_MODIFY M1)"
    by (rule pat_update_changed[OF 1(2) s2(1,2) assms(7) s2(3)]) (use 1(4) assms(8) in simp)
  have "num_sections M2 = 0" using 2(4) n by (simp add: pat_numbered_def)
  then show ?thesis
    using 1 2 n v assms(4) get_pmtpid_listed[OF 2(2,3)] by (intro exI[of _ M1] exI[of _ M2]) (simp add: announced_def)
qed

definition pat_first_example :: pat_section where
  "pat_first_example = pat_example\<lparr>pa_last_section_number := 1\<rparr>"

definition pat_second_example :: pat_section where
  "pat_second_example = pat_first_example\<lparr>pa_section_number := 1, pa_programs := [(4, 0x65)], pa_crc := [1, 2, 3, 4]\<rparr>"

theorem pat_sections_replace_witness:
  "\<exists>M1 M2. parse_and_update_PAT inb_env_example (pat_size pat_first_example) (enc_pat pat_first_example @ replicate 4076 0) inb_example = Some (0, M1) \<and>
     parse_and_update_PAT inb_env_example (pat_size pat_second_example) (enc_pat pat_second_example @ replicate 4080 0) M1 = Some (0, M2) \<and>
     get_pmtpid_for_program 3 M2 = Some (RMF_INBSI_NOT_FOUND, None) \<and> get_pmtpid_for_program 4 M2 = Some (RMF_SUCCESS, Some 0x65)"
proof -
  let ?s1 = pat_first_example and ?s2 = pat_second_example
  have ok: "\<forall>s \<in> {?s1, ?s2}. pat_ok s \<and> pa_stray s = [] \<and> length (listed (pa_programs s)) \<le> 128 \<and> pa_last_section_number s = 1"
    by (simp add: pat_first_example_def pat_second_example_def pat_ok_def pat_example_def pid_ok_def listed_def)
  have h: "holds_at (enc_pat ?s1 @ replicate 4076 0) 0 (enc_pat ?s1)" "holds_at (enc_pat ?s2 @ replicate 4080 0) 0 (enc_pat ?s2)" by simp_all
  have crc: "pat_crc ?s1 \<noteq> pat_crc ?s2"
    by (simp add: pat_crc_def pat_first_example_def pat_second_example_def pat_example_def be32_def)
  have v: "pa_version ?s1 = pa_version ?s2" "m_bIsPATAvailable inb_example = False"
    by (simp_all add: pat_second_example_def inb_example_def RegisterForPSIEvents_def rmf_InbSiMgr_new_def inb_alloc_def)
  have p: "map_of (pa_programs ?s2) 3 = None" "map_of (pa_programs ?s2) 4 = Some 0x65" by (simp_all add: pat_second_example_def)
  from pat_sections_replace[OF inb_example_ready inb_example_new(1,2) v(2) ok h crc v(1)]
  obtain M1 M2 where "parse_and_update_PAT inb_env_example (pat_size ?s1) (enc_pat ?s1 @ replicate 4076 0) inb_example = Some (0, M1)"
     "parse_and_update_PAT inb_env_example (pat_size ?s2) (enc_pat ?s2 @ replicate 4080 0) M1 = Some (0, M2)"
     "\<forall>p. p \<noteq> 0 \<longrightarrow> get_pmtpid_for_program p M2 =
       Some (case map_of (pa_programs ?s2) p of None \<Rightarrow> (RMF_INBSI_NOT_FOUND, None) | Some pid \<Rightarrow> (RMF_SUCCESS, Some pid))"
    by blast
  with p show ?thesis by (intro exI[of _ M1] exI[of _ M2]) simp
qed

end
