(* ===== verification/InbPmt.thy ===== *)
theory InbPmt
  imports InbPat
begin

text \<open>
  The program map table: \<open>parse_and_update_PMT\<close> with the lists of outer descriptors and elementary streams it builds, and the calls
  by which clients read them. The parser goes through the section twice: once to check it, and once more
  to store it when it is new. The pointers into the section are offsets into the array of 4096 bytes that holds it.
\<close>

section \<open>The checking pass\<close>

abbreviation (input) MAX_PROGRAM_INFO_LENGTH :: "16 word" where "MAX_PROGRAM_INFO_LENGTH \<equiv> 1023"
abbreviation (input) MAX_ES_INFO_LENGTH :: "32 word" where "MAX_ES_INFO_LENGTH \<equiv> 1023"
abbreviation (input) NO_PCR_PID :: "16 word" where "NO_PCR_PID \<equiv> 0x1FFF"
abbreviation (input) RMF_SI_PMT_MAX_SIZE :: nat where "RMF_SI_PMT_MAX_SIZE \<equiv> 1024"
abbreviation (input) RMF_SI_MAX_PIDS_PER_PGM :: nat where "RMF_SI_MAX_PIDS_PER_PGM \<equiv> 32"
abbreviation (input) RMF_SI_DESC_ISO_639_LANGUAGE :: byte where "RMF_SI_DESC_ISO_639_LANGUAGE \<equiv> 0x0A"
abbreviation (input) RMF_SI_DESC_COMPONENT_NAME :: byte where "RMF_SI_DESC_COMPONENT_NAME \<equiv> 0xA3"

record pmt_head =
  ph_version_number :: "16 word"
  ph_pcr_pid :: "16 word"
  ph_outer_desc :: nat
  ph_outer_desc_len :: "16 word"
  ph_es_desc :: nat
  ph_es_desc_len :: "32 word"

definition pmt_header :: "32 word \<Rightarrow> byte list \<Rightarrow> (rmf_Error + pmt_head) option" where
  "pmt_header section_size section_data =
     do { o1 \<leftarrow> rd section_data 0; o2 \<leftarrow> rd section_data 1; o3 \<leftarrow> rd section_data 2;
          let section_length = be12 o2 o3;
          if o1 \<noteq> PROGRAM_MAP_TABLE_ID then Some (Inl 2)
          else if TESTBITS o2 8 8 = 0 then Some (Inl 3)
          else if section_length > MAX_IB_SECTION_LENGTH \<or> section_length < 9 then Some (Inl 6)
          else if section_size - 3 \<noteq> section_length then Some (Inl 7)
          else do {
            o6 \<leftarrow> rd section_data 5; o7 \<leftarrow> rd section_data 6; o8 \<leftarrow> rd section_data 7;
            o9 \<leftarrow> rd section_data 8; o10 \<leftarrow> rd section_data 9; o11 \<leftarrow> rd section_data 10; o12 \<leftarrow> rd section_data 11;
            let version_number = ucast (GETBITS o6 6 2);
            let pcr_pid = be16 (o9 AND 0x1F) o10;
            let program_info_length = be16 (o11 AND 0x0F) o12;
            let section_length = section_length - 9;
            if o7 \<noteq> 0 then Some (Inl 10)
            else if o8 \<noteq> 0 then Some (Inl 11)
            else if pcr_pid > CAT_PID \<and> pcr_pid < MIN_VALID_PID then Some (Inl 13)
            else if program_info_length > MAX_PROGRAM_INFO_LENGTH then Some (Inl 15)
            else if section_length \<le> 0 \<or> ucast program_info_length > section_length then Some (Inl 16)
            else Some (Inr \<lparr>ph_version_number = version_number, ph_pcr_pid = pcr_pid, ph_outer_desc = 12,
                            ph_outer_desc_len = program_info_length, ph_es_desc = 12 + unat program_info_length,
                            ph_es_desc_len = section_length - ucast program_info_length\<rparr>) } }"

text \<open>The N2 loop over the descriptors of a stream, and the N1 loop over the streams.\<close>

function pmt_n2 :: "byte list \<Rightarrow> nat \<Rightarrow> 32 word \<Rightarrow> 32 word \<Rightarrow> (rmf_Error + nat \<times> 32 word) option" where
  "pmt_n2 section_data p section_length es_len =
     (if es_len \<ge> 2 then
        do { _ \<leftarrow> rd section_data p; desc_len \<leftarrow> rd section_data (p + 1);
             let section_length = section_length - 2; let es_len = es_len - 2;
             if ucast desc_len > es_len then Some (Inl 25)
             else let section_length = section_length - ucast desc_len;
                      p = p + 2 + unat desc_len;
                      es_len = es_len - ucast desc_len
                  in if es_len > 0 \<and> es_len < 2 then Some (Inl 26)
                     else pmt_n2 section_data p section_length es_len }
      else Some (Inr (p, section_length)))"
  by pat_completeness auto
termination
  by (relation "measure (\<lambda>(buf, p, _, _). length buf - p)") (auto simp: rd_Some)

declare pmt_n2.simps [simp del]

lemma pmt_n2_moves: "pmt_n2 buf p sl es = Some (Inr (p', sl')) \<Longrightarrow> p \<le> p'"
proof (induction buf p sl es rule: pmt_n2.induct)
  case (1 buf p sl es)
  from 1(2) show ?case
    by (subst (asm) pmt_n2.simps) (auto simp: bind_eq_Some_conv Let_def split: if_splits dest!: 1(1)[OF _ _ _ refl refl _ refl refl refl])
qed

definition es_header :: "byte list \<Rightarrow> nat \<Rightarrow> (byte \<times> 16 word \<times> 32 word) option" where
  "es_header section_data p =
     do { o1 \<leftarrow> rd section_data p; o2 \<leftarrow> rd section_data (p + 1); o3 \<leftarrow> rd section_data (p + 2);
          o4 \<leftarrow> rd section_data (p + 3); o5 \<leftarrow> rd section_data (p + 4);
          let es_len = be12 o4 o5;
          Some (o1, be16 (o2 AND 0x1F) o3,
                if es_len > MAX_ES_INFO_LENGTH then es_len AND 0x3FF else es_len) }"

lemma es_header_in: "es_header buf p = Some r \<Longrightarrow> p < length buf"
  by (auto simp: es_header_def bind_eq_Some_conv rd_Some)

function pmt_n1 :: "byte list \<Rightarrow> 16 word \<Rightarrow> nat \<Rightarrow> 32 word \<Rightarrow> (rmf_Error + nat \<times> 32 word) option" where
  "pmt_n1 section_data pcr_pid p section_length =
     (if section_length - 4 \<ge> 5 then
        do { stream_type \<leftarrow> rd section_data p;
             if pcr_pid = NO_PCR_PID \<and> stream_type \<ge> 0x01 \<and> stream_type \<le> 0x87 then Some (Inl 20)
             else do {
               (_, _, es_len) \<leftarrow> es_header section_data p;
               let section_length = section_length - 5;
               if es_len > section_length then Some (Inl 24)
               else do { r \<leftarrow> pmt_n2 section_data (p + 5) section_length es_len;
                         case r of Inl e \<Rightarrow> Some (Inl e)
                         | Inr (p, section_length) \<Rightarrow> pmt_n1 section_data pcr_pid p section_length } } }
      else Some (Inr (p, section_length)))"
  by pat_completeness auto
termination
  by (relation "measure (\<lambda>(buf, _, p, _). length buf - p)") (auto simp: rd_Some dest!: pmt_n2_moves)

declare pmt_n1.simps [simp del]

text \<open>Everything before \<open>PARSING_DONE\<close>: an error, or the header and the CRC.\<close>

definition pmt_parse :: "32 word \<Rightarrow> byte list \<Rightarrow> (rmf_Error + pmt_head \<times> 32 word) option" where
  "pmt_parse section_size section_data =
     do { h \<leftarrow> pmt_header section_size section_data;
          case h of
            Inl e \<Rightarrow> Some (Inl e)
          | Inr h \<Rightarrow>
              do { r \<leftarrow> pmt_n1 section_data (ph_pcr_pid h) (ph_es_desc h) (ph_es_desc_len h);
                   case r of
                     Inl e \<Rightarrow> Some (Inl e)
                   | Inr (p, section_length) \<Rightarrow>
                       if section_length > 4 then Some (Inl 27)
                       else if section_length = 4 then
                         do { c1 \<leftarrow> rd section_data p; c2 \<leftarrow> rd section_data (p + 1);
                              c3 \<leftarrow> rd section_data (p + 2); c4 \<leftarrow> rd section_data (p + 3);
                              Some (Inr (h, be32 c1 c2 c3 c4)) }
                       else Some (Inr (h, 0)) } }"

section \<open>Descriptors and streams\<close>

text \<open>A new descriptor with a copy of its content: two allocations, the second for a content that is not empty.\<close>

definition new_descriptor ::
  "byte \<Rightarrow> byte \<Rightarrow> byte list \<Rightarrow> nat \<Rightarrow> rmf_InbSiMgr \<Rightarrow> (rmf_SiMpeg2Descriptor option \<times> rmf_InbSiMgr) option" where
  "new_descriptor t len section_data content M =
     (let (ok, M) = inb_alloc M
      in if \<not> ok then Some (None, M)
         else if len > 0 then
           (let (ok, M) = inb_alloc M
            in if \<not> ok then Some (None, M)
               else do { c \<leftarrow> memcpy (replicate (unat len) 0) section_data content (unat len);
                         Some (Some \<lparr>tag = t, descriptor_length = len, descriptor_content = c\<rparr>, M) })
         else Some (Some \<lparr>tag = t, descriptor_length = len, descriptor_content = []\<rparr>, M))"

definition SetOuterDescriptor ::
  "byte \<Rightarrow> byte \<Rightarrow> byte list \<Rightarrow> nat \<Rightarrow> rmf_InbSiMgr \<Rightarrow> (rmf_Error \<times> rmf_InbSiMgr) option" where
  "SetOuterDescriptor t len section_data content M =
     do { (d, M) \<leftarrow> new_descriptor t len section_data content M;
          case d of
            None \<Rightarrow> Some (RMF_INBSI_OUT_OF_MEM, M)
          | Some d \<Rightarrow> Some (RMF_SUCCESS, M\<lparr>outer_descriptors := outer_descriptors M @ [d],
                                          number_outer_desc := number_outer_desc M + 1\<rparr>) }"

definition get_serviceComponentType :: "byte \<Rightarrow> rmf_SiServiceComponentType" where
  "get_serviceComponentType stream_type =
     (if stream_type \<in> {0x01, 0x02, 0x80, 0x1B} then RMF_SI_COMP_TYPE_VIDEO
      else if stream_type \<in> {0x03, 0x04, 0x81, 0x87, 0x0F, 0x11} then RMF_SI_COMP_TYPE_AUDIO
      else if stream_type = 0x82 then RMF_SI_COMP_TYPE_SUBTITLES
      else if stream_type \<in> {0x0C, 0x0B, 0x06, 0x08, 0x0A, 0x0D, 0x15} then RMF_SI_COMP_TYPE_DATA
      else if stream_type \<in> {0x05, 0x14, 0x16, 0x17, 0x18, 0x19} then RMF_SI_COMP_TYPE_SECTIONS
      else RMF_SI_COMP_TYPE_UNKNOWN)"

definition append_elementaryStream :: "rmf_SiElementaryStream \<Rightarrow> rmf_InbSiMgr \<Rightarrow> rmf_InbSiMgr" where
  "append_elementaryStream es M =
     M\<lparr>elementary_streams := elementary_streams M @ [es], number_elem_streams := number_elem_streams M + 1\<rparr>"

definition SetElementaryStream :: "byte \<Rightarrow> 32 word \<Rightarrow> rmf_InbSiMgr \<Rightarrow> rmf_Error \<times> rmf_InbSiMgr" where
  "SetElementaryStream stream_type elem_pid M =
     (if elem_pid = 0 then (RMF_INBSI_INVALID_PARAMETER, M)
      else let (ok, M) = inb_alloc M
           in if \<not> ok then (RMF_INBSI_OUT_OF_MEM, M)
              else (RMF_SUCCESS, append_elementaryStream
                \<lparr>elementary_stream_type = stream_type, service_comp_type = get_serviceComponentType stream_type,
                 service_component_names = [], elementary_PID = elem_pid, associated_language = [0, 0, 0, 0],
                 es_info_length = 0, number_desc = 0, descriptors = []\<rparr> M))"

text \<open>The loops that look for the first stream with a PID and a type.\<close>

fun find_stream :: "32 word \<Rightarrow> byte \<Rightarrow> rmf_SiElementaryStream list \<Rightarrow> nat option" where
  "find_stream elem_pid type [] = None"
| "find_stream elem_pid type (es # elem_list) =
     (if elementary_PID es = elem_pid \<and> elementary_stream_type es = type then Some 0
      else map_option Suc (find_stream elem_pid type elem_list))"

definition put_stream :: "nat \<Rightarrow> (rmf_SiElementaryStream \<Rightarrow> rmf_SiElementaryStream) \<Rightarrow> rmf_InbSiMgr \<Rightarrow> rmf_InbSiMgr" where
  "put_stream i f M = M\<lparr>elementary_streams := (elementary_streams M)[i := f (elementary_streams M ! i)]\<rparr>"

definition SetESInfoLength :: "32 word \<Rightarrow> byte \<Rightarrow> 32 word \<Rightarrow> rmf_InbSiMgr \<Rightarrow> rmf_InbSiMgr" where
  "SetESInfoLength elem_pid type len M =
     (case find_stream elem_pid type (elementary_streams M) of
        None \<Rightarrow> M | Some i \<Rightarrow> put_stream i (es_info_length_update (\<lambda>_. len)) M)"

section \<open>The component name descriptor\<close>

text \<open>What \<open>strncat\<close> appends: at most n bytes, up to a zero.\<close>

fun c_chars :: "byte list \<Rightarrow> nat \<Rightarrow> nat \<Rightarrow> byte list option" where
  "c_chars section_data p 0 = Some []"
| "c_chars section_data p (Suc n) =
     do { c \<leftarrow> rd section_data p;
          if c = 0 then Some [] else do { cs \<leftarrow> c_chars section_data (Suc p) n; Some (c # cs) } }"

text \<open>
  The segments of one string. The string has room for 1023 bytes and its zero. After a segment the pointer stands
  at the first byte of the segment's text and not behind it.
\<close>

fun mss_segments :: "byte list \<Rightarrow> nat \<Rightarrow> nat \<Rightarrow> byte list \<Rightarrow> (nat \<times> byte list) option" where
  "mss_segments section_data 0 mss_ptr mssString = Some (mss_ptr, mssString)"
| "mss_segments section_data (Suc numSegments) mss_ptr mssString =
     do { compressionType \<leftarrow> rd section_data mss_ptr; mode \<leftarrow> rd section_data (mss_ptr + 1);
          if compressionType \<noteq> 0 \<or> mode \<noteq> 0 then Some (mss_ptr + 2, mssString)
          else do { numBytes \<leftarrow> rd section_data (mss_ptr + 2);
                    cs \<leftarrow> c_chars section_data (mss_ptr + 3) (unat numBytes);
                    if length mssString + length cs < 1024
                    then mss_segments section_data numSegments (mss_ptr + 3) (mssString @ cs) else None } }"

text \<open>The strings, each put in front of the list; False when memory is short.\<close>

fun mss_strings ::
  "byte list \<Rightarrow> nat \<Rightarrow> nat \<Rightarrow> (cstr \<times> cstr) list \<Rightarrow> rmf_InbSiMgr \<Rightarrow> (bool \<times> (cstr \<times> cstr) list \<times> rmf_InbSiMgr) option" where
  "mss_strings section_data 0 mss_ptr names M = Some (True, names, M)"
| "mss_strings section_data (Suc numStrings) mss_ptr names M =
     do { l1 \<leftarrow> rd section_data mss_ptr; l2 \<leftarrow> rd section_data (mss_ptr + 1); l3 \<leftarrow> rd section_data (mss_ptr + 2);
          numSegments \<leftarrow> rd section_data (mss_ptr + 3);
          (mss_ptr, mssString) \<leftarrow> mss_segments section_data (unat numSegments) (mss_ptr + 4) [];
          if mssString \<noteq> [] then
            (let (ok, M) = inb_alloc M
             in if \<not> ok then Some (False, names, M)
                else let (ok, M) = inb_alloc M
                     in if \<not> ok then Some (False, names, M)
                        else mss_strings section_data numStrings mss_ptr
                               ((takeWhile (\<lambda>c. c \<noteq> 0) [l1, l2, l3], mssString) # names) M)
          else mss_strings section_data numStrings mss_ptr names M }"

text \<open>What a descriptor says of its stream beside being stored: its language or its names.\<close>

definition describe_stream ::
  "nat \<Rightarrow> byte \<Rightarrow> byte \<Rightarrow> byte list \<Rightarrow> nat \<Rightarrow> rmf_InbSiMgr \<Rightarrow> (bool \<times> rmf_InbSiMgr) option" where
  "describe_stream i t len section_data content M =
     (if t = RMF_SI_DESC_ISO_639_LANGUAGE then
        (if len > 0 then
           do { lang \<leftarrow> memcpy (replicate 4 0) section_data content 4;
                Some (True, put_stream i (associated_language_update (\<lambda>_. lang)) M) }
         else Some (True, M))
      else if t = RMF_SI_DESC_COMPONENT_NAME then
        do { numStrings \<leftarrow> rd section_data content;
             (ok, names, M) \<leftarrow> mss_strings section_data (unat numStrings) (content + 1) [] M;
             Some (ok, put_stream i (service_component_names_update (\<lambda>_. names)) M) }
      else Some (True, M))"

definition SetDescriptor ::
  "32 word \<Rightarrow> byte \<Rightarrow> byte \<Rightarrow> byte \<Rightarrow> byte list \<Rightarrow> nat \<Rightarrow> rmf_InbSiMgr \<Rightarrow> (rmf_Error \<times> rmf_InbSiMgr) option" where
  "SetDescriptor elem_pid type t len section_data content M =
     (case find_stream elem_pid type (elementary_streams M) of
        None \<Rightarrow> Some (RMF_SUCCESS, M)
      | Some i \<Rightarrow>
          do { (ok, M) \<leftarrow> describe_stream i t len section_data content M;
               if \<not> ok then Some (RMF_INBSI_OUT_OF_MEM, M)
               else do {
                 (d, M) \<leftarrow> new_descriptor t len section_data content M;
                 case d of
                   None \<Rightarrow> Some (RMF_INBSI_OUT_OF_MEM, M)
                 | Some d \<Rightarrow> Some (RMF_SUCCESS, put_stream i
                     (\<lambda>es. es\<lparr>descriptors := descriptors es @ [d], number_desc := number_desc es + 1\<rparr>) M) } })"

section \<open>The storing pass\<close>

text \<open>The loop over the outer descriptors; its length is a \<open>uint16_t\<close> that can wrap.\<close>

function outer_loop :: "byte list \<Rightarrow> nat \<Rightarrow> 16 word \<Rightarrow> rmf_InbSiMgr \<Rightarrow> rmf_InbSiMgr option" where
  "outer_loop section_data ptr_outer_desc outer_desc_len M =
     (if outer_desc_len \<noteq> 0 then
        do { t \<leftarrow> rd section_data ptr_outer_desc; len \<leftarrow> rd section_data (ptr_outer_desc + 1);
             (_, M) \<leftarrow> SetOuterDescriptor t len section_data (ptr_outer_desc + 2) M;
             outer_loop section_data (ptr_outer_desc + 2 + unat len) (outer_desc_len - 2 - ucast len) M }
      else Some M)"
  by pat_completeness auto
termination
  by (relation "measure (\<lambda>(buf, p, _, _). length buf - p)") (auto simp: rd_Some)

declare outer_loop.simps [simp del]

text \<open>The N2 and N1 loops again. Here a bad length ends the N2 loop only.\<close>

function es_n2 ::
  "byte list \<Rightarrow> 32 word \<Rightarrow> byte \<Rightarrow> nat \<Rightarrow> 32 word \<Rightarrow> 32 word \<Rightarrow> rmf_InbSiMgr \<Rightarrow> (nat \<times> 32 word \<times> rmf_InbSiMgr) option" where
  "es_n2 section_data elem_pid type p section_length es_len M =
     (if es_len \<ge> 2 then
        do { t \<leftarrow> rd section_data p; len \<leftarrow> rd section_data (p + 1);
             let section_length = section_length - 2; let es_len = es_len - 2;
             if ucast len > es_len then Some (p + 2, section_length, M)
             else do {
               (_, M) \<leftarrow> SetDescriptor elem_pid type t len section_data (p + 2) M;
               let section_length = section_length - ucast len; let es_len = es_len - ucast len;
               if es_len > 0 \<and> es_len < 2 then Some (p + 2 + unat len, section_length, M)
               else es_n2 section_data elem_pid type (p + 2 + unat len) section_length es_len M } }
      else Some (p, section_length, M))"
  by pat_completeness auto
termination
  by (relation "measure (\<lambda>(buf, _, _, p, _, _, _). length buf - p)") (auto simp: rd_Some)

declare es_n2.simps [simp del]

lemma es_n2_moves: "es_n2 buf pid ty p sl es M = Some (p', r) \<Longrightarrow> p \<le> p'"
proof (induction buf pid ty p sl es M rule: es_n2.induct)
  case (1 buf pid ty p sl es M)
  from 1(2) show ?case
    by (subst (asm) es_n2.simps) (auto simp: bind_eq_Some_conv Let_def split: if_splits prod.splits dest!: 1(1)[OF _ _ _ refl refl _ _ refl refl refl])
qed

function es_n1 :: "byte list \<Rightarrow> nat \<Rightarrow> 32 word \<Rightarrow> rmf_InbSiMgr \<Rightarrow> rmf_InbSiMgr option" where
  "es_n1 section_data p section_length M =
     (if section_length - 4 \<ge> 5 then
        do { (stream_type, elementary_pid, es_len) \<leftarrow> es_header section_data p;
             let (_, M) = SetElementaryStream stream_type (ucast elementary_pid) M;
             let M = SetESInfoLength (ucast elementary_pid) stream_type es_len M;
             (p, section_length, M) \<leftarrow> es_n2 section_data (ucast elementary_pid) stream_type (p + 5) (section_length - 5) es_len M;
             es_n1 section_data p section_length M }
      else Some M)"
  by pat_completeness auto
termination
  by (relation "measure (\<lambda>(buf, p, _, _). length buf - p)") (auto dest!: es_n2_moves es_header_in)

declare es_n1.simps [simp del]

definition keep_pmt :: "32 word \<Rightarrow> byte list \<Rightarrow> rmf_InbSiMgr \<Rightarrow> rmf_InbSiMgr option" where
  "keep_pmt section_size section_data M =
     (if unat section_size \<le> RMF_SI_PMT_MAX_SIZE then
        do { b \<leftarrow> memcpy (pmtBuf M) section_data 0 (unat section_size);
             Some (M\<lparr>pmtBuf := b, pmtBufLen := section_size\<rparr>) }
      else Some M)"

text \<open>\<open>release_descriptors\<close> and \<open>release_es_list\<close>.\<close>

definition release_pmt :: "rmf_InbSiMgr \<Rightarrow> rmf_InbSiMgr" where
  "release_pmt M = M\<lparr>outer_descriptors := [], number_outer_desc := 0, elementary_streams := [], number_elem_streams := 0\<rparr>"

definition pmt_store :: "inb_env \<Rightarrow> 32 word \<Rightarrow> byte list \<Rightarrow> pmt_head \<Rightarrow> 32 word \<Rightarrow> rmf_InbSiMgr \<Rightarrow> rmf_InbSiMgr option" where
  "pmt_store env section_size section_data h crc M =
     do { M \<leftarrow> outer_loop section_data (ph_outer_desc h) (ph_outer_desc_len h) (release_pmt M);
          M \<leftarrow> es_n1 section_data (ph_es_desc h) (ph_es_desc_len h) M;
          let M = M\<lparr>pcrPid := ph_pcr_pid h\<rparr>;
          let M = notifySIDB env TABLE_TYPE_PMT (pmtVersionNumber M = INIT_TABLE_VERSION)
                    (pmtVersionNumber M \<noteq> ph_version_number h) (pmtCRC M \<noteq> crc) M;
          let M = M\<lparr>pmtCRC := crc, pmtVersionNumber := ph_version_number h\<rparr>;
          M \<leftarrow> (if m_NegativeFiltersEnabled M then configure_negative_filters env TABLE_TYPE_PMT M else Some M);
          keep_pmt section_size section_data M }"

definition parse_and_update_PMT ::
  "inb_env \<Rightarrow> 32 word \<Rightarrow> byte list \<Rightarrow> rmf_InbSiMgr \<Rightarrow> (rmf_Error \<times> rmf_InbSiMgr) option" where
  "parse_and_update_PMT env section_size section_data M =
     do { r \<leftarrow> pmt_parse section_size section_data;
          case r of
            Inl e \<Rightarrow> Some (e, M)
          | Inr (h, crc) \<Rightarrow>
              if (pmtVersionNumber M = INIT_TABLE_VERSION \<or> pmtVersionNumber M \<noteq> ph_version_number h \<or> pmtCRC M \<noteq> crc) \<and>
                 \<not> descriptors_in_use M
              then do { M \<leftarrow> pmt_store env section_size section_data h crc M; Some (NO_PARSING_ERROR, M) }
              else Some (NO_PARSING_ERROR, M) }"

section \<open>What clients read\<close>

definition GetDescriptors :: "rmf_InbSiMgr \<Rightarrow> rmf_Error \<times> rmf_SiElementaryStream list \<times> rmf_SiMpeg2Descriptor list \<times> rmf_InbSiMgr" where
  "GetDescriptors M = (RMF_SUCCESS, elementary_streams M, outer_descriptors M, M\<lparr>descriptors_in_use := True\<rparr>)"

definition ReleaseDescriptors :: "rmf_InbSiMgr \<Rightarrow> rmf_InbSiMgr" where
  "ReleaseDescriptors M = M\<lparr>descriptors_in_use := False\<rparr>"

record rmf_MediaInfo =
  mi_pmt_pid :: "16 word"
  mi_pcrPid :: "16 word"
  mi_numMediaPids :: "16 word"
  mi_pmt_crc32 :: "32 word"
  mi_pPidList :: "(byte \<times> 32 word) list"

fun media_loop :: "rmf_SiElementaryStream list \<Rightarrow> nat \<Rightarrow> (byte \<times> 32 word) list \<Rightarrow> (byte \<times> 32 word) list option" where
  "media_loop [] i l = Some l"
| "media_loop (es # pListEntry) i l =
     (if i < RMF_SI_MAX_PIDS_PER_PGM then
        do { l \<leftarrow> wr l i (elementary_stream_type es, elementary_PID es); media_loop pListEntry (Suc i) l }
      else Some l)"

definition GetMediaInfo :: "rmf_MediaInfo \<Rightarrow> rmf_InbSiMgr \<Rightarrow> (rmf_Error \<times> rmf_MediaInfo) option" where
  "GetMediaInfo info M =
     do { l \<leftarrow> media_loop (elementary_streams M) 0 (mi_pPidList info);
          Some (RMF_SUCCESS, \<lparr>mi_pmt_pid = pmtPid M, mi_pcrPid = pcrPid M,
            mi_numMediaPids = (if number_elem_streams M > 32 then 32 else ucast (number_elem_streams M)),
            mi_pmt_crc32 = pmtCRC M, mi_pPidList = l\<rparr>) }"

text \<open>The section buffers: without a buffer the length is returned, a buffer that is too small is an error.\<close>

definition get_buffer :: "byte list \<Rightarrow> 32 word \<Rightarrow> byte list option \<Rightarrow> 32 word \<Rightarrow> (rmf_Error \<times> byte list option \<times> 32 word) option" where
  "get_buffer b len buf length_arg =
     (case buf of
        None \<Rightarrow> Some (RMF_SUCCESS, None, len)
      | Some buf \<Rightarrow>
          if length_arg \<ge> len then do { buf \<leftarrow> memcpy buf b 0 (unat len); Some (RMF_SUCCESS, Some buf, len) }
          else Some (RMF_INBSI_INVALID_PARAMETER, Some buf, length_arg))"

definition GetPMTBuffer :: "byte list option \<Rightarrow> 32 word \<Rightarrow> rmf_InbSiMgr \<Rightarrow> (rmf_Error \<times> byte list option \<times> 32 word) option" where
  "GetPMTBuffer buf length_arg M = get_buffer (pmtBuf M) (pmtBufLen M) buf length_arg"

definition GetPATBuffer :: "byte list option \<Rightarrow> 32 word \<Rightarrow> rmf_InbSiMgr \<Rightarrow> (rmf_Error \<times> byte list option \<times> 32 word) option" where
  "GetPATBuffer buf length_arg M = get_buffer (patBuf M) (patBufLen M) buf length_arg"

definition GetCATBuffer :: "byte list option \<Rightarrow> 32 word \<Rightarrow> rmf_InbSiMgr \<Rightarrow> (rmf_Error \<times> byte list option \<times> 32 word) option" where
  "GetCATBuffer buf length_arg M = get_buffer (catBuf M) (catBufLen M) buf length_arg"

end
