(* ===== verification/InbPmtEnc.thy ===== *)
theory InbPmtEnc
  imports InbPmt ParserCommon
begin

text \<open>
  Encoded program map tables and what the parser makes of them: every descriptor and every stream is found again, in order.
  Three more theorems are about tables whose lengths do not add up.
\<close>

section \<open>Encoders\<close>

record pmt_stream =
  st_type :: byte
  st_pid :: "16 word"
  st_descs :: "descriptor list"

record pmt_section =
  pm_program_number :: "16 word"
  pm_version :: nat
  pm_pcr_pid :: "16 word"
  pm_outer :: "descriptor list"
  pm_streams :: "pmt_stream list"
  pm_crc :: "byte list"

text \<open>A length field of twelve bits behind four reserved bits.\<close>

definition enc_len12 :: "nat \<Rightarrow> byte list" where
  "enc_len12 n = [0xF0 OR word_of_nat (n div 256), word_of_nat (n mod 256)]"

definition enc_stream :: "pmt_stream \<Rightarrow> byte list" where
  "enc_stream s = st_type s # pid_bytes (st_pid s) @ enc_len12 (length (enc_descriptors (st_descs s))) @ enc_descriptors (st_descs s)"

definition enc_streams :: "pmt_stream list \<Rightarrow> byte list" where
  "enc_streams ss = concat (map enc_stream ss)"

definition enc_pmt_body :: "pmt_section \<Rightarrow> byte list" where
  "enc_pmt_body s = enc_descriptors (pm_outer s) @ enc_streams (pm_streams s) @ pm_crc s"

definition enc_pmt :: "pmt_section \<Rightarrow> byte list" where
  "enc_pmt s = enc_psi_header PROGRAM_MAP_TABLE_ID (9 + length (enc_pmt_body s)) @ be16_bytes (pm_program_number s) @
     [0xC1 OR word_of_nat (2 * pm_version s), 0, 0] @ pid_bytes (pm_pcr_pid s) @
     enc_len12 (length (enc_descriptors (pm_outer s))) @ enc_pmt_body s"

definition stream_ok :: "pmt_stream \<Rightarrow> bool" where
  "stream_ok s \<longleftrightarrow> unat (st_pid s) < 2 ^ 13 \<and> list_all descriptor_ok (st_descs s) \<and> length (enc_descriptors (st_descs s)) \<le> 1023"

definition pmt_ok :: "pmt_section \<Rightarrow> bool" where
  "pmt_ok s \<longleftrightarrow> pm_version s < 32 \<and> unat (pm_pcr_pid s) < 2 ^ 13 \<and> \<not> (pm_pcr_pid s > CAT_PID \<and> pm_pcr_pid s < MIN_VALID_PID) \<and>
     (pm_pcr_pid s = NO_PCR_PID \<longrightarrow> (\<forall>st \<in> set (pm_streams s). \<not> (st_type st \<ge> 0x01 \<and> st_type st \<le> 0x87))) \<and>
     list_all descriptor_ok (pm_outer s) \<and> list_all stream_ok (pm_streams s) \<and> length (pm_crc s) = 4 \<and>
     9 + length (enc_pmt_body s) \<le> 1021"

lemma pid13_roundtrip:
  assumes "unat (pid :: 16 word) < 2 ^ 13"
  shows "be16 ((0xE0 OR ucast (drop_bit 8 pid)) AND 0x1F) (ucast pid) = pid"
proof -
  define a :: byte where "a = 0xE0 OR ucast (drop_bit 8 pid)"
  have "be16 (a AND mask 5) b = be16 a b AND mask 13" for b :: byte
    by (rule bit_word_eqI) (auto simp: be16_def bit_and_iff bit_or_iff bit_push_bit_iff bit_ucast_iff bit_mask_iff dest: byte_bit)
  moreover have "(mask 5 :: byte) = 0x1F" "(mask 13 :: 16 word) = 0x1FFF" by (simp_all add: mask_eq_exp_minus_1)
  ultimately show ?thesis using pid_roundtrip[OF assms] unfolding a_def by simp
qed

lemma enc_len12_roundtrip:
  assumes "n \<le> 1023"
  shows "be16 ((0xF0 OR word_of_nat (n div 256)) AND 0x0F) (word_of_nat (n mod 256)) = word_of_nat n"
    and "be12 (0xF0 OR word_of_nat (n div 256)) (word_of_nat (n mod 256)) = word_of_nat n"
proof -
  have "n div 256 < 4" using assms by simp
  then have c: "n div 256 \<in> {0, 1, 2, 3}" by auto
  then have u: "unat ((0xF0 OR word_of_nat (n div 256)) AND 0x0F :: byte) = n div 256"
      "unat (0xF0 OR word_of_nat (n div 256) :: byte) = 240 + n div 256" by auto
  show "be16 ((0xF0 OR word_of_nat (n div 256)) AND 0x0F) (word_of_nat (n mod 256)) = word_of_nat n"
    using assms by (intro word_unat_eq_iff[THEN iffD2]) (simp add: unat_be16 u(1) unat_of_nat)
  have "(240 + n div 256) mod 16 = n div 256" using \<open>n div 256 < 4\<close> by (simp add: mod_add_eq[symmetric])
  then show "be12 (0xF0 OR word_of_nat (n div 256)) (word_of_nat (n mod 256)) = word_of_nat n"
    using assms by (intro word_unat_eq_iff[THEN iffD2]) (simp add: unat_be12 u(2) unat_of_nat)
qed

text \<open>Lengths as words.\<close>

lemma of_nat_le32: "m < 2 ^ 32 \<Longrightarrow> n < 2 ^ 32 \<Longrightarrow> (word_of_nat m \<le> (word_of_nat n :: 32 word)) = (m \<le> n)"
  by (simp add: word_le_nat_alt unat_of_nat)

lemma of_nat_less32: "m < 2 ^ 32 \<Longrightarrow> n < 2 ^ 32 \<Longrightarrow> (word_of_nat m < (word_of_nat n :: 32 word)) = (m < n)"
  by (simp add: word_less_nat_alt unat_of_nat)

lemma ucast_of_nat_byte: "n < 256 \<Longrightarrow> (ucast (word_of_nat n :: byte) :: 'a::len word) = word_of_nat n"
  by (simp add: of_nat_byte_eq unsigned_of_nat take_bit_nat_eq_self)

section \<open>The checking pass on encoded tables\<close>

lemma enc_descriptor_head:
  assumes "holds_at buf p (enc_descriptor d)"
  shows "rd buf p = Some (fst d)" "rd buf (p + 1) = Some (word_of_nat (length (snd d)))" "holds_at buf (p + 2) (snd d)"
  using assms unfolding enc_descriptor_def holds_at_2 by simp_all

lemma enc_descriptors_pos: "ds \<noteq> [] \<Longrightarrow> 2 \<le> length (enc_descriptors ds)"
  by (cases ds) simp_all

text \<open>The length after the first of a list of encoded descriptors.\<close>

lemma descriptor_rest:
  assumes "descriptor_ok d"
  shows "word_of_nat (length (enc_descriptors (d # ds)) + n) - 2 - ucast (word_of_nat (length (snd d)) :: byte) =
      (word_of_nat (length (enc_descriptors ds) + n) :: 32 word)"
  using assms by (simp add: descriptor_ok_def ucast_of_nat_byte)

lemma pmt_n2_enc:
  assumes "holds_at buf p (enc_descriptors ds)" "list_all descriptor_ok ds" "length (enc_descriptors ds) + n < 2 ^ 32"
  shows "pmt_n2 buf p (word_of_nat (length (enc_descriptors ds) + n)) (word_of_nat (length (enc_descriptors ds))) =
    Some (Inr (p + length (enc_descriptors ds), word_of_nat n))"
  using assms
proof (induction ds arbitrary: p)
  case Nil
  show ?case by (subst pmt_n2.simps) simp
next
  case (Cons d ds)
  let ?l = "length (snd d)" and ?r = "length (enc_descriptors ds)"
  have d: "descriptor_ok d" "holds_at buf p (enc_descriptor d)" "holds_at buf (p + 2 + ?l) (enc_descriptors ds)"
    using Cons.prems(1,2) by simp_all
  have l: "?l < 256" using d(1) by (simp add: descriptor_ok_def)
  have len: "length (enc_descriptors (d # ds)) = 2 + ?l + ?r" by simp
  have lt: "2 + ?l + ?r + n < 2 ^ 32" using Cons.prems(3) unfolding len .
  have ge: "(2 :: 32 word) \<le> word_of_nat (2 + ?l + ?r)" using of_nat_le32[of 2 "2 + ?l + ?r"] lt by simp
  have fit: "\<not> (word_of_nat ?l :: 32 word) > word_of_nat (?l + ?r)" using of_nat_less32[of "?l + ?r" ?l] lt l by simp
  have rest: "word_of_nat (2 + ?l + ?r) - 2 = (word_of_nat (?l + ?r) :: 32 word)"
      "word_of_nat (?l + ?r) - word_of_nat ?l = (word_of_nat ?r :: 32 word)"
      "word_of_nat (2 + ?l + ?r + n) - 2 - word_of_nat ?l = (word_of_nat (?r + n) :: 32 word)" by simp_all
  have no26: "\<not> ((word_of_nat ?r :: 32 word) > 0 \<and> (word_of_nat ?r :: 32 word) < 2)"
    using of_nat_less32[of ?r 2] lt enc_descriptors_pos[of ds] by (cases "ds = []") simp_all
  have "pmt_n2 buf p (word_of_nat (2 + ?l + ?r + n)) (word_of_nat (2 + ?l + ?r)) =
      pmt_n2 buf (p + 2 + ?l) (word_of_nat (?r + n)) (word_of_nat ?r)"
    using ge fit no26
    by (subst pmt_n2.simps)
      (simp only: enc_descriptor_head(1,2)[OF d(2)] bind.bind_lunit Let_def ucast_of_nat_byte[OF l] rest unat_of_nat_byte[OF l] if_True if_False)
  also have "\<dots> = Some (Inr (p + 2 + ?l + ?r, word_of_nat n))"
    using Cons.IH[OF d(3)] Cons.prems(2) lt by simp
  finally show ?case unfolding len by (simp only: add.assoc)
qed

lemma enc_stream_head:
  assumes "holds_at buf p (enc_stream s)" "stream_ok s"
  shows "es_header buf p = Some (st_type s, st_pid s, word_of_nat (length (enc_descriptors (st_descs s))))"
    and "rd buf p = Some (st_type s)" "holds_at buf (p + 5) (enc_descriptors (st_descs s))"
proof -
  let ?n = "length (enc_descriptors (st_descs s))"
  have n: "?n \<le> 1023" "unat (st_pid s) < 2 ^ 13" using assms(2) by (simp_all add: stream_ok_def)
  have h: "holds_at buf p (st_type s # (0xE0 OR ucast (drop_bit 8 (st_pid s))) # ucast (st_pid s) #
      (0xF0 OR word_of_nat (?n div 256)) # word_of_nat (?n mod 256) # enc_descriptors (st_descs s))"
    using assms(1) by (simp only: enc_stream_def pid_bytes_def enc_len12_def append.simps)
  note r = h[unfolded holds_at_5]
  have "\<not> (word_of_nat ?n :: 32 word) > 1023" using of_nat_less32[of 1023 ?n] n(1) by simp
  with r show "es_header buf p = Some (st_type s, st_pid s, word_of_nat ?n)"
    unfolding es_header_def by (simp only: bind.bind_lunit Let_def pid13_roundtrip[OF n(2)] enc_len12_roundtrip(2)[OF n(1)] if_False)
  show "rd buf p = Some (st_type s)" "holds_at buf (p + 5) (enc_descriptors (st_descs s))" using r by simp_all
qed

lemma length_enc_stream: "length (enc_stream s) = 5 + length (enc_descriptors (st_descs s))"
  by (simp add: enc_stream_def pid_bytes_def enc_len12_def)

lemma enc_streams_simps [simp]: "enc_streams [] = []" "enc_streams (s # ss) = enc_stream s @ enc_streams ss"
  by (simp_all add: enc_streams_def)

lemma pmt_n1_enc:
  assumes "holds_at buf p (enc_streams ss)" "list_all stream_ok ss" "length (enc_streams ss) + 4 < 2 ^ 32"
    "pcr = NO_PCR_PID \<longrightarrow> (\<forall>s \<in> set ss. \<not> (st_type s \<ge> 0x01 \<and> st_type s \<le> 0x87))"
  shows "pmt_n1 buf pcr p (word_of_nat (length (enc_streams ss) + 4)) = Some (Inr (p + length (enc_streams ss), 4))"
  using assms
proof (induction ss arbitrary: p)
  case Nil
  show ?case by (subst pmt_n1.simps) simp
next
  case (Cons s ss)
  let ?n = "length (enc_descriptors (st_descs s))" and ?r = "length (enc_streams ss)"
  have s: "stream_ok s" "holds_at buf p (enc_stream s)" "holds_at buf (p + (5 + ?n)) (enc_streams ss)"
    using Cons.prems(1,2) by (simp_all add: length_enc_stream)
  note h = enc_stream_head[OF s(2,1)]
  have len: "length (enc_streams (s # ss)) + 4 = 5 + ?n + ?r + 4" by (simp add: length_enc_stream)
  have lt: "5 + ?n + ?r + 4 < 2 ^ 32" using Cons.prems(3) unfolding len .
  have sub: "word_of_nat (5 + ?n + ?r + 4) - 4 = (word_of_nat (5 + ?n + ?r) :: 32 word)"
      "word_of_nat (5 + ?n + ?r + 4) - 5 = (word_of_nat (?n + (?r + 4)) :: 32 word)" by simp_all
  have ge: "(5 :: 32 word) \<le> word_of_nat (5 + ?n + ?r)" using of_nat_le32[of 5 "5 + ?n + ?r"] lt by simp
  have fit: "\<not> (word_of_nat ?n :: 32 word) > word_of_nat (?n + (?r + 4))" using of_nat_less32[of "?n + (?r + 4)" ?n] lt by simp
  have n2: "pmt_n2 buf (p + 5) (word_of_nat (?n + (?r + 4))) (word_of_nat ?n) = Some (Inr (p + 5 + ?n, word_of_nat (?r + 4)))"
    using pmt_n2_enc[OF h(3), of "?r + 4"] s(1) lt by (simp add: stream_ok_def)
  have no20: "\<not> (pcr = NO_PCR_PID \<and> st_type s \<ge> 0x01 \<and> st_type s \<le> 0x87)" using Cons.prems(4) by auto
  have "pmt_n1 buf pcr p (word_of_nat (5 + ?n + ?r + 4)) = pmt_n1 buf pcr (p + 5 + ?n) (word_of_nat (?r + 4))"
    using ge fit no20
    by (subst pmt_n1.simps)
      (simp only: h(1,2) bind.bind_lunit Let_def sub n2 if_True if_False sum.case prod.case)
  also have "\<dots> = Some (Inr (p + (5 + ?n) + ?r, 4))"
    using Cons.IH[OF s(3)] Cons.prems(2,4) lt by (simp add: add.assoc)
  finally show ?case unfolding len by (simp add: length_enc_stream add.assoc)
qed

abbreviation pmt_size :: "pmt_section \<Rightarrow> 32 word" where
  "pmt_size s \<equiv> word_of_nat (length (enc_pmt s))"

lemma length_enc_pmt: "length (enc_pmt s) = 12 + length (enc_pmt_body s)"
  by (simp add: enc_pmt_def enc_psi_header_def be16_bytes_def pid_bytes_def enc_len12_def)

lemma pmt_split:
  assumes "holds_at buf 0 (enc_pmt s)"
  shows "let n = 9 + length (enc_pmt_body s); m = length (enc_descriptors (pm_outer s)) in
      rd buf 0 = Some 2 \<and> rd buf 1 = Some (0xB0 OR word_of_nat (n div 256)) \<and> rd buf 2 = Some (word_of_nat (n mod 256)) \<and>
      rd buf 5 = Some (0xC1 OR word_of_nat (2 * pm_version s)) \<and> rd buf 6 = Some 0 \<and> rd buf 7 = Some 0 \<and>
      rd buf 8 = Some (0xE0 OR ucast (drop_bit 8 (pm_pcr_pid s))) \<and> rd buf 9 = Some (ucast (pm_pcr_pid s)) \<and>
      rd buf 10 = Some (0xF0 OR word_of_nat (m div 256)) \<and> rd buf 11 = Some (word_of_nat (m mod 256))"
    and "holds_at buf 12 (enc_pmt_body s)"
proof -
  let ?n = "9 + length (enc_pmt_body s)" and ?m = "length (enc_descriptors (pm_outer s))"
  have e: "enc_pmt s = 2 # (0xB0 OR word_of_nat (?n div 256)) # word_of_nat (?n mod 256) # ucast (drop_bit 8 (pm_program_number s)) #
      ucast (pm_program_number s) # (0xC1 OR word_of_nat (2 * pm_version s)) # 0 # 0 #
      (0xE0 OR ucast (drop_bit 8 (pm_pcr_pid s))) # ucast (pm_pcr_pid s) # (0xF0 OR word_of_nat (?m div 256)) # word_of_nat (?m mod 256) #
      enc_pmt_body s"
    by (simp only: enc_pmt_def enc_psi_header_def be16_bytes_def pid_bytes_def enc_len12_def append.simps)
  have add: "4 + 1 = (5 :: nat)" "4 + 2 = (6 :: nat)" "4 + 3 = (7 :: nat)" "4 + 4 = (8 :: nat)" "8 + 1 = (9 :: nat)" "8 + 2 = (10 :: nat)" "8 + 3 = (11 :: nat)" "8 + 4 = (12 :: nat)" by simp_all
  note h = assms[unfolded e holds_at_4 add_0 add]
  show "let n = ?n; m = ?m in
      rd buf 0 = Some 2 \<and> rd buf 1 = Some (0xB0 OR word_of_nat (n div 256)) \<and> rd buf 2 = Some (word_of_nat (n mod 256)) \<and>
      rd buf 5 = Some (0xC1 OR word_of_nat (2 * pm_version s)) \<and> rd buf 6 = Some 0 \<and> rd buf 7 = Some 0 \<and>
      rd buf 8 = Some (0xE0 OR ucast (drop_bit 8 (pm_pcr_pid s))) \<and> rd buf 9 = Some (ucast (pm_pcr_pid s)) \<and>
      rd buf 10 = Some (0xF0 OR word_of_nat (m div 256)) \<and> rd buf 11 = Some (word_of_nat (m mod 256))"
    unfolding Let_def using h by (simp only: simp_thms)
  show "holds_at buf 12 (enc_pmt_body s)" using h by (simp only: simp_thms)
qed

definition pmt_decoded :: "pmt_section \<Rightarrow> pmt_head" where
  "pmt_decoded s = \<lparr>ph_version_number = word_of_nat (pm_version s), ph_pcr_pid = pm_pcr_pid s, ph_outer_desc = 12,
     ph_outer_desc_len = word_of_nat (length (enc_descriptors (pm_outer s))),
     ph_es_desc = 12 + length (enc_descriptors (pm_outer s)), ph_es_desc_len = word_of_nat (length (enc_streams (pm_streams s)) + 4)\<rparr>"

definition pmt_crc :: "pmt_section \<Rightarrow> 32 word" where
  "pmt_crc s = be32 (pm_crc s ! 0) (pm_crc s ! 1) (pm_crc s ! 2) (pm_crc s ! 3)"

lemma pmt_header_enc:
  assumes "pmt_ok s" "holds_at buf 0 (enc_pmt s)"
  shows "pmt_header (pmt_size s) buf = Some (Inr (pmt_decoded s))"
proof -
  let ?m = "length (enc_descriptors (pm_outer s))" and ?e = "length (enc_streams (pm_streams s))"
  let ?n = "9 + length (enc_pmt_body s)"
  have v: "pm_version s < 32" and pcr: "unat (pm_pcr_pid s) < 2 ^ 13" "\<not> (pm_pcr_pid s > CAT_PID \<and> pm_pcr_pid s < MIN_VALID_PID)"
    and n: "?n \<le> 1021" and crc: "length (pm_crc s) = 4"
    using assms(1) by (simp_all add: pmt_ok_def)
  have nn: "?n = 9 + (?m + (?e + 4))" using crc by (simp add: enc_pmt_body_def)
  have m: "?m \<le> 1023" "?m < 2 ^ 16" using n nn by simp_all
  note r = pmt_split(1)[OF assms(2), unfolded Let_def]
  have len: "\<not> ((word_of_nat ?n :: 32 word) > 1021 \<or> (word_of_nat ?n :: 32 word) < 9)"
    using of_nat_less32[of 1021 ?n] of_nat_less32[of ?n 9] n by simp
  have sz: "pmt_size s - 3 = (word_of_nat ?n :: 32 word)" by (simp add: length_enc_pmt)
  have sl: "(word_of_nat ?n :: 32 word) - 9 = word_of_nat (?m + (?e + 4))" by (simp only: nn) simp
  have w: "ucast (word_of_nat (pm_version s) :: 32 word) = (word_of_nat (pm_version s) :: 16 word)"
    using v by (intro word_unat_eq_iff[THEN iffD2]) (simp add: unsigned_ucast_eq unat_of_nat take_bit_nat_eq_self)
  have um: "unat (word_of_nat ?m :: 16 word) = ?m" using m(2) by (simp add: unat_of_nat)
  have cm: "(ucast (word_of_nat ?m :: 16 word) :: 32 word) = word_of_nat ?m"
    using m(2) by (intro word_unat_eq_iff[THEN iffD2]) (simp add: unsigned_ucast_eq unat_of_nat take_bit_nat_eq_self)
  have m15: "\<not> (word_of_nat ?m :: 16 word) > 1023" using m(1) um by (simp add: word_less_nat_alt)
  have no16: "\<not> ((word_of_nat (?m + (?e + 4)) :: 32 word) \<le> 0 \<or> (word_of_nat ?m :: 32 word) > word_of_nat (?m + (?e + 4)))"
    using of_nat_le32[of "?m + (?e + 4)" 0] of_nat_less32[of "?m + (?e + 4)" ?m] n nn by simp
  have sub: "(word_of_nat (?m + (?e + 4)) :: 32 word) - word_of_nat ?m = word_of_nat (?e + 4)" by simp
  show ?thesis
    unfolding pmt_header_def pmt_decoded_def
    by (simp only: r bind.bind_lunit Let_def enc_psi_length[OF n] sz sl enc_version[OF v] w pid13_roundtrip[OF pcr(1)]
        enc_len12_roundtrip(1)[OF m(1)] um cm m15 no16 sub len pcr(2) simp_thms if_False)
qed

lemma pmt_parse_enc:
  assumes "pmt_ok s" "holds_at buf 0 (enc_pmt s)"
  shows "pmt_parse (pmt_size s) buf = Some (Inr (pmt_decoded s, pmt_crc s))"
proof -
  let ?m = "length (enc_descriptors (pm_outer s))" and ?e = "length (enc_streams (pm_streams s))"
  have b: "holds_at buf (12 + ?m) (enc_streams (pm_streams s))" "holds_at buf (12 + ?m + ?e) (pm_crc s)"
    using pmt_split(2)[OF assms(2)] by (simp_all add: enc_pmt_body_def)
  have ok: "list_all stream_ok (pm_streams s)" "?e + 4 < 2 ^ 32" "length (pm_crc s) = 4"
      "pm_pcr_pid s = NO_PCR_PID \<longrightarrow> (\<forall>st \<in> set (pm_streams s). \<not> (st_type st \<ge> 0x01 \<and> st_type st \<le> 0x87))"
    using assms(1) by (simp_all add: pmt_ok_def enc_pmt_body_def)
  note r = rd_crc[OF b(2) ok(3)]
  have n1: "pmt_n1 buf (ph_pcr_pid (pmt_decoded s)) (ph_es_desc (pmt_decoded s)) (ph_es_desc_len (pmt_decoded s)) =
      Some (Inr (12 + ?m + ?e, 4))"
    using pmt_n1_enc[OF b(1) ok(1,2,4)] by (simp only: pmt_decoded_def pmt_head.simps)
  show ?thesis unfolding pmt_parse_def pmt_header_enc[OF assms]
    by (simp only: n1 r bind.bind_lunit sum.case prod.case Let_def pmt_crc_def order.irrefl simp_thms if_True if_False)
qed

section \<open>The storing pass on encoded tables\<close>

text \<open>A manager with given lists of descriptors and streams.\<close>

definition pmt_built ::
  "rmf_InbSiMgr \<Rightarrow> rmf_SiMpeg2Descriptor list \<Rightarrow> rmf_SiElementaryStream list \<Rightarrow> nat \<Rightarrow> rmf_InbSiMgr" where
  "pmt_built M os ss a = M\<lparr>number_outer_desc := word_of_nat (length os), outer_descriptors := os,
     number_elem_streams := word_of_nat (length ss), elementary_streams := ss, allocs := a\<rparr>"

lemma pmt_built_simps [simp]:
  "outer_descriptors (pmt_built M os ss a) = os" "elementary_streams (pmt_built M os ss a) = ss" "mem_ok (pmt_built M os ss a) = mem_ok M"
  by (simp_all add: pmt_built_def)

lemma inb_alloc_built: "inb_alloc (pmt_built M os ss a) = (mem_ok M a, pmt_built M os ss (Suc a))"
  by (simp add: inb_alloc_def pmt_built_def)

lemma release_pmt_built: "release_pmt M = pmt_built M [] [] (allocs M)"
  by (cases M) (simp add: release_pmt_def pmt_built_def)

lemma put_stream_built: "put_stream i f (pmt_built M os ss a) = pmt_built M os (ss[i := f (ss ! i)]) a"
  by (simp add: put_stream_def pmt_built_def)

definition desc_of :: "descriptor \<Rightarrow> rmf_SiMpeg2Descriptor" where
  "desc_of d = \<lparr>tag = fst d, descriptor_length = word_of_nat (length (snd d)), descriptor_content = snd d\<rparr>"

lemma holds_at_take: "holds_at buf p xs \<Longrightarrow> take (length xs) (drop p buf) = xs"
  by (induction xs arbitrary: p) (auto simp: rd_Some Cons_nth_drop_Suc[symmetric])

lemma memcpy_content:
  assumes "holds_at buf p c" "c \<noteq> []" "n = length c"
  shows "memcpy (replicate n 0) buf p n = Some c"
  using holds_at_length[OF assms(1,2)] holds_at_take[OF assms(1)] assms(3) by (simp add: memcpy_def)

lemma new_descriptor_built:
  assumes "descriptor_ok d" "holds_at buf p (snd d)" "\<forall>k. mem_ok M k"
  shows "\<exists>a'. new_descriptor (fst d) (word_of_nat (length (snd d))) buf p (pmt_built M os ss a) =
    Some (Some (desc_of d), pmt_built M os ss a')"
proof (cases "snd d = []")
  case True
  then show ?thesis using assms(3) by (auto simp: new_descriptor_def inb_alloc_built desc_of_def)
next
  case False
  have l: "length (snd d) < 256" using assms(1) by (simp add: descriptor_ok_def)
  have "(word_of_nat (length (snd d)) :: byte) > 0" using l False by (simp add: word_less_nat_alt)
  moreover have "memcpy (replicate (length (snd d)) 0) buf p (length (snd d)) = Some (snd d)"
    by (rule memcpy_content[OF assms(2) False refl])
  ultimately show ?thesis
    using assms(3) l by (auto simp: new_descriptor_def inb_alloc_built desc_of_def Let_def)
qed

lemma SetOuterDescriptor_built:
  assumes "descriptor_ok d" "holds_at buf p (snd d)" "\<forall>k. mem_ok M k"
  shows "\<exists>a'. SetOuterDescriptor (fst d) (word_of_nat (length (snd d))) buf p (pmt_built M os ss a) =
    Some (RMF_SUCCESS, pmt_built M (os @ [desc_of d]) ss a')"
proof -
  obtain a' where "new_descriptor (fst d) (word_of_nat (length (snd d))) buf p (pmt_built M os ss a) =
      Some (Some (desc_of d), pmt_built M os ss a')"
    using new_descriptor_built[OF assms] by blast
  then show ?thesis by (intro exI[of _ a']) (simp add: SetOuterDescriptor_def pmt_built_def add.commute)
qed

lemma outer_loop_enc:
  assumes "holds_at buf p (enc_descriptors ds)" "list_all descriptor_ok ds" "length (enc_descriptors ds) < 2 ^ 16" "\<forall>k. mem_ok M k"
  shows "\<exists>a'. outer_loop buf p (word_of_nat (length (enc_descriptors ds))) (pmt_built M os ss a) =
    Some (pmt_built M (os @ map desc_of ds) ss a')"
  using assms
proof (induction ds arbitrary: p os a)
  case Nil
  show ?case by (subst outer_loop.simps) auto
next
  case (Cons d ds)
  let ?l = "length (snd d)" and ?r = "length (enc_descriptors ds)"
  have d: "descriptor_ok d" "holds_at buf p (enc_descriptor d)" "holds_at buf (p + 2 + ?l) (enc_descriptors ds)"
    using Cons.prems(1,2) by simp_all
  have l: "?l < 256" using d(1) by (simp add: descriptor_ok_def)
  have len: "length (enc_descriptors (d # ds)) = 2 + ?l + ?r" by simp
  have lt: "2 + ?l + ?r < 2 ^ 16" using Cons.prems(3) unfolding len .
  have "unat (word_of_nat (2 + ?l + ?r) :: 16 word) = 2 + ?l + ?r" using lt by (simp only: unat_of_nat) simp
  then have nz: "(word_of_nat (2 + ?l + ?r) :: 16 word) \<noteq> 0" by force
  have rest: "word_of_nat (2 + ?l + ?r) - 2 - word_of_nat ?l = (word_of_nat ?r :: 16 word)" by simp
  note h = enc_descriptor_head[OF d(2)]
  obtain a1 where s: "SetOuterDescriptor (fst d) (word_of_nat ?l) buf (p + 2) (pmt_built M os ss a) =
      Some (RMF_SUCCESS, pmt_built M (os @ [desc_of d]) ss a1)"
    using SetOuterDescriptor_built[OF d(1) h(3) Cons.prems(4)] by blast
  have "outer_loop buf p (word_of_nat (2 + ?l + ?r)) (pmt_built M os ss a) =
      outer_loop buf (p + 2 + ?l) (word_of_nat ?r) (pmt_built M (os @ [desc_of d]) ss a1)"
    using nz by (subst outer_loop.simps)
      (simp only: h(1,2) s bind.bind_lunit prod.case ucast_of_nat_byte[OF l] unat_of_nat_byte[OF l] rest if_True simp_thms)
  moreover have "?r < 2 ^ 16" "list_all descriptor_ok ds" using lt Cons.prems(2) by simp_all
  then obtain a' where "outer_loop buf (p + 2 + ?l) (word_of_nat ?r) (pmt_built M (os @ [desc_of d]) ss a1) =
      Some (pmt_built M ((os @ [desc_of d]) @ map desc_of ds) ss a')"
    using Cons.IH[OF d(3) _ _ Cons.prems(4)] by blast
  ultimately show ?case unfolding len by (intro exI[of _ a']) simp
qed

text \<open>
  Descriptors that the round trip is about: not component names, and languages that are empty or have their four bytes.
\<close>

definition plain_descriptor :: "descriptor \<Rightarrow> bool" where
  "plain_descriptor d \<longleftrightarrow> descriptor_ok d \<and> fst d \<noteq> RMF_SI_DESC_COMPONENT_NAME \<and>
     (fst d = RMF_SI_DESC_ISO_639_LANGUAGE \<longrightarrow> snd d = [] \<or> 4 \<le> length (snd d))"

definition put_language :: "descriptor \<Rightarrow> byte list \<Rightarrow> byte list" where
  "put_language d l = (if fst d = RMF_SI_DESC_ISO_639_LANGUAGE \<and> snd d \<noteq> [] then take 4 (snd d) else l)"

definition put_desc :: "descriptor \<Rightarrow> rmf_SiElementaryStream \<Rightarrow> rmf_SiElementaryStream" where
  "put_desc d e = e\<lparr>associated_language := put_language d (associated_language e),
     descriptors := descriptors e @ [desc_of d], number_desc := number_desc e + 1\<rparr>"

lemma fold_put_desc: "fold put_desc ds e = e\<lparr>associated_language := fold put_language ds (associated_language e),
    descriptors := descriptors e @ map desc_of ds, number_desc := number_desc e + word_of_nat (length ds)\<rparr>"
  by (induction ds arbitrary: e) (simp_all add: put_desc_def add_ac)

lemma describe_stream_built:
  assumes "plain_descriptor d" "holds_at buf p (snd d)" "i < length ss"
  shows "describe_stream i (fst d) (word_of_nat (length (snd d))) buf p (pmt_built M os ss a) =
    Some (True, pmt_built M os (ss[i := (ss ! i)\<lparr>associated_language := put_language d (associated_language (ss ! i))\<rparr>]) a)"
proof (cases "fst d = RMF_SI_DESC_ISO_639_LANGUAGE \<and> snd d \<noteq> []")
  case True
  then have c: "4 \<le> length (snd d)" "length (snd d) < 256" using assms(1) by (auto simp: plain_descriptor_def descriptor_ok_def)
  have pos: "(word_of_nat (length (snd d)) :: byte) > 0" using c True by (simp add: word_less_nat_alt)
  have "holds_at buf p (take 4 (snd d) @ drop 4 (snd d))" using assms(2) by (simp only: append_take_drop_id)
  then have h: "holds_at buf p (take 4 (snd d))" by (simp only: holds_at_append)
  have "memcpy (replicate 4 0) buf p 4 = Some (take 4 (snd d))"
    by (rule memcpy_content[OF h]) (use c True in auto)
  with True pos show ?thesis
    by (simp add: describe_stream_def put_stream_built put_language_def)
next
  case False
  have "(word_of_nat (length (snd d)) :: byte) = 0" if "fst d = RMF_SI_DESC_ISO_639_LANGUAGE" using False that by simp
  with False assms show ?thesis
    by (auto simp: describe_stream_def put_language_def plain_descriptor_def)
qed

lemma SetDescriptor_built:
  assumes "plain_descriptor d" "holds_at buf p (snd d)" "\<forall>k. mem_ok M k" "find_stream pid ty (xs @ [e]) = Some (length xs)"
  shows "\<exists>a'. SetDescriptor pid ty (fst d) (word_of_nat (length (snd d))) buf p (pmt_built M os (xs @ [e]) a) =
    Some (RMF_SUCCESS, pmt_built M os (xs @ [put_desc d e]) a')"
proof -
  let ?e = "e\<lparr>associated_language := put_language d (associated_language e)\<rparr>"
  have ok: "descriptor_ok d" using assms(1) by (simp add: plain_descriptor_def)
  have 1: "describe_stream (length xs) (fst d) (word_of_nat (length (snd d))) buf p (pmt_built M os (xs @ [e]) a) =
      Some (True, pmt_built M os (xs @ [?e]) a)"
    using describe_stream_built[OF assms(1,2), of "length xs" "xs @ [e]" M os a] by simp
  obtain a' where 2: "new_descriptor (fst d) (word_of_nat (length (snd d))) buf p (pmt_built M os (xs @ [?e]) a) =
      Some (Some (desc_of d), pmt_built M os (xs @ [?e]) a')"
    using new_descriptor_built[OF ok assms(2,3)] by blast
  show ?thesis
    by (intro exI[of _ a']) (simp add: SetDescriptor_def assms(4) 1 2 put_stream_built put_desc_def)
qed

lemma find_stream_put: "find_stream pid ty (xs @ [put_desc d e]) = find_stream pid ty (xs @ [e])"
  by (induction xs) (simp_all add: put_desc_def)

lemma es_n2_enc:
  assumes "holds_at buf p (enc_descriptors ds)" "list_all plain_descriptor ds" "length (enc_descriptors ds) + n < 2 ^ 32"
    "\<forall>k. mem_ok M k" "find_stream pid ty (xs @ [e]) = Some (length xs)"
  shows "\<exists>a'. es_n2 buf pid ty p (word_of_nat (length (enc_descriptors ds) + n)) (word_of_nat (length (enc_descriptors ds)))
      (pmt_built M os (xs @ [e]) a) =
    Some (p + length (enc_descriptors ds), word_of_nat n, pmt_built M os (xs @ [fold put_desc ds e]) a')"
  using assms
proof (induction ds arbitrary: p e a)
  case Nil
  show ?case by (subst es_n2.simps) auto
next
  case (Cons d ds)
  let ?l = "length (snd d)" and ?r = "length (enc_descriptors ds)"
  have d: "plain_descriptor d" "holds_at buf p (enc_descriptor d)" "holds_at buf (p + 2 + ?l) (enc_descriptors ds)"
    using Cons.prems(1,2) by simp_all
  have l: "?l < 256" using d(1) by (simp add: plain_descriptor_def descriptor_ok_def)
  have len: "length (enc_descriptors (d # ds)) = 2 + ?l + ?r" by simp
  have lt: "2 + ?l + ?r + n < 2 ^ 32" using Cons.prems(3) unfolding len .
  have ge: "(2 :: 32 word) \<le> word_of_nat (2 + ?l + ?r)" using of_nat_le32[of 2 "2 + ?l + ?r"] lt by simp
  have fit: "\<not> (word_of_nat ?l :: 32 word) > word_of_nat (?l + ?r)" using of_nat_less32[of "?l + ?r" ?l] lt l by simp
  have rest: "word_of_nat (2 + ?l + ?r) - 2 = (word_of_nat (?l + ?r) :: 32 word)"
      "word_of_nat (?l + ?r) - word_of_nat ?l = (word_of_nat ?r :: 32 word)"
      "word_of_nat (2 + ?l + ?r + n) - 2 - word_of_nat ?l = (word_of_nat (?r + n) :: 32 word)" by simp_all
  have no26: "\<not> ((word_of_nat ?r :: 32 word) > 0 \<and> (word_of_nat ?r :: 32 word) < 2)"
    using of_nat_less32[of ?r 2] lt enc_descriptors_pos[of ds] by (cases "ds = []") simp_all
  note h = enc_descriptor_head[OF d(2)]
  obtain a1 where s: "SetDescriptor pid ty (fst d) (word_of_nat ?l) buf (p + 2) (pmt_built M os (xs @ [e]) a) =
      Some (RMF_SUCCESS, pmt_built M os (xs @ [put_desc d e]) a1)"
    using SetDescriptor_built[OF d(1) h(3) Cons.prems(4,5)] by blast
  have "es_n2 buf pid ty p (word_of_nat (2 + ?l + ?r + n)) (word_of_nat (2 + ?l + ?r)) (pmt_built M os (xs @ [e]) a) =
      es_n2 buf pid ty (p + 2 + ?l) (word_of_nat (?r + n)) (word_of_nat ?r) (pmt_built M os (xs @ [put_desc d e]) a1)"
    using ge fit no26
    by (subst es_n2.simps)
      (simp only: h(1,2) s bind.bind_lunit prod.case Let_def ucast_of_nat_byte[OF l] rest unat_of_nat_byte[OF l] if_True if_False)
  moreover have "?r + n < 2 ^ 32" "list_all plain_descriptor ds" "find_stream pid ty (xs @ [put_desc d e]) = Some (length xs)"
    using lt Cons.prems(2,5) by (simp_all add: find_stream_put)
  then obtain a' where "es_n2 buf pid ty (p + 2 + ?l) (word_of_nat (?r + n)) (word_of_nat ?r) (pmt_built M os (xs @ [put_desc d e]) a1) =
      Some (p + 2 + ?l + ?r, word_of_nat n, pmt_built M os (xs @ [fold put_desc ds (put_desc d e)]) a')"
    using Cons.IH[OF d(3) _ _ Cons.prems(4)] by blast
  ultimately show ?case unfolding len by (intro exI[of _ a']) (simp add: add.assoc)
qed

definition new_stream :: "pmt_stream \<Rightarrow> rmf_SiElementaryStream" where
  "new_stream s = \<lparr>elementary_stream_type = st_type s, service_comp_type = get_serviceComponentType (st_type s),
     service_component_names = [], elementary_PID = ucast (st_pid s), associated_language = [0, 0, 0, 0],
     es_info_length = word_of_nat (length (enc_descriptors (st_descs s))), number_desc = 0, descriptors = []\<rparr>"

definition stream_of :: "pmt_stream \<Rightarrow> rmf_SiElementaryStream" where
  "stream_of s = (new_stream s)\<lparr>associated_language := fold put_language (st_descs s) [0, 0, 0, 0],
     descriptors := map desc_of (st_descs s), number_desc := word_of_nat (length (st_descs s))\<rparr>"

definition storable_stream :: "pmt_stream \<Rightarrow> bool" where
  "storable_stream s \<longleftrightarrow> stream_ok s \<and> st_pid s \<noteq> 0 \<and> list_all plain_descriptor (st_descs s)"

lemma find_stream_last:
  assumes "\<forall>x \<in> set xs. (elementary_PID x, elementary_stream_type x) \<noteq> (pid, ty)" "elementary_PID e = pid" "elementary_stream_type e = ty"
  shows "find_stream pid ty (xs @ [e]) = Some (length xs)"
  using assms by (induction xs) auto

lemma unat_ucast_pid: "unat (ucast (w :: 16 word) :: 32 word) = unat w"
proof -
  have "unat w < 2 ^ 16" using unsigned_less[of w] by simp
  then show ?thesis by (simp add: unsigned_ucast_eq take_bit_nat_eq_self)
qed

lemma SetElementaryStream_built:
  assumes "st_pid s \<noteq> 0" "\<forall>k. mem_ok M k" "\<forall>x \<in> set ss. (elementary_PID x, elementary_stream_type x) \<noteq> (ucast (st_pid s), st_type s)"
  shows "SetESInfoLength (ucast (st_pid s)) (st_type s) (word_of_nat (length (enc_descriptors (st_descs s))))
      (snd (SetElementaryStream (st_type s) (ucast (st_pid s)) (pmt_built M os ss a))) = pmt_built M os (ss @ [new_stream s]) (Suc a)"
proof -
  let ?e = "(new_stream s)\<lparr>es_info_length := 0\<rparr>"
  have nz: "(ucast (st_pid s) :: 32 word) \<noteq> 0" using assms(1) by (simp add: word_unat_eq_iff unat_ucast_pid)
  have 1: "snd (SetElementaryStream (st_type s) (ucast (st_pid s)) (pmt_built M os ss a)) = pmt_built M os (ss @ [?e]) (Suc a)"
    using nz assms(2) by (simp add: SetElementaryStream_def inb_alloc_built append_elementaryStream_def)
      (simp add: pmt_built_def new_stream_def add.commute)
  have f: "find_stream (ucast (st_pid s)) (st_type s) (ss @ [?e]) = Some (length ss)"
    by (rule find_stream_last[OF assms(3)]) (simp_all add: new_stream_def)
  show ?thesis unfolding 1 by (simp add: SetESInfoLength_def f put_stream_built) (simp add: new_stream_def)
qed

lemma es_n1_enc:
  assumes "holds_at buf p (enc_streams ss)" "list_all storable_stream ss" "length (enc_streams ss) + 4 < 2 ^ 32" "\<forall>k. mem_ok M k"
    "distinct (map (\<lambda>s. (st_pid s, st_type s)) (ts @ ss))"
  shows "\<exists>a'. es_n1 buf p (word_of_nat (length (enc_streams ss) + 4)) (pmt_built M os (map stream_of ts) a) =
    Some (pmt_built M os (map stream_of (ts @ ss)) a')"
  using assms
proof (induction ss arbitrary: p ts a)
  case Nil
  show ?case by (subst es_n1.simps) auto
next
  case (Cons s ss)
  let ?n = "length (enc_descriptors (st_descs s))" and ?r = "length (enc_streams ss)" and ?pid = "ucast (st_pid s) :: 32 word"
  have s: "stream_ok s" "st_pid s \<noteq> 0" "list_all plain_descriptor (st_descs s)" "holds_at buf p (enc_stream s)"
      "holds_at buf (p + (5 + ?n)) (enc_streams ss)"
    using Cons.prems(1,2) by (simp_all add: storable_stream_def length_enc_stream)
  note h = enc_stream_head[OF s(4,1)]
  have len: "length (enc_streams (s # ss)) + 4 = 5 + ?n + ?r + 4" by (simp add: length_enc_stream)
  have lt: "5 + ?n + ?r + 4 < 2 ^ 32" using Cons.prems(3) unfolding len .
  have sub: "word_of_nat (5 + ?n + ?r + 4) - 4 = (word_of_nat (5 + ?n + ?r) :: 32 word)"
      "word_of_nat (5 + ?n + ?r + 4) - 5 = (word_of_nat (?n + (?r + 4)) :: 32 word)" by simp_all
  have ge: "(5 :: 32 word) \<le> word_of_nat (5 + ?n + ?r)" using of_nat_le32[of 5 "5 + ?n + ?r"] lt by simp
  have "(ucast (st_pid t) :: 32 word) = ?pid \<longleftrightarrow> st_pid t = st_pid s" for t :: pmt_stream
    by (simp add: word_unat_eq_iff unat_ucast_pid)
  then have new: "\<forall>x \<in> set (map stream_of ts). (elementary_PID x, elementary_stream_type x) \<noteq> (?pid, st_type s)"
    using Cons.prems(5) by (auto simp: stream_of_def new_stream_def image_iff)
  note set = SetElementaryStream_built[OF s(2) Cons.prems(4) new, of os a]
  have f: "find_stream ?pid (st_type s) (map stream_of ts @ [new_stream s]) = Some (length (map stream_of ts))"
    by (rule find_stream_last[OF new]) (simp_all add: new_stream_def)
  have n4: "?n + (?r + 4) < 2 ^ 32" using lt by simp
  obtain a1 where n2: "es_n2 buf ?pid (st_type s) (p + 5) (word_of_nat (?n + (?r + 4))) (word_of_nat ?n)
      (pmt_built M os (map stream_of ts @ [new_stream s]) (Suc a)) =
      Some (p + 5 + ?n, word_of_nat (?r + 4), pmt_built M os (map stream_of ts @ [fold put_desc (st_descs s) (new_stream s)]) a1)"
    using es_n2_enc[OF h(3) s(3) n4 Cons.prems(4) f] by blast
  have st: "fold put_desc (st_descs s) (new_stream s) = stream_of s"
    unfolding fold_put_desc stream_of_def by (simp add: new_stream_def)
  have "es_n1 buf p (word_of_nat (5 + ?n + ?r + 4)) (pmt_built M os (map stream_of ts) a) =
      es_n1 buf (p + 5 + ?n) (word_of_nat (?r + 4)) (pmt_built M os (map stream_of (ts @ [s])) a1)"
    using ge by (subst es_n1.simps)
      (simp only: h(1) bind.bind_lunit prod.case Let_def case_prod_beta snd_conv fst_conv sub set n2 st if_True map_append list.map)
  moreover have "?r + 4 < 2 ^ 32" "list_all storable_stream ss" "distinct (map (\<lambda>s. (st_pid s, st_type s)) ((ts @ [s]) @ ss))"
    using lt Cons.prems(2,5) by simp_all
  then obtain a' where "es_n1 buf (p + (5 + ?n)) (word_of_nat (?r + 4)) (pmt_built M os (map stream_of (ts @ [s])) a1) =
      Some (pmt_built M os (map stream_of ((ts @ [s]) @ ss)) a')"
    using Cons.IH[OF s(5) _ _ Cons.prems(4)] by blast
  ultimately show ?case unfolding len by (intro exI[of _ a']) (simp add: add.assoc)
qed

section \<open>The update on encoded tables\<close>

definition pmt_ready :: "inb_env \<Rightarrow> rmf_InbSiMgr \<Rightarrow> bool" where
  "pmt_ready env M \<longleftrightarrow> (\<forall>k. mem_ok M k) \<and> \<not> descriptors_in_use M \<and> length (pmtBuf M) = RMF_SI_PMT_MAX_SIZE \<and>
     inb_create env = RMF_SUCCESS \<and> (\<forall>q. inb_add env q = RMF_SUCCESS) \<and> \<not> m_NegativeFiltersEnabled M"

definition storable :: "pmt_section \<Rightarrow> bool" where
  "storable s \<longleftrightarrow> pmt_ok s \<and> list_all storable_stream (pm_streams s) \<and> distinct (map (\<lambda>st. (st_pid st, st_type st)) (pm_streams s))"

lemma pmt_notify:
  assumes "pmt_ready env M" "v \<noteq> INIT_TABLE_VERSION" "pmtVersionNumber M = INIT_TABLE_VERSION \<or> pmtVersionNumber M \<noteq> v \<or> pmtCRC M \<noteq> crc"
  shows "notifySIDB env TABLE_TYPE_PMT (pmtVersionNumber M = INIT_TABLE_VERSION) (pmtVersionNumber M \<noteq> v) (pmtCRC M \<noteq> crc) M =
    M\<lparr>psi_events := psi_events M @ (if pmtVersionNumber M = INIT_TABLE_VERSION
         then announced RMF_SI_EVENT_IB_PMT_ACQUIRED RMF_SI_CHANGE_TYPE_ADD M
         else announced RMF_SI_EVENT_IB_PMT_UPDATE RMF_SI_CHANGE_TYPE_MODIFY M)\<rparr>"
  using assms
  by (auto simp: pmt_ready_def notifySIDB_def inb_NotifyTableChanged_def dispatch_event_def table_event_def announced_def Let_def)

lemma keep_pmt_enc:
  assumes "length (pmtBuf M) = 1024" "pmt_ok s" "holds_at buf 0 (enc_pmt s)"
  shows "keep_pmt (pmt_size s) buf M = Some (M\<lparr>pmtBuf := enc_pmt s @ drop (length (enc_pmt s)) (pmtBuf M), pmtBufLen := pmt_size s\<rparr>)"
proof -
  have le: "length (enc_pmt s) \<le> 1024" using assms(2) by (simp add: length_enc_pmt) (simp add: pmt_ok_def)
  have "enc_pmt s \<noteq> []" by (simp add: enc_pmt_def enc_psi_header_def)
  then have "length (enc_pmt s) \<le> length buf" using holds_at_length[OF assms(3)] by simp
  moreover have "unat (pmt_size s) = length (enc_pmt s)" using le by (simp add: unat_of_nat)
  ultimately show ?thesis using assms(1) le holds_at_take[OF assms(3)] by (simp add: keep_pmt_def memcpy_def)
qed

lemma pmt_version_known: "pmt_ok s \<Longrightarrow> (word_of_nat (pm_version s) :: 16 word) \<noteq> INIT_TABLE_VERSION"
proof
  assume "pmt_ok s" "(word_of_nat (pm_version s) :: 16 word) = INIT_TABLE_VERSION"
  then have "unat (word_of_nat (pm_version s) :: 16 word) = unat (32 :: 16 word)" by simp
  then show False using \<open>pmt_ok s\<close> by (simp add: unat_of_nat pmt_ok_def)
qed

definition pmt_stored :: "rmf_InbSiMgr \<Rightarrow> pmt_section \<Rightarrow> nat \<Rightarrow> rmf_InbSiMgr" where
  "pmt_stored M s a = (pmt_built M (map desc_of (pm_outer s)) (map stream_of (pm_streams s)) a)
     \<lparr>pcrPid := pm_pcr_pid s, psi_events := psi_events M @ (if pmtVersionNumber M = INIT_TABLE_VERSION
         then announced RMF_SI_EVENT_IB_PMT_ACQUIRED RMF_SI_CHANGE_TYPE_ADD M
         else announced RMF_SI_EVENT_IB_PMT_UPDATE RMF_SI_CHANGE_TYPE_MODIFY M),
      pmtCRC := pmt_crc s, pmtVersionNumber := word_of_nat (pm_version s),
      pmtBuf := enc_pmt s @ drop (length (enc_pmt s)) (pmtBuf M), pmtBufLen := pmt_size s\<rparr>"

lemma pmt_store_enc:
  assumes "pmt_ready env M" "storable s" "holds_at buf 0 (enc_pmt s)"
    "pmtVersionNumber M = INIT_TABLE_VERSION \<or> pmtVersionNumber M \<noteq> word_of_nat (pm_version s) \<or> pmtCRC M \<noteq> pmt_crc s"
  shows "\<exists>a. pmt_store env (pmt_size s) buf (pmt_decoded s) (pmt_crc s) M = Some (pmt_stored M s a)"
proof -
  let ?m = "length (enc_descriptors (pm_outer s))" and ?os = "map desc_of (pm_outer s)" and ?ss = "map stream_of (pm_streams s)"
  have ok: "pmt_ok s" "list_all storable_stream (pm_streams s)" "distinct (map (\<lambda>st. (st_pid st, st_type st)) ([] @ pm_streams s))"
    using assms(2) by (simp_all add: storable_def)
  have mem: "\<forall>k. mem_ok M k" and buf: "length (pmtBuf M) = 1024" using assms(1) by (simp_all add: pmt_ready_def)
  have b: "holds_at buf 12 (enc_descriptors (pm_outer s))" "holds_at buf (12 + ?m) (enc_streams (pm_streams s))"
    using pmt_split(2)[OF assms(3)] by (simp_all add: enc_pmt_body_def)
  have l: "list_all descriptor_ok (pm_outer s)" "?m < 2 ^ 16" "length (enc_streams (pm_streams s)) + 4 < 2 ^ 32"
    using ok(1) by (simp_all add: pmt_ok_def enc_pmt_body_def)
  obtain a1 where 1: "outer_loop buf 12 (word_of_nat ?m) (release_pmt M) = Some (pmt_built M ?os [] a1)"
    using outer_loop_enc[OF b(1) l(1,2) mem, of "[]" "[]" "allocs M"] unfolding release_pmt_built by auto
  obtain a where 2: "es_n1 buf (12 + ?m) (word_of_nat (length (enc_streams (pm_streams s)) + 4)) (pmt_built M ?os [] a1) =
      Some (pmt_built M ?os ?ss a)"
    using es_n1_enc[OF b(2) ok(2) l(3) mem ok(3), of ?os a1] by auto
  let ?M = "(pmt_built M ?os ?ss a)\<lparr>pcrPid := pm_pcr_pid s\<rparr>"
  have "pmt_ready env ?M" using assms(1) by (auto simp: pmt_ready_def pmt_built_def)
  moreover have f: "pmtVersionNumber ?M = pmtVersionNumber M" "pmtCRC ?M = pmtCRC M" "psi_events ?M = psi_events M"
      "g_inbsi_registration_list ?M = g_inbsi_registration_list M" "pmtBuf ?M = pmtBuf M" "m_NegativeFiltersEnabled ?M = m_NegativeFiltersEnabled M"
    by (simp_all add: pmt_built_def)
  moreover note pmt_version_known[OF ok(1)]
  ultimately have 3: "notifySIDB env TABLE_TYPE_PMT (pmtVersionNumber ?M = INIT_TABLE_VERSION)
      (pmtVersionNumber ?M \<noteq> word_of_nat (pm_version s)) (pmtCRC ?M \<noteq> pmt_crc s) ?M =
      ?M\<lparr>psi_events := psi_events M @ (if pmtVersionNumber M = INIT_TABLE_VERSION
         then announced RMF_SI_EVENT_IB_PMT_ACQUIRED RMF_SI_CHANGE_TYPE_ADD M
         else announced RMF_SI_EVENT_IB_PMT_UPDATE RMF_SI_CHANGE_TYPE_MODIFY M)\<rparr>"
    using pmt_notify[of env ?M "word_of_nat (pm_version s)" "pmt_crc s"] assms(4) by (simp add: announced_def)
  let ?M3 = "?M\<lparr>psi_events := psi_events M @ (if pmtVersionNumber M = INIT_TABLE_VERSION
         then announced RMF_SI_EVENT_IB_PMT_ACQUIRED RMF_SI_CHANGE_TYPE_ADD M
         else announced RMF_SI_EVENT_IB_PMT_UPDATE RMF_SI_CHANGE_TYPE_MODIFY M),
      pmtCRC := pmt_crc s, pmtVersionNumber := word_of_nat (pm_version s)\<rparr>"
  have "length (pmtBuf ?M3) = 1024" using f(5) buf by simp
  from keep_pmt_enc[OF this ok(1) assms(3)] have 4: "keep_pmt (pmt_size s) buf ?M3 = Some (pmt_stored M s a)"
    using f(5) by (simp add: pmt_stored_def)
  have "\<not> m_NegativeFiltersEnabled ?M3" using f(6) assms(1) by (simp add: pmt_ready_def)
  then show ?thesis
    using 1 2 3 4 unfolding pmt_store_def pmt_decoded_def pmt_head.simps by (intro exI[of _ a]) (simp add: Let_def del: of_nat_add)
qed

lemma media_loop_list:
  "length l = 32 \<Longrightarrow> i \<le> 32 \<Longrightarrow> \<exists>l'. media_loop ss i l = Some l' \<and> length l' = 32 \<and>
     take (min 32 (i + length ss)) l' = take i l @ take (32 - i) (map (\<lambda>es. (elementary_stream_type es, elementary_PID es)) ss)"
proof (induction ss arbitrary: i l)
  case (Cons es ss)
  show ?case
  proof (cases "i < 32")
    case True
    let ?l = "l[i := (elementary_stream_type es, elementary_PID es)]"
    obtain l' where "media_loop ss (Suc i) ?l = Some l'" "length l' = 32"
      "take (min 32 (Suc i + length ss)) l' = take (Suc i) ?l @ take (32 - Suc i) (map (\<lambda>es. (elementary_stream_type es, elementary_PID es)) ss)"
      using Cons.IH[of ?l "Suc i"] Cons.prems(1) True by auto
    moreover have "take (Suc i) ?l = take i l @ [(elementary_stream_type es, elementary_PID es)]"
      using Cons.prems(1) True by (simp add: take_Suc_conv_app_nth)
    moreover have "32 - i = Suc (32 - Suc i)" using True by simp
    ultimately show ?thesis using True Cons.prems(1) by (intro exI[of _ l']) (simp add: wr_def)
  next
    case False
    with Cons.prems show ?thesis by simp
  qed
qed (auto simp: min_def)

lemma enc_streams_length: "length ss \<le> length (enc_streams ss)"
  by (induction ss) (simp_all add: length_enc_stream)

lemma media_count:
  assumes "n < 2 ^ 16"
  shows "unat (if (word_of_nat n :: 32 word) > 32 then 32 else ucast (word_of_nat n :: 32 word) :: 16 word) = min 32 n"
proof -
  have "(word_of_nat n :: 32 word) > 32 \<longleftrightarrow> 32 < n" using of_nat_less32[of 32 n] assms by simp
  moreover have "unat (ucast (word_of_nat n :: 32 word) :: 16 word) = n"
    using assms by (simp add: unsigned_ucast_eq unat_of_nat take_bit_nat_eq_self)
  ultimately show ?thesis by simp
qed

text \<open>
  C24. A program map table that is new to the manager, whose streams have distinct pairs of PID and type and no component
  names. It is parsed without error, and afterwards the manager has its outer descriptors and its streams with
  their descriptors in order, the language of each stream, the PID of the clock reference and the section itself; the media
  information lists type and PID of the first 32 streams; every client has been told once. The same section again
  changes nothing.
\<close>

theorem pmt_section_gives_streams:
  assumes "pmt_ready env M" "storable s" "holds_at buf 0 (enc_pmt s)" "length (mi_pPidList info) = 32"
    "pmtVersionNumber M = INIT_TABLE_VERSION \<or> pmtVersionNumber M \<noteq> word_of_nat (pm_version s) \<or> pmtCRC M \<noteq> pmt_crc s"
  shows "\<exists>M' mi. parse_and_update_PMT env (pmt_size s) buf M = Some (0, M') \<and>
    GetDescriptors M' = (RMF_SUCCESS, map stream_of (pm_streams s), map desc_of (pm_outer s), M'\<lparr>descriptors_in_use := True\<rparr>) \<and>
    GetMediaInfo info M' = Some (RMF_SUCCESS, mi) \<and> mi_pcrPid mi = pm_pcr_pid s \<and>
    unat (mi_numMediaPids mi) = min 32 (length (pm_streams s)) \<and>
    take (min 32 (length (pm_streams s))) (mi_pPidList mi) = take 32 (map (\<lambda>st. (st_type st, ucast (st_pid st))) (pm_streams s)) \<and>
    GetPMTBuffer (Some (replicate 1024 0)) 1024 M' = Some (RMF_SUCCESS, Some (enc_pmt s @ replicate (1024 - length (enc_pmt s)) 0), pmt_size s) \<and>
    psi_events M' = psi_events M @ (if pmtVersionNumber M = INIT_TABLE_VERSION
       then announced RMF_SI_EVENT_IB_PMT_ACQUIRED RMF_SI_CHANGE_TYPE_ADD M
       else announced RMF_SI_EVENT_IB_PMT_UPDATE RMF_SI_CHANGE_TYPE_MODIFY M) \<and>
    parse_and_update_PMT env (pmt_size s) buf M' = Some (0, M')"
proof -
  have ok: "pmt_ok s" using assms(2) by (simp add: storable_def)
  note p = pmt_parse_enc[OF ok assms(3)]
  obtain a where st: "pmt_store env (pmt_size s) buf (pmt_decoded s) (pmt_crc s) M = Some (pmt_stored M s a)"
    using pmt_store_enc[OF assms(1-3,5)] by blast
  let ?M = "pmt_stored M s a"
  have h: "ph_version_number (pmt_decoded s) = word_of_nat (pm_version s)" by (simp add: pmt_decoded_def)
  have 1: "parse_and_update_PMT env (pmt_size s) buf M = Some (0, ?M)"
    using assms(1,5) st h unfolding parse_and_update_PMT_def p by (simp add: pmt_ready_def)
  have 2: "parse_and_update_PMT env (pmt_size s) buf ?M = Some (0, ?M)"
    using pmt_version_known[OF ok] h unfolding parse_and_update_PMT_def p by (simp add: pmt_stored_def)
  have d: "GetDescriptors ?M = (RMF_SUCCESS, map stream_of (pm_streams s), map desc_of (pm_outer s), ?M\<lparr>descriptors_in_use := True\<rparr>)"
    by (simp add: GetDescriptors_def pmt_stored_def pmt_built_def)
  let ?l = "length (pm_streams s)" and ?f = "\<lambda>es. (elementary_stream_type es, elementary_PID es)"
  obtain l where l: "media_loop (map stream_of (pm_streams s)) 0 (mi_pPidList info) = Some l"
      "take (min 32 ?l) l = take 32 (map ?f (map stream_of (pm_streams s)))"
    using media_loop_list[OF assms(4), of 0 "map stream_of (pm_streams s)"] by auto
  have f: "map ?f (map stream_of (pm_streams s)) = map (\<lambda>st. (st_type st, ucast (st_pid st))) (pm_streams s)"
    by (simp add: stream_of_def new_stream_def)
  let ?mi = "\<lparr>mi_pmt_pid = pmtPid ?M, mi_pcrPid = pcrPid ?M,
      mi_numMediaPids = (if number_elem_streams ?M > 32 then 32 else ucast (number_elem_streams ?M)), mi_pmt_crc32 = pmtCRC ?M, mi_pPidList = l\<rparr>"
  have m: "GetMediaInfo info ?M = Some (RMF_SUCCESS, ?mi)"
    using l(1) by (simp add: GetMediaInfo_def pmt_stored_def pmt_built_def)
  have "?l \<le> length (enc_streams (pm_streams s))" by (rule enc_streams_length)
  then have "?l < 2 ^ 16" using ok by (simp add: pmt_ok_def enc_pmt_body_def)
  moreover have "number_elem_streams ?M = word_of_nat ?l" by (simp add: pmt_stored_def pmt_built_def)
  ultimately have n: "unat (mi_numMediaPids ?mi) = min 32 ?l" using media_count[of ?l] by (simp only: rmf_MediaInfo.simps)
  have b: "GetPMTBuffer (Some (replicate 1024 0)) 1024 ?M =
      Some (RMF_SUCCESS, Some (enc_pmt s @ replicate (1024 - length (enc_pmt s)) 0), pmt_size s)"
  proof -
    have "length (enc_pmt s) \<le> 1024" using ok by (simp add: length_enc_pmt) (simp add: pmt_ok_def)
    moreover from this have "unat (pmt_size s) = length (enc_pmt s)" "\<not> pmt_size s > 1024"
      using of_nat_less32[of 1024 "length (enc_pmt s)"] by (simp_all add: unat_of_nat)
    ultimately show ?thesis by (simp add: GetPMTBuffer_def get_buffer_def pmt_stored_def memcpy_def not_less)
  qed
  show ?thesis
    using 1 2 d m l(2) n b unfolding f by (intro exI[of _ ?M] exI[of _ ?mi]) (simp add: pmt_stored_def)
qed

definition pmt_example :: pmt_section where
  "pmt_example = \<lparr>pm_program_number = 3, pm_version = 5, pm_pcr_pid = 0x65, pm_outer = [(9, [0x0E, 0, 0xE1, 2])],
     pm_streams = [\<lparr>st_type = 0x1B, st_pid = 0x65, st_descs = []\<rparr>,
                   \<lparr>st_type = 0x81, st_pid = 0x66, st_descs = [(0x0A, [0x65, 0x6E, 0x67, 0]), (5, [0x41, 0x43])]\<rparr>],
     pm_crc = [1, 2, 3, 4]\<rparr>"

definition media_example :: rmf_MediaInfo where
  "media_example = \<lparr>mi_pmt_pid = 0, mi_pcrPid = 0, mi_numMediaPids = 0, mi_pmt_crc32 = 0, mi_pPidList = replicate 32 (0, 0)\<rparr>"

lemma inb_example_pmt_ready: "pmt_ready inb_env_example inb_example"
  by (simp add: pmt_ready_def inb_example_def inb_env_example_def RegisterForPSIEvents_def rmf_InbSiMgr_new_def inb_alloc_def)

lemma inb_example_pmt_new: "pmtVersionNumber inb_example = INIT_TABLE_VERSION"
  by (simp add: inb_example_def RegisterForPSIEvents_def rmf_InbSiMgr_new_def inb_alloc_def)

lemma pmt_example_storable: "storable pmt_example"
  by (simp add: storable_def pmt_ok_def pmt_example_def storable_stream_def stream_ok_def plain_descriptor_def descriptor_ok_def
      enc_pmt_body_def length_enc_stream)

theorem pmt_section_gives_streams_witness:
  "\<exists>M' mi. parse_and_update_PMT inb_env_example (pmt_size pmt_example) (enc_pmt pmt_example @ replicate 4000 0) inb_example = Some (0, M') \<and>
     map (\<lambda>es. (elementary_PID es, associated_language es)) (elementary_streams M') = [(0x65, [0, 0, 0, 0]), (0x66, [0x65, 0x6E, 0x67, 0])] \<and>
     GetMediaInfo media_example M' = Some (RMF_SUCCESS, mi) \<and> take 2 (mi_pPidList mi) = [(0x1B, 0x65), (0x81, 0x66)]"
proof -
  have buf: "holds_at (enc_pmt pmt_example @ replicate 4000 0) 0 (enc_pmt pmt_example)" by simp
  have l: "length (mi_pPidList media_example) = 32" by (simp add: media_example_def)
  from pmt_section_gives_streams[OF inb_example_pmt_ready pmt_example_storable buf l] inb_example_pmt_new
  obtain M' mi where m: "parse_and_update_PMT inb_env_example (pmt_size pmt_example) (enc_pmt pmt_example @ replicate 4000 0) inb_example = Some (0, M')"
      "GetDescriptors M' = (RMF_SUCCESS, map stream_of (pm_streams pmt_example), map desc_of (pm_outer pmt_example), M'\<lparr>descriptors_in_use := True\<rparr>)"
      "GetMediaInfo media_example M' = Some (RMF_SUCCESS, mi)"
      "take (min 32 (length (pm_streams pmt_example))) (mi_pPidList mi) = take 32 (map (\<lambda>st. (st_type st, ucast (st_pid st))) (pm_streams pmt_example))"
    by blast
  have 2: "min 32 (length (pm_streams pmt_example)) = 2" by (simp add: pmt_example_def)
  from m(2) have e: "elementary_streams M' = map stream_of (pm_streams pmt_example)" by (simp add: GetDescriptors_def)
  have "map (\<lambda>es. (elementary_PID es, associated_language es)) (elementary_streams M') = [(0x65, [0, 0, 0, 0]), (0x66, [0x65, 0x6E, 0x67, 0])]"
    unfolding e by (simp add: pmt_example_def stream_of_def new_stream_def put_language_def)
  moreover have "take 2 (mi_pPidList mi) = [(0x1B, 0x65), (0x81, 0x66)]" using m(4) unfolding 2 by (simp add: pmt_example_def)
  ultimately show ?thesis using m(1,3) by (intro exI[of _ M'] exI[of _ mi] conjI)
qed

section \<open>Outer descriptors that do not fill their block\<close>

text \<open>\<open>n\<close> bytes from p on are a sequence of descriptors.\<close>

function desc_fit :: "byte list \<Rightarrow> nat \<Rightarrow> nat \<Rightarrow> bool" where
  "desc_fit buf p n =
     (if n = 0 then True else if n < 2 then False
      else case rd buf (p + 1) of None \<Rightarrow> False
        | Some l \<Rightarrow> 2 + unat l \<le> n \<and> desc_fit buf (p + 2 + unat l) (n - 2 - unat l))"
  by pat_completeness auto
termination
  by (relation "measure (\<lambda>(_, _, n). n)") auto

declare desc_fit.simps [simp del]

text \<open>Whatever memory is left, storing an outer descriptor inside the array is defined.\<close>

lemma SetOuterDescriptor_defined:
  assumes "p + unat l \<le> length buf"
  shows "\<exists>r M'. SetOuterDescriptor t l buf p M = Some (r, M')"
  using assms
  by (auto simp: SetOuterDescriptor_def new_descriptor_def inb_alloc_def memcpy_def Let_def)

lemma unat_two_byte: "unat (2 + ucast (l :: byte) :: 16 word) = 2 + unat l"
proof -
  have "Suc (Suc (unat l)) < 65536" using unat_byte[of l] by linarith
  then show ?thesis by (simp add: unat_word_ariths)
qed

lemma unat_sub_desc:
  fixes n :: "16 word"
  assumes "2 + unat (l :: byte) \<le> unat n"
  shows "unat (n - 2 - ucast l) = unat n - 2 - unat l"
proof -
  from unat_two_byte[of l] have "unat (n - (2 + ucast l)) = unat n - (2 + unat l)" using assms by (subst unat_sub) (simp_all add: word_le_nat_alt)
  then show ?thesis by (simp add: diff_diff_eq)
qed

lemma outer_loop_fits:
  "desc_fit buf p (unat n) \<Longrightarrow> p + unat n \<le> length buf \<Longrightarrow> \<exists>M'. outer_loop buf p n M = Some M'"
proof (induction buf p n M rule: outer_loop.induct)
  case (1 buf p n M)
  show ?case
  proof (cases "n = 0")
    case True
    then show ?thesis by (subst outer_loop.simps) simp
  next
    case False
    then have "unat n \<noteq> 0" by (simp add: unat_eq_0)
    with "1.prems"(1) obtain l where l: "unat n \<ge> 2" "rd buf (p + 1) = Some l" "2 + unat l \<le> unat n"
        "desc_fit buf (p + 2 + unat l) (unat n - 2 - unat l)"
      by (subst (asm) desc_fit.simps) (auto split: option.splits if_splits)
    obtain t where t: "rd buf p = Some t" using rd_SomeD[OF l(2)] by (simp add: rd_in)
    obtain r M' where s: "SetOuterDescriptor t l buf (p + 2) M = Some (r, M')"
      using SetOuterDescriptor_defined[of "p + 2" l buf] l(3) "1.prems"(2) by fastforce
    note u = unat_sub_desc[OF l(3)]
    have "\<exists>M''. outer_loop buf (p + 2 + unat l) (n - 2 - ucast l) M' = Some M''"
      using "1.IH"[OF False t l(2) s refl] l(3,4) "1.prems"(2) by (simp add: u)
    with False t l(2) s show ?thesis by (subst outer_loop.simps) simp
  qed
qed

lemma outer_loop_runs_off:
  "p + unat n > length buf + 257 \<Longrightarrow> n \<noteq> 0 \<Longrightarrow> outer_loop buf p n M = None"
proof (induction buf p n M rule: outer_loop.induct)
  case (1 buf p n M)
  show ?case
  proof (cases "rd buf (p + 1)")
    case None
    then show ?thesis using "1.prems"(2) by (subst outer_loop.simps) (simp add: bind_eq_None_conv)
  next
    case (Some l)
    then have p: "p + 1 < length buf" by (rule rd_SomeD)
    have le: "2 + unat l < unat n" using "1.prems"(1) p unat_byte_le[of l] by linarith
    note u = unat_sub_desc[OF less_imp_le[OF le]]
    have "unat (n - 2 - ucast l) \<noteq> 0" using le unfolding u by simp
    then have nz: "n - 2 - ucast l \<noteq> 0" by (simp add: unat_eq_0)
    obtain t where t: "rd buf p = Some t" using p by (simp add: rd_in)
    show ?thesis
    proof (cases "SetOuterDescriptor t l buf (p + 2) M")
      case None
      then show ?thesis using "1.prems"(2) t Some by (subst outer_loop.simps) simp
    next
      case (Some r)
      then obtain e M' where s: "SetOuterDescriptor t l buf (p + 2) M = Some (e, M')" by (cases r) auto
      have "outer_loop buf (p + 2 + unat l) (n - 2 - ucast l) M' = None"
        using "1.IH"[OF "1.prems"(2) t \<open>rd buf (p + 1) = Some l\<close> s refl] nz le "1.prems"(1) by (simp add: u)
      then show ?thesis using "1.prems"(2) t \<open>rd buf (p + 1) = Some l\<close> s by (subst outer_loop.simps) simp
    qed
  qed
qed

lemma unat_wrap_desc:
  fixes n :: "16 word"
  assumes "unat n < 2 + unat (l :: byte)"
  shows "unat (n - 2 - ucast l) + 2 + unat l = 65536 + unat n"
proof -
  from unat_two_byte[of l] have "unat (n - (2 + ucast l)) = unat n + 65536 - (2 + unat l)" using assms by (subst unat_sub_if') (simp add: word_le_nat_alt)
  then show ?thesis using unat_byte[of l] unfolding diff_diff_eq by linarith
qed

lemma outer_loop_unfit:
  "\<not> desc_fit buf p (unat n) \<Longrightarrow> length buf \<le> 4096 \<Longrightarrow> outer_loop buf p n M = None"
proof (induction buf p n M rule: outer_loop.induct)
  case (1 buf p n M)
  have n: "n \<noteq> 0" using "1.prems"(1) by (intro notI) (simp add: desc_fit.simps)
  show ?case
  proof (cases "rd buf (p + 1)")
    case None
    then show ?thesis using n by (subst outer_loop.simps) (simp add: bind_eq_None_conv)
  next
    case (Some l)
    then have p: "p + 1 < length buf" by (rule rd_SomeD)
    obtain t where t: "rd buf p = Some t" using p by (simp add: rd_in)
    have rest: "outer_loop buf (p + 2 + unat l) (n - 2 - ucast l) M' = None"
      if s: "SetOuterDescriptor t l buf (p + 2) M = Some (e, M')" for e M'
    proof (cases "2 + unat l \<le> unat n")
      case True
      note u = unat_sub_desc[OF True]
      have "unat n \<noteq> 0" "unat n \<ge> 2" using True by simp_all
      with "1.prems"(1) True Some have "\<not> desc_fit buf (p + 2 + unat l) (unat (n - 2 - ucast l))"
        unfolding u by (subst (asm) desc_fit.simps) simp
      then show ?thesis using "1.IH"[OF n t Some s refl] "1.prems"(2) by simp
    next
      case False
      then have w: "unat (n - 2 - ucast l) + 2 + unat l = 65536 + unat n" by (intro unat_wrap_desc) simp
      then have nz: "unat (n - 2 - ucast l) \<noteq> 0" using unat_byte_le[of l] by linarith
      have "p + 2 + unat l + unat (n - 2 - ucast l) > length buf + 257" using w "1.prems"(2) by linarith
      then show ?thesis using nz by (intro outer_loop_runs_off) auto
    qed
    show ?thesis
    proof (cases "SetOuterDescriptor t l buf (p + 2) M")
      case None
      then show ?thesis using n t Some by (subst outer_loop.simps) simp
    next
      case s: (Some r)
      then obtain e M' where "SetOuterDescriptor t l buf (p + 2) M = Some (e, M')" by (cases r) auto
      then show ?thesis using rest n t Some by (subst outer_loop.simps) simp
    qed
  qed
qed

lemma pmt_header_outer: "pmt_header n buf = Some (Inr h) \<Longrightarrow> ph_outer_desc h = 12 \<and> unat (ph_outer_desc_len h) \<le> 1023"
  by (auto simp: pmt_header_def bind_eq_Some_conv Let_def word_less_nat_alt split: if_splits)

lemma pmt_parse_header: "pmt_parse n buf = Some (Inr (h, crc)) \<Longrightarrow> pmt_header n buf = Some (Inr h)"
proof -
  assume a: "pmt_parse n buf = Some (Inr (h, crc))"
  then obtain x where x: "pmt_header n buf = Some x" by (auto simp: pmt_parse_def bind_eq_Some_conv)
  with a obtain h' where h: "x = Inr h'" by (cases x) (simp_all add: pmt_parse_def)
  from a x h obtain r where r: "pmt_n1 buf (ph_pcr_pid h') (ph_es_desc h') (ph_es_desc_len h') = Some r"
    by (auto simp: pmt_parse_def bind_eq_Some_conv)
  with a x h obtain p sl where "r = Inr (p, sl)" by (cases r) (auto simp: pmt_parse_def)
  with a x h r show "pmt_header n buf = Some (Inr h)"
    by (auto simp: pmt_parse_def bind_eq_Some_conv split: if_splits)
qed

text \<open>
  A program map table that passes the checks and is new. The checks do not look at the outer descriptors; the storing pass
  takes them one by one until the length is used up exactly. When the block is a sequence of descriptors the pass over
  it is defined, whatever memory is left. When it is not, the 16 bit length wraps around and the pass
  runs off the array that holds the section.
\<close>

theorem pmt_outer_block:
  assumes "pmt_parse section_size buf = Some (Inr (h, crc))" "length buf = 4096" "\<not> descriptors_in_use M"
    "pmtVersionNumber M = INIT_TABLE_VERSION \<or> pmtVersionNumber M \<noteq> ph_version_number h \<or> pmtCRC M \<noteq> crc"
  shows "if desc_fit buf (ph_outer_desc h) (unat (ph_outer_desc_len h))
    then \<forall>N. \<exists>N'. outer_loop buf (ph_outer_desc h) (ph_outer_desc_len h) N = Some N'
    else parse_and_update_PMT env section_size buf M = None"
proof (cases "desc_fit buf (ph_outer_desc h) (unat (ph_outer_desc_len h))")
  case True
  have "ph_outer_desc h = 12 \<and> unat (ph_outer_desc_len h) \<le> 1023"
    by (rule pmt_header_outer[OF pmt_parse_header[OF assms(1)]])
  then have "ph_outer_desc h + unat (ph_outer_desc_len h) \<le> length buf" using assms(2) by simp
  with True show ?thesis using outer_loop_fits by simp
next
  case False
  then have "outer_loop buf (ph_outer_desc h) (ph_outer_desc_len h) N = None" for N using outer_loop_unfit assms(2) by simp
  then have "pmt_store env section_size buf h crc M = None" by (simp add: pmt_store_def)
  with False assms show ?thesis by (simp add: parse_and_update_PMT_def)
qed

definition pmt_odd_buffer :: "byte list" where
  "pmt_odd_buffer = [2, 0xB0, 14, 0, 3, 0xC7, 0, 0, 0xE0, 0x65, 0xF0, 1, 9, 1, 2, 3, 4] @ replicate 4079 0"

theorem pmt_outer_block_witness: "parse_and_update_PMT inb_env_example 17 pmt_odd_buffer inb_example = None"
proof -
  let ?h = "\<lparr>ph_version_number = 3, ph_pcr_pid = 0x65, ph_outer_desc = 12, ph_outer_desc_len = 1, ph_es_desc = 13, ph_es_desc_len = 4\<rparr>"
  have p: "pmt_parse 17 pmt_odd_buffer = Some (Inr (?h, be32 1 2 3 4))"
    by (simp add: pmt_parse_def pmt_header_def pmt_odd_buffer_def rd_def be12_def be16_def GETBITS_def TESTBITS_def pmt_n1.simps)
  have l: "length pmt_odd_buffer = 4096" by (simp add: pmt_odd_buffer_def)
  have u: "\<not> descriptors_in_use inb_example" using inb_example_pmt_ready by (simp add: pmt_ready_def)
  have f: "\<not> desc_fit pmt_odd_buffer (ph_outer_desc ?h) (unat (ph_outer_desc_len ?h))" by (simp add: desc_fit.simps)
  show ?thesis using pmt_outer_block[OF p l u, of inb_env_example] f inb_example_pmt_new by simp
qed

end
