(* ===== verification/InbCat.thy ===== *)
theory InbCat
  imports InbPmt
begin

text \<open>
  The other tables of the inband manager: the conditional access table, the time tables and the private sections for which clients
  set filters. \<open>parse_TDT\<close> and \<open>parse_TOT\<close> have no return statement; their results are not used.
\<close>

section \<open>Conditional access table\<close>

abbreviation (input) RMF_SI_DESC_CA_DESCRIPTOR :: byte where "RMF_SI_DESC_CA_DESCRIPTOR \<equiv> 0x09"

text \<open>The loop over the descriptors: an error, or the pointer, the length and the sum of the sizes.\<close>

function cat_loop :: "byte list \<Rightarrow> nat \<Rightarrow> 32 word \<Rightarrow> 16 word \<Rightarrow> (rmf_Error + nat \<times> 32 word \<times> 16 word) option" where
  "cat_loop section_data p section_length totl =
     (if section_length > 4 then
        do { t \<leftarrow> rd section_data p; len \<leftarrow> rd section_data (p + 1);
             let totl = totl + (ucast len + 2);
             let section_length = section_length - 2;
             if t \<noteq> RMF_SI_DESC_CA_DESCRIPTOR then Some (Inl 27)
             else if ucast len > section_length then Some (Inl 25)
             else let section_length = section_length - ucast len
                  in if section_length < 4 then Some (Inl 26)
                     else cat_loop section_data (p + 2 + unat len) section_length totl }
      else Some (Inr (p, section_length, totl)))"
  by pat_completeness auto
termination
  by (relation "measure (\<lambda>(buf, p, _, _). length buf - p)") (auto simp: rd_Some)

declare cat_loop.simps [simp del]

record cat_table =
  ct_transport_stream_id :: "16 word"
  ct_version_number :: "16 word"
  ct_total :: "16 word"
  ct_crc :: "32 word"

text \<open>
  Before the descriptors are looked at, the section that begins a table frees the stored one. The length of the section is not
  compared with the number of bytes received.
\<close>

definition cat_begin :: "byte \<Rightarrow> rmf_InbSiMgr \<Rightarrow> rmf_InbSiMgr" where
  "cat_begin last_section M =
     (if num_cat_sections M = 0 then
        let M = (if m_catTable M \<noteq> None then M\<lparr>m_catTable := None, m_catTableSize := 0, m_total_descriptor_length := 0\<rparr> else M)
        in M\<lparr>num_cat_sections := ucast last_section + 1\<rparr>
      else M)"

definition cat_parse :: "byte list \<Rightarrow> rmf_InbSiMgr \<Rightarrow> ((rmf_Error + cat_table) \<times> rmf_InbSiMgr) option" where
  "cat_parse section_data M =
     do { o1 \<leftarrow> rd section_data 0; o2 \<leftarrow> rd section_data 1; o3 \<leftarrow> rd section_data 2;
          let section_length = be12 o2 o3;
          if o1 \<noteq> CONDITIONAL_ACCESS_TABLE_ID then Some (Inl 1, M)
          else if TESTBITS o2 8 8 = 0 then Some (Inl 3, M)
          else if section_length > MAX_IB_SECTION_LENGTH then Some (Inl 2, M)
          else do {
            o4 \<leftarrow> rd section_data 3; o5 \<leftarrow> rd section_data 4; o6 \<leftarrow> rd section_data 5; o8 \<leftarrow> rd section_data 7;
            let M = cat_begin o8 M;
            let section_length = section_length - 5;
            if section_length < 4 then Some (Inl 5, M)
            else do {
              r \<leftarrow> cat_loop section_data 8 section_length 0;
              case r of
                Inl e \<Rightarrow> Some (Inl e, M)
              | Inr (p, section_length, totl) \<Rightarrow>
                  if section_length \<noteq> 4 then Some (Inl 13, M)
                  else do {
                    c1 \<leftarrow> rd section_data p; c2 \<leftarrow> rd section_data (p + 1);
                    c3 \<leftarrow> rd section_data (p + 2); c4 \<leftarrow> rd section_data (p + 3);
                    Some (Inr \<lparr>ct_transport_stream_id = be16 o4 o5, ct_version_number = ucast (GETBITS o6 6 2),
                               ct_total = totl, ct_crc = be32 c1 c2 c3 c4\<rparr>, M) } } } }"

text \<open>
  The descriptors are appended to the table. \<open>rmf_osal_memReallocP\<close> keeps the old block when it fails.
\<close>

definition cat_store :: "byte list \<Rightarrow> cat_table \<Rightarrow> rmf_InbSiMgr \<Rightarrow> (rmf_Error \<times> rmf_InbSiMgr) option" where
  "cat_store section_data t M =
     (if ct_total t > 0 then
        let n = unat (ct_total t);
            (ok, M) = inb_alloc M;
            M = (case m_catTable M of
                   None \<Rightarrow> M\<lparr>m_catTable := (if ok then Some (replicate n 0) else None), m_catTableSize := 0, m_total_descriptor_length := 0\<rparr>
                 | Some l \<Rightarrow>
                     if ok then M\<lparr>m_catTable := Some (take (unat (m_catTableSize M) + n) (l @ replicate (unat (m_catTableSize M) + n) 0))\<rparr>
                     else M)
        in if \<not> ok then Some (25, M)
           else do {
             tab \<leftarrow> m_catTable M;
             let off = unat (m_catTableSize M);
             d \<leftarrow> memcpy (drop off tab) section_data 8 n;
             Some (RMF_SUCCESS, M\<lparr>m_catTable := Some (take off tab @ d), m_catTableSize := m_catTableSize M + ct_total t,
                                  m_total_descriptor_length := m_total_descriptor_length M + ct_total t,
                                  ts_id := ct_transport_stream_id t\<rparr>) }
      else Some (RMF_SUCCESS, M\<lparr>ts_id := ct_transport_stream_id t\<rparr>))"

definition cat_available :: "rmf_InbSiMgr \<Rightarrow> rmf_InbSiMgr" where
  "cat_available M = (if \<not> m_bIsCATAvailable M then M\<lparr>m_bIsCATAvailable := True, cat_cond := True\<rparr> else M)"

definition keep_cat :: "32 word \<Rightarrow> byte list \<Rightarrow> rmf_InbSiMgr \<Rightarrow> rmf_InbSiMgr option" where
  "keep_cat section_size section_data M =
     (if unat section_size \<le> RMF_SI_SECTION_MAX_SIZE then
        do { b \<leftarrow> memcpy (catBuf M) section_data 0 (unat section_size);
             Some (M\<lparr>catBuf := b, catBufLen := section_size\<rparr>) }
      else Some M)"

definition cat_changed :: "inb_env \<Rightarrow> cat_table \<Rightarrow> rmf_InbSiMgr \<Rightarrow> rmf_InbSiMgr option" where
  "cat_changed env t M =
     (let version_number = ct_version_number t; crc = ct_crc t
      in if num_cat_sections M = 0 then
           do { let M = cat_available M;
                let M = notifySIDB env TABLE_TYPE_CAT (catVersionNumber M = INIT_TABLE_VERSION)
                          (catVersionNumber M \<noteq> version_number) (catCRC M \<noteq> crc) M;
                let M = M\<lparr>catVersionNumber := version_number, catCRC := crc\<rparr>;
                if m_NegativeFiltersEnabled M then configure_negative_filters env TABLE_TYPE_CAT M else Some M }
         else Some (M\<lparr>catVersionNumber := version_number, catCRC := crc\<rparr>))"

definition parse_and_update_CAT ::
  "inb_env \<Rightarrow> 32 word \<Rightarrow> byte list \<Rightarrow> rmf_InbSiMgr \<Rightarrow> (rmf_Error \<times> rmf_InbSiMgr) option" where
  "parse_and_update_CAT env section_size section_data M =
     do { (r, M) \<leftarrow> cat_parse section_data M;
          case r of
            Inl e \<Rightarrow> Some (e, M)
          | Inr t \<Rightarrow>
              do { let M = M\<lparr>num_cat_sections := num_cat_sections M - 1\<rparr>;
                   if catVersionNumber M = INIT_TABLE_VERSION \<or> catVersionNumber M \<noteq> ct_version_number t \<or> catCRC M \<noteq> ct_crc t then
                     do { (ret, M) \<leftarrow> cat_store section_data t M;
                          if ret \<noteq> RMF_SUCCESS then Some (ret, M)
                          else do { M \<leftarrow> cat_changed env t M; M \<leftarrow> keep_cat section_size section_data M; Some (0, M) } }
                   else
                     do { let M = (if num_cat_sections M = 0 then cat_available M else M);
                          M \<leftarrow> keep_cat section_size section_data M; Some (0, M) } } }"

text \<open>What \<open>GetCatTable\<close> hands to the client's function: the length and the pointer.\<close>

definition GetCatTable :: "rmf_InbSiMgr \<Rightarrow> 16 word \<times> byte list option" where
  "GetCatTable M = (m_total_descriptor_length M, m_catTable M)"

section \<open>Time tables\<close>

text \<open>The buffer is allocated anew when there is none or when the section is smaller than the last one.\<close>

definition time_store :: "byte list option \<Rightarrow> nat \<Rightarrow> nat \<Rightarrow> bool \<Rightarrow> byte list \<Rightarrow> (byte list option \<times> nat) option" where
  "time_store tab len section_size ok section_data =
     (let tab = (if len > section_size \<or> tab = None then (if ok then Some (replicate section_size 0) else None) else tab)
      in case tab of
           None \<Rightarrow> Some (None, len)
         | Some t \<Rightarrow> do { t \<leftarrow> memcpy t section_data 0 section_size; Some (Some t, section_size) })"

definition parse_TDT :: "inb_env \<Rightarrow> 32 word \<Rightarrow> byte list \<Rightarrow> rmf_InbSiMgr \<Rightarrow> rmf_InbSiMgr option" where
  "parse_TDT env section_size section_data M =
     (if section_size = 8 then
        do { let (ok, M) = inb_alloc M;
             (tab, len) \<leftarrow> time_store (m_tdtTable M) (m_tdtTableSize M) (unat section_size) ok section_data;
             Some (snd (inb_NotifyTableChanged env TABLE_TYPE_TDT RMF_SI_CHANGE_TYPE_MODIFY 0
                          (M\<lparr>m_tdtTable := tab, m_tdtTableSize := len\<rparr>))) }
      else Some M)"

definition parse_TOT :: "inb_env \<Rightarrow> 32 word \<Rightarrow> byte list \<Rightarrow> rmf_InbSiMgr \<Rightarrow> rmf_InbSiMgr option" where
  "parse_TOT env section_size section_data M =
     (if section_size \<ge> 10 then
        do { let (ok, M) = inb_alloc M;
             (tab, len) \<leftarrow> time_store (m_totTable M) (m_totTableSize M) (unat section_size) ok section_data;
             Some (snd (inb_NotifyTableChanged env TABLE_TYPE_TOT RMF_SI_CHANGE_TYPE_MODIFY 0
                          (M\<lparr>m_totTable := tab, m_totTableSize := len\<rparr>))) }
      else Some M)"

text \<open>\<open>get_TDT\<close> and \<open>get_TOT\<close>: a copy, or NULL when nothing is stored or memory is short.\<close>

definition time_copy :: "byte list option \<Rightarrow> nat \<Rightarrow> bool \<Rightarrow> byte list option option" where
  "time_copy tab len ok =
     (if len \<noteq> 0 \<and> ok then do { t \<leftarrow> tab; r \<leftarrow> memcpy (replicate len 0) t 0 len; Some (Some r) } else Some None)"

definition get_TDT :: "bool \<Rightarrow> rmf_InbSiMgr \<Rightarrow> byte list option option" where
  "get_TDT ok M = time_copy (m_tdtTable M) (m_tdtTableSize M) ok"

definition get_TOT :: "bool \<Rightarrow> rmf_InbSiMgr \<Rightarrow> byte list option option" where
  "get_TOT ok M = time_copy (m_totTable M) (m_totTableSize M) ok"

section \<open>Private sections\<close>

definition parse_and_update_section ::
  "inb_env \<Rightarrow> 32 word \<Rightarrow> byte list \<Rightarrow> 32 word \<Rightarrow> rmf_InbSiMgr \<Rightarrow> (rmf_Error \<times> rmf_InbSiMgr) option" where
  "parse_and_update_section env section_size section_data filterId M =
     (case map_of (m_section_filter_list M) filterId of
        None \<Rightarrow> Some (RMF_INBSI_NOT_FOUND, M)
      | Some f \<Rightarrow>
          do { f \<leftarrow> (if sfi_getNewECM f \<and> unat section_size \<le> RMF_SI_SECTION_MAX_SIZE then
                      do { d \<leftarrow> memcpy (sfi_data f) section_data 0 (unat section_size);
                           Some (f\<lparr>sfi_data := d, sfi_data_length := section_size, sfi_getNewECM := False, sfi_newEcmData := True\<rparr>) }
                    else Some f);
               let M = M\<lparr>m_section_filter_list :=
                          map (\<lambda>(i, g). if i = filterId then (i, f) else (i, g)) (m_section_filter_list M)\<rparr>;
               Some (RMF_SUCCESS, snd (inb_NotifyTableChanged env TABLE_TYPE_SECTION RMF_SI_CHANGE_TYPE_ADD filterId M)) })"

text \<open>
  \<open>get_Section\<close>: the walk over the filters in the order of their ids. The id of every filter with new data is stored through
  the reference; a copy that cannot be allocated is lost and the walk goes on. \<open>ok\<close> says for each filter whether memory is there.
\<close>

fun get_section_walk ::
  "(32 word \<Rightarrow> bool) \<Rightarrow> (32 word \<times> SectionFilterInfo) list \<Rightarrow> 32 word option \<Rightarrow>
   (byte list option \<times> 32 word option \<times> (32 word \<times> SectionFilterInfo) list) option" where
  "get_section_walk ok [] filterId = Some (None, filterId, [])"
| "get_section_walk ok ((i, f) # rest) filterId =
     (if sfi_newEcmData f then
        if unat (sfi_data_length f) \<le> RMF_SI_SECTION_MAX_SIZE then
          let f' = f\<lparr>sfi_getNewECM := True, sfi_newEcmData := False\<rparr>
          in if ok i then
               do { r \<leftarrow> memcpy (replicate (unat (sfi_data_length f)) 0) (sfi_data f) 0 (unat (sfi_data_length f));
                    Some (Some r, Some i, (i, f') # rest) }
             else do { (r, id, rest) \<leftarrow> get_section_walk ok rest (Some i); Some (r, id, (i, f') # rest) }
        else do { (r, id, rest) \<leftarrow> get_section_walk ok rest (Some i); Some (r, id, (i, f) # rest) }
      else do { (r, id, rest) \<leftarrow> get_section_walk ok rest filterId; Some (r, id, (i, f) # rest) })"

definition get_Section :: "(32 word \<Rightarrow> bool) \<Rightarrow> rmf_InbSiMgr \<Rightarrow> (byte list option \<times> 32 word option \<times> rmf_InbSiMgr) option" where
  "get_Section ok M =
     do { (r, id, l) \<leftarrow> get_section_walk ok (m_section_filter_list M) None; Some (r, id, M\<lparr>m_section_filter_list := l\<rparr>) }"

end
