(* ===== verification/InbCatEnc.thy ===== *)
theory InbCatEnc
  imports InbPmtEnc InbCat
begin

text \<open>
  Encoded conditional access tables: what is stored of them, and how a repetition loses it; and the time offset table whose
  buffer does not grow.
\<close>

section \<open>Encoded tables\<close>

record cat_section =
  ca_reserved :: "16 word"
  ca_version :: nat
  ca_section_number :: byte
  ca_last_section_number :: byte
  ca_descs :: "descriptor list"
  ca_crc :: "byte list"

definition enc_cat :: "cat_section \<Rightarrow> byte list" where
  "enc_cat s = enc_psi_header CONDITIONAL_ACCESS_TABLE_ID (9 + length (enc_descriptors (ca_descs s))) @ be16_bytes (ca_reserved s) @
     [0xC1 OR word_of_nat (2 * ca_version s), ca_section_number s, ca_last_section_number s] @ enc_descriptors (ca_descs s) @ ca_crc s"

definition cat_ok :: "cat_section \<Rightarrow> bool" where
  "cat_ok s \<longleftrightarrow> ca_version s < 32 \<and> list_all (\<lambda>d. descriptor_ok d \<and> fst d = RMF_SI_DESC_CA_DESCRIPTOR) (ca_descs s) \<and>
     length (ca_crc s) = 4 \<and> 9 + length (enc_descriptors (ca_descs s)) \<le> 1021"

abbreviation cat_size :: "cat_section \<Rightarrow> 32 word" where
  "cat_size s \<equiv> word_of_nat (length (enc_cat s))"

lemma cat_loop_enc:
  assumes "holds_at buf p (enc_descriptors ds)" "list_all (\<lambda>d. descriptor_ok d \<and> fst d = RMF_SI_DESC_CA_DESCRIPTOR) ds"
    "length (enc_descriptors ds) + 4 < 2 ^ 32"
  shows "cat_loop buf p (word_of_nat (length (enc_descriptors ds) + 4)) t =
    Some (Inr (p + length (enc_descriptors ds), 4, t + word_of_nat (length (enc_descriptors ds))))"
  using assms
proof (induction ds arbitrary: p t)
  case Nil
  show ?case by (subst cat_loop.simps) simp
next
  case (Cons d ds)
  let ?l = "length (snd d)" and ?r = "length (enc_descriptors ds)"
  have d: "fst d = RMF_SI_DESC_CA_DESCRIPTOR" "holds_at buf p (enc_descriptor d)" "holds_at buf (p + 2 + ?l) (enc_descriptors ds)"
    using Cons.prems(1,2) by simp_all
  have l: "?l < 256" using Cons.prems(2) by (simp add: descriptor_ok_def)
  have len: "length (enc_descriptors (d # ds)) = 2 + ?l + ?r" by simp
  have lt: "2 + ?l + ?r + 4 < 2 ^ 32" using Cons.prems(3) unfolding len .
  have gt: "(word_of_nat (2 + ?l + ?r + 4) :: 32 word) > 4" using of_nat_less32[of 4 "2 + ?l + ?r + 4"] lt by simp
  have fit: "\<not> (word_of_nat ?l :: 32 word) > word_of_nat (?l + (?r + 4))" using of_nat_less32[of "?l + (?r + 4)" ?l] lt l by simp
  have crc: "\<not> (word_of_nat (?r + 4) :: 32 word) < 4" using of_nat_less32[of "?r + 4" 4] lt by simp
  have rest: "word_of_nat (2 + ?l + ?r + 4) - 2 = (word_of_nat (?l + (?r + 4)) :: 32 word)"
      "word_of_nat (?l + (?r + 4)) - word_of_nat ?l = (word_of_nat (?r + 4) :: 32 word)" by simp_all
  note h = enc_descriptor_head[OF d(2)]
  have "cat_loop buf p (word_of_nat (2 + ?l + ?r + 4)) t =
      cat_loop buf (p + 2 + ?l) (word_of_nat (?r + 4)) (t + (word_of_nat ?l + 2))"
    using gt fit crc
    by (subst cat_loop.simps)
      (simp only: h(1,2) d(1) bind.bind_lunit Let_def ucast_of_nat_byte[OF l] rest unat_of_nat_byte[OF l] if_True if_False simp_thms)
  also have "\<dots> = Some (Inr (p + 2 + ?l + ?r, 4, t + (word_of_nat ?l + 2) + word_of_nat ?r))"
    using Cons.IH[OF d(3)] Cons.prems(2) lt by simp
  finally show ?case unfolding len by (simp add: add.assoc add.commute add.left_commute)
qed

lemma length_enc_cat: "length (ca_crc s) = 4 \<Longrightarrow> length (enc_cat s) = 12 + length (enc_descriptors (ca_descs s))"
  by (simp add: enc_cat_def enc_psi_header_def be16_bytes_def)

lemma cat_split:
  assumes "holds_at buf 0 (enc_cat s)"
  shows "let n = 9 + length (enc_descriptors (ca_descs s)) in
      rd buf 0 = Some 1 \<and> rd buf 1 = Some (0xB0 OR word_of_nat (n div 256)) \<and> rd buf 2 = Some (word_of_nat (n mod 256)) \<and>
      rd buf 3 = Some (ucast (drop_bit 8 (ca_reserved s))) \<and> rd buf 4 = Some (ucast (ca_reserved s)) \<and>
      rd buf 5 = Some (0xC1 OR word_of_nat (2 * ca_version s)) \<and> rd buf 7 = Some (ca_last_section_number s)"
    and "holds_at buf 8 (enc_descriptors (ca_descs s) @ ca_crc s)"
proof -
  let ?n = "9 + length (enc_descriptors (ca_descs s))"
  have e: "enc_cat s = 1 # (0xB0 OR word_of_nat (?n div 256)) # word_of_nat (?n mod 256) # ucast (drop_bit 8 (ca_reserved s)) #
      ucast (ca_reserved s) # (0xC1 OR word_of_nat (2 * ca_version s)) # ca_section_number s # ca_last_section_number s #
      enc_descriptors (ca_descs s) @ ca_crc s"
    by (simp only: enc_cat_def enc_psi_header_def be16_bytes_def append.simps)
  note h = assms[unfolded e holds_at_8 add_0]
  show "let n = ?n in
      rd buf 0 = Some 1 \<and> rd buf 1 = Some (0xB0 OR word_of_nat (n div 256)) \<and> rd buf 2 = Some (word_of_nat (n mod 256)) \<and>
      rd buf 3 = Some (ucast (drop_bit 8 (ca_reserved s))) \<and> rd buf 4 = Some (ucast (ca_reserved s)) \<and>
      rd buf 5 = Some (0xC1 OR word_of_nat (2 * ca_version s)) \<and> rd buf 7 = Some (ca_last_section_number s)"
    unfolding Let_def using h by (simp only: simp_thms)
  show "holds_at buf 8 (enc_descriptors (ca_descs s) @ ca_crc s)" using h by (simp only: simp_thms)
qed

definition cat_decoded :: "cat_section \<Rightarrow> cat_table" where
  "cat_decoded s = \<lparr>ct_transport_stream_id = ca_reserved s, ct_version_number = word_of_nat (ca_version s),
     ct_total = word_of_nat (length (enc_descriptors (ca_descs s))),
     ct_crc = be32 (ca_crc s ! 0) (ca_crc s ! 1) (ca_crc s ! 2) (ca_crc s ! 3)\<rparr>"

lemma ucast_version: "v < 32 \<Longrightarrow> ucast (word_of_nat v :: 32 word) = (word_of_nat v :: 16 word)"
  by (intro word_unat_eq_iff[THEN iffD2]) (simp add: unsigned_ucast_eq unat_of_nat take_bit_nat_eq_self)

lemma cat_parse_enc:
  assumes "cat_ok s" "holds_at buf 0 (enc_cat s)"
  shows "cat_parse buf M = Some (Inr (cat_decoded s), cat_begin (ca_last_section_number s) M)"
proof -
  let ?d = "length (enc_descriptors (ca_descs s))"
  let ?n = "9 + ?d"
  have v: "ca_version s < 32" and n: "?n \<le> 1021" and crc: "length (ca_crc s) = 4"
    and ds: "list_all (\<lambda>d. descriptor_ok d \<and> fst d = RMF_SI_DESC_CA_DESCRIPTOR) (ca_descs s)"
    using assms(1) by (simp_all add: cat_ok_def)
  note r = cat_split(1)[OF assms(2), unfolded Let_def]
  have b: "holds_at buf 8 (enc_descriptors (ca_descs s))" "holds_at buf (8 + ?d) (ca_crc s)"
    using cat_split(2)[OF assms(2)] by simp_all
  note c = rd_crc[OF b(2) crc]
  have len: "\<not> (word_of_nat ?n :: 32 word) > 1021" using of_nat_less32[of 1021 ?n] n by simp
  have sl: "(word_of_nat ?n :: 32 word) - 5 = word_of_nat (?d + 4)" by simp
  have ge: "\<not> (word_of_nat (?d + 4) :: 32 word) < 4" using of_nat_less32[of "?d + 4" 4] n by simp
  have loop: "cat_loop buf 8 (word_of_nat (?d + 4)) 0 = Some (Inr (8 + ?d, 4, word_of_nat ?d))"
    using cat_loop_enc[OF b(1) ds, of 0] n by simp
  have nz: "(1 :: byte) \<noteq> 1 \<longleftrightarrow> False" "(4 :: 32 word) \<noteq> 4 \<longleftrightarrow> False" by simp_all
  show ?thesis
    unfolding cat_parse_def cat_decoded_def
    by (simp only: r bind.bind_lunit Let_def enc_psi_length[OF n] sl enc_version[OF v] ucast_version[OF v] be16_bytes len ge loop c
        sum.case prod.case nz simp_thms if_False)
qed

section \<open>The update\<close>

definition cat_crc :: "cat_section \<Rightarrow> 32 word" where
  "cat_crc s = be32 (ca_crc s ! 0) (ca_crc s ! 1) (ca_crc s ! 2) (ca_crc s ! 3)"

definition cat_ready :: "inb_env \<Rightarrow> rmf_InbSiMgr \<Rightarrow> bool" where
  "cat_ready env M \<longleftrightarrow> length (catBuf M) = RMF_SI_SECTION_MAX_SIZE \<and> (\<forall>k. mem_ok M k) \<and>
     inb_create env = RMF_SUCCESS \<and> (\<forall>q. inb_add env q = RMF_SUCCESS) \<and> \<not> m_NegativeFiltersEnabled M"

lemma keep_cat_enc:
  assumes "length (catBuf M) = 1024" "cat_ok s" "holds_at buf 0 (enc_cat s)"
  shows "keep_cat (cat_size s) buf M = Some (M\<lparr>catBuf := enc_cat s @ drop (length (enc_cat s)) (catBuf M), catBufLen := cat_size s\<rparr>)"
proof -
  have le: "length (enc_cat s) \<le> 1024" using assms(2) length_enc_cat[of s] by (simp add: cat_ok_def)
  have "enc_cat s \<noteq> []" by (simp add: enc_cat_def enc_psi_header_def)
  then have "length (enc_cat s) \<le> length buf" using holds_at_length[OF assms(3)] by simp
  moreover have "unat (cat_size s) = length (enc_cat s)" using le by (simp add: unat_of_nat)
  ultimately show ?thesis using assms(1) le holds_at_take[OF assms(3)] by (simp add: keep_cat_def memcpy_def)
qed

lemma cat_version_known: "cat_ok s \<Longrightarrow> (word_of_nat (ca_version s) :: 16 word) \<noteq> INIT_TABLE_VERSION"
proof
  assume "cat_ok s" "(word_of_nat (ca_version s) :: 16 word) = INIT_TABLE_VERSION"
  then have "unat (word_of_nat (ca_version s) :: 16 word) = unat (32 :: 16 word)" by simp
  then show False using \<open>cat_ok s\<close> by (simp add: unat_of_nat cat_ok_def)
qed

lemma cat_store_enc:
  assumes "m_catTable M = None" "cat_ok s" "ca_descs s \<noteq> []" "holds_at buf 0 (enc_cat s)" "\<forall>k. mem_ok M k"
  shows "cat_store buf (cat_decoded s) M = Some (RMF_SUCCESS, M\<lparr>allocs := Suc (allocs M), m_catTable := Some (enc_descriptors (ca_descs s)),
    m_catTableSize := ct_total (cat_decoded s), m_total_descriptor_length := ct_total (cat_decoded s), ts_id := ca_reserved s\<rparr>)"
proof -
  let ?d = "length (enc_descriptors (ca_descs s))"
  have d: "2 \<le> ?d" "?d < 65536" using enc_descriptors_pos[OF assms(3)] assms(2) by (simp_all add: cat_ok_def)
  then have u: "unat (ct_total (cat_decoded s)) = ?d" by (simp add: cat_decoded_def unat_of_nat)
  have ne: "enc_descriptors (ca_descs s) \<noteq> []" using d(1) by auto
  then have pos: "ct_total (cat_decoded s) > 0" using u by (simp add: word_less_nat_alt)
  have b: "holds_at buf 8 (enc_descriptors (ca_descs s))" using cat_split(2)[OF assms(4)] by simp
  have "memcpy (replicate ?d 0) buf 8 ?d = Some (enc_descriptors (ca_descs s))" by (rule memcpy_content[OF b ne refl])
  moreover have "ct_transport_stream_id (cat_decoded s) = ca_reserved s" by (simp add: cat_decoded_def)
  ultimately show ?thesis using pos assms(1,5) by (simp add: cat_store_def u inb_alloc_def Let_def)
qed

lemma cat_changed_enc:
  assumes "cat_ready env M" "v \<noteq> INIT_TABLE_VERSION" "v = ct_version_number t" "num_cat_sections M = 0"
    "catVersionNumber M = INIT_TABLE_VERSION \<or> catVersionNumber M \<noteq> v \<or> catCRC M \<noteq> ct_crc t"
  shows "cat_changed env t M = Some ((cat_available M)\<lparr>catVersionNumber := v, catCRC := ct_crc t,
      psi_events := psi_events M @ (if catVersionNumber M = INIT_TABLE_VERSION
         then announced RMF_SI_EVENT_IB_CAT_ACQUIRED RMF_SI_CHANGE_TYPE_ADD M
         else announced RMF_SI_EVENT_IB_CAT_UPDATE RMF_SI_CHANGE_TYPE_MODIFY M)\<rparr>)"
  using assms
  by (auto simp: cat_changed_def cat_ready_def cat_available_def notifySIDB_def inb_NotifyTableChanged_def dispatch_event_def
      table_event_def announced_def Let_def)

lemma cat_update_changed:
  assumes r: "cat_ready env M" and s: "cat_ok s" "ca_descs s \<noteq> []" "holds_at buf 0 (enc_cat s)" "ca_last_section_number s = 0"
    and M: "num_cat_sections M = 0"
    and new: "catVersionNumber M = INIT_TABLE_VERSION \<or> catVersionNumber M \<noteq> word_of_nat (ca_version s) \<or> catCRC M \<noteq> cat_crc s"
  obtains M' where "parse_and_update_CAT env (cat_size s) buf M = Some (0, M')" "cat_ready env M'"
    "m_catTable M' = Some (enc_descriptors (ca_descs s))" "m_total_descriptor_length M' = word_of_nat (length (enc_descriptors (ca_descs s)))"
    "ts_id M' = ca_reserved s" "catVersionNumber M' = word_of_nat (ca_version s)" "catCRC M' = cat_crc s" "num_cat_sections M' = 0"
    "m_bIsCATAvailable M'" "psi_events M' = psi_events M @ (if catVersionNumber M = INIT_TABLE_VERSION
         then announced RMF_SI_EVENT_IB_CAT_ACQUIRED RMF_SI_CHANGE_TYPE_ADD M
         else announced RMF_SI_EVENT_IB_CAT_UPDATE RMF_SI_CHANGE_TYPE_MODIFY M)"
proof -
  let ?t = "cat_decoded s"
  let ?M1 = "(cat_begin 0 M)\<lparr>num_cat_sections := 0\<rparr>"
  have t: "word_of_nat (ca_version s) = ct_version_number ?t" "ct_crc ?t = cat_crc s" by (simp_all add: cat_decoded_def cat_crc_def)
  have f: "m_catTable ?M1 = None" "\<forall>k. mem_ok ?M1 k" "num_cat_sections (cat_begin 0 M) - 1 = 0"
      "catVersionNumber ?M1 = catVersionNumber M" "catCRC ?M1 = catCRC M" "psi_events ?M1 = psi_events M"
      "g_inbsi_registration_list ?M1 = g_inbsi_registration_list M" "cat_ready env ?M1"
    using M r by (auto simp: cat_begin_def cat_ready_def)
  define M2 where "M2 = ?M1\<lparr>allocs := Suc (allocs ?M1), m_catTable := Some (enc_descriptors (ca_descs s)),
    m_catTableSize := ct_total ?t, m_total_descriptor_length := ct_total ?t, ts_id := ca_reserved s\<rparr>"
  have st: "cat_store buf ?t ?M1 = Some (RMF_SUCCESS, M2)" unfolding M2_def by (rule cat_store_enc[OF f(1) s(1,2,3) f(2)])
  have m2: "cat_ready env M2" "num_cat_sections M2 = 0" "catVersionNumber M2 = catVersionNumber M" "catCRC M2 = catCRC M"
      "psi_events M2 = psi_events M" "g_inbsi_registration_list M2 = g_inbsi_registration_list M"
    using f by (auto simp: M2_def cat_ready_def)
  define M3 where "M3 = (cat_available M2)\<lparr>catVersionNumber := word_of_nat (ca_version s), catCRC := ct_crc ?t,
      psi_events := psi_events M2 @ (if catVersionNumber M2 = INIT_TABLE_VERSION
         then announced RMF_SI_EVENT_IB_CAT_ACQUIRED RMF_SI_CHANGE_TYPE_ADD M2
         else announced RMF_SI_EVENT_IB_CAT_UPDATE RMF_SI_CHANGE_TYPE_MODIFY M2)\<rparr>"
  have ch: "cat_changed env ?t M2 = Some M3" unfolding M3_def
    by (rule cat_changed_enc[OF m2(1) cat_version_known[OF s(1)] t(1) m2(2)]) (use new m2(3,4) t in simp)
  have r3: "cat_ready env M3" using m2(1) by (auto simp: M3_def cat_ready_def cat_available_def)
  then have b3: "length (catBuf M3) = 1024" by (simp add: cat_ready_def)
  let ?M' = "M3\<lparr>catBuf := enc_cat s @ drop (length (enc_cat s)) (catBuf M3), catBufLen := cat_size s\<rparr>"
  have "parse_and_update_CAT env (cat_size s) buf M = Some (0, ?M')"
    unfolding parse_and_update_CAT_def cat_parse_enc[OF s(1,3)] s(4)
    using new f(3,4,5) t st ch keep_cat_enc[OF b3 s(1,3)] by (simp add: Let_def)
  moreover have "cat_ready env ?M'" using r3 s(1) length_enc_cat[of s] by (auto simp: cat_ready_def cat_ok_def)
  moreover have "ct_total ?t = word_of_nat (length (enc_descriptors (ca_descs s)))" by (simp add: cat_decoded_def)
  ultimately show thesis
    using m2 t by (intro that[of ?M']) (simp_all add: M3_def M2_def cat_available_def announced_def)
qed

text \<open>
  C25. A conditional access table of one section, new to the manager, with at least one descriptor. Its descriptors are stored as they
  stand in the section and clients are told; the transport stream id becomes the reserved bits of the section, which is
  not one. When the same section arrives again the stored table is freed, and since its version and CRC are known it is not stored
  again: a client then gets length 0 and no table.
\<close>

theorem cat_repeat_loses_table:
  assumes "cat_ready env M" "cat_ok s" "ca_descs s \<noteq> []" "holds_at buf 0 (enc_cat s)" "ca_last_section_number s = 0"
    "num_cat_sections M = 0"
    "catVersionNumber M = INIT_TABLE_VERSION \<or> catVersionNumber M \<noteq> word_of_nat (ca_version s) \<or> catCRC M \<noteq> cat_crc s"
  shows "\<exists>M' M''. parse_and_update_CAT env (cat_size s) buf M = Some (0, M') \<and>
    GetCatTable M' = (word_of_nat (length (enc_descriptors (ca_descs s))), Some (enc_descriptors (ca_descs s))) \<and>
    GetTSID M' = (RMF_SUCCESS, ucast (ca_reserved s)) \<and> m_bIsCATAvailable M' \<and>
    psi_events M' = psi_events M @ (if catVersionNumber M = INIT_TABLE_VERSION
       then announced RMF_SI_EVENT_IB_CAT_ACQUIRED RMF_SI_CHANGE_TYPE_ADD M
       else announced RMF_SI_EVENT_IB_CAT_UPDATE RMF_SI_CHANGE_TYPE_MODIFY M) \<and>
    parse_and_update_CAT env (cat_size s) buf M' = Some (0, M'') \<and>
    GetCatTable M'' = (0, None) \<and> m_bIsCATAvailable M'' \<and> psi_events M'' = psi_events M'"
proof -
  obtain M' where 1: "parse_and_update_CAT env (cat_size s) buf M = Some (0, M')" "cat_ready env M'"
    "m_catTable M' = Some (enc_descriptors (ca_descs s))" "m_total_descriptor_length M' = word_of_nat (length (enc_descriptors (ca_descs s)))"
    "ts_id M' = ca_reserved s" "catVersionNumber M' = word_of_nat (ca_version s)" "catCRC M' = cat_crc s" "num_cat_sections M' = 0"
    "m_bIsCATAvailable M'" "psi_events M' = psi_events M @ (if catVersionNumber M = INIT_TABLE_VERSION
         then announced RMF_SI_EVENT_IB_CAT_ACQUIRED RMF_SI_CHANGE_TYPE_ADD M
         else announced RMF_SI_EVENT_IB_CAT_UPDATE RMF_SI_CHANGE_TYPE_MODIFY M)"
    by (rule cat_update_changed[OF assms])
  have t: "ct_version_number (cat_decoded s) = word_of_nat (ca_version s)" "ct_crc (cat_decoded s) = cat_crc s"
    by (simp_all add: cat_decoded_def cat_crc_def)
  let ?M1 = "(cat_begin 0 M')\<lparr>num_cat_sections := 0\<rparr>"
  have f: "m_catTable ?M1 = None" "m_total_descriptor_length ?M1 = 0" "num_cat_sections (cat_begin 0 M') - 1 = 0"
      "catVersionNumber ?M1 = word_of_nat (ca_version s)" "catCRC ?M1 = cat_crc s" "psi_events ?M1 = psi_events M'" "m_bIsCATAvailable ?M1"
      "length (catBuf ?M1) = 1024"
    using 1 by (auto simp: cat_begin_def cat_ready_def)
  let ?M'' = "?M1\<lparr>catBuf := enc_cat s @ drop (length (enc_cat s)) (catBuf ?M1), catBufLen := cat_size s\<rparr>"
  have "parse_and_update_CAT env (cat_size s) buf M' = Some (0, ?M'')"
    unfolding parse_and_update_CAT_def cat_parse_enc[OF assms(2,4)] assms(5)
    using f t cat_version_known[OF assms(2)] keep_cat_enc[OF f(8) assms(2,4)] by (simp add: Let_def cat_available_def)
  then show ?thesis using 1 f by (intro exI[of _ M'] exI[of _ ?M'']) (simp add: GetCatTable_def GetTSID_def)
qed

definition cat_example :: cat_section where
  "cat_example = \<lparr>ca_reserved = 0xFFFF, ca_version = 7, ca_section_number = 0, ca_last_section_number = 0,
     ca_descs = [(9, [0x0E, 0, 0xE5, 0])], ca_crc = [5, 6, 7, 8]\<rparr>"

theorem cat_repeat_loses_table_witness:
  "\<exists>M' M''. parse_and_update_CAT inb_env_example (cat_size cat_example) (enc_cat cat_example @ replicate 4078 0) inb_example = Some (0, M') \<and>
     GetCatTable M' = (6, Some [9, 4, 0x0E, 0, 0xE5, 0]) \<and> GetTSID M' = (RMF_SUCCESS, 0xFFFF) \<and>
     parse_and_update_CAT inb_env_example (cat_size cat_example) (enc_cat cat_example @ replicate 4078 0) M' = Some (0, M'') \<and>
     GetCatTable M'' = (0, None)"
proof -
  have r: "cat_ready inb_env_example inb_example" "num_cat_sections inb_example = 0" "catVersionNumber inb_example = INIT_TABLE_VERSION"
    by (simp_all add: cat_ready_def inb_example_def inb_env_example_def RegisterForPSIEvents_def rmf_InbSiMgr_new_def inb_alloc_def)
  have ok: "cat_ok cat_example" "ca_descs cat_example \<noteq> []" "ca_last_section_number cat_example = 0"
    by (simp_all add: cat_ok_def cat_example_def descriptor_ok_def)
  have buf: "holds_at (enc_cat cat_example @ replicate 4078 0) 0 (enc_cat cat_example)" by simp
  have e: "enc_descriptors (ca_descs cat_example) = [9, 4, 0x0E, 0, 0xE5, 0]" "ca_reserved cat_example = 0xFFFF"
    by (simp_all add: cat_example_def enc_descriptor_def)
  from cat_repeat_loses_table[OF r(1) ok(1,2) buf ok(3) r(2)] r(3)
  obtain M' M'' where "parse_and_update_CAT inb_env_example (cat_size cat_example) (enc_cat cat_example @ replicate 4078 0) inb_example = Some (0, M')"
     "GetCatTable M' = (word_of_nat (length (enc_descriptors (ca_descs cat_example))), Some (enc_descriptors (ca_descs cat_example)))"
     "GetTSID M' = (RMF_SUCCESS, ucast (ca_reserved cat_example))"
     "parse_and_update_CAT inb_env_example (cat_size cat_example) (enc_cat cat_example @ replicate 4078 0) M' = Some (0, M'')"
     "GetCatTable M'' = (0, None)"
    by blast
  then show ?thesis unfolding e by (intro exI[of _ M'] exI[of _ M'']) simp
qed

section \<open>The buffer of the time offset table\<close>

lemma time_store_first: "section_size \<le> length buf \<Longrightarrow>
    time_store None len section_size True buf = Some (Some (take section_size buf), section_size)"
  by (simp add: time_store_def memcpy_def)

text \<open>
  The first time offset section is stored and read back. A longer one afterwards is copied into the buffer of the first and
  runs over its end: the buffer is only replaced when the new section is shorter.
\<close>

theorem tot_overrun:
  assumes "m_totTable M = None" "mem_ok M (allocs M)" "unat n \<ge> 10" "unat n < unat n'" "unat n' \<le> length buf" "unat n \<le> length buf0"
  shows "\<exists>M'. parse_TOT env n buf0 M = Some M' \<and> get_TOT True M' = Some (Some (take (unat n) buf0)) \<and> parse_TOT env n' buf M' = None"
proof -
  let ?M = "M\<lparr>allocs := Suc (allocs M), m_totTable := Some (take (unat n) buf0), m_totTableSize := unat n\<rparr>"
  let ?M' = "snd (inb_NotifyTableChanged env TABLE_TYPE_TOT RMF_SI_CHANGE_TYPE_MODIFY 0 ?M)"
  have k: "m_totTable ?M' = Some (take (unat n) buf0)" "m_totTableSize ?M' = unat n"
    by (simp_all add: inb_NotifyTableChanged_def dispatch_event_def Let_def)
  have ge: "n \<ge> 10" "n' \<ge> 10" using assms(3,4) by (simp_all add: word_le_nat_alt)
  have "parse_TOT env n buf0 M = Some ?M'"
    using ge(1) assms(1,2,6) by (simp add: parse_TOT_def inb_alloc_def time_store_first)
  moreover have "get_TOT True ?M' = Some (Some (take (unat n) buf0))"
    using k assms(3,6) by (simp add: get_TOT_def time_copy_def memcpy_def)
  moreover have "time_store (Some (take (unat n) buf0)) (unat n) (unat n') ok buf = None" for ok
    using assms(4,6) by (simp add: time_store_def memcpy_def)
  then have "parse_TOT env n' buf ?M' = None"
    using ge(2) k by (simp add: parse_TOT_def inb_alloc_def)
  ultimately show ?thesis by blast
qed

theorem tot_overrun_witness:
  "\<exists>M'. parse_TOT inb_env_example 10 (replicate 4096 7) inb_example = Some M' \<and> parse_TOT inb_env_example 20 (replicate 4096 7) M' = None"
proof -
  have "m_totTable inb_example = None" "mem_ok inb_example (allocs inb_example)"
    by (simp_all add: inb_example_def RegisterForPSIEvents_def rmf_InbSiMgr_new_def inb_alloc_def)
  then show ?thesis using tot_overrun[of inb_example 10 20 "replicate 4096 7" "replicate 4096 7" inb_env_example] by auto
qed

end
