(* ===== verification/InbMonitor.thy ===== *)
theory InbMonitor
  imports InbCat
begin

text \<open>
  The thread of the inband manager and the calls by which clients ask for tables. One round of \<open>PsiMonitor\<close> is a function of the
  event it gets; what the section filter reads from the driver is an argument. \<open>handle_table\<close> is the one of the class itself, which handles nothing.
\<close>

section \<open>From the filter to the parsers\<close>

text \<open>The choice of the parser by the first byte. Errors of the parsers are not looked at.\<close>

definition dispatch_section ::
  "inb_env \<Rightarrow> 32 word \<Rightarrow> byte list \<Rightarrow> 32 word \<Rightarrow> rmf_InbSiMgr \<Rightarrow> rmf_InbSiMgr option" where
  "dispatch_section env sectionBufferSize sectionBuffer filterId M =
     do { t \<leftarrow> rd sectionBuffer 0;
          if t = PROGRAM_ASSOCIATION_TABLE_ID then map_option snd (parse_and_update_PAT env sectionBufferSize sectionBuffer M)
          else if t = PROGRAM_MAP_TABLE_ID then map_option snd (parse_and_update_PMT env sectionBufferSize sectionBuffer M)
          else if t = CONDITIONAL_ACCESS_TABLE_ID then map_option snd (parse_and_update_CAT env sectionBufferSize sectionBuffer M)
          else if t = TDT_TABLE_ID then parse_TDT env sectionBufferSize sectionBuffer M
          else if t = TOT_TABLE_ID then parse_TOT env sectionBufferSize sectionBuffer M
          else map_option snd (parse_and_update_section env sectionBufferSize sectionBuffer filterId M) }"

text \<open>
  What a round of the thread gets from outside: the section the driver hands over (None: the read fails), whether the
  table of outstanding sections can grow, and the old contents of the stack array.
\<close>

record psi_input =
  pi_read :: "rmf_Section_Data option"
  pi_node_alloc :: bool
  pi_stack :: "byte list"

definition release_section :: "32 word \<Rightarrow> rmf_InbSiMgr \<Rightarrow> rmf_InbSiMgr" where
  "release_section h M = M\<lparr>m_pInbSectionFilter := snd (ReleaseSection (m_pInbSectionFilter M) h)\<rparr>"

definition process_section_from_filter :: "inb_env \<Rightarrow> psi_input \<Rightarrow> 32 word \<Rightarrow> rmf_InbSiMgr \<Rightarrow> rmf_InbSiMgr option" where
  "process_section_from_filter env inp filterId M =
     (case GetSectionHandle (pi_node_alloc inp) (pi_read inp) (m_pInbSectionFilter M) filterId 0 of
        (retCode, handle, sf) \<Rightarrow>
          let M = M\<lparr>m_pInbSectionFilter := sf\<rparr>
          in if retCode \<noteq> RMF_SUCCESS then Some M
             else let sectionHandle = (case handle of None \<Rightarrow> 0 | Some h \<Rightarrow> h)
                  in do { (retCode, sectionBuffer, n, sf) \<leftarrow> ReadSection (m_pInbSectionFilter M) sectionHandle 0 4096 0 (pi_stack inp);
                          let M = M\<lparr>m_pInbSectionFilter := sf\<rparr>;
                          if retCode \<noteq> RMF_SUCCESS then Some (release_section sectionHandle M)
                          else do { M \<leftarrow> dispatch_section env (case n of None \<Rightarrow> 0 | Some n \<Rightarrow> n) sectionBuffer filterId M;
                                    Some (release_section sectionHandle M) } })"

section \<open>The thread\<close>

definition getOneShotMode :: "32 word \<Rightarrow> rmf_InbSiMgr \<Rightarrow> bool" where
  "getOneShotMode filterId M =
     (case List.find (\<lambda>f. fi_filterId f = filterId) (m_filter_list M) of None \<Rightarrow> False | Some f \<Rightarrow> fi_oneShotMode f)"

text \<open>
  A round gives whether the thread goes on, the filters it stops in the driver (one-shot filters; the answer is not looked at) and
  the manager. It ends on a failing queue and on the shutdown event.
\<close>

datatype psi_event =
    Psi_no_data
  | Psi_queue_error
  | Psi_section_found "32 word"
  | Psi_last_section_found "32 word"
  | Psi_shutdown
  | Psi_other

definition found_section :: "inb_env \<Rightarrow> psi_input \<Rightarrow> 32 word \<Rightarrow> rmf_InbSiMgr \<Rightarrow> (bool \<times> 32 word list \<times> rmf_InbSiMgr) option" where
  "found_section env inp filterId M =
     do { M \<leftarrow> process_section_from_filter env inp filterId M;
          Some (True, if getOneShotMode filterId M then [filterId] else [], M) }"

fun PsiMonitor_step :: "inb_env \<Rightarrow> psi_input \<Rightarrow> psi_event \<Rightarrow> rmf_InbSiMgr \<Rightarrow> (bool \<times> 32 word list \<times> rmf_InbSiMgr) option" where
  "PsiMonitor_step env inp Psi_no_data M =
     Some (True, [], if m_filter_list M \<noteq> [] then snd (dispatch_event env RMF_SI_EVENT_SI_NOT_AVAILABLE_YET 0 M) else M)"
| "PsiMonitor_step env inp Psi_queue_error M = Some (False, [], M)"
| "PsiMonitor_step env inp (Psi_section_found filterId) M = found_section env inp filterId M"
| "PsiMonitor_step env inp (Psi_last_section_found filterId) M =
     do { (go, stopped, M) \<leftarrow> found_section env inp filterId M; Some (go, stopped, M\<lparr>pat_cond := True\<rparr>) }"
| "PsiMonitor_step env inp Psi_shutdown M = Some (False, [], M)"
| "PsiMonitor_step env inp Psi_other M = Some (True, [], M)"

section \<open>Requests\<close>

definition RequestTsInfo :: "inb_env \<Rightarrow> rmf_InbSiMgr \<Rightarrow> (rmf_Error \<times> rmf_InbSiMgr) option" where
  "RequestTsInfo env M =
     do { let M = M\<lparr>m_bIsPATAvailable := False, num_sections := 0\<rparr>;
          (ret, M) \<leftarrow> set_filter env \<lparr>pp_table_type = TABLE_TYPE_PAT, pp_pid = 0, pp_table_id_extension = 0,
              pp_version_number = INIT_TABLE_VERSION, pp_priority = 40, pp_table_id = PROGRAM_ASSOCIATION_TABLE_ID\<rparr> M;
          Some (ret, M\<lparr>m_bIsPATFilterSet := ret = RMF_SUCCESS\<rparr>) }"

definition RequestTsCatInfo :: "inb_env \<Rightarrow> rmf_InbSiMgr \<Rightarrow> (rmf_Error \<times> rmf_InbSiMgr) option" where
  "RequestTsCatInfo env M =
     do { let M = M\<lparr>m_bIsCATAvailable := False, num_cat_sections := 0\<rparr>;
          (ret, M) \<leftarrow> set_filter env \<lparr>pp_table_type = TABLE_TYPE_CAT, pp_pid = CAT_PID, pp_table_id_extension = 0,
              pp_version_number = INIT_TABLE_VERSION, pp_priority = 10, pp_table_id = CONDITIONAL_ACCESS_TABLE_ID\<rparr> M;
          Some (ret, M\<lparr>m_bIsCATFilterSet := ret = RMF_SUCCESS\<rparr>) }"

definition RequestTsTDTInfo :: "inb_env \<Rightarrow> bool \<Rightarrow> rmf_InbSiMgr \<Rightarrow> (rmf_Error \<times> rmf_InbSiMgr) option" where
  "RequestTsTDTInfo env enable M =
     (if enable then
        set_filter env \<lparr>pp_table_type = TABLE_TYPE_TDT, pp_pid = TDT_TOT_PID, pp_table_id_extension = 0,
          pp_version_number = INIT_TABLE_VERSION, pp_priority = 9, pp_table_id = TDT_TABLE_ID OR TOT_TABLE_ID\<rparr> (M\<lparr>num_cat_sections := 0\<rparr>)
      else do { (_, M) \<leftarrow> release_first env (\<lambda>f. fi_pid f = TDT_TOT_PID) M; Some (RMF_SUCCESS, M) })"

text \<open>
  The wait for the PAT lets other threads run; \<open>wait\<close> is what they do to the manager. The priority is
  \<open>RMF_PSI_WAIT_INITIAL_PRIMARY_PMT\<close>, a state and not a priority: 2.
\<close>

definition pmt_param :: "16 word \<Rightarrow> 16 word \<Rightarrow> rmf_PsiParam" where
  "pmt_param program_number pid = \<lparr>pp_table_type = TABLE_TYPE_PMT, pp_pid = pid, pp_table_id_extension = program_number,
     pp_version_number = INIT_TABLE_VERSION, pp_priority = 2, pp_table_id = PROGRAM_MAP_TABLE_ID\<rparr>"

definition RequestProgramInfo ::
  "inb_env \<Rightarrow> (rmf_InbSiMgr \<Rightarrow> rmf_InbSiMgr option) \<Rightarrow> 16 word \<Rightarrow> rmf_InbSiMgr \<Rightarrow> (rmf_Error \<times> rmf_InbSiMgr) option" where
  "RequestProgramInfo env wait program_number M =
     do { M \<leftarrow> (if \<not> m_bIsPATAvailable M \<and> \<not> m_bIsPATFilterSet M then map_option snd (RequestTsInfo env M) else Some M);
          M \<leftarrow> (if \<not> m_bIsPATAvailable M then wait M else Some M);
          if \<not> m_bIsPATAvailable M then Some (RMF_INBSI_PAT_NOT_AVAILABLE, M)
          else do {
            (ret, pid) \<leftarrow> get_pmtpid_for_program program_number M;
            case pid of
              None \<Rightarrow> Some (RMF_INBSI_INVALID_PARAMETER, M)
            | Some p \<Rightarrow> set_filter env (pmt_param program_number p) (M\<lparr>pmtPid := p\<rparr>) } }"

record rmf_FilterParam =
  par_pos_value :: "byte list"
  par_pos_mask :: "byte list"
  par_pos_size :: "32 word"
  par_neg_value :: "byte list"
  par_neg_mask :: "byte list"
  par_neg_size :: "32 word"
  par_one_shot :: bool

text \<open>
  With length 0 the two pointers of a component are not assigned, and still freed at the end: \<open>nulls\<close> says whether the
  stack happens to hold null pointers there. Freeing anything else is undefined.
\<close>

definition filter_component :: "bool \<Rightarrow> byte list \<Rightarrow> byte list \<Rightarrow> 32 word \<Rightarrow> rmf_FilterComponent option" where
  "filter_component nulls vals msk len =
     (if len \<noteq> 0 then
        do { v \<leftarrow> memcpy (replicate (unat len) 0) vals 0 (unat len); m \<leftarrow> memcpy (replicate (unat len) 0) msk 0 (unat len);
             Some \<lparr>fc_length = len, fc_mask = Some m, fc_vals = Some v\<rparr> }
      else if nulls then Some \<lparr>fc_length = 0, fc_mask = None, fc_vals = None\<rparr> else None)"

text \<open>\<open>std::map::insert\<close> leaves an existing entry alone.\<close>

fun map_insert :: "32 word \<Rightarrow> 'a \<Rightarrow> (32 word \<times> 'a) list \<Rightarrow> (32 word \<times> 'a) list" where
  "map_insert k v [] = [(k, v)]"
| "map_insert k v ((i, x) # l) = (if k < i then (k, v) # (i, x) # l else if k = i then (i, x) # l else (i, x) # map_insert k v l)"

definition new_section_filter :: "16 word \<Rightarrow> byte list \<Rightarrow> SectionFilterInfo" where
  "new_section_filter pid data = \<lparr>sfi_pid = pid, sfi_data = data, sfi_data_length = 0, sfi_getNewECM = True, sfi_newEcmData = False\<rparr>"

definition setFilter ::
  "inb_env \<Rightarrow> bool \<Rightarrow> byte list \<Rightarrow> 16 word \<Rightarrow> rmf_FilterParam \<Rightarrow> rmf_InbSiMgr \<Rightarrow> (rmf_Error \<times> rmf_InbSiMgr) option" where
  "setFilter env nulls data pid param M =
     do { pos \<leftarrow> filter_component nulls (par_pos_value param) (par_pos_mask param) (par_pos_size param);
          neg \<leftarrow> filter_component nulls (par_neg_value param) (par_neg_mask param) (par_neg_size param);
          (ret, uid, M) \<leftarrow> inb_SetFilter env \<lparr>fs_pos = pos, fs_neg = neg\<rparr> 10 M;
          if ret = RMF_SUCCESS then
            if \<not> inb_info_alloc env then Some (RMF_INBSI_OUT_OF_MEM, M)
            else let filterId = (case uid of None \<Rightarrow> 0 | Some i \<Rightarrow> i)
                 in Some (ret, M\<lparr>m_filter_list := m_filter_list M @
                        [\<lparr>fi_program_number = 0, fi_pid = pid, fi_filterId = filterId, fi_oneShotMode = par_one_shot param\<rparr>],
                      m_section_filter_list := map_insert filterId (new_section_filter pid data) (m_section_filter_list M)\<rparr>)
          else Some (ret, M) }"

definition TuneInitiated :: "inb_env \<Rightarrow> 32 word \<Rightarrow> byte \<Rightarrow> rmf_InbSiMgr \<Rightarrow> rmf_InbSiMgr option" where
  "TuneInitiated env new_freq new_mode M = cancel_all_filters env (M\<lparr>m_freq := new_freq, m_modulation_mode := new_mode\<rparr>)"

definition ClearProgramInfo :: "inb_env \<Rightarrow> 16 word \<Rightarrow> rmf_InbSiMgr \<Rightarrow> (rmf_Error \<times> rmf_InbSiMgr) option" where
  "ClearProgramInfo env program_number M =
     do { (found, M) \<leftarrow> release_first env (\<lambda>f. fi_program_number f = program_number) M;
          Some (if found = None then RMF_INBSI_NOT_FOUND else RMF_SUCCESS, M\<lparr>pmtVersionNumber := INIT_TABLE_VERSION\<rparr>) }"

section \<open>Pausing\<close>

text \<open>The result codes of the driver as numbers.\<close>

fun sectflt_code :: "RMF_SECTFLT_RESULT \<Rightarrow> rmf_Error" where
  "sectflt_code RMF_SECTFLT_Success = 0x200"
| "sectflt_code RMF_SECTFLT_Error = 0x201"
| "sectflt_code RMF_SECTFLT_NotReady = 0x202"
| "sectflt_code RMF_SECTFLT_NotStarted = 0x203"
| "sectflt_code RMF_SECTFLT_OutMem = 0x204"
| "sectflt_code RMF_SECTFLT_NoFilterRes = 0x205"
| "sectflt_code RMF_SECTFLT_InvalidParams = 0x206"

definition filter_result :: "RMF_SECTFLT_RESULT \<Rightarrow> rmf_Error \<Rightarrow> rmf_Error" where
  "filter_result result ret = (if result \<noteq> RMF_SECTFLT_Success then sectflt_code result else ret)"

fun drive_filters :: "(32 word \<Rightarrow> RMF_SECTFLT_RESULT) \<Rightarrow> rmf_FilterInfo list \<Rightarrow> rmf_Error \<Rightarrow> rmf_Error" where
  "drive_filters call [] ret = ret"
| "drive_filters call (f # filters) ret = drive_filters call filters (filter_result (call (fi_filterId f)) ret)"

text \<open>\<open>isPaused\<close> is set inside the loop: without filters the manager is not paused.\<close>

definition pause :: "(32 word \<Rightarrow> RMF_SECTFLT_RESULT) \<Rightarrow> rmf_InbSiMgr \<Rightarrow> rmf_Error \<times> rmf_InbSiMgr" where
  "pause stop M =
     (if \<not> isPaused M then (drive_filters stop (m_filter_list M) RMF_SUCCESS, M\<lparr>isPaused := m_filter_list M \<noteq> []\<rparr>)
      else (RMF_SUCCESS, M))"

definition resume :: "(32 word \<Rightarrow> RMF_SECTFLT_RESULT) \<Rightarrow> rmf_InbSiMgr \<Rightarrow> rmf_Error \<times> rmf_InbSiMgr" where
  "resume start M =
     (if isPaused M then (drive_filters start (m_filter_list M) RMF_SUCCESS, M\<lparr>isPaused := False\<rparr>) else (RMF_SUCCESS, M))"

definition pauseFilter :: "(32 word \<Rightarrow> RMF_SECTFLT_RESULT) \<Rightarrow> 32 word \<Rightarrow> rmf_Error" where
  "pauseFilter stop filterId = filter_result (stop filterId) RMF_SUCCESS"

definition resumeFilter :: "(32 word \<Rightarrow> RMF_SECTFLT_RESULT) \<Rightarrow> 32 word \<Rightarrow> rmf_Error" where
  "resumeFilter start filterId = filter_result (start filterId) RMF_SUCCESS"

end
