(* ===== verification/InbInv.thy ===== *)
theory InbInv
  imports InbMonitor SectionFrames
begin

text \<open>
  The well-formedness of the inband manager: arrays have the sizes the code assumes, counters agree with the lists they count, every
  descriptor owns the bytes it announces, and outside a round of the thread no section is outstanding. Every operation keeps it.
\<close>

section \<open>Well-formed managers\<close>

definition desc_wf :: "rmf_SiMpeg2Descriptor \<Rightarrow> bool" where
  "desc_wf d \<longleftrightarrow> length (descriptor_content d) = unat (descriptor_length d)"

definition stream_wf :: "rmf_SiElementaryStream \<Rightarrow> bool" where
  "stream_wf es \<longleftrightarrow> number_desc es = word_of_nat (length (descriptors es)) \<and> length (associated_language es) = 4 \<and>
     list_all desc_wf (descriptors es)"

definition pat_wf :: "rmf_InbSiMgr \<Rightarrow> bool" where
  "pat_wf M \<longleftrightarrow> (\<exists>l. m_pmtInfoList M = Some l \<and> length l = m_pmtListMaxSize M) \<and> m_pmtListLen M \<le> m_pmtListMaxSize M \<and>
     length (patBuf M) = RMF_SI_SECTION_MAX_SIZE"

definition pmt_wf :: "rmf_InbSiMgr \<Rightarrow> bool" where
  "pmt_wf M \<longleftrightarrow> number_outer_desc M = word_of_nat (length (outer_descriptors M)) \<and> list_all desc_wf (outer_descriptors M) \<and>
     number_elem_streams M = word_of_nat (length (elementary_streams M)) \<and> list_all stream_wf (elementary_streams M) \<and>
     length (pmtBuf M) = RMF_SI_PMT_MAX_SIZE"

definition cat_wf :: "rmf_InbSiMgr \<Rightarrow> bool" where
  "cat_wf M \<longleftrightarrow> (m_catTable M = None \<longrightarrow> m_catTableSize M = 0) \<and> (\<forall>l. m_catTable M = Some l \<longrightarrow> unat (m_catTableSize M) \<le> length l) \<and>
     m_total_descriptor_length M = m_catTableSize M \<and> length (catBuf M) = RMF_SI_SECTION_MAX_SIZE"

definition time_wf :: "rmf_InbSiMgr \<Rightarrow> bool" where
  "time_wf M \<longleftrightarrow> (m_tdtTable M = None \<longrightarrow> m_tdtTableSize M = 0) \<and>
     (\<forall>t. m_tdtTable M = Some t \<longrightarrow> length t = 8 \<and> m_tdtTableSize M = 8) \<and>
     (\<forall>t. m_totTable M = Some t \<longrightarrow> m_totTableSize M \<le> length t)"

definition section_filter_wf :: "SectionFilterInfo \<Rightarrow> bool" where
  "section_filter_wf f \<longleftrightarrow> length (sfi_data f) = RMF_SI_SECTION_MAX_SIZE \<and> unat (sfi_data_length f) \<le> RMF_SI_SECTION_MAX_SIZE"

definition filters_wf :: "rmf_InbSiMgr \<Rightarrow> bool" where
  "filters_wf M \<longleftrightarrow> list_all (section_filter_wf \<circ> snd) (m_section_filter_list M) \<and> sorted_wrt (<) (map fst (m_section_filter_list M))"

text \<open>\<open>I\<close> bounds the ids of the filters in use and \<open>X\<close> are the outstanding sections.\<close>

definition psi_inv :: "32 word set \<Rightarrow> (32 word, rmf_Section_Data) rmf_SymbolMapTable \<Rightarrow> rmf_InbSiMgr \<Rightarrow> bool" where
  "psi_inv I X M \<longleftrightarrow> pat_wf M \<and> pmt_wf M \<and> cat_wf M \<and> time_wf M \<and> filters_wf M \<and>
     requests_wf (m_pInbSectionFilter M) \<and> filter_ids (m_sectionRequests (m_pInbSectionFilter M)) \<subseteq> I \<and>
     m_outstandingSections (m_pInbSectionFilter M) = X"

lemmas psi_wf_defs = psi_inv_def pat_wf_def pmt_wf_def cat_wf_def time_wf_def filters_wf_def

text \<open>\<open>pred_option Q r\<close>: if the call returns, its result satisfies \<open>Q\<close>.\<close>

lemma pred_option_bind [simp]: "pred_option Q (Option.bind r f) \<longleftrightarrow> pred_option (\<lambda>x. pred_option Q (f x)) r"
  by (cases r) simp_all

lemma pred_option_map [simp]: "pred_option Q (map_option f r) \<longleftrightarrow> pred_option (\<lambda>x. Q (f x)) r"
  by (cases r) simp_all

lemma pred_option_mono: "pred_option P r \<Longrightarrow> (\<And>x. P x \<Longrightarrow> Q x) \<Longrightarrow> pred_option Q r"
  by (cases r) simp_all

lemma pred_option_wp: "wp Q r \<Longrightarrow> pred_option Q r"
  by (auto elim: wpE)

lemma pred_option_memcpy: "(\<And>d. length d = length dst \<Longrightarrow> Q d) \<Longrightarrow> pred_option Q (memcpy dst src off n)"
  by (auto simp: memcpy_def)

lemma pred_option_rd: "(\<And>v. Q v) \<Longrightarrow> pred_option Q (rd buf i)"
  by (auto simp: rd_def)

section \<open>Operations that touch one part\<close>

named_theorems inv_simps \<open>assignments to fields the invariant does not mention\<close>

lemma psi_inv_upd [inv_simps]:
  "psi_inv I X (M\<lparr>psi_events := es\<rparr>) = psi_inv I X M" "psi_inv I X (M\<lparr>filter_events := fs\<rparr>) = psi_inv I X M"
  "psi_inv I X (M\<lparr>allocs := a\<rparr>) = psi_inv I X M" "psi_inv I X (M\<lparr>num_sections := w\<rparr>) = psi_inv I X M"
  "psi_inv I X (M\<lparr>num_cat_sections := w\<rparr>) = psi_inv I X M" "psi_inv I X (M\<lparr>pat_cond := b\<rparr>) = psi_inv I X M"
  "psi_inv I X (M\<lparr>cat_cond := b\<rparr>) = psi_inv I X M" "psi_inv I X (M\<lparr>m_bIsPATAvailable := b\<rparr>) = psi_inv I X M"
  "psi_inv I X (M\<lparr>m_bIsCATAvailable := b\<rparr>) = psi_inv I X M" "psi_inv I X (M\<lparr>m_bIsPATFilterSet := b\<rparr>) = psi_inv I X M"
  "psi_inv I X (M\<lparr>m_bIsCATFilterSet := b\<rparr>) = psi_inv I X M" "psi_inv I X (M\<lparr>patVersionNumber := v\<rparr>) = psi_inv I X M"
  "psi_inv I X (M\<lparr>pmtVersionNumber := v\<rparr>) = psi_inv I X M" "psi_inv I X (M\<lparr>catVersionNumber := v\<rparr>) = psi_inv I X M"
  "psi_inv I X (M\<lparr>patCRC := w\<rparr>) = psi_inv I X M" "psi_inv I X (M\<lparr>pmtCRC := w\<rparr>) = psi_inv I X M"
  "psi_inv I X (M\<lparr>catCRC := w\<rparr>) = psi_inv I X M" "psi_inv I X (M\<lparr>pcrPid := v\<rparr>) = psi_inv I X M"
  "psi_inv I X (M\<lparr>pmtPid := v\<rparr>) = psi_inv I X M" "psi_inv I X (M\<lparr>ts_id := v\<rparr>) = psi_inv I X M"
  "psi_inv I X (M\<lparr>m_filter_list := l\<rparr>) = psi_inv I X M" "psi_inv I X (M\<lparr>isPaused := b\<rparr>) = psi_inv I X M"
  "psi_inv I X (M\<lparr>descriptors_in_use := b\<rparr>) = psi_inv I X M" "psi_inv I X (M\<lparr>g_inbsi_registration_list := rs\<rparr>) = psi_inv I X M"
  "psi_inv I X (M\<lparr>m_freq := w\<rparr>) = psi_inv I X M" "psi_inv I X (M\<lparr>m_modulation_mode := b8\<rparr>) = psi_inv I X M"
  "psi_inv I X (M\<lparr>patBufLen := w\<rparr>) = psi_inv I X M" "psi_inv I X (M\<lparr>pmtBufLen := w\<rparr>) = psi_inv I X M"
  "psi_inv I X (M\<lparr>catBufLen := w\<rparr>) = psi_inv I X M"
  by (simp_all add: psi_wf_defs)

lemma psi_inv_alloc [inv_simps]: "psi_inv I X (snd (inb_alloc M)) = psi_inv I X M"
  by (simp add: inb_alloc_def inv_simps)

lemma psi_inv_dispatch [inv_simps]: "psi_inv I X (snd (dispatch_event env e d M)) = psi_inv I X M"
  by (simp add: dispatch_event_def inv_simps)

lemma psi_inv_notify [inv_simps]: "psi_inv I X (snd (inb_NotifyTableChanged env t c d M)) = psi_inv I X M"
  by (simp add: inb_NotifyTableChanged_def inv_simps Let_def)

lemma psi_inv_notifySIDB [inv_simps]: "psi_inv I X (notifySIDB env t a b c M) = psi_inv I X M"
  by (simp add: notifySIDB_def inv_simps)

lemma psi_inv_mono: "psi_inv I X M \<Longrightarrow> I \<subseteq> J \<Longrightarrow> psi_inv J X M"
  by (auto simp: psi_inv_def)

section \<open>Filters\<close>

text \<open>What is asked of the driver during a step: it answers, and with ids that are not in use; and the queue of a new filter is there.\<close>

definition inb_env_ok :: "inb_env \<Rightarrow> 32 word set \<Rightarrow> bool" where
  "inb_env_ok env I \<longleftrightarrow> filter_env_ok (inb_filter env) \<and> new_ids (inb_filter env) \<inter> I = {}"

abbreviation with_new :: "inb_env \<Rightarrow> 32 word set \<Rightarrow> 32 word set" where
  "with_new env I \<equiv> I \<union> new_ids (inb_filter env)"

lemma psi_inv_sf:
  assumes "psi_inv I X M" "requests_wf sf" "filter_ids (m_sectionRequests sf) \<subseteq> J" "m_outstandingSections sf = Y"
  shows "psi_inv J Y (M\<lparr>m_pInbSectionFilter := sf, filter_events := fs\<rparr>)"
  using assms by (simp add: psi_wf_defs)

lemma wp_inb_SetFilter:
  assumes "psi_inv I X M" "inb_env_ok env I" "\<And>ret uid M'. psi_inv (with_new env I) X M' \<Longrightarrow>
      m_section_filter_list M' = m_section_filter_list M \<Longrightarrow> Q (ret, uid, M')"
  shows "wp Q (inb_SetFilter env spec prio M)"
proof -
  have s: "requests_wf (m_pInbSectionFilter M)" "filter_env_ok (inb_filter env)"
      "new_ids (inb_filter env) \<inter> filter_ids (m_sectionRequests (m_pInbSectionFilter M)) = {}"
    using assms(1,2) by (auto simp: psi_inv_def inb_env_ok_def)
  show ?thesis
    unfolding inb_SetFilter_def Let_def wp_simps
  proof (rule wp_SetFilter[OF s], clarsimp)
    fix err uid posted sf'
    assume f: "requests_wf sf'" "m_outstandingSections sf' = m_outstandingSections (m_pInbSectionFilter M)"
      "filter_ids (m_sectionRequests sf') \<subseteq> filter_ids (m_sectionRequests (m_pInbSectionFilter M)) \<union> new_ids (inb_filter env)"
    then have "psi_inv (with_new env I) X (M\<lparr>m_pInbSectionFilter := sf', filter_events := filter_events M @ posted\<rparr>)"
      using assms(1) by (intro psi_inv_sf[OF assms(1)]) (auto simp: psi_inv_def)
    then show "Q (err, uid, M\<lparr>m_pInbSectionFilter := sf', filter_events := filter_events M @ posted\<rparr>)" by (rule assms(3)) simp
  qed
qed

lemma wp_inb_ReleaseFilter:
  assumes "psi_inv I X M" "\<And>M'. psi_inv I X M' \<Longrightarrow> Q M'"
  shows "wp Q (inb_ReleaseFilter env i M)"
proof -
  have s: "requests_wf (m_pInbSectionFilter M)" using assms(1) by (simp add: psi_inv_def)
  show ?thesis
    unfolding inb_ReleaseFilter_def wp_simps
  proof (rule wp_ReleaseFilter[OF s], clarsimp)
    fix posted sf'
    assume "requests_wf sf'" "m_outstandingSections sf' = m_outstandingSections (m_pInbSectionFilter M)"
      "filter_ids (m_sectionRequests sf') \<subseteq> filter_ids (m_sectionRequests (m_pInbSectionFilter M))"
    then show "Q (M\<lparr>m_pInbSectionFilter := sf', filter_events := filter_events M @ posted\<rparr>)"
      using assms(1) by (intro assms(2) psi_inv_sf[OF assms(1)]) (auto simp: psi_inv_def)
  qed
qed

lemma wp_set_filter:
  assumes "psi_inv I X M" "inb_env_ok env I" "\<And>ret M'. psi_inv (with_new env I) X M' \<Longrightarrow> Q (ret, M')"
  shows "wp Q (set_filter env param M)"
  unfolding set_filter_def wp_simps
  by (rule wp_inb_SetFilter[OF assms(1,2)]) (auto simp: inv_simps intro!: assms(3))

lemma wp_release_first:
  assumes "psi_inv I X M" "\<And>f M'. psi_inv I X M' \<Longrightarrow> Q (f, M')"
  shows "wp Q (release_first env P M)"
  unfolding release_first_def
  by (cases "List.find P (m_filter_list M)")
    (use assms in \<open>auto simp: inv_simps intro!: wp_inb_ReleaseFilter\<close>)

lemma wp_cancel_loop: "psi_inv I X M \<Longrightarrow> (\<And>M'. psi_inv I X M' \<Longrightarrow> Q M') \<Longrightarrow> wp Q (cancel_loop env fs M)"
  by (induction fs arbitrary: M) (auto intro!: wp_inb_ReleaseFilter)

lemma wp_cancel_all_filters:
  assumes "psi_inv I X M" "\<And>M'. psi_inv I X M' \<Longrightarrow> Q M'"
  shows "wp Q (cancel_all_filters env M)"
  unfolding cancel_all_filters_def wp_simps
  by (rule wp_cancel_loop[OF assms(1)]) (simp add: inv_simps assms(2))

lemma wp_configure_negative_filters:
  assumes "psi_inv I X M" "inb_env_ok env I" "\<And>M'. psi_inv (with_new env I) X M' \<Longrightarrow> Q M'"
  shows "wp Q (configure_negative_filters env t M)"
proof -
  have Q: "Q M'" if "psi_inv I X M'" for M' by (rule assms(3)) (rule psi_inv_mono[OF that], simp)
  show ?thesis
    unfolding configure_negative_filters_def Let_def
    by (auto split: rmf_psi_table_type_e.split option.split simp: Q assms(1)
        intro!: wp_release_first[OF assms(1)] wp_set_filter[OF _ assms(2)] assms(3))
qed

section \<open>The parsers\<close>

lemma pred_option_all: "(\<And>x. Q x) \<Longrightarrow> pred_option Q r"
  by (cases r) simp_all

text \<open>A call whose result is not looked at beyond its being there.\<close>

lemma pat_parse_inv: "psi_inv I X M \<Longrightarrow> pred_option (\<lambda>(r, M'). psi_inv I X M') (pat_parse info n buf M)"
  unfolding pat_parse_def
  by (auto simp: inv_simps Let_def split: sum.split intro!: pred_option_all)

lemma psi_inv_pat:
  assumes "psi_inv I X M" "length l = m" "k \<le> m"
  shows "psi_inv I X (M\<lparr>m_pmtInfoList := Some l, m_pmtListLen := k, m_pmtListMaxSize := m\<rparr>)"
  using assms by (simp add: psi_wf_defs)

lemma pat_store_inv:
  assumes "psi_inv I X M"
  shows "pred_option (\<lambda>(r, M'). psi_inv I X M') (pat_store t M)"
proof -
  let ?n = "unat (pt_number_of_PMTs t)"
  obtain l where l: "m_pmtInfoList M = Some l" "length l = m_pmtListMaxSize M" "m_pmtListLen M \<le> m_pmtListMaxSize M"
    using assms by (auto simp: psi_wf_defs)
  show ?thesis
  proof (cases "?n > m_pmtListMaxSize M")
    case True
    have "psi_inv I X ((M\<lparr>allocs := Suc (allocs M), m_pmtInfoList := realloc_list ?n (Some l), m_pmtListMaxSize := ?n\<rparr>)
        \<lparr>m_pmtInfoList := Some l', m_pmtListLen := ?n, ts_id := v\<rparr>)" if "length l' = ?n" for l' v
      using assms that by (simp add: psi_wf_defs)
    with True l assms show ?thesis
      by (auto simp: pat_store_def inb_alloc_def realloc_list_def inv_simps Let_def intro!: pred_option_memcpy)
  next
    case False
    have "psi_inv I X (M\<lparr>m_pmtInfoList := Some l', m_pmtListLen := ?n, ts_id := v\<rparr>)" if "length l' = length l" for l' v
      using assms that False l by (simp add: psi_wf_defs)
    with False l show ?thesis by (auto simp: pat_store_def Let_def intro!: pred_option_memcpy)
  qed
qed

lemma keep_inv:
  assumes "psi_inv I X M"
  shows "pred_option (psi_inv I X) (keep_pat n buf M)" "pred_option (psi_inv I X) (keep_pmt n buf M)" "pred_option (psi_inv I X) (keep_cat n buf M)"
proof -
  have "psi_inv I X (M\<lparr>patBuf := b, patBufLen := n\<rparr>)" if "length b = length (patBuf M)" for b using assms that by (simp add: psi_wf_defs)
  then show "pred_option (psi_inv I X) (keep_pat n buf M)" using assms by (auto simp: keep_pat_def intro!: pred_option_memcpy)
  have "psi_inv I X (M\<lparr>pmtBuf := b, pmtBufLen := n\<rparr>)" if "length b = length (pmtBuf M)" for b using assms that by (simp add: psi_wf_defs)
  then show "pred_option (psi_inv I X) (keep_pmt n buf M)" using assms by (auto simp: keep_pmt_def intro!: pred_option_memcpy)
  have "psi_inv I X (M\<lparr>catBuf := b, catBufLen := n\<rparr>)" if "length b = length (catBuf M)" for b using assms that by (simp add: psi_wf_defs)
  then show "pred_option (psi_inv I X) (keep_cat n buf M)" using assms by (auto simp: keep_cat_def intro!: pred_option_memcpy)
qed

lemma negative_inv:
  assumes "psi_inv I X M" "inb_env_ok env I"
  shows "pred_option (psi_inv (with_new env I) X) (if b then configure_negative_filters env t M else Some M)"
  using assms psi_inv_mono[OF assms(1)]
  by (auto intro!: pred_option_wp wp_configure_negative_filters)

lemma psi_inv_available [inv_simps]:
  "psi_inv I X (pat_available M) = psi_inv I X M" "psi_inv I X (cat_available M) = psi_inv I X M"
  by (simp_all add: pat_available_def cat_available_def inv_simps)

lemma pat_changed_inv:
  assumes "psi_inv I X M" "inb_env_ok env I"
  shows "pred_option (psi_inv (with_new env I) X) (pat_changed env t M)"
  using assms psi_inv_mono[OF assms(1), of "with_new env I"] unfolding pat_changed_def Let_def
  by (auto simp: inv_simps intro!: pred_option_wp wp_configure_negative_filters)

text \<open>The same facts, with the result as a variable.\<close>

lemma pred_SomeD: "pred_option Q r \<Longrightarrow> r = Some x \<Longrightarrow> Q x"
  by simp

lemma keeps:
  assumes "psi_inv I X M"
  shows "pat_parse info n buf M = Some (r, M') \<Longrightarrow> psi_inv I X M'"
    and "pat_store t M = Some (ret, M') \<Longrightarrow> psi_inv I X M'"
    and "keep_pat n buf M = Some M' \<Longrightarrow> psi_inv I X M'"
    and "keep_pmt n buf M = Some M' \<Longrightarrow> psi_inv I X M'"
    and "keep_cat n buf M = Some M' \<Longrightarrow> psi_inv I X M'"
  using pred_SomeD[OF pat_parse_inv[OF assms]] pred_SomeD[OF pat_store_inv[OF assms]] keep_inv[OF assms, THEN pred_SomeD] by fastforce+

lemma grows:
  assumes "psi_inv I X M" "inb_env_ok env I"
  shows "configure_negative_filters env tt M = Some M' \<Longrightarrow> psi_inv (with_new env I) X M'"
    and "pat_changed env t M = Some M' \<Longrightarrow> psi_inv (with_new env I) X M'"
  using pred_SomeD[OF negative_inv[OF assms, of True]] pred_SomeD[OF pat_changed_inv[OF assms]] by auto

lemma parse_and_update_PAT_inv:
  assumes "psi_inv I X M" "inb_env_ok env I" "parse_and_update_PAT env n buf M = Some (r, M')"
  shows "psi_inv (with_new env I) X M'"
proof -
  have mono: "psi_inv (with_new env I) X N" if "psi_inv I X N" for N using psi_inv_mono[OF that] by simp
  obtain p N where p: "pat_parse (pmtInfo_stack env) n buf M = Some (p, N)"
    using assms(3) by (auto simp: parse_and_update_PAT_def bind_eq_Some_conv)
  then have N: "psi_inv I X (N\<lparr>num_sections := num_sections N - 1\<rparr>)" "psi_inv I X N"
    using keeps(1)[OF assms(1)] by (auto simp: inv_simps)
  have avail: "psi_inv (with_new env I) X (pat_available (N\<lparr>num_sections := num_sections N - 1\<rparr>))" using N by (simp add: inv_simps mono)
  have store: "psi_inv (with_new env I) X M''" if "pat_store t (N\<lparr>num_sections := num_sections N - 1\<rparr>) = Some (ret, N')"
    "pat_changed env t N' = Some N''" "keep_pat n buf N'' = Some M''" for t ret N' N'' M''
    using keeps(3)[OF grows(2)[OF keeps(2)[OF N(1) that(1)] assms(2) that(2)] that(3)] .
  show ?thesis using assms(3) p store mono[OF N(2)] mono[OF keeps(2)[OF N(1)]] keeps(3)[OF avail]
    keeps(3)[OF mono[OF N(1)]] N
    by (auto simp: parse_and_update_PAT_def bind_eq_Some_conv Let_def inv_simps split: sum.splits if_splits)
qed

section \<open>Program map table\<close>

lemma alloc_inv: "inb_alloc M = (ok, M') \<Longrightarrow> psi_inv I X M \<Longrightarrow> psi_inv I X M'"
  using psi_inv_alloc[of I X M] by simp

lemma new_descriptor_inv:
  assumes "new_descriptor t len buf p M = Some (d, M')" "psi_inv I X M"
  shows "psi_inv I X M' \<and> pred_option desc_wf d"
  using assms
  by (auto simp: new_descriptor_def word_gt_0 bind_eq_Some_conv Let_def desc_wf_def memcpy_def split: if_splits prod.splits dest!: alloc_inv
      intro: alloc_inv)

lemma put_stream_inv:
  assumes "psi_inv I X M" "\<And>es. stream_wf es \<Longrightarrow> stream_wf (f es)"
  shows "psi_inv I X (put_stream i f M)"
proof -
  have "list_all stream_wf (elementary_streams M)" using assms(1) by (simp add: psi_wf_defs)
  then have "list_all stream_wf ((elementary_streams M)[i := f (elementary_streams M ! i)])"
    using assms(2) by (cases "i < length (elementary_streams M)") (auto simp: list_all_length nth_list_update)
  with assms(1) show ?thesis by (simp add: put_stream_def psi_wf_defs)
qed

lemma SetOuterDescriptor_inv:
  assumes "SetOuterDescriptor t len buf p M = Some (r, M')" "psi_inv I X M"
  shows "psi_inv I X M'"
  using assms
  by (auto simp: SetOuterDescriptor_def bind_eq_Some_conv split: option.splits dest!: new_descriptor_inv)
    (auto simp: psi_wf_defs)

lemma SetElementaryStream_inv:
  assumes "psi_inv I X M"
  shows "psi_inv I X (snd (SetElementaryStream ty pid M))"
proof -
  have "psi_inv I X (snd (inb_alloc M))" using assms by (simp add: inv_simps)
  then show ?thesis using assms
    by (auto simp: SetElementaryStream_def append_elementaryStream_def split_def Let_def psi_wf_defs stream_wf_def)
qed

lemma SetESInfoLength_inv: "psi_inv I X M \<Longrightarrow> psi_inv I X (SetESInfoLength pid ty len M)"
  by (auto simp: SetESInfoLength_def stream_wf_def split: option.split intro!: put_stream_inv)

lemma mss_strings_inv: "mss_strings buf n p names M = Some (ok, names', M') \<Longrightarrow> psi_inv I X M \<Longrightarrow> psi_inv I X M'"
proof (induction n arbitrary: p names M)
  case (Suc n)
  obtain ok1 M1 where a1: "inb_alloc M = (ok1, M1)" by fastforce
  obtain ok2 M2 where a2: "inb_alloc M1 = (ok2, M2)" by fastforce
  have i: "psi_inv I X M1" "psi_inv I X M2" using alloc_inv[OF a1 Suc.prems(2)] alloc_inv[OF a2] by auto
  from Suc.prems i Suc.IH[OF _ i(2)] Suc.IH[OF _ Suc.prems(2)] show ?case
    by (simp add: bind_eq_Some_conv a1 a2 split: if_splits) blast+
qed simp

lemma describe_stream_inv: "describe_stream i t len buf p M = Some (ok, M') \<Longrightarrow> psi_inv I X M \<Longrightarrow> psi_inv I X M'"
  by (auto simp: describe_stream_def bind_eq_Some_conv stream_wf_def memcpy_def split: if_splits intro!: put_stream_inv dest: mss_strings_inv)

lemma SetDescriptor_inv:
  assumes "SetDescriptor pid ty t len buf p M = Some (r, M')" "psi_inv I X M"
  shows "psi_inv I X M'"
  using assms
  by (auto simp: SetDescriptor_def bind_eq_Some_conv stream_wf_def split: option.splits if_splits
      intro!: put_stream_inv dest!: describe_stream_inv new_descriptor_inv)

lemma outer_loop_inv: "outer_loop buf p len M = Some M' \<Longrightarrow> psi_inv I X M \<Longrightarrow> psi_inv I X M'"
proof (induction buf p len M rule: outer_loop.induct)
  case (1 buf p len M)
  from 1(2,3) show ?case
    by (subst (asm) outer_loop.simps) (auto simp: bind_eq_Some_conv split: if_splits dest: SetOuterDescriptor_inv 1(1))
qed

lemma es_n2_inv: "es_n2 buf pid ty p sl es M = Some (p', sl', M') \<Longrightarrow> psi_inv I X M \<Longrightarrow> psi_inv I X M'"
proof (induction buf pid ty p sl es M rule: es_n2.induct)
  case (1 buf pid ty p sl es M)
  from 1(2,3) show ?case
    by (subst (asm) es_n2.simps)
      (auto simp: bind_eq_Some_conv Let_def split: if_splits dest: SetDescriptor_inv 1(1)[OF _ _ _ refl refl _ _ refl refl refl])
qed

lemma es_n1_inv: "es_n1 buf p sl M = Some M' \<Longrightarrow> psi_inv I X M \<Longrightarrow> psi_inv I X M'"
proof (induction buf p sl M rule: es_n1.induct)
  case (1 buf p sl M)
  show ?case
  proof (cases "sl - 4 \<ge> 5")
    case True
    with 1(2) obtain ty pid es p2 sl2 M2 where h: "es_header buf p = Some (ty, pid, es)"
      and n2: "es_n2 buf (ucast pid) ty (p + 5) (sl - 5) es
        (SetESInfoLength (ucast pid) ty es (snd (SetElementaryStream ty (ucast pid) M))) = Some (p2, sl2, M2)"
      and n1: "es_n1 buf p2 sl2 M2 = Some M'"
      by (subst (asm) es_n1.simps) (auto simp: bind_eq_Some_conv Let_def split_def)
    have "psi_inv I X M2" by (rule es_n2_inv[OF n2 SetESInfoLength_inv[OF SetElementaryStream_inv[OF 1(3)]]])
    then show ?thesis
      by (rule 1(1)[OF True h refl refl refl prod.collapse refl n2 refl refl n1])
  qed (use 1(2,3) in \<open>simp add: es_n1.simps\<close>)
qed


lemma release_pmt_inv: "psi_inv I X M \<Longrightarrow> psi_inv I X (release_pmt M)"
  by (simp add: release_pmt_def psi_wf_defs)

lemma pmt_store_inv:
  assumes "psi_inv I X M" "inb_env_ok env I" "pmt_store env n buf h crc M = Some M'"
  shows "psi_inv (with_new env I) X M'"
proof -
  obtain M1 M2 where l: "outer_loop buf (ph_outer_desc h) (ph_outer_desc_len h) (release_pmt M) = Some M1"
    "es_n1 buf (ph_es_desc h) (ph_es_desc_len h) M1 = Some M2"
    using assms(3) by (auto simp: pmt_store_def bind_eq_Some_conv)
  have i: "psi_inv I X M2" by (rule es_n1_inv[OF l(2) outer_loop_inv[OF l(1) release_pmt_inv[OF assms(1)]]])
  define N where "N = (notifySIDB env TABLE_TYPE_PMT (pmtVersionNumber M2 = INIT_TABLE_VERSION)
                    (pmtVersionNumber M2 \<noteq> ph_version_number h) (pmtCRC M2 \<noteq> crc) (M2\<lparr>pcrPid := ph_pcr_pid h\<rparr>))
                    \<lparr>pmtCRC := crc, pmtVersionNumber := ph_version_number h\<rparr>"
  have N: "psi_inv I X N" unfolding N_def using i by (simp only: inv_simps)
  then show ?thesis using assms(3) l keeps(4)[OF grows(1)[OF N assms(2)]] keeps(4)[OF psi_inv_mono[OF N, of "with_new env I"]]
    by (auto simp: pmt_store_def Let_def bind_eq_Some_conv N_def split: if_splits)
qed

lemma parse_and_update_PMT_inv:
  assumes "psi_inv I X M" "inb_env_ok env I" "parse_and_update_PMT env n buf M = Some (r, M')"
  shows "psi_inv (with_new env I) X M'"
proof -
  obtain y where y: "pmt_parse n buf = Some y" using assms(3) by (auto simp: parse_and_update_PMT_def bind_eq_Some_conv)
  show ?thesis using assms psi_inv_mono[OF assms(1), of "with_new env I"] y pmt_store_inv[OF assms(1,2)]
    by (cases y) (auto simp: parse_and_update_PMT_def bind_eq_Some_conv split: if_splits prod.splits)
qed

section \<open>Conditional access table\<close>

lemma cat_begin_inv: "psi_inv I X M \<Longrightarrow> psi_inv I X (cat_begin k M)"
  by (auto simp: cat_begin_def psi_wf_defs Let_def)

lemma cat_parse_inv: "cat_parse buf M = Some (r, M') \<Longrightarrow> psi_inv I X M \<Longrightarrow> psi_inv I X M'"
  by (auto simp: cat_parse_def bind_eq_Some_conv Let_def split: if_splits) (auto simp: cat_begin_inv bind_eq_Some_conv split: sum.split_asm if_splits)

lemma psi_inv_cat:
  assumes "psi_inv I X M" "l = None \<longrightarrow> s = 0" "\<And>t. l = Some t \<Longrightarrow> unat s \<le> length t"
  shows "psi_inv I X (M\<lparr>m_catTable := l, m_catTableSize := s, m_total_descriptor_length := s\<rparr>)"
  using assms by (auto simp: psi_wf_defs)

lemma cat_store_inv:
  assumes "cat_store buf t M = Some (r, M')" "psi_inv I X M"
  shows "psi_inv I X M'"
proof (cases "ct_total t > 0")
  case True
  obtain ok N where a: "inb_alloc M = (ok, N)" by fastforce
  have N: "psi_inv I X N" by (rule alloc_inv[OF a assms(2)])
  have tot: "m_total_descriptor_length N = m_catTableSize N" using N by (simp add: psi_wf_defs)
  have le: "unat (m_catTableSize N + ct_total t) \<le> unat (m_catTableSize N) + unat (ct_total t)" by (simp add: unat_word_ariths)
  show ?thesis
  proof (cases "m_catTable N")
    case None
    with True a assms(1) show ?thesis
      by (auto simp: cat_store_def bind_eq_Some_conv Let_def inv_simps memcpy_def split: if_splits intro!: psi_inv_cat[OF N])
  next
    case (Some l)
    have s: "unat (m_catTableSize N) \<le> length l" using N Some by (simp add: psi_wf_defs)
    with True a assms(1) psi_inv_cat[OF N, of "Some t'" for t'] N Some tot le show ?thesis
      by (auto simp: cat_store_def bind_eq_Some_conv Let_def inv_simps memcpy_def split: if_splits)
  qed
qed (use assms in \<open>auto simp: cat_store_def inv_simps\<close>)

lemma cat_changed_inv:
  assumes "psi_inv I X M" "inb_env_ok env I" "cat_changed env t M = Some M'"
  shows "psi_inv (with_new env I) X M'"
proof -
  have "pred_option (psi_inv (with_new env I) X) (cat_changed env t M)"
    using assms(1,2) psi_inv_mono[OF assms(1), of "with_new env I"] unfolding cat_changed_def Let_def
    by (auto simp: inv_simps intro!: pred_option_wp wp_configure_negative_filters)
  with assms(3) show ?thesis by simp
qed

lemma parse_and_update_CAT_inv:
  assumes "psi_inv I X M" "inb_env_ok env I" "parse_and_update_CAT env n buf M = Some (r, M')"
  shows "psi_inv (with_new env I) X M'"
proof -
  have mono: "psi_inv (with_new env I) X N" if "psi_inv I X N" for N using psi_inv_mono[OF that] by simp
  obtain p N where p: "cat_parse buf M = Some (p, N)"
    using assms(3) by (auto simp: parse_and_update_CAT_def bind_eq_Some_conv)
  let ?N = "N\<lparr>num_cat_sections := num_cat_sections N - 1\<rparr>"
  have N: "psi_inv I X ?N" "psi_inv I X N"
    using cat_parse_inv[OF p assms(1)] by (auto simp: inv_simps)
  have avail: "psi_inv (with_new env I) X (cat_available ?N)" using N by (simp add: inv_simps mono)
  have store: "psi_inv (with_new env I) X M''" if "cat_store buf t ?N = Some (ret, N')"
    "cat_changed env t N' = Some N''" "keep_cat n buf N'' = Some M''" for t ret N' N'' M''
    using keeps(5)[OF cat_changed_inv[OF cat_store_inv[OF that(1) N(1)] assms(2) that(2)] that(3)] .
  show ?thesis using assms(3) p store mono[OF N(2)] mono[OF cat_store_inv[OF _ N(1)]] keeps(5)[OF avail]
    keeps(5)[OF mono[OF N(1)]] N
    by (auto simp: parse_and_update_CAT_def bind_eq_Some_conv Let_def inv_simps split: sum.splits if_splits)
qed

section \<open>Time tables and private sections\<close>

lemma time_store_TDT:
  assumes "time_store tab len 8 ok buf = Some (tab', len')" "tab = None \<longrightarrow> len = 0" "\<And>t. tab = Some t \<Longrightarrow> length t = 8 \<and> len = 8"
  shows "(tab' = None \<longrightarrow> len' = 0) \<and> (\<forall>t. tab' = Some t \<longrightarrow> length t = 8 \<and> len' = 8)"
  using assms by (cases tab) (auto simp: time_store_def memcpy_def Let_def split: if_splits)

lemma time_store_TOT:
  assumes "time_store tab len n ok buf = Some (tab', len')" "\<And>t. tab = Some t \<Longrightarrow> len \<le> length t"
  shows "\<forall>t. tab' = Some t \<longrightarrow> len' \<le> length t"
  using assms by (cases tab) (auto simp: time_store_def memcpy_def Let_def bind_eq_Some_conv split: if_splits)

lemma parse_TDT_inv:
  assumes "psi_inv I X M" "parse_TDT env n buf M = Some M'"
  shows "psi_inv I X M'"
proof (cases "n = 8")
  case True
  obtain ok N where a: "inb_alloc M = (ok, N)" by fastforce
  have N: "psi_inv I X N" by (rule alloc_inv[OF a assms(1)])
  obtain tab len where s: "time_store (m_tdtTable N) (m_tdtTableSize N) 8 ok buf = Some (tab, len)"
    and M': "M' = snd (inb_NotifyTableChanged env TABLE_TYPE_TDT RMF_SI_CHANGE_TYPE_MODIFY 0 (N\<lparr>m_tdtTable := tab, m_tdtTableSize := len\<rparr>))"
    using assms(2) True a by (auto simp: parse_TDT_def bind_eq_Some_conv)
  have "(tab = None \<longrightarrow> len = 0) \<and> (\<forall>t. tab = Some t \<longrightarrow> length t = 8 \<and> len = 8)"
    using N by (intro time_store_TDT[OF s]) (auto simp: psi_wf_defs)
  with N have "psi_inv I X (N\<lparr>m_tdtTable := tab, m_tdtTableSize := len\<rparr>)" by (simp add: psi_wf_defs)
  then show ?thesis unfolding M' by (simp add: inv_simps)
qed (use assms in \<open>simp add: parse_TDT_def\<close>)

lemma parse_TOT_inv:
  assumes "psi_inv I X M" "parse_TOT env n buf M = Some M'"
  shows "psi_inv I X M'"
proof (cases "n \<ge> 10")
  case True
  obtain ok N where a: "inb_alloc M = (ok, N)" by fastforce
  have N: "psi_inv I X N" by (rule alloc_inv[OF a assms(1)])
  obtain tab len where s: "time_store (m_totTable N) (m_totTableSize N) (unat n) ok buf = Some (tab, len)"
    and M': "M' = snd (inb_NotifyTableChanged env TABLE_TYPE_TOT RMF_SI_CHANGE_TYPE_MODIFY 0 (N\<lparr>m_totTable := tab, m_totTableSize := len\<rparr>))"
    using assms(2) True a by (auto simp: parse_TOT_def bind_eq_Some_conv)
  have "\<forall>t. tab = Some t \<longrightarrow> len \<le> length t"
    using N by (intro time_store_TOT[OF s]) (auto simp: psi_wf_defs)
  with N have "psi_inv I X (N\<lparr>m_totTable := tab, m_totTableSize := len\<rparr>)" by (simp add: psi_wf_defs)
  then show ?thesis unfolding M' by (simp add: inv_simps)
qed (use assms in \<open>simp add: parse_TOT_def\<close>)

lemma map_fst_replace: "map fst (map (\<lambda>(i, g). if i = k then (i, f) else (i, g)) l) = map fst l"
  by auto

lemma psi_inv_filters:
  assumes "psi_inv I X M" "map fst l = map fst (m_section_filter_list M)" "list_all (section_filter_wf \<circ> snd) l"
  shows "psi_inv I X (M\<lparr>m_section_filter_list := l\<rparr>)"
  using assms by (simp add: psi_wf_defs)

lemma parse_and_update_section_inv:
  assumes "psi_inv I X M" "parse_and_update_section env n buf i M = Some (r, M')"
  shows "psi_inv I X M'"
proof (cases "map_of (m_section_filter_list M) i")
  case (Some f)
  have wf: "list_all (section_filter_wf \<circ> snd) (m_section_filter_list M)" using assms(1) by (simp add: psi_wf_defs)
  then have f: "section_filter_wf f" using map_of_SomeD[OF Some] by (auto simp: list_all_iff)
  have "section_filter_wf f'" if "memcpy (sfi_data f) buf 0 (unat n) = Some d" "unat n \<le> RMF_SI_SECTION_MAX_SIZE"
    "f' = f\<lparr>sfi_data := d, sfi_data_length := n, sfi_getNewECM := False, sfi_newEcmData := True\<rparr>" for d f'
    using that f by (auto simp: section_filter_wf_def memcpy_def split: if_splits)
  moreover have "psi_inv I X (M\<lparr>m_section_filter_list := map (\<lambda>(j, g). if j = i then (j, f') else (j, g)) (m_section_filter_list M)\<rparr>)"
    if "section_filter_wf f'" for f'
    using wf that by (intro psi_inv_filters[OF assms(1) map_fst_replace]) (auto simp: list_all_iff split: prod.splits)
  ultimately show ?thesis using assms Some f
    by (auto simp: parse_and_update_section_def bind_eq_Some_conv Let_def inv_simps split: if_splits)
qed (use assms in \<open>simp add: parse_and_update_section_def\<close>)

lemma get_section_walk_inv:
  "get_section_walk ok l i = Some (r, i', l') \<Longrightarrow> list_all (section_filter_wf \<circ> snd) l \<Longrightarrow>
     map fst l' = map fst l \<and> list_all (section_filter_wf \<circ> snd) l'"
  by (induction ok l i arbitrary: l' rule: get_section_walk.induct)
    (auto simp: bind_eq_Some_conv Let_def section_filter_wf_def split: if_splits)

lemma get_Section_inv: "get_Section ok M = Some (r, i, M') \<Longrightarrow> psi_inv I X M \<Longrightarrow> psi_inv I X M'"
  by (auto simp: get_Section_def bind_eq_Some_conv dest!: get_section_walk_inv intro!: psi_inv_filters) (auto simp: psi_wf_defs)


section \<open>The thread\<close>

lemma pred_option_wp_iff: "wp Q r \<Longrightarrow> r = Some x \<Longrightarrow> Q x"
  by (auto elim: wpE)

lemma dispatch_section_inv:
  assumes "psi_inv I X M" "inb_env_ok env I" "dispatch_section env n buf i M = Some M'"
  shows "psi_inv (with_new env I) X M'"
  using assms psi_inv_mono[of I X _ "with_new env I"]
  by (auto simp: dispatch_section_def bind_eq_Some_conv split: if_splits
      dest: parse_and_update_PAT_inv parse_and_update_PMT_inv parse_and_update_CAT_inv parse_TDT_inv parse_TOT_inv parse_and_update_section_inv)

lemma psi_inv_outstanding:
  assumes "psi_inv I X M"
  shows "psi_inv I Y (M\<lparr>m_pInbSectionFilter := (m_pInbSectionFilter M)\<lparr>m_outstandingSections := Y\<rparr>\<rparr>)"
  using assms by (simp add: psi_wf_defs requests_wf_def)

lemma release_section_inv:
  assumes "psi_inv I X M" "X = [] \<or> (\<exists>d. X = [(h, d)])"
  shows "psi_inv I [] (release_section h M)"
proof -
  have "m_outstandingSections (m_pInbSectionFilter M) = X" using assms(1) by (simp add: psi_inv_def)
  then have "release_section h M = M\<lparr>m_pInbSectionFilter := (m_pInbSectionFilter M)\<lparr>m_outstandingSections := []\<rparr>\<rparr>"
    using assms(2) by (auto simp: release_section_def ReleaseSection_def Remove_def)
  with psi_inv_outstanding[OF assms(1)] show ?thesis by simp
qed

text \<open>Every section that is taken from the filter is given back, whatever the parsers make of it.\<close>

lemma process_section_from_filter_inv:
  assumes "psi_inv I [] M" "inb_env_ok env I" "process_section_from_filter env inp i M = Some M'"
  shows "psi_inv (with_new env I) [] M'"
proof -
  let ?sf = "m_pInbSectionFilter M"
  have mono: "psi_inv (with_new env I) [] N" if "psi_inv I [] N" for N using psi_inv_mono[OF that] by simp
  obtain ret handle sf where g: "GetSectionHandle (pi_node_alloc inp) (pi_read inp) ?sf i 0 = (ret, handle, sf)" by (metis prod_cases3)
  have nil: "m_outstandingSections ?sf = []" using assms(1) by (simp add: psi_inv_def)
  show ?thesis
  proof (cases "ret = RMF_SUCCESS")
    case False
    then have "sf = ?sf" using g by (auto simp: GetSectionHandle_def split: option.splits if_splits)
    with False g assms(1,3) mono show ?thesis by (auto simp: process_section_from_filter_def)
  next
    case True
    with g obtain d where d: "handle = Some (sectionID d)" "sf = ?sf\<lparr>m_outstandingSections := Insert (pi_node_alloc inp) (sectionID d) d []\<rparr>"
      by (auto simp: GetSectionHandle_def nil split: option.splits if_splits)
    define X where "X = Insert (pi_node_alloc inp) (sectionID d) d []"
    have X: "X = [] \<or> (\<exists>d'. X = [(sectionID d, d')])" by (simp add: X_def Insert_def)
    have i: "psi_inv I X (M\<lparr>m_pInbSectionFilter := sf\<rparr>)" unfolding d(2) X_def[symmetric] by (rule psi_inv_outstanding[OF assms(1)])
    from assms(3) True g d(1) obtain ret2 b n sf2 where
      r: "ReadSection sf (sectionID d) 0 4096 0 (pi_stack inp) = Some (ret2, b, n, sf2)"
      and fin: "(if ret2 \<noteq> RMF_SUCCESS then Some (release_section (sectionID d) (M\<lparr>m_pInbSectionFilter := sf2\<rparr>))
         else do { M \<leftarrow> dispatch_section env (case n of None \<Rightarrow> 0 | Some n \<Rightarrow> n) b i (M\<lparr>m_pInbSectionFilter := sf2\<rparr>);
                   Some (release_section (sectionID d) M) }) = Some M'"
      by (auto simp: process_section_from_filter_def Let_def bind_eq_Some_conv cong: if_cong)
    have sf2: "sf2 = sf" using r by (auto simp: ReadSection_def Let_def bind_eq_Some_conv split: option.splits if_splits)
    show ?thesis
      using fin mono[OF release_section_inv[OF i X]] release_section_inv[OF dispatch_section_inv[OF i assms(2)] X]
      unfolding sf2 by (auto simp: bind_eq_Some_conv split: if_splits)
  qed
qed

lemma found_section_inv:
  assumes "psi_inv I [] M" "inb_env_ok env I" "found_section env inp i M = Some (go, stopped, M')"
  shows "psi_inv (with_new env I) [] M'"
  using assms by (auto simp: found_section_def bind_eq_Some_conv dest: process_section_from_filter_inv)

lemma PsiMonitor_step_inv:
  assumes "psi_inv I [] M" "inb_env_ok env I" "PsiMonitor_step env inp ev M = Some (go, stopped, M')"
  shows "psi_inv (with_new env I) [] M'"
proof -
  have mono: "psi_inv (with_new env I) [] M" using psi_inv_mono[OF assms(1)] by simp
  show ?thesis
    using assms mono by (cases ev) (auto simp: bind_eq_Some_conv inv_simps dest: found_section_inv split: if_splits)
qed

section \<open>Requests\<close>

lemma set_filter_inv:
  assumes "set_filter env p M = Some (r, M')" "psi_inv I X M" "inb_env_ok env I"
  shows "psi_inv (with_new env I) X M'"
  using pred_option_wp_iff[OF wp_set_filter[OF assms(2,3)] assms(1), of "\<lambda>(r, M'). psi_inv (with_new env I) X M'"] by simp

lemma release_first_inv:
  assumes "release_first env P M = Some (f, M')" "psi_inv I X M"
  shows "psi_inv I X M'"
  using pred_option_wp_iff[OF wp_release_first[OF assms(2)] assms(1), of "\<lambda>(r, M'). psi_inv I X M'"] by simp

lemma cancel_all_filters_inv:
  assumes "cancel_all_filters env M = Some M'" "psi_inv I X M"
  shows "psi_inv I X M'"
  using pred_option_wp_iff[OF wp_cancel_all_filters[OF assms(2)] assms(1), of "psi_inv I X"] by simp

lemma set_map_insert: "set (map_insert k v l) \<subseteq> insert (k, v) (set l)"
  by (induction k v l rule: map_insert.induct) auto

lemma sorted_map_insert: "sorted_wrt (<) (map fst l) \<Longrightarrow> sorted_wrt (<) (map fst (map_insert k v l))"
proof (induction k v l rule: map_insert.induct)
  case (2 k v i x l)
  have "\<forall>j \<in> set (map fst (map_insert k v l)). j = k \<or> j \<in> set (map fst l)" using set_map_insert[of k v l] by auto
  then have "\<forall>j \<in> set (map fst (map_insert k v l)). i < j" if "i < k" using 2(2) that by fastforce
  moreover have "i < k" if "\<not> k < i" "k \<noteq> i" using that by auto
  ultimately show ?case using 2 by (auto intro: order_less_trans)
qed simp

lemma setFilter_inv:
  assumes "setFilter env nulls data pid param M = Some (r, M')" "psi_inv I X M" "inb_env_ok env I" "length data = RMF_SI_SECTION_MAX_SIZE"
  shows "psi_inv (with_new env I) X M'"
proof -
  obtain pos neg ret uid N where s: "inb_SetFilter env \<lparr>fs_pos = pos, fs_neg = neg\<rparr> 10 M = Some (ret, uid, N)"
    and r: "(if ret = RMF_SUCCESS then
            if \<not> inb_info_alloc env then Some (RMF_INBSI_OUT_OF_MEM, N)
            else let filterId = (case uid of None \<Rightarrow> 0 | Some i \<Rightarrow> i)
                 in Some (ret, N\<lparr>m_filter_list := m_filter_list N @
                        [\<lparr>fi_program_number = 0, fi_pid = pid, fi_filterId = filterId, fi_oneShotMode = par_one_shot param\<rparr>],
                      m_section_filter_list := map_insert filterId (new_section_filter pid data) (m_section_filter_list N)\<rparr>)
          else Some (ret, N)) = Some (r, M')"
    using assms(1) unfolding setFilter_def bind_eq_Some_conv split_paired_Ex prod.case by blast
  have M': "M' = N \<or> (\<exists>fl i. M' = N\<lparr>m_filter_list := fl,
      m_section_filter_list := map_insert i (new_section_filter pid data) (m_section_filter_list N)\<rparr>)"
    using r by (auto simp: Let_def split: if_splits)
  have N: "psi_inv (with_new env I) X N"
    using pred_option_wp_iff[OF wp_inb_SetFilter[OF assms(2,3)] s, of "\<lambda>(r, u, M'). psi_inv (with_new env I) X M'"] by simp
  have "section_filter_wf (new_section_filter pid data)" by (simp add: section_filter_wf_def new_section_filter_def assms(4))
  then have "list_all (section_filter_wf \<circ> snd) (map_insert i (new_section_filter pid data) (m_section_filter_list N))" for i
    using N set_map_insert[of i "new_section_filter pid data" "m_section_filter_list N"] by (auto simp: psi_wf_defs list_all_iff)
  with N M' show ?thesis by (auto simp: psi_wf_defs sorted_map_insert)
qed

lemma RequestTs_inv:
  assumes "psi_inv I X M" "inb_env_ok env I"
  shows "RequestTsInfo env M = Some (r, M') \<Longrightarrow> psi_inv (with_new env I) X M'"
    and "RequestTsCatInfo env M = Some (r, M') \<Longrightarrow> psi_inv (with_new env I) X M'"
    and "RequestTsTDTInfo env b M = Some (r, M') \<Longrightarrow> psi_inv (with_new env I) X M'"
proof -
  have i: "psi_inv I X (M\<lparr>m_bIsPATAvailable := False, num_sections := 0\<rparr>)" "psi_inv I X (M\<lparr>m_bIsCATAvailable := False, num_cat_sections := 0\<rparr>)"
    "psi_inv I X (M\<lparr>num_cat_sections := 0\<rparr>)" using assms(1) by (simp_all add: inv_simps)
  show "RequestTsInfo env M = Some (r, M') \<Longrightarrow> psi_inv (with_new env I) X M'"
    using set_filter_inv[OF _ i(1) assms(2)] by (auto simp: RequestTsInfo_def bind_eq_Some_conv inv_simps)
  show "RequestTsCatInfo env M = Some (r, M') \<Longrightarrow> psi_inv (with_new env I) X M'"
    using set_filter_inv[OF _ i(2) assms(2)] by (auto simp: RequestTsCatInfo_def bind_eq_Some_conv inv_simps)
  show "RequestTsTDTInfo env b M = Some (r, M') \<Longrightarrow> psi_inv (with_new env I) X M'"
    using set_filter_inv[OF _ i(3) assms(2)] release_first_inv[OF _ assms(1)] psi_inv_mono[of I X _ "with_new env I"]
    by (auto simp: RequestTsTDTInfo_def bind_eq_Some_conv split: if_splits)
qed

lemma ClearProgramInfo_inv: "ClearProgramInfo env k M = Some (r, M') \<Longrightarrow> psi_inv I X M \<Longrightarrow> psi_inv I X M'"
  by (auto simp: ClearProgramInfo_def bind_eq_Some_conv inv_simps dest: release_first_inv)

lemma TuneInitiated_inv: "TuneInitiated env f m M = Some M' \<Longrightarrow> psi_inv I X M \<Longrightarrow> psi_inv I X M'"
  by (auto simp: TuneInitiated_def inv_simps dest!: cancel_all_filters_inv)

lemma registration_inv [inv_simps]:
  "psi_inv I X (snd (RegisterForPSIEvents q k M)) = psi_inv I X M" "psi_inv I X (snd (UnRegisterForPSIEvents q k M)) = psi_inv I X M"
  "psi_inv I X (snd (pause stop M)) = psi_inv I X M" "psi_inv I X (snd (resume start M)) = psi_inv I X M"
  using psi_inv_alloc[of I X M]
  by (auto simp: RegisterForPSIEvents_def UnRegisterForPSIEvents_def pause_def resume_def inv_simps split_def Let_def split: list.split)


section \<open>Reachable managers\<close>

text \<open>
  The transitions: rounds of the thread and the calls of clients, each with what its surroundings answer. A \<open>RequestProgramInfo\<close> that has to
  wait is \<open>RequestTsInfo\<close>, transitions of the thread, and \<open>RequestProgramInfo\<close> with the PAT there.
\<close>

inductive inb_call :: "inb_env \<Rightarrow> rmf_InbSiMgr \<Rightarrow> rmf_InbSiMgr \<Rightarrow> bool" for env where
  thread: "PsiMonitor_step env inp ev M = Some (go, stopped, M') \<Longrightarrow> inb_call env M M'"
| request_ts: "RequestTsInfo env M = Some (r, M') \<Longrightarrow> inb_call env M M'"
| request_cat: "RequestTsCatInfo env M = Some (r, M') \<Longrightarrow> inb_call env M M'"
| request_tdt: "RequestTsTDTInfo env enable M = Some (r, M') \<Longrightarrow> inb_call env M M'"
| request_program: "m_bIsPATAvailable M \<Longrightarrow> RequestProgramInfo env wait k M = Some (r, M') \<Longrightarrow> inb_call env M M'"
| set: "length data = RMF_SI_SECTION_MAX_SIZE \<Longrightarrow> setFilter env nulls data pid param M = Some (r, M') \<Longrightarrow> inb_call env M M'"
| release: "releaseFilter env i M = Some (r, M') \<Longrightarrow> inb_call env M M'"
| clear: "ClearProgramInfo env k M = Some (r, M') \<Longrightarrow> inb_call env M M'"
| tune: "TuneInitiated env f m M = Some M' \<Longrightarrow> inb_call env M M'"
| take_section: "get_Section ok M = Some (r, i, M') \<Longrightarrow> inb_call env M M'"
| descriptors: "inb_call env M (snd (snd (snd (GetDescriptors M))))"
| release_descriptors: "inb_call env M (ReleaseDescriptors M)"
| register: "inb_call env M (snd (RegisterForPSIEvents q k M))"
| unregister: "inb_call env M (snd (UnRegisterForPSIEvents q k M))"
| pausing: "inb_call env M (snd (pause stop M))"
| resuming: "inb_call env M (snd (resume start M))"

lemma inb_call_inv:
  assumes "inb_call env M M'" "psi_inv I [] M" "inb_env_ok env I"
  shows "psi_inv (with_new env I) [] M'"
proof -
  have mono: "psi_inv (with_new env I) [] N" if "psi_inv I [] N" for N using psi_inv_mono[OF that] by simp
  from assms show ?thesis
  proof cases
    case (request_program wait k r)
    have "psi_inv I [] (M\<lparr>pmtPid := p\<rparr>)" for p using assms(2) by (simp add: inv_simps)
    with request_program mono[OF assms(2)] assms(3) show ?thesis
      by (auto simp: RequestProgramInfo_def bind_eq_Some_conv split: option.split_asm dest: set_filter_inv)
  next
    case (release i r)
    then have "psi_inv I [] M'" using release_first_inv[OF _ assms(2)] by (auto simp: releaseFilter_def bind_eq_Some_conv)
    then show ?thesis by (rule mono)
  qed (use assms(2,3) mono in \<open>auto simp: GetDescriptors_def ReleaseDescriptors_def inv_simps dest: PsiMonitor_step_inv RequestTs_inv setFilter_inv
      ClearProgramInfo_inv TuneInitiated_inv get_Section_inv\<close>)
qed

text \<open>
  A new manager, and the transitions from there. The ids of the filters that were ever handed out go along: the driver gives new ones.
  The constructor has to get its list of programs, and the new object's section buffers have their sizes.
\<close>

inductive inb_reachable :: "32 word set \<Rightarrow> rmf_InbSiMgr \<Rightarrow> bool" where
  new: "mem_ok M (allocs M) \<Longrightarrow> length (patBuf M) = RMF_SI_SECTION_MAX_SIZE \<Longrightarrow> length (pmtBuf M) = RMF_SI_PMT_MAX_SIZE \<Longrightarrow>
    length (catBuf M) = RMF_SI_SECTION_MAX_SIZE \<Longrightarrow>
    inb_reachable {} (rmf_InbSiMgr_new freq modulation_mode negative_env
      \<lparr>m_sectionRequests = [], m_sectionRequestsToRemove = [], m_outstandingSections = []\<rparr> queue M)"
| call: "inb_reachable I M \<Longrightarrow> inb_env_ok env I \<Longrightarrow> inb_call env M M' \<Longrightarrow> inb_reachable (with_new env I) M'"

lemma inb_reachable_inv: "inb_reachable I M \<Longrightarrow> psi_inv I [] M"
proof (induction rule: inb_reachable.induct)
  case (new M freq modulation_mode negative_env queue)
  then show ?case by (simp add: rmf_InbSiMgr_new_def inb_alloc_def Let_def psi_wf_defs requests_wf_def filter_ids_def)
qed (rule inb_call_inv)

section \<open>What the invariant gives\<close>

lemma pmtpid_walk_defined: "i + n \<le> length l \<Longrightarrow> pmtpid_walk k n i l \<noteq> None"
  by (induction k n i l rule: pmtpid_walk.induct) (auto simp: rd_def)

lemma media_loop_defined: "length l = RMF_SI_MAX_PIDS_PER_PGM \<Longrightarrow> media_loop es i l \<noteq> None"
  by (induction es arbitrary: i l) (auto simp: wr_def)

lemma get_section_walk_defined: "list_all (section_filter_wf \<circ> snd) l \<Longrightarrow> get_section_walk ok l i \<noteq> None"
  by (induction ok l i rule: get_section_walk.induct) (auto simp: section_filter_wf_def memcpy_def Let_def)

lemma queries_defined:
  assumes "psi_inv I X M"
  shows "get_pmtpid_for_program k M \<noteq> None" "length (mi_pPidList info) = 32 \<Longrightarrow> GetMediaInfo info M \<noteq> None"
    "get_TDT ok M \<noteq> None" "get_Section oks M \<noteq> None"
    "get_TOT ok M = None \<longleftrightarrow> ok \<and> m_totTable M = None \<and> m_totTableSize M \<noteq> 0"
proof -
  obtain l where "m_pmtInfoList M = Some l" "m_pmtListLen M \<le> length l" using assms by (auto simp: psi_wf_defs)
  then show "get_pmtpid_for_program k M \<noteq> None" using pmtpid_walk_defined[of 0 "m_pmtListLen M" l k] by (auto simp: get_pmtpid_for_program_def)
  show "length (mi_pPidList info) = 32 \<Longrightarrow> GetMediaInfo info M \<noteq> None"
    using media_loop_defined[of "mi_pPidList info" "elementary_streams M" 0] by (auto simp: GetMediaInfo_def)
  show "get_TDT ok M \<noteq> None" using assms by (auto simp: get_TDT_def time_copy_def psi_wf_defs memcpy_def)
  show "get_TOT ok M = None \<longleftrightarrow> ok \<and> m_totTable M = None \<and> m_totTableSize M \<noteq> 0"
    using assms by (cases "m_totTable M") (auto simp: get_TOT_def time_copy_def psi_wf_defs memcpy_def)
  show "get_Section oks M \<noteq> None"
    using assms get_section_walk_defined[of "m_section_filter_list M" oks None] by (auto simp: get_Section_def psi_wf_defs)
qed


lemma requests_defined:
  assumes "psi_inv I X M"
  shows "releaseFilter env i M \<noteq> None" "cancel_all_filters env M \<noteq> None"
    "inb_env_ok env' I \<Longrightarrow> RequestTsInfo env' M \<noteq> None" "inb_env_ok env' I \<Longrightarrow> RequestTsCatInfo env' M \<noteq> None"
    "inb_env_ok env' I \<Longrightarrow> RequestTsTDTInfo env' enable M \<noteq> None"
    "inb_env_ok env' I \<Longrightarrow> m_bIsPATAvailable M \<Longrightarrow> RequestProgramInfo env' wait k M \<noteq> None"
    "ClearProgramInfo env k M \<noteq> None" "TuneInitiated env f m M \<noteq> None"
proof -
  have "wp (\<lambda>_. True) (releaseFilter env i M)"
    unfolding releaseFilter_def wp_simps by (rule wp_release_first[OF assms]) simp
  then show "releaseFilter env i M \<noteq> None" by (auto elim: wpE)
  have "wp (\<lambda>_. True) (cancel_all_filters env M)" by (rule wp_cancel_all_filters[OF assms]) simp
  then show "cancel_all_filters env M \<noteq> None" by (auto elim: wpE)
  have "wp (\<lambda>_. True) (ClearProgramInfo env k M)"
    unfolding ClearProgramInfo_def wp_simps by (rule wp_release_first[OF assms]) simp
  then show "ClearProgramInfo env k M \<noteq> None" by (auto elim: wpE)
  have "psi_inv I X (M\<lparr>m_freq := f, m_modulation_mode := m\<rparr>)" using assms by (simp add: inv_simps)
  then have "wp (\<lambda>_. True) (TuneInitiated env f m M)"
    unfolding TuneInitiated_def by (rule wp_cancel_all_filters) simp
  then show "TuneInitiated env f m M \<noteq> None" by (auto elim: wpE)
  have i: "psi_inv I X (M\<lparr>m_bIsPATAvailable := False, num_sections := 0\<rparr>)" "psi_inv I X (M\<lparr>m_bIsCATAvailable := False, num_cat_sections := 0\<rparr>)"
    "psi_inv I X (M\<lparr>num_cat_sections := 0\<rparr>)" "\<And>p. psi_inv I X (M\<lparr>pmtPid := p\<rparr>)"
    using assms by (simp_all add: inv_simps)
  have filt: "set_filter env' p N \<noteq> None" if "inb_env_ok env' I" "psi_inv I X N" for p N
    using wp_set_filter[OF that(2,1), of "\<lambda>_. True" p] by (auto elim: wpE)
  obtain r N where rel: "release_first env' (\<lambda>f. fi_pid f = TDT_TOT_PID) M = Some (r, N)"
    using wp_release_first[OF assms, of "\<lambda>_. True" env' "\<lambda>f. fi_pid f = TDT_TOT_PID"] by (auto elim: wpE)
  show "RequestTsTDTInfo env' enable M \<noteq> None" if "inb_env_ok env' I"
    using filt[OF that i(3)] rel by (simp add: RequestTsTDTInfo_def)
  show "RequestProgramInfo env' wait k M \<noteq> None" if "inb_env_ok env' I" "m_bIsPATAvailable M"
    using filt[OF that(1) i(4)] that(2) queries_defined(1)[OF assms, of k]
    by (auto simp: RequestProgramInfo_def bind_eq_None_conv split: option.splits)
  show "RequestTsInfo env' M \<noteq> None" if e: "inb_env_ok env' I"
  proof -
    have "wp (\<lambda>_. True) (RequestTsInfo env' M)" unfolding RequestTsInfo_def Let_def wp_simps by (rule wp_set_filter[OF i(1) e]) simp
    then show ?thesis by (auto elim: wpE)
  qed
  show "RequestTsCatInfo env' M \<noteq> None" if e: "inb_env_ok env' I"
  proof -
    have "wp (\<lambda>_. True) (RequestTsCatInfo env' M)" unfolding RequestTsCatInfo_def Let_def wp_simps by (rule wp_set_filter[OF i(2) e]) simp
    then show ?thesis by (auto elim: wpE)
  qed
qed

text \<open>
  C23. The inband manager stays well formed. In every manager that is reached from a new one by rounds of the thread and calls of clients
  that themselves return, with fresh filter ids and memory for the queues of new filters, the lists and arrays have the sizes their counters say, every stored descriptor owns
  the bytes it announces, the filters of clients are sorted by id with buffers of their full size, the
  request table of the section filter is well formed, and no section is outstanding. So looking up a program, reading the media
  information, the TDT and private sections, releasing filters, tuning, clearing a program, and requesting the PAT, the CAT, the time tables and, once
  the PAT is there, a program never leave an array or follow a null pointer. Reading the TOT does so exactly when a failed allocation has left its size
  without its buffer.
\<close>

theorem inband_manager_well_formed:
  assumes "inb_reachable I M" "inb_env_ok env I" "length (mi_pPidList info) = 32"
  shows "psi_inv I [] M \<and> get_pmtpid_for_program k M \<noteq> None \<and> GetMediaInfo info M \<noteq> None \<and> get_TDT ok M \<noteq> None \<and>
    get_Section oks M \<noteq> None \<and> releaseFilter env i M \<noteq> None \<and> cancel_all_filters env M \<noteq> None \<and>
    RequestTsInfo env M \<noteq> None \<and> RequestTsCatInfo env M \<noteq> None \<and> RequestTsTDTInfo env enable M \<noteq> None \<and>
    (m_bIsPATAvailable M \<longrightarrow> RequestProgramInfo env wait k M \<noteq> None) \<and>
    ClearProgramInfo env k M \<noteq> None \<and> TuneInitiated env f m M \<noteq> None \<and>
    (get_TOT ok M = None \<longleftrightarrow> ok \<and> m_totTable M = None \<and> m_totTableSize M \<noteq> 0)"
  using inb_reachable_inv[OF assms(1)] queries_defined[OF inb_reachable_inv[OF assms(1)]]
    requests_defined[OF inb_reachable_inv[OF assms(1)]] assms(2,3) by simp

text \<open>After the registration of a client, with a driver that would hand out filter 6 next.\<close>

definition inb_env_next :: inb_env where
  "inb_env_next = inb_env_example\<lparr>inb_filter := (inb_filter inb_env_example)\<lparr>create_result := \<lambda>_. (RMF_SECTFLT_Success, 6)\<rparr>\<rparr>"

lemma inb_env_example_ok:
  "inb_env_ok inb_env_example {}" "inb_env_ok inb_env_next {5}" "new_ids (inb_filter inb_env_example) = {5}"
  by (auto simp: inb_env_ok_def inb_env_next_def inb_env_example_def new_ids_def filter_env_ok_def empty_queue_example_def queue_wf_def rmf_queue_new_def)

lemma inb_example_reachable: "inb_reachable {5} inb_example"
proof -
  have "inb_reachable (with_new inb_env_example {}) inb_example"
    unfolding inb_example_def by (rule inb_reachable.call[OF inb_reachable.new inb_env_example_ok(1) inb_call.register]) simp_all
  then show ?thesis by (simp add: inb_env_example_ok(3))
qed

theorem inband_manager_well_formed_witness:
  "psi_inv {5} [] inb_example \<and> get_pmtpid_for_program 3 inb_example \<noteq> None \<and>
   GetMediaInfo \<lparr>mi_pmt_pid = 0, mi_pcrPid = 0, mi_numMediaPids = 0, mi_pmt_crc32 = 0, mi_pPidList = replicate 32 (0, 0)\<rparr> inb_example \<noteq> None \<and>
   RequestTsInfo inb_env_next inb_example \<noteq> None"
  using inband_manager_well_formed[OF inb_example_reachable inb_env_example_ok(2),
      of "\<lparr>mi_pmt_pid = 0, mi_pcrPid = 0, mi_numMediaPids = 0, mi_pmt_crc32 = 0, mi_pPidList = replicate 32 (0, 0)\<rparr>" 3]
  by simp

end
