(* ===== verification/RbiState.thy ===== *)
theory RbiState
  imports Prelude
begin

text \<open>
  The state of \<open>RBIStreamProcessor\<close> (\<open>rbi/rbi.h\<close>) that the modelled operations of the remote bulk insertion use.

  \<^item> Time values of type \<open>long long\<close> count at 90 kHz and stay below 2 to the 34; they are integers, and the mask \<open>MAX_90K\<close> is a bitwise
    operation on integers. Counters and tick values of type \<open>unsigned int\<close> are words.
  \<^item> The tables indexed by PID are functions of which the code uses the first 8192 values.
  \<^item> PIDs of the stream are natural numbers below 8192; the PID fields start at -1. A component array is None when the pointer is null.
  \<^item> \<open>m_insertSrc\<close> is the insertion source as far as time stamps go: its first PTS and PCR. \<open>m_events\<close> says whether a listener is set;
    what the listener is told is collected in \<open>triggers\<close>, and \<open>m_triggerDetectedForOpportunity\<close> is its flag for an opportunity in progress.
  \<^item> A trigger has the lead time from which its constructor computes times of the system clock.
\<close>

abbreviation (input) MAX_90K :: int where "MAX_90K \<equiv> 0x1FFFFFFFF"
abbreviation (input) MAX_PIDS :: nat where "MAX_PIDS \<equiv> 8"
abbreviation (input) RBI_MAX_DATA :: nat where "RBI_MAX_DATA \<equiv> 257"

record RBIStreamComponent =
  sc_streamType :: byte
  sc_pid :: nat
  sc_associatedLanguage :: "byte list option"

record RBIPrivateDataStreamSpec =
  spec_streamType :: byte
  spec_matchTag :: bool
  spec_descrTag :: byte
  spec_descrData :: "byte list"

record H264SPS =
  picOrderCountType :: "32 word"
  maxPicOrderCount :: "32 word"
  log2MaxFrameNumMinus4 :: "32 word"
  log2MaxPicOrderCntLsbMinus4 :: "32 word"
  separateColorPlaneFlag :: "32 word"
  frameMBSOnlyFlag :: "32 word"

record SegmentUpid =
  upid_type :: byte
  upid_hex :: "byte list"

record PlacementOpportunityData =
  poType :: byte
  poDuration :: int
  signalId :: "byte list"
  streamId :: "byte list"
  contentId :: "byte list"
  serviceSource :: "byte list"
  po_zone :: "byte list"
  windowStart :: int
  elementId :: "byte list"
  elementBreakId :: "byte list"
  po_eventId :: "32 word"
  po_typeId :: byte
  po_segmentNum :: byte
  po_segmentsExpected :: byte
  po_segments :: "SegmentUpid list"

record RBITrigger =
  eventIdInstance :: "32 word"
  trig_splicePTS :: int
  trig_leadTime :: int
  poData :: "PlacementOpportunityData option"

record RBIStreamProcessor =
  m_packetSize :: nat
  m_ttsSize :: nat
  m_pcrPid :: int
  m_videoPid :: int
  m_audioPid :: int
  m_triggerEnable :: bool
  m_triggerPids :: "nat \<Rightarrow> bool"
  m_privateDataPids :: "nat \<Rightarrow> bool"
  m_privateDataTypes :: "nat \<Rightarrow> byte"
  m_privateDataMonitor :: "RBIPrivateDataStreamSpec list"
  m_videoComponentCount :: nat
  m_videoComponents :: "RBIStreamComponent list option"
  m_audioComponentCount :: nat
  m_audioComponents :: "RBIStreamComponent list option"
  m_dataComponentCount :: nat
  m_dataComponents :: "RBIStreamComponent list option"
  m_isH264 :: bool
  m_H264Enabled :: bool
  m_frameWidth :: "32 word"
  m_frameHeight :: "32 word"
  m_isInterlaced :: bool
  m_isInterlacedKnown :: bool
  m_frameType :: nat
  m_startOfSequence :: bool
  m_scanForFrameType :: bool
  m_mapEditGOP :: bool
  m_GOPSize :: "32 word"
  m_frameInGOPCount :: "32 word"
  m_emulationPrevention :: "byte list option"
  m_emulationPreventionOffset :: nat
  m_SPS :: "H264SPS list"
  m_events :: bool
  m_triggerDetectedForOpportunity :: bool
  m_TimeSignalbase64Msg :: "byte list option"
  triggers :: "RBITrigger list"
  m_insertSrc :: "(int \<times> int) option"
  m_haveBaseTime :: bool
  m_baseTime :: int
  m_basePCR :: int
  m_segmentBaseTime :: int
  m_segmentBasePCR :: int
  m_currentPCR :: int
  m_prevCurrentPCR :: int
  m_currentPTS :: int
  m_currentMappedPTS :: int
  m_currentMappedPCR :: int
  m_currentInsertPCR :: int
  m_lastAdPCR :: int
  m_lastAdVideoFramePTS :: int
  m_prevAdBaseTime :: int
  m_prevAdSegmentBaseTime :: int
  m_mapStartPTS :: int
  m_mapStartPCR :: int
  m_mapSpliceInPTS :: int
  m_firstAdPacketAfterTransitionTTSValue :: int
  m_ttsInsert :: "32 word"
  m_lastPCRTTSValue :: "32 word"
  m_lastMappedPCRTTSValue :: "32 word"
  m_adVideoFrameCount :: "32 word"
  m_netReplaceableVideoFramesCnt :: "32 word"
  m_b2bSavedAudioPacketsCnt :: "32 word"
  m_haveSegmentBasePCRAfterTransitionToAd :: bool
  m_adAudioPktsDelayed :: bool
  m_adVideoPktsDelayed :: bool
  m_adVideoPktsDelayedPCRBased :: bool
  m_adVideoPktsTooFast :: bool
  m_removeNull_PSIPackets :: bool

text \<open>The constructor. \<open>getH264Enabled\<close> is the setting of the manager it asks for.\<close>

definition H264SPS_zero :: H264SPS where
  "H264SPS_zero = \<lparr>picOrderCountType = 0, maxPicOrderCount = 0, log2MaxFrameNumMinus4 = 0, log2MaxPicOrderCntLsbMinus4 = 0,
     separateColorPlaneFlag = 0, frameMBSOnlyFlag = 0\<rparr>"

definition RBIStreamProcessor_new :: "bool \<Rightarrow> RBIStreamProcessor" where
  "RBIStreamProcessor_new getH264Enabled =
     \<lparr>m_packetSize = 188, m_ttsSize = 0, m_pcrPid = -1, m_videoPid = -1, m_audioPid = -1, m_triggerEnable = False,
      m_triggerPids = (\<lambda>_. False), m_privateDataPids = (\<lambda>_. False), m_privateDataTypes = (\<lambda>_. 0), m_privateDataMonitor = [],
      m_videoComponentCount = 0, m_videoComponents = None, m_audioComponentCount = 0, m_audioComponents = None,
      m_dataComponentCount = 0, m_dataComponents = None, m_isH264 = False, m_H264Enabled = getH264Enabled,
      m_frameWidth = -1, m_frameHeight = -1, m_isInterlaced = False, m_isInterlacedKnown = False, m_frameType = 0,
      m_startOfSequence = False, m_scanForFrameType = False, m_mapEditGOP = False, m_GOPSize = -1, m_frameInGOPCount = -1,
      m_emulationPrevention = None, m_emulationPreventionOffset = 0, m_SPS = replicate 32 H264SPS_zero, m_events = False, m_triggerDetectedForOpportunity = False,
      m_TimeSignalbase64Msg = None, triggers = [], m_insertSrc = None, m_haveBaseTime = False, m_baseTime = -1, m_basePCR = -1,
      m_segmentBaseTime = -1, m_segmentBasePCR = -1, m_currentPCR = -1, m_prevCurrentPCR = -1, m_currentPTS = -1,
      m_currentMappedPTS = -1, m_currentMappedPCR = -1, m_currentInsertPCR = -1, m_lastAdPCR = -1, m_lastAdVideoFramePTS = -1,
      m_prevAdBaseTime = -1, m_prevAdSegmentBaseTime = -1, m_mapStartPTS = -1, m_mapStartPCR = -1, m_mapSpliceInPTS = -1,
      m_firstAdPacketAfterTransitionTTSValue = 0, m_ttsInsert = 0xFFFFFFFF, m_lastPCRTTSValue = 0, m_lastMappedPCRTTSValue = -1,
      m_adVideoFrameCount = 0, m_netReplaceableVideoFramesCnt = 0, m_b2bSavedAudioPacketsCnt = 0,
      m_haveSegmentBasePCRAfterTransitionToAd = False, m_adAudioPktsDelayed = False, m_adVideoPktsDelayed = False,
      m_adVideoPktsDelayedPCRBased = False, m_adVideoPktsTooFast = False, m_removeNull_PSIPackets = False\<rparr>"

lemma and_MAX_90K: "t AND MAX_90K = t mod 2 ^ 33" for t :: int
  using take_bit_eq_mask[of 33 t] by (simp add: take_bit_eq_mod mask_eq_exp_minus_1 and.commute)

section \<open>Runs of bytes\<close>

text \<open>The n elements from p on, as \<open>memcpy\<close> and \<open>memcmp\<close> read them.\<close>

fun rd_seq :: "'a list \<Rightarrow> nat \<Rightarrow> nat \<Rightarrow> 'a list option" where
  "rd_seq buf p 0 = Some []"
| "rd_seq buf p (Suc n) = do { x \<leftarrow> rd buf p; xs \<leftarrow> rd_seq buf (Suc p) n; Some (x # xs) }"

lemma rd_seq_holds: "holds_at buf p xs \<Longrightarrow> rd_seq buf p (length xs) = Some xs"
  by (induction xs arbitrary: p) auto

lemma rd_seq_in: "p + n \<le> length buf \<Longrightarrow> rd_seq buf p n = Some (take n (drop p buf))"
  by (induction n arbitrary: p) (auto simp: rd_in take_Suc_conv_app_nth Cons_nth_drop_Suc[symmetric])

end
