(* ===== verification/RbiTime.thy ===== *)
theory RbiTime
  imports Prelude
begin

text \<open>
  Time stamps, clock references and base64 of \<open>rbi/rbi.cpp\<close>. A \<open>long long\<close> is a word of 64 bits; shifts of it are arithmetic.
\<close>

section \<open>Presentation time stamps\<close>

definition readTimeStamp :: "byte list \<Rightarrow> nat \<Rightarrow> 64 word option" where
  "readTimeStamp buf p =
     do { p0 \<leftarrow> rd buf p; p1 \<leftarrow> rd buf (p + 1); p2 \<leftarrow> rd buf (p + 2); p3 \<leftarrow> rd buf (p + 3); p4 \<leftarrow> rd buf (p + 4);
          Some (signed_drop_bit 1 (push_bit 30 (ucast (p0 AND 0x0E))) OR push_bit 22 (ucast p1) OR
                signed_drop_bit 1 (push_bit 15 (ucast (p2 AND 0xFE))) OR push_bit 7 (ucast p3) OR
                signed_drop_bit 1 (ucast (p4 AND 0xFE))) }"

definition ts_bytes :: "32 word \<Rightarrow> 64 word \<Rightarrow> byte list" where
  "ts_bytes prefix TS =
     [push_bit 4 (ucast (prefix AND 0xF)) OR push_bit 1 (ucast (signed_drop_bit 30 TS AND 0x7)) OR 0x01,
      ucast (signed_drop_bit 22 TS AND 0xFF),
      push_bit 1 (ucast (signed_drop_bit 15 TS AND 0x7F)) OR 0x01,
      ucast (signed_drop_bit 7 TS AND 0xFF),
      push_bit 1 (ucast (TS AND 0x7F)) OR 0x01]"

text \<open>A run of assignments to consecutive elements of an array.\<close>

fun wr_all :: "'a list \<Rightarrow> nat \<Rightarrow> 'a list \<Rightarrow> 'a list option" where
  "wr_all buf p [] = Some buf"
| "wr_all buf p (x # xs) = do { buf \<leftarrow> wr buf p x; wr_all buf (Suc p) xs }"

definition writeTimeStamp :: "byte list \<Rightarrow> nat \<Rightarrow> 32 word \<Rightarrow> 64 word \<Rightarrow> byte list option" where
  "writeTimeStamp buf p prefix TS = wr_all buf p (ts_bytes prefix TS)"

section \<open>Program clock references\<close>

definition readPCR :: "byte list \<Rightarrow> nat \<Rightarrow> 64 word option" where
  "readPCR buf p =
     do { p0 \<leftarrow> rd buf p; p1 \<leftarrow> rd buf (p + 1); p2 \<leftarrow> rd buf (p + 2); p3 \<leftarrow> rd buf (p + 3); p4 \<leftarrow> rd buf (p + 4);
          Some (push_bit 25 (ucast p0) OR push_bit 17 (ucast p1) OR push_bit 9 (ucast p2) OR push_bit 1 (ucast p3) OR
                signed_drop_bit 7 (ucast p4)) }"

definition writePCR :: "byte list \<Rightarrow> nat \<Rightarrow> 64 word \<Rightarrow> byte list option" where
  "writePCR buf p PCR =
     do { p4 \<leftarrow> rd buf (p + 4);
          wr_all buf p [ucast (signed_drop_bit 25 PCR AND 0xFF), ucast (signed_drop_bit 17 PCR AND 0xFF),
                        ucast (signed_drop_bit 9 PCR AND 0xFF), ucast (signed_drop_bit 1 PCR AND 0xFF),
                        push_bit 7 (ucast (PCR AND 0x01)) OR (p4 AND 0x7F)] }"

section \<open>Base64\<close>

definition b64_encoded_size :: "nat \<Rightarrow> nat" where
  "b64_encoded_size inlen = (let ret = (if inlen mod 3 \<noteq> 0 then inlen + (3 - inlen mod 3) else inlen) in ret div 3 * 4)"

definition b64_char :: "nat \<Rightarrow> nat \<Rightarrow> 32 word \<Rightarrow> byte" where
  "b64_char i len index =
     (if i > len then 61 else if index < 26 then ucast index + 65 else if index < 52 then ucast index + (97 - 26)
      else if index < 62 then ucast index + (48 - 52) else if index = 62 then 43 else 47)"

fun b64_group :: "nat \<Rightarrow> 32 word \<Rightarrow> nat \<Rightarrow> byte list \<Rightarrow> nat \<Rightarrow> byte list option" where
  "b64_group 0 tmp len output q = Some output"
| "b64_group (Suc i) tmp len output q =
     do { output \<leftarrow> wr output (q + i) (b64_char i len (tmp AND 0x3F)); b64_group i (drop_bit 6 tmp) len output q }"

text \<open>Three bytes are read for every group, also when fewer are left.\<close>

function base64_encode :: "byte list \<Rightarrow> nat \<Rightarrow> nat \<Rightarrow> byte list \<Rightarrow> nat \<Rightarrow> byte list option" where
  "base64_encode input p remsize output q =
     (if remsize > 0 then
        do { let len = (if remsize \<ge> 3 then 3 else remsize);
             a \<leftarrow> rd input p; b \<leftarrow> rd input (p + 1); c \<leftarrow> rd input (p + 2);
             let tmp = push_bit 8 (push_bit 8 (ucast a) OR ucast b) OR ucast c;
             output \<leftarrow> b64_group 4 tmp len output q;
             base64_encode input (p + 3) (remsize - len) output (q + 4) }
      else Some output)"
  by pat_completeness auto
termination
  by (relation "measure (\<lambda>(_, _, n, _, _). n)") auto

declare base64_encode.simps [simp del]


section \<open>Reading what was written\<close>

lemma wr_all_eq:
  "wr_all buf p xs = (if xs = [] \<or> p + length xs \<le> length buf then Some (take p buf @ xs @ drop (p + length xs) buf) else None)"
proof (induction xs arbitrary: buf p)
  case (Cons x xs)
  have "take (Suc p) (buf[p := x]) = take p buf @ [x]" if "p < length buf"
    using that by (simp add: take_Suc_conv_app_nth)
  with Cons show ?case by (auto simp: wr_def)
qed simp

lemma wr_all_holds:
  assumes "wr_all buf p xs = Some buf'"
  shows "holds_at buf' p xs" "length buf' = length buf" "\<And>i. i < p \<or> p + length xs \<le> i \<Longrightarrow> rd buf' i = rd buf i"
proof -
  show l: "length buf' = length buf" using assms by (auto simp: wr_all_eq split: if_splits)
  show "holds_at buf' p xs" using assms holds_at_shift[of "take p buf" "xs @ drop (p + length xs) buf" 0 xs]
    by (cases "xs = []") (auto simp: wr_all_eq min_absorb2 split: if_splits)
  show "rd buf' i = rd buf i" if "i < p \<or> p + length xs \<le> i" for i
    using assms that l by (auto simp: wr_all_eq rd_def nth_append split: if_splits)
qed

lemma masks_8: "(0x0E :: byte) = push_bit 1 (mask 3)" "(0xFE :: byte) = push_bit 1 (mask 7)" "(0x7F :: byte) = mask 7"
  by (simp_all add: mask_eq_exp_minus_1 push_bit_eq_mult)

lemma masks_64: "(0x7 :: 64 word) = mask 3" "(0xFF :: 64 word) = mask 8" "(0x7F :: 64 word) = mask 7" "(0xF :: 32 word) = mask 4"
  "(0x1FFFFFFFF :: 64 word) = mask 33"
  by (simp_all add: mask_eq_exp_minus_1)

text \<open>The fields of a time stamp, one by one.\<close>

lemma ts_field:
  fixes a :: "32 word" and TS :: "64 word"
  shows "signed_drop_bit 1 (push_bit 30 (ucast ((push_bit 4 (ucast (a AND 0xF)) OR push_bit 1 (ucast (signed_drop_bit 30 TS AND 0x7)) OR 1 :: byte) AND 0x0E))) =
     push_bit 30 (take_bit 3 (drop_bit 30 TS :: 64 word))"
    and "push_bit k (ucast (ucast (signed_drop_bit k TS AND 0xFF :: 64 word) :: byte)) = push_bit k (take_bit 8 (drop_bit k TS :: 64 word))"
    and "signed_drop_bit 1 (push_bit 15 (ucast ((push_bit 1 (ucast (signed_drop_bit 15 TS AND 0x7F)) OR 1 :: byte) AND 0xFE))) =
     push_bit 15 (take_bit 7 (drop_bit 15 TS :: 64 word))"
    and "signed_drop_bit 1 (ucast ((push_bit 1 (ucast (TS AND 0x7F)) OR 1 :: byte) AND 0xFE)) = take_bit 7 TS"
  unfolding masks_8 masks_64
  by (rule bit_word_eqI; auto simp: bit_simps simp del: One_nat_def push_bit_Suc)+


text \<open>A number is put together from the least significant field on.\<close>

lemma join_field: "push_bit k (take_bit m (drop_bit k w)) OR take_bit k w = take_bit (m + k) w" for w :: "64 word"
proof (rule bit_word_eqI)
  fix n assume "n < LENGTH(64)"
  then show "bit (push_bit k (take_bit m (drop_bit k w)) OR take_bit k w) n = bit (take_bit (m + k) w) n"
    by (cases "n < k") (auto simp: bit_simps)
qed

lemma ts_join:
  fixes TS :: "64 word"
  shows "push_bit 30 (take_bit 3 (drop_bit 30 TS)) OR push_bit 22 (take_bit 8 (drop_bit 22 TS)) OR push_bit 15 (take_bit 7 (drop_bit 15 TS)) OR
    push_bit 7 (take_bit 8 (drop_bit 7 TS)) OR take_bit 7 TS = take_bit 33 TS"
  using join_field[of 7 8 TS] join_field[of 15 7 TS] join_field[of 22 8 TS] join_field[of 30 3 TS] by (simp add: or.assoc)

lemma readTimeStamp_ts: "holds_at buf p (ts_bytes prefix TS) \<Longrightarrow> readTimeStamp buf p = Some (take_bit 33 TS)"
  unfolding ts_bytes_def holds_at_5 readTimeStamp_def by (simp add: ts_field ts_join del: push_bit_Suc One_nat_def)

lemma pcr_field:
  fixes PCR :: "64 word" and p4 :: byte
  shows "signed_drop_bit 7 (ucast (push_bit 7 (ucast (PCR AND 0x01)) OR (p4 AND 0x7F))) = take_bit 1 PCR"
    and "take_bit 7 (push_bit 7 (ucast (PCR AND 0x01)) OR (p4 AND 0x7F)) = take_bit 7 p4"
proof -
  have m: "(0x01 :: 64 word) = mask 1" "(0x7F :: byte) = mask 7" by (simp_all add: mask_eq_exp_minus_1)
  show "signed_drop_bit 7 (ucast (push_bit 7 (ucast (PCR AND 0x01)) OR (p4 AND 0x7F))) = take_bit 1 PCR"
    unfolding m by (rule bit_word_eqI) (auto simp: bit_simps simp del: One_nat_def push_bit_Suc)
  show "take_bit 7 (push_bit 7 (ucast (PCR AND 0x01)) OR (p4 AND 0x7F)) = take_bit 7 p4"
    unfolding m by (rule bit_word_eqI) (auto simp: bit_simps simp del: One_nat_def push_bit_Suc)
qed

lemma pcr_join:
  fixes PCR :: "64 word"
  shows "push_bit 25 (take_bit 8 (drop_bit 25 PCR)) OR push_bit 17 (take_bit 8 (drop_bit 17 PCR)) OR push_bit 9 (take_bit 8 (drop_bit 9 PCR)) OR
    push_bit 1 (take_bit 8 (drop_bit 1 PCR)) OR take_bit 1 PCR = take_bit 33 PCR"
  using join_field[of 1 8 PCR] join_field[of 9 8 PCR] join_field[of 17 8 PCR] join_field[of 25 8 PCR]
  by (simp add: or.assoc del: push_bit_Suc One_nat_def take_bit_Suc drop_bit_Suc)

lemma writePCR_readPCR:
  assumes "writePCR buf p PCR = Some buf'"
  shows "readPCR buf' p = Some (take_bit 33 PCR)"
    and "map_option (take_bit 7) (rd buf' (p + 4)) = map_option (take_bit 7) (rd buf (p + 4))"
    and "length buf' = length buf" and "\<And>i. i < p \<or> p + 5 \<le> i \<Longrightarrow> rd buf' i = rd buf i"
proof -
  obtain p4 where p4: "rd buf (p + 4) = Some p4"
    and w: "wr_all buf p [ucast (signed_drop_bit 25 PCR AND 0xFF), ucast (signed_drop_bit 17 PCR AND 0xFF),
       ucast (signed_drop_bit 9 PCR AND 0xFF), ucast (signed_drop_bit 1 PCR AND 0xFF), push_bit 7 (ucast (PCR AND 0x01)) OR (p4 AND 0x7F)] = Some buf'"
    using assms by (auto simp: writePCR_def bind_eq_Some_conv)
  note h = wr_all_holds[OF w]
  show "readPCR buf' p = Some (take_bit 33 PCR)"
    using h(1) unfolding holds_at_5 readPCR_def by (simp add: ts_field(2) pcr_field(1) pcr_join del: push_bit_Suc One_nat_def)
  show "map_option (take_bit 7) (rd buf' (p + 4)) = map_option (take_bit 7) (rd buf (p + 4))"
    using h(1) p4 unfolding holds_at_5 by (simp only: option.map pcr_field(2))
  show "length buf' = length buf" by (rule h(2))
  show "rd buf' i = rd buf i" if "i < p \<or> p + 5 \<le> i" for i using h(3)[of i] that by (simp add: eval_nat_numeral)
qed

section \<open>Base64 against its specification\<close>

text \<open>The encoding of RFC 4648 on numbers: a sextet as a character, and groups of three octets with padding.\<close>

definition sextet :: "nat \<Rightarrow> byte" where
  "sextet i = word_of_nat (if i < 26 then i + 65 else if i < 52 then i - 26 + 97 else if i < 62 then i - 52 + 48 else if i = 62 then 43 else 47)"

fun b64_spec :: "byte list \<Rightarrow> byte list" where
  "b64_spec [] = []"
| "b64_spec [a] = [sextet (unat a div 4), sextet (unat a mod 4 * 16), 61, 61]"
| "b64_spec [a, b] = [sextet (unat a div 4), sextet (unat a mod 4 * 16 + unat b div 16), sextet (unat b mod 16 * 4), 61]"
| "b64_spec (a # b # c # bs) =
     [sextet (unat a div 4), sextet (unat a mod 4 * 16 + unat b div 16), sextet (unat b mod 16 * 4 + unat c div 64), sextet (unat c mod 64)] @ b64_spec bs"

lemma b64_encoded_size_eq: "b64_encoded_size n = (n + 2) div 3 * 4"
proof -
  have n: "n = 3 * (n div 3) + n mod 3" by simp
  have "n mod 3 = 0 \<or> n mod 3 = 1 \<or> n mod 3 = 2" by presburger
  then show ?thesis by (elim disjE; subst (2) n; simp add: b64_encoded_size_def Let_def; subst n; simp)
qed

lemma b64_encoded_size_3: "b64_encoded_size (n + 3) = b64_encoded_size n + 4"
proof -
  have "(n + 3 + 2) div 3 = (n + 2) div 3 + 1" by presburger
  then show ?thesis by (simp add: b64_encoded_size_eq)
qed

lemma length_b64_spec: "length (b64_spec bs) = b64_encoded_size (length bs)"
proof (induction bs rule: b64_spec.induct)
  case (4 a b c bs)
  have "length (a # b # c # bs) = length bs + 3" by simp
  with 4 show ?case by (simp only: b64_encoded_size_3 b64_spec.simps length_append) simp
qed (simp_all add: b64_encoded_size_eq)


lemma b64_char_sextet:
  assumes "index < 64" "i \<le> len"
  shows "b64_char i len (word_of_nat index) = sextet index"
proof -
  have l: "(word_of_nat index < (k :: 32 word)) = (index < unat k)" "(word_of_nat index = k) = (index = unat k)" for k
    using assms(1) by (auto simp: word_less_nat_alt word_unat_eq_iff unat_of_nat)
  have u: "ucast (word_of_nat index :: 32 word) = (word_of_nat index :: byte)"
    using assms(1) by (simp add: word_unat_eq_iff unat_of_nat unsigned_ucast_eq take_bit_nat_eq_self take_bit_eq_mod)
  have d: "word_of_nat index + (48 - 52) = (word_of_nat (index - 52 + 48) :: byte)" "word_of_nat index + (97 - 26) = (word_of_nat (index - 26 + 97) :: byte)"
    if "52 \<le> index" "26 \<le> index" for index using that by (simp_all add: of_nat_diff)
  have e: "word_of_nat index + (97 - 26) = (word_of_nat (index - 26 + 97) :: byte)" if "26 \<le> index" for index
    using that by (simp add: of_nat_diff)
  consider "index < 26" | "26 \<le> index" "index < 52" | "52 \<le> index" "index < 62" | "index = 62" | "index = 63" using assms(1) by linarith
  then show ?thesis
  proof cases
    case 1 with assms(2) show ?thesis unfolding b64_char_def sextet_def l u by simp
  next
    case 2 with assms(2) show ?thesis unfolding b64_char_def sextet_def l u e[OF 2(1)] by simp
  next
    case 3
    then have "26 \<le> index" by simp
    with 3 assms(2) show ?thesis unfolding b64_char_def sextet_def l u d(1)[OF 3(1) \<open>26 \<le> index\<close>] by simp
  next
    case 4 with assms(2) show ?thesis unfolding b64_char_def sextet_def l u by simp
  next
    case 5 with assms(2) show ?thesis unfolding b64_char_def sextet_def l u by simp
  qed
qed

lemma b64_char_group: "index < 64 \<Longrightarrow> b64_char i len (word_of_nat index) = (if i > len then 61 else sextet index)"
  using b64_char_sextet[of index i len] by (auto simp: b64_char_def)

text \<open>The four sextets of a group.\<close>

lemma b64_tmp: "push_bit 8 (push_bit 8 (ucast a) OR ucast b) OR ucast c = be32 0 a b c"
  unfolding be32_def by (rule bit_word_eqI) (auto simp: bit_simps)

lemma and_63: "(w :: 32 word) AND 0x3F = word_of_nat (unat w mod 64)"
proof -
  have "w AND 0x3F = take_bit 6 w" by (simp add: take_bit_eq_mask mask_eq_exp_minus_1)
  then show ?thesis by (simp add: take_bit_eq_mod word_unat_eq_iff unat_mod unat_of_nat)
qed

lemma b64_group_4:
  assumes "q + 4 \<le> length output"
  shows "b64_group 4 tmp len output q = Some (take q output @
    [b64_char 0 len (word_of_nat (unat tmp div 262144 mod 64)), b64_char 1 len (word_of_nat (unat tmp div 4096 mod 64)),
     b64_char 2 len (word_of_nat (unat tmp div 64 mod 64)), b64_char 3 len (word_of_nat (unat tmp mod 64))] @ drop (q + 4) output)"
proof -
  have d: "unat (drop_bit 6 w) = unat w div 64" "unat (drop_bit 12 w) = unat w div 4096" "unat (drop_bit 18 w) = unat w div 262144"
    for w :: "32 word" by (simp_all add: drop_bit_eq_div unat_div)
  have n: "(2 :: nat) = Suc (Suc 0)" "(3 :: nat) = Suc (Suc (Suc 0))" by simp_all
  have 4: "(4 :: nat) = Suc (Suc (Suc (Suc 0)))" by simp
  obtain pre post where o1: "output = pre @ post" "length pre = q" "4 \<le> length post"
    using assms by (intro that[of "take q output" "drop q output"]) auto
  then obtain w x y z post' where o2: "post = w # x # y # z # post'"
    unfolding 4 by (auto simp: Suc_le_length_iff)
  show ?thesis
    unfolding 4 o1(1) o2 o1(2)[symmetric] b64_group.simps
    by (simp add: wr_def list_update_append and_63 d n(1)[symmetric] n(2)[symmetric])
qed

text \<open>The sextets of a group, as numbers.\<close>

lemma group_sextets:
  "unat (be32 0 a b c) div 262144 mod 64 = unat a div 4" "unat (be32 0 a b c) div 4096 mod 64 = unat a mod 4 * 16 + unat b div 16"
  "unat (be32 0 a b c) div 64 mod 64 = unat b mod 16 * 4 + unat c div 64" "unat (be32 0 a b c) mod 64 = unat c mod 64"
  "unat a div 4 < 64" "unat a mod 4 * 16 + unat b div 16 < 64" "unat b mod 16 * 4 + unat c div 64 < 64" "unat c mod 64 < 64"
proof -
  have n: "unat (be32 0 a b c) = 65536 * unat a + 256 * unat b + unat c" by (simp add: unat_be32)
  have l: "unat a < 256" "unat b < 256" "unat c < 256" by (rule unat_byte)+
  have t: "(65536 * a' + 256 * b' + c') div 262144 mod 64 = a' div 4" "(65536 * a' + 256 * b' + c') div 4096 mod 64 = a' mod 4 * 16 + b' div 16"
    "(65536 * a' + 256 * b' + c') div 64 mod 64 = b' mod 16 * 4 + c' div 64" "(65536 * a' + 256 * b' + c') mod 64 = c' mod 64"
    if "a' < 256" "b' < 256" "c' < 256" for a' b' c' :: nat
  proof -
    define a1 a0 b1 b0 c1 c0 where p: "a1 = a' div 4" "a0 = a' mod 4" "b1 = b' div 16" "b0 = b' mod 16" "c1 = c' div 64" "c0 = c' mod 64"
    have e: "a' = 4 * a1 + a0" "b' = 16 * b1 + b0" "c' = 64 * c1 + c0" and less: "a0 < 4" "b0 < 16" "c0 < 64" by (simp_all add: p)
    have u: "a1 < 64" "b1 < 16" "c1 < 4" using that e by linarith+
    have "(65536 * a' + 256 * b' + c') div 262144 = a1" using e less u that by (intro div_nat_eqI) simp_all
    moreover have "(65536 * a' + 256 * b' + c') div 4096 = 64 * a1 + (a0 * 16 + b1)" using e less u that by (intro div_nat_eqI) simp_all
    moreover have "(65536 * a' + 256 * b' + c') div 64 = 64 * (16 * a' + b1) + (b0 * 4 + c1)" using e less u that by (intro div_nat_eqI) simp_all
    moreover have "65536 * a' + 256 * b' + c' = 64 * (1024 * a' + 4 * b' + c1) + c0" using e(3) by (simp add: algebra_simps)
    moreover have "a0 * 16 + b1 < 64" "b0 * 4 + c1 < 64" using less u by linarith+
    ultimately show "(65536 * a' + 256 * b' + c') div 262144 mod 64 = a' div 4" "(65536 * a' + 256 * b' + c') div 4096 mod 64 = a' mod 4 * 16 + b' div 16"
      "(65536 * a' + 256 * b' + c') div 64 mod 64 = b' mod 16 * 4 + c' div 64" "(65536 * a' + 256 * b' + c') mod 64 = c' mod 64"
      using u less by (simp_all only: p[symmetric] mod_mult_self2 mod_mult_self3 mod_mult_self4 mod_less)
  qed
  show "unat (be32 0 a b c) div 262144 mod 64 = unat a div 4" "unat (be32 0 a b c) div 4096 mod 64 = unat a mod 4 * 16 + unat b div 16"
    "unat (be32 0 a b c) div 64 mod 64 = unat b mod 16 * 4 + unat c div 64" "unat (be32 0 a b c) mod 64 = unat c mod 64"
    unfolding n using t[OF l] by simp_all
  show "unat a div 4 < 64" "unat a mod 4 * 16 + unat b div 16 < 64" "unat b mod 16 * 4 + unat c div 64 < 64" "unat c mod 64 < 64"
    using less_mult_imp_div_less[of "unat a" 64 4] less_mult_imp_div_less[of "unat b" 16 16] less_mult_imp_div_less[of "unat c" 4 64]
      mod_less_divisor[of 4 "unat a"] mod_less_divisor[of 16 "unat b"] l by simp_all
qed

lemma base64_step:
  assumes "rd input p = Some a" "rd input (p + 1) = Some b" "rd input (p + 2) = Some c" "q + 4 \<le> length out" "n > 0"
  shows "base64_encode input p n out q = base64_encode input (p + 3) (n - (if n \<ge> 3 then 3 else n))
    (take q out @ [sextet (unat a div 4), sextet (unat a mod 4 * 16 + unat b div 16),
       (if n = 1 then 61 else sextet (unat b mod 16 * 4 + unat c div 64)), (if n < 3 then 61 else sextet (unat c mod 64))] @ drop (q + 4) out) (q + 4)"
proof -
  define len where "len = (if n \<ge> 3 then 3 else n)"
  have len: "len = 1 \<and> n = 1 \<or> len = 2 \<and> n = 2 \<or> len = 3 \<and> n \<ge> 3" using assms(5) by (auto simp: len_def)
  have c: "b64_char 0 len (word_of_nat (unat a div 4)) = sextet (unat a div 4)"
    "b64_char 1 len (word_of_nat (unat a mod 4 * 16 + unat b div 16)) = sextet (unat a mod 4 * 16 + unat b div 16)"
    "b64_char 2 len (word_of_nat (unat b mod 16 * 4 + unat c div 64)) = (if n = 1 then 61 else sextet (unat b mod 16 * 4 + unat c div 64))"
    "b64_char 3 len (word_of_nat (unat c mod 64)) = (if n < 3 then 61 else sextet (unat c mod 64))"
    using len group_sextets(5)[of a] group_sextets(6)[of a b] group_sextets(7)[of b c] group_sextets(8)[of c]
    by (simp_all only: b64_char_group) auto
  show ?thesis
    using assms(5) by (subst base64_encode.simps) (simp only: Let_def assms bind.bind_lunit b64_tmp b64_group_4[OF assms(4)] group_sextets(1-4) c
      len_def[symmetric] if_True)
qed

lemma base64_encode_spec:
  assumes "holds_at input p (bs @ replicate ((3 - length bs mod 3) mod 3) 0)" "q + b64_encoded_size (length bs) \<le> length out"
  shows "base64_encode input p (length bs) out q = Some (take q out @ b64_spec bs @ drop (q + b64_encoded_size (length bs)) out)"
  using assms
proof (induction bs arbitrary: p q out rule: b64_spec.induct)
  case 1
  then show ?case by (simp add: base64_encode.simps b64_encoded_size_eq)
next
  case (2 a)
  then have o: "q + 4 \<le> length out" and r: "rd input p = Some a" "rd input (p + 1) = Some 0" "rd input (p + 2) = Some 0"
    by (simp_all add: b64_encoded_size_eq numeral_2_eq_2)
  show ?case using base64_step[OF r o, of 1] by (simp add: base64_encode.simps[of _ _ 0] b64_encoded_size_eq)
next
  case (3 a b)
  then have o: "q + 4 \<le> length out" and r: "rd input p = Some a" "rd input (p + 1) = Some b" "rd input (p + 2) = Some 0"
    by (simp_all add: b64_encoded_size_eq numeral_2_eq_2)
  show ?case using base64_step[OF r o, of 2] by (simp add: base64_encode.simps[of _ _ 0] b64_encoded_size_eq numeral_2_eq_2)
next
  case (4 a b c bs)
  have s: "length (a # b # c # bs) = length bs + 3" by simp
  have m: "(length bs + 3) mod 3 = length bs mod 3" by simp
  have o: "q + 4 \<le> length out" using 4(3) unfolding s b64_encoded_size_3 by simp
  have r: "rd input p = Some a" "rd input (p + 1) = Some b" "rd input (p + 2) = Some c"
    and h: "holds_at input (p + 3) (bs @ replicate ((3 - length bs mod 3) mod 3) 0)"
    using 4(2) unfolding s m by (simp_all add: holds_at_3 del: holds_at.simps holds_at_append)
  let ?g = "[sextet (unat a div 4), sextet (unat a mod 4 * 16 + unat b div 16), sextet (unat b mod 16 * 4 + unat c div 64), sextet (unat c mod 64)]"
  let ?out = "take q out @ ?g @ drop (q + 4) out"
  have "base64_encode input p (length bs + 3) out q = base64_encode input (p + 3) (length bs) ?out (q + 4)"
    using base64_step[OF r o, of "length bs + 3"] by simp
  also have "\<dots> = Some (take (q + 4) ?out @ b64_spec bs @ drop (q + 4 + b64_encoded_size (length bs)) ?out)"
    using 4(3) o unfolding s b64_encoded_size_3 by (intro 4(1)[OF h]) simp
  also have "take (q + 4) ?out = take q out @ ?g" using o by simp
  also have "drop (q + 4 + b64_encoded_size (length bs)) ?out = drop (q + (b64_encoded_size (length bs) + 4)) out"
  proof -
    have d: "drop (n + k) (h @ r) = drop k r" if "length h = n" for n k and h r :: "byte list" using that by simp
    have "?out = (take q out @ ?g) @ drop (q + 4) out" "length (take q out @ ?g) = q + 4" using o by simp_all
    then show ?thesis by (simp only: d) (simp add: add.commute add.left_commute)
  qed
  finally show ?case unfolding s b64_encoded_size_3 by simp
qed

lemma base64_overread:
  "length bs mod 3 \<noteq> 0 \<Longrightarrow> q + b64_encoded_size (length bs) \<le> length out \<Longrightarrow> base64_encode (pre @ bs) (length pre) (length bs) out q = None"
proof (induction bs arbitrary: pre q out rule: b64_spec.induct)
  case (4 a b c bs)
  have s: "length (a # b # c # bs) = length bs + 3" by simp
  have o: "q + 4 \<le> length out" "q + 4 + b64_encoded_size (length bs) \<le> length out" using 4(3) unfolding s b64_encoded_size_3 by simp_all
  have r: "rd (pre @ a # b # c # bs) (length pre) = Some a" "rd (pre @ a # b # c # bs) (length pre + 1) = Some b"
      "rd (pre @ a # b # c # bs) (length pre + 2) = Some c"
    by (simp_all add: rd_def nth_append)
  let ?out = "take q out @ [sextet (unat a div 4), sextet (unat a mod 4 * 16 + unat b div 16), sextet (unat b mod 16 * 4 + unat c div 64), sextet (unat c mod 64)] @ drop (q + 4) out"
  have "base64_encode (pre @ a # b # c # bs) (length pre) (length bs + 3) out q = base64_encode ((pre @ [a, b, c]) @ bs) (length (pre @ [a, b, c])) (length bs) ?out (q + 4)"
    using base64_step[OF r o(1), of "length bs + 3"] by (simp add: numeral_3_eq_3)
  also have "\<dots> = None" using 4(2) o unfolding s by (intro 4(1)) simp_all
  finally show ?case unfolding s .
qed (simp_all add: base64_encode.simps rd_def nth_append)

text \<open>C14. Base64. When the bytes are followed by zeros up to a multiple of three, the encoder writes exactly the encoding of RFC 4648 with its padding, and
  nothing outside of it. It reads whole groups: with an array that ends behind the bytes and a length that is no multiple of three, it reads behind
  the array.\<close>

theorem base64_encode_rfc4648:
  assumes "q + b64_encoded_size (length bs) \<le> length out"
  shows "base64_encode (pre @ bs @ replicate ((3 - length bs mod 3) mod 3) 0) (length pre) (length bs) out q =
       Some (take q out @ b64_spec bs @ drop (q + b64_encoded_size (length bs)) out) \<and>
     (length bs mod 3 \<noteq> 0 \<longrightarrow> base64_encode (pre @ bs) (length pre) (length bs) out q = None)"
proof -
  have "holds_at (pre @ bs @ replicate ((3 - length bs mod 3) mod 3) 0) (length pre) (bs @ replicate ((3 - length bs mod 3) mod 3) 0)"
    using holds_at_shift[of pre "bs @ replicate ((3 - length bs mod 3) mod 3) 0" 0] holds_at_self[of _ "[]"] by (metis add_0_right append_Nil2)
  with base64_encode_spec assms base64_overread show ?thesis by blast
qed

theorem base64_encode_rfc4648_witness:
  "base64_encode [77, 0, 0] 0 1 [0, 0, 0, 0] 0 = Some [84, 81, 61, 61] \<and> base64_encode [77] 0 1 [0, 0, 0, 0] 0 = None"
proof -
  have "b64_spec [77] = [84, 81, 61, 61]" by code_simp
  then show ?thesis using base64_encode_rfc4648[where q = 0 and bs = "[77]" and out = "[0, 0, 0, 0]" and pre = "[]"]
    by (simp add: b64_encoded_size_def numeral_2_eq_2)
qed

end
