(* ===== verification/RbiRetime.thy ===== *)
theory RbiRetime
  imports RbiState RbiTime "HOL-Library.Signed_Division"
begin

text \<open>
  Restamping: \<open>reTimestamp\<close>, \<open>reTimestampDuringTransitionToAd\<close> and \<open>reTimestampDuringTransitionBack\<close> of \<open>rbi/rbi.cpp\<close>. Packets of
  the inserted stream get clock references and time stamps that continue those of the network stream.

  Floating point: \<open>(long long)(x + 0.5)\<close> truncates towards zero; for a time difference, which is exact as a \<open>double\<close>, this is
  \<open>trunc_half\<close>. A quotient by 90000.0 is compared with constants c for which c times 90000 is a whole number; since
  division and the constants are rounded correctly, the comparison is that of the numbers.
  \<open>due i\<close> is \<open>timeDeltaFrames\<close> at the i-th byte: frames the clock asks for, less the frames sent.
\<close>

section \<open>Pieces of a packet\<close>

definition trunc_half :: "int \<Rightarrow> int" where
  "trunc_half x = (if x \<ge> 0 then x else x + 1)"

definition packet_pid :: "byte list \<Rightarrow> nat \<Rightarrow> nat option" where
  "packet_pid buf off = do { b1 \<leftarrow> rd buf (off + 1); b2 \<leftarrow> rd buf (off + 2); Some (unat (be16 b1 b2 AND 0x1FFF)) }"

text \<open>The three bytes of a PES start code, compared one after the other.\<close>

definition pes_start :: "byte list \<Rightarrow> nat \<Rightarrow> bool option" where
  "pes_start buf p =
     do { a \<leftarrow> rd buf p;
          if a \<noteq> 0 then Some False
          else do { b \<leftarrow> rd buf (p + 1);
                    if b \<noteq> 0 then Some False else do { c \<leftarrow> rd buf (p + 2); Some (c = 1) } } }"

definition stamp :: "byte list \<Rightarrow> nat \<Rightarrow> int option" where
  "stamp buf p = map_option uint (readTimeStamp buf p)"

text \<open>\<open>writeTimeStamp( &packet[p], packet[p]>>4, TS )\<close>.\<close>

definition restamp :: "byte list \<Rightarrow> nat \<Rightarrow> int \<Rightarrow> byte list option" where
  "restamp buf p TS = do { b \<leftarrow> rd buf p; writeTimeStamp buf p (drop_bit 4 (ucast b)) (word_of_int TS) }"

text \<open>The loop over the packets of a buffer. With a packet size of 0 it does not end.\<close>

partial_function (option) packet_loop ::
  "(nat \<Rightarrow> nat \<Rightarrow> byte list \<Rightarrow> RBIStreamProcessor \<Rightarrow> (byte list \<times> RBIStreamProcessor) option) \<Rightarrow> nat \<Rightarrow> nat \<Rightarrow> nat \<Rightarrow> byte list \<Rightarrow>
   RBIStreamProcessor \<Rightarrow> (byte list \<times> RBIStreamProcessor) option" where
  [code]: "packet_loop step len i off buf S =
     (if i < len then
        do { (buf, S) \<leftarrow> step i off buf S; packet_loop step len (i + m_packetSize S) (off + m_packetSize S) buf S }
      else Some (buf, S))"

section \<open>During the insertion\<close>

definition base_time :: "RBIStreamProcessor \<Rightarrow> RBIStreamProcessor option" where
  "base_time S =
     (if m_haveBaseTime S then Some S
      else do {
        let S = S\<lparr>m_haveBaseTime := True\<rparr>;
        let S = (if m_b2bSavedAudioPacketsCnt S > 0
                 then S\<lparr>m_prevAdBaseTime := m_baseTime S, m_prevAdSegmentBaseTime := m_segmentBaseTime S\<rparr> else S);
        (startPTS, startPCR) \<leftarrow> m_insertSrc S;
        let ticks = m_ttsInsert S - m_lastMappedPCRTTSValue S;
        let S = S\<lparr>m_baseTime := startPTS, m_segmentBaseTime := m_currentMappedPTS S + 1501, m_basePCR := startPCR\<rparr>;
        let S = (if ticks div (300 * 90000) < 1 then S\<lparr>m_segmentBasePCR := m_currentMappedPCR S + uint (ticks div 300)\<rparr> else S);
        Some (S\<lparr>m_currentMappedPCR := m_segmentBasePCR S\<rparr>) })"

definition near_end :: "RBIStreamProcessor \<Rightarrow> bool" where
  "near_end S = (m_adVideoFrameCount S \<ge> m_netReplaceableVideoFramesCnt S - 120)"

text \<open>The new clock reference of a packet, before it is held above \<open>m_mapStartPCR\<close>.\<close>

definition adjusted_pcr :: "RBIStreamProcessor \<Rightarrow> int \<times> RBIStreamProcessor" where
  "adjusted_pcr S =
     (if \<not> m_haveSegmentBasePCRAfterTransitionToAd S then
        let r = (m_segmentBasePCR S + (uint (m_ttsInsert S) - m_firstAdPacketAfterTransitionTTSValue S) sdiv 300) AND MAX_90K
        in (r, S\<lparr>m_haveSegmentBasePCRAfterTransitionToAd := True, m_segmentBasePCR := r, m_basePCR := m_lastAdPCR S\<rparr>)
      else if m_adVideoPktsDelayed S \<or> m_adAudioPktsDelayed S \<or> m_adVideoPktsTooFast S \<or> m_adVideoPktsDelayedPCRBased S then
        let r = (trunc_half (uint ((m_ttsInsert S - m_lastMappedPCRTTSValue S) div 300)) + m_currentMappedPCR S) AND MAX_90K
        in (r, S\<lparr>m_segmentBasePCR := r, m_basePCR := m_lastAdPCR S\<rparr>)
      else ((trunc_half (m_lastAdPCR S - m_basePCR S) + m_segmentBasePCR S) AND MAX_90K, S))"

definition pcr_pacing :: "RBIStreamProcessor \<Rightarrow> RBIStreamProcessor" where
  "pcr_pacing S =
     (if m_currentPCR S \<noteq> m_prevCurrentPCR S then
        let delta = m_currentMappedPCR S - m_currentPCR S;
            S = S\<lparr>m_prevCurrentPCR := m_currentPCR S\<rparr>
        in if \<not> near_end S then
             let S = (if \<not> m_adVideoPktsDelayedPCRBased S \<and> \<not> m_adVideoPktsTooFast S \<and> delta > 18000 then S\<lparr>m_adVideoPktsDelayedPCRBased := True\<rparr>
                      else if m_adVideoPktsDelayedPCRBased S \<and> delta < 0 then S\<lparr>m_adVideoPktsDelayedPCRBased := False\<rparr> else S)
             in if \<not> m_adVideoPktsTooFast S \<and> delta < - 18000 then S\<lparr>m_adVideoPktsDelayedPCRBased := False, m_adVideoPktsTooFast := True\<rparr>
                else if m_adVideoPktsTooFast S \<and> delta > 0 then S\<lparr>m_adVideoPktsTooFast := False\<rparr> else S
           else S
      else S)"

definition retime_pcr :: "nat \<Rightarrow> byte list \<Rightarrow> RBIStreamProcessor \<Rightarrow> (byte list \<times> RBIStreamProcessor) option" where
  "retime_pcr off buf S =
     do { adaptationLen \<leftarrow> rd buf (off + 4); adaptationFlags \<leftarrow> rd buf (off + 5);
          if adaptationLen > 0 \<and> adaptationFlags AND 0x10 \<noteq> 0 then
            do { pcr \<leftarrow> map_option uint (readPCR buf (off + 6));
                 let (r, S) = adjusted_pcr (S\<lparr>m_lastAdPCR := pcr, m_currentInsertPCR := pcr\<rparr>);
                 let (r, S) = (if r < m_mapStartPCR S
                               then let s = (m_mapStartPCR S + 10) AND MAX_90K in (s, S\<lparr>m_mapStartPCR := s\<rparr>) else (r, S));
                 buf \<leftarrow> writePCR buf (off + 6) (word_of_int r);
                 buf \<leftarrow> wr buf off 0x48;
                 Some (buf, pcr_pacing (S\<lparr>m_currentMappedPCR := r\<rparr>)) }
          else Some (buf, S) }"

text \<open>The bases of a time stamp: audio that was saved from the previous spot keeps the bases of that spot.\<close>

definition mapped_time :: "nat \<Rightarrow> int \<Rightarrow> RBIStreamProcessor \<Rightarrow> int" where
  "mapped_time pid t S =
     (if int pid = m_audioPid S \<and> m_b2bSavedAudioPacketsCnt S > 0
      then trunc_half (t - m_prevAdBaseTime S) + m_prevAdSegmentBaseTime S
      else trunc_half (t - m_baseTime S) + m_segmentBaseTime S) AND MAX_90K"

definition video_pacing :: "int \<Rightarrow> RBIStreamProcessor \<Rightarrow> RBIStreamProcessor" where
  "video_pacing timeDeltaFrames S =
     (if near_end S then
        let S = (if \<not> m_adVideoPktsDelayed S \<and> timeDeltaFrames > 8 then S\<lparr>m_adVideoPktsDelayed := True\<rparr>
                 else if m_adVideoPktsDelayed S \<and> timeDeltaFrames < - 4 then S\<lparr>m_adVideoPktsDelayed := False\<rparr> else S)
        in S\<lparr>m_adVideoPktsTooFast := False, m_adVideoPktsDelayedPCRBased := False\<rparr>
      else S)"

definition audio_pacing :: "nat \<Rightarrow> int \<Rightarrow> RBIStreamProcessor \<Rightarrow> RBIStreamProcessor" where
  "audio_pacing pid dts S =
     (if m_currentMappedPCR S \<noteq> -1 \<and> int pid = m_audioPid S \<and> dts \<noteq> 0 then
        if \<not> m_adAudioPktsDelayed S \<and> (m_currentMappedPCR S > dts \<or> near_end S \<and> dts - m_currentMappedPCR S < 45000)
        then S\<lparr>m_adAudioPktsDelayed := True, m_adVideoPktsTooFast := False\<rparr>
        else if m_adAudioPktsDelayed S \<and>
                (\<not> near_end S \<and> m_currentMappedPCR S \<le> dts \<or> near_end S \<and> dts - m_currentMappedPCR S > 54000)
        then S\<lparr>m_adAudioPktsDelayed := False\<rparr> else S
      else S)"

text \<open>The two stamps of a PES header: the position behind the stamp, the new stamp (0 without a stamp), the buffer and the state.\<close>

definition retime_pts :: "int \<Rightarrow> nat \<Rightarrow> bool \<Rightarrow> nat \<Rightarrow> byte list \<Rightarrow> RBIStreamProcessor \<Rightarrow> (nat \<times> int \<times> byte list \<times> RBIStreamProcessor) option" where
  "retime_pts timeDeltaFrames pid present tsbase buf S =
     (if present then
        do { PTS \<leftarrow> stamp buf tsbase;
             let r = mapped_time pid PTS S;
             buf \<leftarrow> restamp buf tsbase r;
             let S = (if int pid = m_pcrPid S then S\<lparr>m_currentMappedPTS := r\<rparr> else S);
             let S = (if int pid = m_videoPid S then video_pacing timeDeltaFrames (S\<lparr>m_lastAdVideoFramePTS := PTS\<rparr>) else S);
             Some (tsbase + 5, r, buf, S) }
      else Some (tsbase, 0, buf, S))"

definition retime_dts :: "nat \<Rightarrow> bool \<Rightarrow> nat \<Rightarrow> byte list \<Rightarrow> RBIStreamProcessor \<Rightarrow> (int \<times> byte list) option" where
  "retime_dts pid present tsbase buf S =
     (if present then
        do { DTS \<leftarrow> stamp buf tsbase;
             let r = mapped_time pid DTS S;
             buf \<leftarrow> restamp buf tsbase r;
             Some (r, buf) }
      else Some (0, buf))"

definition retime_pes :: "int \<Rightarrow> nat \<Rightarrow> nat \<Rightarrow> byte list \<Rightarrow> RBIStreamProcessor \<Rightarrow> (byte list \<times> RBIStreamProcessor) option" where
  "retime_pes timeDeltaFrames pid payload buf S =
     do { flags \<leftarrow> rd buf (payload + 7); _ \<leftarrow> rd buf (payload + 8);
          (tsbase, pts, buf, S) \<leftarrow> retime_pts timeDeltaFrames pid (flags AND 0x80 \<noteq> 0) (payload + 9) buf S;
          (dts, buf) \<leftarrow> retime_dts pid (flags AND 0x40 \<noteq> 0) tsbase buf S;
          Some (buf, audio_pacing pid (if dts = 0 then pts else dts) S) }"

definition reTimestamp_packet ::
  "(nat \<Rightarrow> int) \<Rightarrow> nat \<Rightarrow> nat \<Rightarrow> byte list \<Rightarrow> RBIStreamProcessor \<Rightarrow> (byte list \<times> RBIStreamProcessor) option" where
  "reTimestamp_packet due i off buf S =
     do { b1 \<leftarrow> rd buf (off + 1); b3 \<leftarrow> rd buf (off + 3); pid \<leftarrow> packet_pid buf off;
          (payload, buf, S) \<leftarrow>
            (if b3 AND 0x20 \<noteq> 0 then
               do { (buf, S) \<leftarrow> retime_pcr off buf S; l \<leftarrow> rd buf (off + 4); Some (off + 4 + 1 + unat l, buf, S) }
             else Some (off + 4, buf, S));
          if b1 AND 0x40 \<noteq> 0 then
            do { pes \<leftarrow> pes_start buf payload; if pes then retime_pes (due i) pid payload buf S else Some (buf, S) }
          else Some (buf, S) }"

definition reTimestamp ::
  "(nat \<Rightarrow> int) \<Rightarrow> nat \<Rightarrow> nat \<Rightarrow> byte list \<Rightarrow> RBIStreamProcessor \<Rightarrow> (byte list \<times> RBIStreamProcessor) option" where
  "reTimestamp due off len buf S = do { S \<leftarrow> base_time S; packet_loop (reTimestamp_packet due) len 0 off buf S }"

section \<open>The transitions\<close>

definition transition_base :: "RBIStreamProcessor \<Rightarrow> RBIStreamProcessor option" where
  "transition_base S =
     (if m_haveBaseTime S then Some S
      else do {
        (startPTS, startPCR) \<leftarrow> m_insertSrc S;
        let pcr = (if m_mapStartPCR S \<noteq> -1 then m_mapStartPCR S else m_currentPCR S);
        Some (S\<lparr>m_haveBaseTime := True, m_baseTime := startPTS, m_basePCR := startPCR,
                m_segmentBaseTime := (if m_mapStartPTS S \<noteq> -1 then m_mapStartPTS S else m_currentPTS S),
                m_segmentBasePCR := pcr, m_currentMappedPCR := pcr\<rparr>) })"

text \<open>The time stamp of a packet's arrival is in the four bytes in front of it.\<close>

definition packet_tts :: "byte list \<Rightarrow> nat \<Rightarrow> 32 word option" where
  "packet_tts buf off =
     (if off \<ge> 4 then
        do { a \<leftarrow> rd buf (off - 4); b \<leftarrow> rd buf (off - 3); c \<leftarrow> rd buf (off - 2); d \<leftarrow> rd buf (off - 1);
             Some (push_bit 24 (ucast a) OR push_bit 16 (ucast b) OR push_bit 8 (ucast c) OR ucast d) }
      else None)"

definition transition_pcr :: "nat \<Rightarrow> byte list \<Rightarrow> RBIStreamProcessor \<Rightarrow> (byte list \<times> RBIStreamProcessor) option" where
  "transition_pcr off buf S =
     do { adaptationFieldLength \<leftarrow> rd buf (off + 4); adaptationFlags \<leftarrow> rd buf (off + 5);
          if adaptationFieldLength \<noteq> 0 \<and> adaptationFlags AND 0x10 \<noteq> 0 then
            do { pcr \<leftarrow> map_option uint (readPCR buf (off + 6));
                 tts \<leftarrow> packet_tts buf off;
                 let S = S\<lparr>m_lastAdPCR := pcr\<rparr>;
                 let S = (if m_currentPCR S \<noteq> -1
                          then S\<lparr>m_currentMappedPCR := (m_currentPCR S + uint ((tts - m_lastPCRTTSValue S) div 300)) AND MAX_90K\<rparr>
                          else let r = (pcr - m_basePCR S + m_segmentBasePCR S) AND MAX_90K; s = (m_mapStartPCR S + 10) AND MAX_90K in
                               if r < m_mapStartPCR S
                               then S\<lparr>m_currentInsertPCR := pcr, m_mapStartPCR := s, m_currentMappedPCR := s\<rparr>
                               else S\<lparr>m_currentInsertPCR := pcr, m_currentMappedPCR := r\<rparr>);
                 buf \<leftarrow> writePCR buf (off + 6) (word_of_int (m_currentMappedPCR S));
                 Some (buf, S\<lparr>m_lastMappedPCRTTSValue := tts\<rparr>) }
          else Some (buf, S) }"

text \<open>One time stamp, when its flag is set: the position behind it, the stamp that was read and the one written (0 without a stamp).\<close>

definition shift_stamp :: "bool \<Rightarrow> nat \<Rightarrow> byte list \<Rightarrow> RBIStreamProcessor \<Rightarrow> (nat \<times> int \<times> int \<times> byte list) option" where
  "shift_stamp present tsbase buf S =
     (if present then
        do { TS \<leftarrow> stamp buf tsbase;
             let r = (TS - m_baseTime S + m_segmentBaseTime S) AND MAX_90K;
             buf \<leftarrow> restamp buf tsbase r;
             Some (tsbase + 5, TS, r, buf) }
      else Some (tsbase, 0, 0, buf))"

definition transition_pes :: "nat \<Rightarrow> byte list \<Rightarrow> RBIStreamProcessor \<Rightarrow> (byte list \<times> RBIStreamProcessor) option" where
  "transition_pes payload buf S =
     do { flags \<leftarrow> rd buf (payload + 7);
          (tsbase, PTS, pts, buf) \<leftarrow> shift_stamp (flags AND 0x80 \<noteq> 0) (payload + 9) buf S;
          (tsbase, DTS, dts, buf) \<leftarrow> shift_stamp (flags AND 0x40 \<noteq> 0) tsbase buf S;
          let (DTS, dts) = (if dts = 0 then (PTS, pts) else (DTS, dts));
          Some (buf, if m_lastAdPCR S \<noteq> -1 \<and> dts - m_currentMappedPCR S < DTS - m_lastAdPCR S
                     then S\<lparr>m_removeNull_PSIPackets := True\<rparr> else S) }"

definition toAd_packet :: "nat \<Rightarrow> nat \<Rightarrow> byte list \<Rightarrow> RBIStreamProcessor \<Rightarrow> (byte list \<times> RBIStreamProcessor) option" where
  "toAd_packet i off buf S =
     do { b1 \<leftarrow> rd buf (off + 1); b3 \<leftarrow> rd buf (off + 3); _ \<leftarrow> packet_pid buf off;
          (payload, buf, S) \<leftarrow>
            (if b3 AND 0x20 \<noteq> 0 then
               do { (buf, S) \<leftarrow> transition_pcr off buf S; l \<leftarrow> rd buf (off + 4); Some (off + 4 + 1 + unat l, buf, S) }
             else Some (off + 4, buf, S));
          if b1 AND 0x40 \<noteq> 0 then
            do { pes \<leftarrow> pes_start buf payload; if pes then transition_pes payload buf S else Some (buf, S) }
          else Some (buf, S) }"

definition reTimestampDuringTransitionToAd ::
  "nat \<Rightarrow> nat \<Rightarrow> byte list \<Rightarrow> RBIStreamProcessor \<Rightarrow> (byte list \<times> RBIStreamProcessor) option" where
  "reTimestampDuringTransitionToAd off len buf S = do { S \<leftarrow> transition_base S; packet_loop toAd_packet len 0 off buf S }"

definition back_pes :: "nat \<Rightarrow> nat \<Rightarrow> byte list \<Rightarrow> RBIStreamProcessor \<Rightarrow> (byte list \<times> RBIStreamProcessor) option" where
  "back_pes pid payload buf S =
     do { flags \<leftarrow> rd buf (payload + 7); _ \<leftarrow> rd buf (payload + 8);
          (tsbase, PTS, pts, buf) \<leftarrow> shift_stamp (flags AND 0x80 \<noteq> 0) (payload + 9) buf S;
          let S = (if flags AND 0x80 \<noteq> 0 \<and> int pid = m_pcrPid S then S\<lparr>m_currentMappedPTS := pts\<rparr> else S);
          (tsbase, DTS, dts, buf) \<leftarrow> shift_stamp (flags AND 0x40 \<noteq> 0) tsbase buf S;
          Some (buf, S) }"

definition back_packet :: "nat \<Rightarrow> nat \<Rightarrow> byte list \<Rightarrow> RBIStreamProcessor \<Rightarrow> (byte list \<times> RBIStreamProcessor) option" where
  "back_packet i off buf S =
     do { b1 \<leftarrow> rd buf (off + 1); b3 \<leftarrow> rd buf (off + 3); pid \<leftarrow> packet_pid buf off;
          payload \<leftarrow> (if b3 AND 0x20 \<noteq> 0 then do { _ \<leftarrow> rd buf (off + 5); l \<leftarrow> rd buf (off + 4); Some (off + 4 + 1 + unat l) }
                     else Some (off + 4));
          if b1 AND 0x40 \<noteq> 0 then
            do { pes \<leftarrow> pes_start buf payload; if pes then back_pes pid payload buf S else Some (buf, S) }
          else Some (buf, S) }"

definition reTimestampDuringTransitionBack ::
  "nat \<Rightarrow> nat \<Rightarrow> byte list \<Rightarrow> RBIStreamProcessor \<Rightarrow> (byte list \<times> RBIStreamProcessor) option" where
  "reTimestampDuringTransitionBack off len buf S = packet_loop back_packet len 0 off buf S"

end
