(* ===== verification/RbiStamps.thy ===== *)
theory RbiStamps
  imports RbiRetime
begin

text \<open>
  What restamping does to a buffer: the new values of the stamps, the bytes that stay, and that a buffer of packets with room for
  their headers is restamped to the end.
\<close>

section \<open>One stamp\<close>

lemma stamp_Some: "stamp buf p = Some t \<Longrightarrow> p + 5 \<le> length buf"
  by (auto simp: stamp_def readTimeStamp_def bind_eq_Some_conv rd_Some)

lemma stamp_ok: "p + 5 \<le> length buf \<Longrightarrow> \<exists>t. stamp buf p = Some t \<and> 0 \<le> t"
  by (auto simp: stamp_def readTimeStamp_def rd_def)

lemma readPCR_ok: "p + 5 \<le> length buf \<Longrightarrow> \<exists>t. readPCR buf p = Some t"
  by (auto simp: readPCR_def rd_def)

lemma length_ts_bytes [simp]: "length (ts_bytes a t) = 5"
  by (simp add: ts_bytes_def)

lemma restamp_ok: "p + 5 \<le> length buf \<Longrightarrow> \<exists>buf'. restamp buf p t = Some buf'"
  by (simp add: restamp_def writeTimeStamp_def wr_all_eq rd_def)

lemma writePCR_ok: "p + 5 \<le> length buf \<Longrightarrow> \<exists>buf'. writePCR buf p t = Some buf'"
  by (simp add: writePCR_def wr_all_eq rd_def)

lemma uint_stamp: "uint (take_bit 33 (word_of_int t :: 64 word)) = t mod 2 ^ 33"
  by (simp only: unsigned_take_bit_eq uint_word_of_int_eq take_bit_take_bit) (simp add: take_bit_eq_mod)

lemma restamp_stamp:
  assumes "restamp buf p t = Some buf'"
  shows "stamp buf' p = Some (t mod 2 ^ 33)" "length buf' = length buf" "\<And>i. i < p \<or> p + 5 \<le> i \<Longrightarrow> rd buf' i = rd buf i"
proof -
  obtain b :: byte where w: "wr_all buf p (ts_bytes (drop_bit 4 (ucast b)) (word_of_int t)) = Some buf'"
    using assms by (auto simp: restamp_def writeTimeStamp_def bind_eq_Some_conv)
  note h = wr_all_holds[OF w]
  show "stamp buf' p = Some (t mod 2 ^ 33)" using readTimeStamp_ts[OF h(1)] uint_stamp by (simp add: stamp_def)
  show "length buf' = length buf" by (rule h(2))
  show "rd buf' i = rd buf i" if "i < p \<or> p + 5 \<le> i" for i using h(3)[of i] that by simp
qed

text \<open>The four bits in front of a stamp, which tell a PTS from a DTS, stay.\<close>

lemma restamp_prefix:
  assumes "restamp buf p t = Some buf'" "rd buf p = Some b" "rd buf' p = Some b'"
  shows "drop_bit 4 b' = drop_bit 4 b"
proof -
  have "wr_all buf p (ts_bytes (drop_bit 4 (ucast b)) (word_of_int t)) = Some buf'"
    using assms by (simp add: restamp_def writeTimeStamp_def)
  from wr_all_holds(1)[OF this] assms(3)
  have "b' = push_bit 4 (ucast (drop_bit 4 (ucast b) AND (0xF :: 32 word))) OR
      push_bit 1 (ucast (signed_drop_bit 30 (word_of_int t :: 64 word) AND 0x7)) OR 0x01"
    by (simp add: ts_bytes_def)
  also have "drop_bit 4 \<dots> = drop_bit 4 b"
    unfolding masks_64 by (rule bit_word_eqI) (auto simp: bit_simps simp del: One_nat_def push_bit_Suc dest: bit_imp_le_length)
  finally show ?thesis .
qed

section \<open>One packet\<close>

text \<open>\<open>within off n buf buf'\<close>: the two buffers differ at most in the n bytes from \<open>off\<close> on.\<close>

definition within :: "nat \<Rightarrow> nat \<Rightarrow> byte list \<Rightarrow> byte list \<Rightarrow> bool" where
  "within off n buf buf' \<longleftrightarrow> length buf' = length buf \<and> (\<forall>i. i < off \<or> off + n \<le> i \<longrightarrow> rd buf' i = rd buf i)"

lemma within_refl [simp]: "within off n buf buf"
  by (simp add: within_def)

lemma within_trans: "within off n a b \<Longrightarrow> within off n b c \<Longrightarrow> within off n a c"
  by (simp add: within_def)

lemma within_mono: "within off n a b \<Longrightarrow> off' \<le> off \<Longrightarrow> off + n \<le> off' + n' \<Longrightarrow> within off' n' a b"
  by (simp add: within_def)

lemma within_length: "within off n a b \<Longrightarrow> length b = length a"
  by (simp add: within_def)

lemma within_rd: "within off n a b \<Longrightarrow> i < off \<or> off + n \<le> i \<Longrightarrow> rd b i = rd a i"
  by (auto simp: within_def)

lemma restamp_within: "restamp buf p t = Some buf' \<Longrightarrow> within p 5 buf buf'"
  using restamp_stamp by (auto simp: within_def)

lemma writePCR_within: "writePCR buf p t = Some buf' \<Longrightarrow> within p 5 buf buf'"
  using writePCR_readPCR(3,4) by (auto simp: within_def)

lemma wr_within: "wr buf p x = Some buf' \<Longrightarrow> within p 1 buf buf'"
  by (auto simp: within_def wr_def rd_def split: if_splits)

text \<open>Where the payload of a packet starts, and a packet that has room for the fields of its header: for a clock reference
  when there is an adaptation field, and for the header of a PES packet with both stamps when one may start.\<close>

definition payload_at :: "byte list \<Rightarrow> nat \<Rightarrow> nat" where
  "payload_at buf off = (if buf ! (off + 3) AND 0x20 \<noteq> 0 then off + 5 + unat (buf ! (off + 4)) else off + 4)"

definition roomy :: "nat \<Rightarrow> byte list \<Rightarrow> nat \<Rightarrow> bool" where
  "roomy n buf off \<longleftrightarrow> off + n \<le> length buf \<and> n \<ge> 11 \<and> (buf ! (off + 1) AND 0x40 \<noteq> 0 \<longrightarrow> payload_at buf off + 19 \<le> off + n)"

text \<open>\<open>stamps g p buf buf'\<close>: of the PES header at p, the stamps its flags announce are mapped by g.\<close>

definition stamps :: "(int \<Rightarrow> int) \<Rightarrow> nat \<Rightarrow> byte list \<Rightarrow> byte list \<Rightarrow> bool" where
  "stamps g p buf buf' \<longleftrightarrow>
     (let flags = buf ! (p + 7); q = (if flags AND 0x80 \<noteq> 0 then p + 14 else p + 9) in
      (flags AND 0x80 \<noteq> 0 \<longrightarrow> stamp buf' (p + 9) = map_option g (stamp buf (p + 9))) \<and>
      (flags AND 0x40 \<noteq> 0 \<longrightarrow> stamp buf' q = map_option g (stamp buf q)))"

text \<open>A PES header starts in the packet at \<open>off\<close>; an adaptation field in front of it is long enough for a clock reference.\<close>

definition pes_at :: "byte list \<Rightarrow> nat \<Rightarrow> bool" where
  "pes_at buf off \<longleftrightarrow> buf ! (off + 1) AND 0x40 \<noteq> 0 \<and> (buf ! (off + 3) AND 0x20 \<noteq> 0 \<longrightarrow> 6 \<le> unat (buf ! (off + 4))) \<and>
     pes_start buf (payload_at buf off) = Some True"

definition packet_stamps :: "(nat \<Rightarrow> int \<Rightarrow> int) \<Rightarrow> nat \<Rightarrow> byte list \<Rightarrow> byte list \<Rightarrow> bool" where
  "packet_stamps f off buf buf' \<longleftrightarrow> (pes_at buf off \<longrightarrow> stamps (f (the (packet_pid buf off))) (payload_at buf off) buf buf')"

text \<open>The map of time stamps a state stands for, during the insertion and during the transitions.\<close>

definition insert_map :: "RBIStreamProcessor \<Rightarrow> nat \<Rightarrow> int \<Rightarrow> int" where
  "insert_map S = (\<lambda>pid t. mapped_time pid t S)"

definition transition_map :: "RBIStreamProcessor \<Rightarrow> nat \<Rightarrow> int \<Rightarrow> int" where
  "transition_map S = (\<lambda>pid t. (t - m_baseTime S + m_segmentBaseTime S) AND MAX_90K)"

lemma maps_mod: "insert_map S pid t mod 2 ^ 33 = insert_map S pid t" "transition_map S pid t mod 2 ^ 33 = transition_map S pid t"
  by (simp_all add: insert_map_def transition_map_def mapped_time_def and_MAX_90K)

text \<open>The operations on the state change neither the packet size nor the map.\<close>

definition kept :: "RBIStreamProcessor \<Rightarrow> RBIStreamProcessor \<Rightarrow> bool" where
  "kept S S' \<longleftrightarrow> m_packetSize S' = m_packetSize S \<and> insert_map S' = insert_map S \<and> transition_map S' = transition_map S"

lemma keptI:
  "m_packetSize S' = m_packetSize S \<Longrightarrow> m_baseTime S' = m_baseTime S \<Longrightarrow> m_segmentBaseTime S' = m_segmentBaseTime S \<Longrightarrow>
   m_prevAdBaseTime S' = m_prevAdBaseTime S \<Longrightarrow> m_prevAdSegmentBaseTime S' = m_prevAdSegmentBaseTime S \<Longrightarrow>
   m_audioPid S' = m_audioPid S \<Longrightarrow> m_b2bSavedAudioPacketsCnt S' = m_b2bSavedAudioPacketsCnt S \<Longrightarrow> kept S S'"
  by (simp add: kept_def insert_map_def transition_map_def mapped_time_def cong: if_cong)

lemma kept_map: "kept S S' \<Longrightarrow> insert_map S' = insert_map S" "kept S S' \<Longrightarrow> transition_map S' = transition_map S"
  by (simp_all add: kept_def)

lemma kept_refl [simp]: "kept S S"
  by (simp add: kept_def)

lemma kept_trans: "kept S T \<Longrightarrow> kept T U \<Longrightarrow> kept S U"
  by (simp add: kept_def)

lemma adjusted_pcr_kept: "adjusted_pcr S = (r, S') \<Longrightarrow> kept S S'"
  by (auto simp: adjusted_pcr_def Let_def split: if_splits intro!: keptI)

lemma pacing_kept [simp]:
  "kept S (pcr_pacing S)" "kept S (video_pacing d S)" "kept S (audio_pacing pid t S)"
  by (auto simp: pcr_pacing_def video_pacing_def audio_pacing_def Let_def intro!: keptI)

lemma retime_pcr_ok:
  assumes "off + 11 \<le> length buf"
  shows "\<exists>buf' S'. retime_pcr off buf S = Some (buf', S') \<and> within off 11 buf buf' \<and> rd buf' (off + 4) = rd buf (off + 4) \<and> kept S S'"
proof -
  obtain t where t: "readPCR buf (off + 6) = Some t" using readPCR_ok[of "off + 6" buf] assms by auto
  let ?S = "S\<lparr>m_lastAdPCR := uint t, m_currentInsertPCR := uint t\<rparr>"
  obtain r S1 where a: "adjusted_pcr ?S = (r, S1)" by fastforce
  define rS where "rS = (if r < m_mapStartPCR S1 then ((m_mapStartPCR S1 + 10) AND MAX_90K, S1\<lparr>m_mapStartPCR := (m_mapStartPCR S1 + 10) AND MAX_90K\<rparr>) else (r, S1))"
  have "kept S ?S" "kept ?S S1" "kept S1 (snd rS)" "kept (snd rS) ((snd rS)\<lparr>m_currentMappedPCR := fst rS\<rparr>)"
    using adjusted_pcr_kept[OF a] by (auto simp: rS_def intro!: keptI)
  then have z: "kept S (pcr_pacing ((snd rS)\<lparr>m_currentMappedPCR := fst rS\<rparr>))" by (blast intro: kept_trans pacing_kept)
  obtain b1 where b1: "writePCR buf (off + 6) (word_of_int (fst rS)) = Some b1"
    using writePCR_ok[of "off + 6" buf "word_of_int (fst rS)"] assms by auto
  note w1 = writePCR_within[OF b1]
  obtain b2 where b2: "wr b1 off 0x48 = Some b2" using assms within_length[OF w1] by (auto simp: wr_def)
  note w2 = wr_within[OF b2]
  have w: "within off 11 buf b2"
    by (rule within_trans[of _ _ _ b1]) (rule within_mono[OF w1] within_mono[OF w2]; simp)+
  have e: "rd b2 (off + 4) = rd buf (off + 4)" using within_rd[OF w2, of "off + 4"] within_rd[OF w1, of "off + 4"] by simp
  show ?thesis
  proof (cases "rd buf (off + 4) \<noteq> Some 0 \<and> the (rd buf (off + 5)) AND 0x10 \<noteq> 0")
    case True
    have "retime_pcr off buf S = Some (b2, pcr_pacing ((snd rS)\<lparr>m_currentMappedPCR := fst rS\<rparr>))"
      using assms True t a b1 b2 by (auto simp: retime_pcr_def rd_def rS_def Let_def word_gt_0)
    with w e z show ?thesis by simp
  next
    case False
    with assms show ?thesis by (auto simp: retime_pcr_def rd_def word_gt_0)
  qed
qed

text \<open>One stamp of a header that starts at \<open>payload\<close>.\<close>

lemma stamp_restamp_ok:
  assumes "payload + 19 \<le> length buf" "q = payload + 9 \<or> q = payload + 14" "\<And>t. f t mod 2 ^ 33 = f t"
  shows "\<exists>t b. stamp buf q = Some t \<and> restamp buf q (f t) = Some b \<and> within q 5 buf b \<and> stamp b q = Some (f t)"
proof -
  obtain t where t: "stamp buf q = Some t" using stamp_ok[of q buf] assms by auto
  moreover obtain b where b: "restamp buf q (f t) = Some b" using restamp_ok[of q buf "f t"] assms by auto
  moreover note restamp_within[OF b] restamp_stamp(1)[OF b]
  ultimately show ?thesis using assms(3)[of t] by metis
qed

lemma stamp_cong:
  assumes "\<And>i. q \<le> i \<Longrightarrow> i < q + 5 \<Longrightarrow> rd a i = rd b i"
  shows "stamp a q = stamp b q"
  unfolding stamp_def readTimeStamp_def using assms[of q] assms[of "q + 1"] assms[of "q + 2"] assms[of "q + 3"] assms[of "q + 4"] by simp

lemma stamp_within: "within p n a b \<Longrightarrow> q + 5 \<le> p \<or> p + n \<le> q \<Longrightarrow> stamp b q = stamp a q"
  by (rule stamp_cong) (auto simp: within_def)

lemma retime_pts_ok:
  assumes "payload + 19 \<le> length buf"
  shows "\<exists>t buf' S'. retime_pts d pid present (payload + 9) buf S = Some (if present then payload + 14 else payload + 9, t, buf', S') \<and>
     within (payload + 9) (if present then 5 else 0) buf buf' \<and> kept S S' \<and>
     (present \<longrightarrow> stamp buf' (payload + 9) = map_option (insert_map S pid) (stamp buf (payload + 9)))"
proof (cases present)
  case True
  obtain t b where t: "stamp buf (payload + 9) = Some t" "restamp buf (payload + 9) (insert_map S pid t) = Some b"
      "within (payload + 9) 5 buf b" "stamp b (payload + 9) = Some (insert_map S pid t)"
    using stamp_restamp_ok[OF assms, of "payload + 9" "insert_map S pid"] maps_mod(1)[of S pid] by auto
  let ?S1 = "if int pid = m_pcrPid S then S\<lparr>m_currentMappedPTS := insert_map S pid t\<rparr> else S"
  let ?S2 = "if int pid = m_videoPid ?S1 then video_pacing d (?S1\<lparr>m_lastAdVideoFramePTS := t\<rparr>) else ?S1"
  have "kept S ?S1" "kept ?S1 (?S1\<lparr>m_lastAdVideoFramePTS := t\<rparr>)" by (auto intro!: keptI)
  then have "kept S ?S2" by (auto intro: kept_trans pacing_kept)
  moreover have "retime_pts d pid present (payload + 9) buf S = Some (payload + 14, insert_map S pid t, b, ?S2)"
    using True t(1,2) unfolding insert_map_def by (simp add: retime_pts_def Let_def)
  ultimately show ?thesis using True t(1,3,4) by (intro exI[of _ "insert_map S pid t"] exI[of _ b] exI[of _ ?S2]) simp
qed (simp add: retime_pts_def)

lemma retime_dts_ok:
  assumes "payload + 19 \<le> length buf" "q = payload + 9 \<or> q = payload + 14"
  shows "\<exists>t buf'. retime_dts pid present q buf S = Some (t, buf') \<and> within q 5 buf buf' \<and>
     (present \<longrightarrow> stamp buf' q = map_option (insert_map S pid) (stamp buf q))"
  using stamp_restamp_ok[OF assms, of "insert_map S pid"] maps_mod(1)[of S pid]
  by (cases present) (auto simp: retime_dts_def Let_def insert_map_def)

lemma retime_pes_ok:
  assumes "payload + 19 \<le> length buf"
  shows "\<exists>buf' S'. retime_pes d pid payload buf S = Some (buf', S') \<and> within (payload + 9) 10 buf buf' \<and> kept S S' \<and>
     stamps (insert_map S pid) payload buf buf'"
proof -
  obtain flags where f: "rd buf (payload + 7) = Some flags" "\<exists>x. rd buf (payload + 8) = Some x" using assms by (simp add: rd_def)
  let ?P = "flags AND 0x80 \<noteq> 0" let ?q = "if ?P then payload + 14 else payload + 9"
  obtain pts b1 S1 where 1: "retime_pts d pid ?P (payload + 9) buf S = Some (?q, pts, b1, S1)"
      "within (payload + 9) (if ?P then 5 else 0) buf b1" "kept S S1"
      "?P \<longrightarrow> stamp b1 (payload + 9) = map_option (insert_map S pid) (stamp buf (payload + 9))"
    using retime_pts_ok[OF assms] by blast
  have l: "payload + 19 \<le> length b1" "?q = payload + 9 \<or> ?q = payload + 14" using assms within_length[OF 1(2)] by auto
  obtain dts b2 where 2: "retime_dts pid (flags AND 0x40 \<noteq> 0) ?q b1 S1 = Some (dts, b2)" "within ?q 5 b1 b2"
      "flags AND 0x40 \<noteq> 0 \<longrightarrow> stamp b2 ?q = map_option (insert_map S1 pid) (stamp b1 ?q)"
    using retime_dts_ok[OF l] by blast
  have "retime_pes d pid payload buf S = Some (b2, audio_pacing pid (if dts = 0 then pts else dts) S1)"
    using f 1(1) 2(1) by (auto simp: retime_pes_def)
  moreover have "within (payload + 9) 10 buf b2"
    by (rule within_trans[OF within_mono[OF 1(2)] within_mono[OF 2(2)]]) auto
  moreover have "insert_map S1 = insert_map S" using 1(3) by (simp add: kept_def)
  moreover have "stamp b1 ?q = stamp buf ?q" by (rule stamp_within[OF 1(2)]) simp
  moreover have "?P \<longrightarrow> stamp b2 (payload + 9) = stamp b1 (payload + 9)" using stamp_within[OF 2(2), of "payload + 9"] by simp
  moreover have "buf ! (payload + 7) = flags" using f(1) by (simp add: rd_Some)
  ultimately show ?thesis using 1(3,4) 2(3) kept_trans pacing_kept(3) by (auto simp: stamps_def Let_def)
qed

text \<open>The stamps of the transitions.\<close>

lemma shift_stamp_ok:
  assumes "payload + 19 \<le> length buf" "q = payload + 9 \<or> q = payload + 14"
  shows "\<exists>t u buf'. shift_stamp present q buf S = Some (if present then q + 5 else q, t, u, buf') \<and> within q (if present then 5 else 0) buf buf' \<and>
     (present \<longrightarrow> stamp buf' q = map_option (transition_map S pid) (stamp buf q))"
proof (cases present)
  case True
  obtain t b where t: "stamp buf q = Some t" "restamp buf q (transition_map S pid t) = Some b"
      "within q 5 buf b" "stamp b q = Some (transition_map S pid t)"
    using stamp_restamp_ok[OF assms, of "transition_map S pid"] maps_mod(2)[of S pid] by auto
  with True show ?thesis
    by (intro exI[of _ t] exI[of _ "transition_map S pid t"] exI[of _ b]) (simp add: shift_stamp_def Let_def transition_map_def)
qed (simp add: shift_stamp_def)

lemma shift_stamps_ok:
  assumes "payload + 19 \<le> length buf" "transition_map S' = transition_map S"
  shows "\<exists>q t u b1 q' t' u' b2. shift_stamp (buf ! (payload + 7) AND 0x80 \<noteq> 0) (payload + 9) buf S = Some (q, t, u, b1) \<and>
     shift_stamp (buf ! (payload + 7) AND 0x40 \<noteq> 0) q b1 S' = Some (q', t', u', b2) \<and>
     within (payload + 9) 10 buf b2 \<and> stamps (transition_map S pid) payload buf b2"
proof -
  let ?P = "buf ! (payload + 7) AND 0x80 \<noteq> 0" let ?q = "if ?P then payload + 9 + 5 else payload + 9"
  obtain t u b1 where 1: "shift_stamp ?P (payload + 9) buf S = Some (?q, t, u, b1)" "within (payload + 9) (if ?P then 5 else 0) buf b1"
      "?P \<longrightarrow> stamp b1 (payload + 9) = map_option (transition_map S pid) (stamp buf (payload + 9))"
    using shift_stamp_ok[OF assms(1), of "payload + 9" ?P S pid] by blast
  have l: "payload + 19 \<le> length b1" "?q = payload + 9 \<or> ?q = payload + 14" using assms within_length[OF 1(2)] by auto
  let ?D = "buf ! (payload + 7) AND 0x40 \<noteq> 0"
  obtain t' u' b2 where 2: "shift_stamp ?D ?q b1 S' = Some (if ?D then ?q + 5 else ?q, t', u', b2)" "within ?q (if ?D then 5 else 0) b1 b2"
      "?D \<longrightarrow> stamp b2 ?q = map_option (transition_map S pid) (stamp b1 ?q)"
    using shift_stamp_ok[OF l, of ?D S' pid] assms(2) by auto
  have "within (payload + 9) 10 buf b2"
    by (rule within_trans[OF within_mono[OF 1(2)] within_mono[OF 2(2)]]) auto
  moreover have "stamp b1 ?q = stamp buf ?q" by (rule stamp_within[OF 1(2)]) simp
  moreover have "?P \<longrightarrow> stamp b2 (payload + 9) = stamp b1 (payload + 9)" using stamp_within[OF 2(2), of "payload + 9"] by simp
  moreover have "?q = (if ?P then payload + 14 else payload + 9)" by simp
  ultimately have "stamps (transition_map S pid) payload buf b2" using 1(3) 2(3) by (auto simp: stamps_def Let_def)
  with 1(1) 2(1) \<open>within (payload + 9) 10 buf b2\<close> show ?thesis by blast
qed

lemma transition_pes_ok:
  assumes "payload + 19 \<le> length buf"
  shows "\<exists>buf' S'. transition_pes payload buf S = Some (buf', S') \<and> within (payload + 9) 10 buf buf' \<and> kept S S' \<and>
     stamps (transition_map S pid) payload buf buf'"
proof -
  obtain q t u b1 q' t' u' b2 where *: "shift_stamp (buf ! (payload + 7) AND 0x80 \<noteq> 0) (payload + 9) buf S = Some (q, t, u, b1)"
      "shift_stamp (buf ! (payload + 7) AND 0x40 \<noteq> 0) q b1 S = Some (q', t', u', b2)" "within (payload + 9) 10 buf b2"
      "stamps (transition_map S pid) payload buf b2"
    using shift_stamps_ok[OF assms refl] by metis
  have "kept S (S\<lparr>m_removeNull_PSIPackets := True\<rparr>)" by (auto intro!: keptI)
  with * assms show ?thesis by (auto simp: transition_pes_def rd_in Let_def)
qed

lemma back_pes_ok:
  assumes "payload + 19 \<le> length buf"
  shows "\<exists>buf' S'. back_pes pid payload buf S = Some (buf', S') \<and> within (payload + 9) 10 buf buf' \<and> kept S S' \<and>
     stamps (transition_map S pid) payload buf buf'"
proof -
  let ?S = "\<lambda>u. if buf ! (payload + 7) AND 0x80 \<noteq> 0 \<and> int pid = m_pcrPid S then S\<lparr>m_currentMappedPTS := u\<rparr> else S"
  have k: "kept S (?S u)" for u by (auto intro!: keptI)
  have m: "transition_map (?S u) = transition_map S" for u using k[of u] unfolding kept_def by simp
  have "\<exists>q t u b1. shift_stamp (buf ! (payload + 7) AND 0x80 \<noteq> 0) (payload + 9) buf S = Some (q, t, u, b1)"
    using shift_stamp_ok[OF assms, of "payload + 9" _ S] by blast
  then obtain q t u b1 where 1: "shift_stamp (buf ! (payload + 7) AND 0x80 \<noteq> 0) (payload + 9) buf S = Some (q, t, u, b1)" by blast
  then obtain q' t' u' b2 where 2: "shift_stamp (buf ! (payload + 7) AND 0x40 \<noteq> 0) q b1 (?S u) = Some (q', t', u', b2)"
      "within (payload + 9) 10 buf b2" "stamps (transition_map S pid) payload buf b2"
    using shift_stamps_ok[OF assms m[of u], of pid] by auto
  have "back_pes pid payload buf S = Some (b2, ?S u)"
    using assms 1 2(1) by (simp add: back_pes_def rd_in Let_def)
  with 2(2,3) k show ?thesis by blast
qed

lemma packet_tts_ok: "4 \<le> off \<Longrightarrow> off \<le> length buf \<Longrightarrow> \<exists>t. packet_tts buf off = Some t"
  by (auto simp: packet_tts_def rd_def)

lemma transition_pcr_ok:
  assumes "off + 11 \<le> length buf" "4 \<le> off"
  shows "\<exists>buf' S'. transition_pcr off buf S = Some (buf', S') \<and> within off 11 buf buf' \<and> rd buf' (off + 4) = rd buf (off + 4) \<and> kept S S'"
proof -
  obtain t where t: "readPCR buf (off + 6) = Some t" using readPCR_ok[of "off + 6" buf] assms by auto
  obtain tts where tts: "packet_tts buf off = Some tts" using packet_tts_ok[of off buf] assms by auto
  define S1 where "S1 = (let S = S\<lparr>m_lastAdPCR := uint t\<rparr> in if m_currentPCR S \<noteq> -1
      then S\<lparr>m_currentMappedPCR := (m_currentPCR S + uint ((tts - m_lastPCRTTSValue S) div 300)) AND MAX_90K\<rparr>
      else let r = (uint t - m_basePCR S + m_segmentBasePCR S) AND MAX_90K; s = (m_mapStartPCR S + 10) AND MAX_90K in
           if r < m_mapStartPCR S
           then S\<lparr>m_currentInsertPCR := uint t, m_mapStartPCR := s, m_currentMappedPCR := s\<rparr>
           else S\<lparr>m_currentInsertPCR := uint t, m_currentMappedPCR := r\<rparr>)"
  have z: "kept S (S1\<lparr>m_lastMappedPCRTTSValue := tts\<rparr>)" by (auto simp: S1_def Let_def intro!: keptI)
  obtain b1 where b1: "writePCR buf (off + 6) (word_of_int (m_currentMappedPCR S1)) = Some b1"
    using writePCR_ok[of "off + 6" buf "word_of_int (m_currentMappedPCR S1)"] assms by auto
  note w1 = writePCR_within[OF b1]
  have w: "within off 11 buf b1" by (rule within_mono[OF w1]) simp_all
  have e: "rd b1 (off + 4) = rd buf (off + 4)" using within_rd[OF w1, of "off + 4"] by simp
  show ?thesis
  proof (cases "rd buf (off + 4) \<noteq> Some 0 \<and> the (rd buf (off + 5)) AND 0x10 \<noteq> 0")
    case True
    have "transition_pcr off buf S = Some (b1, S1\<lparr>m_lastMappedPCRTTSValue := tts\<rparr>)"
      using assms(1) True t tts b1 unfolding transition_pcr_def S1_def[unfolded Let_def, symmetric]
      by (simp add: rd_def S1_def Let_def)
    with w e z show ?thesis by simp
  next
    case False
    with assms show ?thesis by (auto simp: transition_pcr_def rd_def)
  qed
qed

section \<open>The three steps\<close>

lemma pes_start_ok: "p + 3 \<le> length buf \<Longrightarrow> \<exists>b. pes_start buf p = Some b"
  by (auto simp: pes_start_def rd_def)

lemma packet_pid_ok: "off + 3 \<le> length buf \<Longrightarrow> \<exists>pid. packet_pid buf off = Some pid"
  by (auto simp: packet_pid_def rd_def)

lemma pes_start_cong: "(\<And>i. p \<le> i \<Longrightarrow> i < p + 3 \<Longrightarrow> rd a i = rd b i) \<Longrightarrow> pes_start a p = pes_start b p"
  by (simp add: pes_start_def cong: if_cong)

lemma stamps_cong:
  assumes "\<And>i. p \<le> i \<Longrightarrow> i < p + 19 \<Longrightarrow> rd a i = rd b i" "\<And>i. p \<le> i \<Longrightarrow> i < p + 19 \<Longrightarrow> rd a' i = rd b' i"
    and "p + 19 \<le> length a" "p + 19 \<le> length b"
  shows "stamps g p a a' = stamps g p b b'"
proof -
  have "a ! (p + 7) = b ! (p + 7)" using assms(1)[of "p + 7"] assms(3,4) by (simp add: rd_in)
  moreover have "stamp a q = stamp b q" "stamp a' q = stamp b' q" if "q = p + 9 \<or> q = p + 14" for q
    using that assms(1,2) by (auto intro!: stamp_cong)
  ultimately show ?thesis by (simp add: stamps_def Let_def)
qed

text \<open>The clock reference and the PES header of a packet, put together: what the three steps share.\<close>

lemma two_stages:
  fixes pcr :: "byte list \<Rightarrow> RBIStreamProcessor \<Rightarrow> (byte list \<times> RBIStreamProcessor) option"
    and pes :: "nat \<Rightarrow> byte list \<Rightarrow> RBIStreamProcessor \<Rightarrow> (byte list \<times> RBIStreamProcessor) option"
  assumes "roomy n buf off"
    and pcr: "off + 11 \<le> length buf \<Longrightarrow>
      \<exists>c S'. pcr buf S = Some (c, S') \<and> within off 11 buf c \<and> rd c (off + 4) = rd buf (off + 4) \<and> kept S S'"
    and pes: "\<And>p c S. p + 19 \<le> length c \<Longrightarrow>
      \<exists>c' S'. pes p c S = Some (c', S') \<and> within (p + 9) 10 c c' \<and> kept S S' \<and> stamps (F S (the (packet_pid buf off))) p c c'"
    and F: "\<And>S S'. kept S S' \<Longrightarrow> F S' = F S"
  shows "\<exists>buf' S'. do { (payload, c, S) \<leftarrow>
            (if buf ! (off + 3) AND 0x20 \<noteq> 0 then
               do { (c, S) \<leftarrow> pcr buf S; l \<leftarrow> rd c (off + 4); Some (off + 4 + 1 + unat l, c, S) }
             else Some (off + 4, buf, S));
          if buf ! (off + 1) AND 0x40 \<noteq> 0 then
            do { b \<leftarrow> pes_start c payload; if b then pes payload c S else Some (c, S) }
          else Some (c, S) } = Some (buf', S') \<and> within off n buf buf' \<and> kept S S' \<and> packet_stamps (F S) off buf buf'"
proof -
  have n: "off + 11 \<le> length buf" "off + n \<le> length buf" "11 \<le> n" using assms(1) by (simp_all add: roomy_def)
  let ?A = "buf ! (off + 3) AND 0x20 \<noteq> 0"
  obtain c S1 where 1: "(if ?A then do { (c, S) \<leftarrow> pcr buf S; l \<leftarrow> rd c (off + 4); Some (off + 4 + 1 + unat l, c, S) }
             else Some (off + 4, buf, S)) = Some (payload_at buf off, c, S1)"
      "within off (if ?A then 11 else 0) buf c" "kept S S1"
    using pcr n by (cases ?A) (auto simp: payload_at_def rd_def)
  have w: "within off n buf c" by (rule within_mono[OF 1(2)]) (use n in auto)
  show ?thesis
  proof (cases "buf ! (off + 1) AND 0x40 = 0")
    case True
    then have "packet_stamps (F S) off buf c" by (simp add: packet_stamps_def pes_at_def)
    with True 1 w show ?thesis by (auto simp only: bind.bind_lunit prod.case) simp
  next
    case False
    let ?p = "payload_at buf off"
    have p: "?p + 19 \<le> off + n" "off \<le> ?p" using assms(1) False by (auto simp: roomy_def payload_at_def)
    then have l: "?p + 19 \<le> length c" using n within_length[OF w] by simp
    obtain b where b: "pes_start c ?p = Some b" using pes_start_ok[of ?p c] l by auto
    obtain c' S' where c: "pes ?p c S1 = Some (c', S')" "within (?p + 9) 10 c c'" "kept S1 S'" "stamps (F S1 (the (packet_pid buf off))) ?p c c'"
      using pes[OF l] by blast
    have w': "within off n c c'" by (rule within_mono[OF c(2)]) (use p in simp_all)
    have same: "rd c i = rd buf i" if "pes_at buf off" "?p \<le> i" for i
      using that within_rd[OF 1(2), of i] by (auto simp: pes_at_def payload_at_def split: if_splits)
    have bT: b if "pes_at buf off"
    proof -
      have "pes_start c ?p = pes_start buf ?p" using same[OF that] by (intro pes_start_cong) simp
      with that b show ?thesis by (simp add: pes_at_def)
    qed
    have s: "packet_stamps (F S) off buf c'"
    proof (unfold packet_stamps_def, intro impI)
      assume a: "pes_at buf off"
      have "stamps (F S (the (packet_pid buf off))) ?p buf c' = stamps (F S (the (packet_pid buf off))) ?p c c'"
        by (rule stamps_cong) (use same[OF a] l within_length[OF w] in auto)
      with c(4) F[OF 1(3)] show "stamps (F S (the (packet_pid buf off))) ?p buf c'" by simp
    qed
    have s0: "packet_stamps (F S) off buf c" if "\<not> b" using bT that by (auto simp: packet_stamps_def)
    show ?thesis
    proof (cases b)
      case True
      with 1(1) b c(1) False within_trans[OF w w'] kept_trans[OF 1(3) c(3)] s show ?thesis by (auto simp only: bind.bind_lunit prod.case) simp
    next
      case nb: False
      with 1(1,3) b False w s0 show ?thesis by (auto simp only: bind.bind_lunit prod.case) simp
    qed
  qed
qed

lemma reTimestamp_packet_ok:
  assumes "roomy n buf off"
  shows "\<exists>buf' S'. reTimestamp_packet due i off buf S = Some (buf', S') \<and> within off n buf buf' \<and> kept S S' \<and>
    packet_stamps (insert_map S) off buf buf'"
proof -
  have n: "off + 11 \<le> length buf" using assms by (simp add: roomy_def)
  then have r: "rd buf (off + 1) = Some (buf ! (off + 1))" "rd buf (off + 3) = Some (buf ! (off + 3))" by (simp_all add: rd_in)
  obtain pid where p: "packet_pid buf off = Some pid" using packet_pid_ok[of off buf] n by auto
  show ?thesis unfolding reTimestamp_packet_def r p bind.bind_lunit
    by (rule two_stages[where F = insert_map and pcr = "retime_pcr off" and pes = "retime_pes (due i) pid", OF assms])
      (auto simp: p kept_map intro: retime_pcr_ok retime_pes_ok)
qed

lemma toAd_packet_ok:
  assumes "roomy n buf off" "4 \<le> off"
  shows "\<exists>buf' S'. toAd_packet i off buf S = Some (buf', S') \<and> within off n buf buf' \<and> kept S S' \<and>
    packet_stamps (transition_map S) off buf buf'"
proof -
  have n: "off + 11 \<le> length buf" using assms by (simp add: roomy_def)
  then have r: "rd buf (off + 1) = Some (buf ! (off + 1))" "rd buf (off + 3) = Some (buf ! (off + 3))" by (simp_all add: rd_in)
  obtain pid where p: "packet_pid buf off = Some pid" using packet_pid_ok[of off buf] n by auto
  show ?thesis unfolding toAd_packet_def r p bind.bind_lunit
    by (rule two_stages[where F = transition_map and pcr = "transition_pcr off" and pes = transition_pes, OF assms(1)])
      (auto simp: kept_map intro: transition_pcr_ok transition_pes_ok assms(2))
qed

lemma back_packet_ok:
  assumes "roomy n buf off"
  shows "\<exists>buf' S'. back_packet i off buf S = Some (buf', S') \<and> within off n buf buf' \<and> kept S S' \<and>
    packet_stamps (transition_map S) off buf buf'"
proof -
  have n: "off + 11 \<le> length buf" using assms by (simp add: roomy_def)
  obtain pid where p: "packet_pid buf off = Some pid" using packet_pid_ok[of off buf] n by auto
  have "\<exists>buf' S'. do { (payload, c, S) \<leftarrow>
            (if buf ! (off + 3) AND 0x20 \<noteq> 0 then
               do { (c, S) \<leftarrow> Some (buf, S); l \<leftarrow> rd c (off + 4); Some (off + 4 + 1 + unat l, c, S) }
             else Some (off + 4, buf, S));
          if buf ! (off + 1) AND 0x40 \<noteq> 0 then
            do { b \<leftarrow> pes_start c payload; if b then back_pes pid payload c S else Some (c, S) }
          else Some (c, S) } = Some (buf', S') \<and> within off n buf buf' \<and> kept S S' \<and> packet_stamps (transition_map S) off buf buf'"
    by (rule two_stages[where F = transition_map and pcr = "\<lambda>buf S. Some (buf, S)" and pes = "back_pes pid", OF assms])
      (auto simp: p kept_map intro: back_pes_ok)
  with n p show ?thesis unfolding back_packet_def by (cases "buf ! (off + 3) AND 0x20 = 0") (simp_all add: rd_in)
qed

section \<open>The loop over the packets\<close>

text \<open>A step that restamps one packet and leaves the others alone.\<close>

locale packet_step =
  fixes step :: "nat \<Rightarrow> nat \<Rightarrow> byte list \<Rightarrow> RBIStreamProcessor \<Rightarrow> (byte list \<times> RBIStreamProcessor) option"
    and first :: nat
    and tmap :: "RBIStreamProcessor \<Rightarrow> nat \<Rightarrow> int \<Rightarrow> int"
  assumes step_ok: "roomy n buf off \<Longrightarrow> first \<le> off \<Longrightarrow>
      \<exists>buf' S'. step i off buf S = Some (buf', S') \<and> within off n buf buf' \<and> kept S S' \<and> packet_stamps (tmap S) off buf buf'"
    and tmap_kept: "kept S S' \<Longrightarrow> tmap S' = tmap S"
begin

lemma rd_nth: "rd a i = rd b i \<Longrightarrow> length a = length b \<Longrightarrow> i < length a \<Longrightarrow> a ! i = b ! i"
  by (simp add: rd_in)

lemma payload_at_cong:
  assumes "\<And>j. off \<le> j \<Longrightarrow> j < off + n \<Longrightarrow> rd c j = rd buf j" "length c = length buf" "off + n \<le> length buf" "11 \<le> n"
  shows "payload_at c off = payload_at buf off" "c ! (off + 1) = buf ! (off + 1)" "c ! (off + 3) = buf ! (off + 3)" "c ! (off + 4) = buf ! (off + 4)"
    "packet_pid c off = packet_pid buf off"
proof -
  have e: "c ! j = buf ! j" if "off \<le> j" "j < off + n" for j using assms that by (intro rd_nth) auto
  then show "payload_at c off = payload_at buf off" "c ! (off + 1) = buf ! (off + 1)" "c ! (off + 3) = buf ! (off + 3)" "c ! (off + 4) = buf ! (off + 4)"
    using assms(4) by (simp_all add: payload_at_def)
  show "packet_pid c off = packet_pid buf off" using assms(1)[of "off + 1"] assms(1)[of "off + 2"] assms(4) by (simp add: packet_pid_def)
qed

lemma roomy_cong:
  assumes "\<And>j. off \<le> j \<Longrightarrow> j < off + n \<Longrightarrow> rd c j = rd buf j" "length c = length buf" "roomy n buf off"
  shows "roomy n c off"
  using payload_at_cong[OF assms(1,2)] assms(2,3) by (simp add: roomy_def)

lemma packet_stamps_cong:
  assumes "\<And>j. off \<le> j \<Longrightarrow> j < off + n \<Longrightarrow> rd c j = rd buf j" "length c = length buf" "roomy n buf off"
    "\<And>j. off \<le> j \<Longrightarrow> j < off + n \<Longrightarrow> rd c' j = rd buf' j"
  shows "packet_stamps f off c c' = packet_stamps f off buf buf'"
proof -
  have r: "off + n \<le> length buf" "11 \<le> n" "off \<le> payload_at buf off" using assms(3) by (auto simp: roomy_def payload_at_def)
  note p = payload_at_cong[OF assms(1,2) r(1,2)]
  show ?thesis
  proof (cases "buf ! (off + 1) AND 0x40 = 0")
    case False
    then have l: "payload_at buf off + 19 \<le> off + n" using assms(3) by (simp add: roomy_def)
    have "pes_start c (payload_at buf off) = pes_start buf (payload_at buf off)" using assms(1) l r by (intro pes_start_cong) auto
    then have "pes_at c off = pes_at buf off" using p by (simp add: pes_at_def)
    moreover have "stamps g (payload_at buf off) c c' = stamps g (payload_at buf off) buf buf'" for g
      using assms l r by (intro stamps_cong) auto
    ultimately show ?thesis using p by (simp add: packet_stamps_def)
  qed (use p in \<open>simp add: packet_stamps_def pes_at_def\<close>)
qed

lemma packet_loop_ok:
  assumes "n > 0" "m_packetSize S = n" "\<And>k. k < m \<Longrightarrow> roomy n buf (off + k * n)" "first \<le> off"
  shows "\<exists>buf' S'. packet_loop step (i + m * n) i off buf S = Some (buf', S') \<and> within off (m * n) buf buf' \<and> kept S S' \<and>
     (\<forall>k < m. packet_stamps (tmap S) (off + k * n) buf buf')"
  using assms
proof (induction m arbitrary: i off buf S)
  case 0
  then show ?case by (subst packet_loop.simps) simp
next
  case (Suc m)
  have "roomy n buf off" using Suc.prems(3)[of 0] by simp
  then obtain c T where c: "step i off buf S = Some (c, T)" "within off n buf c" "kept S T" "packet_stamps (tmap S) off buf c"
    using step_ok Suc.prems(4) by blast
  have T: "m_packetSize T = n" "tmap T = tmap S" using c(3) Suc.prems(2) tmap_kept by (simp_all add: kept_def)
  have later: "rd c j = rd buf j" if "off + n \<le> j" for j using within_rd[OF c(2)] that by blast
  have room: "roomy n c (off + n + k * n)" if "k < m" for k
    using Suc.prems(3)[of "Suc k"] that by (intro roomy_cong[OF later within_length[OF c(2)]]) (simp_all add: add.assoc)
  obtain d U where d: "packet_loop step (i + n + m * n) (i + n) (off + n) c T = Some (d, U)" "within (off + n) (m * n) c d" "kept T U"
      "\<forall>k < m. packet_stamps (tmap T) (off + n + k * n) c d"
    using Suc.IH[OF Suc.prems(1) T(1) room] Suc.prems(4) by fastforce
  have "packet_loop step (i + Suc m * n) i off buf S = Some (d, U)"
    using d(1) c(1) T(1) Suc.prems(1) by (subst packet_loop.simps) (simp add: add.assoc)
  moreover have "within off (Suc m * n) buf d"
    by (rule within_trans[OF within_mono[OF c(2)] within_mono[OF d(2)]]) simp_all
  moreover have "packet_stamps (tmap S) (off + k * n) buf d" if "k < Suc m" for k
  proof (cases k)
    case 0
    have "packet_stamps (tmap S) off buf d = packet_stamps (tmap S) off buf c"
      by (rule packet_stamps_cong[OF refl refl \<open>roomy n buf off\<close>]) (use within_rd[OF d(2)] in simp)
    with 0 c(4) show ?thesis by simp
  next
    case (Suc k')
    have "packet_stamps (tmap S) (off + n + k' * n) c d = packet_stamps (tmap S) (off + n + k' * n) buf d"
      using Suc.prems(3)[of k] that Suc by (intro packet_stamps_cong[OF later within_length[OF c(2)]]) (simp_all add: add.assoc)
    with d(4) T(2) that Suc show ?thesis by (simp add: add.assoc)
  qed
  ultimately show ?case using kept_trans[OF c(3) d(3)] by blast
qed

end

interpretation insertion: packet_step "reTimestamp_packet due" 0 insert_map for due
  by unfold_locales (auto intro: reTimestamp_packet_ok kept_map)

interpretation toAd: packet_step toAd_packet 4 transition_map
  by unfold_locales (auto intro: toAd_packet_ok kept_map)

interpretation toNetwork: packet_step back_packet 0 transition_map
  by unfold_locales (auto intro: back_packet_ok kept_map)

section \<open>Properties\<close>

lemma insert_map_eq:
  assumes "int pid \<noteq> m_audioPid S \<or> m_b2bSavedAudioPacketsCnt S = 0"
  shows "insert_map S pid t = (t - m_baseTime S + m_segmentBaseTime S + of_bool (t < m_baseTime S)) mod 2 ^ 33"
  using assms by (auto simp: insert_map_def mapped_time_def trunc_half_def and_MAX_90K algebra_simps)

lemma transition_map_eq: "transition_map S pid t = (t - m_baseTime S + m_segmentBaseTime S) mod 2 ^ 33"
  by (simp add: transition_map_def and_MAX_90K)

lemma transition_map_diff: "(transition_map S pid t - transition_map S pid u) mod 2 ^ 33 = (t - u) mod 2 ^ 33"
  unfolding transition_map_eq mod_diff_eq by (rule arg_cong[of _ _ "\<lambda>x. x mod 2 ^ 33"]) simp

lemma map_base_time_size:
  "map_option m_packetSize (base_time S) = (if m_haveBaseTime S \<or> m_insertSrc S \<noteq> None then Some (m_packetSize S) else None)"
  by (cases "m_insertSrc S") (simp_all add: base_time_def Let_def split_beta)

lemma base_time_size: "base_time S = Some T \<Longrightarrow> m_packetSize T = m_packetSize S"
  using map_base_time_size[of S] by (auto split: if_splits)

text \<open>C9. Restamping an inserted buffer. When every packet has room for its headers, \<open>reTimestamp\<close> reaches the end of the buffer and
  returns; it changes nothing outside the packets; and in every packet that starts a PES packet the PTS and the DTS the flags announce become
  the old stamp moved by the distance of the two time bases, modulo 2 to the 33. A stamp before the base comes out one tick later than that,
  because the difference is rounded towards zero after 0.5 was added.\<close>

theorem reTimestamp_restamps:
  assumes "base_time S = Some T" "0 < m_packetSize S" "\<And>k. k < m \<Longrightarrow> roomy (m_packetSize S) buf (off + k * m_packetSize S)"
  shows "\<exists>buf' S'. reTimestamp due off (m * m_packetSize S) buf S = Some (buf', S') \<and> within off (m * m_packetSize S) buf buf' \<and>
      (\<forall>k < m. packet_stamps (insert_map T) (off + k * m_packetSize S) buf buf') \<and>
      (\<forall>pid t. int pid \<noteq> m_audioPid T \<or> m_b2bSavedAudioPacketsCnt T = 0 \<longrightarrow>
         insert_map T pid t = (t - m_baseTime T + m_segmentBaseTime T + of_bool (t < m_baseTime T)) mod 2 ^ 33)"
proof -
  obtain buf' S' where "packet_loop (reTimestamp_packet due) (0 + m * m_packetSize S) 0 off buf T = Some (buf', S')"
      "within off (m * m_packetSize S) buf buf'" "\<forall>k < m. packet_stamps (insert_map T) (off + k * m_packetSize S) buf buf'"
    using insertion.packet_loop_ok[OF assms(2) base_time_size[OF assms(1)] assms(3)] by blast
  moreover from this(1) have "reTimestamp due off (m * m_packetSize S) buf S = Some (buf', S')" using assms(1) by (simp add: reTimestamp_def)
  ultimately show ?thesis using insert_map_eq by blast
qed

text \<open>An inserted video packet with a PTS of 16, 80 ticks before the base.\<close>

definition sample_packet :: "byte list" where
  "sample_packet = [0x47, 0x40, 0x11, 0x10, 0, 0, 1, 0xE0, 0, 0, 0x80, 0x80, 5, 0x21, 0, 1, 0, 0x21] @ replicate 170 0xFF"

definition sample_state :: RBIStreamProcessor where
  "sample_state = (RBIStreamProcessor_new False)\<lparr>m_haveBaseTime := True, m_baseTime := 96, m_segmentBaseTime := 1000\<rparr>"

lemma sample_roomy: "roomy 188 sample_packet 0" "m_packetSize sample_state = 188" "base_time sample_state = Some sample_state"
  "pes_at sample_packet 0" "payload_at sample_packet 0 = 4" "sample_packet ! 11 = 0x80" "stamp sample_packet 13 = Some 16" "packet_pid sample_packet 0 = Some 17"
  by (simp_all add: sample_packet_def sample_state_def RBIStreamProcessor_new_def roomy_def payload_at_def pes_at_def pes_start_def rd_def
      base_time_def stamp_def readTimeStamp_def packet_pid_def be16_def)

theorem reTimestamp_restamps_witness:
  "\<exists>buf' S'. reTimestamp (\<lambda>_. 0) 0 188 sample_packet sample_state = Some (buf', S') \<and> stamp buf' 13 = Some 921"
proof -
  obtain buf' S' where *: "reTimestamp (\<lambda>_. 0) 0 188 sample_packet sample_state = Some (buf', S')"
      "packet_stamps (insert_map sample_state) 0 sample_packet buf'"
      "\<forall>pid t. int pid \<noteq> m_audioPid sample_state \<or> m_b2bSavedAudioPacketsCnt sample_state = 0 \<longrightarrow>
         insert_map sample_state pid t =
           (t - m_baseTime sample_state + m_segmentBaseTime sample_state + of_bool (t < m_baseTime sample_state)) mod 2 ^ 33"
    using reTimestamp_restamps[OF sample_roomy(3), where m = 1 and buf = sample_packet and off = 0 and due = "\<lambda>_. 0"] sample_roomy(1,2) by auto
  have "insert_map sample_state 17 16 = 921"
    using *(3)[rule_format, of 17 16] by (simp add: sample_state_def RBIStreamProcessor_new_def)
  moreover have "stamp buf' 13 = map_option (insert_map sample_state 17) (stamp sample_packet 13)"
    using *(2) sample_roomy by (simp add: packet_stamps_def stamps_def)
  ultimately show ?thesis using *(1) sample_roomy(7) by simp
qed

lemma map_transition_base_size:
  "map_option m_packetSize (transition_base S) = (if m_haveBaseTime S \<or> m_insertSrc S \<noteq> None then Some (m_packetSize S) else None)"
  by (cases "m_insertSrc S") (simp_all add: transition_base_def Let_def split_beta)

lemma transition_base_size: "transition_base S = Some T \<Longrightarrow> m_packetSize T = m_packetSize S"
  using map_transition_base_size[of S] by (auto split: if_splits)

text \<open>C10. Restamping during the transition to the inserted stream and back. Packets with room for their headers are restamped to the end, both
  times by exactly the distance of the time bases; the distance of any two stamps of the stream, in particular of the PTS and the DTS of a
  picture, is kept modulo 2 to the 33.\<close>

theorem transitions_restamp:
  assumes "transition_base S = Some T" "0 < m_packetSize S" "4 \<le> off"
    and "\<And>k. k < m \<Longrightarrow> roomy (m_packetSize S) buf (off + k * m_packetSize S)"
  shows "(\<exists>buf' S'. reTimestampDuringTransitionToAd off (m * m_packetSize S) buf S = Some (buf', S') \<and>
        within off (m * m_packetSize S) buf buf' \<and> (\<forall>k < m. packet_stamps (transition_map T) (off + k * m_packetSize S) buf buf')) \<and>
      (\<exists>buf' S'. reTimestampDuringTransitionBack off (m * m_packetSize S) buf S = Some (buf', S') \<and>
        within off (m * m_packetSize S) buf buf' \<and> (\<forall>k < m. packet_stamps (transition_map S) (off + k * m_packetSize S) buf buf')) \<and>
      (\<forall>R pid t u. (transition_map R pid t - transition_map R pid u) mod 2 ^ 33 = (t - u) mod 2 ^ 33)"
proof (intro conjI allI)
  show "\<exists>buf' S'. reTimestampDuringTransitionToAd off (m * m_packetSize S) buf S = Some (buf', S') \<and>
        within off (m * m_packetSize S) buf buf' \<and> (\<forall>k < m. packet_stamps (transition_map T) (off + k * m_packetSize S) buf buf')"
    using toAd.packet_loop_ok[OF assms(2) transition_base_size[OF assms(1)] assms(4,3), of _ 0]
    unfolding reTimestampDuringTransitionToAd_def assms(1) bind.bind_lunit add_0 by blast
  show "\<exists>buf' S'. reTimestampDuringTransitionBack off (m * m_packetSize S) buf S = Some (buf', S') \<and>
        within off (m * m_packetSize S) buf buf' \<and> (\<forall>k < m. packet_stamps (transition_map S) (off + k * m_packetSize S) buf buf')"
    using toNetwork.packet_loop_ok[OF assms(2) refl assms(4), of _ 0] unfolding reTimestampDuringTransitionBack_def add_0 by blast
qed (rule transition_map_diff)

theorem transitions_restamp_witness:
  "\<exists>buf' S'. reTimestampDuringTransitionBack 4 188 ([0, 0, 0, 9] @ sample_packet) sample_state = Some (buf', S') \<and> stamp buf' 17 = Some 920"
proof -
  let ?b = "[0, 0, 0, 9] @ sample_packet"
  have r: "roomy 188 ?b 4" "transition_base sample_state = Some sample_state" "pes_at ?b 4" "payload_at ?b 4 = 8" "?b ! 15 = 0x80"
    "stamp ?b 17 = Some 16"
    by (simp_all add: sample_packet_def sample_state_def RBIStreamProcessor_new_def roomy_def payload_at_def pes_at_def pes_start_def rd_def
      transition_base_def stamp_def readTimeStamp_def)
  obtain buf' S' where *: "reTimestampDuringTransitionBack 4 188 ?b sample_state = Some (buf', S')"
      "packet_stamps (transition_map sample_state) 4 ?b buf'"
    using transitions_restamp[OF r(2), where m = 1 and buf = ?b and off = 4] r(1) sample_roomy(2) by auto
  have "stamp buf' 17 = map_option (transition_map sample_state (the (packet_pid ?b 4))) (stamp ?b 17)"
    using *(2) r by (simp add: packet_stamps_def stamps_def)
  moreover have "transition_map sample_state pid 16 = 920" for pid
    by (simp add: transition_map_eq sample_state_def RBIStreamProcessor_new_def)
  ultimately show ?thesis using *(1) r(6) by simp
qed

lemma pes_start_outside: "length buf \<le> p \<Longrightarrow> pes_start buf p = None"
  by (simp add: pes_start_def rd_def)

text \<open>C38. The length of an adaptation field is not compared with the size of a packet. In a packet that has an adaptation field and the
  payload start flag, a length byte that points to the end of the buffer or beyond makes all three functions read behind the buffer.\<close>

theorem adaptation_length_unchecked:
  assumes "off + 11 \<le> length buf" "buf ! (off + 1) AND 0x40 \<noteq> 0" "buf ! (off + 3) AND 0x20 \<noteq> 0"
    and "length buf \<le> off + 5 + unat (buf ! (off + 4))"
  shows "reTimestamp_packet due i off buf S = None \<and> toAd_packet i off buf S = None \<and> back_packet i off buf S = None"
proof -
  have r: "rd buf (off + 1) = Some (buf ! (off + 1))" "rd buf (off + 3) = Some (buf ! (off + 3))" "rd buf (off + 4) = Some (buf ! (off + 4))"
    "rd buf (off + 5) = Some (buf ! (off + 5))"
    using assms(1) by (simp_all add: rd_in)
  obtain pid where p: "packet_pid buf off = Some pid" using packet_pid_ok[of off buf] assms(1) by auto
  obtain b1 S1 where 1: "retime_pcr off buf S = Some (b1, S1)" "within off 11 buf b1" "rd b1 (off + 4) = Some (buf ! (off + 4))"
    using retime_pcr_ok[OF assms(1)] r(3) by metis
  have "pes_start b1 (off + 4 + 1 + unat (buf ! (off + 4))) = None" using pes_start_outside assms(4) within_length[OF 1(2)] by simp
  then have "reTimestamp_packet due i off buf S = None" using 1 p r assms(2,3) by (simp add: reTimestamp_packet_def)
  moreover have "toAd_packet i off buf S = None"
  proof (cases "transition_pcr off buf S")
    case (Some c)
    then obtain b2 S2 where 2: "transition_pcr off buf S = Some (b2, S2)" by (cases c) auto
    then have "within (off + 6) 5 buf b2"
      by (auto simp: transition_pcr_def bind_eq_Some_conv Let_def split: if_splits intro: writePCR_within within_refl)
    then have "rd b2 (off + 4) = Some (buf ! (off + 4))" "length b2 = length buf" using within_rd[of _ _ _ _ "off + 4"] r(3) within_length by fastforce+
    with 2 p r assms(2-4) show ?thesis by (simp add: toAd_packet_def pes_start_outside)
  qed (use p r assms in \<open>simp add: toAd_packet_def\<close>)
  moreover have "back_packet i off buf S = None" using p r assms by (simp add: back_packet_def pes_start_outside)
  ultimately show ?thesis by simp
qed

theorem adaptation_length_unchecked_witness:
  "back_packet 0 0 ([0x47, 0x40, 0x11, 0x30, 183, 0] @ replicate 182 0) sample_state = None"
  using adaptation_length_unchecked[where off = 0 and buf = "[0x47, 0x40, 0x11, 0x30, 183, 0] @ replicate 182 0" and i = 0 and S = sample_state and due = "\<lambda>_. 0"]
  by simp

end
