(* ===== verification/RbiBits.thy ===== *)
theory RbiBits
  imports Prelude
begin

text \<open>
  The bit reader of \<open>rbi/rbi.cpp\<close>: \<open>getBits\<close>, \<open>getUExpGolomb\<close> and \<open>getSExpGolomb\<close>, with which the stream processor reads
  H.264 parameter sets. A reader is the offset of the byte \<open>p\<close> points to and the mask of the next bit. Integers of type \<open>int\<close> are words
  of 32 bits.
\<close>

section \<open>The code\<close>

type_synonym reader = "nat \<times> 32 word"

text \<open>The statements by which every function moves to the next bit.\<close>

definition next_bit :: "reader \<Rightarrow> reader" where
  "next_bit r = (case r of (p, msk) \<Rightarrow> let msk = drop_bit 1 msk in if msk = 0 then (p + 1, 0x80) else (p, msk))"

definition read_bit :: "byte list \<Rightarrow> reader \<Rightarrow> (bool \<times> reader) option" where
  "read_bit buf r = do { c \<leftarrow> rd buf (fst r); Some (ucast c AND snd r \<noteq> 0, next_bit r) }"

fun getBits_loop :: "byte list \<Rightarrow> nat \<Rightarrow> 32 word \<Rightarrow> reader \<Rightarrow> (32 word \<times> reader) option" where
  "getBits_loop buf 0 bits r = Some (bits, r)"
| "getBits_loop buf (Suc bitCount) bits r =
     do { (b, r) \<leftarrow> read_bit buf r;
          getBits_loop buf bitCount (let bits = push_bit 1 bits in if b then bits OR 1 else bits) r }"

definition getBits :: "byte list \<Rightarrow> nat \<Rightarrow> reader \<Rightarrow> (32 word \<times> reader) option" where
  "getBits buf bitCount r = getBits_loop buf bitCount 0 r"

text \<open>The loop over the leading zeros; \<open>factor >> 1\<close> is the arithmetic shift of an \<open>int\<close>.\<close>

function leading_zeros :: "byte list \<Rightarrow> nat \<Rightarrow> 32 word \<Rightarrow> 32 word \<Rightarrow> reader \<Rightarrow> (nat \<times> 32 word \<times> reader) option" where
  "leading_zeros buf leadingZeros codeNum factor r =
     do { (b, r) \<leftarrow> read_bit buf r;
          if \<not> b then leading_zeros buf (leadingZeros + 1) (codeNum + signed_drop_bit 1 factor) (push_bit 1 factor) r
          else Some (leadingZeros, codeNum, r) }"
  by pat_completeness auto
termination
proof (relation "measures [\<lambda>(buf, _, _, _, p, m). length buf - p, \<lambda>(buf, _, _, _, p, m). unat m]", goal_cases)
  case (2 buf z c f r x b r')
  obtain p m where r: "r = (p, m)" by fastforce
  obtain p' m' where r': "r' = (p', m')" by fastforce
  from 2 r r' have "p < length buf" "next_bit (p, m) = (p', m')" by (auto simp: read_bit_def bind_eq_Some_conv rd_Some)
  moreover from this(2) have "p' = p + 1 \<or> p' = p \<and> unat m' < unat m"
    by (cases "m = 0") (auto simp: next_bit_def Let_def drop_bit_eq_div unat_div split: if_splits intro!: div_less_dividend simp: unat_gt_0)
  ultimately show ?case by (auto simp: r r')
qed simp

declare leading_zeros.simps [simp del]

definition getUExpGolomb :: "byte list \<Rightarrow> reader \<Rightarrow> (32 word \<times> reader) option" where
  "getUExpGolomb buf r =
     do { (leadingZeros, codeNum, r) \<leftarrow> leading_zeros buf 0 0 2 r;
          if leadingZeros \<noteq> 0 then do { (bits, r) \<leftarrow> getBits buf leadingZeros r; Some (codeNum + bits, r) }
          else Some (codeNum, r) }"

definition getSExpGolomb :: "byte list \<Rightarrow> reader \<Rightarrow> (32 word \<times> reader) option" where
  "getSExpGolomb buf r =
     do { (u, r) \<leftarrow> getUExpGolomb buf r;
          let n = drop_bit 1 (u + 1);
          Some (if u AND 1 = 0 then - n else n, r) }"


section \<open>The bits of an array\<close>

text \<open>The reader in front of the k-th bit; the most significant bit of a byte comes first.\<close>

definition reader_at :: "nat \<Rightarrow> reader" where
  "reader_at k = (k div 8, push_bit (7 - k mod 8) 1)"

definition bit_at :: "byte list \<Rightarrow> nat \<Rightarrow> bool" where
  "bit_at buf k = bit (buf ! (k div 8)) (7 - k mod 8)"

lemma next_bit_at: "next_bit (reader_at k) = reader_at (Suc k)"
proof (cases "k mod 8 = 7")
  case True
  then have "Suc k mod 8 = 0" "Suc k div 8 = Suc (k div 8)" by presburger+
  with True show ?thesis by (simp add: next_bit_def reader_at_def push_bit_eq_mult)
next
  case False
  define j where "j = 6 - k mod 8"
  have "k mod 8 < 8" by simp
  with False have s: "Suc k mod 8 = Suc (k mod 8)" "Suc k div 8 = k div 8" "7 - k mod 8 = Suc j" "7 - Suc (k mod 8) = j" "j < 7"
    by (simp_all add: j_def mod_Suc div_Suc)
  have "drop_bit 1 (push_bit (Suc j) (1 :: 32 word)) = push_bit j 1" using s(5) by (intro bit_word_eqI) (auto simp: bit_simps)
  moreover have "push_bit j (1 :: 32 word) \<noteq> 0"
  proof -
    have "j \<in> {0, 1, 2, 3, 4, 5, 6}" using s(5) by auto
    then show ?thesis by auto
  qed
  ultimately show ?thesis by (simp add: next_bit_def reader_at_def s flip: j_def)
qed

lemma and_mask_nonzero: "(w AND 2 ^ n \<noteq> (0 :: 32 word)) = bit w n"
  by (simp add: and_exp_eq_0_iff_not_bit)

lemma read_bit_at: "read_bit buf (reader_at k) = (if k < 8 * length buf then Some (bit_at buf k, reader_at (Suc k)) else None)"
proof -
  have "k div 8 < length buf \<longleftrightarrow> k < 8 * length buf" "7 - k mod 8 < 32" by presburger+
  then show ?thesis
    by (simp add: read_bit_def next_bit_at rd_def bit_at_def) (simp add: reader_at_def and_mask_nonzero bit_simps)
qed

text \<open>\<open>holds_bits buf k bs\<close>: from the k-th bit on the array has the bits \<open>bs\<close>.\<close>

fun holds_bits :: "byte list \<Rightarrow> nat \<Rightarrow> bool list \<Rightarrow> bool" where
  "holds_bits buf k [] = True"
| "holds_bits buf k (b # bs) = (k < 8 * length buf \<and> bit_at buf k = b \<and> holds_bits buf (Suc k) bs)"

lemma holds_bits_append [simp]:
  "holds_bits buf k (bs @ cs) \<longleftrightarrow> holds_bits buf k bs \<and> holds_bits buf (k + length bs) cs"
  by (induction bs arbitrary: k) auto

section \<open>Fields of a fixed width\<close>

fun field_bits :: "nat \<Rightarrow> nat \<Rightarrow> bool list" where
  "field_bits 0 v = []"
| "field_bits (Suc n) v = bit v n # field_bits n v"

lemma length_field_bits [simp]: "length (field_bits n v) = n"
  by (induction n) auto

lemma getBits_loop_at:
  "holds_bits buf k (field_bits n v) \<Longrightarrow>
     getBits_loop buf n w (reader_at k) = Some (push_bit n w OR word_of_nat (take_bit n v), reader_at (k + n))"
proof (induction n arbitrary: k w)
  case (Suc n)
  have "push_bit n (let w = push_bit 1 w in if bit v n then w OR 1 else w) OR word_of_nat (take_bit n v) =
      push_bit (Suc n) w OR (word_of_nat (take_bit (Suc n) v) :: 32 word)"
    by (rule bit_word_eqI) (auto simp: bit_simps Let_def less_Suc_eq)
  with Suc show ?case by (simp add: read_bit_at)
qed simp

lemma getBits_at: "holds_bits buf k (field_bits n v) \<Longrightarrow> v < 2 ^ n \<Longrightarrow> getBits buf n (reader_at k) = Some (word_of_nat v, reader_at (k + n))"
  using getBits_loop_at[of buf k n v 0] by (simp add: getBits_def take_bit_nat_eq_self)

section \<open>Exp-Golomb codes\<close>

text \<open>The code of a number: as many zeros as the number needs bits behind its leading one, a one, and those bits of the number plus one.\<close>

fun ue_zeros :: "nat \<Rightarrow> nat" where
  "ue_zeros n = (if n = 0 then 0 else Suc (ue_zeros ((n - 1) div 2)))"

declare ue_zeros.simps [simp del]

lemma ue_zeros_bounds: "2 ^ ue_zeros n \<le> n + 1 \<and> n + 1 < 2 ^ Suc (ue_zeros n)"
proof (induction n rule: ue_zeros.induct)
  case (1 n)
  show ?case
  proof (cases "n = 0")
    case False
    define m where "m = (n - 1) div 2"
    have "n = 2 * m + 1 \<or> n = 2 * m + 2" using False unfolding m_def by presburger
    with 1 False show ?thesis by (subst (1 2) ue_zeros.simps) (auto simp flip: m_def)
  qed (simp add: ue_zeros.simps)
qed

definition ue :: "nat \<Rightarrow> bool list" where
  "ue n = replicate (ue_zeros n) False @ True # field_bits (ue_zeros n) (n + 1 - 2 ^ ue_zeros n)"

text \<open>The signed code: 0, 1, -1, 2, -2 and so on.\<close>

definition se :: "int \<Rightarrow> bool list" where
  "se i = ue (nat (if i > 0 then 2 * i - 1 else - 2 * i))"

lemma factor_shift: "z < 30 \<Longrightarrow> signed_drop_bit 1 (2 ^ Suc z :: 32 word) = 2 ^ z"
  by (rule bit_word_eqI) (auto simp: bit_simps bit_exp_iff)

lemma leading_zeros_at:
  "holds_bits buf k (replicate z False @ [True]) \<Longrightarrow> y + z \<le> 30 \<Longrightarrow>
     leading_zeros buf y (2 ^ y - 1) (2 ^ Suc y) (reader_at k) = Some (y + z, 2 ^ (y + z) - 1, reader_at (k + z + 1))"
proof (induction z arbitrary: k y)
  case 0
  then show ?case by (subst leading_zeros.simps) (simp add: read_bit_at)
next
  case (Suc z)
  have f: "signed_drop_bit 1 (2 ^ Suc y :: 32 word) = 2 ^ y" using Suc.prems by (intro factor_shift) simp
  have "leading_zeros buf y (2 ^ y - 1) (2 ^ Suc y) (reader_at k) =
      leading_zeros buf (Suc y) (2 ^ Suc y - 1) (2 ^ Suc (Suc y)) (reader_at (Suc k))"
    using Suc.prems f by (subst leading_zeros.simps) (simp add: read_bit_at push_bit_eq_mult)
  with Suc.IH[of "Suc k" "Suc y"] Suc.prems show ?case by simp
qed


lemma ue_zeros_le: "n + 1 < 2 ^ 31 \<Longrightarrow> ue_zeros n \<le> 30"
proof (rule ccontr)
  assume "n + 1 < 2 ^ 31" "\<not> ue_zeros n \<le> 30"
  then have "(2 :: nat) ^ 31 \<le> 2 ^ ue_zeros n" by (intro power_increasing) simp_all
  also have "\<dots> \<le> n + 1" using ue_zeros_bounds by simp
  finally show False using \<open>n + 1 < 2 ^ 31\<close> by simp
qed

lemma getUExpGolomb_at:
  assumes "holds_bits buf k (ue n)" "n + 1 < 2 ^ 31"
  shows "getUExpGolomb buf (reader_at k) = Some (word_of_nat n, reader_at (k + length (ue n)))"
proof -
  let ?z = "ue_zeros n" and ?v = "n + 1 - 2 ^ ue_zeros n"
  have z: "leading_zeros buf 0 0 2 (reader_at k) = Some (?z, 2 ^ ?z - 1, reader_at (k + ?z + 1))"
    using leading_zeros_at[of buf k ?z 0] assms ue_zeros_le[OF assms(2)] by (simp add: ue_def)
  have v: "?v < 2 ^ ?z" "2 ^ ?z \<le> n + 1" using ue_zeros_bounds[of n] by auto
  have b: "getBits buf ?z (reader_at (k + ?z + 1)) = Some (word_of_nat ?v, reader_at (k + ?z + 1 + ?z))"
    using assms(1) v(1) by (intro getBits_at) (simp_all add: ue_def)
  have "2 ^ ?z - 1 + word_of_nat ?v = (word_of_nat (n + 1) - 1 :: 32 word)" using v(2) by (simp add: of_nat_diff)
  then have "2 ^ ?z - 1 + word_of_nat ?v = (word_of_nat n :: 32 word)" by simp
  with z b show ?thesis by (auto simp: getUExpGolomb_def ue_def getBits_def add.assoc)
qed

lemma getSExpGolomb_at:
  assumes "holds_bits buf k (se i)" "\<bar>i\<bar> < 2 ^ 30"
  shows "getSExpGolomb buf (reader_at k) = Some (word_of_int i, reader_at (k + length (se i)))"
proof -
  define u where "u = nat (if i > 0 then 2 * i - 1 else - 2 * i)"
  have u: "u + 1 < 2 ^ 31" using assms(2) by (auto simp: u_def)
  have g: "getUExpGolomb buf (reader_at k) = Some (word_of_nat u, reader_at (k + length (se i)))"
    using getUExpGolomb_at[OF _ u] assms(1) by (simp add: se_def flip: u_def)
  have d: "drop_bit 1 (word_of_nat u + 1 :: 32 word) = word_of_nat ((u + 1) div 2)"
    using u by (simp add: word_unat_eq_iff drop_bit_eq_div unat_div unat_of_nat unat_word_ariths flip: of_nat_Suc)
  have e: "(word_of_nat u AND 1 = (0 :: 32 word)) = even u" by (simp add: and_one_eq mod2_eq_if)
  show ?thesis
  proof (cases "i > 0")
    case True
    then have "odd u" "int ((u + 1) div 2) = i" by (simp_all add: u_def nat_diff_distrib even_nat_iff) 
    then have "(word_of_nat ((u + 1) div 2) :: 32 word) = word_of_int i" by (metis of_int_of_nat_eq)
    with g d e \<open>odd u\<close> show ?thesis by (simp add: getSExpGolomb_def Let_def)
  next
    case False
    then have "even u" "- int ((u + 1) div 2) = i" by (simp_all add: u_def even_nat_iff)
    then have "- (word_of_nat ((u + 1) div 2) :: 32 word) = word_of_int i" by (metis of_int_minus of_int_of_nat_eq)
    with g d e \<open>even u\<close> show ?thesis by (simp add: getSExpGolomb_def Let_def)
  qed
qed

end
