(* ===== verification/RbiSps.thy ===== *)
theory RbiSps
  imports RbiState RbiBits "HOL-Library.Signed_Division"
begin

text \<open>
  H.264 sequence parameter sets: \<open>processSeqParameterSet\<close> and \<open>processScalingList\<close> of \<open>rbi/rbi.cpp\<close>, read with the bit reader.
  An \<open>int\<close> is a word of 32 bits. The table \<open>m_SPS\<close> has 32 entries; an access outside of it is None, as is a read outside the
  buffer. The code gives \<open>false\<close> always, so that only the state is a result.
\<close>

section \<open>The code\<close>

definition upd_sps :: "32 word \<Rightarrow> (H264SPS \<Rightarrow> H264SPS) \<Rightarrow> RBIStreamProcessor \<Rightarrow> RBIStreamProcessor option" where
  "upd_sps ident f S = do { e \<leftarrow> rd (m_SPS S) (unat ident); Some (S\<lparr>m_SPS := (m_SPS S)[unat ident := f e]\<rparr>) }"

text \<open>\<open>%\<close> rounds towards zero.\<close>

fun processScalingList :: "byte list \<Rightarrow> nat \<Rightarrow> 32 word \<Rightarrow> 32 word \<Rightarrow> reader \<Rightarrow> reader option" where
  "processScalingList buf 0 nextScale lastScale r = Some r"
| "processScalingList buf (Suc j) nextScale lastScale r =
     do { (nextScale, r) \<leftarrow>
            (if nextScale \<noteq> 0 then
               do { (deltaScale, r) \<leftarrow> getSExpGolomb buf r;
                    Some (word_of_int (sint (lastScale + deltaScale + 256) smod 256), r) }
             else Some (nextScale, r));
          processScalingList buf j nextScale (if nextScale = 0 then lastScale else nextScale) r }"

text \<open>The loop over the scaling lists of a matrix, from the i-th to the n-th.\<close>

fun scaling_lists :: "byte list \<Rightarrow> nat \<Rightarrow> nat \<Rightarrow> reader \<Rightarrow> reader option" where
  "scaling_lists buf 0 i r = Some r"
| "scaling_lists buf (Suc n) i r =
     do { (present, r) \<leftarrow> getBits buf 1 r;
          r \<leftarrow> (if present \<noteq> 0 then processScalingList buf (if i < 6 then 16 else 64) 8 8 r else Some r);
          scaling_lists buf n (Suc i) r }"

definition high_profile :: "byte \<Rightarrow> bool" where
  "high_profile profile_idc \<longleftrightarrow> profile_idc \<in> {44, 83, 86, 100, 110, 118, 122, 128, 244}"

definition chroma_info :: "byte list \<Rightarrow> 32 word \<Rightarrow> reader \<Rightarrow> RBIStreamProcessor \<Rightarrow> (reader \<times> RBIStreamProcessor) option" where
  "chroma_info buf ident r S =
     do { (chroma_format_idx, r) \<leftarrow> getUExpGolomb buf r;
          (r, S) \<leftarrow> (if chroma_format_idx = 3
                     then do { (f, r) \<leftarrow> getBits buf 1 r; S \<leftarrow> upd_sps ident (\<lambda>e. e\<lparr>separateColorPlaneFlag := f\<rparr>) S; Some (r, S) }
                     else Some (r, S));
          (_, r) \<leftarrow> getUExpGolomb buf r;
          (_, r) \<leftarrow> getUExpGolomb buf r;
          (_, r) \<leftarrow> getBits buf 1 r;
          (matrix, r) \<leftarrow> getBits buf 1 r;
          r \<leftarrow> (if matrix \<noteq> 0 then scaling_lists buf (if chroma_format_idx \<noteq> 3 then 8 else 12) 0 r else Some r);
          Some (r, S) }"

text \<open>The loop over the reference frames of a cycle; its bound is a signed number.\<close>

fun skip_ue :: "byte list \<Rightarrow> nat \<Rightarrow> reader \<Rightarrow> reader option" where
  "skip_ue buf 0 r = Some r"
| "skip_ue buf (Suc n) r = do { (_, r) \<leftarrow> getUExpGolomb buf r; skip_ue buf n r }"

definition order_info :: "byte list \<Rightarrow> 32 word \<Rightarrow> reader \<Rightarrow> RBIStreamProcessor \<Rightarrow> (reader \<times> RBIStreamProcessor) option" where
  "order_info buf ident r S =
     do { (pic_order_cnt_type, r) \<leftarrow> getUExpGolomb buf r;
          S \<leftarrow> upd_sps ident (\<lambda>e. e\<lparr>picOrderCountType := pic_order_cnt_type\<rparr>) S;
          if pic_order_cnt_type = 0 then
            do { (lsb, r) \<leftarrow> getUExpGolomb buf r;
                 S \<leftarrow> upd_sps ident (\<lambda>e. e\<lparr>log2MaxPicOrderCntLsbMinus4 := lsb, maxPicOrderCount := push_bit (unat (lsb + 4)) 2\<rparr>) S;
                 Some (r, S) }
          else if pic_order_cnt_type = 1 then
            do { (_, r) \<leftarrow> getBits buf 1 r;
                 (_, r) \<leftarrow> getSExpGolomb buf r;
                 (_, r) \<leftarrow> getSExpGolomb buf r;
                 (n, r) \<leftarrow> getUExpGolomb buf r;
                 r \<leftarrow> skip_ue buf (nat (sint n)) r;
                 Some (r, S) }
          else Some (r, S) }"

definition set_frame_size :: "32 word \<Rightarrow> 32 word \<Rightarrow> RBIStreamProcessor \<Rightarrow> RBIStreamProcessor" where
  "set_frame_size frameWidth frameHeight S =
     (if m_frameWidth S = -1 \<or> frameWidth \<noteq> m_frameWidth S \<or> m_frameHeight S = -1 \<or> frameHeight \<noteq> m_frameHeight S
      then S\<lparr>m_frameWidth := frameWidth, m_frameHeight := frameHeight\<rparr> else S)"

definition picture_info :: "byte list \<Rightarrow> 32 word \<Rightarrow> reader \<Rightarrow> RBIStreamProcessor \<Rightarrow> RBIStreamProcessor option" where
  "picture_info buf ident r S =
     do { (_, r) \<leftarrow> getUExpGolomb buf r;
          (_, r) \<leftarrow> getBits buf 1 r;
          (pic_width_in_mbs_minus1, r) \<leftarrow> getUExpGolomb buf r;
          (pic_height_in_map_units_minus1, r) \<leftarrow> getUExpGolomb buf r;
          (frame_mbs_only_flag, r) \<leftarrow> getBits buf 1 r;
          S \<leftarrow> upd_sps ident (\<lambda>e. e\<lparr>frameMBSOnlyFlag := frame_mbs_only_flag\<rparr>) S;
          let frameWidth = (pic_width_in_mbs_minus1 + 1) * 16;
          let frameHeight = (pic_height_in_map_units_minus1 + 1) * 16;
          let S = S\<lparr>m_isInterlaced := frame_mbs_only_flag = 0, m_isInterlacedKnown := True\<rparr>;
          frameHeight \<leftarrow> (if frame_mbs_only_flag = 0 then do { (_, r) \<leftarrow> getBits buf 1 r; Some (frameHeight * 2) } else Some frameHeight);
          Some (set_frame_size frameWidth frameHeight S) }"

definition processSeqParameterSet :: "byte list \<Rightarrow> RBIStreamProcessor \<Rightarrow> RBIStreamProcessor option" where
  "processSeqParameterSet buf S =
     do { profile_idc \<leftarrow> rd buf 0;
          (ident, r) \<leftarrow> getUExpGolomb buf (3, 0x80);
          S \<leftarrow> upd_sps ident (\<lambda>e. e\<lparr>separateColorPlaneFlag := 0\<rparr>) S;
          (r, S) \<leftarrow> (if high_profile profile_idc then chroma_info buf ident r S else Some (r, S));
          (log2_max_frame_num_minus4, r) \<leftarrow> getUExpGolomb buf r;
          S \<leftarrow> upd_sps ident (\<lambda>e. e\<lparr>log2MaxFrameNumMinus4 := log2_max_frame_num_minus4\<rparr>) S;
          (r, S) \<leftarrow> order_info buf ident r S;
          picture_info buf ident r S }"

section \<open>A parameter set as bits\<close>

text \<open>The syntax of H.264, 7.3.2.1: the fields of a parameter set and the bits they are written with. A scaling list that is present has the
  differences of its entries; it ends early with a difference that leads to 0.\<close>

datatype order_count = Lsb nat | Cycle bool int int "int list" | Output_order

record sps =
  sp_id :: nat
  sp_chroma :: nat
  sp_separate :: bool
  sp_depth_luma :: nat
  sp_depth_chroma :: nat
  sp_bypass :: bool
  sp_matrix :: "int list option list option"
  sp_frame_num :: nat
  sp_order :: order_count
  sp_refs :: nat
  sp_gaps :: bool
  sp_width :: nat
  sp_height :: nat
  sp_frame_mbs_only :: bool
  sp_mb_adaptive :: bool

fun list_bits :: "int list option \<Rightarrow> bool list" where
  "list_bits None = [False]"
| "list_bits (Some ds) = True # concat (map se ds)"

definition chroma_bits :: "sps \<Rightarrow> bool list" where
  "chroma_bits s = ue (sp_chroma s) @ (if sp_chroma s = 3 then [sp_separate s] else []) @ ue (sp_depth_luma s) @ ue (sp_depth_chroma s) @
     [sp_bypass s] @ (case sp_matrix s of None \<Rightarrow> [False] | Some ls \<Rightarrow> True # concat (map list_bits ls))"

fun order_bits :: "order_count \<Rightarrow> bool list" where
  "order_bits (Lsb n) = ue 0 @ ue n"
| "order_bits (Cycle z a b os) = ue 1 @ [z] @ se a @ se b @ ue (length os) @ concat (map se os)"
| "order_bits Output_order = ue 2"

definition picture_bits :: "sps \<Rightarrow> bool list" where
  "picture_bits s = ue (sp_refs s) @ [sp_gaps s] @ ue (sp_width s) @ ue (sp_height s) @ [sp_frame_mbs_only s] @
     (if sp_frame_mbs_only s then [] else [sp_mb_adaptive s])"

definition sps_bits :: "bool \<Rightarrow> sps \<Rightarrow> bool list" where
  "sps_bits high s = ue (sp_id s) @ (if high then chroma_bits s else []) @ ue (sp_frame_num s) @ order_bits (sp_order s) @ picture_bits s"

text \<open>The differences of a list of n entries, when the last scale is l.\<close>

fun deltas :: "nat \<Rightarrow> int \<Rightarrow> int \<Rightarrow> int list \<Rightarrow> bool" where
  "deltas 0 n l ds = (ds = [])"
| "deltas (Suc j) n l ds =
     (if n = 0 then deltas j 0 l ds
      else case ds of [] \<Rightarrow> False
           | d # ds \<Rightarrow> - 128 \<le> d \<and> d \<le> 127 \<and> (let n' = (l + d + 256) mod 256 in deltas j n' (if n' = 0 then l else n') ds))"

fun lists_ok :: "nat \<Rightarrow> int list option list \<Rightarrow> bool" where
  "lists_ok i [] = True"
| "lists_ok i (None # ls) = lists_ok (Suc i) ls"
| "lists_ok i (Some ds # ls) = (deltas (if i < 6 then 16 else 64) 8 8 ds \<and> lists_ok (Suc i) ls)"

abbreviation (input) ue_ok :: "nat \<Rightarrow> bool" where "ue_ok n \<equiv> n + 1 < 2 ^ 31"
abbreviation (input) se_ok :: "int \<Rightarrow> bool" where "se_ok i \<equiv> \<bar>i\<bar> < 2 ^ 30"

definition chroma_ok :: "sps \<Rightarrow> bool" where
  "chroma_ok s \<longleftrightarrow> sp_chroma s \<le> 3 \<and> ue_ok (sp_depth_luma s) \<and> ue_ok (sp_depth_chroma s) \<and>
     (case sp_matrix s of None \<Rightarrow> True | Some ls \<Rightarrow> length ls = (if sp_chroma s \<noteq> 3 then 8 else 12) \<and> lists_ok 0 ls)"

fun order_ok :: "order_count \<Rightarrow> bool" where
  "order_ok (Lsb n) = (n \<le> 12)"
| "order_ok (Cycle z a b os) = (se_ok a \<and> se_ok b \<and> length os \<le> 255 \<and> (\<forall>x \<in> set os. se_ok x))"
| "order_ok Output_order = True"

definition sps_ok :: "bool \<Rightarrow> sps \<Rightarrow> bool" where
  "sps_ok high s \<longleftrightarrow> sp_id s \<le> 31 \<and> (high \<longrightarrow> chroma_ok s) \<and> sp_frame_num s \<le> 12 \<and> order_ok (sp_order s) \<and>
     ue_ok (sp_refs s) \<and> ue_ok (sp_width s) \<and> ue_ok (sp_height s)"

section \<open>Reading the fields\<close>

lemma getBits_1: "holds_bits buf k (b # bs) \<Longrightarrow> getBits buf 1 (reader_at k) = Some (of_bool b, reader_at (Suc k))"
  using getBits_at[of buf k 1 "of_bool b"] by (cases b) (simp_all add: bit_Suc_0_iff)

lemma se_ue: "\<exists>n. se i = ue n \<and> (se_ok i \<longrightarrow> ue_ok n)"
  by (intro exI[of _ "nat (if i > 0 then 2 * i - 1 else - 2 * i)"]) (auto simp: se_def)

lemma skip_ue_at:
  "holds_bits buf k (concat (map se os)) \<Longrightarrow> \<forall>x \<in> set os. se_ok x \<Longrightarrow>
     skip_ue buf (length os) (reader_at k) = Some (reader_at (k + length (concat (map se os))))"
proof (induction os arbitrary: k)
  case (Cons x os)
  obtain n where n: "se x = ue n" "ue_ok n" using se_ue[of x] Cons.prems(2) by auto
  then have "getUExpGolomb buf (reader_at k) = Some (word_of_nat n, reader_at (k + length (se x)))"
    using getUExpGolomb_at[of buf k n] Cons.prems(1) by simp
  with Cons.IH[of "k + length (se x)"] Cons.prems show ?case by (simp add: add.assoc)
qed simp

lemma scale_step:
  assumes "1 \<le> l" "l \<le> 255" "- 128 \<le> d" "d \<le> 127"
  shows "word_of_int (sint (word_of_int l + word_of_int d + 256 :: 32 word) smod 256) = (word_of_int ((l + d + 256) mod 256) :: 32 word)"
proof -
  have "sint (word_of_int (l + d + 256) :: 32 word) = l + d + 256" 
    using assms by (subst signed_of_int) (simp add: signed_take_bit_int_eq_self)
  moreover have "(l + d + 256) smod 256 = (l + d + 256) mod 256" using assms by (simp add: signed_modulo_int_def signed_divide_int_def minus_div_mult_eq_mod[symmetric])
  ultimately show ?thesis by simp
qed

lemma processScalingList_at:
  "deltas j n l ds \<Longrightarrow> holds_bits buf k (concat (map se ds)) \<Longrightarrow> 1 \<le> l \<Longrightarrow> l \<le> 255 \<Longrightarrow> 0 \<le> n \<Longrightarrow> n \<le> 255 \<Longrightarrow>
     processScalingList buf j (word_of_int n) (word_of_int l) (reader_at k) = Some (reader_at (k + length (concat (map se ds))))"
proof (induction j n l ds arbitrary: k rule: deltas.induct)
  case (2 j n l ds)
  have z: "word_of_int m = (0 :: 32 word) \<longleftrightarrow> m = 0" if "0 \<le> m" "m \<le> 255" for m :: int
    using that by (auto simp: word_of_int_eq_0_iff dest: zdvd_imp_le)
  show ?case
  proof (cases "n = 0")
    case True
    with 2 show ?thesis by simp
  next
    case False
    then obtain d es where ds: "ds = d # es" "- 128 \<le> d" "d \<le> 127" using 2(3) by (auto split: list.splits)
    define n' where "n' = (l + d + 256) mod 256"
    have n': "0 \<le> n'" "n' \<le> 255" unfolding n'_def using pos_mod_bound[of 256 "l + d + 256"] by simp_all
    have g: "getSExpGolomb buf (reader_at k) = Some (word_of_int d, reader_at (k + length (se d)))"
      using 2(4) ds by (intro getSExpGolomb_at) auto
    have "processScalingList buf j (word_of_int n') (word_of_int (if n' = 0 then l else n')) (reader_at (k + length (se d))) =
        Some (reader_at (k + length (se d) + length (concat (map se es))))"
      using 2(3-6) False ds n' by (intro 2(2)[OF False]) (auto simp: n'_def Let_def)
    with g z[of n] z[OF n'] False scale_step[OF 2(5,6) ds(2,3), folded n'_def] 2(7,8) ds(1) show ?thesis
      by (cases "n' = 0") (simp_all add: add.assoc[of k])
  qed
qed simp

lemma scaling_lists_at:
  "lists_ok i ls \<Longrightarrow> holds_bits buf k (concat (map list_bits ls)) \<Longrightarrow>
     scaling_lists buf (length ls) i (reader_at k) = Some (reader_at (k + length (concat (map list_bits ls))))"
proof (induction i ls arbitrary: k rule: lists_ok.induct)
  case (2 i ls)
  have "getBits buf 1 (reader_at k) = Some (of_bool False, reader_at (Suc k))" using 2(3) by (intro getBits_1[of _ _ _ "[]"]) simp
  with 2(1)[of "Suc k"] 2(2,3) show ?case by simp
next
  case (3 i ds ls)
  have g: "getBits buf 1 (reader_at k) = Some (of_bool True, reader_at (Suc k))" using 3(3) by (intro getBits_1[of _ _ _ "[]"]) simp
  have "processScalingList buf (if i < 6 then 16 else 64) (word_of_int 8) (word_of_int 8) (reader_at (Suc k)) =
      Some (reader_at (Suc k + length (concat (map se ds))))"
    using 3(2,3) by (intro processScalingList_at) auto
  with g 3(1)[of "Suc k + length (concat (map se ds))"] 3(2,3) show ?case by (simp add: add.assoc)
qed simp

lemma word_of_nat_eq_3: "n \<le> 3 \<Longrightarrow> (word_of_nat n = (3 :: 32 word)) = (n = 3)"
  by (auto simp: word_unat_eq_iff unat_of_nat)

lemma upd_sps_at:
  "length (m_SPS S) = 32 \<Longrightarrow> n \<le> 31 \<Longrightarrow> upd_sps (word_of_nat n) f S = Some (S\<lparr>m_SPS := (m_SPS S)[n := f (m_SPS S ! n)]\<rparr>)"
  by (simp add: upd_sps_def unat_of_nat rd_def)

text \<open>The tail of the high profiles, behind the flag of the colour planes.\<close>

lemma chroma_info_at:
  assumes "chroma_ok s" "holds_bits buf k (chroma_bits s)" "length (m_SPS S) = 32" "n \<le> 31"
  shows "chroma_info buf (word_of_nat n) (reader_at k) S =
     Some (reader_at (k + length (chroma_bits s)),
           if sp_chroma s = 3 then S\<lparr>m_SPS := (m_SPS S)[n := (m_SPS S ! n)\<lparr>separateColorPlaneFlag := of_bool (sp_separate s)\<rparr>]\<rparr> else S)"
proof -
  let ?ls = "case sp_matrix s of None \<Rightarrow> [] | Some ls \<Rightarrow> concat (map list_bits ls)"
  define k1 where "k1 = k + length (ue (sp_chroma s))"
  define k2 where "k2 = k1 + of_bool (sp_chroma s = 3)"
  define k3 where "k3 = k2 + length (ue (sp_depth_luma s))"
  define k4 where "k4 = k3 + length (ue (sp_depth_chroma s))"
  have ok: "ue_ok (sp_chroma s)" "ue_ok (sp_depth_luma s)" "ue_ok (sp_depth_chroma s)" "sp_chroma s \<le> 3"
    using assms(1) by (simp_all add: chroma_ok_def)
  have h: "holds_bits buf k (ue (sp_chroma s))" "sp_chroma s = 3 \<Longrightarrow> holds_bits buf k1 [sp_separate s]" "holds_bits buf k2 (ue (sp_depth_luma s))"
      "holds_bits buf k3 (ue (sp_depth_chroma s))" "holds_bits buf k4 [sp_bypass s]" "holds_bits buf (Suc k4) [sp_matrix s \<noteq> None]"
      "holds_bits buf (Suc (Suc k4)) ?ls"
    using assms(2) unfolding chroma_bits_def k4_def k3_def k2_def k1_def by (auto split: option.splits)
  note g = getUExpGolomb_at[OF h(1) ok(1), folded k1_def] getUExpGolomb_at[OF h(3) ok(2), folded k3_def]
    getUExpGolomb_at[OF h(4) ok(3), folded k4_def] getBits_1[OF h(5)] getBits_1[OF h(6)]
  have l: "(if sp_matrix s \<noteq> None then scaling_lists buf (if sp_chroma s \<noteq> 3 then 8 else 12) 0 (reader_at (Suc (Suc k4))) else Some (reader_at (Suc (Suc k4)))) =
      Some (reader_at (k + length (chroma_bits s)))"
    using assms(1) scaling_lists_at[of 0 "the (sp_matrix s)" buf "Suc (Suc k4)"] h(7)
    by (cases "sp_matrix s"; cases "sp_chroma s = 3") (simp_all add: chroma_ok_def chroma_bits_def k4_def k3_def k2_def k1_def add.assoc)
  show ?thesis
  proof (cases "sp_chroma s = 3")
    case True
    with g l getBits_1[OF h(2)] assms(3,4) show ?thesis by (cases "sp_matrix s") (simp_all add: chroma_info_def upd_sps_at k2_def)
  next
    case False
    with g l ok(4) show ?thesis by (cases "sp_matrix s") (simp_all add: chroma_info_def word_of_nat_eq_3 k2_def)
  qed
qed

lemma order_info_at:
  assumes "order_ok oc" "holds_bits buf k (order_bits oc)" "length (m_SPS S) = 32" "n \<le> 31"
  shows "order_info buf (word_of_nat n) (reader_at k) S =
     Some (reader_at (k + length (order_bits oc)),
       S\<lparr>m_SPS := (m_SPS S)[n :=
          (case oc of Lsb m \<Rightarrow> (m_SPS S ! n)\<lparr>picOrderCountType := 0, log2MaxPicOrderCntLsbMinus4 := word_of_nat m, maxPicOrderCount := 2 ^ (m + 5)\<rparr>
           | Cycle z a b os \<Rightarrow> (m_SPS S ! n)\<lparr>picOrderCountType := 1\<rparr>
           | Output_order \<Rightarrow> (m_SPS S ! n)\<lparr>picOrderCountType := 2\<rparr>)]\<rparr>)"
proof (cases oc)
  case (Lsb m)
  have u: "unat (word_of_nat m + 4 :: 32 word) = m + 4" if "m \<le> 12"
    using that unat_of_nat[where 'a = 32, of "m + 4"] by simp
  show ?thesis using assms Lsb getUExpGolomb_at[of buf k 0] getUExpGolomb_at[of buf "k + length (ue 0)" m]
    by (simp add: order_info_def upd_sps_at u push_bit_eq_mult add.assoc) (simp add: power_add mult.commute)
next
  case (Cycle z a b os)
  have n: "nat (sint (word_of_nat (length os) :: 32 word)) = length os" if "length os \<le> 255"
  proof -
    have "sint (word_of_int (int (length os)) :: 32 word) = int (length os)"
      using that by (subst signed_of_int) (simp add: signed_take_bit_int_eq_self)
    then show ?thesis by simp
  qed
  define k1 where "k1 = k + length (ue 1)"
  define k2 where "k2 = Suc k1 + length (se a)"
  define k3 where "k3 = k2 + length (se b)"
  define k4 where "k4 = k3 + length (ue (length os))"
  have ok: "se_ok a" "se_ok b" "ue_ok (length os)" "length os \<le> 255" "\<forall>x \<in> set os. se_ok x" using assms(1) Cycle by simp_all
  have h: "holds_bits buf k (ue 1)" "holds_bits buf k1 [z]" "holds_bits buf (Suc k1) (se a)" "holds_bits buf k2 (se b)"
      "holds_bits buf k3 (ue (length os))" "holds_bits buf k4 (concat (map se os))"
    using assms(2) Cycle unfolding k4_def k3_def k2_def k1_def by auto
  have g1: "getUExpGolomb buf (reader_at k) = Some (1, reader_at k1)" using getUExpGolomb_at[OF h(1)] by (simp add: k1_def)
  note g = g1 getBits_1[OF h(2)] getSExpGolomb_at[OF h(3) ok(1), folded k2_def] getSExpGolomb_at[OF h(4) ok(2), folded k3_def]
    getUExpGolomb_at[OF h(5) ok(3), folded k4_def] skip_ue_at[OF h(6) ok(5)]
  have "k4 + length (concat (map se os)) = k + length (order_bits oc)" using Cycle by (simp add: k4_def k3_def k2_def k1_def)
  with g n[OF ok(4)] assms(3,4) Cycle show ?thesis using upd_sps_at[of S n] by (simp add: order_info_def upd_sps_at)
next
  case Output_order
  show ?thesis using assms Output_order getUExpGolomb_at[of buf k 2] by (simp add: order_info_def upd_sps_at)
qed

lemma of_bool_eq_0: "(of_bool b = (0 :: 32 word)) = (\<not> b)"
  by (cases b) simp_all

lemma set_frame_size_eq: "set_frame_size w h S = S\<lparr>m_frameWidth := w, m_frameHeight := h\<rparr>"
  by (simp add: set_frame_size_def)

lemma picture_info_at:
  assumes "ue_ok (sp_refs s)" "ue_ok (sp_width s)" "ue_ok (sp_height s)" "holds_bits buf k (picture_bits s)" "length (m_SPS S) = 32" "n \<le> 31"
  shows "picture_info buf (word_of_nat n) (reader_at k) S =
     Some (S\<lparr>m_SPS := (m_SPS S)[n := (m_SPS S ! n)\<lparr>frameMBSOnlyFlag := of_bool (sp_frame_mbs_only s)\<rparr>],
             m_isInterlaced := \<not> sp_frame_mbs_only s, m_isInterlacedKnown := True,
             m_frameWidth := word_of_nat (16 * (sp_width s + 1)),
             m_frameHeight := word_of_nat (16 * (sp_height s + 1) * (if sp_frame_mbs_only s then 1 else 2))\<rparr>)"
proof -
  define k1 where "k1 = k + length (ue (sp_refs s))"
  define k2 where "k2 = Suc k1 + length (ue (sp_width s))"
  define k3 where "k3 = k2 + length (ue (sp_height s))"
  have h: "holds_bits buf k (ue (sp_refs s))" "holds_bits buf k1 [sp_gaps s]" "holds_bits buf (Suc k1) (ue (sp_width s))"
      "holds_bits buf k2 (ue (sp_height s))" "holds_bits buf k3 [sp_frame_mbs_only s]" "\<not> sp_frame_mbs_only s \<Longrightarrow> holds_bits buf (Suc k3) [sp_mb_adaptive s]"
    using assms(4) unfolding picture_bits_def k3_def k2_def k1_def by (auto split: if_splits)
  note g = getUExpGolomb_at[OF h(1) assms(1), folded k1_def] getBits_1[OF h(2)] getUExpGolomb_at[OF h(3) assms(2), folded k2_def]
    getUExpGolomb_at[OF h(4) assms(3), folded k3_def] getBits_1[OF h(5)] getBits_1[OF h(6)]
  from g(1-5) show ?thesis using g(6) upd_sps_at[OF assms(5,6)]
    by (cases "sp_frame_mbs_only s") (simp_all add: picture_info_def set_frame_size_eq algebra_simps)
qed

section \<open>Properties\<close>

text \<open>What the code records of a parameter set; e is the entry of the table it starts from.\<close>

definition recorded :: "bool \<Rightarrow> sps \<Rightarrow> H264SPS \<Rightarrow> H264SPS" where
  "recorded high s e =
     (let e = e\<lparr>separateColorPlaneFlag := of_bool (high \<and> sp_chroma s = 3 \<and> sp_separate s), log2MaxFrameNumMinus4 := word_of_nat (sp_frame_num s)\<rparr>;
          e = (case sp_order s of
                 Lsb m \<Rightarrow> e\<lparr>picOrderCountType := 0, log2MaxPicOrderCntLsbMinus4 := word_of_nat m, maxPicOrderCount := 2 ^ (m + 5)\<rparr>
               | Cycle z a b os \<Rightarrow> e\<lparr>picOrderCountType := 1\<rparr>
               | Output_order \<Rightarrow> e\<lparr>picOrderCountType := 2\<rparr>)
      in e\<lparr>frameMBSOnlyFlag := of_bool (sp_frame_mbs_only s)\<rparr>)"

lemma reader_at_24: "reader_at 24 = (3, 0x80)"
  by (simp add: reader_at_def push_bit_eq_mult)

text \<open>A sequence parameter set, written as H.264 prescribes behind the three bytes of profile and level, is read to its end: the frame size
  is 16 times the macroblocks of a row and a column, the height doubled for interlaced streams, and the table has the new entry and is otherwise
  unchanged. Scaling lists, colour planes and picture order cycles are skipped at their right lengths. The recorded maximum of the picture
  order count is twice the standard's, 2 to the m + 5 for a coded m.\<close>

lemma processSeqParameterSet_at:
  assumes "rd buf 0 = Some profile" "holds_bits buf 24 (sps_bits (high_profile profile) s)" "sps_ok (high_profile profile) s" "length (m_SPS S) = 32"
  shows "processSeqParameterSet buf S =
     Some (S\<lparr>m_SPS := (m_SPS S)[sp_id s := recorded (high_profile profile) s (m_SPS S ! sp_id s)],
             m_isInterlaced := \<not> sp_frame_mbs_only s, m_isInterlacedKnown := True,
             m_frameWidth := word_of_nat (16 * (sp_width s + 1)),
             m_frameHeight := word_of_nat (16 * (sp_height s + 1) * (if sp_frame_mbs_only s then 1 else 2))\<rparr>)"
proof -
  let ?H = "high_profile profile" and ?n = "sp_id s"
  define k1 where "k1 = 24 + length (ue ?n)"
  define k2 where "k2 = k1 + length (if ?H then chroma_bits s else [])"
  define k3 where "k3 = k2 + length (ue (sp_frame_num s))"
  define k4 where "k4 = k3 + length (order_bits (sp_order s))"
  have ok: "ue_ok ?n" "ue_ok (sp_frame_num s)" "order_ok (sp_order s)" "ue_ok (sp_refs s)" "ue_ok (sp_width s)" "ue_ok (sp_height s)" "?n \<le> 31"
      "?H \<Longrightarrow> chroma_ok s"
    using assms(3) by (auto simp: sps_ok_def)
  have h: "holds_bits buf 24 (ue ?n)" "?H \<Longrightarrow> holds_bits buf k1 (chroma_bits s)" "holds_bits buf k2 (ue (sp_frame_num s))"
      "holds_bits buf k3 (order_bits (sp_order s))" "holds_bits buf k4 (picture_bits s)"
    using assms(2) unfolding sps_bits_def k4_def k3_def k2_def k1_def by (auto simp: add.assoc)
  note g = getUExpGolomb_at[OF h(1) ok(1), folded k1_def, unfolded reader_at_24] getUExpGolomb_at[OF h(3) ok(2), folded k3_def]
  define put where "put e = S\<lparr>m_SPS := (m_SPS S)[?n := e]\<rparr>" for e
  have put: "length (m_SPS (put e)) = 32" "m_SPS (put e) ! ?n = e" "(put e)\<lparr>m_SPS := (m_SPS (put e))[?n := e']\<rparr> = put e'" for e e'
    using assms(4) ok(7) by (simp_all add: put_def)
  note upd = upd_sps_at[OF put(1) ok(7), unfolded put(2,3)]
  define e0 where "e0 = (m_SPS S ! ?n)\<lparr>separateColorPlaneFlag := of_bool (?H \<and> sp_chroma s = 3 \<and> sp_separate s)\<rparr>"
  have u0: "upd_sps (word_of_nat ?n) (\<lambda>e. e\<lparr>separateColorPlaneFlag := 0\<rparr>) S = Some (put ((m_SPS S ! ?n)\<lparr>separateColorPlaneFlag := 0\<rparr>))"
    using upd_sps_at[OF assms(4) ok(7)] by (simp add: put_def)
  have c: "(if ?H then chroma_info buf (word_of_nat ?n) (reader_at k1) (put ((m_SPS S ! ?n)\<lparr>separateColorPlaneFlag := 0\<rparr>))
      else Some (reader_at k1, put ((m_SPS S ! ?n)\<lparr>separateColorPlaneFlag := 0\<rparr>))) = Some (reader_at k2, put e0)"
    using chroma_info_at[OF ok(8) h(2) put(1) ok(7), unfolded put(2,3)] by (auto simp: k2_def e0_def)
  note pic = picture_info_at[OF ok(4-6) h(5) put(1) ok(7), unfolded put(2)]
  have "processSeqParameterSet buf S = picture_info buf (word_of_nat ?n) (reader_at k4) (put (case sp_order s of
       Lsb m \<Rightarrow> e0\<lparr>log2MaxFrameNumMinus4 := word_of_nat (sp_frame_num s), picOrderCountType := 0, log2MaxPicOrderCntLsbMinus4 := word_of_nat m, maxPicOrderCount := 2 ^ (m + 5)\<rparr>
     | Cycle z a b os \<Rightarrow> e0\<lparr>log2MaxFrameNumMinus4 := word_of_nat (sp_frame_num s), picOrderCountType := 1\<rparr>
     | Output_order \<Rightarrow> e0\<lparr>log2MaxFrameNumMinus4 := word_of_nat (sp_frame_num s), picOrderCountType := 2\<rparr>))"
    unfolding processSeqParameterSet_def assms(1) g bind.bind_lunit prod.case u0 c upd
      order_info_at[OF ok(3) h(4) put(1) ok(7), folded k4_def, unfolded put(2,3)] ..
  then show ?thesis unfolding pic
    by (cases "sp_order s") (simp_all only: order_count.case recorded_def Let_def e0_def put_def, simp_all)
qed

text \<open>A baseline parameter set with index 0 of an interlaced stream, one macroblock wide and two high.\<close>

definition sample_sps :: sps where
  "sample_sps = \<lparr>sp_id = 0, sp_chroma = 0, sp_separate = False, sp_depth_luma = 0, sp_depth_chroma = 0, sp_bypass = False, sp_matrix = None,
     sp_frame_num = 0, sp_order = Lsb 0, sp_refs = 0, sp_gaps = False, sp_width = 0, sp_height = 0, sp_frame_mbs_only = False, sp_mb_adaptive = True\<rparr>"

text \<open>The index of a parameter set is not compared with the size of the table: a set that codes an index of 32 or more makes the code
  write behind \<open>m_SPS\<close>.\<close>

lemma sps_index_unchecked:
  assumes "rd buf 0 = Some profile" "holds_bits buf 24 (ue n)" "32 \<le> n" "n + 1 < 2 ^ 31" "length (m_SPS S) = 32"
  shows "processSeqParameterSet buf S = None"
proof -
  have "rd (m_SPS S) (unat (word_of_nat n :: 32 word)) = None" using assms(3-5) by (simp add: rd_def unat_of_nat)
  then show ?thesis using getUExpGolomb_at[OF assms(2,4)] assms(1) by (simp add: processSeqParameterSet_def upd_sps_def reader_at_24)
qed

lemma sps_index_unchecked_witness: "processSeqParameterSet [66, 0, 30, 0x04, 0x20] (RBIStreamProcessor_new True) = None"
proof -
  have "holds_bits [66, 0, 30, 0x04, 0x20] 24 (ue 32)" by code_simp
  then show ?thesis by (intro sps_index_unchecked[where n = 32]) (simp_all add: RBIStreamProcessor_new_def rd_def)
qed

end
