(* ===== verification/RbiScan.thy ===== *)
theory RbiScan
  imports RbiSps
begin

text \<open>
  \<open>processStartCode\<close> of \<open>rbi/rbi.cpp\<close>: frame types, frame sizes and the marking of a group of pictures in MPEG-2 and H.264 streams, and
  the unescaping of H.264 parameter sets in front of \<open>processSeqParameterSet\<close>.

  \<^item> \<open>buffer\<close> points into an array; a buffer is the array and the offset \<open>st\<close> of the pointer. \<open>INDEX\<close> skips the header of the next packet.
  \<^item> \<open>m_emulationPrevention\<close> is the allocated block, so that its length is \<open>m_emulationPreventionCapacity\<close> (0 without a block).
  \<^item> \<open>malloc n\<close> is a new block of n bytes with whatever contents, or None; it is a parameter.
\<close>

section \<open>Variable length codes\<close>

definition expGolombTable7 :: "int list" where
  "expGolombTable7 = replicate 8 (-1) @ [7, 8, 9, 10, 11, 12, 13, 14] @ replicate 4 3 @ replicate 4 4 @ replicate 4 5 @ replicate 4 6 @
     replicate 16 1 @ replicate 16 2 @ replicate 64 0"

abbreviation (input) I_FRAME :: nat where "I_FRAME \<equiv> 1"
abbreviation (input) P_FRAME :: nat where "P_FRAME \<equiv> 2"
abbreviation (input) B_FRAME :: nat where "B_FRAME \<equiv> 4"

definition INDEX :: "RBIStreamProcessor \<Rightarrow> nat \<Rightarrow> nat \<Rightarrow> nat" where
  "INDEX S base i = (if int (base + i) < int (m_packetSize S) - int (m_ttsSize S) - 4 then i else i + m_ttsSize S + 4)"

section \<open>H.264\<close>

definition slice_start :: "byte \<Rightarrow> RBIStreamProcessor \<Rightarrow> bool \<Rightarrow> bool \<times> RBIStreamProcessor" where
  "slice_start b S keepScanning =
     (if b AND 0x80 \<noteq> 0 then
        let slice_type = expGolombTable7 ! unat (b AND 0x7F);
            S = (if slice_type \<in> {0, 3, 5, 8} then S\<lparr>m_frameType := P_FRAME\<rparr>
                 else if slice_type \<in> {1, 6} then S\<lparr>m_frameType := B_FRAME\<rparr>
                 else if slice_type \<in> {2, 4, 7, 9} then S\<lparr>m_frameType := I_FRAME\<rparr> else S)
        in (if m_frameType S \<noteq> 0 then False else keepScanning, S)
      else (keepScanning, S))"

definition grow_block :: "(nat \<Rightarrow> byte list option) \<Rightarrow> nat \<Rightarrow> RBIStreamProcessor \<Rightarrow> RBIStreamProcessor option" where
  "grow_block malloc len S =
     (let capacity = (case m_emulationPrevention S of None \<Rightarrow> 0 | Some ep \<Rightarrow> length ep); offset = m_emulationPreventionOffset S in
      if m_emulationPrevention S = None \<or> capacity < offset + len then
        do { newBuff \<leftarrow> malloc (capacity * 2 + len);
             Some (S\<lparr>m_emulationPrevention := Some (case m_emulationPrevention S of None \<Rightarrow> newBuff | Some ep \<Rightarrow> take offset ep @ drop offset newBuff)\<rparr>) }
      else Some S)"

text \<open>The loop over the bytes of the parameter set: B reads \<open>buffer[INDEX(i)]\<close>. It gives whether the next start code was found, the block and
  the offset.\<close>

function unescape_loop :: "(nat \<Rightarrow> byte option) \<Rightarrow> nat \<Rightarrow> nat \<Rightarrow> byte list \<Rightarrow> nat \<Rightarrow> (bool \<times> byte list \<times> nat) option" where
  "unescape_loop B len i ep off =
     (if i + 3 < len then
        do { a \<leftarrow> B i;
             zeros \<leftarrow> (if a = 0 then do { b \<leftarrow> B (i + 1); Some (b = 0) } else Some False);
             c \<leftarrow> (if zeros then B (i + 2) else Some 0);
             if zeros \<and> c = 1 then Some (True, ep, off)
             else if zeros \<and> c = 3 then
               do { ep \<leftarrow> wr ep off 0; ep \<leftarrow> wr ep (off + 1) 0; x \<leftarrow> B (i + 3); ep \<leftarrow> wr ep (off + 2) x;
                    unescape_loop B len (i + 4) ep (off + 3) }
             else do { ep \<leftarrow> wr ep off a; unescape_loop B len (i + 1) ep (off + 1) } }
      else Some (False, ep, off))"
  by pat_completeness auto
termination
  by (relation "measure (\<lambda>(_, len, i, _, _). len - i)") auto

declare unescape_loop.simps [simp del]

definition parameter_set :: "(nat \<Rightarrow> byte list option) \<Rightarrow> byte list \<Rightarrow> nat \<Rightarrow> nat \<Rightarrow> nat \<Rightarrow> RBIStreamProcessor \<Rightarrow> RBIStreamProcessor option" where
  "parameter_set malloc buf st len base S =
     (let S = S\<lparr>m_startOfSequence := True\<rparr> in
      case grow_block malloc len S of
        None \<Rightarrow> Some S
      | Some S \<Rightarrow>
          do { ep \<leftarrow> m_emulationPrevention S;
               (scanForAspect, ep, off) \<leftarrow> unescape_loop (\<lambda>i. rd buf (st + INDEX S base i)) len 4 ep (m_emulationPreventionOffset S);
               let S = S\<lparr>m_emulationPrevention := Some ep, m_emulationPreventionOffset := off\<rparr>;
               if scanForAspect then do { S \<leftarrow> processSeqParameterSet ep S; Some (S\<lparr>m_emulationPreventionOffset := 0\<rparr>) } else Some S })"

section \<open>MPEG-2\<close>

definition picture_header :: "byte \<Rightarrow> RBIStreamProcessor \<Rightarrow> RBIStreamProcessor" where
  "picture_header b S =
     (let frameTypeBits = drop_bit 3 b AND 0x7;
          S = (if frameTypeBits = 1 then S\<lparr>m_frameType := I_FRAME, m_GOPSize := m_frameInGOPCount S, m_frameInGOPCount := 0\<rparr>
               else if frameTypeBits = 2 then S\<lparr>m_frameType := P_FRAME\<rparr>
               else if frameTypeBits = 3 then S\<lparr>m_frameType := B_FRAME\<rparr> else S\<lparr>m_frameType := 0\<rparr>)
      in S\<lparr>m_frameInGOPCount := m_frameInGOPCount S + 1\<rparr>)"

definition sequence_header :: "byte \<Rightarrow> byte \<Rightarrow> byte \<Rightarrow> RBIStreamProcessor \<Rightarrow> RBIStreamProcessor" where
  "sequence_header b4 b5 b6 S =
     set_frame_size (push_bit 4 (ucast b4) OR drop_bit 4 (ucast b5)) (push_bit 8 (ucast b5 AND 0x0F) OR ucast b6) (S\<lparr>m_startOfSequence := True\<rparr>)"

definition gop_header :: "byte list \<Rightarrow> nat \<Rightarrow> RBIStreamProcessor \<Rightarrow> (byte list \<times> RBIStreamProcessor) option" where
  "gop_header buf p S =
     (if m_mapEditGOP S then
        do { b \<leftarrow> rd buf p;
             buf \<leftarrow> (if \<not> (b AND 0x20 \<noteq> 0 \<and> b AND 0x40 = 0) then wr buf p ((b AND NOT 0x60) OR 0x20) else Some buf);
             Some (buf, S\<lparr>m_mapEditGOP := False\<rparr>) }
      else Some (buf, S))"

definition processStartCode ::
  "(nat \<Rightarrow> byte list option) \<Rightarrow> byte list \<Rightarrow> nat \<Rightarrow> bool \<Rightarrow> nat \<Rightarrow> nat \<Rightarrow> RBIStreamProcessor \<Rightarrow> (bool \<times> byte list \<times> RBIStreamProcessor) option" where
  "processStartCode malloc buf st keepScanning len base S =
     (let P = (\<lambda>i. st + INDEX S base i) in
      do { b3 \<leftarrow> rd buf (P 3);
           if m_isH264 S then
             let unitType = b3 AND 0x1F in
             if unitType = 1 \<or> unitType = 5 then
               do { b4 \<leftarrow> rd buf (P 4); let (keepScanning, S) = slice_start b4 S keepScanning; Some (keepScanning, buf, S) }
             else if unitType = 7 then do { S \<leftarrow> parameter_set malloc buf st len base S; Some (keepScanning, buf, S) }
             else Some (keepScanning, buf, S)
           else if b3 = 0x00 then do { b5 \<leftarrow> rd buf (P 5); Some (False, buf, picture_header b5 S) }
           else if b3 = 0xB3 then
             do { b4 \<leftarrow> rd buf (P 4); b5 \<leftarrow> rd buf (P 5); b6 \<leftarrow> rd buf (P 6); Some (keepScanning, buf, sequence_header b4 b5 b6 S) }
           else if b3 = 0xB8 then do { (buf, S) \<leftarrow> gop_header buf (P 7) S; Some (keepScanning, buf, S) }
           else Some (keepScanning, buf, S) })"

section \<open>Slices\<close>

text \<open>C35. The table of slice types is the Exp-Golomb code: wherever it has an entry for the seven bits behind \<open>first_mb_in_slice\<close>, the bit reader
  gives the same number for them, and it has none only for the codes of more than seven bits.\<close>

theorem expGolombTable7_reads:
  "length expGolombTable7 = 128 \<and>
   list_all (\<lambda>i. if expGolombTable7 ! i = -1 then i < 8
                 else map_option (uint \<circ> fst) (getUExpGolomb [word_of_nat (128 + i)] (0, 0x40)) = Some (expGolombTable7 ! i)) [0..<128]"
  by code_simp

section \<open>Unescaping\<close>

text \<open>Emulation prevention (H.264, 7.4.1): a byte 3 behind two zeros is not part of the payload; z counts the zeros in front.\<close>

fun unescaped :: "nat \<Rightarrow> byte list \<Rightarrow> byte list" where
  "unescaped z [] = []"
| "unescaped z (a # ys) = (if 2 \<le> z \<and> a = 3 then unescaped 0 ys else a # unescaped (if a = 0 then Suc z else 0) ys)"

text \<open>No start code inside the unit, and no escape that is followed by a zero.\<close>

definition starts :: "byte list \<Rightarrow> byte list \<Rightarrow> bool" where
  "starts p ys \<longleftrightarrow> take (length p) ys = p"

fun clean :: "byte list \<Rightarrow> bool" where
  "clean [] = True"
| "clean (a # ys) = (\<not> starts [0, 0, 1] (a # ys @ [0, 0, 1]) \<and> \<not> starts [0, 0, 3, 0] (a # ys @ [0, 0, 1]) \<and> clean ys)"

lemma length_unescaped: "length (unescaped z ys) \<le> length ys"
  by (induction ys arbitrary: z) (auto intro: le_SucI)

text \<open>The loop does not remember zeros: it relies on having looked ahead.\<close>

definition looked_ahead :: "nat \<Rightarrow> byte list \<Rightarrow> bool" where
  "looked_ahead z ys \<longleftrightarrow> (2 \<le> z \<longrightarrow> \<not> starts [3] (ys @ [0, 0, 1])) \<and> (1 \<le> z \<longrightarrow> \<not> starts [0, 3] (ys @ [0, 0, 1]))"

definition reads :: "(nat \<Rightarrow> byte option) \<Rightarrow> nat \<Rightarrow> byte list \<Rightarrow> bool" where
  "reads B i zs \<longleftrightarrow> (\<forall>j < length zs. B (i + j) = Some (zs ! j))"

lemma reads_Cons: "reads B i (z # zs) \<longleftrightarrow> B i = Some z \<and> reads B (i + 1) zs"
  by (auto simp: reads_def All_less_Suc2)

lemma take_put: "p < length ep \<Longrightarrow> take (Suc p) (ep[p := x]) = take p ep @ [x]"
  by (simp add: take_Suc_conv_app_nth)

lemma unescape_escape:
  assumes "reads B i (0 # 0 # 3 # x # zs)" "i + 3 < len" "off + 3 \<le> length ep"
  shows "\<exists>ep1. unescape_loop B len i ep off = unescape_loop B len (i + 4) ep1 (off + 3) \<and> length ep1 = length ep \<and>
     take (off + 3) ep1 = take off ep @ [0, 0, x]"
proof (intro exI[of _ "ep[off := 0, off + 1 := 0, off + 2 := x]"] conjI)
  have "B i = Some 0" "B (i + 1) = Some 0" "B (i + 2) = Some 3" "B (i + 3) = Some x"
    using assms(1) by (simp_all add: reads_Cons numeral_eq_Suc)
  then show "unescape_loop B len i ep off = unescape_loop B len (i + 4) (ep[off := 0, off + 1 := 0, off + 2 := x]) (off + 3)"
    using assms(2,3) by (subst unescape_loop.simps) (simp add: wr_def)
  show "take (off + 3) (ep[off := 0, off + 1 := 0, off + 2 := x]) = take off ep @ [0, 0, x]"
    using assms(3) by (simp add: take_put eval_nat_numeral)
qed simp

lemma unescape_plain:
  assumes "reads B i (a # zs)" "2 \<le> length zs" "\<not> starts [0, 0, 1] (a # zs)" "\<not> starts [0, 0, 3] (a # zs)" "i + 3 < len" "off < length ep"
  shows "unescape_loop B len i ep off = unescape_loop B len (i + 1) (ep[off := a]) (off + 1)"
proof -
  obtain b c r where zs: "zs = b # c # r" using assms(2) by (cases zs; cases "tl zs") auto
  then have "B i = Some a" "B (i + 1) = Some b" "B (i + 2) = Some c" using assms(1) by (simp_all add: reads_Cons numeral_eq_Suc)
  with zs assms(3-6) show ?thesis by (subst unescape_loop.simps) (auto simp: starts_def wr_def)
qed

lemma unescape_loop_at:
  assumes "reads B i (ys @ [0, 0, 1])" "i + length ys + 3 < len" "off + length ys \<le> length ep" "clean ys" "looked_ahead z ys"
  shows "\<exists>ep'. unescape_loop B len i ep off = Some (True, ep', off + length (unescaped z ys)) \<and> length ep' = length ep \<and>
     take (off + length (unescaped z ys)) ep' = take off ep @ unescaped z ys"
  using assms
proof (induction ys arbitrary: i off ep z rule: length_induct)
  case (1 ys)
  note IH = 1(1)[rule_format]
  show ?case
  proof (cases ys)
    case Nil
    then have "B i = Some 0" "B (i + 1) = Some 0" "B (i + 2) = Some 1" using 1(2) by (simp_all add: reads_Cons numeral_eq_Suc)
    with Nil 1(3) show ?thesis by (subst unescape_loop.simps) simp
  next
    case (Cons a xs)
    show ?thesis
    proof (cases "starts [0, 0, 3] (a # xs @ [0, 0, 1])")
      case True
      then obtain x r where ys: "ys = 0 # 0 # 3 # x # r" "x \<noteq> 0"
        using Cons 1(5) by (cases xs rule: list.exhaust; cases "tl xs"; cases "tl (tl xs)") (auto simp: starts_def)
      obtain ep1 where e: "unescape_loop B len i ep off = unescape_loop B len (i + 4) ep1 (off + 3)" "length ep1 = length ep"
          "take (off + 3) ep1 = take off ep @ [0, 0, x]"
        using unescape_escape[of B i x "r @ [0, 0, 1]" len off ep] 1(2-4) ys by auto
      have "reads B (i + 4) (r @ [0, 0, 1])" using 1(2) ys(1) by (simp add: reads_Cons eval_nat_numeral)
      then have "\<exists>ep'. unescape_loop B len (i + 4) ep1 (off + 3) = Some (True, ep', off + 3 + length (unescaped 0 r)) \<and> length ep' = length ep1 \<and>
          take (off + 3 + length (unescaped 0 r)) ep' = take (off + 3) ep1 @ unescaped 0 r"
        using 1(2-5) ys e(2) by (intro IH) (auto simp: reads_Cons looked_ahead_def)
      moreover have u: "unescaped z ys = [0, 0, x] @ unescaped 0 r" using ys by simp
      moreover have "off + length ([0, 0, x] @ unescaped 0 r) = off + 3 + length (unescaped 0 r)" by simp
      ultimately show ?thesis unfolding u e(1) e(2)[symmetric] append_assoc[symmetric] e(3)[symmetric] by metis
    next
      case False
      have u: "unescaped z ys = a # unescaped (if a = 0 then Suc z else 0) xs" using Cons 1(6) by (auto simp: looked_ahead_def starts_def)
      have s: "unescape_loop B len i ep off = unescape_loop B len (i + 1) (ep[off := a]) (off + 1)"
        using 1(2-5) Cons False by (intro unescape_plain[of _ _ _ "xs @ [0, 0, 1]"]) auto
      have l: "looked_ahead (if a = 0 then Suc z else 0) xs" using 1(6) Cons False by (auto simp: looked_ahead_def starts_def)
      obtain ep' where "unescape_loop B len (i + 1) (ep[off := a]) (off + 1) = Some (True, ep', off + 1 + length (unescaped (if a = 0 then Suc z else 0) xs))"
          "length ep' = length (ep[off := a])"
          "take (off + 1 + length (unescaped (if a = 0 then Suc z else 0) xs)) ep' = take (off + 1) (ep[off := a]) @ unescaped (if a = 0 then Suc z else 0) xs"
        using IH[OF _ _ _ _ _ l, of "i + 1" "off + 1" "ep[off := a]"] 1(2-5) Cons by (auto simp: reads_Cons)
      with s u 1(4) Cons show ?thesis by (auto simp: take_put)
    qed
  qed
qed

text \<open>The escape right behind an escape is not seen: the loop takes the byte behind the first one over without looking at it.\<close>

lemma second_escape_kept:
  "unescaped 0 [0, 0, 3, 0, 0, 3, 1] = [0, 0, 0, 0, 1]"
  "map_option (\<lambda>(f, ep, n). (f, take n ep)) (unescape_loop (rd [0, 0, 1, 0x67, 0, 0, 3, 0, 0, 3, 1, 0, 0, 1, 0]) 15 4 (replicate 15 0) 0) =
     Some (True, [0, 0, 0, 0, 3, 1])"
  by code_simp+

lemma holds_bits_prefix: "holds_bits xs k bs \<Longrightarrow> holds_bits (xs @ ys) k bs"
proof (induction bs arbitrary: k)
  case (Cons b bs)
  then have "k div 8 < length xs" by auto
  with Cons show ?case by (simp add: bit_at_def nth_append)
qed simp

lemma grow_block_ok:
  assumes "\<And>n. \<exists>bs. malloc n = Some bs \<and> length bs = n" "m_emulationPreventionOffset S = 0"
  shows "\<exists>ep. grow_block malloc len S = Some (S\<lparr>m_emulationPrevention := Some ep\<rparr>) \<and> len \<le> length ep"
proof (cases "m_emulationPrevention S")
  case None
  with assms(1)[of len] show ?thesis by (auto simp: grow_block_def)
next
  case (Some ep)
  show ?thesis
  proof (cases "length ep < len")
    case True
    with Some assms(1)[of "length ep * 2 + len"] assms(2) show ?thesis by (auto simp: grow_block_def)
  next
    case False
    with Some assms(2) show ?thesis by (intro exI[of _ ep]) (simp add: grow_block_def)
  qed
qed

lemma holds_at_reads: "holds_at buf p zs \<Longrightarrow> reads (\<lambda>i. rd buf (p + i)) 0 zs"
  by (auto simp: reads_def holds_at_rd)

lemma reads_shift: "reads B 0 (xs @ zs) \<Longrightarrow> reads B (length xs) zs"
  by (auto simp: reads_def nth_append)

text \<open>C11. From the bytes of a stream to the frame size: an H.264 parameter set unit between two start codes, escaped as the standard prescribes with
  no escape in front of a zero byte, is unescaped into the block, which is big enough, and read; the state has the frame size, the scan type and the
  entry of the parameter set, and the next unit starts with an empty block. \<open>malloc\<close> is assumed to give blocks of the size asked for.\<close>

theorem processStartCode_parameter_set:
  assumes "\<And>n. \<exists>bs. malloc n = Some bs \<and> length bs = n"
    and "m_isH264 S" "length (m_SPS S) = 32" "m_emulationPreventionOffset S = 0"
    and "holds_at buf st ([0, 0, 1, nal] @ ys @ [0, 0, 1])" "nal AND 0x1F = 7" "length ys + 7 < len"
    and "base + length ys + 11 + m_ttsSize S \<le> m_packetSize S"
    and "clean ys" "unescaped 0 ys = profile # rbsp"
    and "holds_bits (profile # rbsp) 24 (sps_bits (high_profile profile) s)" "sps_ok (high_profile profile) s"
  shows "\<exists>S'. processStartCode malloc buf st keepScanning len base S = Some (keepScanning, buf, S') \<and>
     m_frameWidth S' = word_of_nat (16 * (sp_width s + 1)) \<and>
     m_frameHeight S' = word_of_nat (16 * (sp_height s + 1) * (if sp_frame_mbs_only s then 1 else 2)) \<and>
     m_isInterlaced S' = (\<not> sp_frame_mbs_only s) \<and> m_startOfSequence S' \<and> m_emulationPreventionOffset S' = 0 \<and>
     m_SPS S' = (m_SPS S)[sp_id s := recorded (high_profile profile) s (m_SPS S ! sp_id s)]"
proof -
  let ?S = "S\<lparr>m_startOfSequence := True\<rparr>"
  obtain ep where ep: "grow_block malloc len ?S = Some (?S\<lparr>m_emulationPrevention := Some ep\<rparr>)" "len \<le> length ep"
    using grow_block_ok[of malloc ?S len] assms(1,4) by auto
  let ?T = "?S\<lparr>m_emulationPrevention := Some ep\<rparr>"
  have idx: "INDEX T base i = i" if "i \<le> length ys + 6" "m_packetSize T = m_packetSize S" "m_ttsSize T = m_ttsSize S" for i T
    using assms(8) that by (simp add: INDEX_def)
  have "reads (\<lambda>i. rd buf (st + i)) 4 (ys @ [0, 0, 1])"
    using reads_shift[OF holds_at_reads[OF assms(5)]] by (simp add: eval_nat_numeral)
  then have r: "reads (\<lambda>i. rd buf (st + INDEX ?T base i)) 4 (ys @ [0, 0, 1])" using idx by (simp add: reads_def)
  let ?n = "length (profile # rbsp)"
  have l: "4 + length ys + 3 < len" "0 + length ys \<le> length ep" using assms(7) ep(2) by simp_all
  obtain ep' where u: "unescape_loop (\<lambda>i. rd buf (st + INDEX ?T base i)) len 4 ep 0 = Some (True, ep', ?n)" "take ?n ep' = profile # rbsp"
    using unescape_loop_at[OF r l assms(9), of 0] assms(10) by (auto simp: looked_ahead_def)
  let ?U = "?T\<lparr>m_emulationPrevention := Some ep', m_emulationPreventionOffset := ?n\<rparr>"
  have e: "ep' = (profile # rbsp) @ drop ?n ep'" using u(2) append_take_drop_id[of ?n ep'] by simp
  have "rd ep' 0 = Some profile" by (subst e) (simp add: rd_def)
  moreover have "holds_bits ep' 24 (sps_bits (high_profile profile) s)" by (subst e) (rule holds_bits_prefix[OF assms(11)])
  ultimately have p: "processSeqParameterSet ep' ?U = Some (?U\<lparr>m_SPS := (m_SPS S)[sp_id s := recorded (high_profile profile) s (m_SPS S ! sp_id s)],
      m_isInterlaced := \<not> sp_frame_mbs_only s, m_isInterlacedKnown := True, m_frameWidth := word_of_nat (16 * (sp_width s + 1)),
      m_frameHeight := word_of_nat (16 * (sp_height s + 1) * (if sp_frame_mbs_only s then 1 else 2))\<rparr>)"
    using processSeqParameterSet_at[of ep' profile s ?U] assms(3,12) by simp
  have b: "rd buf (st + INDEX S base 3) = Some nal" using idx[of 3 S] assms(5) by (simp add: numeral_3_eq_3)
  have "parameter_set malloc buf st len base S = map_option (\<lambda>S. S\<lparr>m_emulationPreventionOffset := 0\<rparr>) (processSeqParameterSet ep' ?U)"
    using ep(1) u(1) assms(4) p by (simp add: parameter_set_def)
  then show ?thesis using b p assms(2,6) by (simp add: processStartCode_def Let_def)
qed

theorem processStartCode_parameter_set_witness:
  "\<exists>S'. processStartCode (\<lambda>n. Some (replicate n 0)) [0, 0, 1, 0x67, 66, 0, 0, 3, 0xFB, 0x40, 0, 0, 1, 0] 0 True 14 4
       ((RBIStreamProcessor_new True)\<lparr>m_isH264 := True\<rparr>) =
       Some (True, [0, 0, 1, 0x67, 66, 0, 0, 3, 0xFB, 0x40, 0, 0, 1, 0], S') \<and> m_frameWidth S' = 16 \<and> m_frameHeight S' = 32"
proof -
  let ?S = "(RBIStreamProcessor_new True)\<lparr>m_isH264 := True\<rparr>"
  have "holds_bits (66 # [0, 0, 0xFB, 0x40]) 24 (sps_bits (high_profile 66) sample_sps)" by code_simp
  moreover have "sps_ok (high_profile 66) sample_sps" by (simp add: sps_ok_def sample_sps_def high_profile_def)
  moreover have "unescaped 0 [66, 0, 0, 3, 0xFB, 0x40] = 66 # [0, 0, 0xFB, 0x40]" "clean [66, 0, 0, 3, 0xFB, 0x40]" by code_simp+
  moreover have "m_isH264 ?S" "length (m_SPS ?S) = 32" "m_emulationPreventionOffset ?S = 0" "4 + length [66, 0, 0, 3, 0xFB, 0x40 :: byte] + 11 + m_ttsSize ?S \<le> m_packetSize ?S"
    by (simp_all add: RBIStreamProcessor_new_def)
  moreover have "holds_at [0, 0, 1, 0x67, 66, 0, 0, 3, 0xFB, 0x40, 0, 0, 1, 0] 0 ([0, 0, 1, 0x67] @ [66, 0, 0, 3, 0xFB, 0x40] @ [0, 0, 1 :: byte])"
    by code_simp
  ultimately show ?thesis
    using processStartCode_parameter_set[where malloc = "\<lambda>n. Some (replicate n 0)" and S = ?S and st = 0 and base = 4 and len = 14 and keepScanning = True
        and nal = "0x67" and ys = "[66, 0, 0, 3, 0xFB, 0x40]" and profile = 66 and rbsp = "[0, 0, 0xFB, 0x40]" and s = sample_sps
        and buf = "[0, 0, 1, 0x67, 66, 0, 0, 3, 0xFB, 0x40, 0, 0, 1, 0]"]
    by (fastforce simp: sample_sps_def)
qed

end
