(* ===== verification/RbiPmt.thy ===== *)
theory RbiPmt
  imports RbiState
begin

text \<open>
  The program map table of the remote bulk insertion: \<open>processPMTSection\<close>, \<open>setComponentInfo\<close> and \<open>termComponentInfo\<close> of \<open>rbi/rbi.cpp\<close>.

  \<^item> \<open>sec\<close> is the memory from the pointer field in front of the section on. The local arrays have \<open>MAX_PIDS\<close> elements and \<open>work\<close> has 32
    bytes; a store behind them is None, as is a read outside \<open>sec\<close>.
  \<^item> \<open>calloc n\<close> says whether the allocation of n components succeeds; it is a parameter. \<open>USE_SCTE35\<close> is defined, \<open>USE_DVBSAD\<close> is not.
\<close>

section \<open>Components\<close>

definition termComponentInfo :: "RBIStreamProcessor \<Rightarrow> RBIStreamProcessor" where
  "termComponentInfo S =
     (let S = S\<lparr>m_triggerPids := (\<lambda>_. False)\<rparr>;
          S = (if m_videoComponents S \<noteq> None then S\<lparr>m_videoComponents := None, m_videoComponentCount := 0\<rparr> else S);
          S = (if m_audioComponents S \<noteq> None then S\<lparr>m_audioComponents := None, m_audioComponentCount := 0\<rparr> else S)
      in if m_dataComponents S \<noteq> None then S\<lparr>m_dataComponents := None, m_dataComponentCount := 0\<rparr> else S)"

text \<open>The arrays of PIDs and types, filled from the front.\<close>

record found =
  f_video :: "(nat \<times> byte) list"
  f_audio :: "(nat \<times> byte \<times> byte list option) list"
  f_data :: "(nat \<times> byte) list"
  f_private :: "(nat \<times> byte) list"

definition component :: "nat \<times> byte \<Rightarrow> RBIStreamComponent" where
  "component c = \<lparr>sc_streamType = snd c, sc_pid = fst c, sc_associatedLanguage = None\<rparr>"

definition audio_component :: "nat \<times> byte \<times> byte list option \<Rightarrow> RBIStreamComponent" where
  "audio_component c = \<lparr>sc_streamType = fst (snd c), sc_pid = fst c, sc_associatedLanguage = snd (snd c)\<rparr>"

definition components :: "('a \<Rightarrow> RBIStreamComponent) \<Rightarrow> 'a list \<Rightarrow> RBIStreamComponent list option" where
  "components f cs = (if cs = [] then None else Some (map f cs))"

definition mark_trigger :: "nat \<times> byte \<Rightarrow> RBIStreamProcessor \<Rightarrow> RBIStreamProcessor" where
  "mark_trigger d S = (if snd d = 0x86 then S\<lparr>m_triggerPids := (m_triggerPids S)(fst d := True)\<rparr> else S)"

definition mark_private :: "nat \<times> byte \<Rightarrow> RBIStreamProcessor \<Rightarrow> RBIStreamProcessor" where
  "mark_private d S = S\<lparr>m_privateDataPids := (m_privateDataPids S)(fst d := True), m_privateDataTypes := (m_privateDataTypes S)(fst d := snd d)\<rparr>"

definition setComponentInfo :: "(nat \<Rightarrow> bool) \<Rightarrow> nat \<Rightarrow> found \<Rightarrow> RBIStreamProcessor \<Rightarrow> RBIStreamProcessor" where
  "setComponentInfo calloc pcrPid F S =
     (let failed = (\<lambda>n. n > 0 \<and> \<not> calloc n) in
      if failed (length (f_video F)) \<or> failed (length (f_audio F)) \<or> failed (length (f_data F) + length (f_private F)) then termComponentInfo S
      else
        let S = termComponentInfo S;
            S = S\<lparr>m_pcrPid := int pcrPid, m_videoComponentCount := length (f_video F), m_videoComponents := components component (f_video F)\<rparr>;
            S = (if f_video F \<noteq> [] then S\<lparr>m_videoPid := int (fst (hd (f_video F)))\<rparr> else S);
            S = S\<lparr>m_audioComponentCount := length (f_audio F), m_audioComponents := components audio_component (f_audio F)\<rparr>;
            S = (if f_audio F \<noteq> [] then S\<lparr>m_audioPid := int (fst (hd (f_audio F)))\<rparr> else S);
            S = S\<lparr>m_dataComponentCount := length (f_data F), m_dataComponents := components component (f_data F @ f_private F),
                  m_triggerPids := (\<lambda>_. False), m_privateDataPids := (\<lambda>_. False)\<rparr>;
            S = fold mark_trigger (f_data F) S
        in fold mark_private
             (f_private F) S)"

section \<open>Descriptors\<close>

text \<open>The language of an audio stream; \<open>lang\<close> is \<open>audioLanguages[audioComponentCount]\<close>, p the address of \<open>programInfo\<close>. \<open>strdup\<close> copies
  up to the first zero.\<close>

function audio_language :: "byte list \<Rightarrow> nat \<Rightarrow> nat \<Rightarrow> nat \<Rightarrow> byte list option \<Rightarrow> byte list option option" where
  "audio_language sec p descIdx maxIdx lang =
     (if descIdx < maxIdx then
        do { descrTag \<leftarrow> rd sec (p + descIdx); descrLen \<leftarrow> rd sec (p + descIdx + 1);
             lang \<leftarrow> (if descrTag = 0x0A then
                       do { work \<leftarrow> rd_seq sec (p + descIdx + 2) (unat descrLen);
                            if unat descrLen < 32 then Some (Some (takeWhile (\<lambda>c. c \<noteq> 0) work)) else None }
                     else Some lang);
             audio_language sec p (descIdx + (2 + unat descrLen)) maxIdx lang }
      else Some lang)"
  by pat_completeness auto
termination
  by (relation "measure (\<lambda>(_, _, i, m, _). m - i)") auto

declare audio_language.simps [simp del]

text \<open>The search for a descriptor of a private stream. The data is compared with the bytes at \<open>programInfo[7]\<close>.\<close>

function private_descriptor :: "byte list \<Rightarrow> nat \<Rightarrow> nat \<Rightarrow> nat \<Rightarrow> RBIPrivateDataStreamSpec \<Rightarrow> bool option" where
  "private_descriptor sec p descIdx maxIdx spec =
     (if descIdx < maxIdx then
        do { descrTag \<leftarrow> rd sec (p + descIdx); descrLen \<leftarrow> rd sec (p + descIdx + 1);
             match \<leftarrow> (if descrTag = spec_descrTag spec then
                        if length (spec_descrData spec) > 0 then
                          if unat descrLen = length (spec_descrData spec)
                          then do { d \<leftarrow> rd_seq sec (p + 7) (unat descrLen); Some (d = spec_descrData spec) } else Some False
                        else Some True
                      else Some False);
             if match then Some True else private_descriptor sec p (descIdx + (2 + unat descrLen)) maxIdx spec }
      else Some False)"
  by pat_completeness auto
termination
  by (relation "measure (\<lambda>(_, _, i, m, _). m - i)") auto

declare private_descriptor.simps [simp del]

fun private_match :: "byte list \<Rightarrow> nat \<Rightarrow> byte \<Rightarrow> nat \<Rightarrow> RBIPrivateDataStreamSpec list \<Rightarrow> bool option" where
  "private_match sec p streamType len [] = Some False"
| "private_match sec p streamType len (spec # specs) =
     do { match \<leftarrow> (if streamType = spec_streamType spec then
                     if spec_matchTag spec then if len > 2 then private_descriptor sec p 5 (5 + len) spec else Some False
                     else Some True
                   else Some False);
          if match then Some True else private_match sec p streamType len specs }"

section \<open>Streams\<close>

definition add_pid :: "'a list \<Rightarrow> 'a \<Rightarrow> 'a list option" where
  "add_pid xs x = (if length xs < MAX_PIDS then Some (xs @ [x]) else None)"

definition is_video :: "byte \<Rightarrow> bool" where "is_video t \<longleftrightarrow> t \<in> {0x02, 0x80, 0x1B}"
definition is_audio :: "byte \<Rightarrow> bool" where
  "is_audio t \<longleftrightarrow> t \<in> {0x03, 0x04, 0x0F, 0x11, 0x81, 0x82, 0x83, 0x84, 0x87, 0x8A, 0x91, 0x94}"

definition program_stream :: "byte list \<Rightarrow> nat \<Rightarrow> byte \<Rightarrow> nat \<Rightarrow> nat \<Rightarrow> found \<Rightarrow> RBIStreamProcessor \<Rightarrow> (found \<times> RBIStreamProcessor) option" where
  "program_stream sec p streamType pid len F S =
     do { (F, S) \<leftarrow>
            (if is_video streamType then
               do { v \<leftarrow> add_pid (f_video F) (pid, streamType);
                    let S = (if streamType = 0x1B then (let S = S\<lparr>m_isH264 := True\<rparr> in if \<not> m_H264Enabled S then S\<lparr>m_triggerEnable := False\<rparr> else S) else S);
                    Some (F\<lparr>f_video := v\<rparr>, S) }
             else if is_audio streamType then
               do { lang \<leftarrow> (if len > 2 then audio_language sec p 5 (5 + len) None else Some None);
                    a \<leftarrow> add_pid (f_audio F) (pid, streamType, lang);
                    Some (F\<lparr>f_audio := a\<rparr>, S) }
             else if streamType = 0x86 then do { d \<leftarrow> add_pid (f_data F) (pid, streamType); Some (F\<lparr>f_data := d\<rparr>, S) }
             else Some (F, S));
          match \<leftarrow> private_match sec p streamType len (m_privateDataMonitor S);
          if match then do { q \<leftarrow> add_pid (f_private F) (pid, streamType); Some (F\<lparr>f_private := q\<rparr>, S) } else Some (F, S) }"

definition field13 :: "byte \<Rightarrow> byte \<Rightarrow> nat" where "field13 a b = unat (a AND 0x1F) * 256 + unat b"
definition field12 :: "byte \<Rightarrow> byte \<Rightarrow> nat" where "field12 a b = unat (a AND 0x0F) * 256 + unat b"

function pmt_streams :: "byte list \<Rightarrow> nat \<Rightarrow> nat \<Rightarrow> found \<Rightarrow> RBIStreamProcessor \<Rightarrow> (found \<times> RBIStreamProcessor) option" where
  "pmt_streams sec p pend F S =
     (if p < pend then
        do { streamType \<leftarrow> rd sec p; b1 \<leftarrow> rd sec (p + 1); b2 \<leftarrow> rd sec (p + 2); b3 \<leftarrow> rd sec (p + 3); b4 \<leftarrow> rd sec (p + 4);
             let len = field12 b3 b4;
             (F, S) \<leftarrow> program_stream sec p streamType (field13 b1 b2) len F S;
             pmt_streams sec (p + (5 + len)) pend F S }
      else Some (F, S))"
  by pat_completeness auto
termination
  by (relation "measure (\<lambda>(_, p, e, _, _). e - p)") auto

declare pmt_streams.simps [simp del]

definition processPMTSection :: "(nat \<Rightarrow> bool) \<Rightarrow> byte list \<Rightarrow> nat \<Rightarrow> RBIStreamProcessor \<Rightarrow> RBIStreamProcessor option" where
  "processPMTSection calloc sec sectionLength S =
     do { b9 \<leftarrow> rd sec 9; b10 \<leftarrow> rd sec 10; b11 \<leftarrow> rd sec 11; b12 \<leftarrow> rd sec 12;
          (F, S) \<leftarrow> pmt_streams sec (field12 b11 b12 + 13) (4 + sectionLength - 4) \<lparr>f_video = [], f_audio = [], f_data = [], f_private = []\<rparr> S;
          Some (setComponentInfo calloc (field13 b9 b10) F S) }"

section \<open>A table as bytes\<close>

text \<open>The streams of a program map table (ISO 13818-1, 2.4.4.8): type, PID and descriptors.\<close>

record es =
  e_type :: byte
  e_pid :: nat
  e_descrs :: "(byte \<times> byte list) list"

definition descr_bytes :: "byte \<times> byte list \<Rightarrow> byte list" where
  "descr_bytes d = fst d # word_of_nat (length (snd d)) # snd d"

definition descrs_bytes :: "(byte \<times> byte list) list \<Rightarrow> byte list" where
  "descrs_bytes ds = concat (map descr_bytes ds)"

definition es_bytes :: "es \<Rightarrow> byte list" where
  "es_bytes e = [e_type e, word_of_nat (0xE0 + e_pid e div 256), word_of_nat (e_pid e mod 256),
     word_of_nat (0xF0 + length (descrs_bytes (e_descrs e)) div 256), word_of_nat (length (descrs_bytes (e_descrs e)) mod 256)] @
     descrs_bytes (e_descrs e)"

text \<open>What the code can hold: descriptors shorter than 256 bytes, languages shorter than 32.\<close>

definition es_ok :: "es \<Rightarrow> bool" where
  "es_ok e \<longleftrightarrow> e_pid e < 8192 \<and> length (descrs_bytes (e_descrs e)) < 4096 \<and>
     list_all (\<lambda>d. length (snd d) < (if fst d = 0x0A \<and> is_audio (e_type e) then 32 else 256)) (e_descrs e)"

text \<open>The language of an audio stream is that of its last language descriptor, up to a zero.\<close>

definition language :: "(byte \<times> byte list) list \<Rightarrow> byte list option \<Rightarrow> byte list option" where
  "language ds lang = fold (\<lambda>d l. if fst d = 0x0A then Some (takeWhile (\<lambda>c. c \<noteq> 0) (snd d)) else l) ds lang"

definition es_language :: "es \<Rightarrow> byte list option" where
  "es_language e = (if length (descrs_bytes (e_descrs e)) > 2 then language (e_descrs e) None else None)"

lemma unat_and_1F: "unat (b AND 0x1F) = unat b mod 32" for b :: byte
proof -
  have "b AND 0x1F = take_bit 5 b" by (simp add: take_bit_eq_mask mask_eq_exp_minus_1)
  then show ?thesis by (simp only: unsigned_take_bit_eq) (simp add: take_bit_eq_mod)
qed

lemma unat_and_0F: "unat (b AND 0x0F) = unat b mod 16" for b :: byte
proof -
  have "b AND 0x0F = take_bit 4 b" by (simp add: take_bit_eq_mask mask_eq_exp_minus_1)
  then show ?thesis by (simp only: unsigned_take_bit_eq) (simp add: take_bit_eq_mod)
qed

lemma unat_byte_of_nat: "n < 256 \<Longrightarrow> unat (word_of_nat n :: byte) = n"
  by (simp add: unat_of_nat)

lemma field13_enc: "n < 8192 \<Longrightarrow> field13 (word_of_nat (0xE0 + n div 256)) (word_of_nat (n mod 256)) = n"
proof -
  assume "n < 8192"
  then have "n div 256 < 32" by (simp add: less_mult_imp_div_less)
  moreover have "(0xE0 + k) mod 32 = k mod 32" for k :: nat using mod_mult_self3[of 7 32 k] by simp
  ultimately have "unat (word_of_nat (0xE0 + n div 256) :: byte) mod 32 = n div 256" by (subst unat_byte_of_nat) simp_all
  moreover have "unat (word_of_nat (n mod 256) :: byte) = n mod 256" by (rule unat_byte_of_nat) simp
  ultimately show ?thesis unfolding field13_def unat_and_1F by simp
qed

lemma field12_enc: "n < 4096 \<Longrightarrow> field12 (word_of_nat (0xF0 + n div 256)) (word_of_nat (n mod 256)) = n"
proof -
  assume "n < 4096"
  then have "n div 256 < 16" by (simp add: less_mult_imp_div_less)
  moreover have "(0xF0 + k) mod 16 = k mod 16" for k :: nat using mod_mult_self3[of 15 16 k] by simp
  ultimately have "unat (word_of_nat (0xF0 + n div 256) :: byte) mod 16 = n div 256" by (subst unat_byte_of_nat) simp_all
  moreover have "unat (word_of_nat (n mod 256) :: byte) = n mod 256" by (rule unat_byte_of_nat) simp
  ultimately show ?thesis unfolding field12_def unat_and_0F by simp
qed

section \<open>Reading it\<close>

lemma audio_language_at:
  "holds_at sec (p + i) (descrs_bytes ds) \<Longrightarrow> list_all (\<lambda>d. length (snd d) < (if fst d = 0x0A then 32 else 256)) ds \<Longrightarrow>
     audio_language sec p i (i + length (descrs_bytes ds)) lang = Some (language ds lang)"
proof (induction ds arbitrary: i lang)
  case Nil
  then show ?case by (subst audio_language.simps) (simp add: descrs_bytes_def language_def)
next
  case (Cons d ds)
  obtain t xs where d: "d = (t, xs)" by fastforce
  have n: "length xs < 256" "t = 0x0A \<Longrightarrow> length xs < 32" using Cons.prems(2) d by (auto split: if_splits)
  have h: "rd sec (p + i) = Some t" "rd sec (p + i + 1) = Some (word_of_nat (length xs))" "holds_at sec (p + i + 2) xs"
      "holds_at sec (p + (i + (2 + length xs))) (descrs_bytes ds)"
    using Cons.prems(1) by (simp_all add: descrs_bytes_def descr_bytes_def d add.assoc)
  have u: "unat (word_of_nat (length xs) :: byte) = length xs" using n(1) by (rule unat_byte_of_nat)
  have e: "i + length (descrs_bytes (d # ds)) = i + (2 + length xs) + length (descrs_bytes ds)"
    by (simp add: descrs_bytes_def descr_bytes_def d)
  have l: "language (d # ds) lang = language ds (if t = 0x0A then Some (takeWhile (\<lambda>c. c \<noteq> 0) xs) else lang)"
    by (simp add: language_def d)
  show ?case unfolding e l using Cons.IH[OF h(4)] Cons.prems(2) h(1-3) u n(2) rd_seq_holds[OF h(3)]
    by (subst audio_language.simps) simp
qed

lemma private_match_types:
  "\<forall>spec \<in> set specs. \<not> spec_matchTag spec \<Longrightarrow> private_match sec p t len specs = Some (t \<in> spec_streamType ` set specs)"
  by (induction specs) auto

definition found_of :: "(byte \<Rightarrow> bool) \<Rightarrow> es list \<Rightarrow> found" where
  "found_of priv es =
     \<lparr>f_video = map (\<lambda>e. (e_pid e, e_type e)) (filter (\<lambda>e. is_video (e_type e)) es),
      f_audio = map (\<lambda>e. (e_pid e, e_type e, es_language e)) (filter (\<lambda>e. is_audio (e_type e)) es),
      f_data = map (\<lambda>e. (e_pid e, e_type e)) (filter (\<lambda>e. e_type e = 0x86) es),
      f_private = map (\<lambda>e. (e_pid e, e_type e)) (filter (\<lambda>e. priv (e_type e)) es)\<rparr>"

definition join :: "found \<Rightarrow> found \<Rightarrow> found" where
  "join F G = \<lparr>f_video = f_video F @ f_video G, f_audio = f_audio F @ f_audio G, f_data = f_data F @ f_data G, f_private = f_private F @ f_private G\<rparr>"

definition fits :: "found \<Rightarrow> bool" where
  "fits F \<longleftrightarrow> length (f_video F) \<le> MAX_PIDS \<and> length (f_audio F) \<le> MAX_PIDS \<and> length (f_data F) \<le> MAX_PIDS \<and> length (f_private F) \<le> MAX_PIDS"

text \<open>The effect of a stream list on the flags: an H.264 stream is remembered, and turns triggers off unless H.264 is enabled.\<close>

definition h264_flags :: "es list \<Rightarrow> RBIStreamProcessor \<Rightarrow> RBIStreamProcessor" where
  "h264_flags es S = (if list_ex (\<lambda>e. e_type e = 0x1B) es
     then S\<lparr>m_isH264 := True, m_triggerEnable := m_triggerEnable S \<and> m_H264Enabled S\<rparr> else S)"

lemma kinds: "is_video t \<Longrightarrow> \<not> is_audio t \<and> t \<noteq> 0x86" "is_audio t \<Longrightarrow> t \<noteq> 0x86 \<and> t \<noteq> 0x1B" "\<not> is_video t \<Longrightarrow> t \<noteq> 0x1B"
  by (auto simp: is_video_def is_audio_def)

lemma program_stream_at:
  assumes "es_ok e" "holds_at sec p (es_bytes e)" "\<forall>spec \<in> set (m_privateDataMonitor S). \<not> spec_matchTag spec"
    and "fits (join F (found_of (\<lambda>t. t \<in> spec_streamType ` set (m_privateDataMonitor S)) [e]))"
  shows "program_stream sec p (e_type e) (e_pid e) (length (descrs_bytes (e_descrs e))) F S =
     Some (join F (found_of (\<lambda>t. t \<in> spec_streamType ` set (m_privateDataMonitor S)) [e]), h264_flags [e] S)"
proof -
  obtain h where h: "es_bytes e = h @ descrs_bytes (e_descrs e)" "length h = 5" by (simp add: es_bytes_def)
  then have d: "holds_at sec (p + 5) (descrs_bytes (e_descrs e))" using assms(2) by simp
  have lang: "(if length (descrs_bytes (e_descrs e)) > 2 then audio_language sec p 5 (5 + length (descrs_bytes (e_descrs e))) None else Some None) =
      Some (es_language e)" if "is_audio (e_type e)"
    using audio_language_at[OF d, of None] assms(1) that by (simp add: es_language_def es_ok_def)
  let ?priv = "\<lambda>t. t \<in> spec_streamType ` set (m_privateDataMonitor S)"
  define G where "G = (found_of (\<lambda>_. False) [e])"
  have first: "(if is_video (e_type e) then
               do { v \<leftarrow> add_pid (f_video F) (e_pid e, e_type e);
                    let S = (if e_type e = 0x1B then (let S = S\<lparr>m_isH264 := True\<rparr> in if \<not> m_H264Enabled S then S\<lparr>m_triggerEnable := False\<rparr> else S) else S);
                    Some (F\<lparr>f_video := v\<rparr>, S) }
             else if is_audio (e_type e) then
               do { lang \<leftarrow> (if length (descrs_bytes (e_descrs e)) > 2 then audio_language sec p 5 (5 + length (descrs_bytes (e_descrs e))) None else Some None);
                    a \<leftarrow> add_pid (f_audio F) (e_pid e, e_type e, lang);
                    Some (F\<lparr>f_audio := a\<rparr>, S) }
             else if e_type e = 0x86 then do { d \<leftarrow> add_pid (f_data F) (e_pid e, e_type e); Some (F\<lparr>f_data := d\<rparr>, S) }
             else Some (F, S)) = Some (join F G, h264_flags [e] S)"
  proof (cases "is_video (e_type e)")
    case True
    with kinds(1)[OF True] assms(4) show ?thesis
      by (simp add: add_pid_def fits_def join_def found_of_def G_def h264_flags_def Let_def)
  next
    case nv: False
    show ?thesis
    proof (cases "is_audio (e_type e)")
      case True
      with nv lang[OF True] kinds(2)[OF True] assms(4) show ?thesis
        by (simp add: add_pid_def fits_def join_def found_of_def G_def h264_flags_def Let_def)
    next
      case False
      with nv kinds(3)[OF nv] assms(4) show ?thesis
        by (cases "e_type e = 0x86") (simp_all add: add_pid_def fits_def join_def found_of_def G_def h264_flags_def Let_def)
    qed
  qed
  have "m_privateDataMonitor (h264_flags [e] S) = m_privateDataMonitor S" by (simp add: h264_flags_def)
  then have "program_stream sec p (e_type e) (e_pid e) (length (descrs_bytes (e_descrs e))) F S =
      (if ?priv (e_type e) then do { q \<leftarrow> add_pid (f_private (join F G)) (e_pid e, e_type e); Some ((join F G)\<lparr>f_private := q\<rparr>, h264_flags [e] S) }
       else Some (join F G, h264_flags [e] S))"
    unfolding program_stream_def first by (simp add: private_match_types[OF assms(3)])
  then show ?thesis using assms(4) by (auto simp: add_pid_def fits_def join_def found_of_def G_def)
qed

lemma found_of_Cons: "found_of priv (e # es) = join (found_of priv [e]) (found_of priv es)"
  by (simp add: found_of_def join_def)

lemma join_assoc: "join (join F G) H = join F (join G H)"
  by (simp add: join_def)

lemma fits_join: "fits (join F (join G H)) \<Longrightarrow> fits (join F G)"
  by (simp add: fits_def join_def)

lemma h264_flags_Cons: "h264_flags es (h264_flags [e] S) = h264_flags (e # es) S"
  by (auto simp: h264_flags_def)

lemma h264_flags_monitor [simp]: "m_privateDataMonitor (h264_flags es S) = m_privateDataMonitor S"
  by (simp add: h264_flags_def)

lemma length_es_bytes: "length (es_bytes e) = 5 + length (descrs_bytes (e_descrs e))"
  by (simp add: es_bytes_def)

lemma pmt_streams_step:
  assumes "es_ok e" "holds_at sec p (es_bytes e)" "p < pend"
  shows "pmt_streams sec p pend F S =
     do { (F, S) \<leftarrow> program_stream sec p (e_type e) (e_pid e) (length (descrs_bytes (e_descrs e))) F S; pmt_streams sec (p + length (es_bytes e)) pend F S }"
proof -
  let ?n = "length (descrs_bytes (e_descrs e))"
  have r: "rd sec p = Some (e_type e)" "rd sec (p + 1) = Some (word_of_nat (0xE0 + e_pid e div 256))" "rd sec (p + 2) = Some (word_of_nat (e_pid e mod 256))"
      "rd sec (p + 3) = Some (word_of_nat (0xF0 + ?n div 256))" "rd sec (p + 4) = Some (word_of_nat (?n mod 256))"
    using assms(2) unfolding es_bytes_def append_Cons append_Nil holds_at_5 by blast+
  have f: "field13 (word_of_nat (0xE0 + e_pid e div 256)) (word_of_nat (e_pid e mod 256)) = e_pid e"
      "field12 (word_of_nat (0xF0 + ?n div 256)) (word_of_nat (?n mod 256)) = ?n"
    using assms(1) by (auto simp only: es_ok_def intro!: field13_enc field12_enc)
  show ?thesis unfolding length_es_bytes using assms(3)
    by (subst pmt_streams.simps) (simp only: r f bind.bind_lunit Let_def if_True)
qed

lemma pmt_streams_at:
  assumes "\<forall>spec \<in> set (m_privateDataMonitor S). \<not> spec_matchTag spec" "list_all es_ok es" "holds_at sec p (concat (map es_bytes es))"
    and "fits (join F (found_of (\<lambda>t. t \<in> spec_streamType ` set (m_privateDataMonitor S)) es))"
  shows "pmt_streams sec p (p + length (concat (map es_bytes es))) F S =
     Some (join F (found_of (\<lambda>t. t \<in> spec_streamType ` set (m_privateDataMonitor S)) es), h264_flags es S)"
  using assms
proof (induction es arbitrary: p F S)
  case Nil
  then show ?case by (subst pmt_streams.simps) (simp add: join_def found_of_def h264_flags_def)
next
  case (Cons e es)
  let ?priv = "\<lambda>t. t \<in> spec_streamType ` set (m_privateDataMonitor S)"
  let ?fin = "p + length (concat (map es_bytes (e # es)))"
  have h: "es_ok e" "holds_at sec p (es_bytes e)" "holds_at sec (p + length (es_bytes e)) (concat (map es_bytes es))" "p < ?fin"
    using Cons.prems(2,3) length_es_bytes[of e] by auto
  have fj: "fits (join (join F (found_of ?priv [e])) (found_of ?priv es))" "fits (join F (found_of ?priv [e]))"
    using Cons.prems(4) fits_join unfolding found_of_Cons[of _ e es] join_assoc by blast+
  have e: "?fin = p + length (es_bytes e) + length (concat (map es_bytes es))" by simp
  have "pmt_streams sec p ?fin F S = pmt_streams sec (p + length (es_bytes e)) ?fin (join F (found_of ?priv [e])) (h264_flags [e] S)"
    unfolding pmt_streams_step[OF h(1,2,4)] program_stream_at[OF h(1,2) Cons.prems(1) fj(2)] by simp
  also have "\<dots> = Some (join (join F (found_of ?priv [e])) (found_of ?priv es), h264_flags es (h264_flags [e] S))"
    unfolding e using Cons.IH[of "h264_flags [e] S" "p + length (es_bytes e)"] Cons.prems(1,2) h(3) fj(1) by simp
  finally show ?case unfolding found_of_Cons[of _ e es] join_assoc h264_flags_Cons .
qed

section \<open>Properties\<close>

lemma mark_trigger_pids: "m_triggerPids (mark_trigger d S) q = (m_triggerPids S q \<or> (q, 0x86) = d)"
  by (cases d) (auto simp: mark_trigger_def)

lemma trigger_fold: "m_triggerPids (fold mark_trigger ds S) q = (m_triggerPids S q \<or> (q, 0x86) \<in> set ds)"
  by (induction ds arbitrary: S) (simp_all only: fold_simps list.set insert_iff mark_trigger_pids empty_iff disj_assoc simp_thms)

lemma private_fold: "m_privateDataPids (fold mark_private ds S) q = (m_privateDataPids S q \<or> q \<in> fst ` set ds)"
  by (induction ds arbitrary: S) (auto simp: mark_private_def)

lemma private_fold_types:
  "m_privateDataTypes (fold mark_private ds S) q = (case map_of (rev ds) q of None \<Rightarrow> m_privateDataTypes S q | Some t \<Rightarrow> t)"
  by (induction ds arbitrary: S) (auto simp: mark_private_def map_add_def split: option.split)

text \<open>The folds of \<open>setComponentInfo\<close> change nothing but the tables of PIDs.\<close>

lemma trigger_fold_other: "(\<And>S v. g (S\<lparr>m_triggerPids := v\<rparr>) = g S) \<Longrightarrow> g (fold mark_trigger ds S) = g S"
  by (induction ds arbitrary: S) (simp_all add: mark_trigger_def)

lemma trigger_fold_types: "m_privateDataTypes (fold mark_trigger ds S) = m_privateDataTypes S"
  by (rule trigger_fold_other) simp

lemma private_fold_other:
  "(\<And>S v. g (S\<lparr>m_privateDataPids := v\<rparr>) = g S) \<Longrightarrow> (\<And>S v. g (S\<lparr>m_privateDataTypes := v\<rparr>) = g S) \<Longrightarrow> g (fold mark_private ds S) = g S"
  by (induction ds arbitrary: S) (simp_all add: mark_private_def)

lemma setComponentInfo_fields:
  fixes F S calloc pcrPid
  assumes "\<And>n. calloc n"
  defines "S' \<equiv> setComponentInfo calloc pcrPid F S"
  shows "m_pcrPid S' = int pcrPid" "m_videoComponents S' = components component (f_video F)" "m_audioComponents S' = components audio_component (f_audio F)"
    "m_videoPid S' = (if f_video F = [] then m_videoPid S else int (fst (hd (f_video F))))"
    "m_audioPid S' = (if f_audio F = [] then m_audioPid S else int (fst (hd (f_audio F))))"
    "m_triggerPids S' q = ((q, 0x86) \<in> set (f_data F))" "m_privateDataPids S' q = (q \<in> fst ` set (f_private F))"
    "m_isH264 S' = m_isH264 S" "m_triggerEnable S' = m_triggerEnable S"
    "m_videoComponentCount S' = length (f_video F)" "m_audioComponentCount S' = length (f_audio F)" "m_dataComponentCount S' = length (f_data F)"
    "m_dataComponents S' = components component (f_data F @ f_private F)"
    "m_privateDataTypes S' q = (case map_of (rev (f_private F)) q of None \<Rightarrow> m_privateDataTypes S q | Some t \<Rightarrow> t)"
  unfolding S'_def setComponentInfo_def using assms(1)
  by (simp_all add: Let_def private_fold private_fold_other private_fold_types trigger_fold trigger_fold_other trigger_fold_types termComponentInfo_def cong: option.case_cong)

text \<open>C12. A program map section is taken over: with at most eight streams of a kind, languages shorter than 32 bytes and no private
  stream selected by a descriptor, the components of the state and their counts are the video, audio and data streams of the table in their order with
  their types, PIDs and languages (the private streams follow the SCTE 35 ones and are not counted), the first of each is the one whose time stamps are
  sampled, the trigger PIDs are those of the SCTE 35 streams, and the private data PIDs those of the types asked for, each with the type of its last
  stream. The H.264 flag is not that of the table alone: it is set by an H.264 stream and stays set when a later table has none. Without H.264 support
  such a stream switches the triggers off.\<close>

theorem processPMTSection_components:
  fixes S es sec calloc
  defines "F \<equiv> found_of (\<lambda>t. t \<in> spec_streamType ` set (m_privateDataMonitor S)) es"
  assumes "\<And>n. calloc n" "\<forall>spec \<in> set (m_privateDataMonitor S). \<not> spec_matchTag spec" "list_all es_ok es" "fits F"
    and "rd sec 9 = Some (word_of_nat (0xE0 + pcrPid div 256))" "rd sec 10 = Some (word_of_nat (pcrPid mod 256))" "pcrPid < 8192"
    and "rd sec 11 = Some (word_of_nat (0xF0 + infoLength div 256))" "rd sec 12 = Some (word_of_nat (infoLength mod 256))" "infoLength < 4096"
    and "holds_at sec (infoLength + 13) (concat (map es_bytes es))" "sectionLength = infoLength + 13 + length (concat (map es_bytes es))"
  shows "\<exists>S'. processPMTSection calloc sec sectionLength S = Some S' \<and> m_pcrPid S' = int pcrPid \<and>
     m_videoComponents S' = components component (f_video F) \<and> m_audioComponents S' = components audio_component (f_audio F) \<and>
     m_videoPid S' = (if f_video F = [] then m_videoPid S else int (fst (hd (f_video F)))) \<and>
     m_audioPid S' = (if f_audio F = [] then m_audioPid S else int (fst (hd (f_audio F)))) \<and>
     (\<forall>q. m_triggerPids S' q = (\<exists>e \<in> set es. e_type e = 0x86 \<and> e_pid e = q)) \<and>
     (\<forall>q. m_privateDataPids S' q = (\<exists>e \<in> set es. e_type e \<in> spec_streamType ` set (m_privateDataMonitor S) \<and> e_pid e = q)) \<and>
     m_isH264 S' = (m_isH264 S \<or> (\<exists>e \<in> set es. e_type e = 0x1B)) \<and>
     m_triggerEnable S' = (m_triggerEnable S \<and> (m_H264Enabled S \<or> (\<forall>e \<in> set es. e_type e \<noteq> 0x1B))) \<and>
     m_videoComponentCount S' = length (f_video F) \<and> m_audioComponentCount S' = length (f_audio F) \<and> m_dataComponentCount S' = length (f_data F) \<and>
     m_dataComponents S' = components component (f_data F @ f_private F) \<and>
     (\<forall>q. m_privateDataTypes S' q = (case map_of (rev (f_private F)) q of None \<Rightarrow> m_privateDataTypes S q | Some t \<Rightarrow> t))"
proof -
  let ?E = "\<lparr>f_video = [], f_audio = [], f_data = [], f_private = []\<rparr>"
  have j: "join ?E F = F" by (simp add: join_def F_def found_of_def)
  have e: "4 + sectionLength - 4 = infoLength + 13 + length (concat (map es_bytes es))" using assms(13) by simp
  have "pmt_streams sec (infoLength + 13) (4 + sectionLength - 4) ?E S = Some (F, h264_flags es S)"
    unfolding e using pmt_streams_at[OF assms(3,4,12), of ?E] assms(5) j unfolding F_def by simp
  then have p: "processPMTSection calloc sec sectionLength S = Some (setComponentInfo calloc pcrPid F (h264_flags es S))"
    unfolding processPMTSection_def assms(6,7,9,10) bind.bind_lunit field13_enc[OF assms(8)] field12_enc[OF assms(11)] by simp
  have q: "((q, 0x86) \<in> set (f_data F)) = (\<exists>e \<in> set es. e_type e = 0x86 \<and> e_pid e = q)"
      "(q \<in> fst ` set (f_private F)) = (\<exists>e \<in> set es. e_type e \<in> spec_streamType ` set (m_privateDataMonitor S) \<and> e_pid e = q)" for q
    by (force simp: F_def found_of_def)+
  have h: "m_videoPid (h264_flags es S) = m_videoPid S" "m_audioPid (h264_flags es S) = m_audioPid S"
      "m_isH264 (h264_flags es S) = (m_isH264 S \<or> (\<exists>e \<in> set es. e_type e = 0x1B))"
      "m_triggerEnable (h264_flags es S) = (m_triggerEnable S \<and> (m_H264Enabled S \<or> (\<forall>e \<in> set es. e_type e \<noteq> 0x1B)))"
      "m_privateDataTypes (h264_flags es S) = m_privateDataTypes S"
    by (auto simp: h264_flags_def list_ex_iff)
  show ?thesis unfolding p option.inject by (simp only: ex_simps simp_thms setComponentInfo_fields[OF assms(2)] q h)
qed

definition sample_streams :: "es list" where
  "sample_streams = [\<lparr>e_type = 0x1B, e_pid = 256, e_descrs = []\<rparr>, \<lparr>e_type = 0x81, e_pid = 257, e_descrs = [(0x0A, [101, 110, 103, 0])]\<rparr>,
     \<lparr>e_type = 0x86, e_pid = 258, e_descrs = []\<rparr>]"

definition sample_section :: "byte list" where
  "sample_section = replicate 9 0 @ [0xE1, 0x00, 0xF0, 0x00] @ concat (map es_bytes sample_streams) @ [1, 2, 3, 4]"

lemma sample_section_ok:
  "list_all es_ok sample_streams" "fits (found_of (\<lambda>t. t \<in> spec_streamType ` set []) sample_streams)"
  "rd sample_section 9 = Some 0xE1" "rd sample_section 10 = Some 0" "rd sample_section 11 = Some 0xF0" "rd sample_section 12 = Some 0"
  "holds_at sample_section 13 (concat (map es_bytes sample_streams))" "length (concat (map es_bytes sample_streams)) = 21"
  "audio_component (257, 0x81, es_language (sample_streams ! 1)) = \<lparr>sc_streamType = 0x81, sc_pid = 257, sc_associatedLanguage = Some [101, 110, 103]\<rparr>"
  by code_simp+

theorem processPMTSection_components_witness:
  "\<exists>S'. processPMTSection (\<lambda>_. True) sample_section 34 (RBIStreamProcessor_new True) = Some S' \<and> m_videoPid S' = 256 \<and> m_isH264 S' \<and>
     m_audioComponents S' = Some [\<lparr>sc_streamType = 0x81, sc_pid = 257, sc_associatedLanguage = Some [101, 110, 103]\<rparr>] \<and> m_triggerPids S' 258 \<and>
     m_audioComponentCount S' = 1"
proof -
  let ?S = "RBIStreamProcessor_new True"
  have m: "m_privateDataMonitor ?S = []" by (simp add: RBIStreamProcessor_new_def)
  have s: "list_all es_ok sample_streams" "fits (found_of (\<lambda>t. t \<in> spec_streamType ` set (m_privateDataMonitor ?S)) sample_streams)"
      "\<forall>spec \<in> set (m_privateDataMonitor ?S). \<not> spec_matchTag spec"
    unfolding m by (rule sample_section_ok sample_section_ok(2)[unfolded list.set])+ simp
  have a: "f_video (found_of P sample_streams) = [(256, 0x1B)]" "f_audio (found_of P sample_streams) = [(257, 0x81, es_language (sample_streams ! 1))]" for P
    by (simp_all add: found_of_def sample_streams_def is_video_def is_audio_def)
  have t: "\<exists>e \<in> set sample_streams. e_type e = 0x86 \<and> e_pid e = 258" "\<exists>e \<in> set sample_streams. e_type e = 0x1B" by (simp_all add: sample_streams_def)
  have r: "rd sample_section 9 = Some (word_of_nat (0xE0 + 256 div 256))" "rd sample_section 10 = Some (word_of_nat (256 mod 256))"
      "rd sample_section 11 = Some (word_of_nat (0xF0 + 0 div 256))" "rd sample_section 12 = Some (word_of_nat (0 mod 256))"
      "holds_at sample_section (0 + 13) (concat (map es_bytes sample_streams))" "34 = 0 + 13 + length (concat (map es_bytes sample_streams))"
    using sample_section_ok(3-8) by simp_all
  obtain S' where "processPMTSection (\<lambda>_. True) sample_section 34 ?S = Some S'" "m_videoPid S' = 256" "m_isH264 S'" "m_triggerPids S' 258"
      "m_audioComponents S' = components audio_component [(257, 0x81, es_language (sample_streams ! 1))]" "m_audioComponentCount S' = 1"
    using processPMTSection_components[where calloc = "\<lambda>_. True" and S = ?S and es = sample_streams and sec = sample_section and pcrPid = 256 and infoLength = 0
        and sectionLength = 34, OF TrueI s(3,1,2) r(1,2) _ r(3,4) _ r(5,6)] t unfolding a by auto
  then show ?thesis using sample_section_ok(9) by (auto simp: components_def)
qed

text \<open>The local arrays are filled without a check: a ninth video stream in a table, or a language descriptor of 32 bytes or more, makes the code
  write behind them.\<close>

theorem pmt_arrays_overflow:
  "(is_video t \<and> length (f_video F) = MAX_PIDS \<longrightarrow> program_stream sec p t pid len F S = None) \<and>
   (is_audio t \<and> 2 < len \<and> rd sec (p + 5) = Some 0x0A \<and> rd sec (p + 6) = Some n \<and> 32 \<le> unat n \<longrightarrow> program_stream sec p t pid len F S = None)"
proof (intro conjI impI; elim conjE)
  assume "is_video t" "length (f_video F) = MAX_PIDS"
  then show "program_stream sec p t pid len F S = None" by (simp add: program_stream_def add_pid_def)
next
  assume a: "is_audio t" "2 < len" "rd sec (p + 5) = Some 0x0A" "rd sec (p + 6) = Some n" "32 \<le> unat n"
  have "audio_language sec p 5 (5 + len) None = None"
    using a(2-5) by (subst audio_language.simps) (cases "rd_seq sec (7 + p) (unat n)"; simp add: add.commute[of p])
  moreover have "\<not> is_video t" using a(1) kinds(1)[of t] by blast
  ultimately show "program_stream sec p t pid len F S = None" using a(1,2) by (simp add: program_stream_def)
qed

theorem pmt_arrays_overflow_witness:
  "program_stream ([0x81, 0xE1, 0x01, 0xF0, 40, 0x0A, 38] @ replicate 38 97) 0 0x81 257 40 (found_of (\<lambda>_. False) []) (RBIStreamProcessor_new True) = None"
  using pmt_arrays_overflow[where sec = "[0x81, 0xE1, 0x01, 0xF0, 40, 0x0A, 38] @ replicate 38 97" and p = 0 and t = "0x81" and pid = 257 and len = 40
      and F = "found_of (\<lambda>_. False) []" and S = "RBIStreamProcessor_new True" and n = 38]
  by (simp add: is_audio_def rd_def)

end
