(* ===== verification/RbiScte.thy ===== *)
theory RbiScte
  imports RbiState RbiTime
begin

text \<open>
  SCTE 35 sections: \<open>processSCTE35Section\<close> and \<open>processSCTEDescriptors\<close> of \<open>rbi/rbi.cpp\<close>, with \<open>USE_SPLICE_INSERT_COMMAND\<close> not defined. A time
  signal with a segmentation descriptor of a placement opportunity becomes a trigger.

  \<^item> \<open>sec\<close> is the memory from the pointer field in front of the section on; a read outside of it is None.
  \<^item> A character array that holds a string is the string up to its terminating zero; \<open>contentId\<close> is the array itself.
  \<^item> The environment has what other objects answer: whether an allocation succeeds, whether the system time is known, whether the listener accepts a
    trigger, and the rounded product of a time and the frame rate.
\<close>

record rbi_env =
  calloc_ok :: "nat \<Rightarrow> bool"
  isSTTAcquired :: bool
  isProgrammerEnablementEnabled :: bool
  triggerDetected :: "RBITrigger \<Rightarrow> bool"
  frames :: "int \<Rightarrow> 32 word"

section \<open>Strings of the C library\<close>

definition bytes :: "string \<Rightarrow> byte list" where
  "bytes s = map of_char s"

definition c_str :: "byte list \<Rightarrow> byte list" where
  "c_str xs = takeWhile (\<lambda>c. c \<noteq> 0) xs"

fun strstr :: "byte list \<Rightarrow> byte list \<Rightarrow> bool" where
  "strstr [] pat = (pat = [])"
| "strstr (x # xs) pat = (take (length pat) (x # xs) = pat \<or> strstr xs pat)"

definition strtok :: "byte list \<Rightarrow> byte list \<Rightarrow> byte list option" where
  "strtok s delim = (let r = dropWhile (\<lambda>c. c \<in> set delim) s in if r = [] then None else Some (takeWhile (\<lambda>c. c \<notin> set delim) r))"

definition digit :: "byte \<Rightarrow> int" where
  "digit c = (if 48 \<le> c \<and> c \<le> 57 then uint c - 48 else if 65 \<le> c \<and> c \<le> 90 then uint c - 55 else if 97 \<le> c \<and> c \<le> 122 then uint c - 87 else 36)"

definition strtoll :: "byte list \<Rightarrow> int" where
  "strtoll s =
     (let s = dropWhile (\<lambda>c. c = 32 \<or> 9 \<le> c \<and> c \<le> 13) s;
          neg = (take 1 s = [45]);
          s = (if take 1 s \<in> {[43], [45]} then drop 1 s else s);
          (base, s) = (if take 1 s = [48] \<and> take 1 (drop 1 s) \<in> {[88], [120]} \<and> drop 2 s \<noteq> [] \<and> digit (s ! 2) < 16 then (16, drop 2 s)
                       else if take 1 s = [48] then (8, s) else (10, s));
          v = fold (\<lambda>c v. v * base + digit c) (takeWhile (\<lambda>c. digit c < base) s) 0;
          v = (if neg then - v else v)
      in max (- (2 ^ 63)) (min (2 ^ 63 - 1) v))"

definition hexmap :: "byte \<Rightarrow> byte" where
  "hexmap n = (if n < 10 then 48 + n else 55 + n)"

definition hex :: "byte list \<Rightarrow> byte list" where
  "hex xs = concat (map (\<lambda>c. [hexmap (drop_bit 4 (c AND 0xF0)), hexmap (c AND 0x0F)]) xs)"

section \<open>The identifiers of a segment\<close>

definition po_zero :: PlacementOpportunityData where
  "po_zero = \<lparr>poType = 0, poDuration = 0, signalId = [], streamId = [], contentId = replicate RBI_MAX_DATA 0, serviceSource = [], po_zone = [],
     windowStart = 0, elementId = [], elementBreakId = [], po_eventId = 0, po_typeId = 0, po_segmentNum = 0, po_segmentsExpected = 0, po_segments = []\<rparr>"

definition provider :: "byte \<Rightarrow> bool" where "provider t \<longleftrightarrow> t = 0x30 \<or> t = 0x44 \<or> t = 0x34"
definition distributor :: "byte \<Rightarrow> bool" where "distributor t \<longleftrightarrow> t = 0x36"

text \<open>One element of a list of identifiers: the first part takes known identifiers over and says whether the element is used up; the second keeps the
  others in hexadecimal.\<close>

definition known_upid :: "byte \<Rightarrow> byte \<Rightarrow> byte list \<Rightarrow> bool \<Rightarrow> PlacementOpportunityData \<Rightarrow> bool \<times> bool \<times> PlacementOpportunityData" where
  "known_upid segType upidType elem valid po =
     (let temp = c_str elem in
      if upidType = 9 then
        if strstr temp (bytes ''SIGNAL:'') then (False, valid \<or> distributor segType, po\<lparr>signalId := temp\<rparr>)
        else if provider segType then
          if take 3 temp = bytes ''PO:'' then (True, valid, po\<lparr>elementId := temp\<rparr>)
          else if take 6 temp = bytes ''BREAK:'' then (True, valid, po\<lparr>elementBreakId := temp\<rparr>) else (False, valid, po)
        else (False, valid, po)
      else if upidType = 0xF \<and> (distributor segType \<or> provider segType) then
        let addressable = (provider segType \<and> strstr temp (bytes ''urn:comcast:altcon:addressable''));
            valid = (valid \<or> addressable)
        in if strstr temp (bytes ''urn:merlin:linear:stream:'') then (True, valid, po\<lparr>streamId := temp\<rparr>)
           else if strstr temp (bytes ''private:comcast_qam_gateway:'') then (True, valid, po\<lparr>serviceSource := temp\<rparr>)
           else if strstr temp (bytes ''urn:comcast:location:vde-adzone:'') then (True, valid, po\<lparr>po_zone := temp\<rparr>)
           else if distributor segType \<and> strstr temp (bytes ''urn:comcast:altcon:airdate:'') then
             (case strtok temp (bytes ''urn:comcast:altcon:airdate:'') of
                Some token \<Rightarrow> (True, valid, po\<lparr>windowStart := strtoll token\<rparr>)
              | None \<Rightarrow> (addressable, valid, po))
           else (addressable, valid, po)
      else (False, valid, po))"

definition other_upid :: "byte \<Rightarrow> byte list \<Rightarrow> PlacementOpportunityData \<Rightarrow> PlacementOpportunityData option" where
  "other_upid upidType elem po =
     (let h = take RBI_MAX_DATA (hex elem) in
      if upidType = 8 then Some (po\<lparr>contentId := h @ drop (length h) (contentId po)\<rparr>)
      else if length (po_segments po) < 10 then Some (po\<lparr>po_segments := po_segments po @ [\<lparr>upid_type = upidType, upid_hex = h\<rparr>]\<rparr>)
      else None)"

text \<open>The loop over a list of identifiers (\<open>MID\<close>); o is \<open>descriptorOffset\<close>. It gives the type of the last element, which the code keeps in
  \<open>segmentationUpidType\<close> for the log only.\<close>

function mid_loop :: "byte list \<Rightarrow> byte \<Rightarrow> nat \<Rightarrow> nat \<Rightarrow> nat \<Rightarrow> bool \<Rightarrow> PlacementOpportunityData \<Rightarrow> (bool \<times> PlacementOpportunityData) option" where
  "mid_loop sec segType d moff upidLen valid po =
     (if moff < upidLen then
        do { upidType \<leftarrow> rd sec (d + 2 + moff); ulen \<leftarrow> rd sec (d + 3 + moff);
             (valid, po) \<leftarrow>
               (if unat ulen \<le> RBI_MAX_DATA then
                  do { elem \<leftarrow> rd_seq sec (d + 2 + 2 + moff) (unat ulen);
                       let (used, valid, po) = known_upid segType upidType elem valid po;
                       po \<leftarrow> (if used then Some po else other_upid upidType elem po);
                       Some (valid, po) }
                else Some (valid, po));
             mid_loop sec segType d (moff + (unat ulen + 2)) upidLen valid po }
      else Some (valid, po))"
  by pat_completeness auto
termination
  by (relation "measure (\<lambda>(_, _, _, m, n, _, _). n - m)") auto

declare mid_loop.simps [simp del]

definition adi_upid :: "byte list \<Rightarrow> byte \<Rightarrow> nat \<Rightarrow> nat \<Rightarrow> PlacementOpportunityData \<Rightarrow> (bool \<times> PlacementOpportunityData) option" where
  "adi_upid sec segType d upidLen po =
     (if upidLen < RBI_MAX_DATA then
        do { elem \<leftarrow> rd_seq sec (d + 2) upidLen;
             let temp = c_str elem;
             Some (if strstr temp (bytes ''SIGNAL:'') then (distributor segType, po\<lparr>signalId := temp\<rparr>) else (False, po)) }
      else Some (False, po))"

section \<open>Triggers\<close>

definition emit_trigger ::
  "rbi_env \<Rightarrow> byte \<Rightarrow> 32 word \<Rightarrow> int \<Rightarrow> bool \<Rightarrow> PlacementOpportunityData \<Rightarrow> RBIStreamProcessor \<Rightarrow> bool \<times> RBIStreamProcessor" where
  "emit_trigger E cmd eventId spliceTime valid po S =
     (if (cmd = 0x05 \<or> cmd = 0x06 \<and> valid) \<and> isSTTAcquired E \<and> m_events S \<and> \<not> m_triggerDetectedForOpportunity S then
        let leadTime = (if m_currentPCR S \<noteq> -1 then (spliceTime - m_currentPCR S) AND MAX_90K else 0);
            trigger = \<lparr>eventIdInstance = eventId, trig_splicePTS = spliceTime, trig_leadTime = leadTime, poData = Some po\<rparr>
        in if valid then (True, S\<lparr>m_scanForFrameType := True, triggers := triggers S @ [trigger], m_triggerDetectedForOpportunity := triggerDetected E trigger\<rparr>)
           else (False, S\<lparr>m_triggerDetectedForOpportunity := False\<rparr>)
      else (False, S))"

definition move_in_point :: "rbi_env \<Rightarrow> byte \<Rightarrow> int \<Rightarrow> RBIStreamProcessor \<Rightarrow> RBIStreamProcessor" where
  "move_in_point E segType spliceTime S =
     (if segType = 0x35 \<and> isProgrammerEnablementEnabled E \<and> m_insertSrc S \<noteq> None \<and> \<bar>spliceTime - m_mapSpliceInPTS S\<bar> < 12000
      then S\<lparr>m_mapSpliceInPTS := spliceTime, m_netReplaceableVideoFramesCnt := frames E (spliceTime - m_mapStartPTS S)\<rparr> else S)"

definition be_bytes :: "byte list \<Rightarrow> int" where
  "be_bytes xs = fold (\<lambda>c v. v * 256 + uint c) xs 0"

text \<open>A segmentation descriptor at d: how far it moves \<open>descriptorOffset\<close>, whether it emitted a trigger, and the state.\<close>

definition segmentation ::
  "rbi_env \<Rightarrow> byte list \<Rightarrow> byte \<Rightarrow> nat \<Rightarrow> int \<Rightarrow> RBIStreamProcessor \<Rightarrow> (nat \<times> bool \<times> RBIStreamProcessor) option" where
  "segmentation E sec cmd d spliceTime S =
     do { _ \<leftarrow> rd_seq sec (d + 2) 4;
          eventId \<leftarrow> rd_seq sec (d + 6) 4;
          cancel \<leftarrow> rd sec (d + 10);
          if cancel AND 0x80 \<noteq> 0 then Some (0, False, S)
          else do {
            flags \<leftarrow> rd sec (d + 11);
            if flags AND 0x80 = 0 then Some (0, False, S)
            else do {
              let adv = 12 + (if flags AND 0x40 \<noteq> 0 then 5 else 0);
              duration \<leftarrow> (if flags AND 0x40 \<noteq> 0 then map_option be_bytes (rd_seq sec (d + 12) 5) else Some 0);
              upidType \<leftarrow> rd sec (d + adv);
              upidLen \<leftarrow> rd sec (d + adv + 1);
              segType \<leftarrow> rd sec (d + adv + 2 + unat upidLen);
              segmentNum \<leftarrow> rd sec (d + adv + 2 + unat upidLen + 1);
              segmentsExpected \<leftarrow> rd sec (d + adv + 2 + unat upidLen + 2);
              let ident = word_of_int (be_bytes eventId);
              let po = po_zero\<lparr>poDuration := duration, poType := segType, po_eventId := ident, po_typeId := segType, po_segmentNum := segmentNum,
                               po_segmentsExpected := segmentsExpected\<rparr>;
              (valid, po) \<leftarrow> (if upidType = 13 then mid_loop sec segType (d + adv) 0 (unat upidLen) False po
                             else adi_upid sec segType (d + adv) (unat upidLen) po);
              let (emitted, S) = emit_trigger E cmd ident spliceTime valid po S;
              Some (adv + (2 + unat upidLen + 3), emitted, move_in_point E segType spliceTime S) } } }"

text \<open>\<open>triggerEmitted\<close> is set and never cleared.\<close>

function descriptors ::
  "rbi_env \<Rightarrow> byte list \<Rightarrow> byte \<Rightarrow> nat \<Rightarrow> nat \<Rightarrow> int \<Rightarrow> bool \<Rightarrow> RBIStreamProcessor \<Rightarrow> (bool \<times> RBIStreamProcessor) option" where
  "descriptors E sec cmd d dend spliceTime emitted S =
     (if d < dend then
        do { t \<leftarrow> rd sec d; len \<leftarrow> rd sec (d + 1);
             (adv, e, S) \<leftarrow> (if t = 0x02 then segmentation E sec cmd d spliceTime S else Some (0, False, S));
             descriptors E sec cmd (d + adv + (2 + unat len)) dend spliceTime (emitted \<or> e) S }
      else Some (emitted, S))"
  by pat_completeness auto
termination
  by (relation "measure (\<lambda>(_, _, _, d, e, _, _, _). e - d)") auto

declare descriptors.simps [simp del]

definition processSCTEDescriptors ::
  "rbi_env \<Rightarrow> byte list \<Rightarrow> byte \<Rightarrow> nat \<Rightarrow> int \<Rightarrow> RBIStreamProcessor \<Rightarrow> (bool \<times> RBIStreamProcessor) option" where
  "processSCTEDescriptors E sec cmd d spliceTime S =
     do { hi \<leftarrow> rd sec d; lo \<leftarrow> rd sec (d + 1); descriptors E sec cmd (d + 2) (d + (unat hi * 256 + unat lo)) spliceTime False S }"

section \<open>The section\<close>

text \<open>The section in base64, with a zero behind it; without memory the message stays as it was.\<close>

definition encode_section :: "rbi_env \<Rightarrow> byte list \<Rightarrow> nat \<Rightarrow> RBIStreamProcessor \<Rightarrow> RBIStreamProcessor option" where
  "encode_section E sec sectionLength S =
     (let n = sectionLength + 3 in
      if calloc_ok E (n + 1) then
        do { info \<leftarrow> rd_seq sec 1 n;
             let bytesReq = b64_encoded_size n;
             if calloc_ok E (bytesReq + 1) then
               do { msg \<leftarrow> base64_encode (info @ [0]) 0 n (replicate (bytesReq + 1) 0) 0;
                    msg \<leftarrow> wr msg bytesReq 0;
                    Some (S\<lparr>m_TimeSignalbase64Msg := Some msg\<rparr>) }
             else Some S }
      else Some S)"

definition time_signal :: "rbi_env \<Rightarrow> byte list \<Rightarrow> nat \<Rightarrow> nat \<Rightarrow> int \<Rightarrow> RBIStreamProcessor \<Rightarrow> RBIStreamProcessor option" where
  "time_signal E sec sectionLength spliceCmdLength ptsAdjustment S =
     do { b \<leftarrow> rd sec 15;
          (inferred, spliceTime) \<leftarrow>
            (if b AND 0x80 \<noteq> 0 then
               do { r \<leftarrow> rd_seq sec 16 4; Some (1 + 4, (be_bytes ((b AND 1) # r) + ptsAdjustment) AND MAX_90K) }
             else Some (1, 0));
          if spliceTime \<noteq> 0 then
            do { S \<leftarrow> encode_section E sec sectionLength S;
                 (_, S) \<leftarrow> processSCTEDescriptors E sec 0x06 (15 + (if spliceCmdLength = 0xFFF then inferred else spliceCmdLength)) spliceTime S;
                 Some S }
          else Some S }"

definition processSCTE35Section :: "rbi_env \<Rightarrow> byte list \<Rightarrow> nat \<Rightarrow> RBIStreamProcessor \<Rightarrow> RBIStreamProcessor option" where
  "processSCTE35Section E sec sectionLength S =
     do { b5 \<leftarrow> rd sec 5;
          if b5 AND 0x80 = 0 then
            do { r \<leftarrow> rd_seq sec 6 4; b12 \<leftarrow> rd sec 12; b13 \<leftarrow> rd sec 13; spliceCmd \<leftarrow> rd sec 14;
                 if spliceCmd = 0x06
                 then time_signal E sec sectionLength (unat (b12 AND 0x0F) * 256 + unat b13) (be_bytes ((b5 AND 1) # r)) S
                 else Some S }
          else Some S }"

section \<open>Lists of identifiers\<close>

definition elem_bytes :: "byte \<times> byte list \<Rightarrow> byte list" where
  "elem_bytes e = fst e # word_of_nat (length (snd e)) # snd e"

lemma elem_bytes_eq: "elem_bytes (t, xs) = t # word_of_nat (length xs) # xs"
  by (simp add: elem_bytes_def)

lemma mid_step:
  assumes "holds_at sec (d + 2 + moff) (elem_bytes (t, xs))" "length xs < 256" "moff < upidLen"
  shows "mid_loop sec segType d moff upidLen valid po =
     (case known_upid segType t xs valid po of (used, valid, po) \<Rightarrow>
        do { po \<leftarrow> (if used then Some po else other_upid t xs po); mid_loop sec segType d (moff + (length xs + 2)) upidLen valid po })"
proof -
  have r: "rd sec (d + 2 + moff) = Some t" "rd sec (d + 3 + moff) = Some (word_of_nat (length xs))" "holds_at sec (d + 2 + 2 + moff) xs"
    using assms(1) by (simp_all add: elem_bytes_eq add.commute[of _ moff] add.left_commute[of _ moff] eval_nat_numeral)
  have u: "unat (word_of_nat (length xs) :: byte) = length xs" using assms(2) by (simp add: unat_of_nat)
  have l: "length xs \<le> RBI_MAX_DATA" using assms(2) by simp
  show ?thesis using assms(3)
    by (subst mid_loop.simps) (simp only: if_True r(1,2) bind.bind_lunit u l rd_seq_holds[OF r(3)] Let_def split: prod.split, simp add: bind_assoc)
qed

lemma mid_loop_others:
  assumes "holds_at sec (d + 2 + moff) (concat (map elem_bytes es))" "list_all (\<lambda>e. length (snd e) < 256 \<and> fst e \<notin> {8, 9, 0xF}) es"
    and "length (po_segments po) \<le> 10"
  shows "mid_loop sec segType d moff (moff + length (concat (map elem_bytes es))) valid po =
     (if length (po_segments po) + length es \<le> 10
      then Some (valid, po\<lparr>po_segments := po_segments po @ map (\<lambda>e. \<lparr>upid_type = fst e, upid_hex = take RBI_MAX_DATA (hex (snd e))\<rparr>) es\<rparr>)
      else None)"
  using assms
proof (induction es arbitrary: moff po)
  case Nil
  then show ?case by (subst mid_loop.simps) simp
next
  case (Cons e es)
  obtain t xs where e: "e = (t, xs)" by fastforce
  let ?len = "moff + length (concat (map elem_bytes (e # es)))"
  have h: "holds_at sec (d + 2 + moff) (elem_bytes (t, xs))" "length xs < 256" "moff < ?len" "t \<notin> {8, 9, 0xF}"
    using Cons.prems(1,2) by (simp_all add: e elem_bytes_eq)
  have k: "known_upid segType t xs valid po = (False, valid, po)" using h(4) by (simp add: known_upid_def Let_def)
  have n: "?len = moff + (length xs + 2) + length (concat (map elem_bytes es))" by (simp add: e elem_bytes_eq)
  have r: "holds_at sec (d + 2 + (moff + (length xs + 2))) (concat (map elem_bytes es))"
    using Cons.prems(1) by (simp add: e elem_bytes_eq add.assoc)
  show ?case
  proof (cases "length (po_segments po) < 10")
    case True
    let ?po = "po\<lparr>po_segments := po_segments po @ [\<lparr>upid_type = t, upid_hex = take RBI_MAX_DATA (hex xs)\<rparr>]\<rparr>"
    have "other_upid t xs po = Some ?po" using True h(4) by (simp add: other_upid_def Let_def)
    then have "mid_loop sec segType d moff ?len valid po = mid_loop sec segType d (moff + (length xs + 2)) ?len valid ?po"
      using mid_step[OF h(1-3), of segType valid po] k by simp
    with Cons.IH[OF r, of ?po] Cons.prems(2) True show ?thesis unfolding n by (simp add: e)
  next
    case False
    then have "other_upid t xs po = None" using h(4) by (simp add: other_upid_def Let_def)
    with mid_step[OF h(1-3), of segType valid po] k False show ?thesis by simp
  qed
qed

text \<open>C36. A list of identifiers of types the code has no use for: up to ten are kept, in their order and in hexadecimal; with an eleventh the code writes
  behind the array of segments.\<close>

theorem mid_segments:
  assumes "holds_at sec (d + 2) (concat (map elem_bytes es))" "list_all (\<lambda>e. length (snd e) < 256 \<and> fst e \<notin> {8, 9, 0xF}) es"
  shows "mid_loop sec segType d 0 (length (concat (map elem_bytes es))) valid po_zero =
     (if length es \<le> 10
      then Some (valid, po_zero\<lparr>po_segments := map (\<lambda>e. \<lparr>upid_type = fst e, upid_hex = take RBI_MAX_DATA (hex (snd e))\<rparr>) es\<rparr>) else None)"
  using mid_loop_others[of sec d 0 es po_zero segType valid] assms by (simp add: po_zero_def)

theorem mid_segments_witness: "mid_loop ([13, 22] @ concat (replicate 11 [1, 0])) 0x36 0 0 22 False po_zero = None"
proof -
  let ?es = "replicate 11 (1 :: byte, [] :: byte list)"
  have "holds_at ([13, 22] @ concat (replicate 11 [1, 0])) (0 + 2) (concat (map elem_bytes ?es))" "length (concat (map elem_bytes ?es)) = 22"
    "list_all (\<lambda>e. length (snd e) < 256 \<and> fst e \<notin> {8, 9, 0xF}) ?es" "\<not> length ?es \<le> 10"
    by code_simp+
  then show ?thesis using mid_segments[of "[13, 22] @ concat (replicate 11 [1, 0])" 0 ?es "0x36" False] by (simp only: if_False)
qed

text \<open>C37. A segmentation descriptor moves the offset itself, and then the loop moves it by the length once more. Whatever stands in the loop behind a
  segmentation descriptor, within the length of that descriptor, is therefore never looked at, in particular a second segmentation descriptor as
  long as the first.\<close>

theorem next_descriptor_skipped:
  assumes "d < dend" "rd sec d = Some 0x02" "rd sec (d + 1) = Some len"
    and "segmentation E sec cmd d spliceTime S = Some (2 + unat len, e, S')" "dend \<le> d + 2 * (2 + unat len)"
  shows "descriptors E sec cmd d dend spliceTime emitted S = Some (emitted \<or> e, S')"
proof -
  have "descriptors E sec cmd d dend spliceTime emitted S = descriptors E sec cmd (d + (2 + unat len) + (2 + unat len)) dend spliceTime (emitted \<or> e) S'"
    using assms(1-4) by (subst descriptors.simps) simp
  also have "\<dots> = Some (emitted \<or> e, S')" using assms(5) by (subst descriptors.simps) simp
  finally show ?thesis .
qed

section \<open>From a section to a trigger\<close>

lemma encode_section_ok:
  assumes "\<And>n. calloc_ok E n" "sectionLength mod 3 \<noteq> 1" "sectionLength + 4 \<le> length sec"
  shows "encode_section E sec sectionLength S =
     Some (S\<lparr>m_TimeSignalbase64Msg := Some (b64_spec (take (sectionLength + 3) (drop 1 sec)) @ [0])\<rparr>)"
proof -
  define n where "n = sectionLength + 3"
  define info where "info = take n (drop 1 sec)"
  have l: "length info = n" using assms(3) by (simp add: info_def n_def)
  have r: "rd_seq sec 1 n = Some info" using assms(3) by (simp add: rd_seq_in info_def n_def)
  have "n mod 3 = 0 \<or> n mod 3 = 2" using assms(2) by (simp add: n_def) presburger
  then have h: "holds_at (info @ [0]) 0 (info @ replicate ((3 - length info mod 3) mod 3) 0)"
    using l holds_at_self[of info "[0]"] by (auto simp: rd_def nth_append)
  let ?b = "b64_encoded_size n"
  have e: "base64_encode (info @ [0]) 0 n (replicate (?b + 1) 0) 0 = Some (b64_spec info @ [0])"
    using base64_encode_spec[OF h, of 0 "replicate (?b + 1) 0"] unfolding l drop_replicate by simp
  have "length (b64_spec info) = ?b" using length_b64_spec l by simp
  then have "wr (b64_spec info @ [0]) ?b 0 = Some (b64_spec info @ [0])" by (simp add: wr_def list_update_append)
  with e r assms(1) show ?thesis unfolding encode_section_def n_def[symmetric] info_def[symmetric] by simp
qed

text \<open>A segmentation descriptor of a distributor with a duration and a signal identifier.\<close>

lemma segmentation_signal:
  assumes "holds_at sec d ([0x02, dlen] @ ident @ ev @ [cancel, flags] @ dur @ [upidType, word_of_nat (length upid)] @ upid @ [0x36, num, expd])"
    and "length ident = 4" "length ev = 4" "length dur = 5" "length upid < 256"
    and "cancel AND 0x80 = 0" "flags AND 0x80 \<noteq> 0" "flags AND 0x40 \<noteq> 0" "upidType \<noteq> 13" "strstr (c_str upid) (bytes ''SIGNAL:'')"
  shows "segmentation E sec cmd d spliceTime S =
     (case emit_trigger E cmd (word_of_int (be_bytes ev)) spliceTime True
        (po_zero\<lparr>poDuration := be_bytes dur, poType := 0x36, po_eventId := word_of_int (be_bytes ev), po_typeId := 0x36, po_segmentNum := num,
           po_segmentsExpected := expd, signalId := c_str upid\<rparr>) S of
        (e, S) \<Rightarrow> Some (22 + length upid, e, S))"
proof -
  note p = assms(1)[unfolded holds_at_append, simplified assms(2-4)]
  have h: "holds_at sec (d + 2) ident" "holds_at sec (d + 6) ev" "holds_at sec (d + 10) [cancel, flags]" "holds_at sec (d + 12) dur"
      "holds_at sec (d + 17) [upidType, word_of_nat (length upid)]" "holds_at sec (d + 19) upid" "holds_at sec (d + 19 + length upid) [0x36, num, expd]"
    using p by (auto simp: eval_nat_numeral)
  have s: "rd_seq sec (d + 2) 4 = Some ident" "rd_seq sec (d + 6) 4 = Some ev" "rd_seq sec (d + 12) 5 = Some dur" "rd_seq sec (d + 19) (length upid) = Some upid"
    using rd_seq_holds[OF h(1)] rd_seq_holds[OF h(2)] rd_seq_holds[OF h(4)] rd_seq_holds[OF h(6)] assms(2-4) by simp_all
  have r: "rd sec (d + 10) = Some cancel" "rd sec (d + 11) = Some flags" "rd sec (d + 17) = Some upidType" "rd sec (d + 18) = Some (word_of_nat (length upid))"
      "rd sec (d + 19 + length upid) = Some 0x36" "rd sec (d + 20 + length upid) = Some num" "rd sec (d + 21 + length upid) = Some expd"
    using h(3,5,7) by (simp_all add: eval_nat_numeral)
  have u: "unat (word_of_nat (length upid) :: byte) = length upid" using assms(5) by (simp add: unat_of_nat)
  have m: "move_in_point E 0x36 spliceTime S = S" for S by (simp add: move_in_point_def)
  show ?thesis using assms(6-10) s r u m assms(5)
    by (simp add: segmentation_def adi_upid_def distributor_def Let_def ac_simps split: prod.split)
qed

text \<open>C8. A placement opportunity becomes a trigger. For a time signal with a splice time other than 0 and one segmentation descriptor of type 0x36 that
  has a duration and an identifier that contains \<open>SIGNAL:\<close>, when the system time is known and no opportunity is in progress, the listener is told exactly one
  trigger: its PTS is the time of the signal plus the adjustment of the section modulo 2 to the 33, its lead time the distance from the clock, its data the event,
  the duration, the numbers and the identifier of the descriptor; and the section is kept in base64. (A section whose length leaves the remainder 1 modulo 3
  is left out: encoding it reads a byte behind its copy.)\<close>

theorem time_signal_trigger:
  assumes "holds_at sec 5 (([b5] @ adj @ [cw, tier, b12, 5, 0x06] @ [bt] @ pts @ [hi, lo]) @
        [0x02, dlen] @ ident @ ev @ [cancel, flags] @ dur @ [upidType, word_of_nat (length upid)] @ upid @ [0x36, num, expd])"
    and "length adj = 4" "length pts = 4" "length ident = 4" "length ev = 4" "length dur = 5" "length upid < 256"
    and "b5 AND 0x80 = 0" "b12 AND 0x0F = 0" "bt AND 0x80 \<noteq> 0" "cancel AND 0x80 = 0" "flags AND 0x80 \<noteq> 0" "flags AND 0x40 \<noteq> 0" "upidType \<noteq> 13"
    and "unat hi * 256 + unat lo = 2 + unat dlen" "0 < unat dlen" "strstr (c_str upid) (bytes ''SIGNAL:'')"
    and "t = (be_bytes ((bt AND 1) # pts) + be_bytes ((b5 AND 1) # adj)) mod 2 ^ 33" "t \<noteq> 0"
    and "sectionLength mod 3 \<noteq> 1" "sectionLength + 4 \<le> length sec"
    and "\<And>n. calloc_ok E n" "isSTTAcquired E" "m_events S" "\<not> m_triggerDetectedForOpportunity S"
  shows "\<exists>S' trig. processSCTE35Section E sec sectionLength S = Some S' \<and> triggers S' = triggers S @ [trig] \<and>
     trig_splicePTS trig = t \<and> trig_leadTime trig = (if m_currentPCR S = -1 then 0 else (t - m_currentPCR S) mod 2 ^ 33) \<and>
     eventIdInstance trig = word_of_int (be_bytes ev) \<and>
     poData trig = Some (po_zero\<lparr>poDuration := be_bytes dur, poType := 0x36, po_eventId := word_of_int (be_bytes ev), po_typeId := 0x36, po_segmentNum := num,
       po_segmentsExpected := expd, signalId := c_str upid\<rparr>) \<and>
     m_triggerDetectedForOpportunity S' = triggerDetected E trig \<and> m_scanForFrameType S' \<and>
     m_TimeSignalbase64Msg S' = Some (b64_spec (take (sectionLength + 3) (drop 1 sec)) @ [0])"
proof -
  note p = assms(1)[unfolded holds_at_append, simplified assms(2-3)]
  have h: "rd sec 5 = Some b5" "holds_at sec 6 adj" "holds_at sec 10 [cw, tier, b12, 5, 0x06]" "rd sec 15 = Some bt" "holds_at sec 16 pts" "rd sec 20 = Some hi" "rd sec 21 = Some lo"
    using p by (simp_all add: eval_nat_numeral)
  have c: "rd sec 12 = Some b12" "rd sec 13 = Some 5" "rd sec 14 = Some 0x06" using h(3) by (simp_all add: eval_nat_numeral)
  have s: "rd_seq sec 6 4 = Some adj" "rd_seq sec 16 4 = Some pts" using rd_seq_holds[OF h(2)] rd_seq_holds[OF h(5)] assms(2,3) by simp_all
  have d: "holds_at sec 22 ([0x02, dlen] @ ident @ ev @ [cancel, flags] @ dur @ [upidType, word_of_nat (length upid)] @ upid @ [0x36, num, expd])"
    using assms(1) assms(2,3) unfolding holds_at_append[of _ _ "[b5] @ _"] by simp
  define po where "po = po_zero\<lparr>poDuration := be_bytes dur, poType := 0x36, po_eventId := word_of_int (be_bytes ev), po_typeId := 0x36, po_segmentNum := num,
       po_segmentsExpected := expd, signalId := c_str upid\<rparr>"
  define trig where "trig = \<lparr>eventIdInstance = word_of_int (be_bytes ev), trig_splicePTS = t,
     trig_leadTime = (if m_currentPCR S = -1 then 0 else (t - m_currentPCR S) AND MAX_90K), poData = Some po\<rparr>"
  let ?B = "S\<lparr>m_TimeSignalbase64Msg := Some (b64_spec (take (sectionLength + 3) (drop 1 sec)) @ [0])\<rparr>"
  let ?S' = "?B\<lparr>m_scanForFrameType := True, triggers := triggers S @ [trig], m_triggerDetectedForOpportunity := triggerDetected E trig\<rparr>"
  have "emit_trigger E 0x06 (word_of_int (be_bytes ev)) t True po ?B = (True, ?S')"
    using assms(23-25) by (simp add: emit_trigger_def trig_def Let_def)
  then have g: "segmentation E sec 0x06 22 t ?B = Some (22 + length upid, True, ?S')"
    using segmentation_signal[OF d assms(4-7,11-14,17), of E "0x06" t ?B] unfolding po_def[symmetric] by simp
  have "rd sec 22 = Some 0x02" "rd sec 23 = Some dlen" using d by (simp_all add: eval_nat_numeral)
  then have "descriptors E sec 0x06 22 (20 + (2 + unat dlen)) t False ?B = Some (True, ?S')"
    using g assms(16) by (subst descriptors.simps) (simp, subst descriptors.simps, simp)
  then have q: "processSCTEDescriptors E sec 0x06 20 t ?B = Some (True, ?S')"
    using h(6,7) assms(15) by (simp add: processSCTEDescriptors_def)
  have m: "(be_bytes ((bt AND 1) # pts) + be_bytes ((b5 AND 1) # adj)) AND MAX_90K = t"
    unfolding assms(18) by (rule and_MAX_90K)
  have "time_signal E sec sectionLength 5 (be_bytes ((b5 AND 1) # adj)) S = Some ?S'"
    using h(4) s(2) assms(10,19) m encode_section_ok[OF assms(22,20,21)] q unfolding time_signal_def by simp
  then have "processSCTE35Section E sec sectionLength S = Some ?S'"
    using h(1) s(1) c assms(8,9) by (simp add: processSCTE35Section_def)
  then show ?thesis using and_MAX_90K[of "t - m_currentPCR S"] by (intro exI[of _ ?S'] exI[of _ trig]) (simp add: trig_def po_def)
qed

text \<open>An opportunity of 30 seconds with event 7, at PTS 100 with an adjustment of 11; the clock is at 50.\<close>

definition sample_env :: rbi_env where
  "sample_env = \<lparr>calloc_ok = (\<lambda>_. True), isSTTAcquired = True, isProgrammerEnablementEnabled = False, triggerDetected = (\<lambda>_. True), frames = (\<lambda>_. 0)\<rparr>"

definition sample_descriptor :: "byte list" where
  "sample_descriptor = [0x02, 29] @ [67, 85, 69, 73] @ [0, 0, 0, 7] @ [0, 0xE0] @ [0, 0, 0x29, 0x32, 0xE0] @ [9, word_of_nat (length (bytes ''SIGNAL:ab''))] @
     bytes ''SIGNAL:ab'' @ [0x36, 1, 1]"

definition sample_signal :: "byte list" where
  "sample_signal = [0, 0xFC, 0x30, 53, 0] @ ([0] @ [0, 0, 0, 11] @ [0, 0xFF, 0xF0, 5, 0x06] @ [0xFE] @ [0, 0, 0, 100] @ [0, 31]) @ sample_descriptor @ [1, 2, 3, 4]"

lemma sample_signal_holds:
  "holds_at sample_signal 5 (([0] @ [0, 0, 0, 11] @ [0, 0xFF, 0xF0, 5, 0x06] @ [0xFE] @ [0, 0, 0, 100] @ [0, 31]) @ sample_descriptor)"
proof -
  have m: "holds_at (zs @ xs @ ys) (length zs) xs" for zs xs ys :: "byte list" using holds_at_shift[of zs "xs @ ys" 0 xs] by simp
  let ?head = "[0] @ [0, 0, 0, 11] @ [0, 0xFF, 0xF0, 5, 0x06] @ [0xFE] @ [0, 0, 0, 100] @ [0, 31 :: byte]"
  have "length [0, 0xFC, 0x30, 53, 0 :: byte] = 5" by simp
  with m[of "[0, 0xFC, 0x30, 53, 0]" "?head @ sample_descriptor" "[1, 2, 3, 4]"] show ?thesis unfolding sample_signal_def by (simp only: append_assoc)
qed

lemma sample_signal_text: "length (bytes ''SIGNAL:ab'') = 9" "strstr (c_str (bytes ''SIGNAL:ab'')) (bytes ''SIGNAL:'')"
  by code_simp+

theorem time_signal_trigger_witness:
  "\<exists>S' trig. processSCTE35Section sample_env sample_signal 53 ((RBIStreamProcessor_new True)\<lparr>m_events := True, m_currentPCR := 50\<rparr>) = Some S' \<and>
     triggers S' = [trig] \<and> trig_splicePTS trig = 111 \<and> trig_leadTime trig = 61 \<and> eventIdInstance trig = 7"
proof -
  let ?S = "(RBIStreamProcessor_new True)\<lparr>m_events := True, m_currentPCR := 50\<rparr>"
  have "\<exists>S' trig. processSCTE35Section sample_env sample_signal 53 ?S = Some S' \<and> triggers S' = triggers ?S @ [trig] \<and>
     trig_splicePTS trig = 111 \<and> trig_leadTime trig = (if m_currentPCR ?S = -1 then 0 else (111 - m_currentPCR ?S) mod 2 ^ 33) \<and>
     eventIdInstance trig = word_of_int (be_bytes [0, 0, 0, 7]) \<and>
     poData trig = Some (po_zero\<lparr>poDuration := be_bytes [0, 0, 0x29, 0x32, 0xE0], poType := 0x36, po_eventId := word_of_int (be_bytes [0, 0, 0, 7]),
       po_typeId := 0x36, po_segmentNum := 1, po_segmentsExpected := 1, signalId := c_str (bytes ''SIGNAL:ab'')\<rparr>) \<and>
     m_triggerDetectedForOpportunity S' = triggerDetected sample_env trig \<and> m_scanForFrameType S' \<and>
     m_TimeSignalbase64Msg S' = Some (b64_spec (take (53 + 3) (drop 1 sample_signal)) @ [0])"
    by (rule time_signal_trigger[OF sample_signal_holds[unfolded sample_descriptor_def]])
       (simp_all add: sample_signal_text sample_env_def RBIStreamProcessor_new_def be_bytes_def sample_signal_def sample_descriptor_def)
  then show ?thesis by (auto simp: RBIStreamProcessor_new_def be_bytes_def)
qed

theorem next_descriptor_skipped_witness:
  "\<exists>S'. descriptors sample_env (sample_descriptor @ sample_descriptor) 0x06 0 62 111 False ((RBIStreamProcessor_new True)\<lparr>m_events := True\<rparr>) = Some (True, S') \<and>
     length (triggers S') = 1"
proof -
  let ?S = "(RBIStreamProcessor_new True)\<lparr>m_events := True\<rparr>" and ?sec = "sample_descriptor @ sample_descriptor"
  have h: "holds_at ?sec 0 ([0x02, 29] @ [67, 85, 69, 73] @ [0, 0, 0, 7] @ [0, 0xE0] @ [0, 0, 0x29, 0x32, 0xE0] @ [9, word_of_nat (length (bytes ''SIGNAL:ab''))] @
     bytes ''SIGNAL:ab'' @ [0x36, 1, 1])"
    using holds_at_self[of sample_descriptor] unfolding sample_descriptor_def .
  obtain S' where "segmentation sample_env ?sec 0x06 0 111 ?S = Some (31, True, S')" "length (triggers S') = 1"
    using segmentation_signal[OF h, of sample_env "0x06" 111 ?S] sample_signal_text
    by (auto simp: emit_trigger_def sample_env_def RBIStreamProcessor_new_def Let_def)
  moreover have "rd ?sec 0 = Some 0x02" "rd ?sec 1 = Some 29" using h by simp_all
  ultimately have "descriptors sample_env ?sec 0x06 0 62 111 False ?S = Some (False \<or> True, S')"
    by (intro next_descriptor_skipped[where len = 29]) simp_all
  with \<open>length (triggers S') = 1\<close> show ?thesis by simp
qed

end
