(* ===== verification/RbiMap.thy ===== *)
theory RbiMap
  imports RbiState
begin

text \<open>
  Starting and stopping an insertion: \<open>startInsertion\<close> and \<open>stopInsertion\<close> of \<open>rbi/rbi.cpp\<close>. The streams of the inserted content are mapped onto the
  PIDs of the network program.

  \<^item> The record extends the stream processor by the fields of an insertion. The tables of a \<open>RBIPidMap\<close> are functions of a PID; 0 in \<open>m_pidMap\<close> is no
    mapping. \<open>m_pat\<close> and \<open>m_pmt_packets\<close> are the packets of the tables, the latter up to \<open>m_packetWriteOffset\<close>,
    so that their number is \<open>m_replacementPMTLength\<close>.
  \<^item> Two languages are strings of two processors, so that their addresses differ.
  \<^item> \<open>now\<close> is the clock and \<open>frames\<close> the rounded product of a time and the frame rate; they are parameters. \<open>status\<close> and \<open>stopped\<close> collect what
    the listener is told.
\<close>

section \<open>State\<close>

record RBIPidMap =
  m_pidMap :: "nat \<Rightarrow> nat"
  m_needPayloadStart :: "nat \<Rightarrow> bool"
  m_pidIsMapped :: "nat \<Rightarrow> bool"
  map_pmtPid :: int
  m_replacementPAT :: "byte list"
  m_replacementPMT :: "byte list"
  m_psiInsertionIncomplete :: bool

record RBIInsertion = RBIStreamProcessor +
  m_havePAT :: bool
  m_havePMT :: bool
  m_pmtPid :: int
  m_pat :: "byte list"
  m_pmt_packets :: "byte list"
  m_map :: "RBIPidMap option"
  m_frameDetectEnable :: bool
  m_mapping :: bool
  m_mapStartPending :: bool
  m_mapStartArmed :: bool
  m_mapEndPending :: bool
  m_mapEnding :: bool
  m_mapEndingNeedVideoEOF :: bool
  m_randomAccess :: bool
  m_backToBack :: bool
  m_backToBackPrev :: bool
  m_spliceOffset :: int
  m_mapSpliceOutPTS :: int
  m_mapSpliceOutAbortPTS :: int
  m_mapSpliceInAbortPTS :: int
  m_mapSpliceInAbort2PTS :: int
  m_mapSpliceUpdatedOutPTS :: int
  m_currentAudioPTS :: int
  m_currentAdAudioPTS :: int
  m_sample1PCR :: int
  m_sample1PCROffset :: int
  m_sample2PCR :: int
  m_sample2PCROffset :: int
  m_insertStartTime :: int
  m_lastInsertBufferTime :: int
  m_insertByteCount :: int
  m_insertByteCountError :: int
  m_minInsertBitRateOut :: int
  m_maxInsertBitRateOut :: int
  m_transitioningToAd :: bool
  m_transitioningToNetwork :: bool
  m_maxAdVideoFrameCountReached :: bool
  m_maxAdAudioFrameCountReached :: bool
  m_lastAdVideoFrameDetected :: bool
  m_determineNetAC3FrameSizeDuration :: bool
  m_determineAdAC3FrameSizeDuration :: bool
  m_adPktsAccelerationEnable :: bool
  m_adAccelerationState :: bool
  m_audioReplicationEnabled :: bool
  m_replicatingAudio :: bool
  m_replicateAudioSrcPid :: int
  m_replicateAudioStreamType :: byte
  m_replicateAudioTargetPids :: "nat list"
  status :: "nat list"
  stopped :: nat

abbreviation (input) MAX_AUDIO_PID_COUNT :: nat where "MAX_AUDIO_PID_COUNT \<equiv> 3"

section \<open>Mapping of streams\<close>

text \<open>Video by the order of the tables; a stream of the insertion without a partner is an access behind the array of the network's components.\<close>

definition same_video :: "byte \<Rightarrow> byte \<Rightarrow> bool" where
  "same_video s t \<longleftrightarrow> s = t \<or> (t = 0x02 \<or> t = 0x80) \<and> (s = 0x02 \<or> s = 0x80)"

fun map_video :: "RBIStreamComponent list \<Rightarrow> RBIStreamComponent list \<Rightarrow> nat \<Rightarrow> RBIPidMap \<Rightarrow> (bool \<times> nat \<times> RBIPidMap) option" where
  "map_video [] net n m = Some (True, n, m)"
| "map_video (i # ins) [] n m = None"
| "map_video (i # ins) (v # net) n m =
     (if same_video (sc_streamType i) (sc_streamType v)
      then map_video ins net (n + 1) (m\<lparr>m_pidMap := (m_pidMap m)(sc_pid i := sc_pid v)\<rparr>)
      else Some (False, n, m))"

definition strncmp3 :: "byte list \<Rightarrow> byte list \<Rightarrow> bool" where
  "strncmp3 s t \<longleftrightarrow> take 3 s = take 3 t"

abbreviation (input) und :: "byte list" where "und \<equiv> [117, 110, 100]"

definition by_language :: "RBIStreamComponent \<Rightarrow> byte list \<Rightarrow> RBIStreamComponent \<Rightarrow> RBIPidMap \<Rightarrow> bool" where
  "by_language i lang a m \<longleftrightarrow> m_pidMap m (sc_pid i) = 0 \<and> sc_streamType a = sc_streamType i \<and>
     (case sc_associatedLanguage a of None \<Rightarrow> False | Some l \<Rightarrow> strncmp3 lang l \<or> strncmp3 lang und \<or> strncmp3 l und)"

text \<open>The second condition: the network's language is null, or the addresses of the two languages differ, which they do.\<close>

definition otherwise :: "RBIStreamComponent \<Rightarrow> RBIStreamComponent \<Rightarrow> RBIPidMap \<Rightarrow> bool" where
  "otherwise i a m \<longleftrightarrow> m_pidMap m (sc_pid i) = 0 \<and> sc_streamType a = sc_streamType i \<and> (sc_associatedLanguage a = None \<or> True)"

definition put_map :: "RBIStreamComponent \<Rightarrow> RBIStreamComponent \<Rightarrow> RBIPidMap \<Rightarrow> RBIPidMap" where
  "put_map i a m = m\<lparr>m_pidMap := (m_pidMap m)(sc_pid i := sc_pid a), m_needPayloadStart := (m_needPayloadStart m)(sc_pid i := True),
     m_pidIsMapped := (m_pidIsMapped m)(sc_pid a := True)\<rparr>"

fun audio_scan :: "RBIStreamComponent \<Rightarrow> byte list \<Rightarrow> RBIStreamComponent list \<Rightarrow> nat \<Rightarrow> RBIPidMap \<Rightarrow> nat \<times> RBIPidMap" where
  "audio_scan i lang [] n m = (n, m)"
| "audio_scan i lang (a # net) n m =
     (if m_pidIsMapped m (sc_pid a) then audio_scan i lang net n m
      else if by_language i lang a m then (n + 1, put_map i a m)
      else if otherwise i a m then (n + 1, put_map i a m)
      else audio_scan i lang net n m)"

fun map_audio :: "RBIStreamComponent list \<Rightarrow> RBIStreamComponent list \<Rightarrow> nat \<Rightarrow> RBIPidMap \<Rightarrow> nat \<times> RBIPidMap" where
  "map_audio [] net n m = (n, m)"
| "map_audio (i # ins) net n m =
     (case sc_associatedLanguage i of
        None \<Rightarrow> map_audio ins net n m
      | Some lang \<Rightarrow> (case audio_scan i lang net n m of (n, m) \<Rightarrow> map_audio ins net n m))"

text \<open>Replication of one stream of the insertion onto network PIDs that have no partner.\<close>

definition choose_source :: "RBIStreamComponent list \<Rightarrow> RBIStreamComponent \<Rightarrow> RBIInsertion \<Rightarrow> RBIInsertion" where
  "choose_source ins a S =
     (if m_replicateAudioSrcPid S = -1 then
        case find (\<lambda>i. sc_streamType a = sc_streamType i) ins of
          None \<Rightarrow> S
        | Some i \<Rightarrow> S\<lparr>m_replicateAudioSrcPid := int (sc_pid i), m_replicateAudioStreamType := sc_streamType i\<rparr>
      else S)"

fun replicate_audio :: "RBIStreamComponent list \<Rightarrow> RBIStreamComponent list \<Rightarrow> RBIPidMap \<Rightarrow> nat \<Rightarrow> RBIInsertion \<Rightarrow> nat \<times> RBIInsertion" where
  "replicate_audio ins [] m n S = (n, S)"
| "replicate_audio ins (a # net) m n S =
     (if list_ex (\<lambda>i. m_pidMap m (sc_pid i) = sc_pid a) ins then replicate_audio ins net m n S
      else let S = choose_source ins a S in
        if m_replicateAudioSrcPid S \<noteq> -1 \<and> sc_streamType a = m_replicateAudioStreamType S \<and> n < MAX_AUDIO_PID_COUNT
        then replicate_audio ins net m (n + 1) (S\<lparr>m_replicateAudioTargetPids := m_replicateAudioTargetPids S @ [sc_pid a]\<rparr>)
        else replicate_audio ins net m n S)"

text \<open>Mapping by the order of the tables. The search compares the entry of the map at the number of streams, whatever l; it ends at once, or behind the last
  stream, where the element behind the array is read.\<close>

fun order_scan :: "nat \<Rightarrow> RBIPidMap \<Rightarrow> RBIStreamComponent list \<Rightarrow> RBIStreamComponent list option" where
  "order_scan count m [] = Some []"
| "order_scan count m (a # net) = (if m_pidMap m count = sc_pid a then order_scan count m net else None)"

fun order_map :: "nat \<Rightarrow> RBIPidMap \<Rightarrow> RBIStreamComponent list \<Rightarrow> RBIStreamComponent list \<Rightarrow> unit option" where
  "order_map count m [] net = Some ()"
| "order_map count m (i # ins) net =
     (if m_pidMap m (sc_pid i) = 0 then do { net \<leftarrow> order_scan count m net; order_map count m ins net } else order_map count m ins net)"

definition rest_audio :: "RBIStreamComponent list \<Rightarrow> RBIStreamComponent list \<Rightarrow> RBIPidMap \<Rightarrow> nat \<Rightarrow> RBIInsertion \<Rightarrow> (nat \<times> RBIInsertion) option" where
  "rest_audio ins net m n S =
     (if n < length net \<and> n < MAX_AUDIO_PID_COUNT then
        if m_audioReplicationEnabled S then Some (replicate_audio ins net m n S)
        else if int (length net) - int n < int (length ins) - int n then do { _ \<leftarrow> order_map (length ins) m ins net; Some (n, S) }
        else Some (n, S)
      else Some (n, S))"

section \<open>Starting\<close>

definition comps :: "RBIStreamComponent list option \<Rightarrow> RBIStreamComponent list" where
  "comps c = (case c of None \<Rightarrow> [] | Some cs \<Rightarrow> cs)"

definition begin_spot :: "int \<Rightarrow> (int \<Rightarrow> 32 word) \<Rightarrow> int \<Rightarrow> int \<Rightarrow> int \<Rightarrow> int \<Rightarrow> RBIInsertion \<Rightarrow> RBIInsertion" where
  "begin_spot now frames startPTS endPTS outPTS outAbort S =
     S\<lparr>m_frameDetectEnable := True, m_mapStartPending := True, m_mapStartArmed := False, m_mapEndPending := False, m_mapEnding := False,
       m_mapEndingNeedVideoEOF := False, m_randomAccess := False, m_mapEditGOP := False, m_mapping := False, m_haveBaseTime := False,
       m_mapSpliceOutPTS := outPTS, m_mapSpliceInPTS := endPTS, m_mapSpliceOutAbortPTS := outAbort,
       m_mapSpliceInAbortPTS := (endPTS + 90000) AND MAX_90K, m_mapSpliceInAbort2PTS := (endPTS + 135000) AND MAX_90K,
       m_insertByteCount := 0, m_insertByteCountError := 0, m_minInsertBitRateOut := 0, m_maxInsertBitRateOut := 0, m_insertStartTime := now,
       m_lastInsertBufferTime := -1, m_mapStartPTS := -1, m_sample1PCR := -1, m_sample1PCROffset := 0, m_sample2PCR := -1, m_sample2PCROffset := 0,
       m_mapSpliceUpdatedOutPTS := -1, m_netReplaceableVideoFramesCnt := frames (endPTS - startPTS), m_transitioningToAd := False,
       m_transitioningToNetwork := False, m_currentAdAudioPTS := 0, m_lastAdPCR := -1, m_determineNetAC3FrameSizeDuration := True,
       m_determineAdAC3FrameSizeDuration := True\<rparr>"

definition replace_spot :: "int \<Rightarrow> (int \<Rightarrow> 32 word) \<Rightarrow> int \<Rightarrow> int \<Rightarrow> int \<times> int \<Rightarrow> RBIPidMap \<Rightarrow> RBIInsertion \<Rightarrow> RBIInsertion" where
  "replace_spot now frames startPTS endPTS src m S =
     (let S = begin_spot now frames startPTS endPTS ((startPTS + m_spliceOffset S * 90) AND MAX_90K) ((startPTS + 90000) AND MAX_90K)
                (S\<lparr>m_map := Some m, m_insertSrc := Some src\<rparr>);
          S = S\<lparr>m_adVideoFrameCount := 0, m_lastAdVideoFramePTS := -1, m_maxAdVideoFrameCountReached := False,
                m_maxAdAudioFrameCountReached := False, m_lastAdVideoFrameDetected := False, m_haveSegmentBasePCRAfterTransitionToAd := False,
                m_removeNull_PSIPackets := False\<rparr>
      in if \<not> m_backToBackPrev S then S\<lparr>m_lastMappedPCRTTSValue := -1, m_mapStartPCR := -1\<rparr> else S)"

definition incompatible :: "RBIInsertion \<Rightarrow> RBIInsertion \<Rightarrow> bool" where
  "incompatible I S \<longleftrightarrow> m_videoComponentCount I > 0 \<and> m_videoComponentCount S = 0 \<or> m_videoComponentCount S > 0 \<and> m_videoComponentCount I = 0 \<or>
     m_audioComponentCount I > 0 \<and> m_audioComponentCount S = 0 \<or> m_audioComponentCount S > 0 \<and> m_audioComponentCount I = 0"

text \<open>The inserted source is its first PTS and PCR and its stream processor I. The result is whether the insertion starts, and the state.\<close>

definition startInsertion ::
  "int \<Rightarrow> (int \<Rightarrow> 32 word) \<Rightarrow> ((int \<times> int) \<times> RBIInsertion) option \<Rightarrow> int \<Rightarrow> int \<Rightarrow> RBIInsertion \<Rightarrow> (bool \<times> RBIInsertion) option" where
  "startInsertion now frames spot startPTS endPTS S =
     (case spot of
        None \<Rightarrow>
          Some (True, (begin_spot now frames startPTS endPTS startPTS ((startPTS + 90000) AND MAX_90K) (S\<lparr>m_map := None, m_insertSrc := None\<rparr>))
                        \<lparr>m_mapStartPCR := -1, m_lastMappedPCRTTSValue := -1\<rparr>)
      | Some (src, I) \<Rightarrow>
          if incompatible I S then Some (False, S)
          else if m_havePAT S \<and> m_havePMT S \<and> m_havePAT I \<and> m_havePMT I then
            do { pat \<leftarrow> rd_seq (m_pat S) 0 (m_packetSize S);
                 let m = \<lparr>m_pidMap = (\<lambda>_. 0), m_needPayloadStart = (\<lambda>_. False), m_pidIsMapped = (\<lambda>_. False), map_pmtPid = m_pmtPid I,
                          m_replacementPAT = pat, m_replacementPMT = m_pmt_packets S, m_psiInsertionIncomplete = False\<rparr>;
                 (result, _, m) \<leftarrow> map_video (comps (m_videoComponents I)) (comps (m_videoComponents S)) 0 m;
                 if \<not> result then Some (False, S)
                 else do {
                   let (n, m) = map_audio (comps (m_audioComponents I)) (comps (m_audioComponents S)) 0 m;
                   (n, S) \<leftarrow> rest_audio (comps (m_audioComponents I)) (comps (m_audioComponents S)) m n S;
                   let S = (if n = 0 \<and> m_events S then S\<lparr>status := status S @ [13]\<rparr> else S);
                   Some (True, replace_spot now frames startPTS endPTS src m S) } }
          else Some (False, S))"

section \<open>Stopping\<close>

definition stopInsertion :: "RBIInsertion \<Rightarrow> RBIInsertion" where
  "stopInsertion S =
     (let S = S\<lparr>m_mapping := False, m_mapStartPending := False, m_mapStartArmed := False, m_mapEndPending := False, m_randomAccess := False,
                m_mapEditGOP := False, m_frameDetectEnable := False, m_haveBaseTime := False, m_mapStartPTS := -1, m_mapStartPCR := -1,
                m_sample1PCR := -1, m_sample1PCROffset := 0, m_sample2PCR := -1, m_sample2PCROffset := 0, m_currentAudioPTS := -1,
                m_backToBackPrev := m_backToBack S, m_replicatingAudio := False, m_replicateAudioSrcPid := -1, m_replicateAudioTargetPids := [],
                m_adVideoFrameCount := 0, m_transitioningToAd := False, m_transitioningToNetwork := False, m_adVideoPktsDelayed := False,
                m_adVideoPktsTooFast := False, m_adAudioPktsDelayed := False, m_adPktsAccelerationEnable := False, m_adAccelerationState := False,
                m_currentAdAudioPTS := 0, m_lastAdPCR := -1, m_removeNull_PSIPackets := False, m_haveSegmentBasePCRAfterTransitionToAd := False,
                m_determineNetAC3FrameSizeDuration := True, m_determineAdAC3FrameSizeDuration := True\<rparr>;
          S = (if \<not> m_backToBack S then S\<lparr>m_ttsInsert := 0xFFFFFFFF\<rparr> else S);
          S = S\<lparr>m_map := None\<rparr>
      in if m_events S then S\<lparr>stopped := stopped S + 1\<rparr> else S)"

section \<open>The mapping of audio\<close>

text \<open>The scan takes the first free stream of the same type.\<close>

definition free_for :: "RBIStreamComponent \<Rightarrow> RBIPidMap \<Rightarrow> RBIStreamComponent \<Rightarrow> bool" where
  "free_for i m a \<longleftrightarrow> \<not> m_pidIsMapped m (sc_pid a) \<and> m_pidMap m (sc_pid i) = 0 \<and> sc_streamType a = sc_streamType i"

lemma audio_scan_find:
  "audio_scan i lang net n m = (case find (free_for i m) net of None \<Rightarrow> (n, m) | Some a \<Rightarrow> (n + 1, put_map i a m))"
  by (induction net) (auto simp: free_for_def by_language_def otherwise_def)

lemma find_map: "find P (map f xs) = map_option f (find (P \<circ> f) xs)"
  by (induction xs) auto

lemma audio_scan_languages:
  "audio_scan i lang (map (\<lambda>a. a\<lparr>sc_associatedLanguage := g a\<rparr>) net) n m = audio_scan i lang' net n m"
proof -
  have "free_for i m \<circ> (\<lambda>a. a\<lparr>sc_associatedLanguage := g a\<rparr>) = free_for i m" by (auto simp: free_for_def)
  then show ?thesis by (auto simp: audio_scan_find find_map put_map_def split: option.splits)
qed

lemma map_audio_languages: "map_audio ins (map (\<lambda>a. a\<lparr>sc_associatedLanguage := g a\<rparr>) net) n m = map_audio ins net n m"
proof (induction ins arbitrary: n m)
  case (Cons i ins)
  then show ?case
    by (cases "sc_associatedLanguage i") (auto simp: audio_scan_languages[of i _ g net n m "the (sc_associatedLanguage i)"] split: prod.split)
qed simp

text \<open>A mapping that is sound: mapped streams have the type of their partner, which is marked, and no two share a partner.\<close>

definition sound :: "RBIStreamComponent list \<Rightarrow> RBIStreamComponent list \<Rightarrow> RBIPidMap \<Rightarrow> bool" where
  "sound ins net m \<longleftrightarrow>
     (\<forall>i \<in> set ins. m_pidMap m (sc_pid i) \<noteq> 0 \<longrightarrow>
        (\<exists>a \<in> set net. sc_pid a = m_pidMap m (sc_pid i) \<and> sc_streamType a = sc_streamType i \<and> m_pidIsMapped m (sc_pid a))) \<and>
     (\<forall>i \<in> set ins. \<forall>j \<in> set ins. m_pidMap m (sc_pid i) = m_pidMap m (sc_pid j) \<and> m_pidMap m (sc_pid i) \<noteq> 0 \<longrightarrow> i = j)"

lemma put_map_sound:
  assumes "sound ins net m" "distinct (map sc_pid ins)" "i \<in> set ins" "a \<in> set net" "free_for i m a"
  shows "sound ins net (put_map i a m)"
proof -
  have inj: "j = i" if "j \<in> set ins" "sc_pid j = sc_pid i" for j using that assms(2,3) by (auto simp: distinct_map dest: inj_onD)
  have other: "m_pidMap m (sc_pid j) \<noteq> sc_pid a" if "j \<in> set ins" "m_pidMap m (sc_pid j) \<noteq> 0" for j
    using assms(1,5) that by (fastforce simp: sound_def free_for_def)
  show ?thesis unfolding sound_def
  proof (intro conjI ballI impI)
    fix j assume j: "j \<in> set ins" "m_pidMap (put_map i a m) (sc_pid j) \<noteq> 0"
    show "\<exists>b \<in> set net. sc_pid b = m_pidMap (put_map i a m) (sc_pid j) \<and> sc_streamType b = sc_streamType j \<and> m_pidIsMapped (put_map i a m) (sc_pid b)"
    proof (cases "sc_pid j = sc_pid i")
      case True
      with inj[OF j(1)] assms(4,5) show ?thesis by (auto simp: put_map_def free_for_def)
    next
      case False
      then have e: "m_pidMap (put_map i a m) (sc_pid j) = m_pidMap m (sc_pid j)" by (simp add: put_map_def)
      with assms(1) j obtain b where "b \<in> set net" "sc_pid b = m_pidMap m (sc_pid j)" "sc_streamType b = sc_streamType j" "m_pidIsMapped m (sc_pid b)"
        by (auto simp: sound_def)
      then show ?thesis unfolding e by (intro bexI[of _ b]) (auto simp: put_map_def)
    qed
  next
    fix j k assume jk: "j \<in> set ins" "k \<in> set ins"
      "m_pidMap (put_map i a m) (sc_pid j) = m_pidMap (put_map i a m) (sc_pid k) \<and> m_pidMap (put_map i a m) (sc_pid j) \<noteq> 0"
    show "j = k"
    proof (cases "sc_pid j = sc_pid i \<or> sc_pid k = sc_pid i")
      case True
      with inj[of j] inj[of k] jk other[of j] other[of k] show ?thesis by (auto simp: put_map_def split: if_splits)
    next
      case False
      with assms(1) jk show ?thesis by (auto simp: sound_def put_map_def)
    qed
  qed
qed

lemma map_audio_sound:
  assumes "sound all net m" "distinct (map sc_pid all)" "set ins \<subseteq> set all"
  shows "sound all net (snd (map_audio ins net n m))"
  using assms
proof (induction ins arbitrary: n m)
  case (Cons i ins)
  have "sound all net (snd (audio_scan i lang net n m))" for lang
    using Cons.prems put_map_sound[OF Cons.prems(1,2), of i]
    by (auto simp: audio_scan_find find_Some_iff split: option.split)
  with Cons show ?case by (auto split: option.split prod.split) (metis snd_conv)
qed simp

text \<open>C13. Audio streams are mapped soundly: with distinct PIDs every mapped stream of the insertion goes to a network stream of its own type, and no two go to the
  same one. But the languages of the network streams play no role, although the mapping is meant to be by language: whatever they are, the result is the
  same, because the second condition compares addresses.\<close>

theorem map_audio_by_type:
  assumes "distinct (map sc_pid ins)" "\<And>i. i \<in> set ins \<Longrightarrow> m_pidMap m (sc_pid i) = 0" "map_audio ins net n m = (n', m')"
  shows "(\<forall>i \<in> set ins. m_pidMap m' (sc_pid i) \<noteq> 0 \<longrightarrow> (\<exists>a \<in> set net. sc_pid a = m_pidMap m' (sc_pid i) \<and> sc_streamType a = sc_streamType i)) \<and>
     (\<forall>i \<in> set ins. \<forall>j \<in> set ins. m_pidMap m' (sc_pid i) = m_pidMap m' (sc_pid j) \<and> m_pidMap m' (sc_pid i) \<noteq> 0 \<longrightarrow> i = j) \<and>
     (\<forall>g. map_audio ins (map (\<lambda>a. a\<lparr>sc_associatedLanguage := g a\<rparr>) net) n m = (n', m'))"
proof -
  have "sound ins net m" using assms(2) by (simp add: sound_def)
  from map_audio_sound[OF this assms(1) order_refl, of n] assms(3) have "sound ins net m'" by simp
  then show ?thesis unfolding map_audio_languages assms(3) by (auto simp: sound_def)
qed

text \<open>An English and a Spanish stream of the network, and a Spanish stream of the insertion, which is mapped onto the English one.\<close>

definition sample_map :: RBIPidMap where
  "sample_map = \<lparr>m_pidMap = (\<lambda>_. 0), m_needPayloadStart = (\<lambda>_. False), m_pidIsMapped = (\<lambda>_. False), map_pmtPid = 0, m_replacementPAT = [], m_replacementPMT = [],
     m_psiInsertionIncomplete = False\<rparr>"

definition sample_audio :: "nat \<Rightarrow> byte list \<Rightarrow> RBIStreamComponent" where
  "sample_audio pid l = \<lparr>sc_streamType = 0x81, sc_pid = pid, sc_associatedLanguage = Some l\<rparr>"

theorem map_audio_by_type_witness:
  "\<exists>m'. map_audio [sample_audio 33 [115, 112, 97]] [sample_audio 65 [101, 110, 103], sample_audio 66 [115, 112, 97]] 0 sample_map = (1, m') \<and>
     m_pidMap m' 33 = 65 \<and>
     (\<forall>g. map_audio [sample_audio 33 [115, 112, 97]] (map (\<lambda>a. a\<lparr>sc_associatedLanguage := g a\<rparr>) [sample_audio 65 [101, 110, 103], sample_audio 66 [115, 112, 97]]) 0 sample_map = (1, m'))"
proof -
  let ?ins = "[sample_audio 33 [115, 112, 97]]" and ?net = "[sample_audio 65 [101, 110, 103], sample_audio 66 [115, 112, 97]]"
  let ?m = "put_map (sample_audio 33 [115, 112, 97]) (sample_audio 65 [101, 110, 103]) sample_map"
  have e: "map_audio ?ins ?net 0 sample_map = (1, ?m)" by (simp add: sample_map_def sample_audio_def otherwise_def)
  have "\<forall>g. map_audio ?ins (map (\<lambda>a. a\<lparr>sc_associatedLanguage := g a\<rparr>) ?net) 0 sample_map = (1, ?m)"
    using map_audio_by_type[OF _ _ e] by (simp add: sample_map_def sample_audio_def)
  with e show ?thesis by (intro exI[of _ ?m]) (simp add: put_map_def sample_map_def sample_audio_def)
qed

lemma order_map_undefined:
  "order_scan count m net = None \<Longrightarrow> i \<in> set ins \<Longrightarrow> m_pidMap m (sc_pid i) = 0 \<Longrightarrow> order_map count m ins net = None"
  by (induction ins) auto

text \<open>The mapping of the remaining audio by order never maps a stream. Without replication, when the insertion has more audio streams than the network, one of
  the first network streams and one of the insertion are unmapped, and the entry of the map at the number of streams is not the PID of the first network stream, the
  code reads the component behind the last one.\<close>

lemma order_mapping_undefined:
  assumes "\<not> m_audioReplicationEnabled S" "n < length net" "n < MAX_AUDIO_PID_COUNT" "length net < length ins"
    and "i \<in> set ins" "m_pidMap m (sc_pid i) = 0" "m_pidMap m (length ins) \<noteq> sc_pid (hd net)"
  shows "rest_audio ins net m n S = None"
proof -
  have "order_scan (length ins) m net = None" using assms(2,7) by (cases net) auto
  then have "order_map (length ins) m ins net = None" using assms(5,6) by (rule order_map_undefined)
  with assms(1-4) show ?thesis by (simp add: rest_audio_def)
qed

end
