(* ===== verification/Spec2Isabelle.thy ===== *)
theory Spec2Isabelle
  imports SectionRace SiMgrProperties SiConfig CacheCrc InbCatEnc InbInv RbiStamps RbiScan RbiPmt RbiScte RbiMap
begin

text \<open>
  Verification of the service information (SI) subsystem, out-of-band and inband, of the
  RDK media framework (\<^verbatim>\<open>src/qamsource/simgr\<close>), and of the stream processor of its remote bulk
  insertion (\<^verbatim>\<open>src/rbi\<close>).

  \<^bold>\<open>The program.\<close> A cable head end broadcasts four tables in MPEG-2 sections: the
  network information table (NIT: carrier frequencies and modulation modes), the
  short form virtual channel table (SVCT: virtual channel maps and defined
  channel maps), the network text table (NTT: source names) and the system time
  table (STT).  The section filter sets filters in the cable card driver, collects the sections
  that match and hands them out through integer handles; the parser reads a section piecewise
  through its handle and decodes it; the decoded values go to the SI cache, from
  which clients look up channels; the SI manager decides with versions and CRCs
  which sections are new, and tells clients when all tables are there.  A tuned stream carries its own
  tables: the inband manager filters and parses the program association table (PAT), program map tables (PMT), the conditional
  access table (CAT), the time tables (TDT, TOT) and private sections, and answers questions about programs and streams.
  Remote bulk insertion replaces spots in such a stream: the stream processor learns the streams from the program map table, finds
  opportunities in SCTE 35 sections and tells its listener of them, looks for frame types and frame sizes behind start
  codes, and gives the inserted packets clock references and time stamps that continue those of the network.

  \<^bold>\<open>Theories, from the bottom.\<close>
  \<^item> Prelude: bytes, checked array access (\<open>rd\<close>, \<open>wr\<close>, \<open>memcpy\<close> return \<open>None\<close> outside the
    array), the bit field macros and big endian fields, and \<open>wp Q r\<close>: the call \<open>r\<close> is defined and its
    result satisfies \<open>Q\<close>.
  \<^item> SymbolTable (\<^verbatim>\<open>inband/src/rmf_symboltable.cpp\<close>): the keyed list behind the section
    handles, with the contract \<open>symbol_map\<close>.
  \<^item> SectionQueue (\<^verbatim>\<open>inband/src/rmf_sectionfilter_util.cpp\<close>): the ring buffer of delivered sections, a
    refinement of a bounded list.
  \<^item> SectionFilter, SectionRequests, SectionRace (\<^verbatim>\<open>inband/src/rmf_sectionfilter.cpp\<close>): getting, sizing, reading and
    releasing a section, with the contract \<open>section_source\<close> on which the parsers rest; setting,
    cancelling and releasing filters and the delivery of sections, with the invariant of the
    requests, whose queue may be missing; and step relations for the delivery thread against the thread of the client, which
    sets filters with pre-emption, uses and releases them, in which no freed request is used.
  \<^item> SiCache (\<^verbatim>\<open>oob/src/rmf_oobsicache.cpp\<close>): service entries, source names, frequency
    and mode arrays, global state.  A pointer to an entry is its index in the list of
    entries; \<open>entry_setter\<close> is the contract shared by the setters.
  \<^item> Crc: the table driven CRC of the same file, equal to polynomial division.
  \<^item> ParserCommon: what the parsers of \<^verbatim>\<open>oob/src/rmf_oobsiparser.cpp\<close> share: their
    local state, descriptor loops, record loops, the common tail of a section; and the
    encoders that state their round trips, with the contract \<open>record_parser\<close>.
  \<^item> NitParser, SvctParser, NttParser: one parser each, whole, with the round trip
    from an encoded section to the updated cache.
  \<^item> RevisionData: the pass that finds the version, section numbers and CRC of a section without
    parsing it, the STT parser and the dispatcher over the tables.
  \<^item> SiTables: the records the manager keeps of a table and its sections, creating, resetting,
    matching and purging them, with the contract \<open>table_op\<close>.
  \<^item> OobSiMgr (\<^verbatim>\<open>oob/src/rmf_oobsimgr.cpp\<close>): the worker thread as a function of one event: choosing the table, both
    state handlers, filters, time-outs, the announcement of acquisition, registration of clients.
  \<^item> SiMgrSafety: one \<open>wp\<close> rule per operation of the manager and the invariant of its state;
    \<open>section_handler\<close> is the contract shared by the two handlers.
  \<^item> SiAcquisition: the composition of manager, filter, revision pass and parsers; runs of the
    worker.
  \<^item> SiMgrProperties: what is announced when, and where time-outs, timers and section numbers go wrong.
  \<^item> SiConfig: the configuration read from the environment.
  \<^item> OsFile (\<^verbatim>\<open>osal/src/rmf_osal_file_hd.c\<close>): files on a disk on which every call can fail or fall short.
  \<^item> SnsStore, CacheCrc (\<^verbatim>\<open>oob/src/rmf_oobsicache.cpp\<close>): the source names on disk, with the round trip over a restart, and
    the CRC by which a damaged pair of cache files is refused.
  \<^item> SectionFrames: what the filter operations leave alone, for both managers.
  \<^item> InbPsi (\<^verbatim>\<open>inband/src/rmf_inbsimgr.cpp\<close>): the manager of the tables in the tuned
    stream: its state, constructor, clients, events and filters, and which sections the filters let through.
  \<^item> InbPat, InbPmt, InbCat: the tables, one parser each, the time tables, private sections and the queries of clients; InbPmtEnc and
    InbCatEnc: encoders and what the parsers make of encoded sections.
  \<^item> InbMonitor: the thread, the requests of clients, pausing.
  \<^item> InbInv: the well-formedness of the inband manager, one lemma per operation, the transitions \<open>inb_call\<close> and the
    managers they reach.
  \<^item> RbiState (\<^verbatim>\<open>rbi/rbi.h\<close>, \<^verbatim>\<open>rbi/rbirpc.h\<close>): the state of the stream processor, as far as the modelled operations use it, and its
    constructor.
  \<^item> RbiTime, RbiRetime, RbiStamps (\<^verbatim>\<open>rbi/rbi.cpp\<close>): time stamps, clock references and base64; restamping during the insertion and both
    transitions; and what restamping does to a buffer, with the contract \<open>packet_step\<close> of one step of the loop over the
    packets, interpreted for the three functions.
  \<^item> RbiBits, RbiSps, RbiScan: the bit reader with Exp-Golomb codes, H.264 parameter sets, start codes with the unescaping of parameter
    sets; the syntax of H.264 as bits, and that coded parameter sets are read as coded.
  \<^item> RbiPmt: program map sections and the components of the state.
  \<^item> RbiScte: SCTE 35 sections, segmentation descriptors and triggers.
  \<^item> RbiMap: starting and stopping an insertion, and the mapping of its streams onto the PIDs of the network program.

  \<^bold>\<open>Results of a call.\<close> \<open>None\<close> is undefined behaviour of the C++ code (an access outside an
  array, a division by zero); every error code is a value.  Loops that move an offset are terminating
  functions, so every call is shown to return; where the code has no upper bound the fuel
  is the number of remaining bytes.  \<open>create_loop\<close> of \<open>SetFilter\<close> is a partial function, since it can spin
  forever; that it returns, and when it does not, are theorems.  So is \<open>packet_loop\<close>, which does not end for a packet
  size of 0; for every other size it is shown to return.

  \<^bold>\<open>Parameters.\<close> What the driver, the allocator, the clock, the event queues and uninitialised stack arrays
  contribute is an argument (\<open>sf_env\<close>, \<open>filter_env\<close>, \<open>si_env\<close>, \<open>inb_env\<close>, \<open>psi_input\<close>, \<open>rbi_env\<close>, and single functions such as \<open>malloc\<close> and \<open>due\<close>).  \<open>update_services\<close> of \<open>si_env\<close> stands for
  \<open>UpdateServiceEntries\<close>, which links service entries to the cache for inband tables; the runs of the worker ask of it that it
  keeps the cache well-formed.

  \<^bold>\<open>What is shown.\<close> Round trips and refinements for the three tables and the revision pass; the effect
  of a map on the entries of the cache; the CRC; look-up or creation of entries; safety of the filter
  requests, alone and under interleaving; that in every run a step of the manager is defined and keeps its
  tables and the cache well-formed, when the sections delivered encode tables; that a delivered section reaches the cache
  exactly when its CRC is new, and is counted when it is known; that full
  acquisition is announced once; that inband sections give clients their programs and streams, and that every reachable inband
  manager is well formed; that the time stamps of inserted packets are moved by the distance of the time bases and nothing else
  changes; that coded parameter sets, program maps and time signals give the frame size, the components and the trigger they
  stand for; that base64 is that of RFC 4648; that inserted audio goes to network streams of its type; and theorems that record defects of the code (lost error
  codes, copies and accesses past the end of an array, loops that never end, a reset of the wrong table, a
  lost table).

  \<^bold>\<open>Not modelled.\<close> Log output, mutexes around the cache, the service entries on disk, the STT and NTP
  threads of the manager and its client queries, the destructor of the inband manager and the cache for inband tables, with which
  the inband manager is not built by default.  Of the remote bulk insertion, the loop over the packets of a buffer and the switching
  between network and inserted stream (\<open>processPackets\<close> and the calls that fetch the inserted packets), AC-3 frame counting, the sources that
  fetch spots over HTTP, and the manager with its IARM interface.  Elsewhere, the GStreamer pipelines, the cable card stack, SNMP and the
  operating system layer but for its files.
\<close>

end
